(* ===== verification/Prelude.thy ===== *)
theory Prelude
  imports Main "HOL-Library.Word"
begin

text \<open>
  Shared ground of the development: the machine types, characters as bytes with the C library's
  classification functions in the C locale, decimal and hexadecimal text, and the generic lemmas
  on lists and words that the component theories use. A C string is modelled by the characters
  before its terminator; a buffer with an explicit length by the list of its bytes.
\<close>

unbundle bit_operations_syntax

named_theorems ctype_defs \<open>the character classes of \<open>ctype.h\<close>\<close>
named_theorems cap_defs \<open>buffer capacities and limits of the headers\<close>

type_synonym u8 = "8 word"
type_synonym u16 = "16 word"
type_synonym u32 = "32 word"
type_synonym u64 = "64 word"

abbreviation byte :: "char \<Rightarrow> nat" where
  "byte c \<equiv> of_char c"

abbreviation NUL :: char where "NUL \<equiv> CHR 0x00"
abbreviation CR :: char where "CR \<equiv> CHR 0x0D"
abbreviation LF :: char where "LF \<equiv> CHR 0x0A"
abbreviation TAB :: char where "TAB \<equiv> CHR 0x09"
abbreviation QUOTE :: char where "QUOTE \<equiv> CHR 0x22"
abbreviation BACKSLASH :: char where "BACKSLASH \<equiv> CHR 0x5C"

section \<open>Character classes\<close>

definition isdigit :: "char \<Rightarrow> bool" where
  [ctype_defs]: "isdigit c \<longleftrightarrow> 48 \<le> byte c \<and> byte c \<le> 57"

definition isspace :: "char \<Rightarrow> bool" where
  [ctype_defs]: "isspace c \<longleftrightarrow> byte c = 32 \<or> 9 \<le> byte c \<and> byte c \<le> 13"

definition isupper :: "char \<Rightarrow> bool" where
  [ctype_defs]: "isupper c \<longleftrightarrow> 65 \<le> byte c \<and> byte c \<le> 90"

definition islower :: "char \<Rightarrow> bool" where
  [ctype_defs]: "islower c \<longleftrightarrow> 97 \<le> byte c \<and> byte c \<le> 122"

definition isalnum :: "char \<Rightarrow> bool" where
  [ctype_defs]: "isalnum c \<longleftrightarrow> isdigit c \<or> isupper c \<or> islower c"

definition isxdigit :: "char \<Rightarrow> bool" where
  [ctype_defs]: "isxdigit c \<longleftrightarrow>
     isdigit c \<or> 65 \<le> byte c \<and> byte c \<le> 70 \<or> 97 \<le> byte c \<and> byte c \<le> 102"

definition tolower :: "char \<Rightarrow> char" where
  "tolower c = (if isupper c then char_of (byte c + 32) else c)"

text \<open>\<open>strcasecmp(a, b) == 0\<close> and \<open>strncasecmp\<close> on texts of the same length.\<close>

definition strcase_eq :: "string \<Rightarrow> string \<Rightarrow> bool" where
  "strcase_eq a b \<longleftrightarrow> map tolower a = map tolower b"

lemma byte_inj [simp]: "byte c = byte d \<longleftrightarrow> c = d"
  by (metis char_of_char)

lemma byte_less_256 [simp]: "byte c < 256"
  by simp

lemma char_of_numeral [simp]:
  "char_of (numeral k :: nat) =
     Char (odd (numeral k :: nat)) (bit (numeral k :: nat) 1) (bit (numeral k :: nat) 2)
          (bit (numeral k :: nat) 3) (bit (numeral k :: nat) 4) (bit (numeral k :: nat) 5)
          (bit (numeral k :: nat) 6) (bit (numeral k :: nat) 7)"
  unfolding char_of_def by (simp only: bit_0)

declare bit_Suc_0_iff [simp]

lemma byte_char_of [simp]: "n < 256 \<Longrightarrow> byte (char_of n) = n"
  by simp

lemma char_eq_byte_iff: "c = d \<longleftrightarrow> byte c = byte d"
  by simp

section \<open>C strings and simple list functions\<close>

text \<open>No terminator inside: what makes a list of characters the contents of a C string.\<close>

definition nul_free :: "string \<Rightarrow> bool" where
  "nul_free s \<longleftrightarrow> NUL \<notin> set s"

lemma nul_free_simps [simp]:
  "nul_free []"
  "nul_free (c # s) \<longleftrightarrow> c \<noteq> NUL \<and> nul_free s"
  "nul_free (s @ t) \<longleftrightarrow> nul_free s \<and> nul_free t"
  by (auto simp: nul_free_def)

text \<open>\<open>cstr b\<close> is the C string at the start of the buffer \<open>b\<close>.\<close>

definition cstr :: "string \<Rightarrow> string" where
  "cstr b = takeWhile (\<lambda>c. c \<noteq> NUL) b"

lemma cstr_id [simp]: "nul_free s \<Longrightarrow> cstr s = s"
  by (auto simp: cstr_def nul_free_def takeWhile_eq_all_conv)

lemma nul_free_cstr [simp]: "nul_free (cstr b)"
  by (auto simp: cstr_def nul_free_def dest: set_takeWhileD)

definition starts_with :: "string \<Rightarrow> string \<Rightarrow> bool" where
  "starts_with p s \<longleftrightarrow> take (length p) s = p"

lemma starts_with_append [simp]: "starts_with p (p @ s)"
  by (simp add: starts_with_def)

lemma starts_with_length: "starts_with p s \<Longrightarrow> length p \<le> length s"
  by (metis starts_with_def length_take min.cobounded1 min.commute)

lemma starts_with_iff: "starts_with p s \<longleftrightarrow> (\<exists>t. s = p @ t)"
  unfolding starts_with_def by (metis append_take_drop_id append_eq_conv_conj)

lemma length_dropWhile_le' [simp]: "length (dropWhile P xs) \<le> length xs"
  by (simp add: length_dropWhile_le)

lemma dropWhile_head: "dropWhile P xs = y # ys \<Longrightarrow> \<not> P y"
  by (metis dropWhile_eq_Cons_conv)

lemma takeWhile_append_stop [simp]:
  "\<forall>c \<in> set s. P c \<Longrightarrow> \<not> P d \<Longrightarrow> takeWhile P (s @ d # r) = s"
  by (induction s) auto

lemma dropWhile_append_stop [simp]:
  "\<forall>c \<in> set s. P c \<Longrightarrow> \<not> P d \<Longrightarrow> dropWhile P (s @ d # r) = d # r"
  by (induction s) auto

section \<open>Decimal text\<close>

abbreviation digit_val :: "char \<Rightarrow> nat" where
  "digit_val c \<equiv> byte c - 48"

definition digit_char :: "nat \<Rightarrow> char" where
  "digit_char d = ''0123456789'' ! d"

lemma less_10_cases: "(d::nat) < 10 \<Longrightarrow> d \<in> {0, 1, 2, 3, 4, 5, 6, 7, 8, 9}"
  by auto

lemma digit_char_props:
  "d < 10 \<Longrightarrow> isdigit (digit_char d) \<and> digit_val (digit_char d) = d"
  by (drule less_10_cases) (auto simp: digit_char_def isdigit_def)

lemma isdigit_digit_char [simp]: "d < 10 \<Longrightarrow> isdigit (digit_char d)"
  by (simp add: digit_char_props)

lemma digit_val_digit_char [simp]: "d < 10 \<Longrightarrow> digit_val (digit_char d) = d"
  by (simp add: digit_char_props)

text \<open>The text \<open>snprintf\<close> writes for \<open>%u\<close>, \<open>%zu\<close>, \<open>%llu\<close> and non-negative \<open>%d\<close>.\<close>

fun dec :: "nat \<Rightarrow> string" where
  "dec n = (if n < 10 then [digit_char n] else dec (n div 10) @ [digit_char (n mod 10)])"

declare dec.simps [simp del]

lemma dec_small: "n < 10 \<Longrightarrow> dec n = [digit_char n]"
  by (simp add: dec.simps)

lemma dec_big: "10 \<le> n \<Longrightarrow> dec n = dec (n div 10) @ [digit_char (n mod 10)]"
  by (subst dec.simps) simp

lemma dec_not_Nil [simp]: "dec n \<noteq> []"
  by (subst dec.simps) simp

lemma dec_digits: "c \<in> set (dec n) \<Longrightarrow> isdigit c"
proof (induction n rule: dec.induct)
  case (1 n)
  show ?case
  proof (cases "n < 10")
    case True
    with "1.prems" show ?thesis by (simp add: dec_small)
  next
    case False
    with "1.prems" have "c \<in> set (dec (n div 10)) \<or> c = digit_char (n mod 10)"
      by (auto simp: dec_big)
    with "1.IH" False show ?thesis by auto
  qed
qed

lemma isdigit_not_NUL: "isdigit c \<Longrightarrow> c \<noteq> NUL"
  by (auto simp: isdigit_def)

lemma nul_free_dec [simp]: "nul_free (dec n)"
  using dec_digits isdigit_not_NUL by (fastforce simp: nul_free_def)

lemma dec_no_leading_zero: "0 < n \<Longrightarrow> hd (dec n) \<noteq> CHR ''0''"
proof (induction n rule: dec.induct)
  case (1 n)
  show ?case
  proof (cases "n < 10")
    case True
    with "1.prems" less_10_cases [OF True] show ?thesis
      by (auto simp: dec_small digit_char_def)
  next
    case False
    with "1.IH" show ?thesis by (simp add: dec_big)
  qed
qed

lemma length_dec_bound: "n < 10 ^ Suc k \<Longrightarrow> length (dec n) \<le> Suc k"
proof (induction k arbitrary: n)
  case 0
  then show ?case by (simp add: dec_small)
next
  case (Suc k)
  then have "n div 10 < 10 ^ Suc k"
    by (simp add: less_mult_imp_div_less mult.commute)
  with Suc.IH have "length (dec (n div 10)) \<le> Suc k" by blast
  then show ?case by (cases "n < 10") (auto simp: dec_small dec_big)
qed

text \<open>The number a digit string stands for, read from the left with an accumulator.\<close>

fun dec_value :: "nat \<Rightarrow> string \<Rightarrow> nat" where
  "dec_value a [] = a"
| "dec_value a (c # cs) = dec_value (10 * a + digit_val c) cs"

lemma dec_value_append [simp]: "dec_value a (s @ t) = dec_value (dec_value a s) t"
  by (induction s arbitrary: a) auto

lemma dec_value_ge: "a \<le> dec_value a s"
proof (induction s arbitrary: a)
  case (Cons c s)
  have "a \<le> 10 * a + digit_val c" by simp
  also have "\<dots> \<le> dec_value (10 * a + digit_val c) s" by (rule Cons.IH)
  finally show ?case by simp
qed simp

lemma dec_value_dec [simp]: "dec_value 0 (dec n) = n"
proof (induction n rule: dec.induct)
  case (1 n)
  show ?case
  proof (cases "n < 10")
    case True
    then show ?thesis by (simp add: dec_small)
  next
    case False
    with "1.IH" show ?thesis by (simp add: dec_big)
  qed
qed

lemma dec_inject [simp]: "dec m = dec n \<longleftrightarrow> m = n"
  by (metis dec_value_dec)

section \<open>Overflow-checked decimal accumulation\<close>

text \<open>
  The loop every unsigned parser of the sources runs: while a digit follows, fail if
  \<open>parsed > (MAX - digit) / 10\<close>, else \<open>parsed = parsed * 10 + digit\<close>. It returns the value, the
  number of digits and the rest; \<open>None\<close> is the overflow.
\<close>

fun dec_accum :: "'w::len word \<Rightarrow> nat \<Rightarrow> string \<Rightarrow> ('w word \<times> nat \<times> string) option" where
  "dec_accum parsed digits [] = Some (parsed, digits, [])"
| "dec_accum parsed digits (c # cs) =
     (if isdigit c then
        (let digit = of_nat (digit_val c) in
         if parsed > (- 1 - digit) div 10 then None
         else dec_accum (parsed * 10 + digit) (Suc digits) cs)
      else Some (parsed, digits, c # cs))"

lemma isdigit_val_less: "isdigit c \<Longrightarrow> digit_val c < 10"
  by (auto simp: isdigit_def)

lemma unat_minus_one_max: "unat (- 1 :: 'w::len word) = 2 ^ LENGTH('w) - 1"
  by (simp only: unsigned_minus_1_eq_mask mask_eq_exp_minus_1)

lemma overflow_check:
  fixes p :: "'w::len word"
  assumes "d < 10" and "3 < LENGTH('w)"
  shows "p > (- 1 - of_nat d) div 10 \<longleftrightarrow> 2 ^ LENGTH('w) \<le> 10 * unat p + d"
    and "10 * unat p + d < 2 ^ LENGTH('w) \<Longrightarrow> unat (p * 10 + of_nat d) = 10 * unat p + d"
proof -
  have "(2::nat) ^ 4 \<le> 2 ^ LENGTH('w)"
    using assms(2) by (intro power_increasing) auto
  then have big: "10 < (2::nat) ^ LENGTH('w)" by simp
  have ud: "unat (of_nat d :: 'w word) = d"
    using assms(1) big by (simp add: unat_of_nat)
  have "unat (of_nat 10 :: 'w word) = 10"
    unfolding unat_of_nat using big by (rule mod_less)
  then have u10: "unat (10 :: 'w word) = 10"
    by (simp only: of_nat_numeral)
  have "(of_nat d :: 'w word) \<le> - 1" by simp
  then have "unat (- 1 - of_nat d :: 'w word) = 2 ^ LENGTH('w) - 1 - d"
    by (simp add: unat_sub ud unat_minus_one_max)
  then have "unat ((- 1 - of_nat d :: 'w word) div 10) = (2 ^ LENGTH('w) - 1 - d) div 10"
    by (simp only: unat_div u10)
  then show "p > (- 1 - of_nat d) div 10 \<longleftrightarrow> 2 ^ LENGTH('w) \<le> 10 * unat p + d"
    using assms(1) big by (simp add: word_less_nat_alt) linarith
  show "unat (p * 10 + of_nat d) = 10 * unat p + d" if "10 * unat p + d < 2 ^ LENGTH('w)"
    unfolding unat_word_ariths ud u10 using that by (simp add: mult.commute)
qed

lemma dec_accum_digits:
  fixes p :: "'w::len word"
  assumes "\<forall>c \<in> set ds. isdigit c" and "rest = [] \<or> \<not> isdigit (hd rest)" and "3 < LENGTH('w)"
  shows "dec_accum p k (ds @ rest) =
           (if dec_value (unat p) ds < 2 ^ LENGTH('w)
            then Some (of_nat (dec_value (unat p) ds), k + length ds, rest) else None)"
  using assms(1)
proof (induction ds arbitrary: p k)
  case Nil
  show ?case using assms(2) by (cases rest) auto
next
  case (Cons c ds)
  then have c: "isdigit c" and ds: "\<forall>c \<in> set ds. isdigit c" by auto
  note d = isdigit_val_less [OF c]
  note chk = overflow_check [OF d assms(3), of p]
  show ?case
  proof (cases "2 ^ LENGTH('w) \<le> 10 * unat p + digit_val c")
    case True
    with dec_value_ge [of "10 * unat p + digit_val c" ds] have
      "\<not> dec_value (unat p) (c # ds) < 2 ^ LENGTH('w)" by simp
    with True c chk(1) show ?thesis by (simp add: Let_def)
  next
    case False
    with c chk(1) Cons.IH [OF ds] chk(2) show ?thesis by (simp add: Let_def)
  qed
qed

corollary dec_accum_dec:
  fixes w :: "'w::len word"
  assumes "rest = [] \<or> \<not> isdigit (hd rest)" and "3 < LENGTH('w)"
  shows "dec_accum (0 :: 'w word) 0 (dec (unat w) @ rest) = Some (w, length (dec (unat w)), rest)"
  using dec_accum_digits [of "dec (unat w)" rest "0 :: 'w word" 0] assms dec_digits
  by auto

lemma dec_accum_consumes:
  "dec_accum p k s = Some (v, k', r) \<Longrightarrow> length r + k' = length s + k \<and> k \<le> k'"
  by (induction p k s rule: dec_accum.induct) (auto simp: Let_def split: if_splits)

section \<open>Clocks\<close>

text \<open>The times of a sequence of polls: the clock does not run backwards and pauses for at most \<open>gap\<close>.\<close>

definition paced :: "nat \<Rightarrow> u64 list \<Rightarrow> bool" where
  "paced gap clock \<longleftrightarrow> successively (\<lambda>a b. unat a \<le> unat b \<and> unat b \<le> unat a + gap) clock"

lemma paced_snoc:
  "paced gap (a # clock @ [now]) \<longleftrightarrow>
     paced gap (a # clock) \<and> unat (last (a # clock)) \<le> unat now \<and> unat now \<le> unat (last (a # clock)) + gap"
  using successively_append_iff [of _ "a # clock" "[now]"] by (auto simp: paced_def)

lemma paced_append: "paced gap (t # xs @ ys) \<Longrightarrow> paced gap (t # xs) \<and> paced gap (last (t # xs) # ys)"
  unfolding paced_def by (induction xs arbitrary: t) auto

lemma paced_last: "paced gap (t # clock) \<Longrightarrow> unat t \<le> unat (last (t # clock))"
  unfolding paced_def by (induction clock arbitrary: t) (auto split: if_splits intro: order_trans)

end
