(* ===== verification/Utf8.thy ===== *)
theory Utf8
  imports Prelude
begin

text \<open>
  The UTF-8 checks. The sources hold three copies of one decoder (\<open>valid_utf8_length\<close> of
  \<open>localsend_protocol.c\<close>, \<open>utf8_sequence_length\<close> of \<open>filesystem.c\<close> and of \<open>settings.c\<close>); the last
  also returns the code point. \<open>available\<close> is the length of the remaining list. Encoding a code
  point is \<open>append_codepoint\<close> of the protocol without its capacity check.
\<close>

definition utf8_lead :: "nat \<Rightarrow> (nat \<times> nat) option" where
  "utf8_lead first =
     (if 0xc2 \<le> first \<and> first \<le> 0xdf then Some (2, first AND 0x1f)
      else if 0xe0 \<le> first \<and> first \<le> 0xef then Some (3, first AND 0x0f)
      else if 0xf0 \<le> first \<and> first \<le> 0xf4 then Some (4, first AND 0x07)
      else None)"

fun utf8_tail :: "nat \<Rightarrow> string \<Rightarrow> nat option" where
  "utf8_tail codepoint [] = Some codepoint"
| "utf8_tail codepoint (c # cs) =
     (if byte c AND 0xc0 \<noteq> 0x80 then None
      else utf8_tail (push_bit 6 codepoint OR (byte c AND 0x3f)) cs)"

definition utf8_bad :: "nat \<Rightarrow> nat \<Rightarrow> bool" where
  "utf8_bad count codepoint \<longleftrightarrow>
     count = 3 \<and> codepoint < 0x800 \<or> count = 4 \<and> codepoint < 0x10000 \<or>
     0xd800 \<le> codepoint \<and> codepoint \<le> 0xdfff \<or> 0x10ffff < codepoint"

text \<open>The sequence length and the code point at the start of the input; \<open>None\<close> is the return value 0.\<close>

definition utf8_sequence :: "string \<Rightarrow> (nat \<times> nat) option" where
  "utf8_sequence input =
     (case input of [] \<Rightarrow> None
      | c # cs \<Rightarrow>
          (if byte c < 0x80 then Some (1, byte c)
           else case utf8_lead (byte c) of None \<Rightarrow> None
             | Some (count, codepoint) \<Rightarrow>
                 (if length input < count then None
                  else case utf8_tail codepoint (take (count - 1) cs) of None \<Rightarrow> None
                    | Some codepoint \<Rightarrow>
                        (if utf8_bad count codepoint then None else Some (count, codepoint)))))"

definition valid_utf8_length :: "string \<Rightarrow> nat" where
  "valid_utf8_length input = (case utf8_sequence input of None \<Rightarrow> 0 | Some (count, _) \<Rightarrow> count)"

definition fs_utf8_sequence_length :: "string \<Rightarrow> nat" where
  "fs_utf8_sequence_length input =
     (case utf8_sequence input of None \<Rightarrow> 0 | Some (count, _) \<Rightarrow> count)"

text \<open>The bytes \<open>append_codepoint\<close> appends.\<close>

definition codepoint_bytes :: "nat \<Rightarrow> string" where
  "codepoint_bytes codepoint =
     (if codepoint \<le> 0x7f then [char_of codepoint]
      else if codepoint \<le> 0x7ff then
        [char_of (0xc0 OR drop_bit 6 codepoint), char_of (0x80 OR (codepoint AND 0x3f))]
      else if codepoint \<le> 0xffff then
        [char_of (0xe0 OR drop_bit 12 codepoint),
         char_of (0x80 OR (drop_bit 6 codepoint AND 0x3f)),
         char_of (0x80 OR (codepoint AND 0x3f))]
      else
        [char_of (0xf0 OR drop_bit 18 codepoint),
         char_of (0x80 OR (drop_bit 12 codepoint AND 0x3f)),
         char_of (0x80 OR (drop_bit 6 codepoint AND 0x3f)),
         char_of (0x80 OR (codepoint AND 0x3f))])"

definition scalar_value :: "nat \<Rightarrow> bool" where
  "scalar_value cp \<longleftrightarrow> cp < 0xd800 \<or> 0xdfff < cp \<and> cp \<le> 0x10ffff"

section \<open>Bit operations as arithmetic\<close>

lemma or_high_low:
  fixes a m :: nat
  assumes "m < 2 ^ k"
  shows "push_bit k a OR m = push_bit k a + m"
proof -
  have "\<not> bit m n" if "k \<le> n" for n
    using assms that
    by (metis bit_take_bit_iff leD take_bit_nat_eq_self)
  then show ?thesis
    by (subst disjunctive_add) (auto simp: bit_push_bit_iff not_le)
qed

lemma and_low6: "(n::nat) AND 0x3f = n mod 64"
  using take_bit_eq_mask [of 6 n] by (simp add: mask_eq_exp_minus_1 take_bit_eq_mod)

lemma and_low5: "(n::nat) AND 0x1f = n mod 32"
  using take_bit_eq_mask [of 5 n] by (simp add: mask_eq_exp_minus_1 take_bit_eq_mod)

lemma and_low4: "(n::nat) AND 0x0f = n mod 16"
  using take_bit_eq_mask [of 4 n] by (simp add: mask_eq_exp_minus_1 take_bit_eq_mod)

lemma and_low3: "(n::nat) AND 0x07 = n mod 8"
  using take_bit_eq_mask [of 3 n] by (simp add: mask_eq_exp_minus_1 take_bit_eq_mod)

lemma or_80: "m < 64 \<Longrightarrow> (0x80::nat) OR m = 128 + m"
  using or_high_low [of m 6 2] by simp

lemma or_c0: "m < 32 \<Longrightarrow> (0xc0::nat) OR m = 192 + m"
  using or_high_low [of m 5 6] by simp

lemma or_e0: "m < 16 \<Longrightarrow> (0xe0::nat) OR m = 224 + m"
  using or_high_low [of m 4 14] by simp

lemma or_f0: "m < 8 \<Longrightarrow> (0xf0::nat) OR m = 240 + m"
  using or_high_low [of m 3 30] by simp

lemma push6_or: "m < 64 \<Longrightarrow> push_bit 6 a OR m = 64 * a + (m::nat)"
  using or_high_low [of m 6 a] by (simp add: push_bit_eq_mult mult.commute)

lemma and_c0: "(x::nat) AND 0xc0 = 64 * (x div 64 mod 4)"
proof -
  have "(0xc0::nat) = push_bit 6 (mask 2)" by (simp add: mask_eq_exp_minus_1)
  moreover have "x AND push_bit 6 (mask 2) = push_bit 6 (take_bit 2 (drop_bit 6 x))"
    by (rule bit_eqI) (auto simp: bit_simps)
  ultimately show ?thesis
    by (simp add: push_bit_eq_mult drop_bit_eq_div take_bit_eq_mod mult.commute)
qed

lemma continuation_iff: "x < 256 \<Longrightarrow> (x::nat) AND 0xc0 = 0x80 \<longleftrightarrow> 128 \<le> x \<and> x < 192"
proof -
  assume "x < 256"
  then have "x div 64 mod 4 = x div 64" by simp
  moreover have "x div 64 = 2 \<longleftrightarrow> 128 \<le> x \<and> x < 192" by arith
  ultimately show ?thesis by (simp add: and_c0)
qed

lemmas utf8_arith = and_low6 and_low5 and_low4 and_low3 or_80 or_c0 or_e0 or_f0 push6_or
  continuation_iff

section \<open>Encoding and decoding\<close>

lemma utf8_lead_bounds: "utf8_lead n = Some (k, cp) \<Longrightarrow> 2 \<le> k \<and> k \<le> 4 \<and> 0xc2 \<le> n \<and> n \<le> 0xf4"
  by (auto simp: utf8_lead_def split: if_splits)

lemma utf8_tail_bytes: "utf8_tail cp s = Some v \<Longrightarrow> c \<in> set s \<Longrightarrow> 0x80 \<le> byte c \<and> byte c < 0xc0"
  by (induction cp s rule: utf8_tail.induct) (auto simp: continuation_iff split: if_splits)

lemma utf8_sequence_bounds:
  "utf8_sequence s = Some (k, cp) \<Longrightarrow> 1 \<le> k \<and> k \<le> 4 \<and> k \<le> length s"
  by (auto simp: utf8_sequence_def split: list.splits if_splits option.splits
      dest: utf8_lead_bounds)

lemma utf8_sequence_bytes:
  assumes "utf8_sequence s = Some (k, cp)" and "c \<in> set (take k s)"
  shows "byte c < 0x80 \<and> k = 1 \<or> 0x80 \<le> byte c \<and> 2 \<le> k"
proof -
  obtain d ds where s: "s = d # ds"
    using assms(1) by (cases s) (auto simp: utf8_sequence_def)
  show ?thesis
  proof (cases "byte d < 0x80")
    case True
    then show ?thesis using assms s by (auto simp: utf8_sequence_def)
  next
    case False
    then obtain cp0 v where l: "utf8_lead (byte d) = Some (k, cp0)"
      and t: "utf8_tail cp0 (take (k - 1) ds) = Some v"
      using assms(1) s by (auto simp: utf8_sequence_def split: option.splits if_splits)
    from utf8_lead_bounds [OF l] obtain j where k: "k = Suc j" "1 \<le> j" by (cases k) auto
    then have "c = d \<or> c \<in> set (take (k - 1) ds)" using assms(2) s by auto
    with utf8_tail_bytes [OF t] utf8_lead_bounds [OF l] k show ?thesis by auto
  qed
qed

lemma utf8_sequence_append:
  "utf8_sequence s = Some (k, cp) \<Longrightarrow> utf8_sequence (s @ t) = Some (k, cp)"
  by (auto simp: utf8_sequence_def split: list.splits if_splits option.splits
      dest: utf8_lead_bounds)

lemma utf8_sequence_take:
  "utf8_sequence s = Some (k, cp) \<Longrightarrow> utf8_sequence (take k s @ t) = Some (k, cp)"
proof -
  assume s: "utf8_sequence s = Some (k, cp)"
  from utf8_sequence_bounds [OF s] have "length (take k s) = k" by simp
  with s have "utf8_sequence (take k s) = Some (k, cp)"
    by (cases s; cases k)
       (auto simp: utf8_sequence_def split: if_splits option.splits dest: utf8_lead_bounds)
  then show ?thesis by (rule utf8_sequence_append)
qed

lemma dvd_add_mod: "k dvd a \<Longrightarrow> (a + n) mod k = n mod (k::nat)"
  by (metis add_0 mod_add_left_eq dvd_imp_mod_0)

lemma div_mod_64: "64 * (n div 64) + n mod 64 = (n::nat)"
  by simp

lemma utf8_tail_step:
  "m < 64 \<Longrightarrow> utf8_tail cp (char_of (128 + m) # cs) = utf8_tail (64 * cp + m) cs"
proof -
  assume m: "m < 64"
  then have "(128 + m) AND 0x3f = m" unfolding and_low6 using dvd_add_mod [of 64 128 m] by simp
  moreover have "(128 + m) AND 0xc0 = 0x80" using m continuation_iff [of "128 + m"] by simp
  ultimately show ?thesis using m by (simp add: push6_or)
qed

lemma utf8_lead_2: "2 \<le> m \<Longrightarrow> m < 32 \<Longrightarrow> utf8_lead (192 + m) = Some (2, m)"
  using dvd_add_mod [of 32 192 m] by (simp add: utf8_lead_def and_low5)

lemma utf8_lead_3: "m < 16 \<Longrightarrow> utf8_lead (224 + m) = Some (3, m)"
  using dvd_add_mod [of 16 224 m] by (simp add: utf8_lead_def and_low4)

lemma utf8_lead_4: "m < 5 \<Longrightarrow> utf8_lead (240 + m) = Some (4, m)"
  using dvd_add_mod [of 8 240 m] by (simp add: utf8_lead_def and_low3)

lemma utf8_sequence_codepoint:
  assumes "scalar_value cp"
  shows "utf8_sequence (codepoint_bytes cp @ t) = Some (length (codepoint_bytes cp), cp)"
proof -
  consider "cp < 0x80" | "0x80 \<le> cp" "cp < 0x800" | "0x800 \<le> cp" "cp < 0x10000"
    | "0x10000 \<le> cp" "cp < 0x110000"
    using assms by (fastforce simp: scalar_value_def)
  then show ?thesis
  proof cases
    case 1
    then show ?thesis by (simp add: codepoint_bytes_def utf8_sequence_def)
  next
    case 2
    then have d: "2 \<le> cp div 64" "cp div 64 < 32" by auto
    have b: "codepoint_bytes cp = [char_of (192 + cp div 64), char_of (128 + cp mod 64)]"
      using 2 d by (simp add: codepoint_bytes_def utf8_arith drop_bit_eq_div)
    show ?thesis using 2 d
      by (simp add: b utf8_sequence_def utf8_lead_2 utf8_tail_step utf8_bad_def
          del: utf8_tail.simps(2))
  next
    case 3
    then have d: "cp div 4096 < 16" by auto
    have b: "codepoint_bytes cp = [char_of (224 + cp div 4096), char_of (128 + cp div 64 mod 64),
        char_of (128 + cp mod 64)]"
      using 3 d by (simp add: codepoint_bytes_def utf8_arith drop_bit_eq_div)
    have v: "64 * (64 * (cp div 4096) + cp div 64 mod 64) + cp mod 64 = cp"
      using div_mod_64 [of "cp div 64"] div_mod_64 [of cp] by (simp flip: div_mult2_eq)
    have "\<not> utf8_bad 3 cp" using 3 assms by (auto simp: utf8_bad_def scalar_value_def)
    then show ?thesis using 3 d v
      by (simp add: b utf8_sequence_def utf8_lead_3 utf8_tail_step del: utf8_tail.simps(2))
  next
    case 4
    then have d: "cp div 262144 < 5" by auto
    have b: "codepoint_bytes cp = [char_of (240 + cp div 262144), char_of (128 + cp div 4096 mod 64),
        char_of (128 + cp div 64 mod 64), char_of (128 + cp mod 64)]"
      using 4 d by (simp add: codepoint_bytes_def utf8_arith drop_bit_eq_div)
    have v: "64 * (64 * (64 * (cp div 262144) + cp div 4096 mod 64) + cp div 64 mod 64) + cp mod 64 = cp"
      using div_mod_64 [of "cp div 4096"] div_mod_64 [of "cp div 64"] div_mod_64 [of cp]
      by (simp flip: div_mult2_eq)
    have "\<not> utf8_bad 4 cp" using 4 by (simp add: utf8_bad_def)
    then show ?thesis using d v
      by (simp add: b utf8_sequence_def utf8_lead_4 utf8_tail_step del: utf8_tail.simps(2))
  qed
qed

section \<open>Well-formed texts\<close>

text \<open>A text is well formed when it is a sequence of valid code points.\<close>

function valid_utf8 :: "string \<Rightarrow> bool" where
  "valid_utf8 s =
     (s = [] \<or> (case utf8_sequence s of None \<Rightarrow> False | Some (k, _) \<Rightarrow> valid_utf8 (drop k s)))"
  by pat_completeness auto
termination
  by (relation "measure length") (auto dest: utf8_sequence_bounds)

declare valid_utf8.simps [simp del]

lemma valid_utf8_Nil [simp]: "valid_utf8 []"
  by (subst valid_utf8.simps) simp

lemma valid_utf8_sequence:
  "utf8_sequence s = Some (k, cp) \<Longrightarrow> valid_utf8 s \<longleftrightarrow> valid_utf8 (drop k s)"
  by (subst valid_utf8.simps) (auto simp: utf8_sequence_def split: list.splits)

lemma valid_utf8_ascii [simp]: "byte c < 0x80 \<Longrightarrow> valid_utf8 (c # s) \<longleftrightarrow> valid_utf8 s"
  using valid_utf8_sequence [of "c # s" 1 "byte c"] by (simp add: utf8_sequence_def)

lemma valid_utf8_induct [consumes 1, case_names Nil Seq]:
  assumes "valid_utf8 s"
    and "P []"
    and "\<And>s k cp. utf8_sequence s = Some (k, cp) \<Longrightarrow> valid_utf8 (drop k s) \<Longrightarrow> P (drop k s) \<Longrightarrow> P s"
  shows "P s"
  using assms(1)
proof (induction "length s" arbitrary: s rule: less_induct)
  case less
  show ?case
  proof (cases "s = []")
    case True
    with assms(2) show ?thesis by simp
  next
    case False
    with less.prems obtain k cp where k: "utf8_sequence s = Some (k, cp)" and v: "valid_utf8 (drop k s)"
      by (subst (asm) valid_utf8.simps) (auto split: option.splits)
    from utf8_sequence_bounds [OF k] False have "length (drop k s) < length s"
      by (cases s) auto
    from less.hyps [OF this v] k v show ?thesis by (rule assms(3) [rotated 2])
  qed
qed

lemma valid_utf8_append [simp]: "valid_utf8 s \<Longrightarrow> valid_utf8 (s @ t) \<longleftrightarrow> valid_utf8 t"
proof (induction s rule: valid_utf8_induct)
  case (Seq s k cp)
  with utf8_sequence_bounds [OF Seq.hyps(1)] utf8_sequence_append [OF Seq.hyps(1), of t]
  show ?case by (simp add: valid_utf8_sequence)
qed simp

lemma valid_utf8_take:
  "utf8_sequence s = Some (k, cp) \<Longrightarrow> valid_utf8 (take k s)"
  using utf8_sequence_take [of s k cp "[]"] utf8_sequence_bounds [of s k cp]
  by (simp add: valid_utf8_sequence)

lemma valid_utf8_codepoint: "scalar_value cp \<Longrightarrow> valid_utf8 (codepoint_bytes cp)"
  using utf8_sequence_codepoint [of cp "[]"] by (simp add: valid_utf8_sequence)

lemma valid_utf8_ascii_all: "\<forall>c \<in> set s. byte c < 0x80 \<Longrightarrow> valid_utf8 s"
  by (induction s) auto

lemma codepoint_bytes_NUL: "scalar_value cp \<Longrightarrow> cp \<noteq> 0 \<Longrightarrow> nul_free (codepoint_bytes cp)"
proof -
  assume cp: "scalar_value cp" "cp \<noteq> 0"
  show ?thesis
  proof (cases "cp < 0x80")
    case True
    with cp(2) show ?thesis by (simp add: codepoint_bytes_def char_eq_byte_iff)
  next
    case False
    then have "utf8_sequence (codepoint_bytes cp) = Some (length (codepoint_bytes cp), cp)"
      "length (codepoint_bytes cp) \<noteq> 1"
      using utf8_sequence_codepoint [OF cp(1), of "[]"] by (auto simp: codepoint_bytes_def)
    from utf8_sequence_bytes [OF this(1)] this(2)
    have "byte c \<ge> 0x80" if "c \<in> set (codepoint_bytes cp)" for c
      using that by fastforce
    then show ?thesis by (fastforce simp: nul_free_def)
  qed
qed

end
