(* ===== verification/Json.thy ===== *)
theory Json
  imports Utf8
begin

text \<open>
  The JSON reader and writer of \<open>source/localsend_protocol.c\<close>. A cursor is the input it has not
  yet read: \<open>data[position..length)\<close> as a list, so advancing the position is dropping a prefix
  (\<open>cursor->length - cursor->position\<close> is the list's length). The nesting depth, which every
  successful skip restores, is an argument of the skipping functions. Functions that can fail
  return a sum or an option; after a failure every caller stops, so no cursor is returned then.
\<close>

section \<open>Reading: tokens\<close>

datatype json_error = JSON_INVALID | JSON_TOO_LONG

definition skip_whitespace :: "string \<Rightarrow> string" where
  "skip_whitespace = dropWhile isspace"

definition take_char :: "char \<Rightarrow> string \<Rightarrow> string option" where
  "take_char expected cursor =
     (case skip_whitespace cursor of [] \<Rightarrow> None
      | c # rest \<Rightarrow> (if c = expected then Some rest else None))"

definition hex_value :: "char \<Rightarrow> nat option" where
  "hex_value c =
     (if 48 \<le> byte c \<and> byte c \<le> 57 then Some (byte c - 48)
      else if 97 \<le> byte c \<and> byte c \<le> 102 then Some (byte c - 97 + 10)
      else if 65 \<le> byte c \<and> byte c \<le> 70 then Some (byte c - 65 + 10)
      else None)"

text \<open>Four hexadecimal digits; \<open>result << 4 | digit\<close> is written \<open>push_bit 4 result OR digit\<close>.\<close>

fun parse_hex_digits :: "nat \<Rightarrow> nat \<Rightarrow> string \<Rightarrow> (nat \<times> string) option" where
  "parse_hex_digits 0 result cursor = Some (result, cursor)"
| "parse_hex_digits (Suc n) result [] = None"
| "parse_hex_digits (Suc n) result (c # cursor) =
     (case hex_value c of None \<Rightarrow> None
      | Some digit \<Rightarrow> parse_hex_digits n (push_bit 4 result OR digit) cursor)"

definition parse_hex_quad :: "string \<Rightarrow> (nat \<times> string) option" where
  "parse_hex_quad cursor = (if length cursor < 4 then None else parse_hex_digits 4 0 cursor)"

text \<open>
  The output buffer of \<open>parse_string\<close>: \<open>None\<close> is the NULL output, for which nothing is stored and
  everything fits; \<open>Some capacity\<close> leaves room for the terminator.
\<close>

definition append_byte :: "nat option \<Rightarrow> string \<Rightarrow> char \<Rightarrow> bool \<times> string" where
  "append_byte cap out b =
     (case cap of None \<Rightarrow> (True, out)
      | Some capacity \<Rightarrow> (if length out + 1 \<ge> capacity then (False, out) else (True, out @ [b])))"

text \<open>Append one after the other, stopping at the first that does not fit (\<open>&&\<close>).\<close>

fun append_seq :: "nat option \<Rightarrow> string \<Rightarrow> string \<Rightarrow> bool \<times> string" where
  "append_seq cap out [] = (True, out)"
| "append_seq cap out (b # bs) =
     (case append_byte cap out b of
        (True, out) \<Rightarrow> append_seq cap out bs
      | (False, out) \<Rightarrow> (False, out))"

definition append_codepoint :: "nat option \<Rightarrow> string \<Rightarrow> nat \<Rightarrow> bool \<times> string" where
  "append_codepoint cap out codepoint = append_seq cap out (codepoint_bytes codepoint)"

text \<open>Append every byte of a raw sequence (\<open>fits &= append_byte(...)\<close> in a loop).\<close>

fun append_each :: "nat option \<Rightarrow> bool \<Rightarrow> string \<Rightarrow> string \<Rightarrow> bool \<times> string" where
  "append_each cap fits out [] = (fits, out)"
| "append_each cap fits out (b # bs) =
     (case append_byte cap out b of (ok, out) \<Rightarrow> append_each cap (fits \<and> ok) out bs)"

text \<open>The part of \<open>parse_string\<close> after a backslash: the \<open>\u\<close> escapes with their surrogate pairs.\<close>

definition parse_unicode_escape :: "string \<Rightarrow> (nat \<times> string) option" where
  "parse_unicode_escape cursor =
     (case parse_hex_quad cursor of None \<Rightarrow> None
      | Some (codepoint, cursor) \<Rightarrow>
          (case (if 0xd800 \<le> codepoint \<and> codepoint \<le> 0xdbff then
                   (if length cursor < 6 \<or> cursor ! 0 \<noteq> BACKSLASH \<or> cursor ! 1 \<noteq> CHR ''u'' then None
                    else case parse_hex_quad (drop 2 cursor) of None \<Rightarrow> None
                      | Some (low, cursor) \<Rightarrow>
                          (if low < 0xdc00 \<or> 0xdfff < low then None
                           else Some (0x10000 + push_bit 10 (codepoint - 0xd800) + (low - 0xdc00), cursor)))
                 else if 0xdc00 \<le> codepoint \<and> codepoint \<le> 0xdfff then None
                 else Some (codepoint, cursor)) of None \<Rightarrow> None
           | Some (codepoint, cursor) \<Rightarrow> (if codepoint = 0 then None else Some (codepoint, cursor))))"

definition parse_escape :: "nat option \<Rightarrow> string \<Rightarrow> string \<Rightarrow> (bool \<times> string \<times> string) option" where
  "parse_escape cap out cursor =
     (case cursor of [] \<Rightarrow> None
      | c # rest \<Rightarrow>
          (let put = (\<lambda>b. case append_byte cap out b of (ok, out) \<Rightarrow> Some (ok, out, rest)) in
           if c = QUOTE \<or> c = BACKSLASH \<or> c = CHR ''/'' then put c
           else if c = CHR ''b'' then put (CHR 0x08)
           else if c = CHR ''f'' then put (CHR 0x0C)
           else if c = CHR ''n'' then put LF
           else if c = CHR ''r'' then put CR
           else if c = CHR ''t'' then put TAB
           else if c = CHR ''u'' then
             (case parse_unicode_escape rest of None \<Rightarrow> None
              | Some (codepoint, rest) \<Rightarrow>
                  (case append_codepoint cap out codepoint of (ok, out) \<Rightarrow> Some (ok, out, rest)))
           else None))"

lemma parse_hex_digits_length:
  "parse_hex_digits n r s = Some (v, s') \<Longrightarrow> length s' + n = length s"
  by (induction n r s rule: parse_hex_digits.induct) (auto split: option.splits)

lemma parse_hex_quad_length: "parse_hex_quad s = Some (v, s') \<Longrightarrow> length s' < length s"
  by (auto simp: parse_hex_quad_def split: if_splits dest: parse_hex_digits_length)

lemma parse_unicode_escape_length:
  "parse_unicode_escape s = Some (v, s') \<Longrightarrow> length s' < length s"
  by (auto simp: parse_unicode_escape_def split: option.splits if_splits
      dest!: parse_hex_quad_length)

lemma parse_escape_length: "parse_escape cap out s = Some (ok, out', s') \<Longrightarrow> length s' < length s"
  by (auto simp: parse_escape_def Let_def split: list.splits if_splits option.splits prod.splits
      dest!: parse_unicode_escape_length)

text \<open>The loop of \<open>parse_string\<close> after the opening quote.\<close>

function parse_string_loop ::
    "nat option \<Rightarrow> bool \<Rightarrow> string \<Rightarrow> string \<Rightarrow> json_error + string \<times> string" where
  "parse_string_loop cap fits out [] = Inl JSON_INVALID"
| "parse_string_loop cap fits out (c # cs) =
     (if c = QUOTE then (if fits then Inr (out, cs) else Inl JSON_TOO_LONG)
      else if byte c < 0x20 then Inl JSON_INVALID
      else if c = BACKSLASH then
        (case parse_escape cap out cs of None \<Rightarrow> Inl JSON_INVALID
         | Some (ok, out, rest) \<Rightarrow> parse_string_loop cap (fits \<and> ok) out rest)
      else if byte c < 0x80 then
        (case append_byte cap out c of (ok, out) \<Rightarrow> parse_string_loop cap (fits \<and> ok) out cs)
      else
        (let sequence = valid_utf8_length (c # cs) in
         if sequence = 0 then Inl JSON_INVALID
         else (case append_each cap fits out (take sequence (c # cs)) of
                 (fits, out) \<Rightarrow> parse_string_loop cap fits out (drop (sequence - 1) cs))))"
  by pat_completeness auto
termination
  by (relation "measure (\<lambda>(cap, fits, out, s). length s)")
     (auto dest: parse_escape_length)

declare parse_string_loop.simps(2) [simp del]

definition parse_string :: "nat option \<Rightarrow> string \<Rightarrow> json_error + string \<times> string" where
  "parse_string cap cursor =
     (case skip_whitespace cursor of [] \<Rightarrow> Inl JSON_INVALID
      | c # rest \<Rightarrow> (if c \<noteq> QUOTE then Inl JSON_INVALID else parse_string_loop cap True [] rest))"

definition match_literal :: "string \<Rightarrow> string \<Rightarrow> string option" where
  "match_literal literal cursor =
     (let cursor = skip_whitespace cursor in
      if starts_with literal cursor then Some (drop (length literal) cursor) else None)"

section \<open>Skipping a value\<close>

definition skip_digits :: "string \<Rightarrow> string" where
  "skip_digits = dropWhile isdigit"

definition skip_some_digits :: "string \<Rightarrow> string option" where
  "skip_some_digits cursor =
     (case cursor of [] \<Rightarrow> None | c # _ \<Rightarrow> (if isdigit c then Some (skip_digits cursor) else None))"

definition skip_sign :: "string \<Rightarrow> string" where
  "skip_sign cursor =
     (case cursor of [] \<Rightarrow> cursor | c # rest \<Rightarrow> (if c = CHR ''-'' then rest else cursor))"

definition skip_integer :: "string \<Rightarrow> string option" where
  "skip_integer cursor =
     (case cursor of [] \<Rightarrow> None
      | c # rest \<Rightarrow> (if c = CHR ''0'' then Some rest
                    else if 49 \<le> byte c \<and> byte c \<le> 57 then Some (skip_digits cursor)
                    else None))"

definition skip_fraction :: "string \<Rightarrow> string option" where
  "skip_fraction cursor =
     (case cursor of [] \<Rightarrow> Some cursor
      | c # rest \<Rightarrow> (if c = CHR ''.'' then skip_some_digits rest else Some cursor))"

definition skip_exponent :: "string \<Rightarrow> string option" where
  "skip_exponent cursor =
     (case cursor of [] \<Rightarrow> Some cursor
      | c # rest \<Rightarrow>
          (if c = CHR ''e'' \<or> c = CHR ''E'' then
             skip_some_digits
               (case rest of [] \<Rightarrow> rest
                | s # rest' \<Rightarrow> (if s = CHR ''+'' \<or> s = CHR ''-'' then rest' else rest))
           else Some cursor))"

definition skip_number :: "string \<Rightarrow> string option" where
  "skip_number cursor =
     Option.bind (skip_integer (skip_sign (skip_whitespace cursor)))
       (\<lambda>cursor. Option.bind (skip_fraction cursor) skip_exponent)"

lemma skip_whitespace_length: "length (skip_whitespace s) \<le> length s"
  by (simp add: skip_whitespace_def)

lemma skip_whitespace_Cons: "skip_whitespace s = c # r \<Longrightarrow> length r < length s"
  using skip_whitespace_length [of s] by simp

lemma take_char_length: "take_char c s = Some r \<Longrightarrow> length r < length s"
  by (auto simp: take_char_def split: list.splits if_splits dest: skip_whitespace_Cons)

lemma parse_string_loop_length:
  "parse_string_loop cap fits out s = Inr (v, r) \<Longrightarrow> length r < length s"
proof (induction "length s" arbitrary: s fits out rule: less_induct)
  case less
  then show ?case
  proof (cases s)
    case (Cons c cs)
    have IH: "parse_string_loop cap f o' t = Inr (v, r) \<Longrightarrow> length t \<le> length cs \<Longrightarrow>
        length r < Suc (length cs)" for f o' t
      using less.hyps [of t f o'] Cons by fastforce
    from less.prems Cons IH show ?thesis
      by (auto simp: parse_string_loop.simps(2) Let_def split: if_splits option.splits prod.splits
          dest: parse_escape_length [THEN less_imp_le])
  qed simp
qed

lemma parse_string_length: "parse_string cap s = Inr (v, r) \<Longrightarrow> length r < length s"
  by (auto simp: parse_string_def split: list.splits if_splits
      dest!: parse_string_loop_length skip_whitespace_Cons)

lemma match_literal_length: "match_literal l s = Some r \<Longrightarrow> l \<noteq> [] \<Longrightarrow> length r < length s"
  using skip_whitespace_length [of s]
  by (cases l) (auto simp: match_literal_def Let_def starts_with_iff split: if_splits)

lemma skip_digits_length: "length (skip_digits s) \<le> length s"
  by (simp add: skip_digits_def)

lemma skip_digits_Cons: "isdigit c \<Longrightarrow> length (skip_digits (c # s)) < Suc (length s)"
  by (simp add: skip_digits_def le_imp_less_Suc)

lemma skip_some_digits_length: "skip_some_digits s = Some r \<Longrightarrow> length r < length s"
  by (auto simp: skip_some_digits_def skip_digits_Cons split: list.splits if_splits)

lemma skip_integer_length: "skip_integer s = Some r \<Longrightarrow> length r < length s"
  by (auto simp: skip_integer_def isdigit_def intro: skip_digits_Cons split: list.splits if_splits)

lemma skip_fraction_length: "skip_fraction s = Some r \<Longrightarrow> length r \<le> length s"
  by (auto simp: skip_fraction_def split: list.splits if_splits dest: skip_some_digits_length)

lemma skip_exponent_length: "skip_exponent s = Some r \<Longrightarrow> length r \<le> length s"
  by (auto simp: skip_exponent_def split: list.splits if_splits dest: skip_some_digits_length)

lemma skip_number_length: "skip_number s = Some r \<Longrightarrow> length r < length s"
proof -
  have "length (skip_sign (skip_whitespace s)) \<le> length s"
    using skip_whitespace_length [of s] by (auto simp: skip_sign_def split: list.splits)
  then show "skip_number s = Some r \<Longrightarrow> ?thesis"
    by (auto simp: skip_number_def bind_eq_Some_conv
        dest!: skip_integer_length skip_fraction_length skip_exponent_length)
qed

text \<open>
  \<open>skip_value\<close>, \<open>skip_object\<close> and \<open>skip_array\<close> with the loops of the last two. \<open>depth\<close> is
  \<open>cursor->depth\<close> on entry; the object and array functions refuse a ninth level.
\<close>

function (sequential) skip_value :: "nat \<Rightarrow> string \<Rightarrow> string option"
  and skip_object :: "nat \<Rightarrow> string \<Rightarrow> string option"
  and skip_members :: "nat \<Rightarrow> string \<Rightarrow> string option"
  and skip_array :: "nat \<Rightarrow> string \<Rightarrow> string option"
  and skip_elements :: "nat \<Rightarrow> string \<Rightarrow> string option" where
  "skip_value depth cursor =
     (let cursor = skip_whitespace cursor in
      case cursor of [] \<Rightarrow> None
      | c # _ \<Rightarrow>
          (if c = QUOTE then
             (case parse_string None cursor of Inl _ \<Rightarrow> None | Inr (_, rest) \<Rightarrow> Some rest)
           else if c = CHR ''{'' then skip_object depth cursor
           else if c = CHR ''['' then skip_array depth cursor
           else if c = CHR ''t'' then match_literal ''true'' cursor
           else if c = CHR ''f'' then match_literal ''false'' cursor
           else if c = CHR ''n'' then match_literal ''null'' cursor
           else skip_number cursor))"
| "skip_object depth cursor =
     (if 8 < Suc depth then None
      else case take_char (CHR ''{'') cursor of None \<Rightarrow> None
        | Some cursor \<Rightarrow>
            (let cursor = skip_whitespace cursor in
             case cursor of
               c # rest \<Rightarrow> (if c = CHR ''}'' then Some rest else skip_members (Suc depth) cursor)
             | [] \<Rightarrow> skip_members (Suc depth) cursor))"
| "skip_members depth cursor =
     (case parse_string None cursor of Inl _ \<Rightarrow> None
      | Inr (_, cursor) \<Rightarrow>
          (case take_char (CHR '':'') cursor of None \<Rightarrow> None
           | Some cursor \<Rightarrow>
               (case skip_value depth cursor of None \<Rightarrow> None
                | Some cursor \<Rightarrow>
                    (case skip_whitespace cursor of [] \<Rightarrow> None
                     | c # rest \<Rightarrow> (if c = CHR ''}'' then Some rest
                                   else if c \<noteq> CHR '','' then None
                                   else skip_members depth rest)))))"
| "skip_array depth cursor =
     (if 8 < Suc depth then None
      else case take_char (CHR ''['') cursor of None \<Rightarrow> None
        | Some cursor \<Rightarrow>
            (let cursor = skip_whitespace cursor in
             case cursor of
               c # rest \<Rightarrow> (if c = CHR '']'' then Some rest else skip_elements (Suc depth) cursor)
             | [] \<Rightarrow> skip_elements (Suc depth) cursor))"
| "skip_elements depth cursor =
     (case skip_value depth cursor of None \<Rightarrow> None
      | Some cursor \<Rightarrow>
          (case skip_whitespace cursor of [] \<Rightarrow> None
           | c # rest \<Rightarrow> (if c = CHR '']'' then Some rest
                         else if c \<noteq> CHR '','' then None
                         else skip_elements depth rest)))"
  by pat_completeness auto


lemma skip_shorter:
  "skip_value_skip_object_skip_members_skip_array_skip_elements_dom (Inl (Inl (d, s))) \<Longrightarrow> skip_value d s = Some r \<Longrightarrow> length r < length s"
  "skip_value_skip_object_skip_members_skip_array_skip_elements_dom (Inl (Inr (d, s))) \<Longrightarrow> skip_object d s = Some r \<Longrightarrow> length r < length s"
  "skip_value_skip_object_skip_members_skip_array_skip_elements_dom (Inr (Inl (d, s))) \<Longrightarrow> skip_members d s = Some r \<Longrightarrow> length r < length s"
  "skip_value_skip_object_skip_members_skip_array_skip_elements_dom (Inr (Inr (Inl (d, s)))) \<Longrightarrow> skip_array d s = Some r \<Longrightarrow> length r < length s"
  "skip_value_skip_object_skip_members_skip_array_skip_elements_dom (Inr (Inr (Inr (d, s)))) \<Longrightarrow> skip_elements d s = Some r \<Longrightarrow> length r < length s"
proof (induct d s and d s and d s and d s and d s arbitrary: r and r and r and r and r rule: skip_value_skip_object_skip_members_skip_array_skip_elements.pinduct)
  case (1 d s)
  note ws = skip_whitespace_length [of s]
  have "length r < length (skip_whitespace s)"
    using "1.prems" "1.hyps"
    by (auto simp: skip_value.psimps Let_def split: list.splits if_splits sum.splits
        dest: parse_string_length match_literal_length skip_number_length)
  with ws show ?case by simp
next
  case (2 d s)
  show ?case
    using "2.prems" "2.hyps"
    by (fastforce simp: skip_object.psimps Let_def split: list.splits if_splits option.splits
        dest: take_char_length skip_whitespace_Cons)
next
  case (3 d s)
  show ?case
    using "3.prems" "3.hyps"
    by (fastforce simp: skip_members.psimps Let_def split: list.splits if_splits option.splits sum.splits
        dest: take_char_length skip_whitespace_Cons parse_string_length)
next
  case (4 d s)
  show ?case
    using "4.prems" "4.hyps"
    by (fastforce simp: skip_array.psimps Let_def split: list.splits if_splits option.splits
        dest: take_char_length skip_whitespace_Cons)
next
  case (5 d s)
  show ?case
    using "5.prems" "5.hyps"
    by (fastforce simp: skip_elements.psimps Let_def split: list.splits if_splits option.splits
        dest: take_char_length skip_whitespace_Cons)
qed

lemma skip_whitespace_bounds:
  "3 * length (skip_whitespace s) < Suc (3 * length s)"
  "length s < n \<Longrightarrow> length (skip_whitespace s) < n"
  "length s < n \<Longrightarrow> Suc (Suc (3 * length (skip_whitespace s))) < 3 * n"
  using skip_whitespace_length [of s] by auto

lemma skip_total:
  "All skip_value_skip_object_skip_members_skip_array_skip_elements_dom"
  by (relation "measure (\<lambda>x. case x of
          Inl (Inl (d, s)) \<Rightarrow> 3 * length s + 1
        | Inl (Inr (d, s)) \<Rightarrow> 3 * length s
        | Inr (Inl (d, s)) \<Rightarrow> 3 * length s
        | Inr (Inr (Inl (d, s))) \<Rightarrow> 3 * length s
        | Inr (Inr (Inr (d, s))) \<Rightarrow> 3 * length s + 2)")
     (auto simp: skip_whitespace_bounds dest!: take_char_length skip_shorter(1)
        parse_string_length skip_whitespace_Cons)

termination skip_value
  by (rule skip_total)

lemmas skip_length = skip_shorter [OF skip_total [THEN spec]]

declare skip_value.simps [simp del] skip_object.simps [simp del] skip_members.simps [simp del]
  skip_array.simps [simp del] skip_elements.simps [simp del]

section \<open>Writing\<close>

text \<open>
  \<open>JsonWriter\<close>: \<open>wr_data\<close> is the text written so far (\<open>data[0..length)\<close>, which the code keeps
  terminated). Once \<open>ok\<close> is lost nothing more is written.
\<close>

record JsonWriter =
  wr_data :: string
  wr_capacity :: nat
  wr_ok :: bool

definition writer_start :: "nat \<Rightarrow> JsonWriter" where
  "writer_start capacity = \<lparr>wr_data = [], wr_capacity = capacity, wr_ok = (0 < capacity)\<rparr>"

definition writer_bytes :: "string \<Rightarrow> JsonWriter \<Rightarrow> JsonWriter" where
  "writer_bytes s w =
     (if \<not> wr_ok w \<or> length (wr_data w) + length s \<ge> wr_capacity w then w\<lparr>wr_ok := False\<rparr>
      else w\<lparr>wr_data := wr_data w @ s\<rparr>)"

definition writer_text :: "string \<Rightarrow> JsonWriter \<Rightarrow> JsonWriter" where
  "writer_text s w = writer_bytes s w"

text \<open>\<open>snprintf("\u%04X")\<close> of a control character.\<close>

definition control_escape :: "nat \<Rightarrow> string" where
  "control_escape n =
     [BACKSLASH, CHR ''u'', CHR ''0'', CHR ''0'', ''0123456789ABCDEF'' ! (n div 16 mod 16),
      ''0123456789ABCDEF'' ! (n mod 16)]"

text \<open>The text the \<open>switch\<close> of \<open>writer_string\<close> passes on for one character.\<close>

definition json_char :: "char \<Rightarrow> string" where
  "json_char c =
     (if c = QUOTE then [BACKSLASH, QUOTE]
      else if c = BACKSLASH then [BACKSLASH, BACKSLASH]
      else if c = CHR 0x08 then [BACKSLASH, CHR ''b'']
      else if c = CHR 0x0C then [BACKSLASH, CHR ''f'']
      else if c = LF then [BACKSLASH, CHR ''n'']
      else if c = CR then [BACKSLASH, CHR ''r'']
      else if c = TAB then [BACKSLASH, CHR ''t'']
      else if byte c < 0x20 then control_escape (byte c)
      else [c])"

fun writer_chars :: "string \<Rightarrow> JsonWriter \<Rightarrow> JsonWriter" where
  "writer_chars [] w = w"
| "writer_chars (c # cs) w = (if wr_ok w then writer_chars cs (writer_text (json_char c) w) else w)"

definition writer_string :: "string \<Rightarrow> JsonWriter \<Rightarrow> JsonWriter" where
  "writer_string s w = writer_text [QUOTE] (writer_chars s (writer_text [QUOTE] w))"

definition writer_field :: "string \<Rightarrow> string \<Rightarrow> bool \<Rightarrow> JsonWriter \<Rightarrow> JsonWriter" where
  "writer_field name value comma w =
     (let w = (if comma then writer_text '','' w else w);
          w = writer_string name w;
          w = writer_text '':'' w
      in writer_string value w)"

definition writer_finish :: "JsonWriter \<Rightarrow> string option" where
  "writer_finish w = (if \<not> wr_ok w then None else Some (wr_data w))"

subsection \<open>What a writer writes\<close>

text \<open>\<open>emits t f\<close>: the writing step \<open>f\<close> appends the text \<open>t\<close> if it fits, and else gives up.\<close>

definition emits :: "string \<Rightarrow> (JsonWriter \<Rightarrow> JsonWriter) \<Rightarrow> bool" where
  "emits t f \<longleftrightarrow>
     (\<forall>w. (wr_ok w \<longrightarrow> length (wr_data w) < wr_capacity w) \<longrightarrow>
          wr_capacity (f w) = wr_capacity w \<and>
          (wr_ok (f w) \<longleftrightarrow> wr_ok w \<and> length (wr_data w) + length t < wr_capacity w) \<and>
          (wr_ok (f w) \<longrightarrow> wr_data (f w) = wr_data w @ t))"

named_theorems emits_intros \<open>what each writing step emits\<close>

lemma emits_text [emits_intros]: "emits t (writer_text t)"
  by (auto simp: emits_def writer_text_def writer_bytes_def)

lemma emits_bytes [emits_intros]: "emits t (writer_bytes t)"
  by (auto simp: emits_def writer_bytes_def)

lemma emits_comp: "emits s f \<Longrightarrow> emits t g \<Longrightarrow> emits (s @ t) (\<lambda>w. g (f w))"
  by (auto simp: emits_def)

definition json_chars :: "string \<Rightarrow> string" where
  "json_chars s = concat (map json_char s)"

definition json_text :: "string \<Rightarrow> string" where
  "json_text s = QUOTE # json_chars s @ [QUOTE]"

lemma json_chars_simps [simp]:
  "json_chars [] = []"
  "json_chars (c # s) = json_char c @ json_chars s"
  "json_chars (s @ t) = json_chars s @ json_chars t"
  by (simp_all add: json_chars_def)

lemma emits_chars: "emits (json_chars s) (writer_chars s)"
proof (induction s)
  case (Cons c s)
  from emits_comp [OF emits_text [of "json_char c"] Cons.IH]
  show ?case by (auto simp: emits_def)
qed (auto simp: emits_def)

lemma emits_string [emits_intros]: "emits (json_text s) (writer_string s)"
  using emits_comp [OF emits_comp [OF emits_text [of "[QUOTE]"] emits_chars [of s]] emits_text [of "[QUOTE]"]]
  by (simp add: json_text_def writer_string_def [abs_def])

lemma emits_field [emits_intros]:
  "emits ((if comma then '','' else []) @ json_text name @ '':'' @ json_text value)
     (writer_field name value comma)"
proof -
  have "emits (json_text name @ '':'' @ json_text value)
      (\<lambda>w. writer_string value (writer_text '':'' (writer_string name w)))"
    by (intro emits_comp [of _ _ "_ @ _"] emits_comp emits_string emits_text)
  then show ?thesis using emits_comp [OF emits_text [of "'',''"]]
    by (cases comma) (simp_all add: writer_field_def [abs_def] Let_def)
qed

lemma writer_finish_emits:
  "emits t f \<Longrightarrow> writer_finish (f (writer_start capacity)) = (if length t < capacity then Some t else None)"
  by (auto simp: emits_def writer_finish_def writer_start_def)

subsection \<open>Reading back\<close>

lemma hex_value_upper: "n < 16 \<Longrightarrow> hex_value (''0123456789ABCDEF'' ! n) = Some n"
proof -
  have "\<forall>n \<in> set [0..<16]. hex_value (''0123456789ABCDEF'' ! n) = Some n"
    by code_simp
  then show "n < 16 \<Longrightarrow> ?thesis" by auto
qed

lemma control_digits: "n < 32 \<Longrightarrow> push_bit 4 (n div 16) OR (n mod 16) = (n::nat)"
proof -
  have "\<forall>n \<in> set [0..<32]. push_bit 4 (n div 16) OR (n mod 16) = n"
    by code_simp
  then show "n < 32 \<Longrightarrow> ?thesis" by auto
qed

lemma parse_hex_quad_Cons:
  assumes "hex_value a = Some v" and "hex_value b = Some x" and "hex_value c = Some y"
    and "hex_value d = Some z"
  shows "parse_hex_quad (a # b # c # d # rest) =
    Some (push_bit 4 (push_bit 4 (push_bit 4 v OR x) OR y) OR z, rest)"
  using assms unfolding parse_hex_quad_def by (simp add: numeral_eq_Suc [of Num.One] eval_nat_numeral(2,3) del: push_bit_Suc)

lemma parse_control_escape:
  assumes "n < 32" and "n \<noteq> 0"
  shows "parse_unicode_escape (drop 2 (control_escape n) @ rest) = Some (n, rest)"
proof -
  have n: "n div 16 mod 16 = n div 16" "n div 16 < 16" "n mod 16 < 16" using assms by auto
  have "hex_value CHR ''0'' = Some 0" by (simp add: hex_value_def)
  from parse_hex_quad_Cons [OF this this hex_value_upper [OF n(2)] hex_value_upper [OF n(3)]]
  have "parse_hex_quad (drop 2 (control_escape n) @ rest) = Some (n, rest)"
    by (simp only: control_escape_def n(1) control_digits [OF assms(1)]) (simp add: control_digits [OF assms(1)])
  with assms show ?thesis by (simp add: parse_unicode_escape_def)
qed

text \<open>The room the output has, and what it holds after \<open>s\<close> was appended.\<close>

definition room :: "nat option \<Rightarrow> string \<Rightarrow> nat \<Rightarrow> bool" where
  "room cap out n = (case cap of None \<Rightarrow> True | Some capacity \<Rightarrow> length out + n < capacity)"

definition stored :: "nat option \<Rightarrow> string \<Rightarrow> string \<Rightarrow> string" where
  "stored cap out s = (case cap of None \<Rightarrow> out | Some _ \<Rightarrow> out @ s)"

lemma stored_simps [simp]:
  "stored cap out [] = out" "stored cap (stored cap out s) t = stored cap out (s @ t)"
  "stored (Some n) out s = out @ s"
  by (auto simp: stored_def split: option.splits)

lemma room_simps:
  "room cap out (m + n) \<Longrightarrow> length s = m \<Longrightarrow> room cap (stored cap out s) n"
  "room cap out (m + n) \<Longrightarrow> room cap out m"
  by (auto simp: room_def stored_def split: option.splits)

lemma append_byte_room: "room cap out 1 \<Longrightarrow> append_byte cap out b = (True, stored cap out [b])"
  by (auto simp: append_byte_def room_def stored_def split: option.splits)

lemma append_each_room:
  "room cap out (length bs) \<Longrightarrow> append_each cap True out bs = (True, stored cap out bs)"
proof (induction bs arbitrary: out)
  case (Cons b bs)
  then have "room cap out 1" "room cap (stored cap out [b]) (length bs)"
    using room_simps [of cap out 1 "length bs"] by auto
  with Cons.IH [of "stored cap out [b]"] show ?case by (simp add: append_byte_room)
qed simp

lemma parse_escape_json:
  assumes "json_char c = BACKSLASH # esc" and "room cap out 1" and "c \<noteq> NUL"
  shows "parse_escape cap out (esc @ rest) = Some (True, stored cap out [c], rest)"
proof (cases "c \<in> {QUOTE, BACKSLASH, CHR 0x08, CHR 0x0C, LF, CR, TAB}")
  case True
  with assms show ?thesis
    by (elim insertE) (auto simp: json_char_def parse_escape_def append_byte_room)
next
  case False
  then have c: "byte c < 0x20" and e: "esc = CHR ''u'' # drop 2 (control_escape (byte c))"
    using assms(1) by (auto simp: json_char_def control_escape_def split: if_splits)
  moreover have "byte c \<noteq> 0" using assms(3) by (simp add: char_eq_byte_iff)
  moreover have "append_codepoint cap out (byte c) = (True, stored cap out [c])"
    using c assms(2) by (simp add: append_codepoint_def codepoint_bytes_def append_byte_room)
  ultimately show ?thesis by (simp add: parse_escape_def Let_def parse_control_escape)
qed

lemma json_char_plain: "0x20 \<le> byte c \<Longrightarrow> c \<noteq> QUOTE \<Longrightarrow> c \<noteq> BACKSLASH \<Longrightarrow> json_char c = [c]"
  unfolding json_char_def by (simp add: char_eq_byte_iff [of c])

lemma json_char_escaped:
  "byte c < 0x20 \<or> c = QUOTE \<or> c = BACKSLASH \<Longrightarrow> \<exists>esc. json_char c = BACKSLASH # esc"
  unfolding json_char_def control_escape_def by (simp del: byte_inj) blast

lemma json_char_high: "0x80 \<le> byte c \<Longrightarrow> json_char c = [c]"
  by (rule json_char_plain) (simp_all add: char_eq_byte_iff [of c] del: byte_inj)

lemma parse_json_char:
  assumes "byte c < 0x80" and "c \<noteq> NUL" and "room cap out 1"
  shows "parse_string_loop cap True out (json_char c @ rest) = parse_string_loop cap True (stored cap out [c]) rest"
proof (cases "byte c < 0x20 \<or> c = QUOTE \<or> c = BACKSLASH")
  case True
  then obtain e where esc: "json_char c = BACKSLASH # e" using json_char_escaped by blast
  from parse_escape_json [OF esc assms(3,2)] esc
  show ?thesis by (simp add: parse_string_loop.simps(2))
next
  case False
  with assms show ?thesis by (simp add: json_char_plain parse_string_loop.simps(2) append_byte_room)
qed

lemma json_chars_high: "\<forall>c \<in> set s. 0x80 \<le> byte c \<Longrightarrow> json_chars s = s"
  by (induction s) (simp_all add: json_char_high)

lemma parse_json_sequence:
  assumes "utf8_sequence s = Some (k, cp)" and "nul_free s" and "room cap out k"
  shows "parse_string_loop cap True out (json_chars (take k s) @ rest) =
    parse_string_loop cap True (stored cap out (take k s)) rest"
proof (cases "k = 1")
  case True
  with assms obtain c cs where s: "s = c # cs" "byte c < 0x80"
    using utf8_sequence_bytes [OF assms(1)] utf8_sequence_bounds [OF assms(1)] by (cases s) auto
  with True assms parse_json_char [of c cap out rest] show ?thesis by simp
next
  case False
  note b = utf8_sequence_bounds [OF assms(1)]
  from utf8_sequence_bytes [OF assms(1)] False have hi: "\<forall>c \<in> set (take k s). 0x80 \<le> byte c"
    by auto
  then obtain c cs where t: "take k s = c # cs" "0x80 \<le> byte c"
    using b by (cases "take k s") auto
  have "valid_utf8_length (take k s @ rest) = k"
    using utf8_sequence_take [OF assms(1)] by (simp add: valid_utf8_length_def)
  moreover have "length (take k s) = k" using b by simp
  moreover have "c \<noteq> QUOTE" "c \<noteq> BACKSLASH" using t(2) by (simp_all add: char_eq_byte_iff [of c] del: byte_inj)
  moreover have "json_chars (c # cs) = c # cs" using json_chars_high [OF hi] t(1) by simp
  ultimately show ?thesis
    using t(2) assms(3) b append_each_room [of cap out "c # cs"] unfolding t(1)
    by (simp del: json_chars_simps append_each.simps add: parse_string_loop.simps(2) Let_def take_Cons' drop_Cons')
qed

lemma parse_json_chars:
  assumes "valid_utf8 s" and "nul_free s" and "room cap out (length s)"
  shows "parse_string_loop cap True out (json_chars s @ rest) = parse_string_loop cap True (stored cap out s) rest"
  using assms
proof (induction s arbitrary: out rule: valid_utf8_induct)
  case (Seq s k cp)
  note b = utf8_sequence_bounds [OF Seq.hyps(1)]
  have "nul_free (take k s @ drop k s)" using Seq.prems by simp
  then have n: "nul_free (drop k s)" by (simp only: nul_free_simps)
  have room: "room cap out (k + length (drop k s))" using Seq.prems(2) b by simp
  have r: "room cap out k" "room cap (stored cap out (take k s)) (length (drop k s))"
    using room_simps(2) [OF room] room_simps(1) [OF room, of "take k s"] b by simp_all
  have "json_chars s = json_chars (take k s) @ json_chars (drop k s)"
    by (metis append_take_drop_id json_chars_simps(3))
  with parse_json_sequence [OF Seq.hyps(1) Seq.prems(1) r(1), of "json_chars (drop k s) @ rest"]
    Seq.IH [OF n r(2)]
  show ?case by simp
qed simp

lemma parse_string_json:
  assumes "valid_utf8 s" and "nul_free s" and "room cap [] (length s)"
  shows "parse_string cap (json_text s @ rest) = Inr (stored cap [] s, rest)"
  using parse_json_chars [OF assms, of "QUOTE # rest"]
  by (simp add: parse_string_def json_text_def skip_whitespace_def isspace_def parse_string_loop.simps(2))

corollary parse_string_json_Some:
  "valid_utf8 s \<Longrightarrow> nul_free s \<Longrightarrow> length s < capacity \<Longrightarrow>
     parse_string (Some capacity) (json_text s @ rest) = Inr (s, rest)"
  using parse_string_json [of s "Some capacity" rest] by (simp add: room_def)

corollary parse_string_json_None:
  "valid_utf8 s \<Longrightarrow> nul_free s \<Longrightarrow> parse_string None (json_text s @ rest) = Inr ([], rest)"
  using parse_string_json [of s None rest] by (simp add: room_def stored_def)

lemma append_byte_ok:
  "append_byte (Some n) out b = (True, out') \<longleftrightarrow> out' = out @ [b] \<and> length out + 1 < n"
  by (auto simp: append_byte_def)

lemma append_seq_ok:
  "append_seq (Some n) out bs = (True, out') \<Longrightarrow> length out < n \<Longrightarrow> out' = out @ bs \<and> length out' < n"
  by (induction bs arbitrary: out) (auto simp: append_byte_def split: if_splits, fastforce?)

lemma append_each_ok:
  "append_each (Some n) fits out bs = (True, out') \<Longrightarrow> length out < n \<Longrightarrow>
     fits \<and> out' = out @ bs \<and> length out' < n"
  apply (induction bs arbitrary: out fits) apply (auto simp: append_byte_def split: if_splits) by fastforce+

lemma append_each_unfit: "append_each cap False out bs = (ok, out') \<Longrightarrow> \<not> ok"
    by (induction bs arbitrary: out) (auto split: prod.splits)

lemma parse_string_loop_unfit: "parse_string_loop cap False out s \<noteq> Inr v"
proof (induction "length s" arbitrary: s out rule: less_induct)
  case less
  show ?case
  proof (cases s)
    case (Cons c cs)
    have IH: "length t \<le> length cs \<Longrightarrow> parse_string_loop cap False o' t \<noteq> Inr v" for o' t
      using less.hyps [of t o'] Cons by fastforce
    from Cons show ?thesis
      by (auto simp: parse_string_loop.simps(2) Let_def IH split: if_splits option.splits prod.splits
          dest!: append_each_unfit
          dest: parse_escape_length [THEN less_imp_le])
  qed simp
qed

lemma push4_or: "d < 16 \<Longrightarrow> push_bit 4 v OR d = 16 * v + (d::nat)"
  using or_high_low [of d 4 v] by (simp add: push_bit_eq_mult mult.commute)

lemma parse_hex_digits_bound:
  "parse_hex_digits n v s = Some (x, r) \<Longrightarrow> x < (v + 1) * 16 ^ n"
proof (induction n v s rule: parse_hex_digits.induct)
  case (3 n v c s)
  then obtain d where d: "hex_value c = Some d" and p: "parse_hex_digits n (push_bit 4 v OR d) s = Some (x, r)"
    by (auto split: option.splits)
  from d have d16: "d < 16" by (auto simp: hex_value_def split: if_splits)
  from "3.IH" [OF d p] have "x < (16 * v + d + 1) * 16 ^ n"
    unfolding push4_or [OF d16] .
  also have "(16 * v + d + 1) * 16 ^ n \<le> (16 * v + 16) * 16 ^ n"
    using d16 by (intro mult_right_mono) auto
  finally show ?case by (simp add: algebra_simps)
qed auto

lemma parse_hex_quad_bound: "parse_hex_quad s = Some (x, r) \<Longrightarrow> x < 0x10000"
  by (auto simp: parse_hex_quad_def split: if_splits dest: parse_hex_digits_bound)

lemma parse_unicode_escape_scalar:
  "parse_unicode_escape s = Some (cp, r) \<Longrightarrow> scalar_value cp \<and> cp \<noteq> 0"
  by (fastforce simp: parse_unicode_escape_def scalar_value_def push_bit_eq_mult
      split: option.splits if_splits dest: parse_hex_quad_bound)

lemma parse_escape_ok:
  assumes "parse_escape (Some n) out s = Some (True, out', r)" and "length out < n"
  shows "\<exists>t. out' = out @ t \<and> length out' < n \<and> valid_utf8 t \<and> nul_free t"
proof -
  have A: "\<exists>t. out' = out @ t \<and> length out' < n \<and> valid_utf8 t \<and> nul_free t"
    if "append_byte (Some n) out b = (True, out')" "byte b < 0x80" "b \<noteq> NUL" for b
    using that by (auto simp: append_byte_ok)
  have B: "\<exists>t. out' = out @ t \<and> length out' < n \<and> valid_utf8 t \<and> nul_free t"
    if "append_codepoint (Some n) out cp = (True, out')" "parse_unicode_escape s' = Some (cp, r')" for cp s' r'
    using append_seq_ok [OF that(1) [unfolded append_codepoint_def] assms(2)]
      parse_unicode_escape_scalar [OF that(2)] valid_utf8_codepoint codepoint_bytes_NUL by blast
  from assms(1) show ?thesis
    by (auto simp: parse_escape_def Let_def split: list.splits if_splits option.splits prod.splits
        intro: A B)
qed

lemma parse_string_loop_wf:
  "parse_string_loop (Some n) True out s = Inr (v, r) \<Longrightarrow> length out < n \<Longrightarrow>
     \<exists>t. v = out @ t \<and> length v < n \<and> valid_utf8 t \<and> nul_free t"
proof (induction "length s" arbitrary: s out rule: less_induct)
  case less
  then show ?case
  proof (cases s)
    case (Cons c cs)
    have IH: "\<exists>t. v = out @ t \<and> length v < n \<and> valid_utf8 t \<and> nul_free t"
      if "parse_string_loop (Some n) f (out @ u) t = Inr (v, r)" "length t \<le> length cs" "length (out @ u) < n"
        "valid_utf8 u" "nul_free u" for f u t
    proof -
      from that(1) have f using parse_string_loop_unfit by (cases f) auto
      with less.hyps [of t "out @ u"] that Cons show ?thesis by force
    qed
    consider "c = QUOTE" | "c = BACKSLASH" | "c \<noteq> QUOTE" "c \<noteq> BACKSLASH" "byte c < 0x80" | 
      "c \<noteq> QUOTE" "c \<noteq> BACKSLASH" "0x80 \<le> byte c" by linarith
    then show ?thesis
    proof cases
      case 1
      with less.prems Cons show ?thesis by (auto simp: parse_string_loop.simps(2) intro: exI [of _ "[]"])
    next
      case 2
      then obtain ok out' rest where e: "parse_escape (Some n) out cs = Some (ok, out', rest)"
        "parse_string_loop (Some n) ok out' rest = Inr (v, r)"
        using less.prems Cons by (auto simp: parse_string_loop.simps(2) split: option.splits if_splits)
      then have ok using parse_string_loop_unfit by (cases ok) auto
      with e parse_escape_ok [of n out cs out' rest] less.prems(2) IH [OF _ less_imp_le [OF parse_escape_length [OF e(1)]]]
      show ?thesis by auto
    next
      case 3
      then obtain ok out' where e: "append_byte (Some n) out c = (ok, out')"
        "parse_string_loop (Some n) ok out' cs = Inr (v, r)"
        using less.prems Cons by (auto simp: parse_string_loop.simps(2) split: option.splits if_splits prod.splits)
      then have ok and "c \<noteq> NUL" using parse_string_loop_unfit less.prems Cons
        by (cases ok, auto simp: parse_string_loop.simps(2))
      with e 3 less.prems(2) IH [of ok "[c]" cs] show ?thesis by (auto simp: append_byte_ok)
    next
      case 4
      let ?k = "valid_utf8_length (c # cs)"
      obtain fits out' where e: "append_each (Some n) True out (take ?k (c # cs)) = (fits, out')"
        "parse_string_loop (Some n) fits out' (drop (?k - 1) cs) = Inr (v, r)" "?k \<noteq> 0"
        using less.prems Cons 4 by (auto simp: parse_string_loop.simps(2) Let_def split: option.splits if_splits prod.splits)
      then have fits using parse_string_loop_unfit by (cases fits) auto
      from e(3) obtain cp where u: "utf8_sequence (c # cs) = Some (?k, cp)"
        by (auto simp: valid_utf8_length_def split: option.splits)
      have "nul_free (take ?k (c # cs))"
        using utf8_sequence_bytes [OF u] 4 utf8_sequence_bounds [OF u]
        by (fastforce simp: nul_free_def)
      with e(1,2) u \<open>fits\<close> append_each_ok [of n True out "take ?k (c # cs)" out'] less.prems(2)
        IH [of fits "take ?k (c # cs)" "drop (?k - 1) cs"] valid_utf8_take [OF u]
      show ?thesis by auto
    qed
  qed simp
qed

lemma parse_string_wf:
  "parse_string (Some n) s = Inr (v, r) \<Longrightarrow> 0 < n \<Longrightarrow> length v < n \<and> valid_utf8 v \<and> nul_free v"
  using parse_string_loop_wf [of n "[]"]
  by (fastforce simp: parse_string_def split: list.splits if_splits)

lemma append_None [simp]:
  "append_byte None out b = (True, out)" "append_seq None out bs = (True, out)"
  "append_each None fits out bs = (fits, out)"
  by (simp add: append_byte_def) (induction bs; simp add: append_byte_def)+

lemma parse_string_loop_None: "parse_string_loop None True out s \<noteq> Inl JSON_TOO_LONG"
proof (induction "length s" arbitrary: s out rule: less_induct)
  case less
  have E: "ok" if "parse_escape None o' t = Some (ok, r)" for ok o' t r
    using that by (auto simp: parse_escape_def Let_def append_codepoint_def
        split: list.splits if_splits option.splits)
  show ?case
  proof (cases s)
    case (Cons c cs)
    have IH: "length t \<le> length cs \<Longrightarrow> parse_string_loop None True o' t \<noteq> Inl JSON_TOO_LONG" for o' t
      using less.hyps [of t o'] Cons by fastforce
    moreover have "parse_string_loop None ok o2 t \<noteq> Inl JSON_TOO_LONG"
      if "parse_escape None o' cs = Some (ok, o2, t)" for o' ok o2 t
      using E [OF that] parse_escape_length [OF that] IH [of t o2] by simp
    ultimately show ?thesis using Cons
      by (auto simp: parse_string_loop.simps(2) Let_def split: if_splits option.splits)
  qed simp
qed

lemma parse_string_None: "parse_string None s \<noteq> Inl JSON_TOO_LONG"
  using parse_string_loop_None by (auto simp: parse_string_def split: list.splits if_splits)
end
