(* ===== verification/Http_Request.thy ===== *)
theory Http_Request
  imports Json
begin

text \<open>
  The request side of \<open>source/http_server.c\<close>: the end of the headers, the request line and the two
  framing headers, the route, percent decoding, the query of the target and the size line of a
  chunk. The header buffer is the list of its \<open>header_length\<close> bytes with the terminator after it, so
  \<open>strstr\<close> stops at the first zero byte. Pointer pairs \<open>start, end\<close> become the list between them.
\<close>

definition [cap_defs, simp]: "LS3DS_HTTP_TARGET_CAPACITY = (768 :: nat)"
definition [cap_defs, simp]: "LS3DS_MAX_HTTP_HEADER_SIZE = (2048 :: nat)"
definition [cap_defs, simp]: "LS3DS_MAX_HTTP_METADATA_SIZE = (16384 :: nat)"

record ParsedRequest =
  req_method :: string
  req_target :: string
  req_header_length :: nat
  req_content_length :: u64
  req_has_content_length :: bool
  req_chunked :: bool

datatype QueryResult = QUERY_MISSING | QUERY_OK string | QUERY_INVALID

text \<open>\<open>find_header_end\<close>: the length of the header block, 0 when its end has not come yet.\<close>

fun find_header_end_from :: "nat \<Rightarrow> string \<Rightarrow> nat" where
  "find_header_end_from i (a # b # c # d # s) =
     (if a = CR \<and> b = LF \<and> c = CR \<and> d = LF then i + 4
      else find_header_end_from (Suc i) (b # c # d # s))"
| "find_header_end_from i s = 0"

definition find_header_end :: "string \<Rightarrow> nat" where
  "find_header_end data = find_header_end_from 0 data"

definition is_blank :: "char \<Rightarrow> bool" where
  "is_blank c \<longleftrightarrow> c = CHR '' '' \<or> c = TAB"

definition parse_u64 :: "string \<Rightarrow> u64 option" where
  "parse_u64 s =
     (case dec_accum 0 0 (dropWhile is_blank s) of
        None \<Rightarrow> None
      | Some (parsed, digits, rest) \<Rightarrow>
          (if digits = 0 \<or> dropWhile is_blank rest \<noteq> [] then None else Some parsed))"

definition trim :: "string \<Rightarrow> string" where
  "trim s = rev (dropWhile is_blank (rev (dropWhile is_blank s)))"

definition value_equals :: "string \<Rightarrow> string \<Rightarrow> bool" where
  "value_equals s expected \<longleftrightarrow> strcase_eq (trim s) expected"

text \<open>\<open>strstr(s, "\r\n")\<close>: the text before the first line end and the text after it.\<close>

fun split_line :: "string \<Rightarrow> (string \<times> string) option" where
  "split_line (a # b # s) =
     (if a = NUL then None
      else if a = CR \<and> b = LF then Some ([], s)
      else (case split_line (b # s) of None \<Rightarrow> None | Some (l, r) \<Rightarrow> Some (a # l, r)))"
| "split_line s = None"

text \<open>One \<open>%Ns\<close> conversion of \<open>sscanf\<close>.\<close>

definition scan_word :: "nat \<Rightarrow> string \<Rightarrow> (string \<times> string) option" where
  "scan_word n s =
     (let s = dropWhile isspace s;
          w = take n (takeWhile (\<lambda>c. \<not> isspace c) s)
      in if w = [] then None else Some (w, drop (length w) s))"

text \<open>\<open>sscanf(first_line, "%7s %767s %15s %c", ...) == 3\<close>: three words and nothing after them.\<close>

definition scan_request_line :: "string \<Rightarrow> (string \<times> string \<times> string) option" where
  "scan_request_line s =
     (case scan_word 7 s of
        None \<Rightarrow> None
      | Some (m, s) \<Rightarrow>
          (case scan_word 767 s of
             None \<Rightarrow> None
           | Some (t, s) \<Rightarrow>
               (case scan_word 15 s of
                  None \<Rightarrow> None
                | Some (v, s) \<Rightarrow> if dropWhile isspace s \<noteq> [] then None else Some (m, t, v))))"

text \<open>One header line: \<open>None\<close> rejects the request.\<close>

definition parse_header_line ::
    "string \<Rightarrow> ParsedRequest \<times> bool \<Rightarrow> (ParsedRequest \<times> bool) option" where
  "parse_header_line line = (\<lambda>(request, has_transfer_encoding).
     (let name = takeWhile (\<lambda>c. c \<noteq> CHR '':'') line in
      case dropWhile (\<lambda>c. c \<noteq> CHR '':'') line of
        [] \<Rightarrow> None
      | _ # value \<Rightarrow>
          (if length name = length ''Content-Length'' \<and> strcase_eq name ''Content-Length'' then
             (if req_has_content_length request then None
              else case parse_u64 value of
                None \<Rightarrow> None
              | Some n \<Rightarrow> Some (request\<lparr>req_content_length := n, req_has_content_length := True\<rparr>,
                               has_transfer_encoding))
           else if length name = length ''Transfer-Encoding'' \<and> strcase_eq name ''Transfer-Encoding'' then
             (if has_transfer_encoding \<or> \<not> value_equals value ''chunked'' then None
              else Some (request\<lparr>req_chunked := True\<rparr>, True))
           else Some (request, has_transfer_encoding))))"

lemma split_line_length: "split_line s = Some (l, r) \<Longrightarrow> length s = length l + 2 + length r"
  by (induction s arbitrary: l r rule: split_line.induct) (auto split: if_splits option.splits)

function parse_header_lines :: "string \<Rightarrow> ParsedRequest \<times> bool \<Rightarrow> (ParsedRequest \<times> bool) option" where
  "parse_header_lines s state =
     (if length s \<le> 2 then Some state
      else case split_line s of
        None \<Rightarrow> None
      | Some (line, rest) \<Rightarrow>
          (if line = [] then None
           else case parse_header_line line state of
             None \<Rightarrow> None
           | Some state \<Rightarrow> parse_header_lines rest state))"
  by pat_completeness auto
termination
  by (relation "measure (\<lambda>(s, _). length s)") (auto dest: split_line_length)

declare parse_header_lines.simps [simp del]

definition parse_request_headers :: "string \<Rightarrow> ParsedRequest option" where
  "parse_request_headers data =
     (case split_line data of
        None \<Rightarrow> None
      | Some (first_line, rest) \<Rightarrow>
          (if first_line = [] \<or> length first_line \<ge> 1024 then None
           else case scan_request_line first_line of
             None \<Rightarrow> None
           | Some (m, t, version) \<Rightarrow>
               (if version \<noteq> ''HTTP/1.1'' then None
                else case parse_header_lines rest
                       (\<lparr>req_method = m, req_target = t, req_header_length = length data,
                         req_content_length = 0, req_has_content_length = False, req_chunked = False\<rparr>, False) of
                  None \<Rightarrow> None
                | Some (request, _) \<Rightarrow>
                    if req_has_content_length request \<and> req_chunked request then None else Some request)))"

definition route_path :: "string \<Rightarrow> nat \<Rightarrow> string option" where
  "route_path target capacity =
     (let path = takeWhile (\<lambda>c. c \<noteq> CHR ''?'') target in
      if path = [] \<or> length path \<ge> capacity then None else Some path)"

definition hex_digit :: "char \<Rightarrow> nat option" where
  "hex_digit c =
     (if 48 \<le> byte c \<and> byte c \<le> 57 then Some (byte c - 48)
      else if 97 \<le> byte c \<and> byte c \<le> 102 then Some (byte c - 97 + 10)
      else if 65 \<le> byte c \<and> byte c \<le> 70 then Some (byte c - 65 + 10)
      else None)"

text \<open>\<open>percent_decode\<close> with the output so far; \<open>capacity\<close> leaves room for the terminator.\<close>

definition put_decoded :: "nat \<Rightarrow> nat \<Rightarrow> string \<Rightarrow> string option" where
  "put_decoded capacity value output =
     (if value = 0 \<or> value < 0x20 \<or> length output + 1 \<ge> capacity then None
      else Some (output @ [char_of value]))"

function percent_decode_loop :: "nat \<Rightarrow> string \<Rightarrow> string \<Rightarrow> string option" where
  "percent_decode_loop capacity [] output = Some output"
| "percent_decode_loop capacity (c # s) output =
     (if c = CHR ''%'' then
        (case s of
           h # l # rest \<Rightarrow>
             (case (hex_digit h, hex_digit l) of
                (Some high, Some low) \<Rightarrow>
                  (case put_decoded capacity (push_bit 4 high OR low) output of
                     None \<Rightarrow> None
                   | Some output \<Rightarrow> percent_decode_loop capacity rest output)
              | _ \<Rightarrow> None)
         | _ \<Rightarrow> None)
      else
        (case put_decoded capacity (if c = CHR ''+'' then 32 else byte c) output of
           None \<Rightarrow> None
         | Some output \<Rightarrow> percent_decode_loop capacity s output))"
  by pat_completeness auto
termination
  by (relation "measure (\<lambda>(_, s, _). length s)") auto

definition percent_decode :: "string \<Rightarrow> nat \<Rightarrow> string option" where
  "percent_decode s capacity = percent_decode_loop capacity s []"

text \<open>The loop of \<open>query_value\<close>; \<open>found\<close> carries the decoded value once the name has been seen.\<close>

function query_loop :: "string \<Rightarrow> nat \<Rightarrow> string \<Rightarrow> string option \<Rightarrow> QueryResult" where
  "query_loop wanted capacity cursor found =
     (if cursor = [] then (case found of None \<Rightarrow> QUERY_MISSING | Some v \<Rightarrow> QUERY_OK v)
      else
        (let pair = takeWhile (\<lambda>c. c \<noteq> CHR ''&'') cursor;
             rest = drop 1 (dropWhile (\<lambda>c. c \<noteq> CHR ''&'') cursor)
         in case dropWhile (\<lambda>c. c \<noteq> CHR ''='') pair of
              [] \<Rightarrow> QUERY_INVALID
            | _ # encoded \<Rightarrow>
                (case percent_decode (takeWhile (\<lambda>c. c \<noteq> CHR ''='') pair) 32 of
                   None \<Rightarrow> QUERY_INVALID
                 | Some name \<Rightarrow>
                     (if name = wanted then
                        (if found \<noteq> None then QUERY_INVALID
                         else case percent_decode encoded capacity of
                           None \<Rightarrow> QUERY_INVALID
                         | Some value \<Rightarrow>
                             (if value = [] then QUERY_INVALID
                              else query_loop wanted capacity rest (Some value)))
                      else query_loop wanted capacity rest found))))"
  by pat_completeness auto

lemma query_rest_shorter:
  "cursor \<noteq> [] \<Longrightarrow> length (dropWhile P cursor) - Suc 0 < length cursor"
  using length_dropWhile_le [of P cursor] by (cases cursor) (simp_all add: less_Suc_eq_le le_diff_conv)

termination query_loop
  by (relation "measure (\<lambda>(_, _, cursor, _). length cursor)") (auto intro: query_rest_shorter)

declare query_loop.simps [simp del]

definition query_value :: "string \<Rightarrow> string \<Rightarrow> nat \<Rightarrow> QueryResult" where
  "query_value target wanted capacity =
     (case dropWhile (\<lambda>c. c \<noteq> CHR ''?'') target of
        [] \<Rightarrow> QUERY_MISSING
      | _ # cursor \<Rightarrow> query_loop wanted capacity cursor None)"

text \<open>The size line of a chunk, up to its extensions.\<close>

fun parse_chunk_size_loop :: "u64 \<Rightarrow> nat \<Rightarrow> string \<Rightarrow> u64 option" where
  "parse_chunk_size_loop parsed digits [] = (if digits = 0 then None else Some parsed)"
| "parse_chunk_size_loop parsed digits (c # s) =
     (if c = CHR '';'' then (if digits = 0 then None else Some parsed)
      else case hex_digit c of
        None \<Rightarrow> None
      | Some digit \<Rightarrow>
          (if parsed > (- 1 - of_nat digit) div 16 then None
           else parse_chunk_size_loop (parsed * 16 + of_nat digit) (Suc digits) s))"

definition parse_chunk_size :: "string \<Rightarrow> u64 option" where
  "parse_chunk_size line = parse_chunk_size_loop 0 0 line"

section \<open>The end of the headers\<close>

abbreviation END_OF_HEADERS :: string where "END_OF_HEADERS \<equiv> [CR, LF, CR, LF]"

lemma find_header_end_Some:
  "find_header_end_from i s = Suc n \<Longrightarrow> \<exists>k. Suc n = i + k + 4 \<and> take 4 (drop k s) = END_OF_HEADERS \<and> k + 4 \<le> length s \<and>
     (\<forall>j < k. take 4 (drop j s) \<noteq> END_OF_HEADERS)"
proof (induction i s rule: find_header_end_from.induct)
  case (1 i a b c d s)
  show ?case
  proof (cases "a = CR \<and> b = LF \<and> c = CR \<and> d = LF")
    case True
    with "1.prems" show ?thesis by (intro exI [of _ 0]) auto
  next
    case False
    with "1.IH" "1.prems" obtain k where k: "Suc n = Suc i + k + 4"
      "take 4 (drop k (b # c # d # s)) = END_OF_HEADERS" "k + 4 \<le> length (b # c # d # s)"
      "\<forall>j < k. take 4 (drop j (b # c # d # s)) \<noteq> END_OF_HEADERS" by auto
    have "take 4 (drop j (a # b # c # d # s)) \<noteq> END_OF_HEADERS" if "j < Suc k" for j
      using that k(4) False by (cases j) auto
    with k(1-3) show ?thesis by (intro exI [of _ "Suc k"]) auto
  qed
qed auto

lemma find_header_end_0: "find_header_end_from i s = 0 \<Longrightarrow> k + 4 \<le> length s \<Longrightarrow> take 4 (drop k s) \<noteq> END_OF_HEADERS"
proof (induction i s arbitrary: k rule: find_header_end_from.induct)
  case (1 i a b c d s)
  from "1.prems"(1) have n: "\<not> (a = CR \<and> b = LF \<and> c = CR \<and> d = LF)" and
    z: "find_header_end_from (Suc i) (b # c # d # s) = 0" by (auto split: if_splits)
  show ?case
  proof (cases k)
    case 0
    with n show ?thesis by auto
  next
    case (Suc j)
    with "1.IH" [OF n z, of j] "1.prems"(2) show ?thesis by simp
  qed
qed auto

lemma find_header_end_spec:
  "find_header_end data = n \<and> 0 < n \<longleftrightarrow>
     4 \<le> n \<and> n \<le> length data \<and> take 4 (drop (n - 4) data) = END_OF_HEADERS \<and>
     (\<forall>j < n - 4. take 4 (drop j data) \<noteq> END_OF_HEADERS)" (is "?l \<longleftrightarrow> ?r")
proof
  assume ?l
  then obtain m where "n = Suc m" "find_header_end_from 0 data = Suc m"
    by (cases n) (auto simp: find_header_end_def)
  from find_header_end_Some [OF this(2)] this(1) show ?r by auto
next
  assume r: ?r
  show ?l
  proof (cases "find_header_end_from 0 data")
    case 0
    with r find_header_end_0 [of 0 data "n - 4"] show ?thesis by auto
  next
    case (Suc m)
    from find_header_end_Some [OF Suc] obtain k where k: "Suc m = k + 4"
      "take 4 (drop k data) = END_OF_HEADERS" "\<forall>j < k. take 4 (drop j data) \<noteq> END_OF_HEADERS" by auto
    with r have "k = n - 4" by (meson linorder_neqE_nat)
    with k r Suc show ?thesis by (simp add: find_header_end_def)
  qed
qed

section \<open>Lines and headers\<close>

abbreviation CRLF :: string where "CRLF \<equiv> [CR, LF]"

definition line_text :: "string \<Rightarrow> bool" where
  "line_text l \<longleftrightarrow> CR \<notin> set l \<and> nul_free l"

lemma split_line_text: "line_text l \<Longrightarrow> split_line (l @ CR # LF # r) = Some (l, r)"
proof (induction l)
  case (Cons c l)
  then have "line_text l" "c \<noteq> NUL" "c \<noteq> CR" by (auto simp: line_text_def)
  with Cons.IH show ?case by (cases l) auto
qed simp

lemma split_line_Some: "split_line s = Some (l, r) \<Longrightarrow> s = l @ CRLF @ r \<and> nul_free l"
  by (induction s arbitrary: l r rule: split_line.induct) (auto split: if_splits option.splits)

fun parse_all :: "string list \<Rightarrow> ParsedRequest \<times> bool \<Rightarrow> (ParsedRequest \<times> bool) option" where
  "parse_all [] st = Some st"
| "parse_all (l # ls) st = (case parse_header_line l st of None \<Rightarrow> None | Some st \<Rightarrow> parse_all ls st)"

definition lines_text :: "string list \<Rightarrow> string" where
  "lines_text ls = concat (map (\<lambda>l. l @ CRLF) ls)"

lemma lines_text_simps [simp]:
  "lines_text [] = []" "lines_text (l # ls) = l @ CRLF @ lines_text ls"
  by (simp_all add: lines_text_def)

lemma parse_header_lines_text:
  "\<forall>l \<in> set ls. line_text l \<and> l \<noteq> [] \<Longrightarrow> parse_header_lines (lines_text ls @ CRLF) st = parse_all ls st"
proof (induction ls arbitrary: st)
  case Nil
  show ?case by (subst parse_header_lines.simps) simp
next
  case (Cons l ls)
  then have "split_line (l @ CR # LF # lines_text ls @ CRLF) = Some (l, lines_text ls @ CRLF)" "l \<noteq> []"
    by (auto intro: split_line_text [of l "lines_text ls @ CRLF", simplified])
  with Cons show ?case
    by (subst parse_header_lines.simps) (auto split: option.splits)
qed

lemma parse_header_lines_sound:
  "parse_header_lines s st = Some st' \<Longrightarrow>
     \<exists>ls rest. s = lines_text ls @ rest \<and> length rest \<le> 2 \<and> parse_all ls st = Some st'"
proof (induction s st rule: parse_header_lines.induct)
  case (1 s st)
  show ?case
  proof (cases "length s \<le> 2")
    case True
    with "1.prems" show ?thesis
      by (intro exI [of _ "[]"] exI [of _ s]) (simp add: parse_header_lines.simps)
  next
    case False
    with "1.prems" obtain l r st1 where l: "split_line s = Some (l, r)" "l \<noteq> []"
      "parse_header_line l st = Some st1" "parse_header_lines r st1 = Some st'"
      by (subst (asm) parse_header_lines.simps) (auto split: option.splits if_splits)
    from "1.IH" [OF False l(1) refl l(2,3,4)] obtain ls rest where
      "r = lines_text ls @ rest" "length rest \<le> 2" "parse_all ls st1 = Some st'" by auto
    with l split_line_Some [OF l(1)] show ?thesis
      by (intro exI [of _ "l # ls"]) auto
  qed
qed

definition header_named :: "string \<Rightarrow> string \<Rightarrow> bool" where
  "header_named n l \<longleftrightarrow> strcase_eq (takeWhile (\<lambda>c. c \<noteq> CHR '':'') l) n"

definition count_named :: "string \<Rightarrow> string list \<Rightarrow> nat" where
  "count_named n ls = length (filter (header_named n) ls)"

lemma strcase_eq_length: "strcase_eq a b \<Longrightarrow> length a = length b"
  unfolding strcase_eq_def by (metis length_map)

lemma parse_header_line_cases:
  assumes "parse_header_line l (r, te) = Some (r', te')"
  obtains (length) n where "header_named ''Content-Length'' l" "\<not> header_named ''Transfer-Encoding'' l"
      "\<not> req_has_content_length r" "r' = r\<lparr>req_content_length := n, req_has_content_length := True\<rparr>" "te' = te"
  | (encoding) "header_named ''Transfer-Encoding'' l" "\<not> header_named ''Content-Length'' l"
      "\<not> te" "te'" "r' = r\<lparr>req_chunked := True\<rparr>"
  | (other) "\<not> header_named ''Content-Length'' l" "\<not> header_named ''Transfer-Encoding'' l" "r' = r" "te' = te"
proof -
  let ?name = "takeWhile (\<lambda>c. c \<noteq> CHR '':'') l"
  have len: "length ?name = 14" if "header_named ''Content-Length'' l"
    using strcase_eq_length [OF that [unfolded header_named_def]] by simp
  have len': "length ?name = 17" if "header_named ''Transfer-Encoding'' l"
    using strcase_eq_length [OF that [unfolded header_named_def]] by simp
  obtain c v where d: "dropWhile (\<lambda>c. c \<noteq> CHR '':'') l = c # v"
    using assms by (cases "dropWhile (\<lambda>c. c \<noteq> CHR '':'') l") (simp_all add: parse_header_line_def)
  consider "header_named ''Content-Length'' l" | "header_named ''Transfer-Encoding'' l"
    | "\<not> header_named ''Content-Length'' l" "\<not> header_named ''Transfer-Encoding'' l" by blast
  then show thesis
  proof cases
    case 1
    with len len' have n: "\<not> header_named ''Transfer-Encoding'' l" by auto
    from assms 1 d len have "\<not> req_has_content_length r" by (simp add: parse_header_line_def header_named_def split: if_splits)
    moreover from this assms 1 d len obtain n where
      "r' = r\<lparr>req_content_length := n, req_has_content_length := True\<rparr>" "te' = te"
      by (auto simp: parse_header_line_def header_named_def split: option.splits)
    ultimately show thesis using length 1 n by blast
  next
    case 2
    with len len' have n: "\<not> header_named ''Content-Length'' l" by auto
    with assms 2 d len' have "\<not> te" "te'" "r' = r\<lparr>req_chunked := True\<rparr>"
      by (auto simp: parse_header_line_def header_named_def split: if_splits)
    then show thesis using encoding 2 n by blast
  next
    case 3
    with assms d have "r' = r" "te' = te"
      by (simp_all add: parse_header_line_def header_named_def)
    then show thesis using other 3 by blast
  qed
qed

lemma parse_header_line_counts:
  assumes "parse_header_line l (r, req_chunked r) = Some (r', te')"
  shows "te' = req_chunked r' \<and>
    of_bool (req_has_content_length r') = of_bool (req_has_content_length r) + of_bool (header_named ''Content-Length'' l) + (0::nat) \<and>
    of_bool (req_chunked r') = of_bool (req_chunked r) + of_bool (header_named ''Transfer-Encoding'' l) + (0::nat) \<and>
    req_method r' = req_method r \<and> req_target r' = req_target r \<and> req_header_length r' = req_header_length r"
  using assms by (cases rule: parse_header_line_cases) simp_all

lemma parse_all_counts:
  "parse_all ls (r, req_chunked r) = Some (r', te') \<Longrightarrow> te' = req_chunked r' \<and>
    of_bool (req_has_content_length r') = of_bool (req_has_content_length r) + count_named ''Content-Length'' ls \<and>
    of_bool (req_chunked r') = of_bool (req_chunked r) + count_named ''Transfer-Encoding'' ls \<and>
    req_method r' = req_method r \<and> req_target r' = req_target r \<and> req_header_length r' = req_header_length r"
proof (induction ls arbitrary: r)
  case (Cons l ls)
  then obtain r1 te1 where l: "parse_header_line l (r, req_chunked r) = Some (r1, te1)"
    and p: "parse_all ls (r1, te1) = Some (r', te')" by (auto split: option.splits)
  note c = parse_header_line_counts [OF l]
  with p have "parse_all ls (r1, req_chunked r1) = Some (r', te')" by simp
  from Cons.IH [OF this] c show ?case by (auto simp: count_named_def)
qed (auto simp: count_named_def)

lemma request_framing:
  assumes "parse_request_headers data = Some r"
  shows "\<exists>first ls rest. data = first @ CRLF @ lines_text ls @ rest \<and> length rest \<le> 2 \<and>
    scan_request_line first = Some (req_method r, req_target r, ''HTTP/1.1'') \<and>
    count_named ''Content-Length'' ls = of_bool (req_has_content_length r) \<and>
    count_named ''Transfer-Encoding'' ls = of_bool (req_chunked r) \<and>
    \<not> (req_has_content_length r \<and> req_chunked r) \<and> req_header_length r = length data"
proof -
  from assms obtain first tail m t te where f: "split_line data = Some (first, tail)"
    and sc: "scan_request_line first = Some (m, t, ''HTTP/1.1'')"
    and h: "parse_header_lines tail
       (\<lparr>req_method = m, req_target = t, req_header_length = length data,
         req_content_length = 0, req_has_content_length = False, req_chunked = False\<rparr>, False) = Some (r, te)"
    and n: "\<not> (req_has_content_length r \<and> req_chunked r)"
    by (auto simp: parse_request_headers_def split: option.splits if_splits)
  from parse_header_lines_sound [OF h] obtain ls rest where
    l: "tail = lines_text ls @ rest" "length rest \<le> 2" and
    pa: "parse_all ls (\<lparr>req_method = m, req_target = t, req_header_length = length data,
         req_content_length = 0, req_has_content_length = False, req_chunked = False\<rparr>, False) = Some (r, te)" by blast
  from parse_all_counts [of ls "\<lparr>req_method = m, req_target = t, req_header_length = length data,
         req_content_length = 0, req_has_content_length = False, req_chunked = False\<rparr>" r te] pa
  have "of_bool (req_has_content_length r) = count_named ''Content-Length'' ls"
    "of_bool (req_chunked r) = count_named ''Transfer-Encoding'' ls"
    "req_method r = m" "req_target r = t" "req_header_length r = length data" by simp_all
  with split_line_Some [OF f] sc n l show ?thesis
    by (intro exI [of _ first] exI [of _ ls] exI [of _ rest]) simp
qed

text \<open>The other direction: a request written line by line is read back.\<close>

definition word_text :: "string \<Rightarrow> bool" where
  "word_text w \<longleftrightarrow> w \<noteq> [] \<and> (\<forall>c \<in> set w. \<not> isspace c) \<and> nul_free w"

lemma isspace_space [simp]: "isspace (CHR '' '')" "isspace CR" "isspace LF" "isspace TAB"
  by (simp_all add: isspace_def)

lemma word_head: "word_text w \<Longrightarrow> dropWhile isspace (w @ s) = w @ s"
  by (cases w) (simp_all add: word_text_def)

lemma word_take:
  "word_text w \<Longrightarrow> s = [] \<or> isspace (hd s) \<Longrightarrow> takeWhile (\<lambda>c. \<not> isspace c) (w @ s) = w"
  by (cases s) (simp_all add: word_text_def takeWhile_append2)

lemma scan_word_text:
  assumes "word_text w" and "length w \<le> n" and "s = [] \<or> isspace (hd s)"
  shows "scan_word n (w @ s) = Some (w, s)"
  using assms word_head [OF assms(1), of s] word_take [OF assms(1,3)]
  by (cases w) (simp_all add: scan_word_def word_text_def Let_def)

lemma scan_word_space: "scan_word n (CHR '' '' # s) = scan_word n s"
  by (simp add: scan_word_def)

lemma scan_request_line_text:
  assumes "word_text m" "length m \<le> 7" "word_text t" "length t \<le> 767" "word_text v" "length v \<le> 15"
  shows "scan_request_line (m @ '' '' @ t @ '' '' @ v) = Some (m, t, v)"
  using scan_word_text [OF assms(1,2), of "'' '' @ t @ '' '' @ v"]
    scan_word_text [OF assms(3,4), of "'' '' @ v"] scan_word_text [OF assms(5,6), of "[]"]
  by (simp add: scan_request_line_def scan_word_space)

lemma word_line_text: "word_text w \<Longrightarrow> line_text w"
  by (auto simp: word_text_def line_text_def)

lemma line_text_append [simp]: "line_text (a @ b) \<longleftrightarrow> line_text a \<and> line_text b"
  "line_text (c # b) \<longleftrightarrow> c \<noteq> CR \<and> c \<noteq> NUL \<and> line_text b" "line_text []"
  by (auto simp: line_text_def)

definition request_head :: "string \<Rightarrow> string \<Rightarrow> string list \<Rightarrow> string" where
  "request_head m t ls = (m @ '' '' @ t @ '' HTTP/1.1'') @ CRLF @ lines_text ls @ CRLF"

lemma parse_request_head:
  assumes "word_text m" "length m \<le> 7" "word_text t" "length t \<le> 767"
    and "\<forall>l \<in> set ls. line_text l \<and> l \<noteq> []"
    and "parse_all ls (\<lparr>req_method = m, req_target = t, req_header_length = length (request_head m t ls),
         req_content_length = 0, req_has_content_length = False, req_chunked = False\<rparr>, False) = Some (r, te)"
    and "\<not> (req_has_content_length r \<and> req_chunked r)"
  shows "parse_request_headers (request_head m t ls) = Some r"
proof -
  let ?v = "''HTTP/1.1''"
  have v: "word_text ?v" by (simp add: word_text_def isspace_def)
  have "line_text (m @ '' '' @ t @ '' '' @ ?v)"
    using assms(1,3) v by (simp add: word_line_text)
  from split_line_text [OF this, of "lines_text ls @ CRLF"]
  have "split_line (request_head m t ls) = Some (m @ '' '' @ t @ '' '' @ ?v, lines_text ls @ CRLF)"
    by (simp add: request_head_def)
  moreover have "scan_request_line (m @ '' '' @ t @ '' '' @ ?v) = Some (m, t, ?v)"
    by (rule scan_request_line_text) (use assms v in simp_all)
  moreover have "\<not> 1024 \<le> length (m @ '' '' @ t @ '' '' @ ?v)" using assms(2,4) by simp
  ultimately show ?thesis using assms(1,5-7)
    by (simp add: parse_request_headers_def parse_header_lines_text)
qed

lemma parse_u64_dec: "parse_u64 (CHR '' '' # dec (unat n)) = Some n"
proof -
  have "is_blank (CHR '' '')" by (simp add: is_blank_def)
  moreover have "dropWhile is_blank (dec (unat n)) = dec (unat n)"
  proof -
    have "\<not> is_blank (hd (dec (unat n)))"
      using dec_digits [of "hd (dec (unat n))" "unat n"] by (auto simp: is_blank_def isdigit_def)
    then show ?thesis by (cases "dec (unat n)") auto
  qed
  moreover have "dec_accum 0 0 (dec (unat n)) = Some (n, length (dec (unat n)), [])"
    using dec_accum_dec [of "[]" n] by simp
  ultimately show ?thesis by (simp add: parse_u64_def)
qed

lemma content_length_line:
  "\<not> req_has_content_length r \<Longrightarrow> parse_header_line (''Content-Length: '' @ dec (unat n)) (r, te) =
     Some (r\<lparr>req_content_length := n, req_has_content_length := True\<rparr>, te)"
  by (simp add: parse_header_line_def Let_def strcase_eq_def parse_u64_dec)

lemma other_header_line:
  "CHR '':'' \<notin> set name \<Longrightarrow> length name \<noteq> 14 \<Longrightarrow> length name \<noteq> 17 \<Longrightarrow>
     parse_header_line (name @ CHR '':'' # v) (r, te) = Some (r, te)"
proof -
  assume a: "CHR '':'' \<notin> set name" "length name \<noteq> 14" "length name \<noteq> 17"
  then have c: "\<forall>x \<in> set name. x \<noteq> CHR '':''" by auto
  then have "takeWhile (\<lambda>c. c \<noteq> CHR '':'') (name @ CHR '':'' # v) = name"
    "dropWhile (\<lambda>c. c \<noteq> CHR '':'') (name @ CHR '':'' # v) = CHR '':'' # v" by simp_all
  then show ?thesis using a by (simp add: parse_header_line_def)
qed

lemma transfer_encoding_line:
  "\<not> te \<Longrightarrow> parse_header_line ''Transfer-Encoding: chunked'' (r, te) = Some (r\<lparr>req_chunked := True\<rparr>, True)"
  by (simp add: parse_header_line_def Let_def value_equals_def trim_def is_blank_def strcase_eq_def)

section \<open>Percent decoding and queries\<close>

lemma put_decoded_Some:
  "put_decoded capacity value output = Some output' \<Longrightarrow>
     output' = output @ [char_of value] \<and> 32 \<le> value \<and> length output + 1 < capacity"
  by (auto simp: put_decoded_def split: if_splits)

lemma hex_digit_eq: "hex_digit = hex_value"
  by (simp add: fun_eq_iff hex_digit_def hex_value_def)

lemma hex_digit_less: "hex_digit c = Some d \<Longrightarrow> d < 16"
  by (auto simp: hex_digit_def split: if_splits)

lemma hex_pair: "h < 16 \<Longrightarrow> l < 16 \<Longrightarrow> push_bit 4 h OR l < (256::nat)"
proof -
  have "\<forall>h \<in> set [0..<16]. \<forall>l \<in> set [0..<16]. push_bit 4 h OR l < (256::nat)" by code_simp
  then show "h < 16 \<Longrightarrow> l < 16 \<Longrightarrow> ?thesis" by auto
qed

definition printable :: "string \<Rightarrow> bool" where
  "printable s \<longleftrightarrow> (\<forall>c \<in> set s. 32 \<le> byte c)"

lemma printable_simps [simp]:
  "printable []" "printable (c # s) \<longleftrightarrow> 32 \<le> byte c \<and> printable s"
  "printable (s @ t) \<longleftrightarrow> printable s \<and> printable t"
  by (auto simp: printable_def)

lemma printable_nul_free: "printable s \<Longrightarrow> nul_free s"
  by (auto simp: printable_def nul_free_def)

lemma percent_decode_loop_out:
  "percent_decode_loop capacity s out = Some r \<Longrightarrow> printable out \<Longrightarrow> length out < capacity \<Longrightarrow>
     printable r \<and> length r < capacity \<and> length r \<le> length out + length s"
proof (induction capacity s out rule: percent_decode_loop.induct)
  case (2 capacity c s out)
  show ?case
  proof (cases "c = CHR ''%''")
    case False
    with "2.prems"(1) obtain o' where o: "put_decoded capacity (if c = CHR ''+'' then 32 else byte c) out = Some o'"
      "percent_decode_loop capacity s o' = Some r" by (auto split: option.splits)
    note p = put_decoded_Some [OF o(1)]
    then have "printable o'" using "2.prems"(2) by auto
    with "2.IH"(2) [OF False o(1,2)] p show ?thesis by auto
  next
    case True
    with "2.prems"(1) obtain h l rest a b o' where e: "s = h # l # rest" "hex_digit h = Some a" "hex_digit l = Some b"
      "put_decoded capacity (push_bit 4 a OR b) out = Some o'" "percent_decode_loop capacity rest o' = Some r"
      by (auto split: list.splits option.splits)
    note p = put_decoded_Some [OF e(4)] hex_pair [OF hex_digit_less [OF e(2)] hex_digit_less [OF e(3)]]
    then have "printable o'" using "2.prems"(2) by auto
    with "2.IH"(1) [OF True e(1) refl refl e(2,3,4,5)] p e(1) show ?thesis by auto
  qed
qed auto

lemma percent_decode_bounds:
  "percent_decode s capacity = Some r \<Longrightarrow> 0 < capacity \<Longrightarrow> printable r \<and> length r < capacity \<and> length r \<le> length s"
  using percent_decode_loop_out [of capacity s "[]" r] by (simp add: percent_decode_def)

text \<open>Text without escapes stands for itself.\<close>

lemma percent_decode_plain:
  assumes "\<forall>c \<in> set s. 32 \<le> byte c \<and> c \<noteq> CHR ''%'' \<and> c \<noteq> CHR ''+''" and "length s < capacity"
  shows "percent_decode s capacity = Some s"
proof -
  have "percent_decode_loop capacity s out = Some (out @ s)" if "length out + length s < capacity" for out
    using assms(1) that
  proof (induction s arbitrary: out)
    case (Cons c s)
    then have "put_decoded capacity (byte c) out = Some (out @ [c])" by (simp add: put_decoded_def)
    with Cons show ?case by simp
  qed simp
  from this [of "[]"] assms(2) show ?thesis by (simp add: percent_decode_def)
qed

lemma query_loop_ok:
  "query_loop wanted capacity cursor found = QUERY_OK v \<Longrightarrow> 0 < capacity \<Longrightarrow>
     (\<forall>u. found = Some u \<longrightarrow> u \<noteq> [] \<and> printable u \<and> length u < capacity) \<Longrightarrow>
     v \<noteq> [] \<and> printable v \<and> length v < capacity"
proof (induction wanted capacity cursor found rule: query_loop.induct)
  case (1 wanted capacity cursor found)
  show ?case
  proof (cases "cursor = []")
    case True
    with "1.prems" show ?thesis by (subst (asm) query_loop.simps) (auto split: option.splits)
  next
    case False
    let ?pair = "takeWhile (\<lambda>c. c \<noteq> CHR ''&'') cursor"
    let ?rest = "drop 1 (dropWhile (\<lambda>c. c \<noteq> CHR ''&'') cursor)"
    from False "1.prems"(1) obtain e enc name where d: "dropWhile (\<lambda>c. c \<noteq> CHR ''='') ?pair = e # enc"
      "percent_decode (takeWhile (\<lambda>c. c \<noteq> CHR ''='') ?pair) 32 = Some name"
      by (subst (asm) query_loop.simps) (auto simp: Let_def split: list.splits option.splits)
    show ?thesis
    proof (cases "name = wanted")
      case True
      with False d "1.prems"(1) obtain val where v: "percent_decode enc capacity = Some val" "val \<noteq> []" "\<not> found \<noteq> None"
        "query_loop wanted capacity ?rest (Some val) = QUERY_OK v"
        by (subst (asm) query_loop.simps) (auto simp: Let_def split: option.splits if_splits)
      from "1.IH"(1) [OF False refl refl d True v(3,1,2,4) "1.prems"(2)] percent_decode_bounds [OF v(1) "1.prems"(2)] v(2)
      show ?thesis by simp
    next
      case name: False
      with False d "1.prems"(1) have "query_loop wanted capacity ?rest found = QUERY_OK v"
        by (subst (asm) query_loop.simps) (simp add: Let_def)
      from "1.IH"(2) [OF False refl refl d name this "1.prems"(2,3)] show ?thesis .
    qed
  qed
qed

lemma query_value_ok:
  "query_value target wanted capacity = QUERY_OK v \<Longrightarrow> 0 < capacity \<Longrightarrow> v \<noteq> [] \<and> nul_free v \<and> length v < capacity"
  by (auto simp: query_value_def dest!: query_loop_ok split: list.splits intro: printable_nul_free)

text \<open>A query written pair by pair is searched pair by pair.\<close>

lemma query_step:
  assumes "CHR ''&'' \<notin> set n" "CHR ''='' \<notin> set n" "CHR ''&'' \<notin> set enc"
    and "percent_decode n 32 = Some name" and "rest = [] \<or> hd rest = CHR ''&''"
  shows "query_loop wanted capacity (n @ ''='' @ enc @ rest) found =
     (if name = wanted then
        (if found \<noteq> None then QUERY_INVALID
         else case percent_decode enc capacity of
           None \<Rightarrow> QUERY_INVALID
         | Some value \<Rightarrow>
             if value = [] then QUERY_INVALID else query_loop wanted capacity (drop 1 rest) (Some value))
      else query_loop wanted capacity (drop 1 rest) found)"
proof -
  let ?p = "n @ CHR ''='' # enc"
  have "\<forall>c \<in> set ?p. c \<noteq> CHR ''&''" using assms(1,3) by auto
  then have "takeWhile (\<lambda>c. c \<noteq> CHR ''&'') (?p @ rest) = ?p \<and> dropWhile (\<lambda>c. c \<noteq> CHR ''&'') (?p @ rest) = rest"
    using assms(5) by (cases rest) (auto simp: takeWhile_append2 dropWhile_append2)
  moreover have "takeWhile (\<lambda>c. c \<noteq> CHR ''='') ?p = n" "dropWhile (\<lambda>c. c \<noteq> CHR ''='') ?p = CHR ''='' # enc"
  proof -
    have "\<forall>c \<in> set n. c \<noteq> CHR ''=''" using assms(2) by auto
    then show "takeWhile (\<lambda>c. c \<noteq> CHR ''='') ?p = n" "dropWhile (\<lambda>c. c \<noteq> CHR ''='') ?p = CHR ''='' # enc" by simp_all
  qed
  ultimately show ?thesis using assms(4)
    by (subst query_loop.simps) (auto simp: Let_def split: option.splits)
qed

section \<open>Chunk sizes\<close>

text \<open>The number a text of hexadecimal digits stands for.\<close>

fun hex_number :: "nat \<Rightarrow> string \<Rightarrow> nat" where
  "hex_number a [] = a"
| "hex_number a (c # s) = hex_number (16 * a + the (hex_digit c)) s"

lemma hex_number_ge: "a \<le> hex_number a s"
proof (induction s arbitrary: a)
  case (Cons c s)
  have "a \<le> 16 * a + the (hex_digit c)" by simp
  also have "\<dots> \<le> hex_number (16 * a + the (hex_digit c)) s" by (rule Cons.IH)
  finally show ?case by simp
qed simp

lemma hex_overflow:
  fixes p :: u64
  assumes "d < 16"
  shows "p > (- 1 - of_nat d) div 16 \<longleftrightarrow> 2 ^ 64 \<le> 16 * unat p + d"
    and "16 * unat p + d < 2 ^ 64 \<Longrightarrow> unat (p * 16 + of_nat d) = 16 * unat p + d"
proof -
  have ud: "unat (of_nat d :: u64) = d" using assms by (simp add: unat_of_nat)
  have "(of_nat d :: u64) \<le> - 1" by simp
  then have "unat (- 1 - of_nat d :: u64) = 2 ^ 64 - 1 - d"
    by (simp add: unat_sub ud unat_minus_one_max)
  then have "unat ((- 1 - of_nat d :: u64) div 16) = (2 ^ 64 - 1 - d) div 16"
    by (simp only: unat_div) simp
  then show "p > (- 1 - of_nat d) div 16 \<longleftrightarrow> 2 ^ 64 \<le> 16 * unat p + d"
    using assms by (simp add: word_less_nat_alt) linarith
  show "unat (p * 16 + of_nat d) = 16 * unat p + d" if "16 * unat p + d < 2 ^ 64"
    unfolding unat_word_ariths ud using that by (simp add: mult.commute)
qed

lemma parse_chunk_size_loop_spec:
  "\<forall>c \<in> set ds. hex_digit c \<noteq> None \<Longrightarrow> rest = [] \<or> hd rest = CHR '';'' \<Longrightarrow>
     parse_chunk_size_loop p k (ds @ rest) =
       (if k + length ds = 0 \<or> 2 ^ 64 \<le> hex_number (unat p) ds then None else Some (of_nat (hex_number (unat p) ds)))"
proof (induction ds arbitrary: p k)
  case Nil
  have "unat p < 2 ^ 64" using unsigned_less [of p] by simp
  then have "\<not> 18446744073709551616 \<le> unat p" by simp
  with Nil show ?case by (cases rest) auto
next
  case (Cons c ds)
  then obtain d where d: "hex_digit c = Some d" by auto
  then have c: "c \<noteq> CHR '';''" by (auto simp: hex_digit_def)
  note less = hex_digit_less [OF d]
  note h = hex_overflow [OF less, of p]
  show ?case
  proof (cases "2 ^ 64 \<le> 16 * unat p + d")
    case True
    with hex_number_ge [of "16 * unat p + d" ds] have "2 ^ 64 \<le> hex_number (16 * unat p + d) ds" by linarith
    with True h(1) d c show ?thesis by simp
  next
    case False
    then have "\<not> p > (- 1 - of_nat d) div 16" using h(1) by simp
    with d c Cons.IH [of "p * 16 + of_nat d" "Suc k"] Cons.prems h(2) False show ?thesis by simp
  qed
qed

lemma parse_chunk_size_digits:
  "\<forall>c \<in> set ds. hex_digit c \<noteq> None \<Longrightarrow> rest = [] \<or> hd rest = CHR '';'' \<Longrightarrow>
     parse_chunk_size (ds @ rest) = (if ds = [] \<or> 2 ^ 64 \<le> hex_number 0 ds then None else Some (of_nat (hex_number 0 ds)))"
  by (auto simp: parse_chunk_size_def parse_chunk_size_loop_spec)

end
