(* ===== verification/Chunked_Coding.thy ===== *)
theory Chunked_Coding
  imports Http_Request
begin

text \<open>
  The chunked coding as a specification: a decoder that reads one character at a time, without
  buffers and without a transfer, and the grammar of the bodies it accepts. \<open>Http_Stream\<close> shows that
  \<open>process_chunked_data\<close> refines the decoder however the body is cut into network reads.
\<close>

datatype LsHttpChunkState =
  LS_HTTP_CHUNK_SIZE | LS_HTTP_CHUNK_DATA | LS_HTTP_CHUNK_DATA_CR | LS_HTTP_CHUNK_DATA_LF | LS_HTTP_CHUNK_TRAILER

definition [cap_defs, simp]: "CHUNK_LINE_CAPACITY = (32 :: nat)"

record chunk_decoder =
  dc_state :: LsHttpChunkState
  dc_remaining :: nat
  dc_line :: string
  dc_trailer :: nat

definition decoder_start :: chunk_decoder where
  "decoder_start = \<lparr>dc_state = LS_HTTP_CHUNK_SIZE, dc_remaining = 0, dc_line = [], dc_trailer = 0\<rparr>"

text \<open>The decoder after one character, the payload it yields and whether the body has ended.\<close>

definition decode_char :: "char \<Rightarrow> chunk_decoder \<Rightarrow> (chunk_decoder \<times> string \<times> bool) option" where
  "decode_char v d =
     (let line = dc_line d in
      case dc_state d of
        LS_HTTP_CHUNK_SIZE \<Rightarrow>
          (if v = LF then
             (if line = [] \<or> last line \<noteq> CR then None
              else case parse_chunk_size (butlast line) of
                None \<Rightarrow> None
              | Some n \<Rightarrow>
                  Some (d\<lparr>dc_line := [], dc_remaining := unat n,
                          dc_state := (if n = 0 then LS_HTTP_CHUNK_TRAILER else LS_HTTP_CHUNK_DATA)\<rparr>, [], False))
           else if length line \<ge> CHUNK_LINE_CAPACITY then None
           else Some (d\<lparr>dc_line := line @ [v]\<rparr>, [], False))
      | LS_HTTP_CHUNK_DATA \<Rightarrow>
          Some (d\<lparr>dc_remaining := dc_remaining d - 1,
                  dc_state := (if dc_remaining d = 1 then LS_HTTP_CHUNK_DATA_CR else LS_HTTP_CHUNK_DATA)\<rparr>, [v], False)
      | LS_HTTP_CHUNK_DATA_CR \<Rightarrow>
          (if v = CR then Some (d\<lparr>dc_state := LS_HTTP_CHUNK_DATA_LF\<rparr>, [], False) else None)
      | LS_HTTP_CHUNK_DATA_LF \<Rightarrow>
          (if v = LF then Some (d\<lparr>dc_state := LS_HTTP_CHUNK_SIZE\<rparr>, [], False) else None)
      | LS_HTTP_CHUNK_TRAILER \<Rightarrow>
          (if dc_trailer d + 1 > LS3DS_MAX_HTTP_HEADER_SIZE then None
           else (let d = d\<lparr>dc_trailer := dc_trailer d + 1\<rparr> in
             if v = LF then
               (if line = [CR] then Some (d, [], True)
                else if line = [] \<or> last line \<noteq> CR then None
                else Some (d\<lparr>dc_line := []\<rparr>, [], False))
             else if length line \<ge> CHUNK_LINE_CAPACITY then None
             else Some (d\<lparr>dc_line := line @ [v]\<rparr>, [], False))))"

fun decode :: "string \<Rightarrow> chunk_decoder \<Rightarrow> (chunk_decoder \<times> string \<times> bool) option" where
  "decode [] d = Some (d, [], False)"
| "decode (v # r) d =
     (case decode_char v d of
        None \<Rightarrow> None
      | Some (d, p, True) \<Rightarrow> if r = [] then Some (d, p, True) else None
      | Some (d, p, False) \<Rightarrow>
          (case decode r d of None \<Rightarrow> None | Some (d, q, f) \<Rightarrow> Some (d, p @ q, f)))"

text \<open>Decoding in two parts.\<close>

lemma decode_append:
  "decode a d = Some (d1, p, False) \<Longrightarrow>
     decode (a @ b) d = (case decode b d1 of None \<Rightarrow> None | Some (d2, q, f) \<Rightarrow> Some (d2, p @ q, f))"
proof (induction a arbitrary: d p)
  case (Cons v a)
  from Cons.prems obtain d' p1 p2 where c: "decode_char v d = Some (d', p1, False)"
    "decode a d' = Some (d1, p2, False)" "p = p1 @ p2"
    by (auto split: option.splits bool.splits if_splits)
  from Cons.IH [OF c(2)] c show ?case by (auto split: option.splits)
qed (auto split: option.splits)

section \<open>The grammar of a body\<close>

definition short_line :: "string \<Rightarrow> bool" where
  "short_line l \<longleftrightarrow> LF \<notin> set l \<and> length l < CHUNK_LINE_CAPACITY"

inductive chunked_body :: "string \<Rightarrow> string \<Rightarrow> bool" where
  last_chunk: "short_line l \<Longrightarrow> parse_chunk_size l = Some 0 \<Longrightarrow>
     \<forall>t \<in> set ts. short_line t \<and> t \<noteq> [] \<Longrightarrow>
     length (lines_text ts) + 2 \<le> LS3DS_MAX_HTTP_HEADER_SIZE \<Longrightarrow>
     chunked_body (l @ CRLF @ lines_text ts @ CRLF) []"
| next_chunk: "short_line l \<Longrightarrow> parse_chunk_size l = Some n \<Longrightarrow> n \<noteq> 0 \<Longrightarrow> length data = unat n \<Longrightarrow>
     chunked_body rest payload \<Longrightarrow>
     chunked_body (l @ CRLF @ data @ CRLF @ rest) (data @ payload)"

text \<open>What the decoder does with a whole line, a whole chunk and whole trailers.\<close>

lemma decode_cons:
  "decode_char v d = Some (d', p, False) \<Longrightarrow>
     decode (v # r) d = (case decode r d' of None \<Rightarrow> None | Some (d2, q, f) \<Rightarrow> Some (d2, p @ q, f))"
  by simp

lemma decode_size_chars:
  "LF \<notin> set l \<Longrightarrow> dc_state d = LS_HTTP_CHUNK_SIZE \<Longrightarrow> length (dc_line d) \<le> 32 \<Longrightarrow>
     decode (l @ r) d = (if length (dc_line d @ l) \<le> 32 then decode r (d\<lparr>dc_line := dc_line d @ l\<rparr>) else None)"
proof (induction l arbitrary: d)
  case (Cons v l)
  show ?case
  proof (cases "length (dc_line d) \<ge> 32")
    case True
    with Cons.prems have "decode_char v d = None" by (auto simp: decode_char_def Let_def)
    with True show ?thesis by simp
  next
    case False
    with Cons.prems have c: "decode_char v d = Some (d\<lparr>dc_line := dc_line d @ [v]\<rparr>, [], False)"
      by (auto simp: decode_char_def)
    from Cons.IH [of "d\<lparr>dc_line := dc_line d @ [v]\<rparr>"] Cons.prems False c show ?thesis
      by (simp add: decode_cons [OF c] del: decode.simps split: option.splits)
  qed
qed simp

lemma decode_trailer_chars:
  "LF \<notin> set l \<Longrightarrow> dc_state d = LS_HTTP_CHUNK_TRAILER \<Longrightarrow> length (dc_line d) \<le> 32 \<Longrightarrow> dc_trailer d \<le> 2048 \<Longrightarrow>
     decode (l @ r) d =
       (if length (dc_line d @ l) \<le> 32 \<and> dc_trailer d + length l \<le> 2048
        then decode r (d\<lparr>dc_line := dc_line d @ l, dc_trailer := dc_trailer d + length l\<rparr>) else None)"
proof (induction l arbitrary: d)
  case (Cons v l)
  show ?case
  proof (cases "length (dc_line d) \<ge> 32 \<or> dc_trailer d \<ge> 2048")
    case True
    with Cons.prems have "decode_char v d = None" by (auto simp: decode_char_def Let_def)
    with True show ?thesis by auto
  next
    case False
    with Cons.prems have c: "decode_char v d =
        Some (d\<lparr>dc_line := dc_line d @ [v], dc_trailer := dc_trailer d + 1\<rparr>, [], False)"
      by (auto simp: decode_char_def Let_def)
    from Cons.IH [of "d\<lparr>dc_line := dc_line d @ [v], dc_trailer := dc_trailer d + 1\<rparr>"] Cons.prems False show ?thesis
      by (simp add: decode_cons [OF c] del: decode.simps split: option.splits)
  qed
qed simp

lemma decode_data_chars:
  "dc_state d = LS_HTTP_CHUNK_DATA \<Longrightarrow> l \<noteq> [] \<Longrightarrow> length l \<le> dc_remaining d \<Longrightarrow>
     decode l d = Some (d\<lparr>dc_remaining := dc_remaining d - length l,
       dc_state := (if length l = dc_remaining d then LS_HTTP_CHUNK_DATA_CR else LS_HTTP_CHUNK_DATA)\<rparr>, l, False)"
proof (induction l arbitrary: d)
  case (Cons v l)
  let ?d = "d\<lparr>dc_remaining := dc_remaining d - 1,
      dc_state := (if dc_remaining d = 1 then LS_HTTP_CHUNK_DATA_CR else LS_HTTP_CHUNK_DATA)\<rparr>"
  have c: "decode_char v d = Some (?d, [v], False)" using Cons.prems by (simp add: decode_char_def)
  show ?case
  proof (cases "l = []")
    case True
    with c Cons.prems show ?thesis by simp
  next
    case False
    with Cons.prems(3) have "dc_remaining d \<noteq> 1" by (cases l) auto
    with Cons.IH [of ?d] Cons.prems False show ?thesis by (auto simp: c)
  qed
qed simp

abbreviation prepend :: "string \<Rightarrow> (chunk_decoder \<times> string \<times> bool) option \<Rightarrow> (chunk_decoder \<times> string \<times> bool) option" where
  "prepend p r \<equiv> (case r of None \<Rightarrow> None | Some (d, q, f) \<Rightarrow> Some (d, p @ q, f))"

lemma prepend_Nil [simp]: "prepend [] r = r"
  by (auto split: option.splits)

lemma decode_size_line:
  assumes "short_line l" and "dc_state d = LS_HTTP_CHUNK_SIZE" and "dc_line d = []"
  shows "decode (l @ CR # LF # r) d =
    (case parse_chunk_size l of None \<Rightarrow> None
     | Some n \<Rightarrow> decode r (d\<lparr>dc_remaining := unat n,
                    dc_state := (if n = 0 then LS_HTTP_CHUNK_TRAILER else LS_HTTP_CHUNK_DATA)\<rparr>))"
proof -
  have "LF \<notin> set (l @ [CR])" "length (l @ [CR]) \<le> 32" using assms(1) by (auto simp: short_line_def)
  with decode_size_chars [of "l @ [CR]" d "LF # r"] assms
  have "decode (l @ CR # LF # r) d = decode (LF # r) (d\<lparr>dc_line := l @ [CR]\<rparr>)" by simp
  also have "\<dots> = (case parse_chunk_size l of None \<Rightarrow> None
     | Some n \<Rightarrow> decode r (d\<lparr>dc_remaining := unat n,
                    dc_state := (if n = 0 then LS_HTTP_CHUNK_TRAILER else LS_HTTP_CHUNK_DATA)\<rparr>))"
    using assms(2,3) by (cases d) (auto simp: decode_char_def Let_def split: option.splits)
  finally show ?thesis .
qed

lemma decode_chunk:
  assumes "dc_state d = LS_HTTP_CHUNK_DATA" and "data \<noteq> []" and "length data = dc_remaining d"
  shows "decode (data @ CR # LF # r) d = prepend data (decode r (d\<lparr>dc_remaining := 0, dc_state := LS_HTTP_CHUNK_SIZE\<rparr>))"
proof -
  have "decode data d = Some (d\<lparr>dc_remaining := 0, dc_state := LS_HTTP_CHUNK_DATA_CR\<rparr>, data, False)"
    using decode_data_chars [OF assms(1,2)] assms(3) by simp
  from decode_append [OF this, of "CR # LF # r"] show ?thesis
    by (simp add: decode_char_def split: option.splits)
qed

lemma decode_trailers:
  "\<forall>t \<in> set ts. short_line t \<and> t \<noteq> [] \<Longrightarrow> dc_state d = LS_HTTP_CHUNK_TRAILER \<Longrightarrow> dc_line d = [] \<Longrightarrow>
     dc_trailer d + length (lines_text ts) + 2 \<le> 2048 \<Longrightarrow>
     \<exists>d'. decode (lines_text ts @ CRLF) d = Some (d', [], True)"
proof (induction ts arbitrary: d)
  case Nil
  then show ?case by (simp add: decode_char_def Let_def)
next
  case (Cons t ts)
  let ?l = "t @ [CR]"
  have l: "LF \<notin> set ?l" "length ?l \<le> 32" "t \<noteq> []" using Cons.prems(1) by (auto simp: short_line_def)
  with decode_trailer_chars [OF l(1) Cons.prems(2), of "LF # lines_text ts @ CRLF"] Cons.prems
  have "decode (?l @ LF # lines_text ts @ CRLF) d =
      decode (LF # lines_text ts @ CRLF) (d\<lparr>dc_line := ?l, dc_trailer := dc_trailer d + length ?l\<rparr>)" by simp
  also have "\<dots> = decode (lines_text ts @ CRLF) (d\<lparr>dc_trailer := dc_trailer d + length ?l + 1\<rparr>)"
    using Cons.prems l(3) by (cases d) (auto simp: decode_char_def Let_def split: option.splits)
  finally have "decode (lines_text (t # ts) @ CRLF) d = \<dots>" by simp
  moreover have "\<exists>d'. decode (lines_text ts @ CRLF) (d\<lparr>dc_trailer := dc_trailer d + length ?l + 1\<rparr>) = Some (d', [], True)"
    by (rule Cons.IH) (use Cons.prems in auto)
  ultimately show ?case by auto
qed

lemma decode_complete:
  "chunked_body body payload \<Longrightarrow> dc_state d = LS_HTTP_CHUNK_SIZE \<Longrightarrow> dc_line d = [] \<Longrightarrow> dc_trailer d = 0 \<Longrightarrow>
     \<exists>d'. decode body d = Some (d', payload, True)"
proof (induction body payload arbitrary: d rule: chunked_body.induct)
  case (last_chunk l ts)
  from decode_size_line [OF last_chunk.hyps(1) last_chunk.prems(1,2), of "lines_text ts @ CRLF"] last_chunk
  have "decode (l @ CRLF @ lines_text ts @ CRLF) d =
      decode (lines_text ts @ CRLF) (d\<lparr>dc_remaining := 0, dc_state := LS_HTTP_CHUNK_TRAILER\<rparr>)"
    by simp
  moreover have "\<exists>d'. decode (lines_text ts @ CRLF) (d\<lparr>dc_remaining := 0, dc_state := LS_HTTP_CHUNK_TRAILER\<rparr>) = Some (d', [], True)"
    by (rule decode_trailers) (use last_chunk in auto)
  ultimately show ?case by simp
next
  case (next_chunk l n data rest payload)
  let ?d = "d\<lparr>dc_remaining := unat n, dc_state := LS_HTTP_CHUNK_DATA\<rparr>"
  from decode_size_line [OF next_chunk.hyps(1) next_chunk.prems(1,2), of "data @ CRLF @ rest"] next_chunk
  have "decode (l @ CRLF @ data @ CRLF @ rest) d = decode (data @ CRLF @ rest) ?d" by simp
  also have "\<dots> = prepend data (decode rest (d\<lparr>dc_remaining := 0, dc_state := LS_HTTP_CHUNK_SIZE\<rparr>))"
    using decode_chunk [of ?d data rest] next_chunk(3,4) unat_gt_0 [of n] by (cases "data = []") auto
  finally show ?case using next_chunk.IH [of "d\<lparr>dc_remaining := 0, dc_state := LS_HTTP_CHUNK_SIZE\<rparr>"] next_chunk.prems
    by auto
qed

lemma split_at_LF: "LF \<in> set s \<Longrightarrow> \<exists>l r. s = l @ LF # r \<and> LF \<notin> set l"
  by (rule split_list_first)

lemma trailers_sound:
  "decode s d = Some (d', p, True) \<Longrightarrow> dc_state d = LS_HTTP_CHUNK_TRAILER \<Longrightarrow> dc_line d = [] \<Longrightarrow> dc_trailer d \<le> 2048 \<Longrightarrow>
     p = [] \<and> (\<exists>ts. s = lines_text ts @ CRLF \<and> (\<forall>t \<in> set ts. short_line t \<and> t \<noteq> []) \<and>
       dc_trailer d + length (lines_text ts) + 2 \<le> 2048)"
proof (induction s arbitrary: d rule: length_induct)
  case (1 s)
  have "LF \<in> set s"
    using decode_trailer_chars [of s d "[]"] "1.prems" by (cases "LF \<in> set s") (auto split: if_splits)
  then obtain l r where s: "s = l @ LF # r" "LF \<notin> set l" using split_at_LF by blast
  let ?d = "d\<lparr>dc_line := l, dc_trailer := dc_trailer d + length l\<rparr>"
  from decode_trailer_chars [OF s(2) "1.prems"(2), of "LF # r"] "1.prems" s(1)
  have len: "length l \<le> 32" "dc_trailer d + length l \<le> 2048" and
    e: "decode (LF # r) ?d = Some (d', p, True)" by (auto split: if_splits)
  then obtain d1 p1 f1 where c: "decode_char LF ?d = Some (d1, p1, f1)" by (auto split: option.splits)
  then have l: "l \<noteq> []" "last l = CR" "dc_trailer d + length l + 1 \<le> 2048" "p1 = []"
    "f1 \<longleftrightarrow> l = [CR]" "\<not> f1 \<Longrightarrow> d1 = d\<lparr>dc_line := [], dc_trailer := dc_trailer d + length l + 1\<rparr>"
    using "1.prems"(2) by (auto simp: decode_char_def Let_def split: if_splits)
  show ?case
  proof (cases "l = [CR]")
    case True
    with c e l have "r = []" "p = []" by (auto split: if_splits)
    with s True l(3) show ?thesis by (intro conjI exI [of _ "[]"]) auto
  next
    case False
    obtain t where t: "l = t @ [CR]" using l(1,2) by (metis append_butlast_last_id)
    with False s(2) len have tt: "short_line t" "t \<noteq> []" by (auto simp: short_line_def)
    from False l(5) have nf: "\<not> f1" by simp
    with c e l(4) obtain q where q: "decode r d1 = Some (d', q, True)" "p = q" by (auto split: option.splits)
    have "length r < length s" using s by simp
    with "1.IH" q l(6) [OF nf] "1.prems"(2) l(3) have
      "q = [] \<and> (\<exists>ts. r = lines_text ts @ CRLF \<and> (\<forall>t \<in> set ts. short_line t \<and> t \<noteq> []) \<and>
       dc_trailer d + length l + 1 + length (lines_text ts) + 2 \<le> 2048)" by fastforce
    then obtain ts where "q = []" "r = lines_text ts @ CRLF" "\<forall>t \<in> set ts. short_line t \<and> t \<noteq> []"
      "dc_trailer d + length l + 1 + length (lines_text ts) + 2 \<le> 2048" by blast
    with q s t tt show ?thesis by (intro conjI exI [of _ "t # ts"]) auto
  qed
qed

lemma decode_sound:
  "decode body d = Some (d', p, True) \<Longrightarrow> dc_state d = LS_HTTP_CHUNK_SIZE \<Longrightarrow> dc_line d = [] \<Longrightarrow> dc_trailer d = 0 \<Longrightarrow>
     chunked_body body p"
proof (induction body arbitrary: d p rule: length_induct)
  case (1 s)
  have "LF \<in> set s"
    using decode_size_chars [of s d "[]"] "1.prems" by (cases "LF \<in> set s") (auto split: if_splits)
  then obtain l' r where s: "s = l' @ LF # r" "LF \<notin> set l'" using split_at_LF by blast
  let ?d = "d\<lparr>dc_line := l'\<rparr>"
  from decode_size_chars [OF s(2) "1.prems"(2), of "LF # r"] "1.prems" s(1)
  have len: "length l' \<le> 32" and e: "decode (LF # r) ?d = Some (d', p, True)" by (auto split: if_splits)
  then obtain d1 p1 f1 where c: "decode_char LF ?d = Some (d1, p1, f1)" by (auto split: option.splits)
  then obtain n where n: "l' \<noteq> []" "last l' = CR" "parse_chunk_size (butlast l') = Some n" "p1 = []" "\<not> f1"
    "d1 = d\<lparr>dc_line := [], dc_remaining := unat n,
            dc_state := (if n = 0 then LS_HTTP_CHUNK_TRAILER else LS_HTTP_CHUNK_DATA)\<rparr>"
    using "1.prems"(2) by (auto simp: decode_char_def Let_def split: if_splits option.splits)
  obtain l where l: "l' = l @ [CR]" using n(1,2) by (metis append_butlast_last_id)
  with s(2) len have sl: "short_line l" by (auto simp: short_line_def)
  from n(3) l have pl: "parse_chunk_size l = Some n" by simp
  from e c n(4,5) have q: "decode r d1 = Some (d', p, True)" by (auto split: option.splits)
  show ?case
  proof (cases "n = 0")
    case True
    with trailers_sound [OF q] n(6) "1.prems"(4) obtain ts where
      "p = []" "r = lines_text ts @ CRLF" "\<forall>t \<in> set ts. short_line t \<and> t \<noteq> []" "length (lines_text ts) + 2 \<le> 2048" by auto
    with chunked_body.last_chunk [of l ts] sl pl True s(1) l show ?thesis by simp
  next
    case False
    then have d1: "dc_state d1 = LS_HTTP_CHUNK_DATA" "dc_remaining d1 = unat n" using n(6) by simp_all
    have n0: "0 < unat n" using False by (simp add: unat_gt_0)
    have "unat n < length r"
    proof (rule ccontr)
      assume "\<not> unat n < length r"
      with q decode_data_chars [OF d1(1), of r] d1(2) show False by (cases "r = []") auto
    qed
    then obtain data v r1 where r: "r = data @ v # r1" "length data = unat n"
      by (metis append_take_drop_id id_take_nth_drop length_take min.absorb4)
    let ?d2 = "d1\<lparr>dc_remaining := 0, dc_state := LS_HTTP_CHUNK_DATA_CR\<rparr>"
    have dne: "data \<noteq> []" using r(2) n0 by auto
    have "decode data d1 = Some (?d2, data, False)"
      using decode_data_chars [OF d1(1) dne] r(2) d1(2) by simp
    from decode_append [OF this, of "v # r1"] q r(1) obtain q1 where
      q1: "decode (v # r1) ?d2 = Some (d', q1, True)" "p = data @ q1" by (auto split: option.splits)
    then have v: "v = CR" by (auto simp: decode_char_def split: if_splits option.splits)
    from q1(1) v obtain r2 where r1: "r1 = LF # r2"
      by (cases r1) (auto simp: decode_char_def split: if_splits option.splits)
    have q2: "decode r2 (d1\<lparr>dc_remaining := 0, dc_state := LS_HTTP_CHUNK_SIZE\<rparr>) = Some (d', q1, True)"
      using q1(1) v r1 by (auto simp: decode_char_def split: option.splits)
    have "length r2 < length s" using s r r1 by simp
    with "1.IH" q2 n(6) "1.prems"(4) have "chunked_body r2 q1" by fastforce
    from chunked_body.next_chunk [OF sl pl False r(2) this] show ?thesis
      using s l r r1 v q1(2) by simp
  qed
qed

lemma decode_iff_chunked_body:
  "(\<exists>d. decode body decoder_start = Some (d, payload, True)) \<longleftrightarrow> chunked_body body payload"
  using decode_sound [of body decoder_start _ payload] decode_complete [of body payload decoder_start]
  by (auto simp: decoder_start_def)

text \<open>A body determines its payload.\<close>

lemma chunked_body_unique: "chunked_body body p \<Longrightarrow> chunked_body body q \<Longrightarrow> p = q"
  by (metis decode_iff_chunked_body option.inject prod.inject)

end
