(* ===== verification/World.thy ===== *)
theory World
  imports Prelude
begin

text \<open>
  The world outside the program: the SD card, the random service and the sockets. Every answer of
  the environment is data of the \<open>world\<close> record, so the components stay executable functions and a
  theorem that holds for every world holds for every behaviour of the card, the random service and
  the peers. \<open>w_io\<close> decides the fallible file operations in order (none left means success);
  a failing write may still have stored a prefix. A path is the C string the code passes; the
  device keeps a file or a directory under it. Bytes handed to \<open>fwrite\<close> are taken to be on the
  card at once; \<open>fflush\<close> and \<open>fclose\<close> may fail afterwards.
\<close>

datatype fs_node = FileNode string | DirNode

datatype io_answer = IoOk | IoFail nat

datatype errno = ENOENT | EEXIST | EIO

text \<open>The numbers of the C library of the console.\<close>

definition errno_number :: "errno \<Rightarrow> nat" where
  "errno_number e = (case e of ENOENT \<Rightarrow> 2 | EIO \<Rightarrow> 5 | EEXIST \<Rightarrow> 17)"

datatype recv_answer = RecvData string | RecvEof | RecvAgain | RecvError nat

datatype send_answer = SendSome nat | SendAgain | SendError nat

datatype accept_answer = AcceptPeer int string bool bool | AcceptError nat

datatype udp_answer = UdpPacket string "string option" | UdpAgain | UdpError nat

text \<open>
  What the TLS library answers. A call may use the socket and hand certificates to the program's
  callback (\<open>tls_event\<close>, in order) before it returns \<open>ta_result\<close>; \<open>ta_data\<close> is the text a read delivers.
  A \<open>certificate\<close> holds what the program asks about it: the results of the library's functions.
\<close>

record certificate =
  crt_raw :: "u8 list option"
  crt_signed_parts :: bool
  crt_is_future :: bool
  crt_is_past :: bool
  crt_md_known :: bool
  crt_md_result :: int
  crt_pk_verify :: int
  crt_sha256 :: "int + u8 list"

datatype tls_event = BioSend string | BioRecv nat | VerifyPeer certificate int u32

record tls_answer =
  ta_events :: "tls_event list"
  ta_result :: int
  ta_data :: string
  ta_peer_certificate :: bool

datatype select_answer = SelectReady | SelectNone | SelectError nat

record world =
  w_fs :: "string \<rightharpoonup> fs_node"
  w_io :: "io_answer list"
  w_random :: "u8 list option list"
  w_accept :: "accept_answer list"
  w_recv :: "int \<Rightarrow> recv_answer list"
  w_send :: "int \<Rightarrow> send_answer list"
  w_wire :: "int \<Rightarrow> string"
  w_closed :: "int list"
  w_socket :: "int option list"
  w_connect :: "(int \<times> nat) list"
  w_select :: "select_answer list"
  w_so_error :: "int list"
  w_udp :: "udp_answer list"
  w_tls_setup :: "int list"
  w_tls :: "tls_answer list"
  w_tls_seen :: "int \<Rightarrow> tls_answer list"
  w_tls_wire :: "int \<Rightarrow> string"
  w_errno :: nat

named_theorems world_defs \<open>the primitive operations on the world\<close>

definition next_io :: "world \<Rightarrow> io_answer \<times> world" where
  "next_io w = (case w_io w of [] \<Rightarrow> (IoOk, w) | a # as \<Rightarrow> (a, w\<lparr>w_io := as\<rparr>))"

definition file_at :: "world \<Rightarrow> string \<Rightarrow> string option" where
  "file_at w p = (case w_fs w p of Some (FileNode d) \<Rightarrow> Some d | _ \<Rightarrow> None)"

section \<open>Primitive file operations\<close>

text \<open>A failing call sets \<open>errno\<close>.\<close>

definition failing :: "(errno \<Rightarrow> 'r) \<Rightarrow> errno \<Rightarrow> world \<Rightarrow> 'r \<times> world" where
  [world_defs]: "failing f e w = (f e, w\<lparr>w_errno := errno_number e\<rparr>)"

lemma failing_eq: "failing f e w = (r, w') \<longleftrightarrow> r = f e \<and> w' = w\<lparr>w_errno := errno_number e\<rparr>"
  by (auto simp: failing_def)

text \<open>\<open>unlink\<close>, \<open>rename\<close>, \<open>access(F_OK)\<close> and \<open>stat\<close>: \<open>None\<close> is the return value 0, \<open>Some e\<close> is -1 with
  \<open>errno\<close> set to \<open>e\<close>.\<close>

definition do_unlink :: "string \<Rightarrow> world \<Rightarrow> errno option \<times> world" where
  [world_defs]: "do_unlink p w =
     (case next_io w of
        (IoFail _, w) \<Rightarrow> failing Some EIO w
      | (IoOk, w) \<Rightarrow> (case w_fs w p of
                        None \<Rightarrow> failing Some ENOENT w
                      | Some DirNode \<Rightarrow> failing Some EIO w
                      | Some (FileNode _) \<Rightarrow> (None, w\<lparr>w_fs := (w_fs w)(p := None)\<rparr>)))"

definition do_rename :: "string \<Rightarrow> string \<Rightarrow> world \<Rightarrow> errno option \<times> world" where
  [world_defs]: "do_rename p q w =
     (case next_io w of
        (IoFail _, w) \<Rightarrow> failing Some EIO w
      | (IoOk, w) \<Rightarrow>
          (if p = q \<and> w_fs w p \<noteq> None then (None, w)
           else (case w_fs w p of
                   None \<Rightarrow> failing Some ENOENT w
                 | Some node \<Rightarrow>
                     (if w_fs w q = Some DirNode then failing Some EEXIST w
                      else (None, w\<lparr>w_fs := (w_fs w)(q \<mapsto> node, p := None)\<rparr>)))))"

definition do_access :: "string \<Rightarrow> world \<Rightarrow> errno option \<times> world" where
  [world_defs]: "do_access p w =
     (case next_io w of
        (IoFail _, w) \<Rightarrow> failing Some EIO w
      | (IoOk, w) \<Rightarrow> (if w_fs w p = None then failing Some ENOENT w else (None, w)))"

definition do_stat :: "string \<Rightarrow> world \<Rightarrow> (errno + fs_node) \<times> world" where
  [world_defs]: "do_stat p w =
     (case next_io w of
        (IoFail _, w) \<Rightarrow> failing Inl EIO w
      | (IoOk, w) \<Rightarrow> (case w_fs w p of None \<Rightarrow> failing Inl ENOENT w | Some node \<Rightarrow> (Inr node, w)))"

definition do_mkdir :: "string \<Rightarrow> world \<Rightarrow> errno option \<times> world" where
  [world_defs]: "do_mkdir p w =
     (case next_io w of
        (IoFail _, w) \<Rightarrow> failing Some EIO w
      | (IoOk, w) \<Rightarrow> (if w_fs w p \<noteq> None then failing Some EEXIST w
                     else (None, w\<lparr>w_fs := (w_fs w)(p \<mapsto> DirNode)\<rparr>)))"

text \<open>\<open>open(p, O_WRONLY | O_CREAT | O_EXCL)\<close> and \<open>fopen(p, "wb")\<close>: success creates an empty file.\<close>

definition open_excl :: "string \<Rightarrow> world \<Rightarrow> errno option \<times> world" where
  [world_defs]: "open_excl p w =
     (case next_io w of
        (IoFail _, w) \<Rightarrow> failing Some EIO w
      | (IoOk, w) \<Rightarrow> (if w_fs w p \<noteq> None then failing Some EEXIST w
                     else (None, w\<lparr>w_fs := (w_fs w)(p \<mapsto> FileNode [])\<rparr>)))"

definition fopen_write :: "string \<Rightarrow> world \<Rightarrow> errno option \<times> world" where
  [world_defs]: "fopen_write p w =
     (case next_io w of
        (IoFail _, w) \<Rightarrow> failing Some EIO w
      | (IoOk, w) \<Rightarrow> (if w_fs w p = Some DirNode then failing Some EEXIST w
                     else (None, w\<lparr>w_fs := (w_fs w)(p \<mapsto> FileNode [])\<rparr>)))"

definition fopen_read :: "string \<Rightarrow> world \<Rightarrow> (errno + string) \<times> world" where
  [world_defs]: "fopen_read p w =
     (case next_io w of
        (IoFail _, w) \<Rightarrow> failing Inl EIO w
      | (IoOk, w) \<Rightarrow> (case w_fs w p of
                        None \<Rightarrow> failing Inl ENOENT w
                      | Some DirNode \<Rightarrow> failing Inl EIO w
                      | Some (FileNode d) \<Rightarrow> (Inr d, w)))"

definition append_file :: "string \<Rightarrow> string \<Rightarrow> world \<Rightarrow> world" where
  "append_file p d w =
     w\<lparr>w_fs := (w_fs w)(p \<mapsto> FileNode ((case file_at w p of None \<Rightarrow> [] | Some e \<Rightarrow> e) @ d))\<rparr>"

text \<open>\<open>fwrite\<close> on the open file \<open>p\<close> returns the number of bytes stored.\<close>

definition do_fwrite :: "string \<Rightarrow> string \<Rightarrow> world \<Rightarrow> nat \<times> world" where
  [world_defs]: "do_fwrite p d w =
     (case next_io w of
        (IoFail n, w) \<Rightarrow> (let w = snd (failing Some EIO w); n = min n (length d - 1) in (n, append_file p (take n d) w))
      | (IoOk, w) \<Rightarrow> (length d, append_file p d w))"

text \<open>\<open>fread\<close> at a position of the open file \<open>p\<close>: the bytes read and whether the error flag is set.\<close>

definition do_fread :: "string \<Rightarrow> nat \<Rightarrow> nat \<Rightarrow> world \<Rightarrow> (string \<times> bool) \<times> world" where
  [world_defs]: "do_fread p pos n w =
     (let d = take n (drop pos (case file_at w p of None \<Rightarrow> [] | Some d \<Rightarrow> d)) in
      case next_io w of
        (IoFail k, w) \<Rightarrow> ((take (min k (length d - 1)) d, True), snd (failing Some EIO w))
      | (IoOk, w) \<Rightarrow> ((d, False), w))"

text \<open>An operation with no effect of its own on the card (\<open>fflush\<close>, \<open>fclose\<close>, \<open>fdopen\<close>, \<open>fstat\<close>).\<close>

definition do_simple :: "world \<Rightarrow> bool \<times> world" where
  [world_defs]: "do_simple w = (case next_io w of (IoFail _, w) \<Rightarrow> (False, snd (failing Some EIO w)) | (IoOk, w) \<Rightarrow> (True, w))"

text \<open>The random service: \<open>None\<close> when it fails, else exactly \<open>n\<close> bytes.\<close>

definition random_bytes :: "nat \<Rightarrow> world \<Rightarrow> u8 list option \<times> world" where
  [world_defs]: "random_bytes n w =
     (case w_random w of
        [] \<Rightarrow> (None, w)
      | None # rs \<Rightarrow> (None, w\<lparr>w_random := rs\<rparr>)
      | Some bs # rs \<Rightarrow> (Some (take n (bs @ replicate n 0)), w\<lparr>w_random := rs\<rparr>))"

section \<open>Sockets\<close>

text \<open>
  \<open>socket()\<close>: \<open>w_socket\<close> answers in order (\<open>None\<close> or nothing left is a failure). \<open>setsockopt\<close>, \<open>fcntl\<close>,
  \<open>bind\<close> and \<open>listen\<close> succeed or fail as \<open>w_io\<close> decides. \<open>accept\<close>, \<open>recv\<close> and \<open>send\<close> are
  non-blocking: no answer left is \<open>EAGAIN\<close>; \<open>AcceptPeer\<close> carries the descriptor, the peer's address
  text and whether \<open>fcntl\<close> and \<open>inet_ntop\<close> succeed for it. An empty \<open>RecvData\<close> is the end of the
  stream, what does not fit in the buffer stays for the next call. \<open>w_wire\<close> collects what was sent,
  \<open>w_closed\<close> the closed descriptors; \<open>w_tls_wire\<close> collects the text the TLS library has taken to
  send over a descriptor, \<open>w_tls_seen\<close> the answers the library has given for the connection of a
  descriptor since its socket was opened.
\<close>

definition do_socket :: "world \<Rightarrow> int option \<times> world" where
  [world_defs]: "do_socket w =
     (case w_socket w of
        [] \<Rightarrow> (None, w)
      | None # fds \<Rightarrow> (None, w\<lparr>w_socket := fds, w_errno := errno_number EIO\<rparr>)
      | Some fd # fds \<Rightarrow> (Some fd, w\<lparr>w_socket := fds, w_tls_seen := (w_tls_seen w)(fd := [])\<rparr>))"

definition do_net :: "world \<Rightarrow> bool \<times> world" where
  [world_defs]: "do_net w = (case next_io w of (IoFail n, w) \<Rightarrow> (False, w\<lparr>w_errno := n\<rparr>) | (IoOk, w) \<Rightarrow> (True, w))"

definition do_close :: "int \<Rightarrow> world \<Rightarrow> world" where
  [world_defs]: "do_close fd w = w\<lparr>w_closed := w_closed w @ [fd]\<rparr>"

definition do_accept :: "world \<Rightarrow> accept_answer option \<times> world" where
  [world_defs]: "do_accept w =
     (case w_accept w of
        [] \<Rightarrow> (None, w)
      | a # as \<Rightarrow>
          (Some a, (case a of AcceptError n \<Rightarrow> w\<lparr>w_accept := as, w_errno := n\<rparr> | _ \<Rightarrow> w\<lparr>w_accept := as\<rparr>)))"

definition do_recv :: "int \<Rightarrow> nat \<Rightarrow> world \<Rightarrow> recv_answer \<times> world" where
  [world_defs]: "do_recv fd capacity w =
     (case w_recv w fd of
        [] \<Rightarrow> (RecvAgain, w)
      | RecvData d # as \<Rightarrow>
          (if d = [] then (RecvEof, w\<lparr>w_recv := (w_recv w)(fd := as)\<rparr>)
           else (RecvData (take capacity d),
                 w\<lparr>w_recv := (w_recv w)
                   (fd := if capacity < length d then RecvData (drop capacity d) # as else as)\<rparr>))
      | RecvError n # as \<Rightarrow> (RecvError n, w\<lparr>w_recv := (w_recv w)(fd := as), w_errno := n\<rparr>)
      | a # as \<Rightarrow> (a, w\<lparr>w_recv := (w_recv w)(fd := as)\<rparr>))"

text \<open>
  A non-blocking \<open>connect\<close>: no answer left is \<open>EINPROGRESS\<close>. \<open>select\<close> with a zero timeout for one
  descriptor, \<open>getsockopt(SO_ERROR)\<close>, and \<open>recvfrom\<close> with the text of the sender's address where
  \<open>inet_ntop\<close> succeeds; a datagram longer than the buffer is cut.
\<close>

definition do_connect :: "world \<Rightarrow> (int \<times> nat) \<times> world" where
  [world_defs]: "do_connect w =
     (case w_connect w of
        [] \<Rightarrow> ((- 1, 119), w\<lparr>w_errno := 119\<rparr>)
      | (r, e) # as \<Rightarrow> ((r, e), w\<lparr>w_connect := as, w_errno := e\<rparr>))"

definition do_select :: "world \<Rightarrow> select_answer \<times> world" where
  [world_defs]: "do_select w =
     (case w_select w of
        [] \<Rightarrow> (SelectNone, w)
      | SelectError n # as \<Rightarrow> (SelectError n, w\<lparr>w_select := as, w_errno := n\<rparr>)
      | a # as \<Rightarrow> (a, w\<lparr>w_select := as\<rparr>))"

definition do_so_error :: "world \<Rightarrow> int \<times> world" where
  [world_defs]: "do_so_error w = (case w_so_error w of [] \<Rightarrow> (0, w) | e # es \<Rightarrow> (e, w\<lparr>w_so_error := es\<rparr>))"

definition do_recvfrom :: "nat \<Rightarrow> world \<Rightarrow> udp_answer \<times> world" where
  [world_defs]: "do_recvfrom capacity w =
     (case w_udp w of
        [] \<Rightarrow> (UdpAgain, w)
      | UdpPacket d source # as \<Rightarrow> (UdpPacket (take capacity d) source, w\<lparr>w_udp := as\<rparr>)
      | UdpError n # as \<Rightarrow> (UdpError n, w\<lparr>w_udp := as, w_errno := n\<rparr>)
      | UdpAgain # as \<Rightarrow> (UdpAgain, w\<lparr>w_udp := as\<rparr>))"

text \<open>The next results of the TLS library; without one the library wants to read (\<open>-0x6900\<close>). A call for
  the connection of a descriptor adds its answer to the ones seen there.\<close>

definition do_tls_setup :: "world \<Rightarrow> int \<times> world" where
  [world_defs]: "do_tls_setup w = (case w_tls_setup w of [] \<Rightarrow> (0, w) | r # rs \<Rightarrow> (r, w\<lparr>w_tls_setup := rs\<rparr>))"

definition do_tls :: "int \<Rightarrow> world \<Rightarrow> tls_answer \<times> world" where
  [world_defs]: "do_tls fd w =
     (case w_tls w of
        [] \<Rightarrow> (\<lparr>ta_events = [], ta_result = - 0x6900, ta_data = [], ta_peer_certificate = False\<rparr>, w)
      | a # as \<Rightarrow> (a, w\<lparr>w_tls := as, w_tls_seen := (w_tls_seen w)(fd := w_tls_seen w fd @ [a])\<rparr>))"

definition do_send :: "int \<Rightarrow> string \<Rightarrow> world \<Rightarrow> send_answer \<times> world" where
  [world_defs]: "do_send fd data w =
     (case w_send w fd of
        [] \<Rightarrow> (SendAgain, w)
      | SendSome n # as \<Rightarrow>
          (SendSome (min n (length data)),
           w\<lparr>w_send := (w_send w)(fd := as), w_wire := (w_wire w)(fd := w_wire w fd @ take n data)\<rparr>)
      | SendError n # as \<Rightarrow> (SendError n, w\<lparr>w_send := (w_send w)(fd := as), w_errno := n\<rparr>)
      | SendAgain # as \<Rightarrow> (SendAgain, w\<lparr>w_send := (w_send w)(fd := as)\<rparr>))"

section \<open>What the operations change\<close>

lemma next_io_fs [simp]: "w_fs (snd (next_io w)) = w_fs w"
  by (auto simp: next_io_def split: list.splits)

lemma next_io_frame:
  "next_io w = (a, w') \<Longrightarrow> w_fs w' = w_fs w \<and> w_random w' = w_random w \<and> w_accept w' = w_accept w \<and>
     w_recv w' = w_recv w \<and> w_send w' = w_send w \<and> w_wire w' = w_wire w"
  by (auto simp: next_io_def split: list.splits)

lemma random_frame: "random_bytes n w = (r, w') \<Longrightarrow> w_fs w' = w_fs w \<and> w_io w' = w_io w"
  by (auto simp: random_bytes_def split: list.splits option.splits)

lemma random_length: "random_bytes n w = (Some bs, w') \<Longrightarrow> length bs = n"
  by (auto simp: random_bytes_def split: list.splits option.splits)

lemma unlink_fs:
  "do_unlink p w = (r, w') \<Longrightarrow>
     (r = None \<longrightarrow> w_fs w' = (w_fs w)(p := None) \<and> (\<exists>d. w_fs w p = Some (FileNode d))) \<and>
     (r \<noteq> None \<longrightarrow> w_fs w' = w_fs w) \<and> (r = Some ENOENT \<longrightarrow> w_fs w p = None)"
  by (auto simp: do_unlink_def failing_def split: prod.splits io_answer.splits option.splits fs_node.splits
      dest: next_io_frame)

lemma rename_fs:
  "do_rename p q w = (r, w') \<Longrightarrow>
     (r \<noteq> None \<longrightarrow> w_fs w' = w_fs w) \<and>
     (r = None \<longrightarrow> w_fs w p \<noteq> None \<and>
        w_fs w' = (if p = q then w_fs w else (w_fs w)(q := w_fs w p, p := None)))"
  by (auto simp: do_rename_def failing_def split: prod.splits io_answer.splits option.splits if_splits
      dest!: next_io_frame)

lemma access_fs:
  "do_access p w = (r, w') \<Longrightarrow> w_fs w' = w_fs w \<and> (r = None \<longrightarrow> w_fs w p \<noteq> None) \<and>
     (r = Some ENOENT \<longrightarrow> w_fs w p = None)"
  by (auto simp: do_access_def failing_def split: prod.splits io_answer.splits if_splits dest!: next_io_frame)

lemma stat_fs:
  "do_stat p w = (r, w') \<Longrightarrow> w_fs w' = w_fs w \<and> (\<forall>node. r = Inr node \<longrightarrow> w_fs w p = Some node) \<and>
     (r = Inl ENOENT \<longrightarrow> w_fs w p = None)"
  by (auto simp: do_stat_def failing_def split: prod.splits io_answer.splits option.splits dest!: next_io_frame)

lemma mkdir_fs:
  "do_mkdir p w = (r, w') \<Longrightarrow>
     (r = None \<longrightarrow> w_fs w p = None \<and> w_fs w' = (w_fs w)(p \<mapsto> DirNode)) \<and>
     (r \<noteq> None \<longrightarrow> w_fs w' = w_fs w)"
  by (auto simp: do_mkdir_def failing_def split: prod.splits io_answer.splits if_splits dest!: next_io_frame)

lemma open_excl_fs:
  "open_excl p w = (r, w') \<Longrightarrow>
     (r = None \<longrightarrow> w_fs w p = None \<and> w_fs w' = (w_fs w)(p \<mapsto> FileNode [])) \<and>
     (r \<noteq> None \<longrightarrow> w_fs w' = w_fs w)"
  by (auto simp: open_excl_def failing_def split: prod.splits io_answer.splits if_splits dest!: next_io_frame)

lemma fopen_write_fs:
  "fopen_write p w = (r, w') \<Longrightarrow>
     (r = None \<longrightarrow> w_fs w' = (w_fs w)(p \<mapsto> FileNode [])) \<and> (r \<noteq> None \<longrightarrow> w_fs w' = w_fs w)"
  by (auto simp: fopen_write_def failing_def split: prod.splits io_answer.splits if_splits dest!: next_io_frame)

lemma fopen_read_fs:
  "fopen_read p w = (r, w') \<Longrightarrow> w_fs w' = w_fs w \<and> (\<forall>d. r = Inr d \<longrightarrow> w_fs w p = Some (FileNode d)) \<and>
     (r = Inl ENOENT \<longrightarrow> w_fs w p = None)"
  by (auto simp: fopen_read_def failing_def split: prod.splits io_answer.splits option.splits fs_node.splits
      dest!: next_io_frame)

lemma simple_fs: "do_simple w = (r, w') \<Longrightarrow> w_fs w' = w_fs w"
  by (auto simp: do_simple_def failing_def split: prod.splits io_answer.splits dest!: next_io_frame)

lemma fwrite_fs:
  "do_fwrite p d w = (n, w') \<Longrightarrow> file_at w p = Some e \<Longrightarrow>
     n \<le> length d \<and> w_fs w' = (w_fs w)(p \<mapsto> FileNode (e @ take n d))"
  by (auto simp: do_fwrite_def failing_def append_file_def file_at_def Let_def
      split: prod.splits io_answer.splits option.splits fs_node.splits dest!: next_io_frame)

lemma fwrite_other: "do_fwrite p d w = (n, w') \<Longrightarrow> q \<noteq> p \<Longrightarrow> w_fs w' q = w_fs w q"
  by (auto simp: do_fwrite_def failing_def append_file_def Let_def
      split: prod.splits io_answer.splits dest!: next_io_frame)

lemma net_fs: "do_net w = (r, w') \<Longrightarrow> w_fs w' = w_fs w"
  by (auto simp: do_net_def split: prod.splits io_answer.splits dest!: next_io_frame)

lemma close_fs [simp]: "w_fs (do_close fd w) = w_fs w"
  by (simp add: do_close_def)

lemma socket_fs: "do_socket w = (r, w') \<Longrightarrow> w_fs w' = w_fs w"
  by (auto simp: do_socket_def split: list.splits option.splits)

lemma accept_fs: "do_accept w = (r, w') \<Longrightarrow> w_fs w' = w_fs w"
  by (auto simp: do_accept_def split: list.splits accept_answer.splits)

lemma recv_fs: "do_recv fd n w = (r, w') \<Longrightarrow> w_fs w' = w_fs w"
  by (auto simp: do_recv_def split: list.splits recv_answer.splits if_splits)

lemma recv_data: "do_recv fd n w = (RecvData d, w') \<Longrightarrow> 0 < n \<Longrightarrow> d \<noteq> [] \<and> length d \<le> n"
  by (auto simp: do_recv_def split: list.splits recv_answer.splits if_splits)

lemma send_fs: "do_send fd d w = (r, w') \<Longrightarrow> w_fs w' = w_fs w"
  by (auto simp: do_send_def split: list.splits send_answer.splits)

lemma send_some: "do_send fd d w = (SendSome n, w') \<Longrightarrow> n \<le> length d \<and> w_wire w' fd = w_wire w fd @ take n d"
  by (auto simp: do_send_def min_def split: list.splits send_answer.splits)

lemmas socket_world_fs = net_fs socket_fs accept_fs recv_fs send_fs

text \<open>The card and the random service leave the network alone, and a card without faults stays so.\<close>

definition same_net :: "world \<Rightarrow> world \<Rightarrow> bool" where
  "same_net w w' \<longleftrightarrow> w_accept w' = w_accept w \<and> w_recv w' = w_recv w \<and> w_send w' = w_send w \<and>
     w_wire w' = w_wire w \<and> w_closed w' = w_closed w \<and> w_socket w' = w_socket w \<and>
     w_connect w' = w_connect w \<and> w_select w' = w_select w \<and> w_so_error w' = w_so_error w \<and> w_udp w' = w_udp w \<and>
     w_tls_setup w' = w_tls_setup w \<and> w_tls w' = w_tls w \<and> w_tls_seen w' = w_tls_seen w \<and> w_tls_wire w' = w_tls_wire w \<and>
     (w_io w = [] \<longrightarrow> w_io w' = [])"

lemma same_net_refl [simp]: "same_net w w"
  by (simp add: same_net_def)

lemma same_net_trans: "same_net a b \<Longrightarrow> same_net b c \<Longrightarrow> same_net a c"
  by (simp add: same_net_def)

lemma next_io_net: "same_net w (snd (next_io w))"
  by (simp add: next_io_def same_net_def split: list.splits)

lemma card_net:
  "same_net w (snd (do_unlink p w))" "same_net w (snd (do_rename p q w))" "same_net w (snd (do_access p w))"
  "same_net w (snd (do_stat p w))" "same_net w (snd (do_mkdir p w))" "same_net w (snd (open_excl p w))"
  "same_net w (snd (fopen_write p w))" "same_net w (snd (fopen_read p w))" "same_net w (snd (do_fwrite p d w))"
  "same_net w (snd (do_simple w))" "same_net w (snd (random_bytes n w))" "same_net w (append_file p d w)"
  by (auto simp: world_defs append_file_def next_io_def same_net_def Let_def
      split: list.splits io_answer.splits option.splits fs_node.splits)

lemma card_net':
  "do_unlink p w = (r1, w') \<Longrightarrow> same_net w w'" "do_rename p q w = (r1, w') \<Longrightarrow> same_net w w'"
  "do_access p w = (r1, w') \<Longrightarrow> same_net w w'" "do_mkdir p w = (r1, w') \<Longrightarrow> same_net w w'"
  "open_excl p w = (r1, w') \<Longrightarrow> same_net w w'" "fopen_write p w = (r1, w') \<Longrightarrow> same_net w w'"
  "do_stat p w = (r2, w') \<Longrightarrow> same_net w w'" "fopen_read p w = (r3, w') \<Longrightarrow> same_net w w'"
  "do_fwrite p d w = (m, w') \<Longrightarrow> same_net w w'" "do_simple w = (b, w') \<Longrightarrow> same_net w w'"
  "random_bytes n w = (r4, w') \<Longrightarrow> same_net w w'"
  by (metis card_net snd_conv)+

text \<open>What a descriptor will still deliver, and what a \<open>recv\<close> takes of it.\<close>

fun answer_bytes :: "recv_answer list \<Rightarrow> string" where
  "answer_bytes [] = []"
| "answer_bytes (RecvData d # as) = d @ answer_bytes as"
| "answer_bytes (a # as) = answer_bytes as"

definition incoming :: "int \<Rightarrow> world \<Rightarrow> string" where
  "incoming fd w = answer_bytes (w_recv w fd)"

lemma recv_incoming:
  "do_recv fd n w = (a, w') \<Longrightarrow> incoming fd w = (case a of RecvData d \<Rightarrow> d | _ \<Rightarrow> []) @ incoming fd w'"
  by (auto simp: do_recv_def incoming_def split: list.splits recv_answer.splits if_splits)

lemma same_net_io: "same_net w w' \<Longrightarrow> w_io w = [] \<Longrightarrow> w_io w' = []"
  by (simp add: same_net_def)

lemma socket_io:
  "do_socket w = (r1, w') \<Longrightarrow> w_io w' = w_io w" "do_accept w = (r2, w') \<Longrightarrow> w_io w' = w_io w"
  "do_recv fd n w = (r3, w') \<Longrightarrow> w_io w' = w_io w" "do_send fd d w = (r4, w') \<Longrightarrow> w_io w' = w_io w"
  "w_io (do_close fd w) = w_io w"
  by (auto simp: do_socket_def do_accept_def do_recv_def do_send_def do_close_def
      split: list.splits option.splits accept_answer.splits recv_answer.splits send_answer.splits if_splits)

lemma same_net_incoming: "same_net w w' \<Longrightarrow> incoming fd w' = incoming fd w"
  by (simp add: same_net_def incoming_def)

lemmas world_fs = unlink_fs rename_fs access_fs stat_fs mkdir_fs open_excl_fs fopen_write_fs
  fopen_read_fs simple_fs random_frame next_io_frame

end
