(* ===== verification/Device.thy ===== *)
theory Device
  imports Json
begin

text \<open>
  The data of \<open>include/device.h\<close> and the limits of \<open>include/transfer.h\<close> and \<open>include/config.h\<close> the
  components share. A \<open>char\<close> array is the C string it holds; \<open>text_field\<close> says that the string came
  out of the JSON reader: it fits its array with the terminator and is valid UTF-8.
\<close>

definition LS3DS_ALIAS_CAPACITY :: nat where [simp, cap_defs]: "LS3DS_ALIAS_CAPACITY = 65"
definition LS3DS_VERSION_CAPACITY :: nat where [simp, cap_defs]: "LS3DS_VERSION_CAPACITY = 16"
definition LS3DS_MODEL_CAPACITY :: nat where [simp, cap_defs]: "LS3DS_MODEL_CAPACITY = 49"
definition LS3DS_FINGERPRINT_CAPACITY :: nat where [simp, cap_defs]: "LS3DS_FINGERPRINT_CAPACITY = 129"
definition LS3DS_IPV4_CAPACITY :: nat where [simp, cap_defs]: "LS3DS_IPV4_CAPACITY = 16"

definition LS3DS_FILE_ID_CAPACITY :: nat where [simp, cap_defs]: "LS3DS_FILE_ID_CAPACITY = 129"
definition LS3DS_FILENAME_CAPACITY :: nat where [simp, cap_defs]: "LS3DS_FILENAME_CAPACITY = 256"
definition LS3DS_FILE_TYPE_CAPACITY :: nat where [simp, cap_defs]: "LS3DS_FILE_TYPE_CAPACITY = 129"
definition LS3DS_SHA256_CAPACITY :: nat where [simp, cap_defs]: "LS3DS_SHA256_CAPACITY = 65"
definition LS3DS_SESSION_ID_CAPACITY :: nat where [simp, cap_defs]: "LS3DS_SESSION_ID_CAPACITY = 65"
definition LS3DS_FILE_TOKEN_CAPACITY :: nat where [simp, cap_defs]: "LS3DS_FILE_TOKEN_CAPACITY = 65"
definition LS3DS_PATH_CAPACITY :: nat where [simp, cap_defs]: "LS3DS_PATH_CAPACITY = 512"
definition LS3DS_TRANSFER_ERROR_CAPACITY :: nat where
  [simp, cap_defs]: "LS3DS_TRANSFER_ERROR_CAPACITY = 128"

definition LS3DS_MAX_DEVICES :: nat where [simp, cap_defs]: "LS3DS_MAX_DEVICES = 16"

datatype LsDeviceType =
  LS_DEVICE_MOBILE | LS_DEVICE_DESKTOP | LS_DEVICE_WEB | LS_DEVICE_HEADLESS | LS_DEVICE_SERVER

datatype LsProtocol = LS_PROTOCOL_HTTP | LS_PROTOCOL_HTTPS

record LsDevice =
  device_alias :: string
  version :: string
  device_model :: string
  device_type :: LsDeviceType
  fingerprint :: string
  ip_address :: string
  port :: u16
  protocol :: LsProtocol
  download :: bool
  announce :: bool
  last_seen_ms :: u64

text \<open>\<open>memset(out, 0, sizeof(*out))\<close> leaves the first enumeration values.\<close>

definition zero_device :: LsDevice where
  "zero_device =
     \<lparr>device_alias = [], version = [], device_model = [], device_type = LS_DEVICE_MOBILE, fingerprint = [],
      ip_address = [], port = 0, protocol = LS_PROTOCOL_HTTP, download = False, announce = False,
      last_seen_ms = 0\<rparr>"

definition text_field :: "nat \<Rightarrow> string \<Rightarrow> bool" where
  "text_field capacity s \<longleftrightarrow> length s < capacity \<and> valid_utf8 s \<and> nul_free s"

lemma text_field_Nil [simp]: "text_field n [] \<longleftrightarrow> 0 < n"
  by (simp add: text_field_def)

lemma parse_string_text_field:
  "parse_string (Some n) s = Inr (v, r) \<Longrightarrow> 0 < n \<Longrightarrow> text_field n v"
  using parse_string_wf by (simp add: text_field_def)

lemma parse_string_field:
  "text_field n s \<Longrightarrow> parse_string (Some n) (json_text s @ rest) = Inr (s, rest)"
  by (simp add: text_field_def parse_string_json_Some)

definition device_wf :: "LsDevice \<Rightarrow> bool" where
  "device_wf d \<longleftrightarrow>
     text_field LS3DS_ALIAS_CAPACITY (device_alias d) \<and> text_field LS3DS_VERSION_CAPACITY (version d) \<and>
     text_field LS3DS_MODEL_CAPACITY (device_model d) \<and>
     text_field LS3DS_FINGERPRINT_CAPACITY (fingerprint d) \<and>
     length (ip_address d) < LS3DS_IPV4_CAPACITY"

lemma zero_device_wf [simp]: "device_wf zero_device"
  by (simp add: device_wf_def zero_device_def)

end
