(* ===== verification/Filesystem.thy ===== *)
theory Filesystem
  imports World Utf8 Device
begin

text \<open>
  \<open>source/filesystem.c\<close>: creating the download directory, making a sender's file name safe and
  selecting a destination that does not exist yet. The output buffers are returned; what a failing
  call of \<open>ls_filesystem_select_paths\<close> leaves in them is never read.
\<close>

section \<open>Directories\<close>

definition ensure_one_directory :: "string \<Rightarrow> world \<Rightarrow> bool \<times> world" where
  "ensure_one_directory path w =
     (case do_mkdir path w of
        (None, w) \<Rightarrow> (True, w)
      | (Some e, w) \<Rightarrow>
          (if e \<noteq> EEXIST then (False, w)
           else case do_stat path w of
               (Inl _, w) \<Rightarrow> (False, w)
             | (Inr node, w) \<Rightarrow> (node = DirNode, w)))"

text \<open>\<open>while (length > 1 && copy[length - 1] == '/') copy[--length] = '\0';\<close>\<close>

function strip_slashes :: "string \<Rightarrow> string" where
  "strip_slashes copy =
     (if length copy > 1 \<and> last copy = CHR ''/'' then strip_slashes (butlast copy) else copy)"
  by pat_completeness auto
termination
  by (relation "measure length") auto

declare strip_slashes.simps [simp del]

function ensure_loop :: "string \<Rightarrow> nat \<Rightarrow> world \<Rightarrow> bool \<times> world" where
  "ensure_loop copy i w =
     (if i < length copy then
        (if copy ! i \<noteq> CHR ''/'' \<or> (i > 0 \<and> copy ! (i - 1) = CHR '':'') then ensure_loop copy (Suc i) w
         else case ensure_one_directory (take i copy) w of
             (False, w) \<Rightarrow> (False, w)
           | (True, w) \<Rightarrow> ensure_loop copy (Suc i) w)
      else ensure_one_directory copy w)"
  by pat_completeness auto
termination
  by (relation "measure (\<lambda>(copy, i, w). length copy - i)") auto

declare ensure_loop.simps [simp del]

definition ls_filesystem_ensure_directory :: "string \<Rightarrow> world \<Rightarrow> bool \<times> world" where
  "ls_filesystem_ensure_directory path w =
     (if path = [] then (False, w)
      else if length path \<ge> LS3DS_PATH_CAPACITY then (False, w)
      else ensure_loop (strip_slashes path) 1 w)"

section \<open>File names\<close>

datatype LsFilenameResult =
  LS_FILENAME_OK | LS_FILENAME_EMPTY | LS_FILENAME_TOO_LONG | LS_FILENAME_INVALID_UTF8
| LS_FILENAME_PATH_ESCAPE | LS_FILENAME_INVALID_CHARACTER

definition ls_filename_result_string :: "LsFilenameResult \<Rightarrow> string" where
  "ls_filename_result_string result =
     (case result of
        LS_FILENAME_OK \<Rightarrow> ''ok''
      | LS_FILENAME_EMPTY \<Rightarrow> ''empty filename''
      | LS_FILENAME_TOO_LONG \<Rightarrow> ''filename too long''
      | LS_FILENAME_INVALID_UTF8 \<Rightarrow> ''invalid UTF-8''
      | LS_FILENAME_PATH_ESCAPE \<Rightarrow> ''path separator or traversal''
      | LS_FILENAME_INVALID_CHARACTER \<Rightarrow> ''invalid filename character'')"

definition replaced_char :: "char \<Rightarrow> char" where
  "replaced_char c = (if c \<in> set ''<>:|?*'' \<or> c = QUOTE then CHR ''_'' else c)"

text \<open>The loop; \<open>out\<close> is what it has written, the result says how it ended.\<close>

function sanitize_loop :: "string \<Rightarrow> string \<Rightarrow> LsFilenameResult \<times> string" where
  "sanitize_loop out [] = (LS_FILENAME_OK, out)"
| "sanitize_loop out (c # cs) =
     (if c = CHR ''/'' \<or> c = BACKSLASH then (LS_FILENAME_PATH_ESCAPE, out)
      else if byte c < 0x20 \<or> byte c = 0x7f then (LS_FILENAME_INVALID_CHARACTER, out)
      else if byte c < 0x80 then sanitize_loop (out @ [replaced_char c]) cs
      else (let sequence = fs_utf8_sequence_length (c # cs) in
            if sequence = 0 then (LS_FILENAME_INVALID_UTF8, out)
            else sanitize_loop (out @ take sequence (c # cs)) (drop (sequence - 1) cs)))"
  by pat_completeness auto
termination
  by (relation "measure (\<lambda>(out, s). length s)") auto

declare sanitize_loop.simps(2) [simp del]

definition ls_filename_sanitize :: "string \<Rightarrow> nat \<Rightarrow> LsFilenameResult \<times> string" where
  "ls_filename_sanitize input capacity =
     (if capacity = 0 \<or> input = [] then (LS_FILENAME_EMPTY, [])
      else if length input + 1 > capacity then (LS_FILENAME_TOO_LONG, [])
      else if input = ''.'' \<or> input = ''..'' then (LS_FILENAME_PATH_ESCAPE, [])
      else case sanitize_loop [] input of
          (LS_FILENAME_OK, output) \<Rightarrow>
            (if last output = CHR '' '' \<or> last output = CHR ''.'' then (LS_FILENAME_INVALID_CHARACTER, output)
             else if output = [] \<or> output = ''.'' \<or> output = ''..'' then (LS_FILENAME_EMPTY, output)
             else (LS_FILENAME_OK, output))
        | (result, output) \<Rightarrow> (result, output))"

section \<open>Destination paths\<close>

definition path_exists :: "string \<Rightarrow> world \<Rightarrow> bool \<times> world" where
  "path_exists path w =
     (case do_stat path w of (Inl _, w) \<Rightarrow> (False, w) | (Inr _, w) \<Rightarrow> (True, w))"

text \<open>The stem and the extension; \<open>strrchr(name, '.')\<close> finds the last dot.\<close>

definition split_extension :: "string \<Rightarrow> string \<times> string" where
  "split_extension name =
     (if CHR ''.'' \<notin> set name then (name, [])
      else let dot = length name - 1 - length (takeWhile (\<lambda>c. c \<noteq> CHR ''.'') (rev name))
           in if dot = 0 then (name, []) else (take dot name, drop dot name))"

definition candidate_path :: "string \<Rightarrow> string \<Rightarrow> nat \<Rightarrow> string" where
  "candidate_path directory safe_name collision =
     (let (stem, extension) = split_extension safe_name in
      if collision = 0 then directory @ ''/'' @ safe_name
      else directory @ ''/'' @ stem @ '' ('' @ dec collision @ '')'' @ extension)"

function select_loop ::
    "string \<Rightarrow> string \<Rightarrow> nat \<Rightarrow> nat \<Rightarrow> nat \<Rightarrow> world \<Rightarrow> (string \<times> string) option \<times> world" where
  "select_loop directory safe_name final_capacity part_capacity collision w =
     (if collision < 10000 then
        (let final_path = candidate_path directory safe_name collision;
             part_path = final_path @ ''.part''
         in if length final_path \<ge> final_capacity then (None, w)
            else if length part_path \<ge> part_capacity then (None, w)
            else case path_exists final_path w of
                (True, w) \<Rightarrow>
                  select_loop directory safe_name final_capacity part_capacity (Suc collision) w
              | (False, w) \<Rightarrow>
                  (case path_exists part_path w of
                     (True, w) \<Rightarrow>
                       select_loop directory safe_name final_capacity part_capacity (Suc collision) w
                   | (False, w) \<Rightarrow> (Some (final_path, part_path), w)))
      else (None, w))"
  by pat_completeness auto
termination
  by (relation "measure (\<lambda>(d, s, fc, pc, c, w). 10000 - c)") auto

declare select_loop.simps [simp del]

definition ls_filesystem_select_paths ::
    "string \<Rightarrow> string \<Rightarrow> nat \<Rightarrow> nat \<Rightarrow> world \<Rightarrow> (string \<times> string) option \<times> world" where
  "ls_filesystem_select_paths directory safe_name final_capacity part_capacity w =
     (if directory = [] \<or> safe_name = [] then (None, w)
      else select_loop directory safe_name final_capacity part_capacity 0 w)"

section \<open>What a directory call changes\<close>

text \<open>Nothing that exists is touched, and only directories appear.\<close>

definition only_directories :: "world \<Rightarrow> world \<Rightarrow> bool" where
  "only_directories w w' \<longleftrightarrow>
     (\<forall>p. w_fs w' p = w_fs w p \<or> w_fs w p = None \<and> w_fs w' p = Some DirNode)"

lemma only_directories_refl [simp]: "w_fs w' = w_fs w \<Longrightarrow> only_directories w w'"
  by (simp add: only_directories_def)

lemma only_directories_trans:
  "only_directories w w' \<Longrightarrow> only_directories w' w'' \<Longrightarrow> only_directories w w''"
  unfolding only_directories_def by (metis option.distinct(1))

lemma ensure_one_props:
  "ensure_one_directory p w = (ok, w') \<Longrightarrow> only_directories w w' \<and> (ok \<longrightarrow> w_fs w' p = Some DirNode)"
  unfolding ensure_one_directory_def
  by (auto split: prod.splits option.splits if_splits sum.splits dest!: mkdir_fs stat_fs
      simp: only_directories_def) (metis fun_upd_same option.distinct(1))+

lemma ensure_loop_props:
  "ensure_loop copy i w = (ok, w') \<Longrightarrow> only_directories w w' \<and> (ok \<longrightarrow> w_fs w' copy = Some DirNode)"
proof (induction copy i w rule: ensure_loop.induct)
  case (1 copy i w)
  show ?case
  proof (cases "i < length copy")
    case False
    with "1.prems" ensure_one_props show ?thesis by (subst (asm) ensure_loop.simps) auto
  next
    case True
    show ?thesis
    proof (cases "copy ! i \<noteq> CHR ''/'' \<or> (i > 0 \<and> copy ! (i - 1) = CHR '':'')")
      case skip: True
      with "1.prems" True have "ensure_loop copy (Suc i) w = (ok, w')"
        by (subst (asm) ensure_loop.simps) auto
      with "1.IH"(1) [OF True skip] show ?thesis .
    next
      case False
      obtain b w1 where o: "ensure_one_directory (take i copy) w = (b, w1)" by fastforce
      note p = ensure_one_props [OF o]
      show ?thesis
      proof (cases b)
        case True
        with "1.prems" o False \<open>i < length copy\<close> have "ensure_loop copy (Suc i) w1 = (ok, w')"
          by (subst (asm) ensure_loop.simps) auto
        with "1.IH"(2) [OF \<open>i < length copy\<close> False o [symmetric]] True p show ?thesis
          using only_directories_trans by blast
      next
        case b: False
        with "1.prems" o False \<open>i < length copy\<close> p show ?thesis
          by (subst (asm) ensure_loop.simps) auto
      qed
    qed
  qed
qed

lemma ensure_directory_props:
  assumes "ls_filesystem_ensure_directory p w = (ok, w')"
  shows "only_directories w w'" and "ok \<Longrightarrow> w_fs w' (strip_slashes p) = Some DirNode"
  using assms by (auto simp: ls_filesystem_ensure_directory_def split: if_splits dest: ensure_loop_props)


section \<open>What a safe file name is\<close>

definition safe_char :: "char \<Rightarrow> bool" where
  "safe_char c \<longleftrightarrow> c \<notin> set ''/<>:|?*'' \<and> c \<noteq> QUOTE \<and> c \<noteq> BACKSLASH \<and> 0x20 \<le> byte c \<and> byte c \<noteq> 0x7f"

definition safe_filename :: "string \<Rightarrow> bool" where
  "safe_filename s \<longleftrightarrow>
     s \<noteq> [] \<and> (\<forall>c \<in> set s. safe_char c) \<and> valid_utf8 s \<and> last s \<noteq> CHR '' '' \<and> last s \<noteq> CHR ''.''"

lemma replaced_char_safe:
  "c \<noteq> CHR ''/'' \<Longrightarrow> c \<noteq> BACKSLASH \<Longrightarrow> 0x20 \<le> byte c \<Longrightarrow> byte c \<noteq> 0x7f \<Longrightarrow> safe_char (replaced_char c)"
  by (auto simp: replaced_char_def safe_char_def)

lemma replaced_char_low: "byte c < 0x80 \<Longrightarrow> byte (replaced_char c) < 0x80"
  by (auto simp: replaced_char_def)

lemma high_char_safe: "0x80 \<le> byte c \<Longrightarrow> safe_char c"
  by (auto simp: safe_char_def)

lemma fs_utf8_length: "fs_utf8_sequence_length s = k \<Longrightarrow> k \<noteq> 0 \<Longrightarrow> \<exists>cp. utf8_sequence s = Some (k, cp)"
  by (auto simp: fs_utf8_sequence_length_def split: option.splits)

lemma sanitize_loop_ok:
  "sanitize_loop out s = (LS_FILENAME_OK, out') \<Longrightarrow>
     \<exists>t. out' = out @ t \<and> length t = length s \<and> (\<forall>c \<in> set t. safe_char c) \<and> valid_utf8 t"
proof (induction "length s" arbitrary: out s rule: less_induct)
  case less
  show ?case
  proof (cases s)
    case Nil
    with less.prems show ?thesis by simp
  next
    case (Cons c cs)
    note unf = less.prems [unfolded Cons, unfolded sanitize_loop.simps(2)]
    from unf have c: "c \<noteq> CHR ''/''" "c \<noteq> BACKSLASH" "0x20 \<le> byte c" "byte c \<noteq> 0x7f"
      by (auto split: if_splits)
    show ?thesis
    proof (cases "byte c < 0x80")
      case True
      with unf c have "sanitize_loop (out @ [replaced_char c]) cs = (LS_FILENAME_OK, out')"
        by (simp split: if_splits)
      from less.hyps [OF _ this] Cons obtain t where t: "out' = (out @ [replaced_char c]) @ t"
        "length t = length cs" "\<forall>c \<in> set t. safe_char c" "valid_utf8 t" by auto
      with Cons c replaced_char_safe replaced_char_low [OF True] show ?thesis
        by (intro exI [of _ "replaced_char c # t"]) auto
    next
      case False
      let ?k = "fs_utf8_sequence_length (c # cs)"
      from unf c False have k: "?k \<noteq> 0" and
        l: "sanitize_loop (out @ take ?k (c # cs)) (drop (?k - 1) cs) = (LS_FILENAME_OK, out')"
        by (auto simp: Let_def split: if_splits)
      from fs_utf8_length [OF refl k] obtain cp where u: "utf8_sequence (c # cs) = Some (?k, cp)" by blast
      note b = utf8_sequence_bounds [OF u]
      have "length (drop (?k - 1) cs) < length s" using Cons by simp
      from less.hyps [OF this l] obtain t where t: "out' = (out @ take ?k (c # cs)) @ t"
        "length t = length (drop (?k - 1) cs)" "\<forall>c \<in> set t. safe_char c" "valid_utf8 t" by blast
      have "c \<in> set (take ?k (c # cs))" using k by (cases ?k) auto
      with utf8_sequence_bytes [OF u] False have "2 \<le> ?k" by fastforce
      with utf8_sequence_bytes [OF u] high_char_safe have "\<forall>d \<in> set (take ?k (c # cs)). safe_char d"
        by fastforce
      with t Cons b valid_utf8_take [OF u] show ?thesis
        by (intro exI [of _ "take ?k (c # cs) @ t"]) auto
    qed
  qed
qed

lemma sanitize_safe:
  assumes "ls_filename_sanitize input capacity = (LS_FILENAME_OK, output)"
  shows "safe_filename output \<and> length output = length input \<and> length output < capacity"
proof -
  from assms have l: "sanitize_loop [] input = (LS_FILENAME_OK, output)" and o: "output \<noteq> []"
    "last output \<noteq> CHR '' ''" "last output \<noteq> CHR ''.''" "length input < capacity"
    by (auto simp: ls_filename_sanitize_def split: if_splits prod.splits LsFilenameResult.splits)
  from sanitize_loop_ok [OF l] o show ?thesis by (auto simp: safe_filename_def)
qed

lemma sanitize_loop_id:
  "\<forall>c \<in> set s. safe_char c \<Longrightarrow> valid_utf8 s \<Longrightarrow> sanitize_loop out s = (LS_FILENAME_OK, out @ s)"
proof (induction "length s" arbitrary: out s rule: less_induct)
  case less
  show ?case
  proof (cases s)
    case (Cons c cs)
    have c: "safe_char c" using less.prems Cons by simp
    then have nc: "c \<noteq> CHR ''/''" "c \<noteq> BACKSLASH" "\<not> byte c < 0x20" "byte c \<noteq> 0x7f" "replaced_char c = c"
      by (auto simp: safe_char_def replaced_char_def)
    show ?thesis
    proof (cases "byte c < 0x80")
      case True
      with less.hyps [of cs "out @ [c]"] less.prems Cons nc show ?thesis
        by (simp add: sanitize_loop.simps(2))
    next
      case False
      obtain k cp where u: "utf8_sequence (c # cs) = Some (k, cp)" and v: "valid_utf8 (drop k (c # cs))"
        using less.prems(2) unfolding Cons by (subst (asm) valid_utf8.simps) (auto split: option.splits)
      note b = utf8_sequence_bounds [OF u]
      have "drop k (c # cs) = drop (k - 1) cs" using b by (cases k) auto
      with v have v: "valid_utf8 (drop (k - 1) cs)" by simp
      have s: "\<forall>d \<in> set (drop (k - 1) cs). safe_char d"
        using less.prems(1) Cons by (auto dest: in_set_dropD)
      have "take k (c # cs) @ drop (k - 1) cs = c # cs"
        using b by (cases k) auto
      moreover have "length (drop (k - 1) cs) < length s" using Cons by simp
      from less.hyps [OF this s v]
      have "sanitize_loop (out @ take k (c # cs)) (drop (k - 1) cs) =
        (LS_FILENAME_OK, (out @ take k (c # cs)) @ drop (k - 1) cs)" .
      ultimately show ?thesis using False nc u b Cons
        by (simp add: sanitize_loop.simps(2) fs_utf8_sequence_length_def Let_def)
    qed
  qed simp
qed

lemma sanitize_idempotent:
  assumes "safe_filename s" and "length s < capacity"
  shows "ls_filename_sanitize s capacity = (LS_FILENAME_OK, s)"
  using assms sanitize_loop_id [of s "[]"]
  by (auto simp: ls_filename_sanitize_def safe_filename_def)


section \<open>Destination paths are fresh\<close>

lemma path_exists_fs:
  "path_exists p w = (b, w') \<Longrightarrow> w_fs w' = w_fs w \<and> (b \<longrightarrow> w_fs w p \<noteq> None)"
  "path_exists p w = (b, w') \<Longrightarrow> w_io w = [] \<Longrightarrow> w_io w' = [] \<and> (b \<longleftrightarrow> w_fs w p \<noteq> None)"
  by (auto simp: path_exists_def do_stat_def next_io_def failing_def
      split: prod.splits sum.splits list.splits option.splits io_answer.splits)

lemma split_extension_append: "split_extension s = (a, b) \<Longrightarrow> a @ b = s"
  by (auto simp: split_extension_def Let_def split: if_splits)

definition no_slash :: "string \<Rightarrow> bool" where
  "no_slash s \<longleftrightarrow> CHR ''/'' \<notin> set s"

lemma no_slash_dec: "no_slash (dec n)"
  using dec_digits [of "CHR ''/''" n] by (auto simp: no_slash_def isdigit_def)

text \<open>A candidate is a file directly inside the directory.\<close>

lemma candidate_inside:
  assumes "no_slash safe_name" and "safe_name \<noteq> []"
  shows "\<exists>name. candidate_path directory safe_name c = directory @ ''/'' @ name \<and> no_slash name \<and> name \<noteq> []"
proof -
  obtain a b where s: "split_extension safe_name = (a, b)" by fastforce
  from split_extension_append [OF this] assms have "no_slash a" "no_slash b" by (auto simp: no_slash_def)
  with s assms no_slash_dec [of c] show ?thesis
    by (cases "c = 0") (auto simp: candidate_path_def no_slash_def)
qed

lemma select_loop_props:
  "select_loop d s fc pc c w = (r, w') \<Longrightarrow> w_fs w' = w_fs w \<and>
     (\<forall>f p. r = Some (f, p) \<longrightarrow> (\<exists>k. f = candidate_path d s k) \<and> p = f @ ''.part'' \<and>
        length f < fc \<and> length p < pc) \<and>
     (w_io w = [] \<longrightarrow> w_io w' = [] \<and> (\<forall>f p. r = Some (f, p) \<longrightarrow> w_fs w f = None \<and> w_fs w p = None))"
proof (induction d s fc pc c w rule: select_loop.induct)
  case (1 d s fc pc c w)
  let ?f = "candidate_path d s c"
  obtain b1 w1 where p1: "path_exists ?f w = (b1, w1)" by fastforce
  obtain b2 w2 where p2: "path_exists (?f @ ''.part'') w1 = (b2, w2)" by fastforce
  note fs = path_exists_fs [OF p1] path_exists_fs [OF p2]
  show ?case
  proof (cases "c < 10000 \<and> length ?f < fc \<and> length (?f @ ''.part'') < pc")
    case False
    with "1.prems" show ?thesis by (subst (asm) select_loop.simps) (auto simp: Let_def split: if_splits)
  next
    case True
    with "1.prems" p1 p2 have e: "(case b1 of True \<Rightarrow> select_loop d s fc pc (Suc c) w1
        | False \<Rightarrow> (case b2 of True \<Rightarrow> select_loop d s fc pc (Suc c) w2 | False \<Rightarrow> (Some (?f, ?f @ ''.part''), w2))) = (r, w')"
      by (subst (asm) select_loop.simps) (cases b1; cases b2; simp add: Let_def)
    show ?thesis
    proof (cases b1)
      case True
      with "1.IH"(1) [OF _ refl refl _ _ p1 [symmetric]] \<open>c < 10000 \<and> _\<close> e fs show ?thesis by simp
    next
      case b1: False
      show ?thesis
      proof (cases b2)
        case True
        with "1.IH"(2) [OF _ refl refl _ _ p1 [symmetric] _ p2 [symmetric]] b1 \<open>c < 10000 \<and> _\<close> e fs show ?thesis by simp
      next
        case False
        with b1 e fs True show ?thesis by auto
      qed
    qed
  qed
qed

section \<open>The network is left alone\<close>

lemma path_exists_net: "path_exists p w = (b, w') \<Longrightarrow> same_net w w'"
  by (auto simp: path_exists_def split: prod.splits sum.splits dest: card_net')

lemma ensure_one_net: "ensure_one_directory p w = (b, w') \<Longrightarrow> same_net w w'"
  by (auto simp: ensure_one_directory_def split: prod.splits sum.splits option.splits if_splits
      dest!: card_net' intro: same_net_trans)

lemma ensure_loop_net: "ensure_loop copy i w = (ok, w') \<Longrightarrow> same_net w w'"
proof (induction copy i w rule: ensure_loop.induct)
  case (1 copy i w)
  obtain b w1 where o: "ensure_one_directory (take i copy) w = (b, w1)" by fastforce
  show ?case
  proof (cases "i < length copy")
    case False
    with "1.prems" ensure_one_net show ?thesis by (subst (asm) ensure_loop.simps) auto
  next
    case l: True
    show ?thesis
    proof (cases "copy ! i \<noteq> CHR ''/'' \<or> (i > 0 \<and> copy ! (i - 1) = CHR '':'')")
      case True
      with "1.prems" l have "ensure_loop copy (Suc i) w = (ok, w')" by (subst (asm) ensure_loop.simps) auto
      with "1.IH"(1) [OF l True] show ?thesis .
    next
      case False
      with "1.prems" l o have "w' = w1 \<or> (b \<and> ensure_loop copy (Suc i) w1 = (ok, w'))"
        by (subst (asm) ensure_loop.simps) (cases b; auto)
      with "1.IH"(2) [OF l False o [symmetric]] ensure_one_net [OF o] show ?thesis
        by (auto intro: same_net_trans)
    qed
  qed
qed

lemma select_loop_net: "select_loop d s fc pc c w = (r, w') \<Longrightarrow> same_net w w'"
proof (induction d s fc pc c w rule: select_loop.induct)
  case (1 d s fc pc c w)
  let ?f = "candidate_path d s c"
  obtain b1 w1 where p1: "path_exists ?f w = (b1, w1)" by fastforce
  obtain b2 w2 where p2: "path_exists (?f @ ''.part'') w1 = (b2, w2)" by fastforce
  note n = path_exists_net [OF p1] same_net_trans [OF path_exists_net [OF p1] path_exists_net [OF p2]]
  show ?case
  proof (cases "c < 10000 \<and> length ?f < fc \<and> length (?f @ ''.part'') < pc")
    case False
    with "1.prems" show ?thesis by (subst (asm) select_loop.simps) (auto simp: Let_def split: if_splits)
  next
    case True
    with "1.prems" p1 p2 have e: "w' = w2 \<or> (b1 \<and> select_loop d s fc pc (Suc c) w1 = (r, w')) \<or>
        (\<not> b1 \<and> b2 \<and> select_loop d s fc pc (Suc c) w2 = (r, w'))"
      by (subst (asm) select_loop.simps) (cases b1; cases b2; simp add: Let_def)
    show ?thesis
      using "1.IH"(1) [OF _ refl refl _ _ p1 [symmetric]] "1.IH"(2) [OF _ refl refl _ _ p1 [symmetric] _ p2 [symmetric]]
        True e n by (cases b1; cases b2) (auto intro: same_net_trans)
  qed
qed

lemma filesystem_net:
  "ls_filesystem_ensure_directory p w = (ok, w') \<Longrightarrow> same_net w w'"
  "ls_filesystem_select_paths d s fc pc w = (r, w') \<Longrightarrow> same_net w w'"
  by (auto simp: ls_filesystem_ensure_directory_def ls_filesystem_select_paths_def split: if_splits
      dest: ensure_loop_net select_loop_net)

end
