(* ===== verification/Sha256.thy ===== *)
theory Sha256
  imports Prelude
begin

text \<open>
  The incremental SHA-256 of \<open>source/sha256.c\<close>. The context is a record; the bytes of its block
  buffer beyond \<open>block_length\<close> are never read, so the record keeps the valid prefix only and
  \<open>block_length\<close> is its length. The reference is the one-shot function of FIPS 180-4 (pad, cut
  into 64-byte blocks, compress), and the main results say that any sequence of \<open>update\<close> calls
  followed by \<open>finish\<close> computes it.
\<close>

section \<open>The compression function\<close>

definition ROTR :: "nat \<Rightarrow> u32 \<Rightarrow> u32" where
  "ROTR bits v = (drop_bit bits v OR push_bit (32 - bits) v)"

definition round_constants :: "u32 list" where
  "round_constants = [
    0x428a2f98, 0x71374491, 0xb5c0fbcf, 0xe9b5dba5,
    0x3956c25b, 0x59f111f1, 0x923f82a4, 0xab1c5ed5,
    0xd807aa98, 0x12835b01, 0x243185be, 0x550c7dc3,
    0x72be5d74, 0x80deb1fe, 0x9bdc06a7, 0xc19bf174,
    0xe49b69c1, 0xefbe4786, 0x0fc19dc6, 0x240ca1cc,
    0x2de92c6f, 0x4a7484aa, 0x5cb0a9dc, 0x76f988da,
    0x983e5152, 0xa831c66d, 0xb00327c8, 0xbf597fc7,
    0xc6e00bf3, 0xd5a79147, 0x06ca6351, 0x14292967,
    0x27b70a85, 0x2e1b2138, 0x4d2c6dfc, 0x53380d13,
    0x650a7354, 0x766a0abb, 0x81c2c92e, 0x92722c85,
    0xa2bfe8a1, 0xa81a664b, 0xc24b8b70, 0xc76c51a3,
    0xd192e819, 0xd6990624, 0xf40e3585, 0x106aa070,
    0x19a4c116, 0x1e376c08, 0x2748774c, 0x34b0bcb5,
    0x391c0cb3, 0x4ed8aa4a, 0x5b9cca4f, 0x682e6ff3,
    0x748f82ee, 0x78a5636f, 0x84c87814, 0x8cc70208,
    0x90befffa, 0xa4506ceb, 0xbef9a3f7, 0xc67178f2]"

definition load_be32 :: "u8 list \<Rightarrow> u32" where
  "load_be32 data =
     (push_bit 24 (ucast (data ! 0)) OR push_bit 16 (ucast (data ! 1)) OR
      push_bit 8 (ucast (data ! 2)) OR ucast (data ! 3))"

text \<open>The message schedule: \<open>words[0..15]\<close> from the block, then \<open>words[i]\<close> for \<open>i = 16..63\<close>.\<close>

definition schedule_init :: "u8 list \<Rightarrow> u32 list" where
  "schedule_init blk = map (\<lambda>i. load_be32 (drop (i * 4) blk)) [0..<16]"

function schedule_loop :: "nat \<Rightarrow> u32 list \<Rightarrow> u32 list" where
  "schedule_loop i words =
     (if i < 64 then
        (let s0 = ROTR 7 (words ! (i - 15)) XOR ROTR 18 (words ! (i - 15)) XOR
                  drop_bit 3 (words ! (i - 15));
             s1 = ROTR 17 (words ! (i - 2)) XOR ROTR 19 (words ! (i - 2)) XOR
                  drop_bit 10 (words ! (i - 2))
         in schedule_loop (Suc i)
              (words @ [words ! (i - 16) + s0 + words ! (i - 7) + s1]))
      else words)"
  by pat_completeness auto
termination
  by (relation "measure (\<lambda>(i, words). 64 - i)") auto

declare schedule_loop.simps [simp del]

type_synonym hash_vars = "u32 \<times> u32 \<times> u32 \<times> u32 \<times> u32 \<times> u32 \<times> u32 \<times> u32"

text \<open>One round of the loop of \<open>transform\<close>, with the round constant and the schedule word.\<close>

fun hash_round :: "u32 \<times> u32 \<Rightarrow> hash_vars \<Rightarrow> hash_vars" where
  "hash_round (k, w) (a, b, c, d, e, f, g, h) =
     (let sum1 = ROTR 6 e XOR ROTR 11 e XOR ROTR 25 e;
          ch = (e AND f) XOR ((NOT e) AND g);
          temp1 = h + sum1 + ch + k + w;
          sum0 = ROTR 2 a XOR ROTR 13 a XOR ROTR 22 a;
          majority = (a AND b) XOR (a AND c) XOR (b AND c);
          temp2 = sum0 + majority
      in (temp1 + temp2, a, b, c, d + temp1, e, f, g))"

definition transform :: "u32 list \<Rightarrow> u8 list \<Rightarrow> u32 list" where
  "transform st blk =
     (let words = schedule_loop 16 (schedule_init blk);
          (a, b, c, d, e, f, g, h) =
            fold hash_round (zip round_constants words)
              (st ! 0, st ! 1, st ! 2, st ! 3, st ! 4, st ! 5, st ! 6, st ! 7)
      in [st ! 0 + a, st ! 1 + b, st ! 2 + c, st ! 3 + d,
          st ! 4 + e, st ! 5 + f, st ! 6 + g, st ! 7 + h])"

lemma length_transform [simp]: "length (transform st blk) = 8"
  by (auto simp: transform_def Let_def split: prod.splits)

section \<open>The incremental interface\<close>

record ls_sha256 =
  sha_state :: "u32 list"
  bit_count :: u64
  block :: "u8 list"

abbreviation block_length :: "ls_sha256 \<Rightarrow> nat" where
  "block_length ctx \<equiv> length (block ctx)"

definition sha256_initial :: "u32 list" where
  "sha256_initial = [0x6a09e667, 0xbb67ae85, 0x3c6ef372, 0xa54ff53a,
                     0x510e527f, 0x9b05688c, 0x1f83d9ab, 0x5be0cd19]"

definition ls_sha256_init :: ls_sha256 where
  "ls_sha256_init = \<lparr>sha_state = sha256_initial, bit_count = 0, block = []\<rparr>"

text \<open>
  The loop of \<open>ls_sha256_update\<close>: fill the block, compress it when it is full, go on with the
  rest of the input. A block longer than 64 bytes cannot arise (\<open>sha_wf\<close> below); the guard keeps
  the function total there.
\<close>

function ls_sha256_update :: "ls_sha256 \<Rightarrow> u8 list \<Rightarrow> ls_sha256" where
  "ls_sha256_update ctx data =
     (if data = [] \<or> 64 < block_length ctx then ctx
      else
        (let available = 64 - block_length ctx;
             amount = (if length data < available then length data else available);
             ctx1 = ctx\<lparr>block := block ctx @ take amount data\<rparr>;
             rest = drop amount data
         in if block_length ctx1 = 64
            then ls_sha256_update
                   (ctx1\<lparr>sha_state := transform (sha_state ctx1) (block ctx1),
                         bit_count := bit_count ctx1 + 512, block := []\<rparr>) rest
            else ls_sha256_update ctx1 rest))"
  by pat_completeness auto
termination
  by (relation "measure (\<lambda>(ctx, data). 2 * length data + (if block_length ctx = 64 then 1 else 0))")
     (auto simp: Let_def split: if_splits)

declare ls_sha256_update.simps [simp del]

definition be64 :: "u64 \<Rightarrow> u8 list" where
  "be64 v = map (\<lambda>i. ucast (drop_bit ((7 - i) * 8) v)) [0..<8]"

definition be32 :: "u32 \<Rightarrow> u8 list" where
  "be32 v = [ucast (drop_bit 24 v), ucast (drop_bit 16 v), ucast (drop_bit 8 v), ucast v]"

text \<open>\<open>ls_sha256_finish\<close> returns the digest; the context is wiped with zeros.\<close>

definition ls_sha256_finish :: "ls_sha256 \<Rightarrow> u8 list" where
  "ls_sha256_finish ctx =
     (let total_bits = bit_count ctx + of_nat (block_length ctx) * 8;
          blk = block ctx @ [0x80];
          (st, blk) =
            (if 56 < length blk
             then (transform (sha_state ctx) (blk @ replicate (64 - length blk) 0), [])
             else (sha_state ctx, blk));
          blk = blk @ replicate (56 - length blk) 0 @ be64 total_bits;
          st = transform st blk
      in concat (map be32 st))"

definition hex_digits_lower :: string where
  "hex_digits_lower = ''0123456789abcdef''"

definition ls_sha256_hex :: "u8 list \<Rightarrow> string" where
  "ls_sha256_hex digest =
     concat (map (\<lambda>b. [hex_digits_lower ! unat (drop_bit 4 b),
                       hex_digits_lower ! unat (b AND 0x0f)]) digest)"

section \<open>The one-shot reference\<close>

text \<open>Compress every whole 64-byte block of the input.\<close>

function compress_blocks :: "u32 list \<Rightarrow> u8 list \<Rightarrow> u32 list" where
  "compress_blocks st bs =
     (if length bs < 64 then st else compress_blocks (transform st (take 64 bs)) (drop 64 bs))"
  by pat_completeness auto
termination
  by (relation "measure (\<lambda>(st, bs). length bs)") auto

declare compress_blocks.simps [simp del]

definition sha256_pad :: "u8 list \<Rightarrow> u8 list" where
  "sha256_pad m =
     m @ [0x80] @ replicate ((119 - length m mod 64) mod 64) 0 @ be64 (of_nat (8 * length m))"

definition sha256 :: "u8 list \<Rightarrow> u8 list" where
  "sha256 m = concat (map be32 (compress_blocks sha256_initial (sha256_pad m)))"

lemma compress_blocks_short: "length bs < 64 \<Longrightarrow> compress_blocks st bs = st"
  by (subst compress_blocks.simps) simp

lemma compress_blocks_step:
  "length b = 64 \<Longrightarrow> compress_blocks st (b @ bs) = compress_blocks (transform st b) bs"
  by (subst compress_blocks.simps) simp

lemma compress_blocks_append:
  "64 dvd length a \<Longrightarrow> compress_blocks st (a @ b) = compress_blocks (compress_blocks st a) b"
proof (induction st a rule: compress_blocks.induct)
  case (1 st a)
  show ?case
  proof (cases "length a < 64")
    case True
    with "1.prems" have "a = []" by (auto dest: nat_dvd_not_less)
    then show ?thesis by (simp add: compress_blocks_short)
  next
    case False
    then have t: "length (take 64 a) = 64" by simp
    from "1.prems" False have "64 dvd length (drop 64 a)" by (simp add: dvd_minus_self)
    with "1.IH" False have
      "compress_blocks (transform st (take 64 a)) (drop 64 a @ b) =
       compress_blocks (compress_blocks (transform st (take 64 a)) (drop 64 a)) b" by blast
    with compress_blocks_step [OF t, of st "drop 64 a @ b"]
         compress_blocks_step [OF t, of st "drop 64 a"] show ?thesis
      by (metis append_assoc append_take_drop_id)
  qed
qed

lemma length_sha256_pad: "64 dvd length (sha256_pad m)"
proof -
  define r where "r = length m mod 64"
  have r: "r < 64" by (simp add: r_def)
  have "(119 - r) mod 64 = (if r < 56 then 55 - r else 119 - r)"
    using r by (simp add: mod_if [of "119 - r"])
  then have "r + (1 + (119 - r) mod 64 + 8) = (if r < 56 then 64 else 128)"
    using r by simp
  then have "(r + (1 + (119 - r) mod 64 + 8)) mod 64 = 0"
    by (simp only:) simp
  then have "(length m + (1 + (119 - length m mod 64) mod 64 + 8)) mod 64 = 0"
    unfolding r_def by (simp only: mod_add_left_eq)
  then show ?thesis by (simp add: sha256_pad_def be64_def mod_eq_0_iff_dvd add.assoc)
qed


lemma compress_blocks_tail:
  "64 dvd length a \<Longrightarrow> length t < 64 \<Longrightarrow> compress_blocks st (a @ t) = compress_blocks st a"
  by (simp add: compress_blocks_append compress_blocks_short)

section \<open>The context of a message prefix\<close>

text \<open>The context that has absorbed exactly the bytes \<open>m\<close>.\<close>

definition ctx_for :: "u8 list \<Rightarrow> ls_sha256" where
  "ctx_for m =
     (let q = 64 * (length m div 64)
      in \<lparr>sha_state = compress_blocks sha256_initial m, bit_count = of_nat (8 * q),
          block = drop q m\<rparr>)"

definition sha_wf :: "ls_sha256 \<Rightarrow> bool" where
  "sha_wf ctx \<longleftrightarrow> block_length ctx < 64 \<and> (\<exists>m. ctx = ctx_for m)"

lemma split_at_block:
  obtains a t where "m = a @ t" "64 dvd length a" "length t < 64"
proof
  show "m = take (64 * (length m div 64)) m @ drop (64 * (length m div 64)) m" by simp
  have "min (length m) (64 * (length m div 64)) = 64 * (length m div 64)" by simp
  then show "64 dvd length (take (64 * (length m div 64)) m)" by (simp only: length_take) simp
  have "length m - 64 * (length m div 64) = length m mod 64"
    by (simp add: minus_mult_div_eq_mod)
  then show "length (drop (64 * (length m div 64)) m) < 64" by simp
qed

lemma ctx_for_eq:
  assumes "64 dvd length a" and "length t < 64"
  shows "ctx_for (a @ t) =
           \<lparr>sha_state = compress_blocks sha256_initial a, bit_count = of_nat (8 * length a),
            block = t\<rparr>"
proof -
  obtain k where k: "length a = 64 * k" using assms(1) by blast
  then have "64 * ((length a + length t) div 64) = length a"
    using assms(2) by simp
  then show ?thesis
    using assms by (simp add: ctx_for_def Let_def compress_blocks_tail)
qed

lemma ctx_for_Nil: "ctx_for [] = ls_sha256_init"
  using ctx_for_eq [of "[]" "[]"] by (simp add: ls_sha256_init_def compress_blocks_short)

lemma ctx_for_wf: "sha_wf (ctx_for m)"
proof -
  obtain a t where "m = a @ t" "64 dvd length a" "length t < 64" by (rule split_at_block)
  then have "block_length (ctx_for m) < 64" by (simp add: ctx_for_eq)
  then show ?thesis by (auto simp: sha_wf_def)
qed

lemma update_ctx_for: "ls_sha256_update (ctx_for m) data = ctx_for (m @ data)"
proof (induction "length data" arbitrary: m data rule: less_induct)
  case less
  obtain a t where m: "m = a @ t" and a: "64 dvd length a" and t: "length t < 64"
    by (rule split_at_block)
  note ctx = ctx_for_eq [OF a t]
  consider "data = []" | "data \<noteq> []" "length data < 64 - length t"
    | "data \<noteq> []" "64 - length t \<le> length data" by linarith
  then show ?case
  proof cases
    case 1
    then show ?thesis by (simp add: ls_sha256_update.simps)
  next
    case 2
    have "ctx_for (a @ t @ data) =
        \<lparr>sha_state = compress_blocks sha256_initial a, bit_count = of_nat (8 * length a),
         block = t @ data\<rparr>"
      using ctx_for_eq [OF a, of "t @ data"] 2 by simp
    then show ?thesis
      using 2 t ctx m by (simp add: ls_sha256_update.simps Let_def)
  next
    case 3
    define b where "b = t @ take (64 - length t) data"
    define rest where "rest = drop (64 - length t) data"
    have b: "length b = 64" using 3 t by (simp add: b_def)
    have ab: "64 dvd length (a @ b)" using a b by simp
    have all: "m @ data = (a @ b) @ rest" by (simp add: m b_def rest_def)
    have "compress_blocks sha256_initial (a @ b) = transform (compress_blocks sha256_initial a) b"
      using a b compress_blocks_step [OF b, of _ "[]"]
      by (simp add: compress_blocks_append compress_blocks_short)
    then have "ctx_for (a @ b) =
        \<lparr>sha_state = transform (compress_blocks sha256_initial a) b,
         bit_count = of_nat (8 * length a) + 512, block = []\<rparr>"
      using ctx_for_eq [OF ab, of "[]"] b by (simp add: algebra_simps)
    then have "ls_sha256_update (ctx_for m) data = ls_sha256_update (ctx_for (a @ b)) rest"
      using 3 ctx b t
      by (subst ls_sha256_update.simps) (auto simp: Let_def m b_def rest_def)
    moreover have "length rest < length data" using 3 t by (simp add: rest_def)
    ultimately show ?thesis
      using less [of rest "a @ b"] all by simp
  qed
qed

lemma update_append:
  "sha_wf ctx \<Longrightarrow> ls_sha256_update (ls_sha256_update ctx a) b = ls_sha256_update ctx (a @ b)"
  by (auto simp: sha_wf_def update_ctx_for)

lemma update_wf: "sha_wf ctx \<Longrightarrow> sha_wf (ls_sha256_update ctx data)"
  using ctx_for_wf by (auto simp: sha_wf_def update_ctx_for)

lemma length_be64 [simp]: "length (be64 v) = 8"
  by (simp add: be64_def)

lemma finish_ctx_for: "ls_sha256_finish (ctx_for m) = sha256 m"
proof -
  obtain a t where m: "m = a @ t" and a: "64 dvd length a" and t: "length t < 64"
    by (rule split_at_block)
  define st where "st = compress_blocks sha256_initial a"
  define bits :: u64 where "bits = of_nat (8 * length m)"
  have bits: "of_nat (8 * length a) + of_nat (length t) * 8 = bits"
    by (simp add: bits_def m algebra_simps)
  have r: "length m mod 64 = length t"
    using a t by (auto simp: m elim!: dvdE)
  have pad: "sha256_pad m = a @ t @ [0x80] @ replicate ((119 - length t) mod 64) 0 @ be64 bits"
    unfolding sha256_pad_def r bits_def by (simp add: m)
  have fin: "compress_blocks st b = transform st b" if "length b = 64" for st b
    using compress_blocks_step [OF that, of st "[]"] by (simp add: compress_blocks_short)
  show ?thesis
  proof (cases "56 < length t + 1")
    case True
    define b1 :: "u8 list" where "b1 = t @ [0x80] @ replicate (63 - length t) 0"
    define b2 where "b2 = replicate 56 0 @ be64 bits"
    have b1: "length b1 = 64" and b2: "length b2 = 64" using t by (auto simp: b1_def b2_def)
    have "(119 - length t) mod 64 = (63 - length t) + 56"
      using True t by simp
    then have "sha256_pad m = a @ b1 @ b2"
      unfolding pad b1_def b2_def by (simp only: replicate_add append_assoc)
    then have "compress_blocks sha256_initial (sha256_pad m) = transform (transform st b1) b2"
      using a by (simp add: compress_blocks_append compress_blocks_step [OF b1] fin [OF b2] st_def)
    then show ?thesis
      unfolding sha256_def ls_sha256_finish_def
      using True t bits by (simp add: m ctx_for_eq [OF a t] Let_def b1_def b2_def st_def)
  next
    case False
    define b :: "u8 list" where "b = t @ [0x80] @ replicate (55 - length t) 0 @ be64 bits"
    have b: "length b = 64" using False by (simp add: b_def)
    have "(119 - length t) mod 64 = 55 - length t"
      using False by (simp add: mod_if [of "119 - length t"])
    then have "sha256_pad m = a @ b" by (simp add: pad b_def)
    then have "compress_blocks sha256_initial (sha256_pad m) = transform st b"
      using a by (simp add: compress_blocks_append fin [OF b] st_def)
    then show ?thesis
      unfolding sha256_def ls_sha256_finish_def
      using False bits by (simp add: m ctx_for_eq [OF a t] Let_def b_def st_def)
  qed
qed


lemma length_sha256 [simp]: "length (sha256 m) = 32"
proof -
  have len8: "length (compress_blocks st bs) = 8" if "length st = 8" for st bs
    using that
    by (induction st bs rule: compress_blocks.induct) (subst compress_blocks.simps, simp)
  have be: "length (concat (map be32 ws)) = 4 * length ws" for ws
    by (induction ws) (auto simp: be32_def)
  show ?thesis by (simp add: sha256_def be len8 sha256_initial_def)
qed

section \<open>The interface of an incremental hash\<close>

text \<open>
  What the transfer relies on: a digest computed over pieces is the digest of their concatenation.
  \<open>ok\<close> is the invariant of a live context.
\<close>

locale incremental_hash =
  fixes init :: 'c
    and update :: "'c \<Rightarrow> 'b list \<Rightarrow> 'c"
    and finish :: "'c \<Rightarrow> 'd"
    and hash :: "'b list \<Rightarrow> 'd"
    and ok :: "'c \<Rightarrow> bool"
  assumes ok_init: "ok init"
    and ok_update: "ok c \<Longrightarrow> ok (update c x)"
    and update_Nil: "ok c \<Longrightarrow> update c [] = c"
    and update_update: "ok c \<Longrightarrow> update (update c x) y = update c (x @ y)"
    and finish_hash: "finish (update init m) = hash m"
begin

lemma foldl_update: "ok c \<Longrightarrow> foldl update c xs = update c (concat xs)"
  by (induction xs arbitrary: c) (auto simp: update_Nil ok_update update_update)

lemma hash_of_pieces: "finish (foldl update init xs) = hash (concat xs)"
  by (simp add: foldl_update ok_init finish_hash)

lemma absorbed_extend: "update (update init m) x = update init (m @ x)"
  by (simp add: update_update ok_init)

end

interpretation sha: incremental_hash ls_sha256_init ls_sha256_update ls_sha256_finish sha256 sha_wf
proof
  show "sha_wf ls_sha256_init" using ctx_for_wf [of "[]"] by (simp add: ctx_for_Nil)
  show "ls_sha256_finish (ls_sha256_update ls_sha256_init m) = sha256 m" for m
    using update_ctx_for [of "[]" m] by (simp add: ctx_for_Nil finish_ctx_for)
  show "ls_sha256_update c [] = c" for c by (subst ls_sha256_update.simps) simp
qed (auto intro: update_wf update_append)

section \<open>Hexadecimal text of a digest\<close>

lemma less_16_cases:
  "(n::nat) < 16 \<Longrightarrow> n \<in> {0, 1, 2, 3, 4, 5, 6, 7, 8, 9, 10, 11, 12, 13, 14, 15}"
  by (auto simp: less_Suc_eq numeral_eq_Suc)

lemma nibbles:
  fixes b :: u8
  shows "unat (drop_bit 4 b) < 16" and "unat (b AND 0x0f) < 16"
    and "unat b = 16 * unat (drop_bit 4 b) + unat (b AND 0x0f)"
proof -
  have "unat b < 2 ^ LENGTH(8)" by (rule unsigned_less)
  then have b256: "unat b < 256" by simp
  have "b AND 0x0f = take_bit 4 b"
    by (simp add: take_bit_eq_mask mask_eq_exp_minus_1)
  then have lo: "unat (b AND 0x0f) = unat b mod 16"
    by (simp only: unsigned_take_bit_eq) (simp add: take_bit_eq_mod)
  have hi: "unat (drop_bit 4 b) = unat b div 16"
    using b256
    by (simp only: unsigned_drop_bit_eq) (simp add: drop_bit_eq_div take_bit_nat_eq_self)
  from b256 show "unat (drop_bit 4 b) < 16" and "unat (b AND 0x0f) < 16"
    and "unat b = 16 * unat (drop_bit 4 b) + unat (b AND 0x0f)"
    by (auto simp: lo hi)
qed

lemma hex_lower_inj:
  "m < 16 \<Longrightarrow> n < 16 \<Longrightarrow> hex_digits_lower ! m = hex_digits_lower ! n \<Longrightarrow> m = n"
  by (drule less_16_cases, drule less_16_cases) (auto simp: hex_digits_lower_def)

lemma hex_lower_class:
  "m < 16 \<Longrightarrow> isxdigit (hex_digits_lower ! m) \<and> tolower (hex_digits_lower ! m) = hex_digits_lower ! m"
  by (drule less_16_cases) (auto simp: hex_digits_lower_def ctype_defs tolower_def)

lemma length_sha256_hex [simp]: "length (ls_sha256_hex d) = 2 * length d"
  by (induction d) (auto simp: ls_sha256_hex_def)

lemma sha256_hex_chars:
  "c \<in> set (ls_sha256_hex d) \<Longrightarrow> isxdigit c \<and> tolower c = c"
  using hex_lower_class [OF nibbles(1)] hex_lower_class [OF nibbles(2)]
  by (auto simp: ls_sha256_hex_def)

lemma sha256_hex_inject: "ls_sha256_hex d = ls_sha256_hex e \<Longrightarrow> d = e"
proof (induction d arbitrary: e)
  case Nil
  then show ?case by (cases e) (auto simp: ls_sha256_hex_def)
next
  case (Cons b d)
  then obtain b' e' where e: "e = b' # e'" by (cases e) (auto simp: ls_sha256_hex_def)
  with Cons.prems have hi: "hex_digits_lower ! unat (drop_bit 4 b) = hex_digits_lower ! unat (drop_bit 4 b')"
    and lo: "hex_digits_lower ! unat (b AND 0x0f) = hex_digits_lower ! unat (b' AND 0x0f)"
    and rest: "ls_sha256_hex d = ls_sha256_hex e'"
    by (auto simp: ls_sha256_hex_def)
  from hi lo nibbles have "unat b = unat b'"
    by (metis hex_lower_inj)
  then have "b = b'" by (simp add: word_unat_eq_iff)
  with Cons.IH [OF rest] e show ?case by simp
qed

end
