(* ===== verification/Secure_Random.thy ===== *)
theory Secure_Random
  imports World Sha256
begin

text \<open>
  \<open>source/secure_random.c\<close>. The bytes come from the random service of the world (\<open>random_bytes\<close>);
  \<open>None\<close> is the return value \<open>false\<close>.
\<close>

definition ls_secure_random_bytes :: "nat \<Rightarrow> world \<Rightarrow> u8 list option \<times> world" where
  "ls_secure_random_bytes n w = (if n = 0 then (None, w) else random_bytes n w)"

definition two_digits :: "string \<Rightarrow> u8 \<Rightarrow> string" where
  "two_digits digits b = [digits ! unat (drop_bit 4 b), digits ! unat (b AND 0x0f)]"

definition ls_secure_random_hex :: "nat \<Rightarrow> nat \<Rightarrow> world \<Rightarrow> string option \<times> world" where
  "ls_secure_random_hex capacity byte_count w =
     (if byte_count = 0 \<or> byte_count > 32 \<or> capacity < byte_count * 2 + 1 then (None, w)
      else case ls_secure_random_bytes byte_count w of
          (None, w) \<Rightarrow> (None, w)
        | (Some bytes, w) \<Rightarrow> (Some (concat (map (two_digits ''0123456789ABCDEF'') bytes)), w))"

fun uuid_loop :: "u8 list \<Rightarrow> string \<Rightarrow> string" where
  "uuid_loop [] out = out"
| "uuid_loop (b # bs) out =
     uuid_loop bs
       ((if length out = 8 \<or> length out = 13 \<or> length out = 18 \<or> length out = 23 then out @ ''-'' else out) @
        two_digits ''0123456789abcdef'' b)"

definition ls_secure_random_uuid :: "world \<Rightarrow> string option \<times> world" where
  "ls_secure_random_uuid w =
     (case ls_secure_random_bytes 16 w of
        (None, w) \<Rightarrow> (None, w)
      | (Some bytes, w) \<Rightarrow>
          (let bytes = bytes[6 := (bytes ! 6 AND 0x0f) OR 0x40];
               bytes = bytes[8 := (bytes ! 8 AND 0x3f) OR 0x80]
           in (Some (uuid_loop bytes []), w)))"

section \<open>The texts\<close>

text \<open>Five groups of lower-case digits, with the version and the variant of a random UUID.\<close>

definition hex_group :: "nat \<Rightarrow> string \<Rightarrow> bool" where
  "hex_group n s \<longleftrightarrow> length s = n \<and> set s \<subseteq> set ''0123456789abcdef''"

definition uuid_text :: "string \<Rightarrow> bool" where
  "uuid_text s \<longleftrightarrow>
     (\<exists>a b c d e. s = a @ ''-'' @ b @ ''-'' @ c @ ''-'' @ d @ ''-'' @ e \<and>
        hex_group 8 a \<and> hex_group 4 b \<and> hex_group 4 c \<and> hex_group 4 d \<and> hex_group 12 e \<and>
        hd c = CHR ''4'' \<and> hd d \<in> set ''89ab'')"

lemma hex_digit_mem: "n < 16 \<Longrightarrow> ''0123456789abcdef'' ! n \<in> set ''0123456789abcdef''"
  by (rule nth_mem) simp

lemma hex_digit_mem_upper: "n < 16 \<Longrightarrow> ''0123456789ABCDEF'' ! n \<in> set ''0123456789ABCDEF''"
  by (rule nth_mem) simp

lemma version_nibble: "drop_bit 4 ((b AND 0x0f) OR 0x40 :: u8) = 4"
proof -
  have "drop_bit 4 ((b AND 0x0f) OR 0x40 :: u8) = (drop_bit 4 b AND drop_bit 4 0x0f) OR drop_bit 4 0x40"
    by (simp only: drop_bit_or drop_bit_and)
  then show ?thesis by simp
qed

lemma variant_nibble: "''0123456789abcdef'' ! unat (drop_bit 4 ((b AND 0x3f) OR 0x80 :: u8)) \<in> set ''89ab''"
proof -
  have "drop_bit 4 ((b AND 0x3f) OR 0x80 :: u8) = (drop_bit 4 b AND drop_bit 4 0x3f) OR drop_bit 4 0x80"
    by (simp only: drop_bit_or drop_bit_and)
  then have d: "drop_bit 4 ((b AND 0x3f) OR 0x80 :: u8) = (drop_bit 4 b AND 3) OR 8" by simp
  have "drop_bit 4 b AND 3 = take_bit 2 (drop_bit 4 b)" by (simp add: take_bit_eq_mask mask_eq_exp_minus_1)
  then have "unat (drop_bit 4 b AND 3) = unat (drop_bit 4 b) mod 4"
    by (simp only: unsigned_take_bit_eq) (simp add: take_bit_eq_mod)
  moreover have "(n::nat) mod 4 OR 8 \<in> {8, 9, 10, 11}" for n
  proof -
    have "n mod 4 = 0 \<or> n mod 4 = 1 \<or> n mod 4 = 2 \<or> n mod 4 = 3" by presburger
    then show ?thesis by (elim disjE) simp_all
  qed
  ultimately have "unat ((drop_bit 4 b AND 3) OR 8) \<in> {8, 9, 10, 11}"
    by (simp add: unsigned_or_eq)
  then show ?thesis unfolding d by (elim insertE) simp_all
qed

lemma length_16: "length bs = 16 \<Longrightarrow> \<exists>b0 b1 b2 b3 b4 b5 b6 b7 b8 b9 b10 b11 b12 b13 b14 b15.
    bs = [b0, b1, b2, b3, b4, b5, b6, b7, b8, b9, b10, b11, b12, b13, b14, b15]"
  by (simp add: numeral_eq_Suc length_Suc_conv) blast

lemma uuid_format:
  assumes "ls_secure_random_uuid w = (Some s, w')"
  shows "uuid_text s"
proof -
  from assms obtain bs where r: "random_bytes 16 w = (Some bs, w')"
    and s: "s = uuid_loop (bs[6 := (bs ! 6 AND 0x0f) OR 0x40, 8 := (bs[6 := (bs ! 6 AND 0x0f) OR 0x40] ! 8 AND 0x3f) OR 0x80]) []"
    by (auto simp: ls_secure_random_uuid_def ls_secure_random_bytes_def Let_def split: prod.splits option.splits)
  from length_16 [OF random_length [OF r]] obtain b0 b1 b2 b3 b4 b5 b6 b7 b8 b9 b10 b11 b12 b13 b14 b15
    where bs: "bs = [b0, b1, b2, b3, b4, b5, b6, b7, b8, b9, b10, b11, b12, b13, b14, b15]" by blast
  define hi where "hi b = ''0123456789abcdef'' ! unat (drop_bit 4 b)" for b :: u8
  define lo where "lo b = ''0123456789abcdef'' ! unat (b AND 0x0f)" for b :: u8
  have two: "two_digits ''0123456789abcdef'' b = [hi b, lo b]" for b
    by (simp add: two_digits_def hi_def lo_def)
  have mem: "hi b \<in> set ''0123456789abcdef''" "lo b \<in> set ''0123456789abcdef''" for b
    unfolding hi_def lo_def by (rule hex_digit_mem, rule nibbles)+
  define v where "v = (b6 AND 0x0f) OR 0x40"
  define x where "x = (b8 AND 0x3f) OR 0x80"
  have v: "hi v = CHR ''4''" unfolding hi_def v_def version_nibble by simp
  have x: "hi x \<in> set ''89ab''" unfolding hi_def x_def by (rule variant_nibble)
  have e: "s = [hi b0, lo b0, hi b1, lo b1, hi b2, lo b2, hi b3, lo b3] @ ''-'' @ [hi b4, lo b4, hi b5, lo b5] @
      ''-'' @ [hi v, lo v, hi b7, lo b7] @ ''-'' @ [hi x, lo x, hi b9, lo b9] @ ''-'' @
      [hi b10, lo b10, hi b11, lo b11, hi b12, lo b12, hi b13, lo b13, hi b14, lo b14, hi b15, lo b15]"
    unfolding s bs v_def x_def by (simp add: two)
  show ?thesis unfolding uuid_text_def
    by (intro exI conjI, rule e)
       (use mem v x in \<open>simp_all only: hex_group_def list.set set_simps insert_subset empty_subsetI list.size list.sel simp_thms\<close>; simp)+
qed

lemma hex_group_nul_free: "hex_group n s \<Longrightarrow> nul_free s"
  by (auto simp: hex_group_def nul_free_def)

lemma uuid_nul_free: "uuid_text s \<Longrightarrow> nul_free s \<and> length s = 36"
  using hex_group_nul_free by (auto simp: uuid_text_def) (auto simp: hex_group_def)

lemma uuid_frame: "ls_secure_random_uuid w = (r, w') \<Longrightarrow> w_fs w' = w_fs w \<and> w_io w' = w_io w"
  by (auto simp: ls_secure_random_uuid_def ls_secure_random_bytes_def Let_def
      split: prod.splits option.splits dest!: random_frame)

lemma uuid_net: "ls_secure_random_uuid w = (r, w') \<Longrightarrow> same_net w w'"
  by (auto simp: ls_secure_random_uuid_def ls_secure_random_bytes_def Let_def
      split: prod.splits option.splits dest!: card_net')

end
