(* ===== verification/Json_Object.thy ===== *)
theory Json_Object
  imports Json
begin

text \<open>
  The texts the writers of \<open>source/localsend_protocol.c\<close> produce, as a specification: an object is a
  list of members, each a key and the text of its value. The lemmas say how the reader moves over
  such a text: over one token, over a value it skips, and from one member to the next.
\<close>

definition json_member :: "string \<times> string \<Rightarrow> string" where
  "json_member m = json_text (fst m) @ '':'' @ snd m"

fun json_members :: "(string \<times> string) list \<Rightarrow> string" where
  "json_members [] = []"
| "json_members [m] = json_member m"
| "json_members (m # ms) = json_member m @ '','' @ json_members ms"

definition json_object :: "(string \<times> string) list \<Rightarrow> string" where
  "json_object ms = ''{'' @ json_members ms @ ''}''"

definition json_bool :: "bool \<Rightarrow> string" where
  "json_bool b = (if b then ''true'' else ''false'')"

lemma skip_whitespace_stop [simp]: "\<not> isspace c \<Longrightarrow> skip_whitespace (c # s) = c # s"
  by (simp add: skip_whitespace_def)

lemma skip_whitespace_Nil [simp]: "skip_whitespace [] = []"
  by (simp add: skip_whitespace_def)

lemma skip_whitespace_idem [simp]: "skip_whitespace (skip_whitespace s) = skip_whitespace s"
  by (simp add: skip_whitespace_def dropWhile_idem)

lemma not_isspace_marks [simp]:
  "\<not> isspace QUOTE" "\<not> isspace CHR ''{''" "\<not> isspace CHR ''}''" "\<not> isspace CHR '':''"
  "\<not> isspace CHR '',''" "\<not> isspace CHR ''t''" "\<not> isspace CHR ''f''" "\<not> isspace CHR ''n''"
  "\<not> isspace CHR '']''" "\<not> isspace CHR ''[''"
  by (simp_all add: isspace_def)

lemma take_char_stop [simp]: "\<not> isspace c \<Longrightarrow> take_char c (c # s) = Some s"
  by (simp add: take_char_def)

lemma isdigit_not_isspace: "isdigit c \<Longrightarrow> \<not> isspace c"
  by (auto simp: isdigit_def isspace_def)

lemma json_text_Cons: "json_text s @ t = QUOTE # json_chars s @ QUOTE # t"
  by (simp add: json_text_def)

lemma match_literal_text:
  "l = c # l' \<Longrightarrow> \<not> isspace c \<Longrightarrow> match_literal l (l @ rest) = Some rest"
  by (simp add: match_literal_def Let_def starts_with_def)

section \<open>Values the reader skips\<close>

text \<open>A value is followed by a comma or a closing bracket.\<close>

definition value_end :: "string \<Rightarrow> bool" where
  "value_end rest \<longleftrightarrow> (case rest of [] \<Rightarrow> True | c # _ \<Rightarrow> c = CHR '','' \<or> c = CHR ''}'' \<or> c = CHR '']'')"

lemma value_end_simps [simp]:
  "value_end []" "value_end (CHR '','' # s)" "value_end (CHR ''}'' # s)"
  by (simp_all add: value_end_def)

definition skippable :: "nat \<Rightarrow> string \<Rightarrow> bool" where
  "skippable depth v \<longleftrightarrow> (\<forall>rest. value_end rest \<longrightarrow> skip_value depth (v @ rest) = Some rest)"

definition json_key :: "string \<Rightarrow> bool" where
  "json_key s \<longleftrightarrow> valid_utf8 s \<and> nul_free s"

lemma skippable_text: "json_key s \<Longrightarrow> skippable depth (json_text s)"
  unfolding skippable_def
  by (subst skip_value.simps)
     (auto simp: json_text_Cons Let_def json_key_def parse_string_json_None [unfolded json_text_Cons])

lemma skippable_bool: "skippable depth (json_bool b)"
  unfolding skippable_def json_bool_def
  by (subst skip_value.simps) (simp add: Let_def match_literal_def starts_with_def)

lemma skippable_null: "skippable depth ''null''"
  unfolding skippable_def
  by (subst skip_value.simps) (simp add: Let_def match_literal_def starts_with_def)

lemma dropWhile_digits: "value_end rest \<Longrightarrow> \<forall>c \<in> set s. isdigit c \<Longrightarrow> dropWhile isdigit (s @ rest) = rest"
  by (cases rest) (auto simp: value_end_def isdigit_def)

lemma dec_Cons: obtains c s where "dec n = c # s" "isdigit c" "\<forall>c \<in> set s. isdigit c"
    "c = CHR ''0'' \<Longrightarrow> s = []"
proof -
  obtain c s where d: "dec n = c # s" by (cases "dec n") auto
  have "isdigit c" "\<forall>c \<in> set s. isdigit c" using dec_digits [of _ n] d by auto
  moreover have "s = []" if "c = CHR ''0''"
  proof (cases "n = 0")
    case True
    with d show ?thesis by (simp add: dec_small)
  next
    case False
    with dec_no_leading_zero [of n] d that show ?thesis by simp
  qed
  ultimately show thesis using that d by blast
qed

lemma skippable_dec: "skippable depth (dec n)"
  unfolding skippable_def
proof (intro allI impI)
  fix rest assume rest: "value_end rest"
  obtain c s where d: "dec n = c # s" "isdigit c" "\<forall>c \<in> set s. isdigit c" "c = CHR ''0'' \<Longrightarrow> s = []"
    by (rule dec_Cons [of n]) blast
  note ws = isdigit_not_isspace [OF d(2)]
  have nd: "c \<noteq> QUOTE" "c \<noteq> CHR ''{''" "c \<noteq> CHR ''[''" "c \<noteq> CHR ''t''" "c \<noteq> CHR ''f''" "c \<noteq> CHR ''n''"
    "c \<noteq> CHR ''-''"
    using d(2) by (auto simp: isdigit_def)
  have "skip_integer (c # s @ rest) = Some rest"
  proof (cases "c = CHR ''0''")
    case True
    with d(4) show ?thesis by (simp add: skip_integer_def)
  next
    case False
    then have "byte c \<noteq> 48" by (simp add: char_eq_byte_iff [of c] del: byte_inj)
    with False d(2,3) rest dropWhile_digits [OF rest d(3)] show ?thesis
      by (simp add: skip_integer_def skip_digits_def isdigit_def)
  qed
  moreover have "skip_fraction rest = Some rest" "skip_exponent rest = Some rest"
    using rest by (auto simp: skip_fraction_def skip_exponent_def value_end_def split: list.splits)
  ultimately show "skip_value depth (dec n @ rest) = Some rest"
    using ws nd by (subst skip_value.simps) (simp add: d(1) Let_def skip_number_def skip_sign_def)
qed

definition skippable_members :: "nat \<Rightarrow> (string \<times> string) list \<Rightarrow> bool" where
  "skippable_members depth ms \<longleftrightarrow> (\<forall>(k, v) \<in> set ms. json_key k \<and> skippable depth v)"

lemma json_members_rest:
  "json_members (m # ms) @ ''}'' @ rest =
     json_member m @ (if ms = [] then ''}'' @ rest else '','' @ json_members ms @ ''}'' @ rest)"
  by (cases ms) auto

lemma skip_members_json:
  "ms \<noteq> [] \<Longrightarrow> skippable_members depth ms \<Longrightarrow>
     skip_members depth (json_members ms @ ''}'' @ rest) = Some rest"
proof (induction ms)
  case (Cons m ms)
  obtain k v where m: "m = (k, v)" by (cases m)
  with Cons.prems have k: "json_key k" and v: "skippable depth v" by (auto simp: skippable_members_def)
  let ?tail = "if ms = [] then ''}'' @ rest else '','' @ json_members ms @ ''}'' @ rest"
  have "skip_value depth (v @ ?tail) = Some ?tail" using v by (auto simp: skippable_def)
  with k Cons m show ?case
    unfolding json_members_rest
    by (subst skip_members.simps)
       (auto simp: json_member_def json_key_def parse_string_json_None skippable_members_def)
qed simp

lemma json_members_head: "ms \<noteq> [] \<Longrightarrow> \<exists>t. json_members ms = QUOTE # t"
  by (cases ms rule: json_members.cases) (auto simp: json_member_def json_text_def)

lemma skippable_object:
  assumes "ms \<noteq> []" and "skippable_members (Suc depth) ms" and "depth < 8"
  shows "skippable depth (json_object ms)"
  unfolding skippable_def
proof (intro allI impI)
  fix rest assume "value_end rest"
  obtain t where t: "json_members ms = QUOTE # t" using json_members_head [OF assms(1)] by blast
  from skip_members_json [OF assms(1,2), of rest] assms(3)
  have "skip_object depth (json_object ms @ rest) = Some rest"
    by (subst skip_object.simps) (simp add: json_object_def t Let_def)
  then show "skip_value depth (json_object ms @ rest) = Some rest"
    by (subst skip_value.simps) (simp add: json_object_def Let_def)
qed

end
