(* ===== verification/Object_Reader.thy ===== *)
theory Object_Reader
  imports Json_Object
begin

text \<open>
  What the object loops of \<open>source/localsend_protocol.c\<close> share: the head and the tail of an iteration,
  the record of the fields already seen, and, as the locale \<open>object_reader\<close>, the loop itself. A loop
  that satisfies the locale's unfolding equation reads back what the writers wrote and keeps every
  invariant its value reader keeps. \<open>Inl\<close> is the error the C function returns.
\<close>

datatype LsParseResult =
  LS_PARSE_OK | LS_PARSE_INVALID_JSON | LS_PARSE_MISSING_FIELD | LS_PARSE_DUPLICATE_FIELD
| LS_PARSE_VALUE_TOO_LONG | LS_PARSE_INVALID_VALUE | LS_PARSE_UNSUPPORTED_VERSION
| LS_PARSE_TOO_MANY_FILES

definition ls_protocol_parse_result_string :: "LsParseResult \<Rightarrow> string" where
  "ls_protocol_parse_result_string result =
     (case result of
        LS_PARSE_OK \<Rightarrow> ''ok''
      | LS_PARSE_INVALID_JSON \<Rightarrow> ''invalid JSON''
      | LS_PARSE_MISSING_FIELD \<Rightarrow> ''missing required field''
      | LS_PARSE_DUPLICATE_FIELD \<Rightarrow> ''duplicate field''
      | LS_PARSE_VALUE_TOO_LONG \<Rightarrow> ''value too long''
      | LS_PARSE_INVALID_VALUE \<Rightarrow> ''invalid value''
      | LS_PARSE_UNSUPPORTED_VERSION \<Rightarrow> ''unsupported protocol version''
      | LS_PARSE_TOO_MANY_FILES \<Rightarrow> ''multiple files are not supported yet'')"

section \<open>What the object loops share\<close>

text \<open>
  The head and the tail of an iteration: \<open>parse_string(key)\<close> and \<open>take(':')\<close>; then, after the value,
  \<open>}\<close> (\<open>True\<close>: leave the loop) or a comma (\<open>False\<close>).
\<close>

definition member_key :: "nat \<Rightarrow> string \<Rightarrow> LsParseResult + string \<times> string" where
  "member_key capacity cursor =
     (case parse_string (Some capacity) cursor of
        Inl JSON_TOO_LONG \<Rightarrow> Inl LS_PARSE_VALUE_TOO_LONG
      | Inl JSON_INVALID \<Rightarrow> Inl LS_PARSE_INVALID_JSON
      | Inr (key, cursor) \<Rightarrow>
          (case take_char (CHR '':'') cursor of None \<Rightarrow> Inl LS_PARSE_INVALID_JSON
           | Some cursor \<Rightarrow> Inr (key, cursor)))"

definition member_end :: "string \<Rightarrow> LsParseResult + bool \<times> string" where
  "member_end cursor =
     (case skip_whitespace cursor of [] \<Rightarrow> Inl LS_PARSE_INVALID_JSON
      | c # rest \<Rightarrow>
          (if c = CHR ''}'' then Inr (True, rest)
           else if c \<noteq> CHR '','' then Inl LS_PARSE_INVALID_JSON
           else Inr (False, rest)))"

definition json_parse_result :: "json_error \<Rightarrow> LsParseResult" where
  "json_parse_result result =
     (case result of JSON_TOO_LONG \<Rightarrow> LS_PARSE_VALUE_TOO_LONG | JSON_INVALID \<Rightarrow> LS_PARSE_INVALID_VALUE)"

definition set_once :: "'f set \<Rightarrow> 'f \<Rightarrow> 'f set option" where
  "set_once seen field = (if field \<in> seen then None else Some (insert field seen))"

text \<open>\<open>if (field != 0 && !set_once(&fields, field))\<close>\<close>

definition note_field :: "'f set \<Rightarrow> 'f option \<Rightarrow> 'f set option" where
  "note_field seen field = (case field of None \<Rightarrow> Some seen | Some f \<Rightarrow> set_once seen f)"

text \<open>A successful reader moves forward; the loops terminate by these facts.\<close>

named_theorems consumed \<open>readers shorten the input\<close>

lemmas [consumed] = parse_string_length take_char_length skip_length match_literal_length
  skip_whitespace_Cons

lemma member_key_length [consumed]: "member_key n s = Inr (k, r) \<Longrightarrow> length r < length s"
  by (auto simp: member_key_def split: sum.splits json_error.splits option.splits dest!: consumed)

lemma member_end_length [consumed]: "member_end s = Inr (b, r) \<Longrightarrow> length r < length s"
  by (auto simp: member_end_def split: list.splits if_splits dest!: consumed)

section \<open>The loop\<close>

text \<open>
  \<open>field_of\<close> finds the field a key names, \<open>read_value\<close> reads its value into the result. \<open>reads\<close> says
  which result a list of written members gives.
\<close>

locale object_reader =
  fixes field_of :: "string \<Rightarrow> 'f option"
    and read_value :: "'f option \<Rightarrow> 'o \<Rightarrow> string \<Rightarrow> LsParseResult + 'o \<times> string"
    and read_loop :: "'f set \<Rightarrow> 'o \<Rightarrow> string \<Rightarrow> LsParseResult + 'f set \<times> 'o \<times> string"
  assumes loop_unfold: "read_loop seen out cursor =
      (case member_key 32 cursor of Inl e \<Rightarrow> Inl e
       | Inr (key, cursor1) \<Rightarrow>
           (case note_field seen (field_of key) of None \<Rightarrow> Inl LS_PARSE_DUPLICATE_FIELD
            | Some seen \<Rightarrow>
                (case read_value (field_of key) out cursor1 of Inl e \<Rightarrow> Inl e
                 | Inr (out, cursor2) \<Rightarrow>
                     (case member_end cursor2 of Inl e \<Rightarrow> Inl e
                      | Inr (closed, cursor3) \<Rightarrow>
                          (if closed then Inr (seen, out, cursor3) else read_loop seen out cursor3)))))"
    and value_length: "read_value field out cursor = Inr (out', rest) \<Longrightarrow> length rest \<le> length cursor"
begin

definition step :: "'f set \<Rightarrow> 'o \<Rightarrow> string \<times> string \<Rightarrow> 'f set \<Rightarrow> 'o \<Rightarrow> bool" where
  "step seen out m seen' out' \<longleftrightarrow>
     json_key (fst m) \<and> length (fst m) < 32 \<and> note_field seen (field_of (fst m)) = Some seen' \<and>
     (\<forall>rest. value_end rest \<longrightarrow> read_value (field_of (fst m)) out (snd m @ rest) = Inr (out', rest))"

inductive reads :: "'f set \<Rightarrow> 'o \<Rightarrow> (string \<times> string) list \<Rightarrow> 'f set \<Rightarrow> 'o \<Rightarrow> bool" where
  reads_Nil: "reads seen out [] seen out"
| reads_Cons: "step seen out m seen1 out1 \<Longrightarrow> reads seen1 out1 ms seen2 out2 \<Longrightarrow>
     reads seen out (m # ms) seen2 out2"

lemma reads_append:
  "reads seen out ms seen1 out1 \<Longrightarrow> reads seen1 out1 ns seen2 out2 \<Longrightarrow>
     reads seen out (ms @ ns) seen2 out2"
  by (induction rule: reads.induct) (auto intro: reads_Cons)

lemma loop_reads:
  "reads seen out ms seen' out' \<Longrightarrow> ms \<noteq> [] \<Longrightarrow>
     read_loop seen out (json_members ms @ ''}'' @ rest) = Inr (seen', out', rest)"
proof (induction rule: reads.induct)
  case (reads_Cons seen out m seen1 out1 ms seen2 out2)
  define tail where "tail = (if ms = [] then ''}'' @ rest else '','' @ json_members ms @ ''}'' @ rest)"
  have k: "member_key 32 (json_member m @ tail) = Inr (fst m, snd m @ tail)"
    using reads_Cons.hyps(1)
    by (simp add: member_key_def json_member_def step_def json_key_def parse_string_json_Some)
  have v: "read_value (field_of (fst m)) out (snd m @ tail) = Inr (out1, tail)"
    using reads_Cons.hyps(1) by (auto simp: step_def tail_def)
  have n: "note_field seen (field_of (fst m)) = Some seen1"
    using reads_Cons.hyps(1) by (simp add: step_def)
  have e: "member_end tail = (if ms = [] then Inr (True, rest) else Inr (False, json_members ms @ ''}'' @ rest))"
    by (simp add: member_end_def tail_def)
  have "json_members (m # ms) @ ''}'' @ rest = json_member m @ tail"
    unfolding tail_def by (rule json_members_rest)
  then have "read_loop seen out (json_members (m # ms) @ ''}'' @ rest) =
      (if ms = [] then Inr (seen1, out1, rest) else read_loop seen1 out1 (json_members ms @ ''}'' @ rest))"
    by (subst loop_unfold) (simp add: k v n e)
  with reads_Cons.IH reads_Cons.hyps(2) show ?case by (auto elim: reads.cases)
qed simp

lemma loop_invariant:
  assumes "read_loop seen out s = Inr (seen', out', rest)" and "P seen out"
    and "\<And>seen seen1 f out s out1 rest. P seen out \<Longrightarrow> note_field seen f = Some seen1 \<Longrightarrow>
      read_value f out s = Inr (out1, rest) \<Longrightarrow> P seen1 out1"
  shows "P seen' out'"
  using assms(1,2)
proof (induction "length s" arbitrary: seen out s rule: less_induct)
  case less
  from less.prems(1) obtain key c1 seen1 out1 c2 closed c3 where
    l: "member_key 32 s = Inr (key, c1)" "note_field seen (field_of key) = Some seen1"
      "read_value (field_of key) out c1 = Inr (out1, c2)" "member_end c2 = Inr (closed, c3)"
      "(if closed then Inr (seen1, out1, c3) else read_loop seen1 out1 c3) = Inr (seen', out', rest)"
    by (subst (asm) loop_unfold) (auto split: sum.splits option.splits)
  have P: "P seen1 out1" by (rule assms(3) [OF less.prems(2) l(2,3)])
  have "length c3 < length s"
    using member_key_length [OF l(1)] value_length [OF l(3)] member_end_length [OF l(4)] by simp
  with P l(5) less.hyps show ?case by (auto split: if_splits)
qed

lemma loop_duplicate:
  assumes "member_key 32 s = Inr (key, c)" and "field_of key = Some f" and "f \<in> seen"
  shows "read_loop seen out s = Inl LS_PARSE_DUPLICATE_FIELD"
  using assms by (subst loop_unfold) (simp add: note_field_def set_once_def)

end

end
