(* ===== verification/Protocol_Read.thy ===== *)
theory Protocol_Read
  imports Device Object_Reader
begin

text \<open>
  The message readers of \<open>source/localsend_protocol.c\<close>: the device announcement, the prepare-upload
  request and the prepare-upload response. \<open>Inl\<close> is the error the C function returns, \<open>Inr\<close> the
  filled \<open>out\<close> structure (for the inner readers with the remaining input). The \<open>fields\<close> bit set is a
  set of field names.
\<close>

section \<open>Scalar values\<close>

definition parse_bool :: "string \<Rightarrow> json_error + bool \<times> string" where
  "parse_bool cursor =
     (case match_literal ''true'' cursor of Some rest \<Rightarrow> Inr (True, rest)
      | None \<Rightarrow> (case match_literal ''false'' cursor of Some rest \<Rightarrow> Inr (False, rest)
                 | None \<Rightarrow> Inl JSON_INVALID))"

fun parse_port_loop :: "u32 \<Rightarrow> nat \<Rightarrow> string \<Rightarrow> (u32 \<times> nat \<times> string) option" where
  "parse_port_loop v digits [] = Some (v, digits, [])"
| "parse_port_loop v digits (c # cs) =
     (if isdigit c then
        (let v = v * 10 + of_nat (digit_val c) in
         if v > 65535 then None else parse_port_loop v (Suc digits) cs)
      else Some (v, digits, c # cs))"

definition parse_port :: "string \<Rightarrow> json_error + u16 \<times> string" where
  "parse_port cursor =
     (case parse_port_loop 0 0 (skip_whitespace cursor) of None \<Rightarrow> Inl JSON_INVALID
      | Some (v, digits, rest) \<Rightarrow>
          (if digits = 0 \<or> v = 0 then Inl JSON_INVALID else Inr (ucast v, rest)))"

definition parse_u64_integer :: "string \<Rightarrow> json_error + u64 \<times> string" where
  "parse_u64_integer cursor =
     (case skip_whitespace cursor of [] \<Rightarrow> Inl JSON_INVALID
      | c # cs \<Rightarrow>
          (if c = CHR ''0'' then
             (case cs of d # _ \<Rightarrow> (if isdigit d then Inl JSON_INVALID else Inr (0, cs))
              | [] \<Rightarrow> Inr (0, cs))
           else case dec_accum 0 0 (c # cs) of None \<Rightarrow> Inl JSON_INVALID
             | Some (parsed, digits, rest) \<Rightarrow>
                 (if digits = 0 then Inl JSON_INVALID else Inr (parsed, rest))))"

definition parse_device_type :: "string \<Rightarrow> LsDeviceType" where
  "parse_device_type v =
     (if v = ''mobile'' then LS_DEVICE_MOBILE
      else if v = ''web'' then LS_DEVICE_WEB
      else if v = ''headless'' then LS_DEVICE_HEADLESS
      else if v = ''server'' then LS_DEVICE_SERVER
      else LS_DEVICE_DESKTOP)"

fun display_text_loop :: "string \<Rightarrow> bool" where
  "display_text_loop [] = True"
| "display_text_loop (c # cs) =
     (if byte c < 0x20 \<or> byte c = 0x7f then False
      else if byte c = 0xc2 \<and> (case cs of [] \<Rightarrow> False | d # _ \<Rightarrow> 0x80 \<le> byte d \<and> byte d \<le> 0x9f) then False
      else display_text_loop cs)"

definition valid_network_display_text :: "string \<Rightarrow> bool \<Rightarrow> bool" where
  "valid_network_display_text v allow_empty =
     (if \<not> allow_empty \<and> v = [] then False else display_text_loop v)"

definition parse_version_component :: "string \<Rightarrow> (u32 \<times> string) option" where
  "parse_version_component cursor =
     (case cursor of [] \<Rightarrow> None
      | c # cs \<Rightarrow>
          (if \<not> isdigit c then None
           else if c = CHR ''0'' \<and> (case cs of [] \<Rightarrow> False | d # _ \<Rightarrow> isdigit d) then None
           else case dec_accum 0 0 cursor of None \<Rightarrow> None
             | Some (parsed, _, rest) \<Rightarrow> Some (parsed, rest)))"

definition compatible_protocol_version :: "string \<Rightarrow> bool" where
  "compatible_protocol_version v =
     (case parse_version_component v of None \<Rightarrow> False
      | Some (major, cursor) \<Rightarrow>
          (case cursor of [] \<Rightarrow> False
           | c # cursor \<Rightarrow>
               (if c \<noteq> CHR ''.'' then False
                else case parse_version_component cursor of None \<Rightarrow> False
                  | Some (minor, cursor) \<Rightarrow> (if cursor \<noteq> [] then False else major = 2))))"

definition valid_sha256 :: "string \<Rightarrow> bool" where
  "valid_sha256 v \<longleftrightarrow> length v = 64 \<and> list_all isxdigit v"

section \<open>Other values\<close>

definition skip_json :: "string \<Rightarrow> json_error + string" where
  "skip_json cursor = (case skip_value 0 cursor of None \<Rightarrow> Inl JSON_INVALID | Some rest \<Rightarrow> Inr rest)"

text \<open>A string or \<open>null\<close>, chosen by the first character.\<close>

definition parse_null_or :: "nat \<Rightarrow> string \<Rightarrow> json_error + string option \<times> string" where
  "parse_null_or capacity cursor =
     (let cursor = skip_whitespace cursor in
      if (case cursor of [] \<Rightarrow> False | c # _ \<Rightarrow> c = CHR ''n'') then
        (case match_literal ''null'' cursor of None \<Rightarrow> Inl JSON_INVALID | Some rest \<Rightarrow> Inr (None, rest))
      else case parse_string (Some capacity) cursor of Inl e \<Rightarrow> Inl e
        | Inr (v, rest) \<Rightarrow> Inr (Some v, rest))"

section \<open>The device\<close>

datatype device_field =
  FIELD_ALIAS | FIELD_VERSION | FIELD_MODEL | FIELD_TYPE | FIELD_FINGERPRINT | FIELD_PORT
| FIELD_PROTOCOL | FIELD_DOWNLOAD | FIELD_ANNOUNCE

definition device_field_of :: "string \<Rightarrow> device_field option" where
  "device_field_of key =
     (if key = ''alias'' then Some FIELD_ALIAS
      else if key = ''version'' then Some FIELD_VERSION
      else if key = ''deviceModel'' then Some FIELD_MODEL
      else if key = ''deviceType'' then Some FIELD_TYPE
      else if key = ''fingerprint'' then Some FIELD_FINGERPRINT
      else if key = ''port'' then Some FIELD_PORT
      else if key = ''protocol'' then Some FIELD_PROTOCOL
      else if key = ''download'' then Some FIELD_DOWNLOAD
      else if key = ''announce'' then Some FIELD_ANNOUNCE
      else None)"

text \<open>Store a parsed value, or pass the error on.\<close>

definition store :: "('v \<Rightarrow> 's) \<Rightarrow> json_error + 'v \<times> string \<Rightarrow> json_error + 's \<times> string" where
  "store f r = (case r of Inl e \<Rightarrow> Inl e | Inr (v, rest) \<Rightarrow> Inr (f v, rest))"

definition parse_protocol :: "string \<Rightarrow> json_error + LsProtocol \<times> string" where
  "parse_protocol cursor =
     (case parse_string (Some 8) cursor of Inl e \<Rightarrow> Inl e
      | Inr (text, rest) \<Rightarrow>
          (if text = ''http'' then Inr (LS_PROTOCOL_HTTP, rest)
           else if text = ''https'' then Inr (LS_PROTOCOL_HTTPS, rest)
           else Inl JSON_INVALID))"

definition parse_device_value ::
    "device_field option \<Rightarrow> LsDevice \<Rightarrow> string \<Rightarrow> json_error + LsDevice \<times> string" where
  "parse_device_value field out cursor =
     (case field of
        Some FIELD_ALIAS \<Rightarrow> store (\<lambda>v. out\<lparr>device_alias := v\<rparr>) (parse_string (Some LS3DS_ALIAS_CAPACITY) cursor)
      | Some FIELD_VERSION \<Rightarrow> store (\<lambda>v. out\<lparr>version := v\<rparr>) (parse_string (Some LS3DS_VERSION_CAPACITY) cursor)
      | Some FIELD_MODEL \<Rightarrow>
          store (\<lambda>v. case v of None \<Rightarrow> out | Some v \<Rightarrow> out\<lparr>device_model := v\<rparr>)
            (parse_null_or LS3DS_MODEL_CAPACITY cursor)
      | Some FIELD_TYPE \<Rightarrow>
          store (\<lambda>v. case v of None \<Rightarrow> out | Some v \<Rightarrow> out\<lparr>device_type := parse_device_type v\<rparr>)
            (parse_null_or 16 cursor)
      | Some FIELD_FINGERPRINT \<Rightarrow>
          store (\<lambda>v. out\<lparr>fingerprint := v\<rparr>) (parse_string (Some LS3DS_FINGERPRINT_CAPACITY) cursor)
      | Some FIELD_PORT \<Rightarrow> store (\<lambda>v. out\<lparr>port := v\<rparr>) (parse_port cursor)
      | Some FIELD_PROTOCOL \<Rightarrow> store (\<lambda>v. out\<lparr>protocol := v\<rparr>) (parse_protocol cursor)
      | Some FIELD_DOWNLOAD \<Rightarrow> store (\<lambda>v. out\<lparr>download := v\<rparr>) (parse_bool cursor)
      | Some FIELD_ANNOUNCE \<Rightarrow> store (\<lambda>v. out\<lparr>announce := v\<rparr>) (parse_bool cursor)
      | None \<Rightarrow> (case skip_json cursor of Inl e \<Rightarrow> Inl e | Inr rest \<Rightarrow> Inr (out, rest)))"

lemma parse_bool_length [consumed]: "parse_bool s = Inr (b, r) \<Longrightarrow> length r < length s"
  by (auto simp: parse_bool_def split: option.splits dest: match_literal_length)

lemma parse_port_loop_length: "parse_port_loop v k s = Some (v', k', r) \<Longrightarrow> length r \<le> length s"
  by (induction v k s rule: parse_port_loop.induct) (auto simp: Let_def split: if_splits)

lemma parse_port_length [consumed]: "parse_port s = Inr (v, r) \<Longrightarrow> length r \<le> length s"
  by (auto simp: parse_port_def split: option.splits if_splits
      dest!: parse_port_loop_length intro: order_trans [OF _ skip_whitespace_length])

lemma parse_u64_integer_length [consumed]: "parse_u64_integer s = Inr (v, r) \<Longrightarrow> length r \<le> length s"
  by (cases "skip_whitespace s")
     (auto simp: parse_u64_integer_def simp del: dec_accum.simps split: list.splits option.splits if_splits
      dest!: dec_accum_consumes skip_whitespace_Cons)

lemma skip_json_length [consumed]: "skip_json s = Inr r \<Longrightarrow> length r < length s"
  by (auto simp: skip_json_def split: option.splits dest: skip_length)

lemma parse_null_or_length [consumed]: "parse_null_or n s = Inr (v, r) \<Longrightarrow> length r < length s"
  using skip_whitespace_length [of s]
  by (auto simp: parse_null_or_def Let_def split: if_splits sum.splits option.splits
      dest!: parse_string_length match_literal_length)

lemma parse_protocol_length [consumed]: "parse_protocol s = Inr (v, r) \<Longrightarrow> length r < length s"
  by (auto simp: parse_protocol_def split: sum.splits if_splits dest: parse_string_length)

lemma store_Inr: "store f r = Inr (w, rest) \<longleftrightarrow> (\<exists>v. r = Inr (v, rest) \<and> w = f v)"
  by (auto simp: store_def split: sum.splits)

lemma parse_device_value_length [consumed]:
  "parse_device_value field out s = Inr (out', r) \<Longrightarrow> length r \<le> length s"
  by (auto simp: parse_device_value_def store_Inr split: option.splits device_field.splits sum.splits
      dest!: consumed)

function parse_device_loop ::
    "device_field set \<Rightarrow> LsDevice \<Rightarrow> string \<Rightarrow> LsParseResult + device_field set \<times> LsDevice \<times> string" where
  "parse_device_loop seen out cursor =
     (case member_key 32 cursor of Inl e \<Rightarrow> Inl e
      | Inr (key, cursor1) \<Rightarrow>
          (let field = device_field_of key in
           case note_field seen field of None \<Rightarrow> Inl LS_PARSE_DUPLICATE_FIELD
           | Some seen \<Rightarrow>
               (case parse_device_value field out cursor1 of
                  Inl e \<Rightarrow> Inl (json_parse_result e)
                | Inr (out, cursor2) \<Rightarrow>
                    (case member_end cursor2 of Inl e \<Rightarrow> Inl e
                     | Inr (closed, cursor3) \<Rightarrow>
                         (if closed then Inr (seen, out, cursor3)
                          else parse_device_loop seen out cursor3)))))"
  by pat_completeness auto
termination
  by (relation "measure (\<lambda>(seen, out, s). length s)")
     (auto dest!: member_key_length parse_device_value_length member_end_length)

declare parse_device_loop.simps [simp del]

definition ls_protocol_parse_device :: "string \<Rightarrow> string option \<Rightarrow> LsParseResult + LsDevice" where
  "ls_protocol_parse_device json source_ip =
     (if json = [] then Inl LS_PARSE_INVALID_JSON
      else case take_char (CHR ''{'') json of None \<Rightarrow> Inl LS_PARSE_INVALID_JSON
        | Some cursor \<Rightarrow>
            (let cursor = skip_whitespace cursor in
             if starts_with ''}'' cursor then Inl LS_PARSE_MISSING_FIELD
             else case parse_device_loop {} (zero_device\<lparr>device_type := LS_DEVICE_DESKTOP\<rparr>) cursor of
                 Inl e \<Rightarrow> Inl e
               | Inr (seen, out, cursor) \<Rightarrow>
                   (if skip_whitespace cursor \<noteq> [] then Inl LS_PARSE_INVALID_JSON
                    else if \<not> {FIELD_ALIAS, FIELD_VERSION, FIELD_FINGERPRINT, FIELD_PORT, FIELD_PROTOCOL} \<subseteq> seen
                      \<or> device_alias out = [] \<or> fingerprint out = [] then Inl LS_PARSE_MISSING_FIELD
                    else if \<not> valid_network_display_text (device_alias out) False \<or>
                      \<not> valid_network_display_text (device_model out) True then Inl LS_PARSE_INVALID_VALUE
                    else if \<not> compatible_protocol_version (version out) then Inl LS_PARSE_UNSUPPORTED_VERSION
                    else case source_ip of None \<Rightarrow> Inr out
                      | Some ip \<Rightarrow> (if length ip \<ge> LS3DS_IPV4_CAPACITY then Inl LS_PARSE_INVALID_VALUE
                                   else Inr (out\<lparr>ip_address := ip\<rparr>)))))"

section \<open>The file metadata\<close>

record LsIncomingFileMetadata =
  file_id :: string
  file_name :: string
  file_size :: u64
  file_type :: string
  has_sha256 :: bool
  file_sha256 :: string

definition zero_file :: LsIncomingFileMetadata where
  "zero_file =
     \<lparr>file_id = [], file_name = [], file_size = 0, file_type = [], has_sha256 = False, file_sha256 = []\<rparr>"

datatype file_field = FILE_FIELD_ID | FILE_FIELD_NAME | FILE_FIELD_SIZE | FILE_FIELD_TYPE | FILE_FIELD_SHA256

definition file_field_of :: "string \<Rightarrow> file_field option" where
  "file_field_of key =
     (if key = ''id'' then Some FILE_FIELD_ID
      else if key = ''fileName'' then Some FILE_FIELD_NAME
      else if key = ''size'' then Some FILE_FIELD_SIZE
      else if key = ''fileType'' then Some FILE_FIELD_TYPE
      else if key = ''sha256'' then Some FILE_FIELD_SHA256
      else None)"

text \<open>A parsed value that fails a further check is \<open>JSON_INVALID\<close>.\<close>

definition require :: "('v \<Rightarrow> bool) \<Rightarrow> json_error + 'v \<times> string \<Rightarrow> json_error + 'v \<times> string" where
  "require P r = (case r of Inl e \<Rightarrow> Inl e
     | Inr (v, rest) \<Rightarrow> (if P v then Inr (v, rest) else Inl JSON_INVALID))"

definition parse_file_value ::
    "file_field option \<Rightarrow> LsIncomingFileMetadata \<Rightarrow> string \<Rightarrow>
     json_error + LsIncomingFileMetadata \<times> string" where
  "parse_file_value field out cursor =
     (case field of
        Some FILE_FIELD_ID \<Rightarrow> store (\<lambda>v. out\<lparr>file_id := v\<rparr>) (parse_string (Some LS3DS_FILE_ID_CAPACITY) cursor)
      | Some FILE_FIELD_NAME \<Rightarrow>
          store (\<lambda>v. out\<lparr>file_name := v\<rparr>)
            (require (\<lambda>v. valid_network_display_text v True)
               (parse_string (Some LS3DS_FILENAME_CAPACITY) cursor))
      | Some FILE_FIELD_SIZE \<Rightarrow> store (\<lambda>v. out\<lparr>file_size := v\<rparr>) (parse_u64_integer cursor)
      | Some FILE_FIELD_TYPE \<Rightarrow>
          store (\<lambda>v. out\<lparr>file_type := v\<rparr>) (parse_string (Some LS3DS_FILE_TYPE_CAPACITY) cursor)
      | Some FILE_FIELD_SHA256 \<Rightarrow>
          store (\<lambda>v. case v of None \<Rightarrow> out
                    | Some v \<Rightarrow> out\<lparr>file_sha256 := map tolower v, has_sha256 := True\<rparr>)
            (require (\<lambda>v. case v of None \<Rightarrow> True | Some v \<Rightarrow> valid_sha256 v)
               (parse_null_or LS3DS_SHA256_CAPACITY cursor))
      | None \<Rightarrow> (case skip_json cursor of Inl e \<Rightarrow> Inl e | Inr rest \<Rightarrow> Inr (out, rest)))"

lemma require_Inr: "require P r = Inr (v, rest) \<longleftrightarrow> r = Inr (v, rest) \<and> P v"
  by (auto simp: require_def split: sum.splits)

lemma parse_file_value_length [consumed]:
  "parse_file_value field out s = Inr (out', r) \<Longrightarrow> length r \<le> length s"
  by (auto simp: parse_file_value_def store_Inr require_Inr
      split: option.splits file_field.splits sum.splits dest!: consumed)

function parse_file_loop ::
    "file_field set \<Rightarrow> LsIncomingFileMetadata \<Rightarrow> string \<Rightarrow>
     LsParseResult + file_field set \<times> LsIncomingFileMetadata \<times> string" where
  "parse_file_loop seen out cursor =
     (case member_key 32 cursor of Inl e \<Rightarrow> Inl e
      | Inr (key, cursor1) \<Rightarrow>
          (let field = file_field_of key in
           case note_field seen field of None \<Rightarrow> Inl LS_PARSE_DUPLICATE_FIELD
           | Some seen \<Rightarrow>
               (case parse_file_value field out cursor1 of
                  Inl e \<Rightarrow> Inl (json_parse_result e)
                | Inr (out, cursor2) \<Rightarrow>
                    (case member_end cursor2 of Inl e \<Rightarrow> Inl e
                     | Inr (closed, cursor3) \<Rightarrow>
                         (if closed then Inr (seen, out, cursor3)
                          else parse_file_loop seen out cursor3)))))"
  by pat_completeness auto
termination
  by (relation "measure (\<lambda>(seen, out, s). length s)")
     (auto dest!: member_key_length parse_file_value_length member_end_length)

declare parse_file_loop.simps [simp del]

definition parse_file_object :: "string \<Rightarrow> LsParseResult + LsIncomingFileMetadata \<times> string" where
  "parse_file_object cursor =
     (case take_char (CHR ''{'') cursor of None \<Rightarrow> Inl LS_PARSE_INVALID_JSON
      | Some cursor \<Rightarrow>
          (let cursor = skip_whitespace cursor in
           if starts_with ''}'' cursor then Inl LS_PARSE_MISSING_FIELD
           else case parse_file_loop {} zero_file cursor of Inl e \<Rightarrow> Inl e
             | Inr (seen, out, cursor) \<Rightarrow>
                 (if \<not> {FILE_FIELD_ID, FILE_FIELD_NAME, FILE_FIELD_SIZE, FILE_FIELD_TYPE} \<subseteq> seen \<or>
                     file_id out = [] \<or> file_name out = [] then Inl LS_PARSE_MISSING_FIELD
                  else Inr (out, cursor))))"

definition parse_single_file_map :: "string \<Rightarrow> LsParseResult + LsIncomingFileMetadata \<times> string" where
  "parse_single_file_map cursor =
     (case take_char (CHR ''{'') cursor of None \<Rightarrow> Inl LS_PARSE_INVALID_JSON
      | Some cursor \<Rightarrow>
          (let cursor = skip_whitespace cursor in
           if starts_with ''}'' cursor then Inl LS_PARSE_MISSING_FIELD
           else case member_key LS3DS_FILE_ID_CAPACITY cursor of Inl e \<Rightarrow> Inl e
             | Inr (map_id, cursor) \<Rightarrow>
                 (case parse_file_object cursor of Inl e \<Rightarrow> Inl e
                  | Inr (file, cursor) \<Rightarrow>
                      (if map_id \<noteq> file_id file then Inl LS_PARSE_INVALID_VALUE
                       else case skip_whitespace cursor of [] \<Rightarrow> Inl LS_PARSE_INVALID_JSON
                         | c # rest \<Rightarrow>
                             (if c = CHR '','' then Inl LS_PARSE_TOO_MANY_FILES
                              else if c \<noteq> CHR ''}'' then Inl LS_PARSE_INVALID_JSON
                              else Inr (file, rest))))))"

section \<open>The prepare-upload request\<close>

record LsPrepareUploadRequest =
  request_sender :: LsDevice
  request_file :: LsIncomingFileMetadata

datatype prepare_field = PREPARE_FIELD_INFO | PREPARE_FIELD_FILES

definition prepare_field_of :: "string \<Rightarrow> prepare_field option" where
  "prepare_field_of key =
     (if key = ''info'' then Some PREPARE_FIELD_INFO
      else if key = ''files'' then Some PREPARE_FIELD_FILES
      else None)"

definition parse_prepare_value ::
    "string option \<Rightarrow> prepare_field option \<Rightarrow> LsPrepareUploadRequest \<Rightarrow> string \<Rightarrow>
     LsParseResult + LsPrepareUploadRequest \<times> string" where
  "parse_prepare_value source_ip field out cursor =
     (case field of
        Some PREPARE_FIELD_INFO \<Rightarrow>
          (let start = skip_whitespace cursor in
           case skip_value 0 start of None \<Rightarrow> Inl LS_PARSE_INVALID_JSON
           | Some rest \<Rightarrow>
               (case ls_protocol_parse_device (take (length start - length rest) start) source_ip of
                  Inl e \<Rightarrow> Inl e
                | Inr sender \<Rightarrow> Inr (out\<lparr>request_sender := sender\<rparr>, rest)))
      | Some PREPARE_FIELD_FILES \<Rightarrow>
          (case parse_single_file_map cursor of Inl e \<Rightarrow> Inl e
           | Inr (file, rest) \<Rightarrow> Inr (out\<lparr>request_file := file\<rparr>, rest))
      | None \<Rightarrow>
          (case skip_value 0 cursor of None \<Rightarrow> Inl LS_PARSE_INVALID_JSON
           | Some rest \<Rightarrow> Inr (out, rest)))"

lemma take_skip_length: "take_char c s = Some t \<Longrightarrow> length (skip_whitespace t) < length s"
  using skip_whitespace_length [of t] take_char_length [of c s t] by simp

lemma parse_file_loop_length [consumed]:
  "parse_file_loop seen out s = Inr (seen', out', r) \<Longrightarrow> length r < length s"
proof (induction "length s" arbitrary: seen out s rule: less_induct)
  case less
  have IH: "parse_file_loop a b t = Inr (seen', out', r) \<Longrightarrow> length t < length s \<Longrightarrow> length r < length s"
    for a b t using less.hyps [of t a b] by simp
  from less.prems show ?case
    by (subst (asm) parse_file_loop.simps)
       (auto simp: Let_def split: sum.splits option.splits if_splits
         dest!: IH member_key_length parse_file_value_length member_end_length)
qed

lemma parse_file_object_length [consumed]: "parse_file_object s = Inr (f, r) \<Longrightarrow> length r < length s"
  by (auto simp: parse_file_object_def Let_def split: option.splits sum.splits if_splits
      dest!: take_skip_length parse_file_loop_length)

lemma parse_single_file_map_length [consumed]:
  "parse_single_file_map s = Inr (f, r) \<Longrightarrow> length r < length s"
  by (auto simp: parse_single_file_map_def Let_def split: option.splits sum.splits if_splits list.splits
      dest!: take_skip_length member_key_length parse_file_object_length skip_whitespace_Cons)

lemma parse_prepare_value_length [consumed]:
  "parse_prepare_value ip field out s = Inr (out', r) \<Longrightarrow> length r < length s"
  using skip_whitespace_length [of s]
  by (auto simp: parse_prepare_value_def Let_def split: option.splits sum.splits prepare_field.splits
      dest!: skip_length parse_single_file_map_length)

function parse_prepare_loop ::
    "string option \<Rightarrow> prepare_field set \<Rightarrow> LsPrepareUploadRequest \<Rightarrow> string \<Rightarrow>
     LsParseResult + prepare_field set \<times> LsPrepareUploadRequest \<times> string" where
  "parse_prepare_loop source_ip seen out cursor =
     (case member_key 32 cursor of Inl e \<Rightarrow> Inl e
      | Inr (key, cursor1) \<Rightarrow>
          (let field = prepare_field_of key in
           case note_field seen field of None \<Rightarrow> Inl LS_PARSE_DUPLICATE_FIELD
           | Some seen \<Rightarrow>
               (case parse_prepare_value source_ip field out cursor1 of Inl e \<Rightarrow> Inl e
                | Inr (out, cursor2) \<Rightarrow>
                    (case member_end cursor2 of Inl e \<Rightarrow> Inl e
                     | Inr (closed, cursor3) \<Rightarrow>
                         (if closed then Inr (seen, out, cursor3)
                          else parse_prepare_loop source_ip seen out cursor3)))))"
  by pat_completeness auto
termination
  by (relation "measure (\<lambda>(ip, seen, out, s). length s)")
     (auto dest!: member_key_length parse_prepare_value_length member_end_length)

declare parse_prepare_loop.simps [simp del]

definition ls_protocol_parse_prepare_upload ::
    "string \<Rightarrow> string option \<Rightarrow> LsParseResult + LsPrepareUploadRequest" where
  "ls_protocol_parse_prepare_upload json source_ip =
     (if json = [] then Inl LS_PARSE_INVALID_JSON
      else case take_char (CHR ''{'') json of None \<Rightarrow> Inl LS_PARSE_INVALID_JSON
        | Some cursor \<Rightarrow>
            (let cursor = skip_whitespace cursor in
             if starts_with ''}'' cursor then Inl LS_PARSE_MISSING_FIELD
             else case parse_prepare_loop source_ip {}
                      \<lparr>request_sender = zero_device, request_file = zero_file\<rparr> cursor of
                 Inl e \<Rightarrow> Inl e
               | Inr (seen, out, cursor) \<Rightarrow>
                   (if skip_whitespace cursor \<noteq> [] then Inl LS_PARSE_INVALID_JSON
                    else if \<not> {PREPARE_FIELD_INFO, PREPARE_FIELD_FILES} \<subseteq> seen then Inl LS_PARSE_MISSING_FIELD
                    else Inr out)))"

section \<open>The prepare-upload response\<close>

record LsPrepareUploadResponse =
  response_session_id :: string
  response_file_token :: string

function parse_response_files_loop ::
    "string \<Rightarrow> bool \<Rightarrow> string \<Rightarrow> string \<Rightarrow> LsParseResult + bool \<times> string \<times> string" where
  "parse_response_files_loop expected_file_id found token cursor =
     (case member_key LS3DS_FILE_ID_CAPACITY cursor of Inl e \<Rightarrow> Inl e
      | Inr (id1, cursor1) \<Rightarrow>
          (if id1 \<noteq> expected_file_id \<or> found then Inl LS_PARSE_INVALID_VALUE
           else case parse_string (Some LS3DS_FILE_TOKEN_CAPACITY) cursor1 of
               Inl e \<Rightarrow> Inl (json_parse_result e)
             | Inr (token, cursor2) \<Rightarrow>
                 (if token = [] then Inl LS_PARSE_MISSING_FIELD
                  else case member_end cursor2 of Inl e \<Rightarrow> Inl e
                    | Inr (closed, cursor3) \<Rightarrow>
                        (if closed then Inr (True, token, cursor3)
                         else parse_response_files_loop expected_file_id True token cursor3))))"
  by pat_completeness auto
termination
  by (relation "measure (\<lambda>(e, f, t, s). length s)")
     (auto dest!: member_key_length parse_string_length member_end_length)

declare parse_response_files_loop.simps [simp del]

definition parse_response_files :: "string \<Rightarrow> string \<Rightarrow> LsParseResult + string \<times> string" where
  "parse_response_files expected_file_id cursor =
     (case take_char (CHR ''{'') cursor of None \<Rightarrow> Inl LS_PARSE_INVALID_JSON
      | Some cursor \<Rightarrow>
          (let cursor = skip_whitespace cursor in
           if starts_with ''}'' cursor then Inl LS_PARSE_MISSING_FIELD
           else case parse_response_files_loop expected_file_id False [] cursor of Inl e \<Rightarrow> Inl e
             | Inr (found, token, rest) \<Rightarrow>
                 (if found then Inr (token, rest) else Inl LS_PARSE_MISSING_FIELD)))"

datatype response_field = RESPONSE_SESSION | RESPONSE_FILES

definition response_field_of :: "string \<Rightarrow> response_field option" where
  "response_field_of key =
     (if key = ''sessionId'' then Some RESPONSE_SESSION
      else if key = ''files'' then Some RESPONSE_FILES
      else None)"

definition parse_response_value ::
    "string \<Rightarrow> response_field option \<Rightarrow> LsPrepareUploadResponse \<Rightarrow> string \<Rightarrow>
     LsParseResult + LsPrepareUploadResponse \<times> string" where
  "parse_response_value expected_file_id field out cursor =
     (case field of
        Some RESPONSE_SESSION \<Rightarrow>
          (case parse_string (Some LS3DS_SESSION_ID_CAPACITY) cursor of
             Inl e \<Rightarrow> Inl (json_parse_result e)
           | Inr (v, rest) \<Rightarrow> (if v = [] then Inl LS_PARSE_MISSING_FIELD
                              else Inr (out\<lparr>response_session_id := v\<rparr>, rest)))
      | Some RESPONSE_FILES \<Rightarrow>
          (case parse_response_files expected_file_id cursor of Inl e \<Rightarrow> Inl e
           | Inr (token, rest) \<Rightarrow> Inr (out\<lparr>response_file_token := token\<rparr>, rest))
      | None \<Rightarrow>
          (case skip_value 0 cursor of None \<Rightarrow> Inl LS_PARSE_INVALID_JSON
           | Some rest \<Rightarrow> Inr (out, rest)))"

lemma parse_response_files_loop_length [consumed]:
  "parse_response_files_loop e f t s = Inr (f', t', r) \<Longrightarrow> length r < length s"
proof (induction "length s" arbitrary: f t s rule: less_induct)
  case less
  have IH: "parse_response_files_loop e a b u = Inr (f', t', r) \<Longrightarrow> length u < length s \<Longrightarrow>
      length r < length s" for a b u using less.hyps [of u a b] by simp
  from less.prems show ?case
    by (subst (asm) parse_response_files_loop.simps)
       (auto split: sum.splits if_splits dest!: IH member_key_length parse_string_length member_end_length)
qed

lemma parse_response_value_length [consumed]:
  "parse_response_value e field out s = Inr (out', r) \<Longrightarrow> length r < length s"
  by (auto simp: parse_response_value_def parse_response_files_def Let_def
      split: option.splits sum.splits response_field.splits if_splits
      dest!: skip_length parse_string_length take_skip_length parse_response_files_loop_length)

text \<open>This loop also accepts the closing brace in place of a key.\<close>

function parse_response_loop ::
    "string \<Rightarrow> response_field set \<Rightarrow> LsPrepareUploadResponse \<Rightarrow> string \<Rightarrow>
     LsParseResult + response_field set \<times> LsPrepareUploadResponse \<times> string" where
  "parse_response_loop expected_file_id seen out cursor =
     (let cursor0 = skip_whitespace cursor in
      if starts_with ''}'' cursor0 then Inr (seen, out, drop 1 cursor0)
      else case member_key 32 cursor0 of Inl e \<Rightarrow> Inl e
      | Inr (key, cursor1) \<Rightarrow>
          (let field = response_field_of key in
           case note_field seen field of None \<Rightarrow> Inl LS_PARSE_DUPLICATE_FIELD
           | Some seen \<Rightarrow>
               (case parse_response_value expected_file_id field out cursor1 of Inl e \<Rightarrow> Inl e
                | Inr (out, cursor2) \<Rightarrow>
                    (case member_end cursor2 of Inl e \<Rightarrow> Inl e
                     | Inr (closed, cursor3) \<Rightarrow>
                         (if closed then Inr (seen, out, cursor3)
                          else parse_response_loop expected_file_id seen out cursor3)))))"
  by pat_completeness auto
termination
  by (relation "measure (\<lambda>(e, seen, out, s). length s)")
     (auto dest!: member_key_length parse_response_value_length member_end_length
       intro: order_less_le_trans [OF _ skip_whitespace_length])

declare parse_response_loop.simps [simp del]

definition ls_protocol_parse_prepare_upload_response ::
    "string \<Rightarrow> string \<Rightarrow> LsParseResult + LsPrepareUploadResponse" where
  "ls_protocol_parse_prepare_upload_response json expected_file_id =
     (if json = [] \<or> expected_file_id = [] then Inl LS_PARSE_INVALID_JSON
      else case take_char (CHR ''{'') json of None \<Rightarrow> Inl LS_PARSE_INVALID_JSON
        | Some cursor \<Rightarrow>
            (case parse_response_loop expected_file_id {}
                    \<lparr>response_session_id = [], response_file_token = []\<rparr> cursor of
               Inl e \<Rightarrow> Inl e
             | Inr (seen, out, cursor) \<Rightarrow>
                 (if skip_whitespace cursor \<noteq> [] then Inl LS_PARSE_INVALID_JSON
                  else if \<not> {RESPONSE_SESSION, RESPONSE_FILES} \<subseteq> seen then Inl LS_PARSE_MISSING_FIELD
                  else Inr out)))"

section \<open>The loops are object readers\<close>

definition lift_json :: "json_error + 'a \<Rightarrow> LsParseResult + 'a" where
  "lift_json r = (case r of Inl e \<Rightarrow> Inl (json_parse_result e) | Inr v \<Rightarrow> Inr v)"

lemma lift_json_simps [simp]:
  "lift_json (Inl e) = Inl (json_parse_result e)" "lift_json (Inr v) = Inr v"
  "lift_json r = Inr v \<longleftrightarrow> r = Inr v"
  by (auto simp: lift_json_def split: sum.splits)

interpretation device_reader: object_reader device_field_of
    "\<lambda>f out s. lift_json (parse_device_value f out s)" parse_device_loop
  by unfold_locales
     (subst parse_device_loop.simps, auto simp: Let_def lift_json_def split: sum.splits option.splits
       dest: parse_device_value_length)

interpretation file_reader: object_reader file_field_of
    "\<lambda>f out s. lift_json (parse_file_value f out s)" parse_file_loop
  by unfold_locales
     (subst parse_file_loop.simps, auto simp: Let_def lift_json_def split: sum.splits option.splits
       dest: parse_file_value_length)

interpretation prepare_reader: object_reader prepare_field_of
    "parse_prepare_value source_ip" "parse_prepare_loop source_ip" for source_ip
  by unfold_locales
     (subst parse_prepare_loop.simps, auto simp: Let_def split: sum.splits option.splits
       dest: parse_prepare_value_length)

section \<open>Reading back written values\<close>

named_theorems read_back \<open>values read back from their text\<close>

declare parse_string_field [read_back]

lemma parse_null_or_text [read_back]:
  "text_field n s \<Longrightarrow> parse_null_or n (json_text s @ rest) = Inr (Some s, rest)"
  using parse_string_field [of n s rest] by (simp add: parse_null_or_def json_text_Cons)

lemma parse_null_or_null [read_back]: "parse_null_or n (''null'' @ rest) = Inr (None, rest)"
  by (simp add: parse_null_or_def match_literal_def starts_with_def)

lemma parse_bool_text [read_back]: "parse_bool (json_bool b @ rest) = Inr (b, rest)"
  by (simp add: parse_bool_def json_bool_def match_literal_def starts_with_def)

lemma parse_protocol_text [read_back]:
  "parse_protocol (json_text (if https then ''https'' else ''http'') @ rest) =
     Inr (if https then LS_PROTOCOL_HTTPS else LS_PROTOCOL_HTTP, rest)"
proof -
  have "text_field 8 ''http''" "text_field 8 ''https''" by (simp_all add: text_field_def)
  then show ?thesis by (simp add: parse_protocol_def parse_string_field)
qed

lemma value_end_not_digit: "value_end rest \<Longrightarrow> rest = [] \<or> \<not> isdigit (hd rest)"
  by (cases rest) (auto simp: value_end_def isdigit_def)

lemma parse_u64_integer_text [read_back]:
  assumes "value_end rest"
  shows "parse_u64_integer (dec (unat v) @ rest) = Inr (v, rest)"
proof -
  obtain c s where d: "dec (unat v) = c # s" "isdigit c" "\<forall>c \<in> set s. isdigit c" "c = CHR ''0'' \<Longrightarrow> s = []"
    by (rule dec_Cons [of "unat v"]) blast
  note acc = dec_accum_dec [of rest v, OF value_end_not_digit [OF assms]]
  have ws: "skip_whitespace (dec (unat v) @ rest) = c # s @ rest"
    using isdigit_not_isspace [OF d(2)] d(1) by simp
  show ?thesis
  proof (cases "c = CHR ''0''")
    case True
    with d have "dec (unat v) = dec 0" by (simp add: dec_small digit_char_def)
    then have "v = 0" by (simp only: dec_inject) (simp add: unat_eq_0)
    with True d ws value_end_not_digit [OF assms] show ?thesis
      by (auto simp: parse_u64_integer_def split: list.splits)
  next
    case False
    with ws acc d(1) show ?thesis by (simp add: parse_u64_integer_def del: dec_accum.simps)
  qed
qed

lemma parse_port_loop_digits:
  assumes "\<forall>c \<in> set ds. isdigit c" and "rest = [] \<or> \<not> isdigit (hd rest)"
    and "dec_value (unat v) ds < 2 ^ 16"
  shows "parse_port_loop v k (ds @ rest) = Some (of_nat (dec_value (unat v) ds), k + length ds, rest)"
  using assms(1,3)
proof (induction ds arbitrary: v k)
  case Nil
  show ?case using assms(2) by (cases rest) auto
next
  case (Cons c ds)
  let ?d = "digit_val c"
  have "10 * unat v + ?d < 2 ^ 16"
    using Cons.prems(2) dec_value_ge [of "10 * unat v + ?d" ds] by simp
  moreover from this have "unat (v * 10 + of_nat ?d) = 10 * unat v + ?d"
    using overflow_check(2) [of ?d v] isdigit_val_less [of c] Cons.prems(1) by simp
  ultimately show ?case using Cons.IH [of "v * 10 + of_nat ?d" "Suc k"] Cons.prems
    by (simp add: Let_def word_less_nat_alt)
qed

lemma parse_port_text [read_back]:
  assumes "value_end rest" and "p \<noteq> 0"
  shows "parse_port (dec (unat p) @ rest) = Inr (p, rest)"
proof -
  obtain c s where d: "dec (unat p) = c # s" "isdigit c"
    by (rule dec_Cons [of "unat p"]) blast
  have ws: "skip_whitespace (dec (unat p) @ rest) = dec (unat p) @ rest"
    using isdigit_not_isspace [OF d(2)] d(1) by simp
  have lt: "unat p < 2 ^ 16" using unsigned_less [of p] by simp
  have "parse_port_loop 0 0 (dec (unat p) @ rest) = Some (of_nat (unat p), length (dec (unat p)), rest)"
    using parse_port_loop_digits [of "dec (unat p)" rest 0 0] value_end_not_digit [OF assms(1)] lt dec_digits
    by auto
  moreover have "of_nat (unat p) \<noteq> (0 :: u32)" "ucast (of_nat (unat p) :: u32) = p"
    using assms(2) lt by (auto simp: word_unat_eq_iff unsigned_ucast_eq take_bit_nat_eq_self take_bit_word_eq_self)
  ultimately show ?thesis by (simp add: parse_port_def ws)
qed

section \<open>What a successful read guarantees\<close>

text \<open>A version the program accepts: \<open>2.\<close> and a minor number without leading zero that fits 32 bits.\<close>

definition device_message_wf :: "LsDevice \<Rightarrow> bool" where
  "device_message_wf d \<longleftrightarrow>
     device_wf d \<and> device_alias d \<noteq> [] \<and> fingerprint d \<noteq> [] \<and> port d \<noteq> 0 \<and>
     display_text_loop (device_alias d) \<and> display_text_loop (device_model d) \<and>
     compatible_protocol_version (version d)"

lemma parse_port_nonzero: "parse_port s = Inr (v, r) \<Longrightarrow> v \<noteq> 0"
proof -
  have bound: "parse_port_loop v k s = Some (v', k', r) \<Longrightarrow> v \<le> 65535 \<Longrightarrow> v' \<le> 65535" for v k s v' k' r
    by (induction v k s rule: parse_port_loop.induct) (auto simp: Let_def split: if_splits)
  have "ucast v \<noteq> (0 :: u16)" if "v \<le> 65535" "v \<noteq> 0" for v :: u32
    using that by (auto simp: word_unat_eq_iff word_le_nat_alt unsigned_ucast_eq take_bit_nat_eq_self)
  with bound show "parse_port s = Inr (v, r) \<Longrightarrow> v \<noteq> 0"
    by (fastforce simp: parse_port_def split: option.splits if_splits)
qed

lemma parse_null_or_field:
  "parse_null_or n s = Inr (Some v, r) \<Longrightarrow> 0 < n \<Longrightarrow> text_field n v"
  by (auto simp: parse_null_or_def Let_def split: if_splits sum.splits option.splits
      dest: parse_string_text_field)

lemma parse_device_value_wf:
  assumes "parse_device_value f out s = Inr (out', r)" and "device_wf out"
  shows "device_wf out'" and "f = Some FIELD_PORT \<Longrightarrow> port out' \<noteq> 0"
    and "f \<noteq> Some FIELD_PORT \<Longrightarrow> port out' = port out"
proof -
  note ps = parse_string_text_field [OF _ zero_less_numeral] parse_null_or_field [OF _ zero_less_numeral]
  have "device_wf out' \<and> (f \<noteq> Some FIELD_PORT \<longrightarrow> port out' = port out)"
  proof (cases f)
    case None
    with assms show ?thesis by (auto simp: parse_device_value_def split: sum.splits)
  next
    case (Some g)
    with assms show ?thesis
      by (cases g) (auto simp: parse_device_value_def store_Inr device_wf_def split: option.splits dest: ps)
  qed
  then show "device_wf out'" "f \<noteq> Some FIELD_PORT \<Longrightarrow> port out' = port out" by auto
  show "f = Some FIELD_PORT \<Longrightarrow> port out' \<noteq> 0"
    using assms(1) by (auto simp: parse_device_value_def store_Inr dest: parse_port_nonzero)
qed

lemma note_field_mem: "note_field seen f = Some seen1 \<Longrightarrow> x \<in> seen1 \<longleftrightarrow> x \<in> seen \<or> f = Some x"
  by (auto simp: note_field_def set_once_def split: option.splits if_splits)

lemma parse_device_loop_wf:
  assumes "parse_device_loop {} out s = Inr (seen, out', r)" and "device_wf out"
  shows "device_wf out' \<and> (FIELD_PORT \<in> seen \<longrightarrow> port out' \<noteq> 0)"
proof (rule device_reader.loop_invariant [OF assms(1)])
  fix seen seen1 f out s out1 and rest :: string
  assume "device_wf out \<and> (FIELD_PORT \<in> seen \<longrightarrow> port out \<noteq> 0)" "note_field seen f = Some seen1"
    "lift_json (parse_device_value f out s) = Inr (out1, rest)"
  then show "device_wf out1 \<and> (FIELD_PORT \<in> seen1 \<longrightarrow> port out1 \<noteq> 0)"
    using parse_device_value_wf [of f out s out1 rest] by (simp add: note_field_mem) metis
qed (use assms(2) in simp)

lemma parse_device_result:
  assumes "ls_protocol_parse_device json ip = Inr d"
  obtains seen out s r where
    "parse_device_loop {} (zero_device\<lparr>device_type := LS_DEVICE_DESKTOP\<rparr>) s = Inr (seen, out, r)"
    "{FIELD_ALIAS, FIELD_VERSION, FIELD_FINGERPRINT, FIELD_PORT, FIELD_PROTOCOL} \<subseteq> seen"
    "device_alias out \<noteq> []" "fingerprint out \<noteq> []" "display_text_loop (device_alias out)"
    "display_text_loop (device_model out)" "compatible_protocol_version (version out)"
    "d = (case ip of None \<Rightarrow> out | Some i \<Rightarrow> out\<lparr>ip_address := i\<rparr>)" "\<forall>i. ip = Some i \<longrightarrow> length i < 16"
  using assms unfolding ls_protocol_parse_device_def Let_def valid_network_display_text_def
  by (auto split: option.split_asm sum.split_asm if_split_asm prod.split_asm simp del: insert_subset)

lemma parse_device_wf:
  assumes "ls_protocol_parse_device json ip = Inr d"
  shows "device_message_wf d"
proof -
  from assms obtain seen out s r where
    l: "parse_device_loop {} (zero_device\<lparr>device_type := LS_DEVICE_DESKTOP\<rparr>) s = Inr (seen, out, r)"
    and rest: "{FIELD_ALIAS, FIELD_VERSION, FIELD_FINGERPRINT, FIELD_PORT, FIELD_PROTOCOL} \<subseteq> seen"
    "device_alias out \<noteq> []" "fingerprint out \<noteq> []" "display_text_loop (device_alias out)"
    "display_text_loop (device_model out)" "compatible_protocol_version (version out)"
    "d = (case ip of None \<Rightarrow> out | Some i \<Rightarrow> out\<lparr>ip_address := i\<rparr>)" "\<forall>i. ip = Some i \<longrightarrow> length i < 16"
    by (rule parse_device_result)
  have "device_wf (zero_device\<lparr>device_type := LS_DEVICE_DESKTOP\<rparr>)"
    by (simp add: device_wf_def zero_device_def)
  from parse_device_loop_wf [OF l this] rest show ?thesis
    by (cases ip) (simp_all add: device_message_wf_def device_wf_def)
qed

definition file_message_wf :: "LsIncomingFileMetadata \<Rightarrow> bool" where
  "file_message_wf f \<longleftrightarrow>
     text_field LS3DS_FILE_ID_CAPACITY (file_id f) \<and> text_field LS3DS_FILENAME_CAPACITY (file_name f) \<and>
     text_field LS3DS_FILE_TYPE_CAPACITY (file_type f) \<and> display_text_loop (file_name f) \<and>
     (has_sha256 f \<longrightarrow> length (file_sha256 f) = 64 \<and> list_all (\<lambda>c. isdigit c \<or> 97 \<le> byte c \<and> byte c \<le> 102) (file_sha256 f)) \<and>
     (\<not> has_sha256 f \<longrightarrow> file_sha256 f = [])"

lemma zero_file_wf [simp]: "file_message_wf zero_file"
  by (simp add: file_message_wf_def zero_file_def)

lemma tolower_xdigit: "isxdigit c \<Longrightarrow> isdigit (tolower c) \<or> 97 \<le> byte (tolower c) \<and> byte (tolower c) \<le> 102"
proof (cases "isupper c")
  case True
  then have "byte (tolower c) = byte c + 32" by (simp add: tolower_def isupper_def)
  with True show "isxdigit c \<Longrightarrow> ?thesis" by (auto simp: isxdigit_def isdigit_def isupper_def)
next
  case False
  then have "tolower c = c" by (simp add: tolower_def)
  with False show "isxdigit c \<Longrightarrow> ?thesis" by (auto simp: isxdigit_def isdigit_def isupper_def)
qed

lemma valid_sha256_lower:
  "valid_sha256 v \<Longrightarrow> length (map tolower v) = 64 \<and>
     list_all (\<lambda>c. isdigit c \<or> 97 \<le> byte c \<and> byte c \<le> 102) (map tolower v)"
  using tolower_xdigit by (auto simp: valid_sha256_def list_all_iff)

lemma parse_file_value_wf:
  assumes "parse_file_value f out s = Inr (out', r)" and "file_message_wf out"
  shows "file_message_wf out'"
proof (cases f)
  case None
  with assms show ?thesis by (auto simp: parse_file_value_def split: sum.splits)
next
  case (Some g)
  with assms show ?thesis
    by (cases g)
       (auto simp: parse_file_value_def store_Inr require_Inr file_message_wf_def valid_network_display_text_def
         split: option.splits dest: parse_string_text_field [OF _ zero_less_numeral]
         parse_null_or_field [OF _ zero_less_numeral] dest!: valid_sha256_lower)
qed

lemma parse_file_object_wf:
  assumes "parse_file_object s = Inr (f, r)"
  shows "file_message_wf f \<and> file_id f \<noteq> [] \<and> file_name f \<noteq> []"
proof -
  from assms obtain seen t where l: "parse_file_loop {} zero_file t = Inr (seen, f, r)"
    and "file_id f \<noteq> []" "file_name f \<noteq> []"
    by (auto simp: parse_file_object_def Let_def split: option.splits sum.splits if_splits)
  moreover have "file_message_wf f"
    by (rule file_reader.loop_invariant [OF l]) (auto dest: parse_file_value_wf)
  ultimately show ?thesis by simp
qed

definition request_wf :: "LsPrepareUploadRequest \<Rightarrow> bool" where
  "request_wf q \<longleftrightarrow> device_message_wf (request_sender q) \<and> file_message_wf (request_file q) \<and>
     file_id (request_file q) \<noteq> [] \<and> file_name (request_file q) \<noteq> []"

lemma parse_prepare_wf:
  assumes "ls_protocol_parse_prepare_upload json ip = Inr q"
  shows "request_wf q"
proof -
  from assms obtain seen t r where
    l: "parse_prepare_loop ip {} \<lparr>request_sender = zero_device, request_file = zero_file\<rparr> t = Inr (seen, q, r)"
    and s: "{PREPARE_FIELD_INFO, PREPARE_FIELD_FILES} \<subseteq> seen"
    by (auto simp: ls_protocol_parse_prepare_upload_def Let_def split: option.splits sum.splits if_splits)
  have "(PREPARE_FIELD_INFO \<in> seen \<longrightarrow> device_message_wf (request_sender q)) \<and>
    (PREPARE_FIELD_FILES \<in> seen \<longrightarrow> file_message_wf (request_file q) \<and>
       file_id (request_file q) \<noteq> [] \<and> file_name (request_file q) \<noteq> [])"
    by (rule prepare_reader.loop_invariant [OF l])
       (auto simp: parse_prepare_value_def parse_single_file_map_def note_field_def set_once_def Let_def
         split: option.splits sum.splits if_splits prepare_field.splits list.splits
         dest!: parse_device_wf parse_file_object_wf)
  with s show ?thesis by (simp add: request_wf_def)
qed

text \<open>An accepted answer carries a session and a token that fit their fields.\<close>

lemma parse_response_files_loop_field:
  "parse_response_files_loop e f t s = Inr (f', t', r) \<Longrightarrow> text_field LS3DS_FILE_TOKEN_CAPACITY t \<Longrightarrow> (f \<longrightarrow> t \<noteq> []) \<Longrightarrow>
     text_field LS3DS_FILE_TOKEN_CAPACITY t' \<and> (f' \<longrightarrow> t' \<noteq> [])"
proof (induction "length s" arbitrary: f t s rule: less_induct)
  case less
  from less.prems(1) obtain id1 c1 u c2 closed c3 where
    l: "member_key LS3DS_FILE_ID_CAPACITY s = Inr (id1, c1)" "parse_string (Some LS3DS_FILE_TOKEN_CAPACITY) c1 = Inr (u, c2)"
      "u \<noteq> []" "member_end c2 = Inr (closed, c3)"
      "(if closed then Inr (True, u, c3) else parse_response_files_loop e True u c3) = Inr (f', t', r)"
    by (subst (asm) parse_response_files_loop.simps) (auto split: sum.splits if_splits)
  have "length c3 < length s"
    using member_key_length [OF l(1)] parse_string_length [OF l(2)] member_end_length [OF l(4)] by simp
  moreover have "text_field LS3DS_FILE_TOKEN_CAPACITY u" using parse_string_text_field [OF l(2)] by simp
  ultimately show ?case using l(3,5) less.hyps [of c3 True u] by (auto split: if_splits)
qed

definition response_fields_ok :: "response_field set \<Rightarrow> LsPrepareUploadResponse \<Rightarrow> bool" where
  "response_fields_ok seen out \<longleftrightarrow>
     text_field LS3DS_SESSION_ID_CAPACITY (response_session_id out) \<and>
     text_field LS3DS_FILE_TOKEN_CAPACITY (response_file_token out) \<and>
     (RESPONSE_SESSION \<in> seen \<longrightarrow> response_session_id out \<noteq> []) \<and>
     (RESPONSE_FILES \<in> seen \<longrightarrow> response_file_token out \<noteq> [])"

lemma parse_response_value_ok:
  assumes "parse_response_value e field out s = Inr (out', r)" and "response_fields_ok seen out"
    and "note_field seen field = Some seen1"
  shows "response_fields_ok seen1 out'"
proof (cases field)
  case None
  with assms show ?thesis by (auto simp: parse_response_value_def note_field_def split: option.splits)
next
  case (Some g)
  have "text_field LS3DS_FILE_TOKEN_CAPACITY []" by (simp add: text_field_def)
  moreover have "parse_string (Some LS3DS_SESSION_ID_CAPACITY) s = Inr (v, r) \<Longrightarrow> text_field LS3DS_SESSION_ID_CAPACITY v" for v
    by (auto dest: parse_string_text_field)
  ultimately show ?thesis
    using Some assms
    by (cases g)
       (auto simp: parse_response_value_def parse_response_files_def response_fields_ok_def note_field_mem Let_def
         split: sum.splits if_splits option.splits dest!: parse_response_files_loop_field)
qed

lemma parse_response_loop_ok:
  "parse_response_loop e seen out s = Inr (seen', out', r) \<Longrightarrow> response_fields_ok seen out \<Longrightarrow> response_fields_ok seen' out'"
proof (induction "length s" arbitrary: seen out s rule: less_induct)
  case less
  show ?case
  proof (cases "starts_with ''}'' (skip_whitespace s)")
    case True
    with less.prems show ?thesis by (subst (asm) parse_response_loop.simps) (simp add: Let_def)
  next
    case False
    with less.prems(1) obtain key c1 seen1 out1 c2 closed c3 where
      l: "member_key 32 (skip_whitespace s) = Inr (key, c1)" "note_field seen (response_field_of key) = Some seen1"
        "parse_response_value e (response_field_of key) out c1 = Inr (out1, c2)" "member_end c2 = Inr (closed, c3)"
        "(if closed then Inr (seen1, out1, c3) else parse_response_loop e seen1 out1 c3) = Inr (seen', out', r)"
      by (subst (asm) parse_response_loop.simps) (auto simp: Let_def split: sum.splits option.splits)
    have "length c3 < length s"
      using member_key_length [OF l(1)] parse_response_value_length [OF l(3)] member_end_length [OF l(4)]
        skip_whitespace_length [of s] by simp
    with parse_response_value_ok [OF l(3) less.prems(2) l(2)] l(5) less.hyps show ?thesis by (auto split: if_splits)
  qed
qed

lemma parse_response_wf:
  assumes "ls_protocol_parse_prepare_upload_response json e = Inr p"
  shows "text_field LS3DS_SESSION_ID_CAPACITY (response_session_id p)" "response_session_id p \<noteq> []"
    "text_field LS3DS_FILE_TOKEN_CAPACITY (response_file_token p)" "response_file_token p \<noteq> []"
proof -
  have "response_fields_ok {} \<lparr>response_session_id = [], response_file_token = []\<rparr>"
    by (simp add: response_fields_ok_def text_field_def)
  with assms have "\<exists>seen. {RESPONSE_SESSION, RESPONSE_FILES} \<subseteq> seen \<and> response_fields_ok seen p"
    by (auto simp: ls_protocol_parse_prepare_upload_response_def split: option.splits sum.splits if_splits
        dest!: parse_response_loop_ok)
  then show "text_field LS3DS_SESSION_ID_CAPACITY (response_session_id p)" "response_session_id p \<noteq> []"
    "text_field LS3DS_FILE_TOKEN_CAPACITY (response_file_token p)" "response_file_token p \<noteq> []"
    by (auto simp: response_fields_ok_def)
qed

end
