(* ===== verification/Incoming_Transfer.thy ===== *)
theory Incoming_Transfer
  imports Filesystem Secure_Random Protocol_Read
begin

text \<open>
  The incoming transfer of \<open>source/transfer.c\<close>. Every operation takes the transfer and the world and
  returns both. \<open>tr_file\<close> says that the \<open>FILE\<close> of the partial file is open; the log lines are left
  out. A received chunk is the list of its bytes as characters, and as \<open>bytes_of\<close> for the hash.
\<close>

datatype LsTransferState =
  LS_TRANSFER_IDLE | LS_TRANSFER_WAITING_FOR_USER | LS_TRANSFER_ACCEPTED | LS_TRANSFER_RECEIVING
| LS_TRANSFER_COMPLETED | LS_TRANSFER_REJECTED | LS_TRANSFER_CANCELLED | LS_TRANSFER_FAILED

datatype LsTransferFinishResult =
  LS_TRANSFER_FINISH_SUCCESS | LS_TRANSFER_FINISH_SIZE_MISMATCH
| LS_TRANSFER_FINISH_CHECKSUM_MISMATCH | LS_TRANSFER_FINISH_IO_ERROR

record LsIncomingTransfer =
  tr_state :: LsTransferState
  tr_sender :: LsDevice
  tr_sender_ip :: string
  tr_file_metadata :: LsIncomingFileMetadata
  tr_safe_file_name :: string
  tr_session_id :: string
  tr_file_token :: string
  tr_final_path :: string
  tr_part_path :: string
  tr_error :: string
  tr_received_bytes :: u64
  tr_state_changed_ms :: u64
  tr_last_activity_ms :: u64
  tr_file :: bool
  tr_owns_part_file :: bool
  tr_sha256 :: ls_sha256

definition bytes_of :: "string \<Rightarrow> u8 list" where
  "bytes_of s = map (\<lambda>c. of_nat (byte c)) s"

definition set_error :: "string \<Rightarrow> LsIncomingTransfer \<Rightarrow> LsIncomingTransfer" where
  "set_error message t = t\<lparr>tr_error := take (LS3DS_TRANSFER_ERROR_CAPACITY - 1) message\<rparr>"

definition invalidate_credentials :: "LsIncomingTransfer \<Rightarrow> LsIncomingTransfer" where
  "invalidate_credentials t = t\<lparr>tr_session_id := [], tr_file_token := []\<rparr>"

definition close_and_remove_partial ::
    "LsIncomingTransfer \<Rightarrow> world \<Rightarrow> LsIncomingTransfer \<times> world" where
  "close_and_remove_partial t w =
     (let (t, w) = (if tr_file t then (t\<lparr>tr_file := False\<rparr>, snd (do_simple w)) else (t, w));
          w = (if tr_owns_part_file t \<and> tr_part_path t \<noteq> [] then snd (do_unlink (tr_part_path t) w) else w)
      in (t\<lparr>tr_owns_part_file := False\<rparr>, w))"

definition char_at :: "string \<Rightarrow> nat \<Rightarrow> nat" where
  "char_at s i = (if i < length s then byte (s ! i) else 0)"

function constant_time_loop :: "string \<Rightarrow> string \<Rightarrow> nat \<Rightarrow> nat \<Rightarrow> nat \<Rightarrow> nat" where
  "constant_time_loop left right n i difference =
     (if i < n then constant_time_loop left right n (Suc i) (difference OR (char_at left i XOR char_at right i))
      else difference)"
  by pat_completeness auto
termination
  by (relation "measure (\<lambda>(l, r, n, i, d). n - i)") auto

declare constant_time_loop.simps [simp del]

definition constant_time_equal :: "string \<Rightarrow> nat \<Rightarrow> string \<Rightarrow> bool" where
  "constant_time_equal left left_capacity right =
     (let left_length = min (length left) left_capacity;
          right_length = length right;
          difference = left_length XOR right_length
      in constant_time_loop (take left_length left) right (left_capacity - 1) 0 difference = 0)"

definition ls_transfer_init :: LsIncomingTransfer where
  "ls_transfer_init =
     \<lparr>tr_state = LS_TRANSFER_IDLE, tr_sender = zero_device, tr_sender_ip = [],
      tr_file_metadata = zero_file, tr_safe_file_name = [], tr_session_id = [], tr_file_token = [],
      tr_final_path = [], tr_part_path = [], tr_error = [], tr_received_bytes = 0,
      tr_state_changed_ms = 0, tr_last_activity_ms = 0, tr_file = False, tr_owns_part_file = False,
      tr_sha256 = \<lparr>sha_state = replicate 8 0, bit_count = 0, block = []\<rparr>\<rparr>"

definition ls_transfer_is_busy :: "LsIncomingTransfer \<Rightarrow> bool" where
  "ls_transfer_is_busy t \<longleftrightarrow>
     tr_state t = LS_TRANSFER_WAITING_FOR_USER \<or> tr_state t = LS_TRANSFER_ACCEPTED \<or>
     tr_state t = LS_TRANSFER_RECEIVING"

definition ls_transfer_begin_request ::
    "LsPrepareUploadRequest \<Rightarrow> string \<Rightarrow> u64 \<Rightarrow> LsIncomingTransfer \<Rightarrow> world \<Rightarrow>
     bool \<times> LsIncomingTransfer \<times> world" where
  "ls_transfer_begin_request request sender_ip now_ms t w =
     (if ls_transfer_is_busy t then (False, t, w)
      else if sender_ip = [] \<or> length sender_ip \<ge> LS3DS_IPV4_CAPACITY then (False, t, w)
      else let (t, w) = close_and_remove_partial t w;
               t = ls_transfer_init
           in (True,
               t\<lparr>tr_sender := request_sender request, tr_file_metadata := request_file request,
                 tr_sender_ip := sender_ip, tr_state := LS_TRANSFER_WAITING_FOR_USER,
                 tr_state_changed_ms := now_ms, tr_last_activity_ms := now_ms\<rparr>, w))"

definition fail_state :: "u64 \<Rightarrow> LsIncomingTransfer \<Rightarrow> LsIncomingTransfer" where
  "fail_state now_ms t = t\<lparr>tr_state := LS_TRANSFER_FAILED, tr_state_changed_ms := now_ms\<rparr>"

definition errno_suffix :: "world \<Rightarrow> string" where
  "errno_suffix w = '' (errno '' @ dec (w_errno w) @ '')''"

definition ls_transfer_accept ::
    "string \<Rightarrow> u64 \<Rightarrow> LsIncomingTransfer \<Rightarrow> world \<Rightarrow> bool \<times> LsIncomingTransfer \<times> world" where
  "ls_transfer_accept download_directory now_ms t w =
     (if tr_state t \<noteq> LS_TRANSFER_WAITING_FOR_USER then (False, t, w)
      else let (filename_result, output) =
                 ls_filename_sanitize (file_name (tr_file_metadata t)) LS3DS_FILENAME_CAPACITY;
               t = t\<lparr>tr_safe_file_name := output\<rparr>
      in if filename_result \<noteq> LS_FILENAME_OK then
           (False, fail_state now_ms
              (set_error (''Unsafe filename: '' @ ls_filename_result_string filename_result) t), w)
      else case ls_filesystem_ensure_directory download_directory w of
        (False, w) \<Rightarrow>
          (False, fail_state now_ms (set_error (''Cannot create download directory'' @ errno_suffix w) t), w)
      | (True, w) \<Rightarrow>
          (case ls_filesystem_select_paths download_directory (tr_safe_file_name t)
                  LS3DS_PATH_CAPACITY LS3DS_PATH_CAPACITY w of
             (None, w) \<Rightarrow>
               (False, fail_state now_ms (set_error ''Cannot select a safe destination path'' t), w)
           | (Some (final_path, part_path), w) \<Rightarrow>
               (let t = t\<lparr>tr_final_path := final_path, tr_part_path := part_path\<rparr>;
                    failed = (\<lambda>w. (False, fail_state now_ms (invalidate_credentials
                                    (set_error ''Secure session generation failed'' t)), w))
                in case ls_secure_random_uuid w of
                     (None, w) \<Rightarrow> failed w
                   | (Some session_id, w) \<Rightarrow>
                       (case ls_secure_random_uuid w of
                          (None, w) \<Rightarrow> failed w
                        | (Some token, w) \<Rightarrow>
                            (True,
                             t\<lparr>tr_session_id := session_id, tr_file_token := token,
                               tr_state := LS_TRANSFER_ACCEPTED, tr_state_changed_ms := now_ms,
                               tr_last_activity_ms := now_ms, tr_error := []\<rparr>, w)))))"

definition ls_transfer_reject :: "u64 \<Rightarrow> LsIncomingTransfer \<Rightarrow> LsIncomingTransfer" where
  "ls_transfer_reject now_ms t =
     (if tr_state t \<noteq> LS_TRANSFER_WAITING_FOR_USER then t
      else set_error ''Rejected by user''
             ((invalidate_credentials t)\<lparr>tr_state := LS_TRANSFER_REJECTED, tr_state_changed_ms := now_ms\<rparr>))"

definition ls_transfer_validate_upload ::
    "LsIncomingTransfer \<Rightarrow> string \<Rightarrow> string \<Rightarrow> string \<Rightarrow> string \<Rightarrow> bool" where
  "ls_transfer_validate_upload t sender_ip session_id fileid token =
     (if tr_state t \<noteq> LS_TRANSFER_ACCEPTED then False
      else tr_sender_ip t = sender_ip \<and>
           constant_time_equal (tr_session_id t) LS3DS_SESSION_ID_CAPACITY session_id \<and>
           constant_time_equal (file_id (tr_file_metadata t)) LS3DS_FILE_ID_CAPACITY fileid \<and>
           constant_time_equal (tr_file_token t) LS3DS_FILE_TOKEN_CAPACITY token)"

definition ls_transfer_fail ::
    "string option \<Rightarrow> u64 \<Rightarrow> LsIncomingTransfer \<Rightarrow> world \<Rightarrow> LsIncomingTransfer \<times> world" where
  "ls_transfer_fail message now_ms t w =
     (let (t, w) = close_and_remove_partial t w;
          t = fail_state now_ms (invalidate_credentials t)
      in (case message of None \<Rightarrow> t | Some m \<Rightarrow> set_error m t, w))"

definition ls_transfer_cancel ::
    "string option \<Rightarrow> u64 \<Rightarrow> LsIncomingTransfer \<Rightarrow> world \<Rightarrow> LsIncomingTransfer \<times> world" where
  "ls_transfer_cancel message now_ms t w =
     (if \<not> ls_transfer_is_busy t then (t, w)
      else let (t, w) = close_and_remove_partial t w;
               t = (invalidate_credentials t)\<lparr>tr_state := LS_TRANSFER_CANCELLED, tr_state_changed_ms := now_ms\<rparr>
           in (set_error (case message of None \<Rightarrow> ''Cancelled'' | Some m \<Rightarrow> m) t, w))"

definition ls_transfer_begin_stream ::
    "u64 option \<Rightarrow> u64 \<Rightarrow> LsIncomingTransfer \<Rightarrow> world \<Rightarrow> bool \<times> LsIncomingTransfer \<times> world" where
  "ls_transfer_begin_stream declared_size now_ms t w =
     (if tr_state t \<noteq> LS_TRANSFER_ACCEPTED then (False, t, w)
      else if declared_size \<noteq> None \<and> the declared_size \<noteq> file_size (tr_file_metadata t) then
        (False, ls_transfer_fail (Some ''Declared upload size does not match metadata'') now_ms t w)
      else
        (let (t, w) =
           (case open_excl (tr_part_path t) w of
              (Some _, w) \<Rightarrow> (t, w)
            | (None, w) \<Rightarrow>
                (let t = t\<lparr>tr_owns_part_file := True\<rparr> in
                 case do_simple w of
                   (True, w) \<Rightarrow> (t\<lparr>tr_file := True\<rparr>, w)
                 | (False, w) \<Rightarrow>
                     (let w = snd (do_simple w);
                          w = snd (do_unlink (tr_part_path t) w)
                      in (t\<lparr>tr_owns_part_file := False\<rparr>, w))))
         in if \<not> tr_file t then
              (False, invalidate_credentials (fail_state now_ms
                 (set_error (''Cannot open partial file'' @ errno_suffix w) t)), w)
            else
              (True,
               t\<lparr>tr_received_bytes := 0, tr_sha256 := ls_sha256_init, tr_state := LS_TRANSFER_RECEIVING,
                 tr_state_changed_ms := now_ms, tr_last_activity_ms := now_ms\<rparr>, w)))"

definition ls_transfer_write ::
    "string \<Rightarrow> u64 \<Rightarrow> LsIncomingTransfer \<Rightarrow> world \<Rightarrow> bool \<times> LsIncomingTransfer \<times> world" where
  "ls_transfer_write data now_ms t w =
     (if tr_state t \<noteq> LS_TRANSFER_RECEIVING \<or> \<not> tr_file t then (False, t, w)
      else if tr_received_bytes t > file_size (tr_file_metadata t) \<or>
              length data > unat (file_size (tr_file_metadata t) - tr_received_bytes t) then
        (False, ls_transfer_fail (Some ''Upload exceeded declared file size'') now_ms t w)
      else
        (let (stored, w) = (if data = [] then (0, w) else do_fwrite (tr_part_path t) data w) in
         if stored \<noteq> length data then
           (False, ls_transfer_fail (Some ''SD card write failed'') now_ms t w)
         else
           (True,
            t\<lparr>tr_sha256 := ls_sha256_update (tr_sha256 t) (bytes_of data),
              tr_received_bytes := tr_received_bytes t + of_nat (length data),
              tr_last_activity_ms := now_ms\<rparr>, w)))"

definition ls_transfer_finish ::
    "u64 \<Rightarrow> LsIncomingTransfer \<Rightarrow> world \<Rightarrow> LsTransferFinishResult \<times> LsIncomingTransfer \<times> world" where
  "ls_transfer_finish now_ms t w =
     (if tr_state t \<noteq> LS_TRANSFER_RECEIVING \<or> \<not> tr_file t then (LS_TRANSFER_FINISH_IO_ERROR, t, w)
      else if tr_received_bytes t \<noteq> file_size (tr_file_metadata t) then
        (LS_TRANSFER_FINISH_SIZE_MISMATCH,
         ls_transfer_fail (Some ''Upload ended before declared file size'') now_ms t w)
      else
        (let (flush_result, w) = do_simple w;
             (close_result, w) = do_simple w;
             t = t\<lparr>tr_file := False\<rparr>
         in if \<not> flush_result \<or> \<not> close_result then
              (LS_TRANSFER_FINISH_IO_ERROR, ls_transfer_fail (Some ''SD card flush/close failed'') now_ms t w)
            else
              (let actual_sha256 = ls_sha256_hex (ls_sha256_finish (tr_sha256 t)) in
               if has_sha256 (tr_file_metadata t) \<and>
                  \<not> constant_time_equal (file_sha256 (tr_file_metadata t)) LS3DS_SHA256_CAPACITY actual_sha256 then
                 (LS_TRANSFER_FINISH_CHECKSUM_MISMATCH,
                  ls_transfer_fail (Some ''SHA-256 checksum mismatch'') now_ms t w)
               else case do_access (tr_final_path t) w of
                   (None, w) \<Rightarrow>
                     (LS_TRANSFER_FINISH_IO_ERROR,
                      ls_transfer_fail (Some ''Destination file appeared during transfer'') now_ms t w)
                 | (Some _, w) \<Rightarrow>
                     (case do_rename (tr_part_path t) (tr_final_path t) w of
                        (Some _, w) \<Rightarrow>
                          (LS_TRANSFER_FINISH_IO_ERROR,
                           ls_transfer_fail (Some ''Cannot finalize partial file'') now_ms t w)
                      | (None, w) \<Rightarrow>
                          (LS_TRANSFER_FINISH_SUCCESS,
                           invalidate_credentials
                             (t\<lparr>tr_owns_part_file := False, tr_state := LS_TRANSFER_COMPLETED,
                                tr_state_changed_ms := now_ms, tr_last_activity_ms := now_ms\<rparr>), w)))))"

definition ls_transfer_state_string :: "LsTransferState \<Rightarrow> string" where
  "ls_transfer_state_string state =
     (case state of
        LS_TRANSFER_IDLE \<Rightarrow> ''idle''
      | LS_TRANSFER_WAITING_FOR_USER \<Rightarrow> ''waiting for approval''
      | LS_TRANSFER_ACCEPTED \<Rightarrow> ''accepted''
      | LS_TRANSFER_RECEIVING \<Rightarrow> ''receiving''
      | LS_TRANSFER_COMPLETED \<Rightarrow> ''completed''
      | LS_TRANSFER_REJECTED \<Rightarrow> ''rejected''
      | LS_TRANSFER_CANCELLED \<Rightarrow> ''cancelled''
      | LS_TRANSFER_FAILED \<Rightarrow> ''failed'')"

section \<open>Comparison of secrets\<close>

lemma constant_time_loop_zero:
  "constant_time_loop l r n i d = 0 \<longleftrightarrow> d = 0 \<and> (\<forall>k. i \<le> k \<and> k < n \<longrightarrow> char_at l k = char_at r k)"
proof (induction l r n i d rule: constant_time_loop.induct)
  case (1 l r n i d)
  have x: "(a XOR b = 0) = (a = b)" for a b :: nat
    by (metis xor.right_neutral xor_self_eq xor.assoc xor.left_neutral)
  note o = or_eq_0_iff
  show ?case
  proof (cases "i < n")
    case True
    have "(\<forall>k. i \<le> k \<and> k < n \<longrightarrow> char_at l k = char_at r k) \<longleftrightarrow>
      char_at l i = char_at r i \<and> (\<forall>k. Suc i \<le> k \<and> k < n \<longrightarrow> char_at l k = char_at r k)"
      using True by (metis Suc_leD Suc_leI le_eq_less_or_eq)
    with "1.IH" [OF True] True show ?thesis
      by (subst constant_time_loop.simps) (simp add: x o)
  qed (subst constant_time_loop.simps, simp)
qed

lemma constant_time_equal_iff:
  assumes "length left < capacity"
  shows "constant_time_equal left capacity right \<longleftrightarrow> left = right"
proof -
  have x: "(a XOR b = 0) = (a = b)" for a b :: nat
    by (metis xor.right_neutral xor_self_eq xor.assoc xor.left_neutral)
  have "left = right" if "length left = length right" "\<forall>k < capacity - 1. char_at left k = char_at right k"
  proof (rule nth_equalityI [OF that(1)])
    fix i assume "i < length left"
    with that(2) assms have "char_at left i = char_at right i" by simp
    with \<open>i < length left\<close> that(1) show "left ! i = right ! i" by (simp add: char_at_def)
  qed
  with assms show ?thesis
    by (auto simp: constant_time_equal_def Let_def constant_time_loop_zero x)
qed

section \<open>Closing and removing\<close>

definition others_unchanged :: "string set \<Rightarrow> world \<Rightarrow> world \<Rightarrow> bool" where
  "others_unchanged ps w w' \<longleftrightarrow> (\<forall>p. p \<notin> ps \<longrightarrow> w_fs w' p = w_fs w p)"

lemma others_refl [simp]: "w_fs w' = w_fs w \<Longrightarrow> others_unchanged ps w w'"
  by (simp add: others_unchanged_def)

lemma others_trans: "others_unchanged ps w w1 \<Longrightarrow> others_unchanged ps w1 w2 \<Longrightarrow> others_unchanged ps w w2"
  by (simp add: others_unchanged_def)

lemma close_remove:
  assumes "close_and_remove_partial t w = (t', w')"
  shows "t' = t\<lparr>tr_file := False, tr_owns_part_file := False\<rparr>"
    and "others_unchanged {tr_part_path t} w w'"
    and "\<not> tr_owns_part_file t \<Longrightarrow> w_fs w' = w_fs w"
    and "w_io w = [] \<Longrightarrow> w_io w' = [] \<and> (tr_owns_part_file t \<and> tr_part_path t \<noteq> [] \<and>
           file_at w (tr_part_path t) \<noteq> None \<longrightarrow> w_fs w' (tr_part_path t) = None)"
proof -
  define w1 where "w1 = (if tr_file t then snd (do_simple w) else w)"
  obtain b w0 where s: "do_simple w = (b, w0)" by fastforce
  have f1: "w_fs w1 = w_fs w" using simple_fs [OF s] by (simp add: w1_def s)
  have i1: "w_io w = [] \<Longrightarrow> w_io w1 = []"
    by (simp add: w1_def do_simple_def next_io_def)
  obtain e w2 where u: "do_unlink (tr_part_path t) w1 = (e, w2)" by fastforce
  have f2: "others_unchanged {tr_part_path t} w1 w2"
    using unlink_fs [OF u] by (cases e) (simp_all add: others_unchanged_def)
  have t': "t' = t\<lparr>tr_file := False, tr_owns_part_file := False\<rparr>"
    using assms by (cases t; cases "tr_file t") (simp_all add: close_and_remove_partial_def Let_def)
  have w': "w' = (if tr_owns_part_file t \<and> tr_part_path t \<noteq> [] then w2 else w1)"
    using assms u by (cases "tr_file t") (auto simp: close_and_remove_partial_def Let_def w1_def split: if_splits)
  show "t' = t\<lparr>tr_file := False, tr_owns_part_file := False\<rparr>" by (rule t')
  show "others_unchanged {tr_part_path t} w w'" "\<not> tr_owns_part_file t \<Longrightarrow> w_fs w' = w_fs w"
    using w' f1 f2 by (simp_all add: others_unchanged_def)
  show "w_io w = [] \<Longrightarrow> w_io w' = [] \<and> (tr_owns_part_file t \<and> tr_part_path t \<noteq> [] \<and>
           file_at w (tr_part_path t) \<noteq> None \<longrightarrow> w_fs w' (tr_part_path t) = None)"
  proof -
    assume io: "w_io w = []"
    have "w_io w2 = [] \<and> (file_at w1 (tr_part_path t) \<noteq> None \<longrightarrow> w_fs w2 (tr_part_path t) = None)"
      using u i1 [OF io] by (auto simp: do_unlink_def next_io_def failing_def file_at_def
          split: option.splits fs_node.splits)
    with w' i1 [OF io] f1 show ?thesis by (simp add: file_at_def)
  qed
qed

section \<open>The invariant\<close>

definition part_content :: "LsIncomingTransfer \<Rightarrow> world \<Rightarrow> string \<Rightarrow> bool" where
  "part_content t w d \<longleftrightarrow>
     file_at w (tr_part_path t) = Some d \<and> length d = unat (tr_received_bytes t) \<and>
     tr_received_bytes t \<le> file_size (tr_file_metadata t) \<and>
     tr_sha256 t = ls_sha256_update ls_sha256_init (bytes_of d)"

definition has_session :: "LsIncomingTransfer \<Rightarrow> bool" where
  "has_session t \<longleftrightarrow> tr_state t = LS_TRANSFER_ACCEPTED \<or> tr_state t = LS_TRANSFER_RECEIVING"

definition transfer_inv :: "LsIncomingTransfer \<Rightarrow> world \<Rightarrow> bool" where
  "transfer_inv t w \<longleftrightarrow>
     (tr_file t \<longleftrightarrow> tr_state t = LS_TRANSFER_RECEIVING) \<and>
     (tr_owns_part_file t \<longleftrightarrow> tr_state t = LS_TRANSFER_RECEIVING) \<and>
     (has_session t \<longrightarrow> uuid_text (tr_session_id t) \<and> uuid_text (tr_file_token t) \<and>
        tr_part_path t = tr_final_path t @ ''.part'') \<and>
     (\<not> has_session t \<longrightarrow> tr_session_id t = [] \<and> tr_file_token t = []) \<and>
     (tr_state t = LS_TRANSFER_RECEIVING \<longrightarrow> (\<exists>d. part_content t w d)) \<and>
     length (tr_sender_ip t) < LS3DS_IPV4_CAPACITY \<and>
     file_message_wf (tr_file_metadata t)"

lemma inv_init: "transfer_inv ls_transfer_init w"
  by (simp add: transfer_inv_def ls_transfer_init_def has_session_def)

lemma fail_result:
  assumes "ls_transfer_fail m now t w = (t', w')"
  shows "tr_state t' = LS_TRANSFER_FAILED" "tr_session_id t' = []" "tr_file_token t' = []"
    "\<not> tr_file t'" "\<not> tr_owns_part_file t'" "tr_file_metadata t' = tr_file_metadata t"
    "tr_sender_ip t' = tr_sender_ip t" "others_unchanged {tr_part_path t} w w'"
    "\<not> tr_owns_part_file t \<Longrightarrow> w_fs w' = w_fs w"
proof -
  obtain t1 w1 where c: "close_and_remove_partial t w = (t1, w1)" by fastforce
  from assms c have r: "w' = w1" "t' = (case m of None \<Rightarrow> fail_state now (invalidate_credentials t1)
      | Some m \<Rightarrow> set_error m (fail_state now (invalidate_credentials t1)))"
    by (simp_all add: ls_transfer_fail_def Let_def)
  note cr = close_remove [OF c]
  show "tr_state t' = LS_TRANSFER_FAILED" "tr_session_id t' = []" "tr_file_token t' = []"
    "\<not> tr_file t'" "\<not> tr_owns_part_file t'" "tr_file_metadata t' = tr_file_metadata t"
    "tr_sender_ip t' = tr_sender_ip t" "others_unchanged {tr_part_path t} w w'"
    "\<not> tr_owns_part_file t \<Longrightarrow> w_fs w' = w_fs w"
    using cr(2,3) unfolding r cr(1)
    by (cases m; simp add: fail_state_def invalidate_credentials_def set_error_def)+
qed

lemma inv_no_session:
  assumes "\<not> has_session t" and "\<not> tr_file t" and "\<not> tr_owns_part_file t" and "tr_session_id t = []"
    and "tr_file_token t = []" and "length (tr_sender_ip t) < 16" and "file_message_wf (tr_file_metadata t)"
  shows "transfer_inv t w"
  using assms by (simp add: transfer_inv_def has_session_def)

lemma inv_fail:
  assumes "ls_transfer_fail m now t w = (t', w')" and "transfer_inv t w0"
  shows "transfer_inv t' w'"
  using fail_result [OF assms(1)] assms(2)
  by (intro inv_no_session) (simp_all add: transfer_inv_def has_session_def)

lemma inv_cancel:
  assumes "ls_transfer_cancel m now t w = (t', w')" and "transfer_inv t w"
  shows "transfer_inv t' w'"
proof (cases "ls_transfer_is_busy t")
  case False
  with assms show ?thesis by (simp add: ls_transfer_cancel_def)
next
  case True
  obtain t1 w1 where c: "close_and_remove_partial t w = (t1, w1)" by fastforce
  have "t' = set_error (case m of None \<Rightarrow> ''Cancelled'' | Some m \<Rightarrow> m)
      ((invalidate_credentials t1)\<lparr>tr_state := LS_TRANSFER_CANCELLED, tr_state_changed_ms := now\<rparr>)"
    using assms(1) True c by (simp add: ls_transfer_cancel_def Let_def)
  then show ?thesis using assms(2) unfolding close_remove(1) [OF c]
    by (intro inv_no_session) (simp_all add: invalidate_credentials_def set_error_def has_session_def transfer_inv_def)
qed

lemma inv_reject: "transfer_inv t w \<Longrightarrow> transfer_inv (ls_transfer_reject now t) w"
proof (cases "tr_state t = LS_TRANSFER_WAITING_FOR_USER")
  case True
  then show "transfer_inv t w \<Longrightarrow> ?thesis"
    by (intro inv_no_session) (simp_all add: ls_transfer_reject_def invalidate_credentials_def set_error_def
        has_session_def transfer_inv_def)
qed (simp add: ls_transfer_reject_def)

lemma inv_begin_request:
  assumes "ls_transfer_begin_request q ip now t w = (ok, t', w')" and "transfer_inv t w" and "request_wf q"
  shows "transfer_inv t' w'"
proof (cases "ls_transfer_is_busy t \<or> ip = [] \<or> length ip \<ge> 16")
  case True
  with assms show ?thesis by (auto simp: ls_transfer_begin_request_def split: if_splits)
next
  case False
  obtain t1 w1 where c: "close_and_remove_partial t w = (t1, w1)" by fastforce
  have t': "t' = ls_transfer_init\<lparr>tr_sender := request_sender q, tr_file_metadata := request_file q,
                 tr_sender_ip := ip, tr_state := LS_TRANSFER_WAITING_FOR_USER,
                 tr_state_changed_ms := now, tr_last_activity_ms := now\<rparr>"
    using assms(1) False c by (simp add: ls_transfer_begin_request_def Let_def)
  show ?thesis unfolding t' using False assms(3)
    by (intro inv_no_session) (simp_all add: has_session_def ls_transfer_init_def request_wf_def)
qed

text \<open>The ways \<open>ls_transfer_accept\<close> can end.\<close>

lemma accept_cases:
  assumes "ls_transfer_accept dir now t w = (ok, t', w')" and "tr_state t = LS_TRANSFER_WAITING_FOR_USER"
  obtains (failed) "\<not> ok" "tr_state t' = LS_TRANSFER_FAILED" "tr_sender_ip t' = tr_sender_ip t"
      "tr_file_metadata t' = tr_file_metadata t" "tr_file t' = tr_file t" "tr_owns_part_file t' = tr_owns_part_file t"
      "tr_session_id t' = tr_session_id t \<or> tr_session_id t' = []"
      "tr_file_token t' = tr_file_token t \<or> tr_file_token t' = []"
  | (accepted) name f p s k w1 w2 w3 where "ok"
      "ls_filename_sanitize (file_name (tr_file_metadata t)) LS3DS_FILENAME_CAPACITY = (LS_FILENAME_OK, name)"
      "ls_filesystem_ensure_directory dir w = (True, w1)"
      "ls_filesystem_select_paths dir name LS3DS_PATH_CAPACITY LS3DS_PATH_CAPACITY w1 = (Some (f, p), w2)"
      "ls_secure_random_uuid w2 = (Some s, w3)" "ls_secure_random_uuid w3 = (Some k, w')"
      "t' = t\<lparr>tr_safe_file_name := name, tr_final_path := f, tr_part_path := p, tr_session_id := s,
             tr_file_token := k, tr_state := LS_TRANSFER_ACCEPTED, tr_state_changed_ms := now,
             tr_last_activity_ms := now, tr_error := []\<rparr>"
proof -
  obtain r name where n: "ls_filename_sanitize (file_name (tr_file_metadata t)) LS3DS_FILENAME_CAPACITY = (r, name)"
    by fastforce
  obtain b w1 where d: "ls_filesystem_ensure_directory dir w = (b, w1)" by fastforce
  obtain fp w2 where p: "ls_filesystem_select_paths dir name LS3DS_PATH_CAPACITY LS3DS_PATH_CAPACITY w1 = (fp, w2)"
    by fastforce
  obtain s w3 where s: "ls_secure_random_uuid w2 = (s, w3)" by fastforce
  obtain k w4 where k: "ls_secure_random_uuid w3 = (k, w4)" by fastforce
  note d2 = fail_state_def set_error_def invalidate_credentials_def
  show thesis
  proof (cases "r = LS_FILENAME_OK \<and> b \<and> fp \<noteq> None \<and> s \<noteq> None \<and> k \<noteq> None")
    case True
    then obtain f pp s' k' where e: "fp = Some (f, pp)" "s = Some s'" "k = Some k'" by auto
    show thesis
      by (rule accepted [of name w1 f pp w2 s' w3 k'])
         (use assms True e n d p s k in \<open>simp_all add: ls_transfer_accept_def Let_def\<close>)
  next
    case False
    then consider "r \<noteq> LS_FILENAME_OK" | "r = LS_FILENAME_OK" "\<not> b" | "r = LS_FILENAME_OK" b "fp = None"
      | f pp where "r = LS_FILENAME_OK" b "fp = Some (f, pp)" "s = None"
      | f pp s' where "r = LS_FILENAME_OK" b "fp = Some (f, pp)" "s = Some s'" "k = None"
      by (cases fp; cases s; cases k) auto
    then have "\<not> ok \<and> tr_state t' = LS_TRANSFER_FAILED \<and> tr_sender_ip t' = tr_sender_ip t \<and>
      tr_file_metadata t' = tr_file_metadata t \<and> tr_file t' = tr_file t \<and>
      tr_owns_part_file t' = tr_owns_part_file t \<and>
      (tr_session_id t' = tr_session_id t \<or> tr_session_id t' = []) \<and>
      (tr_file_token t' = tr_file_token t \<or> tr_file_token t' = [])"
      by cases (use assms n d p s k in \<open>auto simp: ls_transfer_accept_def Let_def d2\<close>)
    then show thesis using failed by blast
  qed
qed

lemma inv_accept:
  assumes "ls_transfer_accept dir now t w = (ok, t', w')" and "transfer_inv t w"
  shows "transfer_inv t' w'"
proof (cases "tr_state t = LS_TRANSFER_WAITING_FOR_USER")
  case False
  with assms show ?thesis by (simp add: ls_transfer_accept_def)
next
  case True
  show ?thesis using assms(1) True
  proof (cases rule: accept_cases)
    case failed
    with True assms(2) show ?thesis
      by (intro inv_no_session) (auto simp: transfer_inv_def has_session_def)
  next
    case (accepted name f p s k w1 w2 w3)
    then have "p = f @ ''.part''"
      by (auto simp: ls_filesystem_select_paths_def split: if_splits dest: select_loop_props)
    with accepted assms(2) True uuid_format [OF accepted(5)] uuid_format [OF accepted(6)] show ?thesis
      by (simp add: transfer_inv_def has_session_def)
  qed
qed

lemma stream_success:
  assumes "ls_transfer_begin_stream declared now t w = (True, t', w')" and "\<not> tr_file t"
  shows "t' = t\<lparr>tr_owns_part_file := True, tr_file := True, tr_received_bytes := 0,
          tr_sha256 := ls_sha256_init, tr_state := LS_TRANSFER_RECEIVING, tr_state_changed_ms := now,
          tr_last_activity_ms := now\<rparr>"
    and "w_fs w (tr_part_path t) = None" and "w_fs w' = (w_fs w)(tr_part_path t \<mapsto> FileNode [])"
    and "tr_state t = LS_TRANSFER_ACCEPTED" and "part_content t' w' []"
proof -
  obtain e w1 where o: "open_excl (tr_part_path t) w = (e, w1)" by fastforce
  obtain b w2 where s: "do_simple w1 = (b, w2)" by fastforce
  show t': "t' = t\<lparr>tr_owns_part_file := True, tr_file := True, tr_received_bytes := 0,
          tr_sha256 := ls_sha256_init, tr_state := LS_TRANSFER_RECEIVING, tr_state_changed_ms := now,
          tr_last_activity_ms := now\<rparr>"
    and "tr_state t = LS_TRANSFER_ACCEPTED"
    using assms o s by (auto simp: ls_transfer_begin_stream_def Let_def split: if_splits option.splits bool.splits)
  have "e = None \<and> b \<and> w' = w2"
    using assms o s by (auto simp: ls_transfer_begin_stream_def Let_def split: if_splits option.splits bool.splits)
  with open_excl_fs [OF o] simple_fs [OF s]
  show "w_fs w (tr_part_path t) = None" and fs: "w_fs w' = (w_fs w)(tr_part_path t \<mapsto> FileNode [])"
    by auto
  show "part_content t' w' []" unfolding t'
    by (simp add: part_content_def bytes_of_def ls_sha256_update.simps file_at_def fs)
qed

lemma inv_begin_stream:
  assumes "ls_transfer_begin_stream declared now t w = (ok, t', w')" and "transfer_inv t w"
  shows "transfer_inv t' w'"
proof (cases "tr_state t = LS_TRANSFER_ACCEPTED")
  case False
  with assms show ?thesis by (simp add: ls_transfer_begin_stream_def)
next
  case acc: True
  have nf: "\<not> tr_file t" "\<not> tr_owns_part_file t" using assms(2) acc by (auto simp: transfer_inv_def)
  show ?thesis
  proof (cases ok)
    case True
    note ss = stream_success [OF assms(1) [unfolded True [THEN eqTrueI]] nf(1)]
    have "\<exists>d. part_content t' w' d" using ss(5) by blast
    then show ?thesis using assms(2) acc unfolding ss(1)
      by (auto simp: transfer_inv_def has_session_def)
  next
    case False
    show ?thesis
    proof (cases "declared \<noteq> None \<and> the declared \<noteq> file_size (tr_file_metadata t)")
      case True
      with assms(1) acc have "ls_transfer_fail (Some ''Declared upload size does not match metadata'') now t w = (t', w')"
        by (simp add: ls_transfer_begin_stream_def)
      from inv_fail [OF this assms(2)] show ?thesis .
    next
      case size: False
      obtain e w1 where o: "open_excl (tr_part_path t) w = (e, w1)" by fastforce
      obtain b w2 where s: "do_simple w1 = (b, w2)" by fastforce
      have "t' = invalidate_credentials (fail_state now (set_error (''Cannot open partial file'' @ errno_suffix w') t))"
        using assms(1) acc False size o s nf
        by (cases t; cases e; cases b) (auto simp: ls_transfer_begin_stream_def Let_def split: option.splits)
      with nf assms(2) show ?thesis
        by (intro inv_no_session)
           (simp_all add: invalidate_credentials_def fail_state_def set_error_def has_session_def transfer_inv_def)
    qed
  qed
qed

lemma bytes_of_append [simp]: "bytes_of (a @ b) = bytes_of a @ bytes_of b"
  by (simp add: bytes_of_def)

lemma write_content:
  assumes "ls_transfer_write data now t w = (True, t', w')" and "part_content t w d"
  shows "part_content t' w' (d @ data)" and "others_unchanged {tr_part_path t} w w'"
    and "t' = t\<lparr>tr_sha256 := ls_sha256_update (tr_sha256 t) (bytes_of data),
              tr_received_bytes := tr_received_bytes t + of_nat (length data), tr_last_activity_ms := now\<rparr>"
proof -
  let ?size = "file_size (tr_file_metadata t)"
  obtain n w1 where f: "(if data = [] then (0, w) else do_fwrite (tr_part_path t) data w) = (n, w1)" by fastforce
  from assms(1) f have g: "length data \<le> unat (?size - tr_received_bytes t)" "n = length data" "w' = w1"
    and t': "t' = t\<lparr>tr_sha256 := ls_sha256_update (tr_sha256 t) (bytes_of data),
              tr_received_bytes := tr_received_bytes t + of_nat (length data), tr_last_activity_ms := now\<rparr>"
    by (auto simp: ls_transfer_write_def split: if_splits)
  have le: "tr_received_bytes t \<le> ?size" and len: "length d = unat (tr_received_bytes t)"
    and at: "file_at w (tr_part_path t) = Some d"
    using assms(2) by (auto simp: part_content_def)
  have u: "unat (?size - tr_received_bytes t) = unat ?size - unat (tr_received_bytes t)"
    by (rule unat_sub [OF le])
  then have sum: "unat (tr_received_bytes t) + length data \<le> unat ?size"
    using g(1) le by (simp add: word_le_nat_alt)
  have lt: "unat ?size < 2 ^ 64" using unsigned_less [of ?size] by simp
  have un: "unat (tr_received_bytes t + of_nat (length data)) = unat (tr_received_bytes t) + length data"
    using sum lt by (simp add: unat_word_ariths unat_of_nat)
  have fs: "file_at w1 (tr_part_path t) = Some (d @ data) \<and> others_unchanged {tr_part_path t} w w1"
  proof (cases "data = []")
    case True
    with f at show ?thesis by simp
  next
    case False
    with f have fw: "do_fwrite (tr_part_path t) data w = (n, w1)" by simp
    from fwrite_fs [OF fw at] fwrite_other [OF fw] g(2) show ?thesis
      by (simp add: file_at_def others_unchanged_def)
  qed
  show "part_content t' w' (d @ data)"
    using fs g len un sum assms(2) unfolding t'
    by (simp add: part_content_def sha.absorbed_extend word_le_nat_alt)
  show "others_unchanged {tr_part_path t} w w'" using fs g by simp
  show "t' = t\<lparr>tr_sha256 := ls_sha256_update (tr_sha256 t) (bytes_of data),
              tr_received_bytes := tr_received_bytes t + of_nat (length data), tr_last_activity_ms := now\<rparr>"
    by (rule t')
qed

lemma inv_write:
  assumes "ls_transfer_write data now t w = (ok, t', w')" and "transfer_inv t w"
  shows "transfer_inv t' w'"
proof (cases ok)
  case True
  with assms(1) have st: "tr_state t = LS_TRANSFER_RECEIVING"
    by (auto simp: ls_transfer_write_def split: if_splits)
  with assms(2) obtain d where d: "part_content t w d" by (auto simp: transfer_inv_def)
  note wc = write_content [OF assms(1) [unfolded True [THEN eqTrueI]] d]
  have "\<exists>d. part_content t' w' d" using wc(1) by blast
  with assms(2) st show ?thesis unfolding wc(3) by (simp add: transfer_inv_def has_session_def)
next
  case False
  with assms(1) have "(t', w') = (t, w) \<or> (\<exists>m w1. ls_transfer_fail m now t w1 = (t', w'))"
    by (auto simp: ls_transfer_write_def split: if_splits prod.splits)
  with assms(2) inv_fail show ?thesis by auto
qed

text \<open>What \<open>ls_transfer_finish\<close> does when it succeeds.\<close>

lemma finish_success:
  assumes "ls_transfer_finish now t w = (LS_TRANSFER_FINISH_SUCCESS, t', w')" and "part_content t w d"
    and "tr_part_path t = tr_final_path t @ ''.part''"
  shows "file_at w' (tr_final_path t) = Some d" and "w_fs w' (tr_part_path t) = None"
    and "others_unchanged {tr_final_path t, tr_part_path t} w w'"
    and "length d = unat (file_size (tr_file_metadata t))"
    and "has_sha256 (tr_file_metadata t) \<Longrightarrow> length (file_sha256 (tr_file_metadata t)) = 64 \<Longrightarrow>
           file_sha256 (tr_file_metadata t) = ls_sha256_hex (sha256 (bytes_of d))"
    and "w_io w = [] \<Longrightarrow> w_fs w (tr_final_path t) = None"
    and "t' = invalidate_credentials
            (t\<lparr>tr_file := False, tr_owns_part_file := False, tr_state := LS_TRANSFER_COMPLETED,
               tr_state_changed_ms := now, tr_last_activity_ms := now\<rparr>)"
proof -
  let ?m = "tr_file_metadata t"
  let ?hex = "ls_sha256_hex (ls_sha256_finish (tr_sha256 t))"
  obtain b1 w1 where s1: "do_simple w = (b1, w1)" by fastforce
  obtain b2 w2 where s2: "do_simple w1 = (b2, w2)" by fastforce
  obtain e3 w3 where s3: "do_access (tr_final_path t) w2 = (e3, w3)" by fastforce
  obtain e4 w4 where s4: "do_rename (tr_part_path t) (tr_final_path t) w3 = (e4, w4)" by fastforce
  from assms(1) s1 s2 s3 s4 have g: "tr_received_bytes t = file_size ?m" "e3 \<noteq> None" "e4 = None" "w' = w4"
      "has_sha256 ?m \<longrightarrow> constant_time_equal (file_sha256 ?m) 65 ?hex"
    and t': "t' = invalidate_credentials
            (t\<lparr>tr_file := False, tr_owns_part_file := False, tr_state := LS_TRANSFER_COMPLETED,
               tr_state_changed_ms := now, tr_last_activity_ms := now\<rparr>)"
    by (auto simp: ls_transfer_finish_def Let_def split: if_splits prod.splits option.splits)
  have fs: "w_fs w3 = w_fs w" using simple_fs [OF s1] simple_fs [OF s2] access_fs [OF s3] by simp
  have at: "w_fs w (tr_part_path t) = Some (FileNode d)"
    using assms(2) by (auto simp: part_content_def file_at_def split: option.splits fs_node.splits)
  have r: "w_fs w' = (w_fs w)(tr_final_path t := Some (FileNode d), tr_part_path t := None)"
    using rename_fs [OF s4] g fs at assms(3) by simp
  show "file_at w' (tr_final_path t) = Some d" "w_fs w' (tr_part_path t) = None"
    "others_unchanged {tr_final_path t, tr_part_path t} w w'"
    using assms(3) by (auto simp: r file_at_def others_unchanged_def)
  show "length d = unat (file_size ?m)" using assms(2) g(1) by (simp add: part_content_def)
  show "file_sha256 ?m = ls_sha256_hex (sha256 (bytes_of d))"
    if "has_sha256 ?m" "length (file_sha256 ?m) = 64"
  proof -
    from g(5) that constant_time_equal_iff [of "file_sha256 ?m" 65 ?hex] have "file_sha256 ?m = ?hex" by simp
    also have "\<dots> = ls_sha256_hex (sha256 (bytes_of d))"
      using assms(2) sha.finish_hash by (simp add: part_content_def)
    finally show ?thesis .
  qed
  show "w_fs w (tr_final_path t) = None" if "w_io w = []"
  proof -
    from that have "w_io w2 = []" using s1 s2 by (auto simp: do_simple_def next_io_def)
    with s3 g(2) have "w_fs w2 (tr_final_path t) = None"
      by (auto simp: do_access_def next_io_def failing_def split: if_splits)
    with simple_fs [OF s1] simple_fs [OF s2] show ?thesis by simp
  qed
  show "t' = invalidate_credentials
            (t\<lparr>tr_file := False, tr_owns_part_file := False, tr_state := LS_TRANSFER_COMPLETED,
               tr_state_changed_ms := now, tr_last_activity_ms := now\<rparr>)" by (rule t')
qed

lemma finish_failure:
  assumes "ls_transfer_finish now t w = (r, t', w')" and "r \<noteq> LS_TRANSFER_FINISH_SUCCESS"
  shows "(t', w') = (t, w) \<or>
    (\<exists>m w1 f. ls_transfer_fail m now (t\<lparr>tr_file := f\<rparr>) w1 = (t', w') \<and> w_fs w1 = w_fs w)"
proof -
  obtain b1 w1 where s1: "do_simple w = (b1, w1)" by fastforce
  obtain b2 w2 where s2: "do_simple w1 = (b2, w2)" by fastforce
  obtain e3 w3 where s3: "do_access (tr_final_path t) w2 = (e3, w3)" by fastforce
  obtain e4 w4 where s4: "do_rename (tr_part_path t) (tr_final_path t) w3 = (e4, w4)" by fastforce
  have fs: "w_fs w2 = w_fs w" "w_fs w3 = w_fs w" "e4 \<noteq> None \<Longrightarrow> w_fs w4 = w_fs w"
    using simple_fs [OF s1] simple_fs [OF s2] access_fs [OF s3] rename_fs [OF s4] by simp_all
  have "(t', w') = (t, w) \<or> (\<exists>m. ls_transfer_fail m now t w = (t', w')) \<or>
    (\<exists>m v. ls_transfer_fail m now (t\<lparr>tr_file := False\<rparr>) v = (t', w') \<and>
       (v = w2 \<or> v = w3 \<or> (v = w4 \<and> e4 \<noteq> None)))"
    using assms s1 s2 s3 s4
    by (auto simp: ls_transfer_finish_def Let_def split: if_splits option.splits)
  moreover have "t = t\<lparr>tr_file := tr_file t\<rparr>" by simp
  ultimately show ?thesis using fs by metis
qed

lemma inv_finish:
  assumes "ls_transfer_finish now t w = (r, t', w')" and "transfer_inv t w"
  shows "transfer_inv t' w'"
proof (cases "r = LS_TRANSFER_FINISH_SUCCESS")
  case True
  with assms(1) have st: "tr_state t = LS_TRANSFER_RECEIVING"
    by (auto simp: ls_transfer_finish_def split: if_splits)
  with assms(2) obtain d where d: "part_content t w d" "tr_part_path t = tr_final_path t @ ''.part''"
    by (auto simp: transfer_inv_def has_session_def)
  show ?thesis using assms(2) unfolding finish_success(7) [OF assms(1) [unfolded True] d]
    by (intro inv_no_session) (simp_all add: invalidate_credentials_def has_session_def transfer_inv_def)
next
  case False
  from finish_failure [OF assms(1) this] show ?thesis
  proof
    assume "(t', w') = (t, w)"
    with assms(2) show ?thesis by simp
  next
    assume "\<exists>m w1 f. ls_transfer_fail m now (t\<lparr>tr_file := f\<rparr>) w1 = (t', w') \<and> w_fs w1 = w_fs w"
    then obtain m w1 f where "ls_transfer_fail m now (t\<lparr>tr_file := f\<rparr>) w1 = (t', w')" by blast
    from fail_result [OF this] assms(2) show ?thesis
      by (intro inv_no_session) (simp_all add: has_session_def transfer_inv_def)
  qed
qed


section \<open>The state machine\<close>

text \<open>
  The operations the rest of the program applies, one step each; requests come from the reader of
  prepare-upload messages. The world is arbitrary at the start, so every failure of the card and
  of the random service is covered.
\<close>

datatype transfer_op =
  Op_request LsPrepareUploadRequest string u64 | Op_accept string u64 | Op_reject u64
| Op_stream "u64 option" u64 | Op_write string u64 | Op_finish u64
| Op_fail "string option" u64 | Op_cancel "string option" u64

inductive transfer_step ::
    "LsIncomingTransfer \<times> world \<Rightarrow> transfer_op \<Rightarrow> LsIncomingTransfer \<times> world \<Rightarrow> bool" where
  step_request: "ls_protocol_parse_prepare_upload json ip' = Inr q \<Longrightarrow>
     ls_transfer_begin_request q ip now t w = (ok, t', w') \<Longrightarrow>
     transfer_step (t, w) (Op_request q ip now) (t', w')"
| step_accept: "ls_transfer_accept dir now t w = (ok, t', w') \<Longrightarrow>
     transfer_step (t, w) (Op_accept dir now) (t', w')"
| step_reject: "transfer_step (t, w) (Op_reject now) (ls_transfer_reject now t, w)"
| step_stream: "ls_transfer_begin_stream declared now t w = (ok, t', w') \<Longrightarrow>
     transfer_step (t, w) (Op_stream declared now) (t', w')"
| step_write: "ls_transfer_write data now t w = (ok, t', w') \<Longrightarrow>
     transfer_step (t, w) (Op_write data now) (t', w')"
| step_finish: "ls_transfer_finish now t w = (r, t', w') \<Longrightarrow>
     transfer_step (t, w) (Op_finish now) (t', w')"
| step_fail: "ls_transfer_fail m now t w = (t', w') \<Longrightarrow>
     transfer_step (t, w) (Op_fail m now) (t', w')"
| step_cancel: "ls_transfer_cancel m now t w = (t', w') \<Longrightarrow>
     transfer_step (t, w) (Op_cancel m now) (t', w')"

inductive_cases transfer_stepE: "transfer_step s op s'"

inductive transfer_reachable :: "LsIncomingTransfer \<times> world \<Rightarrow> bool" where
  reach_start: "transfer_reachable (ls_transfer_init, w)"
| reach_step: "transfer_reachable s \<Longrightarrow> transfer_step s op s' \<Longrightarrow> transfer_reachable s'"

lemma step_inv:
  "transfer_step s op s' \<Longrightarrow> transfer_inv (fst s) (snd s) \<Longrightarrow> transfer_inv (fst s') (snd s')"
  by (induction rule: transfer_step.induct)
     (auto dest: inv_begin_request [OF _ _ parse_prepare_wf] inv_accept inv_reject inv_begin_stream
        inv_write inv_finish inv_fail inv_cancel)

lemma reachable_inv: "transfer_reachable (t, w) \<Longrightarrow> transfer_inv t w"
proof (induction "(t, w)" arbitrary: t w rule: transfer_reachable.induct)
  case (reach_step s op)
  with step_inv [of s op "(t, w)"] show ?case by (cases s) auto
qed (rule inv_init)

text \<open>The life of a transfer: the state a step can lead to.\<close>

definition next_states :: "LsTransferState \<Rightarrow> LsTransferState set" where
  "next_states st =
     (case st of
        LS_TRANSFER_WAITING_FOR_USER \<Rightarrow>
          {LS_TRANSFER_ACCEPTED, LS_TRANSFER_REJECTED, LS_TRANSFER_CANCELLED, LS_TRANSFER_FAILED}
      | LS_TRANSFER_ACCEPTED \<Rightarrow> {LS_TRANSFER_RECEIVING, LS_TRANSFER_CANCELLED, LS_TRANSFER_FAILED}
      | LS_TRANSFER_RECEIVING \<Rightarrow> {LS_TRANSFER_COMPLETED, LS_TRANSFER_CANCELLED, LS_TRANSFER_FAILED}
      | _ \<Rightarrow> {LS_TRANSFER_WAITING_FOR_USER, LS_TRANSFER_FAILED})"

lemma step_states:
  assumes "transfer_step (t, w) op (t', w')" and "transfer_inv t w"
  shows "tr_state t' = tr_state t \<or> tr_state t' \<in> next_states (tr_state t)"
  using assms(1)
proof cases
  case (step_accept dir now ok)
  show ?thesis
  proof (cases "tr_state t = LS_TRANSFER_WAITING_FOR_USER")
    case True
    show ?thesis
      by (rule accept_cases [OF step_accept(2) True]) (auto simp: True next_states_def)
  qed (use step_accept in \<open>simp add: ls_transfer_accept_def\<close>)
next
  case (step_finish now r)
  show ?thesis
  proof (cases "r = LS_TRANSFER_FINISH_SUCCESS")
    case True
    with step_finish have st: "tr_state t = LS_TRANSFER_RECEIVING"
      by (auto simp: ls_transfer_finish_def split: if_splits)
    with assms(2) obtain d where d: "part_content t w d" "tr_part_path t = tr_final_path t @ ''.part''"
      by (auto simp: transfer_inv_def has_session_def)
    from finish_success(7) [OF step_finish(2) [unfolded True] d] st show ?thesis
      by (simp add: invalidate_credentials_def next_states_def)
  next
    case False
    from finish_failure [OF step_finish(2) this] show ?thesis
      by (auto dest!: fail_result(1) simp: next_states_def split: LsTransferState.splits)
  qed
next
  case (step_fail m now)
  then show ?thesis by (auto dest!: fail_result(1) simp: next_states_def split: LsTransferState.splits)
next
  case (step_write data now ok)
  then show ?thesis
    by (auto simp: ls_transfer_write_def next_states_def split: if_splits prod.splits LsTransferState.splits
        dest!: fail_result(1))
next
  case (step_request json ip' q ip now ok)
  then show ?thesis
    by (auto simp: ls_transfer_begin_request_def ls_transfer_is_busy_def next_states_def
        split: if_splits prod.splits LsTransferState.splits)
next
  case (step_stream declared now ok)
  show ?thesis
  proof (cases "tr_state t = LS_TRANSFER_ACCEPTED")
    case True
    with step_stream show ?thesis
      by (auto simp: ls_transfer_begin_stream_def next_states_def Let_def invalidate_credentials_def
          fail_state_def split: if_splits prod.splits dest!: fail_result(1))
  qed (use step_stream in \<open>simp add: ls_transfer_begin_stream_def\<close>)
next
  case (step_cancel m now)
  then show ?thesis
    by (auto simp: ls_transfer_cancel_def ls_transfer_is_busy_def next_states_def set_error_def
        invalidate_credentials_def split: if_splits prod.splits LsTransferState.splits)
next
  case (step_reject now)
  then show ?thesis
    by (auto simp: ls_transfer_reject_def next_states_def set_error_def invalidate_credentials_def)
qed

section \<open>Receiving a file\<close>

text \<open>
  What the HTTP server needs of the transfer when it streams a body into it: a sink that starts
  empty, takes pieces, and delivers exactly what it took.
\<close>

locale byte_sink =
  fixes open_sink :: "'p \<Rightarrow> 's \<Rightarrow> bool \<times> 's"
    and put :: "'c \<Rightarrow> 's \<Rightarrow> bool \<times> 's"
    and close_sink :: "'q \<Rightarrow> 's \<Rightarrow> bool \<times> 's"
    and payload :: "'c \<Rightarrow> string"
    and taken :: "'s \<Rightarrow> string option"
    and delivered :: "'s \<Rightarrow> string \<Rightarrow> 's \<Rightarrow> bool"
    and good :: "'s \<Rightarrow> bool"
  assumes open_empty: "good s \<Longrightarrow> open_sink p s = (True, s') \<Longrightarrow> good s' \<and> taken s' = Some []"
    and put_appends: "good s \<Longrightarrow> taken s = Some c \<Longrightarrow> put x s = (True, s') \<Longrightarrow>
      good s' \<and> taken s' = Some (c @ payload x)"
    and close_delivers: "good s \<Longrightarrow> taken s = Some c \<Longrightarrow> close_sink q s = (True, s') \<Longrightarrow> delivered s c s'"
begin

fun put_all :: "'c list \<Rightarrow> 's \<Rightarrow> bool \<times> 's" where
  "put_all [] s = (True, s)"
| "put_all (x # xs) s = (case put x s of (True, s) \<Rightarrow> put_all xs s | (False, s) \<Rightarrow> (False, s))"

lemma put_all_unique:
  assumes "\<And>s. f [] s = (True, s)"
    and "\<And>x xs s. f (x # xs) s = (case put x s of (True, s) \<Rightarrow> f xs s | (False, s) \<Rightarrow> (False, s))"
  shows "f xs s = put_all xs s"
  by (induction xs arbitrary: s) (auto simp: assms split: prod.splits bool.splits)

lemma put_all_taken:
  "put_all xs s = (True, s') \<Longrightarrow> good s \<Longrightarrow> taken s = Some c \<Longrightarrow>
     good s' \<and> taken s' = Some (c @ concat (map payload xs))"
proof (induction xs arbitrary: s c)
  case (Cons x xs)
  from Cons.prems obtain s1 where p: "put x s = (True, s1)" "put_all xs s1 = (True, s')"
    by (auto split: prod.splits bool.splits)
  from put_appends [OF Cons.prems(2,3) p(1)] Cons.IH [OF p(2)] show ?case by auto
qed simp

lemma stream_delivers:
  assumes "good s" and "open_sink p s = (True, s1)" and "put_all xs s1 = (True, s2)"
    and "close_sink q s2 = (True, s3)"
  shows "delivered s2 (concat (map payload xs)) s3"
  using close_delivers put_all_taken [OF assms(3)] open_empty [OF assms(1,2)] assms(4) by auto

end

text \<open>The transfer is such a sink.\<close>

definition on_pair :: "(LsIncomingTransfer \<Rightarrow> world \<Rightarrow> 'r \<times> LsIncomingTransfer \<times> world) \<Rightarrow>
    LsIncomingTransfer \<times> world \<Rightarrow> 'r \<times> LsIncomingTransfer \<times> world" where
  "on_pair f s = f (fst s) (snd s)"

definition sink_taken :: "LsIncomingTransfer \<times> world \<Rightarrow> string option" where
  "sink_taken s = (if tr_state (fst s) = LS_TRANSFER_RECEIVING
                   then file_at (snd s) (tr_part_path (fst s)) else None)"

text \<open>The finished file is at its final path with the announced size and hash, nothing else changed.\<close>

definition received_intact ::
    "LsIncomingTransfer \<times> world \<Rightarrow> string \<Rightarrow> LsIncomingTransfer \<times> world \<Rightarrow> bool" where
  "received_intact s d s' \<longleftrightarrow>
     (let t = fst s; m = tr_file_metadata t in
      tr_state (fst s') = LS_TRANSFER_COMPLETED \<and>
      file_at (snd s') (tr_final_path t) = Some d \<and> w_fs (snd s') (tr_part_path t) = None \<and>
      others_unchanged {tr_final_path t, tr_part_path t} (snd s) (snd s') \<and>
      length d = unat (file_size m) \<and>
      (has_sha256 m \<longrightarrow> file_sha256 m = ls_sha256_hex (sha256 (bytes_of d))))"

lemma part_content_taken:
  assumes "transfer_inv t w" and "tr_state t = LS_TRANSFER_RECEIVING" and "file_at w (tr_part_path t) = Some d"
  shows "part_content t w d"
  using assms by (auto simp: transfer_inv_def part_content_def)

interpretation transfer_sink: byte_sink
    "\<lambda>(declared, now). on_pair (ls_transfer_begin_stream declared now)"
    "\<lambda>(data, now). on_pair (ls_transfer_write data now)"
    "\<lambda>now s. let (r, s') = on_pair (ls_transfer_finish now) s in (r = LS_TRANSFER_FINISH_SUCCESS, s')"
    fst sink_taken received_intact "\<lambda>s. transfer_inv (fst s) (snd s)"
proof
  fix s p s'
  assume inv: "transfer_inv (fst s) (snd s)"
    and o: "(case p of (declared, now) \<Rightarrow> on_pair (ls_transfer_begin_stream declared now)) s = (True, s')"
  obtain declared now where x: "p = (declared, now)" by (cases p)
  obtain t' w' where s': "s' = (t', w')" by (cases s')
  have b: "ls_transfer_begin_stream declared now (fst s) (snd s) = (True, t', w')"
    using o x s' by (simp add: on_pair_def)
  then have "tr_state (fst s) = LS_TRANSFER_ACCEPTED"
    by (auto simp: ls_transfer_begin_stream_def split: if_splits)
  then have nf: "\<not> tr_file (fst s)" using inv by (simp add: transfer_inv_def)
  note ss = stream_success [OF b nf]
  show "transfer_inv (fst s') (snd s') \<and> sink_taken s' = Some []"
    using inv_begin_stream [OF b inv] ss(5) unfolding s' ss(1)
    by (simp add: sink_taken_def part_content_def)
next
  fix s c x s'
  assume inv: "transfer_inv (fst s) (snd s)" and t: "sink_taken s = Some c"
    and p: "(case x of (data, now) \<Rightarrow> on_pair (ls_transfer_write data now)) s = (True, s')"
  obtain data now where x: "x = (data, now)" by (cases x)
  obtain t' w' where s': "s' = (t', w')" by (cases s')
  have st: "tr_state (fst s) = LS_TRANSFER_RECEIVING" "file_at (snd s) (tr_part_path (fst s)) = Some c"
    using t by (auto simp: sink_taken_def split: if_splits)
  have w: "ls_transfer_write data now (fst s) (snd s) = (True, t', w')"
    using p x s' by (simp add: on_pair_def)
  note wc = write_content [OF w part_content_taken [OF inv st]]
  show "transfer_inv (fst s') (snd s') \<and> sink_taken s' = Some (c @ fst x)"
    using inv_write [OF w inv] wc(1) st(1) x s' unfolding wc(3)
    by (simp add: sink_taken_def part_content_def)
next
  fix s c q s'
  assume inv: "transfer_inv (fst s) (snd s)" and t: "sink_taken s = Some c"
    and q: "(let (r, s') = on_pair (ls_transfer_finish q) s in (r = LS_TRANSFER_FINISH_SUCCESS, s')) = (True, s')"
  obtain t' w' where s': "s' = (t', w')" by (cases s')
  have st: "tr_state (fst s) = LS_TRANSFER_RECEIVING" "file_at (snd s) (tr_part_path (fst s)) = Some c"
    using t by (auto simp: sink_taken_def split: if_splits)
  have f: "ls_transfer_finish q (fst s) (snd s) = (LS_TRANSFER_FINISH_SUCCESS, t', w')"
    using q s' by (auto simp: on_pair_def split: prod.splits)
  have p: "tr_part_path (fst s) = tr_final_path (fst s) @ ''.part''" and m: "file_message_wf (tr_file_metadata (fst s))"
    using inv st(1) by (auto simp: transfer_inv_def has_session_def)
  note fs = finish_success [OF f part_content_taken [OF inv st] p]
  show "received_intact s c s'"
    using fs m unfolding received_intact_def Let_def s'
    by (simp add: file_message_wf_def invalidate_credentials_def)
qed


section \<open>What an operation can change on the card\<close>

lemma stream_others:
  assumes "ls_transfer_begin_stream declared now t w = (ok, t', w')"
  shows "others_unchanged {tr_part_path t} w w'"
proof (cases "tr_state t = LS_TRANSFER_ACCEPTED \<and> \<not> (declared \<noteq> None \<and> the declared \<noteq> file_size (tr_file_metadata t))")
  case False
  with assms show ?thesis
    by (auto simp: ls_transfer_begin_stream_def split: if_splits dest: fail_result(8))
next
  case True
  obtain e w1 where o: "open_excl (tr_part_path t) w = (e, w1)" by fastforce
  obtain b w2 where s: "do_simple w1 = (b, w2)" by fastforce
  obtain b3 w3 where s3: "do_simple w2 = (b3, w3)" by fastforce
  obtain e4 w4 where u: "do_unlink (tr_part_path t) w3 = (e4, w4)" by fastforce
  have "others_unchanged {tr_part_path t} w w1" "w_fs w2 = w_fs w1" "w_fs w3 = w_fs w2"
    "others_unchanged {tr_part_path t} w3 w4"
    using open_excl_fs [OF o] simple_fs [OF s] simple_fs [OF s3] unlink_fs [OF u]
    by (cases e; cases e4; simp add: others_unchanged_def)+
  moreover have "w' \<in> {w1, w2, w4}"
    using assms True o s s3 u
    by (cases e; cases b) (auto simp: ls_transfer_begin_stream_def Let_def split: if_splits option.splits)
  ultimately show ?thesis by (auto simp: others_unchanged_def)
qed

lemma write_others:
  assumes "ls_transfer_write data now t w = (ok, t', w')"
  shows "others_unchanged {tr_part_path t} w w'"
proof -
  obtain n w1 where f: "(if data = [] then (0, w) else do_fwrite (tr_part_path t) data w) = (n, w1)" by fastforce
  have o: "others_unchanged {tr_part_path t} w w1"
    using f fwrite_other [of "tr_part_path t" data w n w1] by (auto simp: others_unchanged_def split: if_splits)
  have "w' = w \<or> w' = w1 \<or> (\<exists>m v. ls_transfer_fail m now t v = (t', w') \<and> (v = w \<or> v = w1))"
    using assms f by (auto simp: ls_transfer_write_def split: if_splits)
  with o fail_result(8) [of _ now t _ t' w'] show ?thesis
    by (metis others_refl others_trans)
qed

lemma finish_others:
  assumes "ls_transfer_finish now t w = (r, t', w')" and "transfer_inv t w"
  shows "others_unchanged {tr_final_path t, tr_part_path t} w w'"
proof (cases "r = LS_TRANSFER_FINISH_SUCCESS")
  case True
  with assms(1) have "tr_state t = LS_TRANSFER_RECEIVING"
    by (auto simp: ls_transfer_finish_def split: if_splits)
  with assms(2) obtain d where d: "part_content t w d" "tr_part_path t = tr_final_path t @ ''.part''"
    by (auto simp: transfer_inv_def has_session_def)
  from finish_success(3) [OF assms(1) [unfolded True] d] show ?thesis .
next
  case False
  from finish_failure [OF assms(1) this] show ?thesis
    by (auto dest!: fail_result(8) simp: others_unchanged_def)
qed

lemma accept_directories:
  assumes "ls_transfer_accept dir now t w = (ok, t', w')"
  shows "only_directories w w'"
proof (cases "tr_state t = LS_TRANSFER_WAITING_FOR_USER")
  case False
  with assms show ?thesis by (simp add: ls_transfer_accept_def)
next
  case True
  obtain r name where n: "ls_filename_sanitize (file_name (tr_file_metadata t)) LS3DS_FILENAME_CAPACITY = (r, name)"
    by fastforce
  obtain b w1 where d: "ls_filesystem_ensure_directory dir w = (b, w1)" by fastforce
  obtain fp w2 where p: "ls_filesystem_select_paths dir name LS3DS_PATH_CAPACITY LS3DS_PATH_CAPACITY w1 = (fp, w2)"
    by fastforce
  obtain s w3 where s: "ls_secure_random_uuid w2 = (s, w3)" by fastforce
  obtain k w4 where k: "ls_secure_random_uuid w3 = (k, w4)" by fastforce
  have fs: "w_fs w2 = w_fs w1"
    using p by (auto simp: ls_filesystem_select_paths_def split: if_splits dest: select_loop_props)
  have "w_fs w3 = w_fs w1" "w_fs w4 = w_fs w1" using fs uuid_frame [OF s] uuid_frame [OF k] by auto
  moreover have "w' \<in> {w, w1, w2, w3, w4}"
    using assms True n d p s k
    by (cases fp; cases s; cases k) (auto simp: ls_transfer_accept_def Let_def split: if_splits bool.splits)
  ultimately show ?thesis
    using ensure_directory_props(1) [OF d] fs by (auto simp: only_directories_def)
qed

lemma cancel_others:
  "ls_transfer_cancel m now t w = (t', w') \<Longrightarrow> others_unchanged {tr_part_path t} w w'"
  by (cases "close_and_remove_partial t w")
     (auto simp: ls_transfer_cancel_def Let_def split: if_splits dest: close_remove(2))

lemma request_unchanged:
  assumes "ls_transfer_begin_request q ip now t w = (ok, t', w')" and "transfer_inv t w"
  shows "w_fs w' = w_fs w"
proof (cases "ls_transfer_is_busy t \<or> ip = [] \<or> length ip \<ge> 16")
  case True
  with assms(1) show ?thesis by (auto simp: ls_transfer_begin_request_def split: if_splits)
next
  case False
  obtain t1 w1 where c: "close_and_remove_partial t w = (t1, w1)" by fastforce
  have "\<not> tr_owns_part_file t" using False assms(2) by (auto simp: transfer_inv_def ls_transfer_is_busy_def)
  with close_remove(3) [OF c] assms(1) False c show ?thesis
    by (simp add: ls_transfer_begin_request_def Let_def)
qed

text \<open>What the card may look like after a step.\<close>

definition card_step :: "LsIncomingTransfer \<Rightarrow> world \<Rightarrow> world \<Rightarrow> bool" where
  "card_step t w w' \<longleftrightarrow>
     (\<forall>p. p \<noteq> tr_part_path t \<and> p \<noteq> tr_final_path t \<longrightarrow>
        w_fs w' p = w_fs w p \<or> w_fs w p = None \<and> w_fs w' p = Some DirNode)"

lemma card_step_others: "others_unchanged {tr_final_path t, tr_part_path t} w w' \<Longrightarrow> card_step t w w'"
  "others_unchanged {tr_part_path t} w w' \<Longrightarrow> card_step t w w'" "only_directories w w' \<Longrightarrow> card_step t w w'"
  by (auto simp: card_step_def others_unchanged_def only_directories_def)

lemma step_card:
  assumes "transfer_step (t, w) op (t', w')" and "transfer_inv t w"
  shows "card_step t w w'"
  using assms(1)
proof cases
  case (step_request json ip' q ip now ok)
  with request_unchanged [OF step_request(3) assms(2)] show ?thesis by (simp add: card_step_def)
next
  case (step_accept dir now ok)
  from card_step_others(3) [OF accept_directories [OF step_accept(2)]] show ?thesis .
next
  case (step_reject now)
  then show ?thesis by (simp add: card_step_def)
next
  case (step_stream declared now ok)
  from card_step_others(2) [OF stream_others [OF step_stream(2)]] show ?thesis .
next
  case (step_write data now ok)
  from card_step_others(2) [OF write_others [OF step_write(2)]] show ?thesis .
next
  case (step_finish now r)
  from card_step_others(1) [OF finish_others [OF step_finish(2) assms(2)]] show ?thesis .
next
  case (step_fail m now)
  from card_step_others(2) [OF fail_result(8) [OF step_fail(2)]] show ?thesis .
next
  case (step_cancel m now)
  from card_step_others(2) [OF cancel_others [OF step_cancel(2)]] show ?thesis .
qed

section \<open>A whole upload\<close>

text \<open>The server's use of the transfer: open the stream, write the pieces as they come, finish.\<close>

fun upload_chunks :: "(string \<times> u64) list \<Rightarrow> LsIncomingTransfer \<times> world \<Rightarrow> bool \<times> LsIncomingTransfer \<times> world" where
  "upload_chunks [] s = (True, s)"
| "upload_chunks ((data, now) # xs) s =
     (case ls_transfer_write data now (fst s) (snd s) of
        (True, s) \<Rightarrow> upload_chunks xs s
      | (False, s) \<Rightarrow> (False, s))"

lemma upload_chunks_put_all: "upload_chunks xs s = transfer_sink.put_all xs s"
proof (rule transfer_sink.put_all_unique)
  fix x xs and s :: "LsIncomingTransfer \<times> world"
  show "upload_chunks (x # xs) s = (case (case x of (data, now) \<Rightarrow> on_pair (ls_transfer_write data now)) s of
      (True, s) \<Rightarrow> upload_chunks xs s | (False, s) \<Rightarrow> (False, s))"
    by (cases x) (simp add: on_pair_def)
qed simp

definition receive_upload ::
    "u64 option \<Rightarrow> u64 \<Rightarrow> (string \<times> u64) list \<Rightarrow> u64 \<Rightarrow> LsIncomingTransfer \<times> world \<Rightarrow>
     LsTransferFinishResult option \<times> LsIncomingTransfer \<times> world" where
  "receive_upload declared start chunks end_ms s =
     (case ls_transfer_begin_stream declared start (fst s) (snd s) of
        (False, s) \<Rightarrow> (None, s)
      | (True, s) \<Rightarrow>
          (case upload_chunks chunks s of
             (False, s) \<Rightarrow> (None, s)
           | (True, s) \<Rightarrow> (case ls_transfer_finish end_ms (fst s) (snd s) of (r, s) \<Rightarrow> (Some r, s))))"

lemma chunks_frame:
  "upload_chunks xs (t, w) = (True, t', w') \<Longrightarrow> transfer_inv t w \<Longrightarrow>
     tr_final_path t' = tr_final_path t \<and> tr_part_path t' = tr_part_path t \<and>
     tr_file_metadata t' = tr_file_metadata t \<and> others_unchanged {tr_part_path t} w w'"
proof (induction xs arbitrary: t w)
  case (Cons x xs)
  obtain d now where x: "x = (d, now)" by (cases x)
  from Cons.prems(1) x obtain t1 w1 where
    w: "ls_transfer_write d now t w = (True, t1, w1)" and u: "upload_chunks xs (t1, w1) = (True, t', w')"
    by (auto split: prod.splits bool.splits)
  from w have "tr_state t = LS_TRANSFER_RECEIVING" by (auto simp: ls_transfer_write_def split: if_splits)
  with Cons.prems(2) obtain c where c: "part_content t w c" by (auto simp: transfer_inv_def)
  from Cons.IH [OF u inv_write [OF w Cons.prems(2)]] write_content(2,3) [OF w c] show ?case
    by (auto intro: others_trans)
qed simp

lemma upload_intact:
  assumes "transfer_inv t w"
    and "receive_upload declared start chunks end_ms (t, w) = (Some LS_TRANSFER_FINISH_SUCCESS, t', w')"
  shows "file_at w' (tr_final_path t) = Some (concat (map fst chunks)) \<and>
         length (concat (map fst chunks)) = unat (file_size (tr_file_metadata t)) \<and>
         (has_sha256 (tr_file_metadata t) \<longrightarrow>
            ls_sha256_hex (sha256 (bytes_of (concat (map fst chunks)))) = file_sha256 (tr_file_metadata t)) \<and>
         tr_state t' = LS_TRANSFER_COMPLETED \<and> w_fs w' (tr_part_path t) = None \<and>
         others_unchanged {tr_final_path t, tr_part_path t} w w'"
proof -
  from assms(2) obtain t1 w1 t2 w2 where
    b: "ls_transfer_begin_stream declared start t w = (True, t1, w1)" and
    c: "upload_chunks chunks (t1, w1) = (True, t2, w2)" and
    f: "ls_transfer_finish end_ms t2 w2 = (LS_TRANSFER_FINISH_SUCCESS, t', w')"
    by (auto simp: receive_upload_def split: prod.splits bool.splits)
  from b have "tr_state t = LS_TRANSFER_ACCEPTED" by (auto simp: ls_transfer_begin_stream_def split: if_splits)
  with assms(1) have nf: "\<not> tr_file t" by (simp add: transfer_inv_def)
  note ss = stream_success [OF b nf]
  have inv1: "transfer_inv t1 w1" by (rule inv_begin_stream [OF b assms(1)])
  note cf = chunks_frame [OF c inv1]
  have paths: "tr_final_path t2 = tr_final_path t" "tr_part_path t2 = tr_part_path t"
    "tr_file_metadata t2 = tr_file_metadata t"
    using cf unfolding ss(1) by simp_all
  have "received_intact (t2, w2) (concat (map fst chunks)) (t', w')"
    by (rule transfer_sink.stream_delivers [of "(t, w)" "(declared, start)" "(t1, w1)" chunks "(t2, w2)" end_ms])
       (use assms(1) b c f in \<open>simp_all add: on_pair_def upload_chunks_put_all\<close>)
  moreover have "others_unchanged {tr_final_path t, tr_part_path t} w w2"
    using cf ss(3) unfolding ss(1) by (simp add: others_unchanged_def)
  ultimately show ?thesis
    using paths by (auto simp: received_intact_def Let_def intro: others_trans)
qed


section \<open>Without faults an upload succeeds\<close>

lemma no_fault:
  "w_io w = [] \<Longrightarrow> do_simple w = (True, w)"
  "w_io w = [] \<Longrightarrow> w_fs w p = None \<Longrightarrow> open_excl p w = (None, w\<lparr>w_fs := (w_fs w)(p \<mapsto> FileNode [])\<rparr>)"
  "w_io w = [] \<Longrightarrow> do_fwrite p data w = (length data, append_file p data w)"
  "w_io w = [] \<Longrightarrow> w_fs w p = None \<Longrightarrow> do_access p w = (Some ENOENT, w\<lparr>w_errno := errno_number ENOENT\<rparr>)"
  by (simp_all add: do_simple_def open_excl_def do_fwrite_def do_access_def next_io_def failing_def)

lemma begin_stream_succeeds:
  assumes "transfer_inv t w" and "tr_state t = LS_TRANSFER_ACCEPTED" and "w_io w = []"
    and "w_fs w (tr_part_path t) = None" and "declared = None \<or> declared = Some (file_size (tr_file_metadata t))"
  shows "\<exists>t' w'. ls_transfer_begin_stream declared now t w = (True, t', w') \<and> w_io w' = []"
  using assms by (auto simp: ls_transfer_begin_stream_def Let_def no_fault)

lemma write_succeeds:
  assumes "transfer_inv t w" and "tr_state t = LS_TRANSFER_RECEIVING" and "part_content t w d"
    and "length d + length data \<le> unat (file_size (tr_file_metadata t))" and "w_io w = []"
  shows "\<exists>t' w'. ls_transfer_write data now t w = (True, t', w') \<and> w_io w' = []"
proof -
  have f: "tr_file t" using assms(1,2) by (simp add: transfer_inv_def)
  have le: "tr_received_bytes t \<le> file_size (tr_file_metadata t)" using assms(3) by (simp add: part_content_def)
  have "unat (file_size (tr_file_metadata t) - tr_received_bytes t) =
      unat (file_size (tr_file_metadata t)) - length d"
    using unat_sub [OF le] assms(3) by (simp add: part_content_def)
  moreover have "length data \<le> unat (file_size (tr_file_metadata t)) - length d" using assms(4) by simp
  ultimately show ?thesis using assms f le
    by (simp add: ls_transfer_write_def no_fault append_file_def Let_def not_less)
qed

lemma chunks_succeed:
  assumes "transfer_inv t w" and "tr_state t = LS_TRANSFER_RECEIVING" and "part_content t w d"
    and "length d + length (concat (map fst xs)) \<le> unat (file_size (tr_file_metadata t))" and "w_io w = []"
  shows "\<exists>t' w'. upload_chunks xs (t, w) = (True, t', w') \<and> w_io w' = [] \<and> transfer_inv t' w' \<and>
    tr_state t' = LS_TRANSFER_RECEIVING \<and> part_content t' w' (d @ concat (map fst xs))"
  using assms
proof (induction xs arbitrary: t w d)
  case (Cons x xs)
  obtain data now where x: "x = (data, now)" by (cases x)
  with Cons.prems(4) have "length d + length data \<le> unat (file_size (tr_file_metadata t))" by simp
  from write_succeeds [OF Cons.prems(1-3) this Cons.prems(5), of now]
  obtain t1 w1 where w: "ls_transfer_write data now t w = (True, t1, w1)" "w_io w1 = []" by blast
  note wc = write_content [OF w(1) Cons.prems(3)]
  have m: "tr_state t1 = LS_TRANSFER_RECEIVING" "tr_file_metadata t1 = tr_file_metadata t"
    using Cons.prems(2) unfolding wc(3) by simp_all
  have "length (d @ data) + length (concat (map fst xs)) \<le> unat (file_size (tr_file_metadata t1))"
    using Cons.prems(4) x m by simp
  from Cons.IH [OF inv_write [OF w(1) Cons.prems(1)] m(1) wc(1) this w(2)] w(1) x show ?case by auto
qed auto

lemma finish_succeeds:
  assumes "transfer_inv t w" and "tr_state t = LS_TRANSFER_RECEIVING" and "part_content t w d"
    and "length d = unat (file_size (tr_file_metadata t))" and "w_io w = []"
    and "w_fs w (tr_final_path t) = None"
    and "has_sha256 (tr_file_metadata t) \<Longrightarrow> file_sha256 (tr_file_metadata t) = ls_sha256_hex (sha256 (bytes_of d))"
  shows "\<exists>t' w'. ls_transfer_finish now t w = (LS_TRANSFER_FINISH_SUCCESS, t', w')"
proof -
  have f: "tr_file t" using assms(1,2) by (simp add: transfer_inv_def)
  have p: "tr_part_path t = tr_final_path t @ ''.part''" and m: "file_message_wf (tr_file_metadata t)"
    using assms(1,2) by (auto simp: transfer_inv_def has_session_def)
  have r: "tr_received_bytes t = file_size (tr_file_metadata t)"
    using assms(3,4) by (simp add: part_content_def word_unat_eq_iff)
  have h: "has_sha256 (tr_file_metadata t) \<Longrightarrow>
      constant_time_equal (file_sha256 (tr_file_metadata t)) 65 (ls_sha256_hex (ls_sha256_finish (tr_sha256 t)))"
    using assms(3,7) m sha.finish_hash by (simp add: part_content_def file_message_wf_def constant_time_equal_iff)
  have at: "w_fs w (tr_part_path t) = Some (FileNode d)"
    using assms(3) by (auto simp: part_content_def file_at_def split: option.splits fs_node.splits)
  let ?w = "w\<lparr>w_errno := errno_number ENOENT\<rparr>"
  have "do_rename (tr_part_path t) (tr_final_path t) ?w =
      (None, ?w\<lparr>w_fs := (w_fs w)(tr_final_path t \<mapsto> FileNode d, tr_part_path t := None)\<rparr>)"
    using at assms(5,6) p by (simp add: do_rename_def next_io_def)
  with f assms(2,5,6) r h show ?thesis
    by (auto simp: ls_transfer_finish_def Let_def no_fault)
qed

lemma upload_succeeds:
  assumes "transfer_inv t w" and "tr_state t = LS_TRANSFER_ACCEPTED" and "w_io w = []"
    and "w_fs w (tr_part_path t) = None" and "w_fs w (tr_final_path t) = None"
    and "declared = None \<or> declared = Some (file_size (tr_file_metadata t))"
    and "length (concat (map fst chunks)) = unat (file_size (tr_file_metadata t))"
    and "has_sha256 (tr_file_metadata t) \<Longrightarrow>
      file_sha256 (tr_file_metadata t) = ls_sha256_hex (sha256 (bytes_of (concat (map fst chunks))))"
  shows "\<exists>t' w'. receive_upload declared start chunks end_ms (t, w) = (Some LS_TRANSFER_FINISH_SUCCESS, t', w')"
proof -
  obtain t1 w1 where b: "ls_transfer_begin_stream declared start t w = (True, t1, w1)" "w_io w1 = []"
    using begin_stream_succeeds [OF assms(1-4,6)] by blast
  have nf: "\<not> tr_file t" using assms(1,2) by (simp add: transfer_inv_def)
  note ss = stream_success [OF b(1) nf]
  have inv1: "transfer_inv t1 w1" by (rule inv_begin_stream [OF b(1) assms(1)])
  have t1: "tr_state t1 = LS_TRANSFER_RECEIVING" "tr_file_metadata t1 = tr_file_metadata t"
    "tr_final_path t1 = tr_final_path t" "tr_part_path t1 = tr_part_path t"
    unfolding ss(1) by simp_all
  obtain t2 w2 where c: "upload_chunks chunks (t1, w1) = (True, t2, w2)" "w_io w2 = []" "transfer_inv t2 w2"
    "tr_state t2 = LS_TRANSFER_RECEIVING" "part_content t2 w2 (concat (map fst chunks))"
    using chunks_succeed [OF inv1 t1(1) ss(5), of chunks] assms(7) t1(2) b(2) by auto
  note cf = chunks_frame [OF c(1) inv1]
  have pf: "tr_part_path t \<noteq> tr_final_path t"
    using assms(1,2) by (auto simp: transfer_inv_def has_session_def)
  have "w_fs w2 (tr_final_path t2) = None"
    using cf t1 ss(3) assms(5) pf by (auto simp: others_unchanged_def)
  from finish_succeeds [OF c(3-5) _ c(2) this, of end_ms] cf t1 assms(7,8)
  obtain t3 w3 where "ls_transfer_finish end_ms t2 w2 = (LS_TRANSFER_FINISH_SUCCESS, t3, w3)" by auto
  with b(1) c(1) show ?thesis by (simp add: receive_upload_def)
qed

section \<open>Authorisation\<close>

lemma upload_authorised:
  assumes "transfer_inv t w"
  shows "ls_transfer_validate_upload t ip session_id fileid token \<longleftrightarrow>
    tr_state t = LS_TRANSFER_ACCEPTED \<and> ip = tr_sender_ip t \<and> session_id = tr_session_id t \<and>
    fileid = file_id (tr_file_metadata t) \<and> token = tr_file_token t"
proof (cases "tr_state t = LS_TRANSFER_ACCEPTED")
  case True
  with assms have u: "length (tr_session_id t) = 36" "length (tr_file_token t) = 36"
    "length (file_id (tr_file_metadata t)) < 129"
    by (auto simp: transfer_inv_def has_session_def file_message_wf_def text_field_def dest: uuid_nul_free)
  with True show ?thesis
    by (auto simp: ls_transfer_validate_upload_def constant_time_equal_iff)
qed (simp add: ls_transfer_validate_upload_def)

section \<open>The network is left alone\<close>

lemma close_remove_net: "close_and_remove_partial t w = (t', w') \<Longrightarrow> same_net w w'"
  by (cases "tr_file t")
     (auto simp: close_and_remove_partial_def Let_def card_net intro: same_net_trans [OF card_net(10) card_net(1)] split: if_splits)

lemma fail_net: "ls_transfer_fail m now t w = (t', w') \<Longrightarrow> same_net w w'"
  by (auto simp: ls_transfer_fail_def Let_def split: prod.splits dest: close_remove_net)

lemma cancel_net: "ls_transfer_cancel m now t w = (t', w') \<Longrightarrow> same_net w w'"
  by (auto simp: ls_transfer_cancel_def Let_def split: prod.splits if_splits dest: close_remove_net)

lemma write_net: 
  assumes "ls_transfer_write data now t w = (ok, t', w')"
  shows "same_net w w'"
proof -
  obtain n w1 where f: "(if data = [] then (0, w) else do_fwrite (tr_part_path t) data w) = (n, w1)" by fastforce
  then have n: "same_net w w1" by (auto split: if_splits dest: card_net')
  have "w' = w \<or> w' = w1 \<or> (\<exists>m v. ls_transfer_fail m now t v = (t', w') \<and> (v = w \<or> v = w1))"
    using assms f by (auto simp: ls_transfer_write_def split: if_splits)
  with n fail_net [of _ now t _ t' w'] show ?thesis by (metis same_net_refl same_net_trans)
qed

lemma finish_net:
  assumes "ls_transfer_finish now t w = (r, t', w')"
  shows "same_net w w'"
proof -
  obtain b1 w1 where s1: "do_simple w = (b1, w1)" by fastforce
  obtain b2 w2 where s2: "do_simple w1 = (b2, w2)" by fastforce
  obtain e3 w3 where s3: "do_access (tr_final_path t) w2 = (e3, w3)" by fastforce
  obtain e4 w4 where s4: "do_rename (tr_part_path t) (tr_final_path t) w3 = (e4, w4)" by fastforce
  have n: "same_net w w2" "same_net w w3" "same_net w w4"
    using card_net' s1 s2 s3 s4 by (meson same_net_trans)+
  have "w' \<in> {w, w4} \<or> (\<exists>m u v. ls_transfer_fail m now u v = (t', w') \<and> v \<in> {w, w2, w3, w4})"
    using assms s1 s2 s3 s4
    by (auto simp: ls_transfer_finish_def Let_def split: if_splits option.splits)
  with n fail_net show ?thesis by (auto intro: same_net_trans)
qed

lemma begin_stream_net:
  assumes "ls_transfer_begin_stream declared now t w = (ok, t', w')"
  shows "same_net w w'"
proof -
  obtain e w1 where o: "open_excl (tr_part_path t) w = (e, w1)" by fastforce
  obtain b w2 where s: "do_simple w1 = (b, w2)" by fastforce
  obtain b3 w3 where s3: "do_simple w2 = (b3, w3)" by fastforce
  obtain e4 w4 where u: "do_unlink (tr_part_path t) w3 = (e4, w4)" by fastforce
  have n: "same_net w w1" "same_net w w2" "same_net w w4"
    using card_net' o s s3 u by (meson same_net_trans)+
  have "w' \<in> {w, w1, w2, w4} \<or> (\<exists>m. ls_transfer_fail m now t w = (t', w'))"
    using assms o s s3 u
    by (cases e; cases b) (auto simp: ls_transfer_begin_stream_def Let_def split: if_splits option.splits)
  with n fail_net show ?thesis by auto
qed

lemma accept_net:
  assumes "ls_transfer_accept dir now t w = (ok, t', w')"
  shows "same_net w w'"
proof (cases "tr_state t = LS_TRANSFER_WAITING_FOR_USER")
  case False
  with assms show ?thesis by (simp add: ls_transfer_accept_def)
next
  case True
  obtain r name where n: "ls_filename_sanitize (file_name (tr_file_metadata t)) LS3DS_FILENAME_CAPACITY = (r, name)"
    by fastforce
  obtain b w1 where d: "ls_filesystem_ensure_directory dir w = (b, w1)" by fastforce
  obtain fp w2 where p: "ls_filesystem_select_paths dir name LS3DS_PATH_CAPACITY LS3DS_PATH_CAPACITY w1 = (fp, w2)"
    by fastforce
  obtain s w3 where s: "ls_secure_random_uuid w2 = (s, w3)" by fastforce
  obtain k w4 where k: "ls_secure_random_uuid w3 = (k, w4)" by fastforce
  have net: "same_net w w1" "same_net w w2" "same_net w w3" "same_net w w4"
    using filesystem_net(1) [OF d] filesystem_net(2) [OF p] uuid_net [OF s] uuid_net [OF k] same_net_trans by blast+
  have "w' \<in> {w, w1, w2, w3, w4}"
    using assms True n d p s k
    by (cases fp; cases s; cases k) (auto simp: ls_transfer_accept_def Let_def split: if_splits bool.splits)
  with net show ?thesis by auto
qed

lemma begin_request_net: "ls_transfer_begin_request q ip now t w = (ok, t', w') \<Longrightarrow> same_net w w'"
  by (auto simp: ls_transfer_begin_request_def Let_def split: if_splits prod.splits dest: close_remove_net)

lemma step_net: "transfer_step s op s' \<Longrightarrow> same_net (snd s) (snd s')"
  by (induction rule: transfer_step.induct)
     (auto dest: begin_request_net accept_net begin_stream_net write_net finish_net fail_net cancel_net)

end
