(* ===== verification/Http_Stream.thy ===== *)
theory Http_Stream
  imports Chunked_Coding Incoming_Transfer
begin

text \<open>
  The connections of \<open>source/http_server.c\<close> and the body of an upload: queuing a response, decoding a
  body framed by \<open>Content-Length\<close> or by chunks, and handing its bytes to the incoming transfer.

  A handler works on one \<open>connection = &server->clients[i]\<close>. The model takes that connection out of
  its slot, so a handler maps the triple of connection, server and world to such a triple, and the
  caller puts the connection back. The used parts of \<open>rx\<close>, \<open>tx\<close> and \<open>chunk_line\<close> are lists, their
  length fields the lengths of the lists; the two scratch buffers of the server hold nothing between
  two calls and are left out, as are the log lines.
\<close>

definition [cap_defs, simp]: "LS3DS_HTTP_RX_CAPACITY = LS3DS_MAX_HTTP_HEADER_SIZE + LS3DS_MAX_HTTP_METADATA_SIZE + 4"
definition [cap_defs, simp]: "LS3DS_HTTP_TX_CAPACITY = (3072 :: nat)"
definition [cap_defs, simp]: "LS3DS_MAX_HTTP_CONNECTIONS = (4 :: nat)"
definition [cap_defs, simp]: "LS3DS_HTTP_STREAM_BUFFER_SIZE = (32768 :: nat)"

datatype LsHttpConnectionMode =
  LS_HTTP_READING_REQUEST | LS_HTTP_WAITING_FOR_APPROVAL | LS_HTTP_STREAMING_UPLOAD | LS_HTTP_WRITING_RESPONSE

datatype LsHttpUploadEncoding = LS_HTTP_UPLOAD_LENGTH | LS_HTTP_UPLOAD_CHUNKED

record LsHttpConnection =
  cn_fd :: int
  cn_peer_ip :: string
  cn_rx :: string
  cn_tx :: string
  cn_tx_sent :: nat
  cn_last_activity_ms :: u64
  cn_mode :: LsHttpConnectionMode
  cn_upload_encoding :: LsHttpUploadEncoding
  cn_body_remaining :: u64
  cn_chunk_remaining :: u64
  cn_chunk_state :: LsHttpChunkState
  cn_chunk_line :: string
  cn_trailer_bytes :: nat
  cn_owns_prepare_session :: bool

record LsHttpServer =
  sv_listen_fd :: int
  sv_running :: bool
  sv_clients :: "LsHttpConnection list"
  sv_accepted_connections :: u32
  sv_handled_requests :: u32
  sv_rejected_requests :: u32
  sv_last_errno :: nat
  sv_external_transfer_busy :: bool
  sv_quick_save :: bool
  sv_download_directory :: string
  sv_transfer :: LsIncomingTransfer

type_synonym http_state = "LsHttpConnection \<times> LsHttpServer \<times> world"

named_theorems http_defs \<open>the small operations on connection and server\<close>

definition zero_connection :: LsHttpConnection where
  "zero_connection =
     \<lparr>cn_fd = -1, cn_peer_ip = [], cn_rx = [], cn_tx = [], cn_tx_sent = 0, cn_last_activity_ms = 0,
      cn_mode = LS_HTTP_READING_REQUEST, cn_upload_encoding = LS_HTTP_UPLOAD_LENGTH, cn_body_remaining = 0,
      cn_chunk_remaining = 0, cn_chunk_state = LS_HTTP_CHUNK_SIZE, cn_chunk_line = [], cn_trailer_bytes = 0,
      cn_owns_prepare_session = False\<rparr>"

definition connection_reset :: "LsHttpConnection \<Rightarrow> world \<Rightarrow> LsHttpConnection \<times> world" where
  "connection_reset c w = (zero_connection, if cn_fd c \<ge> 0 then do_close (cn_fd c) w else w)"

definition count_handled :: "http_state \<Rightarrow> http_state" where
  [http_defs]: "count_handled = (\<lambda>(c, s, w). (c, s\<lparr>sv_handled_requests := sv_handled_requests s + 1\<rparr>, w))"

definition count_rejected :: "http_state \<Rightarrow> http_state" where
  [http_defs]: "count_rejected = (\<lambda>(c, s, w). (c, s\<lparr>sv_rejected_requests := sv_rejected_requests s + 1\<rparr>, w))"

text \<open>An operation of the incoming transfer, run on \<open>server->transfer\<close>.\<close>

definition on_transfer ::
    "(LsIncomingTransfer \<Rightarrow> world \<Rightarrow> LsIncomingTransfer \<times> world) \<Rightarrow> LsHttpServer \<times> world \<Rightarrow> LsHttpServer \<times> world" where
  [http_defs]: "on_transfer f = (\<lambda>(s, w). case f (sv_transfer s) w of (t, w) \<Rightarrow> (s\<lparr>sv_transfer := t\<rparr>, w))"

definition reset_state :: "http_state \<Rightarrow> http_state" where
  [http_defs]: "reset_state = (\<lambda>(c, s, w). case connection_reset c w of (c, w) \<Rightarrow> (c, s, w))"

definition abort_connection :: "string \<Rightarrow> u64 \<Rightarrow> http_state \<Rightarrow> http_state" where
  "abort_connection reason now_ms = (\<lambda>(c, s, w).
     (let (s, w) =
        (if (cn_mode c = LS_HTTP_WAITING_FOR_APPROVAL \<or> cn_mode c = LS_HTTP_STREAMING_UPLOAD \<or>
             cn_owns_prepare_session c) \<and> ls_transfer_is_busy (sv_transfer s)
         then on_transfer (ls_transfer_cancel (Some reason) now_ms) (s, w) else (s, w))
      in reset_state (c, s, w)))"

section \<open>Responses\<close>

text \<open>The text \<open>snprintf\<close> writes for the head of a response.\<close>

definition response_head :: "nat \<Rightarrow> string \<Rightarrow> string \<Rightarrow> nat \<Rightarrow> string" where
  "response_head status reason content_type body_length =
     ''HTTP/1.1 '' @ dec status @ '' '' @ reason @ CRLF @
     ''Content-Length: '' @ dec body_length @ CRLF @
     ''Content-Type: '' @ content_type @ CRLF @ ''Connection: close'' @ CRLF @ CRLF"

definition response :: "nat \<Rightarrow> string \<Rightarrow> string \<Rightarrow> string \<Rightarrow> http_state \<Rightarrow> http_state" where
  "response status reason content_type body = (\<lambda>(c, s, w).
     (let header = response_head status reason content_type (length body) in
      if length header + length body > LS3DS_HTTP_TX_CAPACITY then reset_state (c, s, w)
      else (c\<lparr>cn_tx := header @ body, cn_tx_sent := 0, cn_mode := LS_HTTP_WRITING_RESPONSE\<rparr>, s, w)))"

definition empty_response :: "nat \<Rightarrow> string \<Rightarrow> http_state \<Rightarrow> http_state" where
  "empty_response status reason = response status reason ''text/plain; charset=utf-8'' []"

definition message_response :: "nat \<Rightarrow> string \<Rightarrow> string \<Rightarrow> http_state \<Rightarrow> http_state" where
  "message_response status reason message = response status reason ''text/plain; charset=utf-8'' message"

section \<open>The body of an upload\<close>

definition stream_finish :: "u64 \<Rightarrow> http_state \<Rightarrow> http_state" where
  "stream_finish now_ms = (\<lambda>(c, s, w).
     (case ls_transfer_finish now_ms (sv_transfer s) w of
        (result, t, w) \<Rightarrow>
          (let st = (c, s\<lparr>sv_transfer := t\<rparr>, w) in
           if result = LS_TRANSFER_FINISH_SUCCESS then count_handled (empty_response 200 ''OK'' st)
           else if result = LS_TRANSFER_FINISH_CHECKSUM_MISMATCH then
             count_rejected (message_response 422 ''Unprocessable Entity'' ''Checksum mismatch'' st)
           else count_rejected (empty_response 500 ''Internal Server Error'' st))))"

definition stream_bad_request :: "string \<Rightarrow> u64 \<Rightarrow> http_state \<Rightarrow> http_state" where
  "stream_bad_request message now_ms = (\<lambda>(c, s, w).
     (case on_transfer (ls_transfer_fail (Some message) now_ms) (s, w) of
        (s, w) \<Rightarrow> count_rejected (empty_response 400 ''Bad Request'' (c, s, w))))"

text \<open>\<open>ls_transfer_write\<close> and the answer 500 when it fails.\<close>

definition stream_write :: "string \<Rightarrow> u64 \<Rightarrow> http_state \<Rightarrow> bool \<times> http_state" where
  "stream_write data now_ms = (\<lambda>(c, s, w).
     (case ls_transfer_write data now_ms (sv_transfer s) w of
        (ok, t, w) \<Rightarrow>
          (let st = (c, s\<lparr>sv_transfer := t\<rparr>, w) in
           if ok then (True, st)
           else (False, count_rejected (empty_response 500 ''Internal Server Error'' st)))))"

text \<open>
  One round of the loop of \<open>process_chunked_data\<close> in each of its states; \<open>data\<close> starts at \<open>position\<close>
  and is not empty. The rounds that return from the C function leave the mode
  \<open>LS_HTTP_STREAMING_UPLOAD\<close>, which ends the loop here.
\<close>

definition chunk_size_step :: "u64 \<Rightarrow> char \<Rightarrow> http_state \<Rightarrow> http_state" where
  "chunk_size_step now_ms value = (\<lambda>(c, s, w).
     (let line = cn_chunk_line c in
      if value = LF then
        (if line = [] \<or> last line \<noteq> CR then stream_bad_request ''Malformed chunk size line'' now_ms (c, s, w)
         else (case parse_chunk_size (butlast line) of
                 None \<Rightarrow> stream_bad_request ''Invalid chunk size'' now_ms (c\<lparr>cn_chunk_line := butlast line\<rparr>, s, w)
               | Some chunk_size \<Rightarrow>
                   (c\<lparr>cn_chunk_line := [], cn_chunk_remaining := chunk_size,
                      cn_chunk_state := (if chunk_size = 0 then LS_HTTP_CHUNK_TRAILER else LS_HTTP_CHUNK_DATA)\<rparr>,
                    s, w)))
      else if length line \<ge> CHUNK_LINE_CAPACITY then stream_bad_request ''Chunk size line too long'' now_ms (c, s, w)
      else (c\<lparr>cn_chunk_line := line @ [value]\<rparr>, s, w)))"

definition chunk_data_step :: "u64 \<Rightarrow> string \<Rightarrow> http_state \<Rightarrow> string \<times> http_state" where
  "chunk_data_step now_ms data = (\<lambda>(c, s, w).
     (let amount = min (length data) (unat (cn_chunk_remaining c));
          t = sv_transfer s
      in if tr_received_bytes t > file_size (tr_file_metadata t) \<or>
            amount > unat (file_size (tr_file_metadata t) - tr_received_bytes t)
         then (data, stream_bad_request ''Upload exceeded declared file size'' now_ms (c, s, w))
         else (case stream_write (take amount data) now_ms (c, s, w) of
                 (False, st) \<Rightarrow> (data, st)
               | (True, c, s, w) \<Rightarrow>
                   (let remaining = cn_chunk_remaining c - of_nat amount in
                    (drop amount data,
                     c\<lparr>cn_chunk_remaining := remaining,
                       cn_chunk_state := (if remaining = 0 then LS_HTTP_CHUNK_DATA_CR else cn_chunk_state c)\<rparr>,
                     s, w)))))"

definition chunk_cr_step :: "u64 \<Rightarrow> char \<Rightarrow> http_state \<Rightarrow> http_state" where
  "chunk_cr_step now_ms value = (\<lambda>(c, s, w).
     (if value \<noteq> CR then stream_bad_request ''Missing CR after chunk'' now_ms (c, s, w)
      else (c\<lparr>cn_chunk_state := LS_HTTP_CHUNK_DATA_LF\<rparr>, s, w)))"

definition chunk_lf_step :: "u64 \<Rightarrow> char \<Rightarrow> http_state \<Rightarrow> http_state" where
  "chunk_lf_step now_ms value = (\<lambda>(c, s, w).
     (if value \<noteq> LF then stream_bad_request ''Missing LF after chunk'' now_ms (c, s, w)
      else (c\<lparr>cn_chunk_state := LS_HTTP_CHUNK_SIZE\<rparr>, s, w)))"

definition chunk_trailer_step :: "u64 \<Rightarrow> char \<Rightarrow> string \<Rightarrow> http_state \<Rightarrow> http_state" where
  "chunk_trailer_step now_ms value rest = (\<lambda>(c, s, w).
     (let c = c\<lparr>cn_trailer_bytes := cn_trailer_bytes c + 1\<rparr>;
          line = cn_chunk_line c
      in if cn_trailer_bytes c > LS3DS_MAX_HTTP_HEADER_SIZE then
           stream_bad_request ''Chunk trailers too large'' now_ms (c, s, w)
         else if value = LF then
           (if line = [CR] then
              (if rest \<noteq> [] then stream_bad_request ''Data after final chunk'' now_ms (c, s, w)
               else stream_finish now_ms (c, s, w))
            else if line = [] \<or> last line \<noteq> CR then
              stream_bad_request ''Malformed chunk trailer'' now_ms (c, s, w)
            else (c\<lparr>cn_chunk_line := []\<rparr>, s, w))
         else if length line \<ge> CHUNK_LINE_CAPACITY then
           stream_bad_request ''Chunk trailer line too long'' now_ms (c, s, w)
         else (c\<lparr>cn_chunk_line := line @ [value]\<rparr>, s, w)))"

definition chunk_step :: "u64 \<Rightarrow> string \<Rightarrow> http_state \<Rightarrow> string \<times> http_state" where
  "chunk_step now_ms data st =
     (let value = hd data; rest = tl data in
      case cn_chunk_state (fst st) of
        LS_HTTP_CHUNK_SIZE \<Rightarrow> (rest, chunk_size_step now_ms value st)
      | LS_HTTP_CHUNK_DATA \<Rightarrow> chunk_data_step now_ms data st
      | LS_HTTP_CHUNK_DATA_CR \<Rightarrow> (rest, chunk_cr_step now_ms value st)
      | LS_HTTP_CHUNK_DATA_LF \<Rightarrow> (rest, chunk_lf_step now_ms value st)
      | LS_HTTP_CHUNK_TRAILER \<Rightarrow> (rest, chunk_trailer_step now_ms value rest st))"

definition loop_measure :: "string \<Rightarrow> http_state \<Rightarrow> nat" where
  "loop_measure data st =
     2 * length data + (if cn_chunk_state (fst st) = LS_HTTP_CHUNK_DATA then 1 else 0)"

subsection \<open>The loop ends\<close>

definition streaming :: "http_state \<Rightarrow> bool" where
  "streaming st \<longleftrightarrow> cn_mode (fst st) = LS_HTTP_STREAMING_UPLOAD"

lemma zero_connection_mode [simp]:
  "cn_mode zero_connection = LS_HTTP_READING_REQUEST" "cn_fd zero_connection = -1"
  "cn_owns_prepare_session zero_connection = False" "cn_tx zero_connection = []" "cn_rx zero_connection = []"
  by (simp_all add: zero_connection_def)

lemma response_stops [simp]: "\<not> streaming (response status reason ct body st)"
  by (cases st) (simp add: response_def streaming_def reset_state_def connection_reset_def Let_def)

lemma count_streaming [simp]:
  "streaming (count_handled st) = streaming st" "streaming (count_rejected st) = streaming st"
  by (cases st; simp add: streaming_def count_handled_def count_rejected_def)+

lemma stream_ends [simp]:
  "\<not> streaming (stream_bad_request m now st)" "\<not> streaming (stream_finish now st)"
  by (cases st; simp add: stream_bad_request_def stream_finish_def empty_response_def message_response_def
      Let_def split: prod.splits)+

lemma stream_write_ends: "stream_write data now st = (False, st') \<Longrightarrow> \<not> streaming st'"
  by (cases st) (auto simp: stream_write_def empty_response_def Let_def split: prod.splits if_splits)

lemma stream_write_keeps: "stream_write data now (c, s, w) = (True, c', s', w') \<Longrightarrow> c' = c"
  by (auto simp: stream_write_def Let_def split: prod.splits if_splits)

lemma chunk_data_decreases:
  assumes "chunk_data_step now data (c, s, w) = (rest, st')" and "data \<noteq> []" and "streaming st'"
    and "cn_chunk_state c = LS_HTTP_CHUNK_DATA"
  shows "loop_measure rest st' < loop_measure data (c, s, w)"
proof -
  let ?amount = "min (length data) (unat (cn_chunk_remaining c))"
  obtain ok c' s' w' where wr: "stream_write (take ?amount data) now (c, s, w) = (ok, c', s', w')"
    by (metis prod_cases4)
  have ok: "ok"
  proof (rule ccontr)
    assume "\<not> ok"
    with stream_write_ends [of "take ?amount data" now "(c, s, w)" "(c', s', w')"] wr
    have "\<not> streaming (c', s', w')" by simp
    with assms(1,3) wr \<open>\<not> ok\<close> show False
      by (auto simp: chunk_data_step_def Let_def split: if_splits)
  qed
  from wr ok have c': "c' = c" using stream_write_keeps by simp
  from assms(1,3) wr ok c' have r: "rest = drop ?amount data"
    and f: "cn_chunk_state (fst st') =
      (if cn_chunk_remaining c - of_nat ?amount = 0 then LS_HTTP_CHUNK_DATA_CR else cn_chunk_state c)"
    by (auto simp: chunk_data_step_def Let_def split: if_splits)
  show ?thesis
  proof (cases "unat (cn_chunk_remaining c) = 0")
    case True
    then have "cn_chunk_remaining c = 0" by (simp add: unat_eq_0)
    with True f r assms(4) show ?thesis by (simp add: loop_measure_def)
  next
    case False
    then have "length rest < length data" using r assms(2) by simp
    then show ?thesis using assms(4) by (simp add: loop_measure_def)
  qed
qed

lemma chunk_trailer_state:
  "streaming (chunk_trailer_step now v rest (c, s, w)) \<Longrightarrow>
     cn_chunk_state (fst (chunk_trailer_step now v rest (c, s, w))) = cn_chunk_state c"
  by (auto simp: chunk_trailer_step_def Let_def split: if_splits)

lemma chunk_step_decreases:
  assumes "chunk_step now data st = (rest, st')" and "data \<noteq> []" and "streaming st'"
  shows "loop_measure rest st' < loop_measure data st"
proof (cases "cn_chunk_state (fst st)")
  case LS_HTTP_CHUNK_DATA
  with assms chunk_data_decreases [of now data "fst st" "fst (snd st)" "snd (snd st)"] show ?thesis
    by (simp add: chunk_step_def)
next
  case LS_HTTP_CHUNK_TRAILER
  obtain c s w where st: "st = (c, s, w)" by (cases st)
  from assms LS_HTTP_CHUNK_TRAILER chunk_trailer_state [of now "hd data" "tl data" c s w]
  show ?thesis unfolding st by (cases data) (auto simp: chunk_step_def loop_measure_def Let_def)
next
  case LS_HTTP_CHUNK_SIZE
  with assms show ?thesis by (cases data) (auto simp: chunk_step_def loop_measure_def Let_def)
next
  case LS_HTTP_CHUNK_DATA_CR
  obtain c s w where st: "st = (c, s, w)" by (cases st)
  from assms LS_HTTP_CHUNK_DATA_CR show ?thesis
    unfolding st by (cases data) (auto simp: chunk_step_def chunk_cr_step_def loop_measure_def split: if_splits)
next
  case LS_HTTP_CHUNK_DATA_LF
  obtain c s w where st: "st = (c, s, w)" by (cases st)
  from assms LS_HTTP_CHUNK_DATA_LF show ?thesis
    unfolding st by (cases data) (auto simp: chunk_step_def chunk_lf_step_def loop_measure_def split: if_splits)
qed

function process_chunked_data :: "u64 \<Rightarrow> string \<Rightarrow> http_state \<Rightarrow> http_state" where
  "process_chunked_data now_ms data st =
     (if data = [] \<or> cn_mode (fst st) \<noteq> LS_HTTP_STREAMING_UPLOAD then st
      else case chunk_step now_ms data st of (rest, st) \<Rightarrow> process_chunked_data now_ms rest st)"
  by pat_completeness auto
termination
proof (relation "measure (\<lambda>(now, data, st). if streaming st then Suc (loop_measure data st) else 0)")
  fix now data st rest and st' :: http_state
  assume a: "\<not> (data = [] \<or> cn_mode (fst st) \<noteq> LS_HTTP_STREAMING_UPLOAD)" and e: "(rest, st') = chunk_step now data st"
  show "((now, rest, st'), (now, data, st)) \<in>
    measure (\<lambda>(now, data, st). if streaming st then Suc (loop_measure data st) else 0)"
  proof (cases "streaming st'")
    case True
    with a chunk_step_decreases [OF e [symmetric]] show ?thesis by (simp add: streaming_def)
  next
    case False
    with a show ?thesis by (simp add: streaming_def)
  qed
qed simp

declare process_chunked_data.simps [simp del]

definition process_length_data :: "u64 \<Rightarrow> string \<Rightarrow> http_state \<Rightarrow> http_state" where
  "process_length_data now_ms data = (\<lambda>(c, s, w).
     (if length data > unat (cn_body_remaining c) then
        stream_bad_request ''Upload body exceeded Content-Length'' now_ms (c, s, w)
      else (case stream_write data now_ms (c, s, w) of
              (False, st) \<Rightarrow> st
            | (True, c, s, w) \<Rightarrow>
                (let c = c\<lparr>cn_body_remaining := cn_body_remaining c - of_nat (length data)\<rparr> in
                 if cn_body_remaining c = 0 then stream_finish now_ms (c, s, w) else (c, s, w)))))"

definition process_stream_data :: "u64 \<Rightarrow> string \<Rightarrow> http_state \<Rightarrow> http_state" where
  "process_stream_data now_ms data st =
     (if cn_upload_encoding (fst st) = LS_HTTP_UPLOAD_CHUNKED then process_chunked_data now_ms data st
      else process_length_data now_ms data st)"

section \<open>Receiving a body\<close>

text \<open>The transfer \<open>s\<close> has taken exactly \<open>x\<close> since \<open>s0\<close>.\<close>

definition receiving :: "LsIncomingTransfer \<times> world \<Rightarrow> string \<Rightarrow> LsIncomingTransfer \<times> world \<Rightarrow> bool" where
  "receiving s0 x s \<longleftrightarrow>
     transfer_inv (fst s) (snd s) \<and> tr_state (fst s) = LS_TRANSFER_RECEIVING \<and>
     file_at (snd s) (tr_part_path (fst s)) = Some x \<and>
     tr_file_metadata (fst s) = tr_file_metadata (fst s0) \<and> tr_final_path (fst s) = tr_final_path (fst s0) \<and>
     tr_part_path (fst s) = tr_part_path (fst s0) \<and>
     others_unchanged {tr_final_path (fst s0), tr_part_path (fst s0)} (snd s0) (snd s)"

lemma receiving_part: "receiving s0 x (t, w) \<Longrightarrow> part_content t w x"
  by (auto simp: receiving_def intro: part_content_taken)

lemma receiving_write:
  assumes "receiving s0 x (t, w)" and "ls_transfer_write data now t w = (True, t', w')"
  shows "receiving s0 (x @ data) (t', w')"
proof -
  note wc = write_content [OF assms(2) receiving_part [OF assms(1)]]
  have inv: "transfer_inv t' w'" using inv_write [OF assms(2)] assms(1) by (simp add: receiving_def)
  have "others_unchanged {tr_final_path (fst s0), tr_part_path (fst s0)} (snd s0) w'"
    using assms(1) wc(2) by (auto simp: receiving_def others_unchanged_def)
  with inv wc(1) assms(1) show ?thesis unfolding wc(3) by (simp add: receiving_def part_content_def)
qed

lemma receiving_open: "receiving s0 x (t, w) \<Longrightarrow> tr_state t = LS_TRANSFER_RECEIVING \<and> tr_file t"
  by (simp add: receiving_def transfer_inv_def)

lemma receiving_write_fails:
  assumes "receiving s0 x (t, w)" and "ls_transfer_write data now t w = (False, t', w')"
  shows "tr_state t' = LS_TRANSFER_FAILED"
  using assms(2) receiving_open [OF assms(1)]
  by (auto simp: ls_transfer_write_def split: if_splits prod.splits dest!: fail_result(1))

lemma receiving_finish:
  assumes "receiving s0 x (t, w)" and "ls_transfer_finish now t w = (r, t', w')"
  shows "(r = LS_TRANSFER_FINISH_SUCCESS \<longrightarrow> received_intact s0 x (t', w')) \<and>
    (r \<noteq> LS_TRANSFER_FINISH_SUCCESS \<longrightarrow> tr_state t' = LS_TRANSFER_FAILED)"
proof (cases "r = LS_TRANSFER_FINISH_SUCCESS")
  case True
  have m: "file_message_wf (tr_file_metadata t)" "tr_part_path t = tr_final_path t @ ''.part''"
    using assms(1) by (auto simp: receiving_def transfer_inv_def has_session_def)
  note fs = finish_success [OF assms(2) [unfolded True] receiving_part [OF assms(1)] m(2)]
  have o: "others_unchanged {tr_final_path (fst s0), tr_part_path (fst s0)} (snd s0) w'"
    using fs(3) assms(1) by (auto simp: receiving_def others_unchanged_def)
  have "tr_state t' = LS_TRANSFER_COMPLETED" unfolding fs(7) by (simp add: invalidate_credentials_def)
  with fs(1,2,4,5) o m(1) assms(1) True show ?thesis
    by (auto simp: received_intact_def receiving_def Let_def file_message_wf_def)
next
  case False
  from receiving_open [OF assms(1)] have st: "tr_state t = LS_TRANSFER_RECEIVING" "tr_file t" by simp_all
  with assms(2) False have "(\<exists>m v f. ls_transfer_fail m now (t\<lparr>tr_file := f\<rparr>) v = (t', w')) \<or> (\<exists>m v. ls_transfer_fail m now t v = (t', w'))"
    by (auto simp: ls_transfer_finish_def Let_def split: if_splits prod.splits option.splits)
  with False show ?thesis by (auto dest: fail_result(1))
qed

text \<open>How a handler of the stream can leave it.\<close>

abbreviation transfer_of :: "http_state \<Rightarrow> LsIncomingTransfer \<times> world" where
  "transfer_of st \<equiv> (sv_transfer (fst (snd st)), snd (snd st))"

definition stream_failed :: "http_state \<Rightarrow> bool" where
  "stream_failed st \<longleftrightarrow> \<not> streaming st \<and> tr_state (fst (transfer_of st)) = LS_TRANSFER_FAILED"

definition stream_delivered :: "LsIncomingTransfer \<times> world \<Rightarrow> string \<Rightarrow> http_state \<Rightarrow> bool" where
  "stream_delivered s0 x st \<longleftrightarrow> \<not> streaming st \<and> received_intact s0 x (transfer_of st)"

lemma response_server [simp]:
  "fst (snd (response status reason ct body st)) = fst (snd st)"
  "w_fs (snd (snd (response status reason ct body st))) = w_fs (snd (snd st))"
  by (cases st; simp add: response_def reset_state_def connection_reset_def Let_def)+

lemma count_server [simp]:
  "sv_transfer (fst (snd (count_handled st))) = sv_transfer (fst (snd st))"
  "sv_transfer (fst (snd (count_rejected st))) = sv_transfer (fst (snd st))"
  "snd (snd (count_handled st)) = snd (snd st)" "snd (snd (count_rejected st)) = snd (snd st)"
  "fst (count_handled st) = fst st" "fst (count_rejected st) = fst st"
  by (cases st; simp add: count_handled_def count_rejected_def)+

lemma received_intact_fs:
  "w_fs w' = w_fs w \<Longrightarrow> received_intact s0 x (t, w') = received_intact s0 x (t, w)"
  by (simp add: received_intact_def file_at_def others_unchanged_def Let_def)

lemma stream_bad_request_fails: "stream_failed (stream_bad_request m now (c, s, w))"
proof -
  obtain t' w' where "ls_transfer_fail (Some m) now (sv_transfer s) w = (t', w')" by fastforce
  with fail_result(1) [OF this] show ?thesis
    by (simp add: stream_failed_def)
       (simp add: stream_bad_request_def on_transfer_def empty_response_def)
qed

lemma stream_finish_ends:
  assumes "receiving s0 x (sv_transfer s, w)"
  shows "stream_delivered s0 x (stream_finish now (c, s, w)) \<or> stream_failed (stream_finish now (c, s, w))"
proof -
  obtain r t' w' where f: "ls_transfer_finish now (sv_transfer s) w = (r, t', w')"
    by (metis prod_cases3)
  let ?st = "stream_finish now (c, s, w)"
  have t: "sv_transfer (fst (snd ?st)) = t'" "w_fs (snd (snd ?st)) = w_fs w'"
    using f by (auto simp: stream_finish_def empty_response_def message_response_def Let_def)
  from receiving_finish [OF assms f] show ?thesis
    by (auto simp: stream_delivered_def stream_failed_def t received_intact_fs [OF t(2)])
qed

lemma stream_write_result:
  assumes "receiving s0 x (sv_transfer s, w)" and "stream_write data now (c, s, w) = (ok, st')"
  shows "(ok \<longrightarrow> (\<exists>s' w'. st' = (c, s', w') \<and> receiving s0 (x @ data) (sv_transfer s', w'))) \<and> (\<not> ok \<longrightarrow> stream_failed st')"
proof -
  obtain o' t' w' where wr: "ls_transfer_write data now (sv_transfer s) w = (o', t', w')"
    by (metis prod_cases3)
  show ?thesis
  proof (cases o')
    case True
    with wr assms(2) receiving_write [OF assms(1)] show ?thesis by (auto simp: stream_write_def Let_def)
  next
    case False
    with wr have "tr_state t' = LS_TRANSFER_FAILED" using receiving_write_fails [OF assms(1)] by simp
    with wr False assms(2) show ?thesis
      by (auto simp: stream_write_def stream_failed_def empty_response_def Let_def)
  qed
qed

section \<open>Refinement of the decoder\<close>

definition decoder_of :: "LsHttpConnection \<Rightarrow> chunk_decoder" where
  "decoder_of c = \<lparr>dc_state = cn_chunk_state c, dc_remaining = unat (cn_chunk_remaining c),
                  dc_line = cn_chunk_line c, dc_trailer = cn_trailer_bytes c\<rparr>"

definition chunk_ok :: "LsHttpConnection \<Rightarrow> bool" where
  "chunk_ok c \<longleftrightarrow> (cn_chunk_state c = LS_HTTP_CHUNK_DATA \<longrightarrow> cn_chunk_remaining c \<noteq> 0)"

text \<open>What stays of a connection while a body is read.\<close>

definition same_stream :: "LsHttpConnection \<Rightarrow> LsHttpConnection \<Rightarrow> bool" where
  "same_stream c c' \<longleftrightarrow>
     cn_upload_encoding c' = cn_upload_encoding c \<and> cn_fd c' = cn_fd c \<and> cn_peer_ip c' = cn_peer_ip c \<and>
     cn_mode c' = cn_mode c"

definition chunk_progress ::
    "LsIncomingTransfer \<times> world \<Rightarrow> string \<Rightarrow> string \<Rightarrow> LsHttpConnection \<Rightarrow> http_state \<Rightarrow> bool" where
  "chunk_progress s0 x seen c st \<longleftrightarrow>
     (\<exists>p. decode seen (decoder_of c) = Some (decoder_of (fst st), p, False) \<and> receiving s0 (x @ p) (transfer_of st)) \<and>
     chunk_ok (fst st) \<and> same_stream c (fst st)"

lemma remaining_less:
  fixes r :: u64
  assumes "a \<le> unat r"
  shows "unat (r - of_nat a) = unat r - a" and "r - of_nat a = 0 \<longleftrightarrow> a = unat r"
proof -
  have "unat r < 2 ^ 64" using unsigned_less [of r] by simp
  then have u: "unat (of_nat a :: u64) = a" using assms by (simp add: unat_of_nat)
  then have "(of_nat a :: u64) \<le> r" using assms by (simp add: word_le_nat_alt)
  from unat_sub [OF this] u show "unat (r - of_nat a) = unat r - a" by simp
  then show "r - of_nat a = 0 \<longleftrightarrow> a = unat r"
    using assms unat_eq_0 [of "r - of_nat a"] by (auto simp del: unat_eq_0)
qed

lemma chunk_data_refines:
  assumes "receiving s0 x (sv_transfer s, w)" and "chunk_ok c" and "data \<noteq> []"
    and "cn_chunk_state c = LS_HTTP_CHUNK_DATA"
    and "chunk_data_step now data (c, s, w) = (rest, st')"
  shows "stream_failed st' \<or> (\<exists>pre. data = pre @ rest \<and> chunk_progress s0 x pre c st')"
proof -
  let ?a = "min (length data) (unat (cn_chunk_remaining c))"
  obtain ok st1 where wr: "stream_write (take ?a data) now (c, s, w) = (ok, st1)" by (metis surj_pair)
  note r = stream_write_result [OF assms(1) wr]
  have a: "take ?a data \<noteq> []" "?a \<le> unat (cn_chunk_remaining c)"
    using assms(2-4) by (auto simp: chunk_ok_def unat_gt_0)
  consider "stream_failed st'"
    | "ok" "rest = drop ?a data" "st' = ((fst st1)\<lparr>cn_chunk_remaining := cn_chunk_remaining (fst st1) - of_nat ?a,
         cn_chunk_state := (if cn_chunk_remaining (fst st1) - of_nat ?a = 0 then LS_HTTP_CHUNK_DATA_CR
           else cn_chunk_state (fst st1))\<rparr>, snd st1)"
  proof (cases ok)
    case False
    with assms(5) wr r that(1) stream_bad_request_fails show ?thesis
      by (cases st1) (auto simp: chunk_data_step_def Let_def split: if_splits)
  next
    case True
    with assms(5) wr that stream_bad_request_fails show ?thesis
      by (cases st1) (auto simp: chunk_data_step_def Let_def split: if_splits)
  qed
  then show ?thesis
  proof cases
    case 2
    with r obtain s1 w1 where st1: "st1 = (c, s1, w1)" "receiving s0 (x @ take ?a data) (sv_transfer s1, w1)" by auto
    have "decode (take ?a data) (decoder_of c) = Some (decoder_of (fst st'), take ?a data, False)"
      using decode_data_chars [of "decoder_of c" "take ?a data"] a assms(4) remaining_less [OF a(2)]
      unfolding 2(3) st1(1) by (simp add: decoder_of_def)
    moreover have "chunk_ok (fst st') \<and> same_stream c (fst st')"
      unfolding 2(3) st1(1) by (simp add: chunk_ok_def same_stream_def)
    moreover have "receiving s0 (x @ take ?a data) (transfer_of st')" unfolding 2(3) using st1 by simp
    ultimately have "chunk_progress s0 x (take ?a data) c st'" unfolding chunk_progress_def by blast
    moreover have "data = take ?a data @ rest" unfolding 2(2) by simp
    ultimately show ?thesis by blast
  qed simp
qed

lemma chunk_step_refines:
  assumes "receiving s0 x (sv_transfer s, w)" and "chunk_ok c" and "data \<noteq> []"
    and "chunk_step now data (c, s, w) = (rest, st')"
  shows "stream_failed st' \<or>
    (rest = [] \<and> (\<exists>d. decode data (decoder_of c) = Some (d, [], True)) \<and> stream_delivered s0 x st') \<or>
    (\<exists>pre. data = pre @ rest \<and> chunk_progress s0 x pre c st')"
proof -
  obtain v r where d: "data = v # r" using assms(3) by (cases data) auto
  note bad = stream_bad_request_fails
  have rx: "receiving s0 (x @ []) (sv_transfer s, w)" using assms(1) by simp
  have prog: "chunk_progress s0 x [v] c (c', s, w)"
    if "decode_char v (decoder_of c) = Some (decoder_of c', [], False)" "chunk_ok c'" "same_stream c c'" for c'
    using that rx by (simp add: chunk_progress_def)
  show ?thesis
  proof (cases "cn_chunk_state c")
    case LS_HTTP_CHUNK_DATA
    with assms(4) have "chunk_data_step now data (c, s, w) = (rest, st')" by (simp add: chunk_step_def)
    from chunk_data_refines [OF assms(1-3) LS_HTTP_CHUNK_DATA this] show ?thesis by blast
  next
    case LS_HTTP_CHUNK_DATA_CR
    with assms(4) d have e: "rest = r" "st' = chunk_cr_step now v (c, s, w)" by (auto simp: chunk_step_def)
    show ?thesis
    proof (cases "v = CR")
      case True
      with prog [of "c\<lparr>cn_chunk_state := LS_HTTP_CHUNK_DATA_LF\<rparr>"] LS_HTTP_CHUNK_DATA_CR
      have "chunk_progress s0 x [v] c st'" unfolding e
        by (simp add: chunk_cr_step_def decoder_of_def decode_char_def chunk_ok_def same_stream_def)
      with d e show ?thesis by auto
    qed (use e bad in \<open>simp add: chunk_cr_step_def\<close>)
  next
    case LS_HTTP_CHUNK_DATA_LF
    with assms(4) d have e: "rest = r" "st' = chunk_lf_step now v (c, s, w)" by (auto simp: chunk_step_def)
    show ?thesis
    proof (cases "v = LF")
      case True
      with prog [of "c\<lparr>cn_chunk_state := LS_HTTP_CHUNK_SIZE\<rparr>"] LS_HTTP_CHUNK_DATA_LF
      have "chunk_progress s0 x [v] c st'" unfolding e
        by (simp add: chunk_lf_step_def decoder_of_def decode_char_def chunk_ok_def same_stream_def)
      with d e show ?thesis by auto
    qed (use e bad in \<open>simp add: chunk_lf_step_def\<close>)
  next
    case LS_HTTP_CHUNK_SIZE
    with assms(4) d have e: "rest = r" "st' = chunk_size_step now v (c, s, w)" by (auto simp: chunk_step_def)
    have "stream_failed st' \<or> (v = LF \<and> cn_chunk_line c \<noteq> [] \<and> last (cn_chunk_line c) = CR \<and>
        (\<exists>n. parse_chunk_size (butlast (cn_chunk_line c)) = Some n)) \<or> (v \<noteq> LF \<and> length (cn_chunk_line c) < 32)"
      unfolding e using bad by (auto simp: chunk_size_step_def Let_def split: option.splits)
    then consider "stream_failed st'"
      | n where "v = LF" "cn_chunk_line c \<noteq> []" "last (cn_chunk_line c) = CR"
          "parse_chunk_size (butlast (cn_chunk_line c)) = Some n"
      | "v \<noteq> LF" "length (cn_chunk_line c) < 32"
      by blast
    then have "stream_failed st' \<or> chunk_progress s0 x [v] c st'"
    proof cases
      case 2
      with prog [of "c\<lparr>cn_chunk_line := [], cn_chunk_remaining := n,
            cn_chunk_state := (if n = 0 then LS_HTTP_CHUNK_TRAILER else LS_HTTP_CHUNK_DATA)\<rparr>"] LS_HTTP_CHUNK_SIZE
      have "chunk_progress s0 x [v] c st'" unfolding e
        by (simp add: chunk_size_step_def decoder_of_def decode_char_def chunk_ok_def same_stream_def)
      then show ?thesis by simp
    next
      case 3
      with prog [of "c\<lparr>cn_chunk_line := cn_chunk_line c @ [v]\<rparr>"] LS_HTTP_CHUNK_SIZE
      have "chunk_progress s0 x [v] c st'" unfolding e
        by (simp add: chunk_size_step_def decoder_of_def decode_char_def chunk_ok_def same_stream_def Let_def)
      then show ?thesis by simp
    qed simp
    with d e show ?thesis by auto
  next
    case LS_HTTP_CHUNK_TRAILER
    with assms(4) d have e: "rest = r" "st' = chunk_trailer_step now v r (c, s, w)" by (auto simp: chunk_step_def)
    let ?c = "c\<lparr>cn_trailer_bytes := cn_trailer_bytes c + 1\<rparr>"
    have "stream_failed st' \<or> (v = LF \<and> cn_trailer_bytes c + 1 \<le> 2048 \<and> cn_chunk_line c = [CR] \<and> r = [] \<and>
        st' = stream_finish now (?c, s, w)) \<or>
      (v = LF \<and> cn_trailer_bytes c + 1 \<le> 2048 \<and> cn_chunk_line c \<noteq> [] \<and> cn_chunk_line c \<noteq> [CR] \<and>
        last (cn_chunk_line c) = CR) \<or>
      (v \<noteq> LF \<and> cn_trailer_bytes c + 1 \<le> 2048 \<and> length (cn_chunk_line c) < 32)"
      unfolding e using bad by (auto simp: chunk_trailer_step_def Let_def not_less not_le)
    then consider "stream_failed st'"
      | "v = LF" "cn_trailer_bytes c + 1 \<le> 2048" "cn_chunk_line c = [CR]" "r = []" "st' = stream_finish now (?c, s, w)"
      | "v = LF" "cn_trailer_bytes c + 1 \<le> 2048" "cn_chunk_line c \<noteq> []" "cn_chunk_line c \<noteq> [CR]" "last (cn_chunk_line c) = CR"
      | "v \<noteq> LF" "cn_trailer_bytes c + 1 \<le> 2048" "length (cn_chunk_line c) < 32"
      by blast
    then show ?thesis
    proof cases
      case 2
      with stream_finish_ends [OF assms(1), of now ?c] LS_HTTP_CHUNK_TRAILER d e show ?thesis
        by (auto simp: decoder_of_def decode_char_def Let_def)
    next
      case 3
      with prog [of "?c\<lparr>cn_chunk_line := []\<rparr>"] LS_HTTP_CHUNK_TRAILER
      have "chunk_progress s0 x [v] c st'" unfolding e
        by (simp add: chunk_trailer_step_def decoder_of_def decode_char_def chunk_ok_def same_stream_def Let_def)
      with d e show ?thesis by auto
    next
      case 4
      with prog [of "?c\<lparr>cn_chunk_line := cn_chunk_line c @ [v]\<rparr>"] LS_HTTP_CHUNK_TRAILER
      have "chunk_progress s0 x [v] c st'" unfolding e
        by (simp add: chunk_trailer_step_def decoder_of_def decode_char_def chunk_ok_def same_stream_def Let_def)
      with d e show ?thesis by auto
    qed simp
  qed
qed

text \<open>However the loop ends, the bytes it took decode to the payload the file has grown by.\<close>

lemma process_chunked_refines:
  assumes "process_chunked_data now data (c, s, w) = st'" and "receiving s0 x (sv_transfer s, w)"
    and "chunk_ok c" and "cn_mode c = LS_HTTP_STREAMING_UPLOAD" and "data \<noteq> []"
  shows "stream_failed st' \<or>
    (\<exists>d p. decode data (decoder_of c) = Some (d, p, True) \<and> stream_delivered s0 (x @ p) st') \<or>
    (streaming st' \<and> chunk_progress s0 x data c st')"
  using assms
proof (induction now data "(c, s, w)" arbitrary: c s w x rule: process_chunked_data.induct)
  case (1 now data)
  obtain rest c1 s1 w1 where st: "chunk_step now data (c, s, w) = (rest, c1, s1, w1)" by (metis prod_cases4)
  have unfold: "process_chunked_data now data (c, s, w) = process_chunked_data now rest (c1, s1, w1)"
    using "1.prems"(4,5) st by (subst process_chunked_data.simps) simp
  have stop: "process_chunked_data now rest (c1, s1, w1) = (c1, s1, w1)" if "\<not> streaming (c1, s1, w1) \<or> rest = []"
    using that by (subst process_chunked_data.simps) (auto simp: streaming_def)
  from chunk_step_refines [OF "1.prems"(2,3,5) st]
  show ?case
  proof (elim disjE conjE exE)
    assume f: "stream_failed (c1, s1, w1)"
    then have "\<not> streaming (c1, s1, w1)" by (simp add: stream_failed_def)
    with f stop unfold "1.prems"(1) show ?thesis by simp
  next
    fix d assume d: "stream_delivered s0 x (c1, s1, w1)" "decode data (decoder_of c) = Some (d, [], True)"
    then have "\<not> streaming (c1, s1, w1)" by (simp add: stream_delivered_def)
    with d stop unfold "1.prems"(1) have "stream_delivered s0 (x @ []) st'" by simp
    with d(2) show ?thesis by blast
  next
    fix pre assume pre: "data = pre @ rest" "chunk_progress s0 x pre c (c1, s1, w1)"
    from pre(2) obtain p where p: "decode pre (decoder_of c) = Some (decoder_of c1, p, False)"
      "receiving s0 (x @ p) (sv_transfer s1, w1)" "chunk_ok c1" "same_stream c c1"
      by (auto simp: chunk_progress_def)
    have m: "cn_mode c1 = LS_HTTP_STREAMING_UPLOAD" using p(4) "1.prems"(4) by (simp add: same_stream_def)
    show ?thesis
    proof (cases "rest = []")
      case True
      with stop unfold "1.prems"(1) have "st' = (c1, s1, w1)" by simp
      with True pre m show ?thesis by (auto simp: streaming_def)
    next
      case False
      have g: "\<not> (data = [] \<or> cn_mode (fst (c, s, w)) \<noteq> LS_HTTP_STREAMING_UPLOAD)" using "1.prems"(4,5) by simp
      have "process_chunked_data now rest (c1, s1, w1) = st'" using unfold "1.prems"(1) by simp
      from "1.hyps" [OF g st [symmetric] this p(2,3) m False] show ?thesis
      proof (elim disjE conjE exE)
        fix d q assume "decode rest (decoder_of c1) = Some (d, q, True)" "stream_delivered s0 ((x @ p) @ q) st'"
        moreover from this(1) decode_append [OF p(1), of rest] pre(1)
        have "decode data (decoder_of c) = Some (d, p @ q, True)" by simp
        ultimately show ?thesis by auto
      next
        assume s: "streaming st'" and pr: "chunk_progress s0 (x @ p) rest c1 st'"
        then obtain q where q: "decode rest (decoder_of c1) = Some (decoder_of (fst st'), q, False)"
          "receiving s0 ((x @ p) @ q) (transfer_of st')" "chunk_ok (fst st')" "same_stream c1 (fst st')"
          by (auto simp: chunk_progress_def)
        from q(1) decode_append [OF p(1), of rest] pre(1)
        have "decode data (decoder_of c) = Some (decoder_of (fst st'), p @ q, False)" by simp
        with q p(4) s show ?thesis by (auto simp: chunk_progress_def same_stream_def)
      qed simp
    qed
  qed
qed

section \<open>Both framings\<close>

text \<open>The bytes \<open>body\<close> complete the body of the connection \<open>c\<close> with \<open>payload\<close>.\<close>

definition body_completes :: "LsHttpConnection \<Rightarrow> string \<Rightarrow> string \<Rightarrow> bool" where
  "body_completes c body payload \<longleftrightarrow>
     (if cn_upload_encoding c = LS_HTTP_UPLOAD_CHUNKED
      then \<exists>d. decode body (decoder_of c) = Some (d, payload, True)
      else payload = body \<and> length body = unat (cn_body_remaining c))"

definition stream_progress ::
    "LsIncomingTransfer \<times> world \<Rightarrow> string \<Rightarrow> string \<Rightarrow> LsHttpConnection \<Rightarrow> http_state \<Rightarrow> bool" where
  "stream_progress s0 x seen c st \<longleftrightarrow>
     (\<exists>p. receiving s0 (x @ p) (transfer_of st) \<and>
        (\<forall>body q. body_completes (fst st) body q \<longrightarrow> body_completes c (seen @ body) (p @ q))) \<and>
     chunk_ok (fst st) \<and> same_stream c (fst st)"

lemma process_length_refines:
  assumes "process_length_data now data (c, s, w) = st'" and "receiving s0 x (sv_transfer s, w)"
    and "cn_upload_encoding c = LS_HTTP_UPLOAD_LENGTH" and "chunk_ok c" and "cn_mode c = LS_HTTP_STREAMING_UPLOAD"
  shows "stream_failed st' \<or> (body_completes c data data \<and> stream_delivered s0 (x @ data) st') \<or>
    (streaming st' \<and> stream_progress s0 x data c st')"
proof (cases "length data > unat (cn_body_remaining c)")
  case True
  with assms(1) stream_bad_request_fails show ?thesis by (auto simp: process_length_data_def)
next
  case False
  then have le: "length data \<le> unat (cn_body_remaining c)" by simp
  obtain ok st1 where wr: "stream_write data now (c, s, w) = (ok, st1)" by (metis surj_pair)
  note r = stream_write_result [OF assms(2) wr]
  show ?thesis
  proof (cases ok)
    case False
    with r wr assms(1) le show ?thesis by (auto simp: process_length_data_def not_less)
  next
    case True
    with r obtain s1 w1 where st1: "st1 = (c, s1, w1)" "receiving s0 (x @ data) (sv_transfer s1, w1)" by auto
    let ?c = "c\<lparr>cn_body_remaining := cn_body_remaining c - of_nat (length data)\<rparr>"
    have st': "st' = (if cn_body_remaining ?c = 0 then stream_finish now (?c, s1, w1) else (?c, s1, w1))"
      using assms(1) wr True st1 le by (simp add: process_length_data_def Let_def)
    note l = remaining_less [OF le]
    show ?thesis
    proof (cases "cn_body_remaining ?c = 0")
      case True
      with l(2) assms(3) have "body_completes c data data" by (simp add: body_completes_def)
      with stream_finish_ends [OF st1(2), of now ?c] st' True show ?thesis by auto
    next
      case False
      have "body_completes c (data @ body) (data @ q)" if "body_completes ?c body q" for body q
        using that assms(3) l(1) le by (auto simp: body_completes_def)
      then have "stream_progress s0 x data c (?c, s1, w1)"
        using st1(2) assms(4) by (auto simp: stream_progress_def chunk_ok_def same_stream_def)
      with st' False assms(5) show ?thesis by (simp add: streaming_def)
    qed
  qed
qed

lemma process_stream_refines:
  assumes "process_stream_data now data (c, s, w) = st'" and "receiving s0 x (sv_transfer s, w)"
    and "chunk_ok c" and "cn_mode c = LS_HTTP_STREAMING_UPLOAD" and "data \<noteq> []"
  shows "stream_failed st' \<or> (\<exists>p. body_completes c data p \<and> stream_delivered s0 (x @ p) st') \<or>
    (streaming st' \<and> stream_progress s0 x data c st')"
proof (cases "cn_upload_encoding c = LS_HTTP_UPLOAD_CHUNKED")
  case True
  with assms(1) have "process_chunked_data now data (c, s, w) = st'" by (simp add: process_stream_data_def)
  from process_chunked_refines [OF this assms(2-5)] show ?thesis
  proof (elim disjE conjE exE)
    assume p: "streaming st'" "chunk_progress s0 x data c st'"
    then obtain q where q: "decode data (decoder_of c) = Some (decoder_of (fst st'), q, False)"
      "receiving s0 (x @ q) (transfer_of st')" "chunk_ok (fst st')" "same_stream c (fst st')"
      by (auto simp: chunk_progress_def)
    have "body_completes c (data @ body) (q @ r)" if "body_completes (fst st') body r" for body r
      using that True q(4) decode_append [OF q(1), of body] by (auto simp: body_completes_def same_stream_def)
    with q p(1) show ?thesis by (auto simp: stream_progress_def)
  qed (auto simp: body_completes_def True)
next
  case False
  then have e: "cn_upload_encoding c = LS_HTTP_UPLOAD_LENGTH" by (cases "cn_upload_encoding c") auto
  with assms(1) have "process_length_data now data (c, s, w) = st'" by (simp add: process_stream_data_def)
  from process_length_refines [OF this assms(2) e assms(3,4)] show ?thesis by blast
qed

end
