(* ===== verification/Http_Upload.thy ===== *)
theory Http_Upload
  imports Http_Stream
begin

text \<open>
  The upload handler of \<open>source/http_server.c\<close>: \<open>handle_upload_start\<close> opens the stream for a request
  with valid credentials, \<open>read_stream\<close> takes what the socket has. The first half shows that a
  completed upload has read exactly one body from the connection and stored its payload, the second
  that every handler of a connection acts on the transfer only through the transfer's own operations.
\<close>

definition stream_lost :: "string \<Rightarrow> u64 \<Rightarrow> http_state \<Rightarrow> http_state" where
  "stream_lost message now_ms = (\<lambda>(c, s, w).
     (case on_transfer (ls_transfer_fail (Some message) now_ms) (s, w) of
        (s, w) \<Rightarrow> count_rejected (reset_state (c, s, w))))"

definition read_stream :: "u64 \<Rightarrow> http_state \<Rightarrow> http_state" where
  "read_stream now_ms = (\<lambda>(c, s, w).
     (case do_recv (cn_fd c) LS3DS_HTTP_STREAM_BUFFER_SIZE w of
        (RecvEof, w) \<Rightarrow> stream_lost ''Sender disconnected during upload'' now_ms (c, s, w)
      | (RecvAgain, w) \<Rightarrow> (c, s, w)
      | (RecvError n, w) \<Rightarrow> stream_lost ''Network receive failed'' now_ms (c, s\<lparr>sv_last_errno := n\<rparr>, w)
      | (RecvData data, w) \<Rightarrow> process_stream_data now_ms data (c\<lparr>cn_last_activity_ms := now_ms\<rparr>, s, w)))"

text \<open>The three parameters of an upload, in the order the code reads them.\<close>

definition upload_parameters :: "ParsedRequest \<Rightarrow> (string \<times> string \<times> string) option" where
  "upload_parameters request =
     (let target = req_target request in
      if \<not> req_has_content_length request \<and> \<not> req_chunked request then None
      else case query_value target ''sessionId'' LS3DS_SESSION_ID_CAPACITY of
        QUERY_OK session_id \<Rightarrow>
          (case query_value target ''fileId'' LS3DS_FILE_ID_CAPACITY of
             QUERY_OK fileid \<Rightarrow>
               (case query_value target ''token'' LS3DS_FILE_TOKEN_CAPACITY of
                  QUERY_OK token \<Rightarrow> Some (session_id, fileid, token)
                | _ \<Rightarrow> None)
           | _ \<Rightarrow> None)
      | _ \<Rightarrow> None)"

definition start_stream :: "ParsedRequest \<Rightarrow> LsHttpConnection \<Rightarrow> LsHttpConnection" where
  "start_stream request c =
     c\<lparr>cn_mode := LS_HTTP_STREAMING_UPLOAD,
       cn_upload_encoding := (if req_chunked request then LS_HTTP_UPLOAD_CHUNKED else LS_HTTP_UPLOAD_LENGTH),
       cn_body_remaining := req_content_length request, cn_chunk_state := LS_HTTP_CHUNK_SIZE, cn_rx := []\<rparr>"

definition handle_upload_start :: "ParsedRequest \<Rightarrow> string \<Rightarrow> u64 \<Rightarrow> http_state \<Rightarrow> http_state" where
  "handle_upload_start request initial_data now_ms = (\<lambda>(c, s, w).
     (case upload_parameters request of
        None \<Rightarrow> count_rejected (message_response 400 ''Bad Request'' ''Missing parameters'' (c, s, w))
      | Some (session_id, fileid, token) \<Rightarrow>
          (if \<not> ls_transfer_validate_upload (sv_transfer s) (cn_peer_ip c) session_id fileid token then
             count_rejected (message_response 403 ''Forbidden'' ''Invalid token or IP address'' (c, s, w))
           else (case ls_transfer_begin_stream
                        (if req_has_content_length request then Some (req_content_length request) else None)
                        now_ms (sv_transfer s) w of
                   (False, t, w) \<Rightarrow>
                     count_rejected
                       (if req_has_content_length request
                        then empty_response 400 ''Bad Request'' (c, s\<lparr>sv_transfer := t\<rparr>, w)
                        else empty_response 500 ''Internal Server Error'' (c, s\<lparr>sv_transfer := t\<rparr>, w))
                 | (True, t, w) \<Rightarrow>
                     (let st = (start_stream request c, s\<lparr>sv_transfer := t\<rparr>, w) in
                      if initial_data \<noteq> [] then process_stream_data now_ms initial_data st
                      else if \<not> req_chunked request \<and> req_content_length request = 0 then stream_finish now_ms st
                      else st)))))"

section \<open>One upload, read by read\<close>

text \<open>The reads of one connection, at the given times, as long as it streams.\<close>

fun stream_reads :: "u64 list \<Rightarrow> http_state \<Rightarrow> http_state" where
  "stream_reads [] st = st"
| "stream_reads (now # ts) st = stream_reads ts (if streaming st then read_stream now st else st)"

lemma stream_reads_stopped: "\<not> streaming st \<Longrightarrow> stream_reads ts st = st"
  by (induction ts) simp_all

subsection \<open>Only \<open>recv\<close> takes bytes from a socket\<close>

abbreviation recv_of :: "http_state \<Rightarrow> int \<Rightarrow> recv_answer list" where
  "recv_of st \<equiv> w_recv (snd (snd st))"

lemma reset_recv [simp]: "recv_of (reset_state st) = recv_of st"
  by (cases st) (simp add: reset_state_def connection_reset_def do_close_def)

lemma response_recv [simp]: "recv_of (response status reason ct body st) = recv_of st"
  "recv_of (empty_response status reason st) = recv_of st"
  "recv_of (message_response status reason body st) = recv_of st"
  by (cases st; simp add: response_def empty_response_def message_response_def Let_def)+

lemma net_recv: "same_net w w' \<Longrightarrow> w_recv w' = w_recv w"
  by (simp add: same_net_def)

lemma stream_finish_recv [simp]: "recv_of (stream_finish now st) = recv_of st"
  by (cases st) (auto simp: stream_finish_def Let_def split: prod.splits dest!: finish_net net_recv)

lemma stream_bad_request_recv [simp]: "recv_of (stream_bad_request m now st) = recv_of st"
  by (cases st) (auto simp: stream_bad_request_def on_transfer_def split: prod.splits dest!: fail_net net_recv)

lemma stream_write_recv: "stream_write data now st = (ok, st') \<Longrightarrow> recv_of st' = recv_of st"
  by (cases st) (auto simp: stream_write_def Let_def split: prod.splits if_splits dest!: write_net net_recv)

lemma chunk_step_recv: "chunk_step now data st = (rest, st') \<Longrightarrow> recv_of st' = recv_of st"
  by (cases st)
     (auto simp: chunk_step_def chunk_size_step_def chunk_data_step_def chunk_cr_step_def chunk_lf_step_def
        chunk_trailer_step_def Let_def split: LsHttpChunkState.splits if_splits option.splits prod.splits bool.splits
        dest!: stream_write_recv)

lemma process_chunked_recv: "recv_of (process_chunked_data now data st) = recv_of st"
proof (induction now data st rule: process_chunked_data.induct)
  case (1 now data st)
  obtain rest st' where s: "chunk_step now data st = (rest, st')" by (metis surj_pair)
  with 1 chunk_step_recv [OF s] show ?case by (subst process_chunked_data.simps) auto
qed

lemma process_stream_recv [simp]: "recv_of (process_stream_data now data st) = recv_of st"
  by (cases st)
     (auto simp: process_stream_data_def process_chunked_recv process_length_data_def Let_def
        split: prod.splits bool.splits dest!: stream_write_recv)

lemma transfer_inv_fs: "w_fs w' = w_fs w \<Longrightarrow> transfer_inv t w' = transfer_inv t w"
  by (simp add: transfer_inv_def part_content_def file_at_def)

lemma begin_stream_failed:
  assumes "ls_transfer_begin_stream declared now t w = (False, t', w')" and "tr_state t = LS_TRANSFER_ACCEPTED"
  shows "tr_state t' = LS_TRANSFER_FAILED"
  using assms
  by (auto simp: ls_transfer_begin_stream_def Let_def set_error_def invalidate_credentials_def fail_state_def
      split: if_splits option.splits bool.splits prod.splits
      dest!: fail_result(1))

subsection \<open>A read continues, delivers or fails\<close>

lemma stream_lost_fails: "stream_failed (stream_lost m now st)"
proof -
  obtain c s w where st: "st = (c, s, w)" by (cases st)
  obtain t' w' where f: "ls_transfer_fail (Some m) now (sv_transfer s) w = (t', w')" by fastforce
  from fail_result(1) [OF f] f show ?thesis
    by (simp add: st stream_lost_def on_transfer_def stream_failed_def streaming_def reset_state_def
        count_rejected_def connection_reset_def)
qed

lemma receiving_fs: "receiving s0 x (t, w) \<Longrightarrow> w_fs w' = w_fs w \<Longrightarrow> receiving s0 x (t, w')"
  using transfer_inv_fs [of w' w t] by (auto simp: receiving_def file_at_def others_unchanged_def)

lemma stream_progress_refl: "receiving s0 x (transfer_of st) \<Longrightarrow> chunk_ok (fst st) \<Longrightarrow> fst st = c \<Longrightarrow> stream_progress s0 x [] c st"
  by (auto simp: stream_progress_def same_stream_def intro!: exI [of _ "[]"])

lemma read_stream_refines:
  assumes "receiving s0 x (transfer_of st)" and "chunk_ok (fst st)" and "streaming st"
  shows "\<exists>data. incoming (cn_fd (fst st)) (snd (snd st)) = data @ incoming (cn_fd (fst st)) (snd (snd (read_stream now st))) \<and>
    (stream_failed (read_stream now st) \<or>
     (\<exists>p. body_completes (fst st) data p \<and> stream_delivered s0 (x @ p) (read_stream now st)) \<or>
     (streaming (read_stream now st) \<and> stream_progress s0 x data (fst st) (read_stream now st)))"
proof -
  obtain c s w where st: "st = (c, s, w)" by (cases st)
  obtain a w1 where r: "do_recv (cn_fd c) LS3DS_HTTP_STREAM_BUFFER_SIZE w = (a, w1)" by fastforce
  have rc: "receiving s0 x (sv_transfer s, w1)"
    using assms(1) receiving_fs recv_fs [OF r] by (simp add: st)
  note inc = recv_incoming [OF r]
  show ?thesis
  proof (cases a)
    case (RecvData d)
    let ?c = "c\<lparr>cn_last_activity_ms := now\<rparr>"
    let ?st = "process_stream_data now d (?c, s, w1)"
    have rs: "read_stream now st = ?st" using r RecvData by (simp add: st read_stream_def)
    have "d \<noteq> []" using recv_data r RecvData by fastforce
    with process_stream_refines [OF refl rc _ _, of ?c d now] assms(2,3)
    have p: "stream_failed ?st \<or> (\<exists>p. body_completes ?c d p \<and> stream_delivered s0 (x @ p) ?st) \<or>
        (streaming ?st \<and> stream_progress s0 x d ?c ?st)"
      by (simp add: st streaming_def chunk_ok_def)
    have b: "body_completes ?c = body_completes c"
      by (simp add: body_completes_def fun_eq_iff decoder_of_def)
    have "stream_progress s0 x d ?c ?st = stream_progress s0 x d c ?st"
      by (simp add: stream_progress_def b same_stream_def)
    with p b inc RecvData show ?thesis unfolding rs
      by (intro exI [of _ d]) (simp add: st incoming_def)
  next
    case RecvAgain
    then have "read_stream now st = (c, s, w1)" using r by (simp add: st read_stream_def)
    with rc inc RecvAgain assms stream_progress_refl [of s0 x "(c, s, w1)" c] show ?thesis
      by (intro exI [of _ "[]"]) (simp add: st streaming_def)
  next
    case RecvEof
    then have e: "read_stream now st = stream_lost ''Sender disconnected during upload'' now (c, s, w1)"
      using r by (simp add: st read_stream_def)
    have "recv_of (read_stream now st) = w_recv w1"
      by (simp add: e stream_lost_def on_transfer_def split: prod.splits) (auto dest!: fail_net net_recv)
    with inc RecvEof stream_lost_fails e show ?thesis
      by (intro exI [of _ "[]"]) (simp add: st incoming_def)
  next
    case (RecvError n)
    then have e: "read_stream now st = stream_lost ''Network receive failed'' now (c, s\<lparr>sv_last_errno := n\<rparr>, w1)"
      using r by (simp add: st read_stream_def)
    have "recv_of (read_stream now st) = w_recv w1"
      by (simp add: e stream_lost_def on_transfer_def split: prod.splits) (auto dest!: fail_net net_recv)
    with inc RecvError stream_lost_fails e show ?thesis
      by (intro exI [of _ "[]"]) (simp add: st incoming_def)
  qed
qed

lemma stream_reads_refines:
  assumes "receiving s0 x (transfer_of st)" and "chunk_ok (fst st)" and "streaming st"
    and "tr_state (fst (transfer_of (stream_reads ts st))) = LS_TRANSFER_COMPLETED"
  shows "\<exists>body p. incoming (cn_fd (fst st)) (snd (snd st)) =
      body @ incoming (cn_fd (fst st)) (snd (snd (stream_reads ts st))) \<and>
    body_completes (fst st) body p \<and> received_intact s0 (x @ p) (transfer_of (stream_reads ts st))"
  using assms
proof (induction ts arbitrary: st x)
  case Nil
  then show ?case by (simp add: receiving_def)
next
  case (Cons now ts)
  let ?st = "read_stream now st"
  let ?in = "\<lambda>st'. incoming (cn_fd (fst st)) (snd (snd st'))"
  have sr: "stream_reads (now # ts) st = stream_reads ts ?st" using Cons.prems(3) by simp
  from read_stream_refines [OF Cons.prems(1-3), of now] obtain data where
    d: "?in st = data @ ?in ?st" and
    r: "stream_failed ?st \<or> (\<exists>p. body_completes (fst st) data p \<and> stream_delivered s0 (x @ p) ?st) \<or>
        (streaming ?st \<and> stream_progress s0 x data (fst st) ?st)" by blast
  from r show ?case
  proof (elim disjE exE conjE)
    assume "stream_failed ?st"
    with Cons.prems(4) sr stream_reads_stopped [of ?st ts] show ?thesis by (simp add: stream_failed_def)
  next
    fix p assume "body_completes (fst st) data p" "stream_delivered s0 (x @ p) ?st"
    with d sr stream_reads_stopped [of ?st ts] show ?thesis
      by (intro exI [of _ data] exI [of _ p]) (simp add: stream_delivered_def)
  next
    assume s: "streaming ?st" and "stream_progress s0 x data (fst st) ?st"
    then obtain p where p: "receiving s0 (x @ p) (transfer_of ?st)" "chunk_ok (fst ?st)" "same_stream (fst st) (fst ?st)"
      "\<And>body q. body_completes (fst ?st) body q \<Longrightarrow> body_completes (fst st) (data @ body) (p @ q)"
      by (auto simp: stream_progress_def)
    from Cons.IH [OF p(1,2) s] Cons.prems(4) sr obtain body q where
      "incoming (cn_fd (fst ?st)) (snd (snd ?st)) = body @ incoming (cn_fd (fst ?st)) (snd (snd (stream_reads ts ?st)))"
      "body_completes (fst ?st) body q" "received_intact s0 ((x @ p) @ q) (transfer_of (stream_reads ts ?st))" by auto
    moreover have "cn_fd (fst ?st) = cn_fd (fst st)" using p(3) by (simp add: same_stream_def)
    ultimately show ?thesis using p(4) d sr
      by (intro exI [of _ "data @ body"] exI [of _ "p @ q"]) simp
  qed
qed

subsection \<open>The whole upload\<close>

text \<open>The state in which \<open>accept_connections\<close> leaves a connection as far as chunks are concerned.\<close>

definition fresh_stream :: "LsHttpConnection \<Rightarrow> bool" where
  "fresh_stream c \<longleftrightarrow> cn_chunk_remaining c = 0 \<and> cn_chunk_line c = [] \<and> cn_trailer_bytes c = 0"

text \<open>The body a request announces by its framing headers.\<close>

definition request_body :: "ParsedRequest \<Rightarrow> string \<Rightarrow> string \<Rightarrow> bool" where
  "request_body request body payload \<longleftrightarrow>
     (if req_chunked request then chunked_body body payload
      else payload = body \<and> length body = unat (req_content_length request))"

lemma start_stream_completes:
  assumes "fresh_stream c"
  shows "body_completes (start_stream request c) body p \<longleftrightarrow> request_body request body p"
proof -
  have "decoder_of (start_stream request c) = decoder_start"
    using assms by (simp add: decoder_of_def decoder_start_def start_stream_def fresh_stream_def)
  moreover have "cn_upload_encoding (start_stream request c) =
      (if req_chunked request then LS_HTTP_UPLOAD_CHUNKED else LS_HTTP_UPLOAD_LENGTH)"
    "cn_body_remaining (start_stream request c) = req_content_length request"
    by (simp_all add: start_stream_def)
  ultimately show ?thesis
    using decode_iff_chunked_body [of body p] by (simp add: body_completes_def request_body_def)
qed

lemma upload_delivers:
  assumes "transfer_inv (sv_transfer s) w" and "fresh_stream c" and "tr_state (sv_transfer s) \<noteq> LS_TRANSFER_COMPLETED"
    and "st = stream_reads ts (handle_upload_start request initial now (c, s, w))"
    and "tr_state (fst (transfer_of st)) = LS_TRANSFER_COMPLETED"
  shows "\<exists>session_id fileid token body payload.
    upload_parameters request = Some (session_id, fileid, token) \<and>
    ls_transfer_validate_upload (sv_transfer s) (cn_peer_ip c) session_id fileid token \<and>
    initial @ incoming (cn_fd c) w = body @ incoming (cn_fd c) (snd (snd st)) \<and>
    request_body request body payload \<and> received_intact (sv_transfer s, w) payload (transfer_of st)"
proof -
  let ?h = "handle_upload_start request initial now (c, s, w)"
  have stopped: False if "\<not> streaming ?h" "tr_state (sv_transfer (fst (snd ?h))) \<noteq> LS_TRANSFER_COMPLETED"
    using that assms(4,5) stream_reads_stopped by auto
  obtain session_id fileid token where p: "upload_parameters request = Some (session_id, fileid, token)"
  proof (cases "upload_parameters request")
    case None
    then have "?h = count_rejected (message_response 400 ''Bad Request'' ''Missing parameters'' (c, s, w))"
      by (simp add: handle_upload_start_def)
    with stopped assms(3) show ?thesis by (simp add: message_response_def)
  qed (auto intro: that)
  have v: "ls_transfer_validate_upload (sv_transfer s) (cn_peer_ip c) session_id fileid token"
  proof (rule ccontr)
    assume "\<not> ?thesis"
    with p have "?h = count_rejected (message_response 403 ''Forbidden'' ''Invalid token or IP address'' (c, s, w))"
      by (simp add: handle_upload_start_def)
    with stopped assms(3) show False by (simp add: message_response_def)
  qed
  have acc: "tr_state (sv_transfer s) = LS_TRANSFER_ACCEPTED"
    using v by (auto simp: ls_transfer_validate_upload_def split: if_splits)
  let ?d = "if req_has_content_length request then Some (req_content_length request) else None"
  obtain ok t w1 where b: "ls_transfer_begin_stream ?d now (sv_transfer s) w = (ok, t, w1)" by (metis prod_cases3)
  have ok: ok
  proof (rule ccontr)
    assume n: "\<not> ok"
    have "tr_state t = LS_TRANSFER_FAILED" using begin_stream_failed [OF _ acc] b n by (metis (full_types))
    with stopped n p v b show False
      by (simp add: handle_upload_start_def empty_response_def split: if_splits)
  qed
  let ?c = "start_stream request c"
  let ?st = "(?c, s\<lparr>sv_transfer := t\<rparr>, w1)"
  have nf: "\<not> tr_file (sv_transfer s)" using assms(1) acc by (simp add: transfer_inv_def)
  have inv: "transfer_inv t w1" by (rule inv_begin_stream [OF b assms(1)])
  note ss = stream_success [OF b [unfolded eqTrueI [OF ok]] nf]
  have rc: "receiving (sv_transfer s, w) [] (transfer_of ?st)"
    using inv ss(3) ss(1) by (simp add: receiving_def file_at_def others_unchanged_def)
  have h: "?h = (if initial \<noteq> [] then process_stream_data now initial ?st
      else if \<not> req_chunked request \<and> req_content_length request = 0 then stream_finish now ?st else ?st)"
    using p v b ok by (simp add: handle_upload_start_def Let_def)
  have ck: "chunk_ok ?c" "cn_mode ?c = LS_HTTP_STREAMING_UPLOAD" "cn_fd ?c = cn_fd c"
    by (simp_all add: start_stream_def chunk_ok_def)
  have in1: "incoming (cn_fd c) w1 = incoming (cn_fd c) w"
    using begin_stream_net [OF b] by (rule same_net_incoming)
  have bc: "body_completes ?c body q = request_body request body q" for body q
    by (rule start_stream_completes [OF assms(2)])
  have "\<exists>body payload. initial @ incoming (cn_fd c) w1 = body @ incoming (cn_fd c) (snd (snd st)) \<and>
      body_completes ?c body payload \<and> received_intact (sv_transfer s, w) payload (transfer_of st)"
  proof (cases "initial = []")
    case True
    show ?thesis
    proof (cases "\<not> req_chunked request \<and> req_content_length request = 0")
      case True
      with h \<open>initial = []\<close> have hf: "?h = stream_finish now ?st" by simp
      with assms(4) stream_reads_stopped have st: "st = stream_finish now ?st" by simp
      have "received_intact (sv_transfer s, w) [] (transfer_of st)"
        using stream_finish_ends [OF rc [unfolded fst_conv snd_conv], of now ?c] assms(5) st
        by (auto simp: stream_delivered_def stream_failed_def)
      moreover have "body_completes ?c [] []" using True by (simp add: body_completes_def start_stream_def)
      moreover have "incoming (cn_fd c) (snd (snd st)) = incoming (cn_fd c) w1"
        using stream_finish_recv [of now ?st] st by (simp add: incoming_def)
      ultimately show ?thesis using \<open>initial = []\<close> by auto
    next
      case False
      with h True assms(4) have st: "st = stream_reads ts ?st" by simp
      from stream_reads_refines [OF rc, of ts] ck assms(5) st True show ?thesis
        by (simp add: streaming_def)
    qed
  next
    case False
    let ?q = "process_stream_data now initial ?st"
    from h False assms(4) have st: "st = stream_reads ts ?q" by simp
    have inq: "incoming (cn_fd c) (snd (snd ?q)) = incoming (cn_fd c) w1" by (simp add: incoming_def)
    from process_stream_refines [OF refl rc [unfolded fst_conv snd_conv] ck(1,2) False, of now]
    consider "stream_failed ?q" | pl where "body_completes ?c initial pl" "stream_delivered (sv_transfer s, w) ([] @ pl) ?q"
      | "streaming ?q" "stream_progress (sv_transfer s, w) [] initial ?c ?q" by blast
    then show ?thesis
    proof cases
      case 1
      with st assms(5) stream_reads_stopped show ?thesis by (simp add: stream_failed_def)
    next
      case 2
      with st stream_reads_stopped inq show ?thesis
        by (intro exI [of _ initial] exI [of _ pl]) (simp add: stream_delivered_def)
    next
      case 3
      then obtain pl where pl: "receiving (sv_transfer s, w) ([] @ pl) (transfer_of ?q)" "chunk_ok (fst ?q)" "same_stream ?c (fst ?q)"
        "\<And>body q. body_completes (fst ?q) body q \<Longrightarrow> body_completes ?c (initial @ body) (pl @ q)"
        by (auto simp: stream_progress_def)
      have "cn_fd (fst ?q) = cn_fd c" using pl(3) ck(3) by (simp add: same_stream_def)
      with stream_reads_refines [OF pl(1,2) 3(1), of ts] assms(5) st obtain body q where
        "incoming (cn_fd c) (snd (snd ?q)) = body @ incoming (cn_fd c) (snd (snd st))" "body_completes (fst ?q) body q"
        "received_intact (sv_transfer s, w) (([] @ pl) @ q) (transfer_of st)" by auto
      with pl(4) inq show ?thesis by (intro exI [of _ "initial @ body"] exI [of _ "pl @ q"]) simp
    qed
  qed
  with p v in1 bc show ?thesis by auto
qed


section \<open>Handlers act through the operations of the transfer\<close>

text \<open>
  \<open>transfer_run sb s s'\<close>: from \<open>s\<close> to \<open>s'\<close> the transfer and the card went through operations of the
  transfer only; between them the sockets may have moved. \<open>sb\<close> says whether a stream may have begun and
  whether a file may have been accepted.
\<close>

datatype permits = Permits (may_stream: bool) (may_accept: bool)

definition permitted :: "permits \<Rightarrow> transfer_op \<Rightarrow> bool" where
  "permitted sb op = (case op of Op_stream _ _ \<Rightarrow> may_stream sb | Op_accept _ _ \<Rightarrow> may_accept sb | _ \<Rightarrow> True)"

inductive transfer_run :: "permits \<Rightarrow> LsIncomingTransfer \<times> world \<Rightarrow> LsIncomingTransfer \<times> world \<Rightarrow> bool" for sb where
  run_refl: "transfer_run sb s s"
| run_step: "transfer_run sb s s1 \<Longrightarrow> transfer_step s1 op s2 \<Longrightarrow> permitted sb op \<Longrightarrow> transfer_run sb s s2"
| run_net: "transfer_run sb s (t, w1) \<Longrightarrow> w_fs w2 = w_fs w1 \<Longrightarrow> (w_io w1 = [] \<longrightarrow> w_io w2 = []) \<Longrightarrow>
     transfer_run sb s (t, w2)"

lemma run_trans: "transfer_run sb b c \<Longrightarrow> transfer_run sb a b \<Longrightarrow> transfer_run sb a c"
  by (induction rule: transfer_run.induct) (auto intro: transfer_run.intros)

lemma run_mono: "transfer_run sb s s' \<Longrightarrow> transfer_run (Permits True True) s s'"
  by (induction rule: transfer_run.induct) (auto intro: transfer_run.intros simp: permitted_def split: transfer_op.split)

lemma run_op: "transfer_step s op s' \<Longrightarrow> permitted sb op \<Longrightarrow> transfer_run sb s s'"
  by (rule run_step [OF run_refl])

text \<open>What a socket may do to the world.\<close>

definition net_only :: "world \<Rightarrow> world \<Rightarrow> bool" where
  "net_only w w' \<longleftrightarrow> w_fs w' = w_fs w \<and> (w_io w = [] \<longrightarrow> w_io w' = [])"

lemma net_only_refl [simp]: "net_only w w"
  by (simp add: net_only_def)

lemma net_only_trans: "net_only a b \<Longrightarrow> net_only b c \<Longrightarrow> net_only a c"
  by (simp add: net_only_def)

lemma net_only_ops:
  "net_only w (do_close fd w)" "do_recv fd n w = (r1, w') \<Longrightarrow> net_only w w'" "do_send fd d w = (r2, w') \<Longrightarrow> net_only w w'"
  "do_accept w = (r3, w') \<Longrightarrow> net_only w w'" "do_socket w = (r4, w') \<Longrightarrow> net_only w w'" "do_net w = (b, w') \<Longrightarrow> net_only w w'"
  by (auto simp: net_only_def do_close_def dest: socket_world_fs socket_io(1-4))
     (auto simp: do_net_def next_io_def split: list.splits io_answer.splits)

lemma run_world: "net_only w w' \<Longrightarrow> transfer_run sb (t, w) (t, w')"
  unfolding net_only_def by (blast intro: run_net [OF run_refl])

named_theorems run_intros \<open>transfer runs of the handlers\<close>

lemma run_ops [run_intros]:
  "ls_transfer_write data now t w = (ok, t', w') \<Longrightarrow> transfer_run sb (t, w) (t', w')"
  "ls_transfer_finish now t w = (r, t', w') \<Longrightarrow> transfer_run sb (t, w) (t', w')"
  "ls_transfer_fail m now t w = (t', w') \<Longrightarrow> transfer_run sb (t, w) (t', w')"
  "ls_transfer_cancel m now t w = (t', w') \<Longrightarrow> transfer_run sb (t, w) (t', w')"
  "ls_transfer_begin_stream declared now t w = (ok, t', w') \<Longrightarrow> transfer_run (Permits True q) (t, w) (t', w')"
  "ls_transfer_accept dir now t w = (ok, t', w') \<Longrightarrow> transfer_run (Permits b True) (t, w) (t', w')"
  "transfer_run sb (t, w) (ls_transfer_reject now t, w)"
  by (auto intro: run_op transfer_step.intros simp: permitted_def)

text \<open>A handler of one connection: a run of the transfer, and nothing else of the server but the
  counters and the last error number.\<close>

definition same_server :: "LsHttpServer \<Rightarrow> LsHttpServer \<Rightarrow> bool" where
  "same_server s s' \<longleftrightarrow>
     sv_listen_fd s' = sv_listen_fd s \<and> sv_running s' = sv_running s \<and> sv_clients s' = sv_clients s \<and>
     sv_external_transfer_busy s' = sv_external_transfer_busy s \<and> sv_quick_save s' = sv_quick_save s \<and>
     sv_download_directory s' = sv_download_directory s"

definition handled :: "permits \<Rightarrow> http_state \<Rightarrow> http_state \<Rightarrow> bool" where
  "handled sb st st' \<longleftrightarrow> transfer_run sb (transfer_of st) (transfer_of st') \<and> same_server (fst (snd st)) (fst (snd st'))"

lemma handled_refl: "handled sb st st"
  by (simp add: handled_def run_refl same_server_def)

lemma handled_trans: "handled sb b c \<Longrightarrow> handled sb a b \<Longrightarrow> handled sb a c"
  by (auto simp: handled_def same_server_def intro: run_trans)

lemma handled_transfer:
  "transfer_run sb (sv_transfer s, w) (t, w') \<Longrightarrow> handled sb (c, s, w) (c', s\<lparr>sv_transfer := t\<rparr>, w')"
  by (simp add: handled_def same_server_def)

lemma handled_count: "handled sb st (count_handled st')  \<longleftrightarrow> handled sb st st'" "handled sb st (count_rejected st') \<longleftrightarrow> handled sb st st'"
  by (cases st'; simp add: handled_def count_handled_def count_rejected_def same_server_def)+

lemma handled_net: "net_only w w' \<Longrightarrow> handled sb (c, s, w) (c', s, w')"
  by (simp add: handled_def same_server_def run_world)

lemma handled_errno: "net_only w w' \<Longrightarrow> handled sb (c, s, w) (c', s\<lparr>sv_last_errno := n\<rparr>, w')"
  by (simp add: handled_def same_server_def run_world)

lemma handled_reset: "handled sb st (reset_state st)"
  by (cases st) (simp add: reset_state_def connection_reset_def handled_net net_only_ops)

lemma handled_response: "handled sb st (response status reason ct body st)"
proof (cases st)
  case (fields c s w)
  then show ?thesis
    using handled_reset [of _ st] by (simp add: response_def Let_def handled_net)
qed

lemmas handled_responses = handled_response
  handled_response [where ct = "''text/plain; charset=utf-8''" and body = "[]", folded empty_response_def]
  handled_response [where ct = "''text/plain; charset=utf-8''", folded message_response_def]

lemma handled_after:
  "handled sb a b \<Longrightarrow> handled sb a (empty_response status reason b)"
  "handled sb a b \<Longrightarrow> handled sb a (message_response status reason m b)"
  "handled sb a b \<Longrightarrow> handled sb a (response status reason ct body b)"
  "handled sb a b \<Longrightarrow> handled sb a (reset_state b)"
  by (erule handled_trans [OF handled_responses(2)], erule handled_trans [OF handled_responses(3)],
      erule handled_trans [OF handled_response], erule handled_trans [OF handled_reset])

lemma handled_stream_finish: "handled sb st (stream_finish now st)"
proof -
  obtain c s w where st: "st = (c, s, w)" by (cases st)
  obtain r t w' where f: "ls_transfer_finish now (sv_transfer s) w = (r, t, w')" by (metis prod_cases3)
  have "handled sb st (c, s\<lparr>sv_transfer := t\<rparr>, w')" unfolding st by (rule handled_transfer [OF run_ops(2) [OF f]])
  then show ?thesis
    using f by (auto simp: st stream_finish_def Let_def handled_count intro: handled_after)
qed

lemma handled_bad_request: "handled sb st (stream_bad_request m now st)"
proof -
  obtain c s w where st: "st = (c, s, w)" by (cases st)
  obtain t w' where f: "ls_transfer_fail (Some m) now (sv_transfer s) w = (t, w')" by fastforce
  have "handled sb st (c, s\<lparr>sv_transfer := t\<rparr>, w')" unfolding st by (rule handled_transfer [OF run_ops(3) [OF f]])
  then show ?thesis
    using f by (auto simp: st stream_bad_request_def on_transfer_def handled_count intro: handled_after)
qed

lemma handled_stream_write: "stream_write data now st = (ok, st') \<Longrightarrow> handled sb st st'"
proof -
  assume a: "stream_write data now st = (ok, st')"
  obtain c s w where st: "st = (c, s, w)" by (cases st)
  obtain r t w' where f: "ls_transfer_write data now (sv_transfer s) w = (r, t, w')" by (metis prod_cases3)
  have "handled sb st (c, s\<lparr>sv_transfer := t\<rparr>, w')" unfolding st by (rule handled_transfer [OF run_ops(1) [OF f]])
  then show ?thesis
    using f a by (auto simp: st stream_write_def Let_def handled_count split: if_splits intro: handled_after)
qed


lemma handled_lost: "handled sb st (stream_lost m now st)"
proof -
  obtain c s w where st: "st = (c, s, w)" by (cases st)
  obtain t w' where f: "ls_transfer_fail (Some m) now (sv_transfer s) w = (t, w')" by fastforce
  have "handled sb st (c, s\<lparr>sv_transfer := t\<rparr>, w')" unfolding st by (rule handled_transfer [OF run_ops(3) [OF f]])
  then show ?thesis
    using f by (auto simp: st stream_lost_def on_transfer_def handled_count intro: handled_after)
qed

lemma handled_onto:
  "handled sb a b \<Longrightarrow> handled sb a (stream_finish now b)"
  "handled sb a b \<Longrightarrow> handled sb a (stream_bad_request m now b)"
  "handled sb a b \<Longrightarrow> handled sb a (stream_lost m now b)"
  by (erule handled_trans [OF handled_stream_finish], erule handled_trans [OF handled_bad_request],
      erule handled_trans [OF handled_lost])

lemma handled_connection: "handled sb st (c, s, w) \<Longrightarrow> handled sb st (c', s, w)"
  by (simp add: handled_def)

lemma handled_chunk_step:
  assumes "chunk_step now data st = (rest, st')"
  shows "handled sb st st'"
proof -
  obtain c s w where st: "st = (c, s, w)" by (cases st)
  have d: "handled sb (c, s, w) st1" if "chunk_data_step now data (c, s, w) = (r, st1)" for r st1
  proof -
    let ?d = "take (min (length data) (unat (cn_chunk_remaining c))) data"
    obtain ok c1 s1 w1 where wr: "stream_write ?d now (c, s, w) = (ok, c1, s1, w1)" by (metis prod_cases4)
    from handled_stream_write [OF wr] that wr show ?thesis
      by (auto simp: chunk_data_step_def Let_def split: if_splits bool.splits
          intro: handled_bad_request handled_connection [of _ _ c1 s1 w1])
  qed
  from assms d show ?thesis
    unfolding st
    by (auto simp: chunk_step_def chunk_size_step_def chunk_cr_step_def chunk_lf_step_def chunk_trailer_step_def Let_def
        split: LsHttpChunkState.splits if_splits option.splits
        intro!: handled_onto intro: handled_refl handled_connection [OF handled_refl])
qed

lemma handled_chunked: "handled sb st (process_chunked_data now data st)"
proof (induction now data st rule: process_chunked_data.induct)
  case (1 now data st)
  obtain rest st' where s: "chunk_step now data st = (rest, st')" by (metis surj_pair)
  with 1 handled_chunk_step [OF s] show ?case
    by (subst process_chunked_data.simps) (auto intro: handled_refl handled_trans)
qed

lemma handled_length: "handled sb st (process_length_data now data st)"
proof -
  obtain c s w where st: "st = (c, s, w)" by (cases st)
  obtain ok c1 s1 w1 where wr: "stream_write data now (c, s, w) = (ok, c1, s1, w1)" by (metis prod_cases4)
  note h = handled_stream_write [OF wr]
  with wr show ?thesis
    by (auto simp: st process_length_data_def Let_def split: bool.splits
        intro!: handled_bad_request handled_onto intro: handled_connection [of _ _ c1 s1 w1])
qed

lemma handled_stream_data: "handled sb st (process_stream_data now data st)"
  by (simp add: process_stream_data_def handled_chunked handled_length)

lemma handled_data_onto: "handled sb a b \<Longrightarrow> handled sb a (process_stream_data now data b)"
  by (rule handled_trans [OF handled_stream_data])

lemma handled_read_stream: "handled sb st (read_stream now st)"
proof -
  obtain c s w where st: "st = (c, s, w)" by (cases st)
  obtain a w1 where r: "do_recv (cn_fd c) LS3DS_HTTP_STREAM_BUFFER_SIZE w = (a, w1)" by fastforce
  have n: "handled sb (c, s, w) (c', s, w1)" "handled sb (c, s, w) (c', s\<lparr>sv_last_errno := k\<rparr>, w1)" for c' k
    using net_only_ops(2) [OF r] by (simp_all add: handled_net handled_errno)
  show ?thesis
    using r n by (cases a)
      (auto simp: st read_stream_def intro!: handled_onto handled_data_onto)
qed

lemma handled_upload_start: "handled (Permits True q) st (handle_upload_start request initial now st)"
proof -
  obtain c s w where st: "st = (c, s, w)" by (cases st)
  let ?d = "if req_has_content_length request then Some (req_content_length request) else None"
  obtain ok t w1 where b: "ls_transfer_begin_stream ?d now (sv_transfer s) w = (ok, t, w1)" by (metis prod_cases3)
  have h: "handled (Permits True q) (c, s, w) (c', s\<lparr>sv_transfer := t\<rparr>, w1)" for c' by (rule handled_transfer [OF run_ops(5) [OF b]])
  show ?thesis
    using b h by (auto simp: st handle_upload_start_def Let_def handled_count split: option.split bool.split
        intro!: handled_after handled_refl handled_onto handled_data_onto)
qed

section \<open>What was on the card stays\<close>

text \<open>An operation of the transfer changes only its own two paths, and only while a session is open,
  or paths where nothing was; a new session gets paths where nothing was.\<close>

definition own_paths :: "LsIncomingTransfer \<Rightarrow> string set" where
  "own_paths t = (if has_session t then {tr_final_path t, tr_part_path t} else {})"

lemma step_own_paths:
  assumes "transfer_step (t, w) op (t', w')" and "transfer_inv t w"
  shows "w_fs w' p = w_fs w p \<or> p \<in> own_paths t \<or> w_fs w p = None"
  using assms(1)
proof cases
  case (step_request json ip' q ip now ok)
  with request_unchanged [OF step_request(3) assms(2)] show ?thesis by simp
next
  case (step_accept dir now ok)
  from accept_directories [OF step_accept(2)] show ?thesis by (auto simp: only_directories_def)
next
  case (step_stream declared now ok)
  show ?thesis
  proof (cases "has_session t")
    case True
    with stream_others [OF step_stream(2)] show ?thesis by (auto simp: own_paths_def others_unchanged_def)
  next
    case False
    with step_stream(2) show ?thesis by (auto simp: ls_transfer_begin_stream_def has_session_def)
  qed
next
  case (step_write data now ok)
  show ?thesis
  proof (cases "has_session t")
    case True
    with write_others [OF step_write(2)] show ?thesis by (auto simp: own_paths_def others_unchanged_def)
  next
    case False
    with step_write(2) show ?thesis by (auto simp: ls_transfer_write_def has_session_def)
  qed
next
  case (step_finish now r)
  show ?thesis
  proof (cases "has_session t")
    case True
    with finish_others [OF step_finish(2) assms(2)] show ?thesis by (auto simp: own_paths_def others_unchanged_def)
  next
    case False
    with step_finish(2) show ?thesis by (auto simp: ls_transfer_finish_def has_session_def)
  qed
next
  case (step_fail m now)
  show ?thesis
    using fail_result(8,9) [OF step_fail(2)] assms(2)
    by (cases "has_session t") (auto simp: own_paths_def others_unchanged_def transfer_inv_def has_session_def)
next
  case (step_cancel m now)
  obtain t1 w1 where c: "close_and_remove_partial t w = (t1, w1)" by fastforce
  then have "w' = w \<or> w' = w1" using step_cancel(2) by (auto simp: ls_transfer_cancel_def Let_def split: if_splits)
  with close_remove(2,3) [OF c] assms(2) show ?thesis
    by (cases "has_session t") (auto simp: own_paths_def others_unchanged_def transfer_inv_def has_session_def)
qed simp

lemma step_new_paths:
  assumes "transfer_step (t, w) op (t', w')" and "transfer_inv t w" and "w_io w = []" and "p \<in> own_paths t'"
  shows "p \<in> own_paths t \<or> w_fs w p = None"
  using assms(1)
proof cases
  case (step_request json ip' q ip now ok)
  then have "t' = t \<or> \<not> has_session t'"
    by (auto simp: ls_transfer_begin_request_def has_session_def Let_def split: if_splits prod.splits)
  with assms(4) show ?thesis by (auto simp: own_paths_def)
next
  case (step_accept dir now ok)
  show ?thesis
  proof (cases "tr_state t = LS_TRANSFER_WAITING_FOR_USER")
    case True
    from step_accept(2) True show ?thesis
    proof (cases rule: accept_cases)
      case (accepted name f pp s k w1 w2 w3)
      have "w_io w1 = []" using filesystem_net(1) [OF accepted(3)] assms(3) same_net_io by blast
      with accepted(4) have "w_fs w1 f = None" "w_fs w1 pp = None"
        by (auto simp: ls_filesystem_select_paths_def split: if_splits dest!: select_loop_props)
      moreover have "w_fs w1 q = w_fs w q \<or> w_fs w q = None" for q
        using ensure_directory_props(1) [OF accepted(3)] by (auto simp: only_directories_def)
      ultimately have "w_fs w f = None" "w_fs w pp = None" by metis+
      with assms(4) accepted(7) show ?thesis by (auto simp: own_paths_def split: if_splits)
    qed (use assms(4) in \<open>auto simp: own_paths_def has_session_def split: if_splits\<close>)
  next
    case False
    with step_accept(2) assms(4) show ?thesis by (simp add: ls_transfer_accept_def)
  qed
next
  case (step_reject now)
  then have "t' = t \<or> \<not> has_session t'"
    by (auto simp: ls_transfer_reject_def has_session_def invalidate_credentials_def set_error_def)
  with assms(4) show ?thesis by (auto simp: own_paths_def)
next
  case (step_stream declared now ok)
  show ?thesis
  proof (cases "ok \<and> tr_state t = LS_TRANSFER_ACCEPTED")
    case True
    then have "own_paths t' = own_paths t"
      using stream_success(1) [of declared now t w t' w'] step_stream(2) assms(2)
      by (auto simp: own_paths_def has_session_def transfer_inv_def)
    with assms(4) show ?thesis by simp
  next
    case False
    then have "t' = t \<or> tr_state t' = LS_TRANSFER_FAILED"
      using step_stream(2) begin_stream_failed [of declared now t w t' w']
      by (cases "tr_state t = LS_TRANSFER_ACCEPTED") (auto simp: ls_transfer_begin_stream_def)
    with assms(4) show ?thesis by (auto simp: own_paths_def has_session_def split: if_splits)
  qed
next
  case (step_write data now ok)
  obtain n w1 where f: "(if data = [] then (0, w) else do_fwrite (tr_part_path t) data w) = (n, w1)" by fastforce
  then have "own_paths t' = own_paths t \<or> \<not> has_session t'"
    using step_write(2) by (auto simp: ls_transfer_write_def own_paths_def has_session_def
        split: if_splits dest!: fail_result(1))
  with assms(4) show ?thesis by (auto simp: own_paths_def)
next
  case (step_finish now r)
  have "t' = t \<or> \<not> has_session t'"
  proof (cases "r = LS_TRANSFER_FINISH_SUCCESS")
    case True
    with step_finish(2) show ?thesis
      by (auto simp: ls_transfer_finish_def has_session_def invalidate_credentials_def Let_def
          split: if_splits prod.splits option.splits)
  next
    case False
    with finish_failure [OF step_finish(2)] show ?thesis by (auto simp: has_session_def dest!: fail_result(1))
  qed
  with assms(4) show ?thesis by (auto simp: own_paths_def)
next
  case (step_fail m now)
  with fail_result(1) [OF step_fail(2)] assms(4) show ?thesis by (auto simp: own_paths_def has_session_def)
next
  case (step_cancel m now)
  then have "t' = t \<or> \<not> has_session t'"
    by (auto simp: ls_transfer_cancel_def has_session_def set_error_def Let_def split: if_splits prod.splits)
  with assms(4) show ?thesis by (auto simp: own_paths_def)
qed

text \<open>On a card without faults everything that was there in \<open>w0\<close> is still there, and the session
  works elsewhere.\<close>

definition card_kept :: "world \<Rightarrow> LsIncomingTransfer \<times> world \<Rightarrow> bool" where
  "card_kept w0 s \<longleftrightarrow> transfer_inv (fst s) (snd s) \<and> w_io (snd s) = [] \<and>
     (\<forall>p. w_fs w0 p \<noteq> None \<longrightarrow> w_fs (snd s) p = w_fs w0 p \<and> p \<notin> own_paths (fst s))"

lemma card_kept_step:
  assumes "transfer_step s op s'" and "card_kept w0 s"
  shows "card_kept w0 s'"
proof -
  obtain t w t' w' where s: "s = (t, w)" "s' = (t', w')" by (cases s; cases s')
  have inv: "transfer_inv t w" "w_io w = []" using assms(2) s by (simp_all add: card_kept_def)
  have st: "transfer_step (t, w) op (t', w')" using assms(1) s by simp
  have "w_fs w' p = w_fs w0 p \<and> p \<notin> own_paths t'" if "w_fs w0 p \<noteq> None" for p
  proof -
    from assms(2) s that have p: "w_fs w p = w_fs w0 p" "p \<notin> own_paths t" by (simp_all add: card_kept_def)
    with step_own_paths [OF st inv(1), of p] step_new_paths [OF st inv, of p] that show ?thesis by auto
  qed
  with step_inv [OF assms(1)] same_net_io [OF step_net [OF assms(1)]] inv s show ?thesis
    by (simp add: card_kept_def)
qed

lemma card_kept_run: "transfer_run sb s s' \<Longrightarrow> card_kept w0 s \<Longrightarrow> card_kept w0 s'"
proof (induction rule: transfer_run.induct)
  case (run_net s t w1 w2)
  with transfer_inv_fs [OF run_net(2), of t] show ?case by (simp add: card_kept_def)
next
  case (run_step s s1 op s2)
  with card_kept_step [OF run_step(2)] show ?case by blast
qed

lemma card_kept_init: "w_fs w = w_fs w0 \<Longrightarrow> w_io w = [] \<Longrightarrow> card_kept w0 (ls_transfer_init, w)"
  using inv_init [of w] by (simp add: card_kept_def own_paths_def ls_transfer_init_def has_session_def)

lemma run_inv: "transfer_run sb s s' \<Longrightarrow> transfer_inv (fst s) (snd s) \<Longrightarrow> transfer_inv (fst s') (snd s')"
proof (induction rule: transfer_run.induct)
  case (run_net s t w1 w2)
  with transfer_inv_fs [OF run_net(2), of t] show ?case by simp
next
  case (run_step s s1 op s2)
  with step_inv [OF run_step(2)] show ?case by blast
qed

end
