(* ===== verification/Registry.thy ===== *)
theory Registry
  imports Device
begin

text \<open>
  The device registry of \<open>source/device_registry.c\<close>. The registry is the list of its
  \<open>devices[0..count)\<close>; what the array holds beyond \<open>count\<close> is never read. The locale \<open>peer_table\<close> is
  the contract its callers rely on.
\<close>

datatype LsRegistryResult =
  LS_REGISTRY_UNCHANGED | LS_REGISTRY_ADDED | LS_REGISTRY_UPDATED | LS_REGISTRY_REPLACED

type_synonym LsDeviceRegistry = "LsDevice list"

definition same_device_data :: "LsDevice \<Rightarrow> LsDevice \<Rightarrow> bool" where
  "same_device_data left right \<longleftrightarrow>
     device_alias left = device_alias right \<and> version left = version right \<and>
     device_model left = device_model right \<and> device_type left = device_type right \<and>
     fingerprint left = fingerprint right \<and> ip_address left = ip_address right \<and>
     port left = port right \<and> protocol left = protocol right \<and>
     download left = download right \<and> announce left = announce right"

definition ls_registry_init :: LsDeviceRegistry where
  "ls_registry_init = []"

text \<open>The two search loops: the first entry with the fingerprint, and the entry seen longest ago.\<close>

fun find_fingerprint :: "string \<Rightarrow> nat \<Rightarrow> LsDevice list \<Rightarrow> nat option" where
  "find_fingerprint fp i [] = None"
| "find_fingerprint fp i (d # ds) =
     (if fingerprint d = fp then Some i else find_fingerprint fp (Suc i) ds)"

function find_oldest :: "LsDeviceRegistry \<Rightarrow> nat \<Rightarrow> nat \<Rightarrow> nat" where
  "find_oldest registry oldest i =
     (if i < length registry then
        find_oldest registry
          (if last_seen_ms (registry ! i) < last_seen_ms (registry ! oldest) then i else oldest) (Suc i)
      else oldest)"
  by pat_completeness auto
termination
  by (relation "measure (\<lambda>(registry, oldest, i). length registry - i)") auto

declare find_oldest.simps [simp del]

definition ls_registry_upsert ::
    "LsDevice \<Rightarrow> u64 \<Rightarrow> LsDeviceRegistry \<Rightarrow> LsRegistryResult \<times> LsDeviceRegistry" where
  "ls_registry_upsert device now_ms registry =
     (if fingerprint device = [] then (LS_REGISTRY_UNCHANGED, registry)
      else case find_fingerprint (fingerprint device) 0 registry of
        Some i \<Rightarrow>
          (let changed = \<not> same_device_data (registry ! i) device in
           (if changed then LS_REGISTRY_UPDATED else LS_REGISTRY_UNCHANGED,
            registry[i := device\<lparr>last_seen_ms := now_ms\<rparr>]))
      | None \<Rightarrow>
          (if length registry < LS3DS_MAX_DEVICES then
             (LS_REGISTRY_ADDED, registry @ [device\<lparr>last_seen_ms := now_ms\<rparr>])
           else (let oldest = find_oldest registry 0 1 in
                 (LS_REGISTRY_REPLACED, registry[oldest := device\<lparr>last_seen_ms := now_ms\<rparr>]))))"

definition expired :: "u64 \<Rightarrow> u64 \<Rightarrow> LsDevice \<Rightarrow> bool" where
  "expired now_ms timeout_ms d \<longleftrightarrow>
     (let last_seen = last_seen_ms d in now_ms \<ge> last_seen \<and> now_ms - last_seen \<ge> timeout_ms)"

text \<open>The compaction in place: \<open>read_index\<close> runs over the old entries, \<open>write_index\<close> over the kept.\<close>

function prune_loop :: "u64 \<Rightarrow> u64 \<Rightarrow> nat \<Rightarrow> nat \<Rightarrow> LsDevice list \<Rightarrow> nat \<times> LsDevice list" where
  "prune_loop now_ms timeout_ms read_index write_index ds =
     (if read_index < length ds then
        (if expired now_ms timeout_ms (ds ! read_index) then
           prune_loop now_ms timeout_ms (Suc read_index) write_index ds
         else prune_loop now_ms timeout_ms (Suc read_index) (Suc write_index)
                (if write_index \<noteq> read_index then ds[write_index := ds ! read_index] else ds))
      else (write_index, ds))"
  by pat_completeness auto
termination
  by (relation "measure (\<lambda>(now_ms, timeout_ms, r, w, ds). length ds - r)") auto

declare prune_loop.simps [simp del]

definition ls_registry_prune :: "u64 \<Rightarrow> u64 \<Rightarrow> LsDeviceRegistry \<Rightarrow> nat \<times> LsDeviceRegistry" where
  "ls_registry_prune now_ms timeout_ms registry =
     (let (write_index, ds) = prune_loop now_ms timeout_ms 0 0 registry
      in (length registry - write_index, take write_index ds))"

definition ls_registry_get :: "LsDeviceRegistry \<Rightarrow> nat \<Rightarrow> LsDevice option" where
  "ls_registry_get registry index = (if index \<ge> length registry then None else Some (registry ! index))"

section \<open>The search loops\<close>

lemma find_fingerprint_Some:
  "find_fingerprint fp i ds = Some j \<Longrightarrow>
     i \<le> j \<and> j - i < length ds \<and> fingerprint (ds ! (j - i)) = fp"
  by (induction fp i ds rule: find_fingerprint.induct) (auto split: if_splits simp: nth_Cons')

lemma find_fingerprint_None: "find_fingerprint fp i ds = None \<longleftrightarrow> fp \<notin> fingerprint ` set ds"
  by (induction fp i ds rule: find_fingerprint.induct) auto

lemma find_oldest_props:
  "oldest < i \<Longrightarrow> i \<le> length r \<Longrightarrow>
     \<forall>k < i. last_seen_ms (r ! oldest) \<le> last_seen_ms (r ! k) \<Longrightarrow>
     find_oldest r oldest i < length r \<and>
     (\<forall>k < length r. last_seen_ms (r ! find_oldest r oldest i) \<le> last_seen_ms (r ! k))"
proof (induction r oldest i rule: find_oldest.induct)
  case (1 r oldest i)
  let ?o = "if last_seen_ms (r ! i) < last_seen_ms (r ! oldest) then i else oldest"
  show ?case
  proof (cases "i < length r")
    case True
    have "\<forall>k < Suc i. last_seen_ms (r ! ?o) \<le> last_seen_ms (r ! k)"
      using "1.prems"(3) by (auto simp: less_Suc_eq intro: less_imp_le order.strict_trans2)
    with "1.IH" [OF True] "1.prems" True show ?thesis
      by (subst (1 2) find_oldest.simps) auto
  next
    case False
    with "1.prems" show ?thesis by (subst (1 2) find_oldest.simps) auto
  qed
qed

section \<open>Pruning is filtering\<close>

lemma prune_loop_filter:
  "w \<le> r \<Longrightarrow> r \<le> length ds \<Longrightarrow> prune_loop now timeout r w ds = (w', ds') \<Longrightarrow>
     length ds' = length ds \<and> w' \<le> length ds \<and>
     take w' ds' = take w ds @ filter (\<lambda>d. \<not> expired now timeout d) (drop r ds)"
proof (induction now timeout r w ds rule: prune_loop.induct)
  case (1 now timeout r w ds)
  show ?case
  proof (cases "r < length ds")
    case False
    with "1.prems" show ?thesis by (subst (asm) prune_loop.simps) auto
  next
    case True
    note d = Cons_nth_drop_Suc [OF True, symmetric]
    show ?thesis
    proof (cases "expired now timeout (ds ! r)")
      case e: True
      with "1.IH"(1) [OF True e] "1.prems" True show ?thesis
        by (subst (asm) prune_loop.simps) (simp add: d)
    next
      case e: False
      let ?ds = "if w \<noteq> r then ds[w := ds ! r] else ds"
      have "length ?ds = length ds" "take (Suc w) ?ds = take w ds @ [ds ! r]" "drop (Suc r) ?ds = drop (Suc r) ds"
        using "1.prems"(1) True by (auto simp: take_Suc_conv_app_nth drop_update_swap)
      with "1.IH"(2) [OF True e] "1.prems" True e show ?thesis
        by (subst (asm) prune_loop.simps) (simp add: d split del: if_split)
    qed
  qed
qed

lemma prune_filter:
  "ls_registry_prune now timeout r =
     (length (filter (expired now timeout) r), filter (\<lambda>d. \<not> expired now timeout d) r)"
proof -
  obtain w ds where p: "prune_loop now timeout 0 0 r = (w, ds)" by fastforce
  from prune_loop_filter [OF _ _ p]
  have t: "take w ds = filter (\<lambda>d. \<not> expired now timeout d) r" and l: "length ds = length r" "w \<le> length r"
    by auto
  have "w = length (filter (\<lambda>d. \<not> expired now timeout d) r)"
    using l t by (metis length_take min.absorb2)
  then have "length r - w = length (filter (expired now timeout) r)"
    using sum_length_filter_compl [of "expired now timeout" r] by linarith
  with p t show ?thesis by (simp add: ls_registry_prune_def)
qed

section \<open>The invariant and the contract\<close>

definition registry_wf :: "LsDeviceRegistry \<Rightarrow> bool" where
  "registry_wf r \<longleftrightarrow>
     length r \<le> LS3DS_MAX_DEVICES \<and> distinct (map fingerprint r) \<and> (\<forall>d \<in> set r. fingerprint d \<noteq> [])"

definition registry_lookup :: "LsDeviceRegistry \<Rightarrow> string \<Rightarrow> LsDevice option" where
  "registry_lookup r fp = List.find (\<lambda>d. fingerprint d = fp) r"

lemma distinct_update_key:
  assumes "distinct (map f r)" and "f x \<notin> f ` set r"
  shows "distinct (map f (r[i := x]))"
  using assms by (auto simp: map_update image_iff intro!: distinct_list_update)

lemma wf_init: "registry_wf ls_registry_init"
  by (simp add: registry_wf_def ls_registry_init_def)

lemma wf_upsert: "registry_wf r \<Longrightarrow> registry_wf (snd (ls_registry_upsert d now r))"
proof -
  assume wf: "registry_wf r"
  have set_upd: "x \<in> set (r[i := y]) \<Longrightarrow> x = y \<or> x \<in> set r" for x i and y :: LsDevice
    using set_update_subset_insert [of r i y] by auto
  show ?thesis
  proof (cases "find_fingerprint (fingerprint d) 0 r")
    case None
    then have new: "fingerprint d \<notin> fingerprint ` set r" by (simp add: find_fingerprint_None)
    then have "distinct (map fingerprint (r[i := d\<lparr>last_seen_ms := now\<rparr>]))" for i
      using wf by (intro distinct_update_key) (auto simp: registry_wf_def)
    with None new wf show ?thesis
      by (auto simp: ls_registry_upsert_def registry_wf_def Let_def dest!: set_upd)
  next
    case (Some i)
    from find_fingerprint_Some [OF this] have i: "i < length r" "fingerprint (r ! i) = fingerprint d"
      by auto
    then have "map fingerprint (r[i := d\<lparr>last_seen_ms := now\<rparr>]) = map fingerprint r"
      by (simp add: map_update list_update_same_conv)
    with Some wf show ?thesis
      by (auto simp: ls_registry_upsert_def registry_wf_def Let_def dest!: set_upd)
  qed
qed

lemma wf_prune: "registry_wf r \<Longrightarrow> registry_wf (snd (ls_registry_prune now timeout r))"
  by (auto simp: registry_wf_def prune_filter distinct_map_filter
      intro: order_trans [OF length_filter_le])

lemma lookup_mem:
  "distinct (map fingerprint r) \<Longrightarrow> registry_lookup r fp = Some d \<longleftrightarrow> d \<in> set r \<and> fingerprint d = fp"
  by (induction r) (auto simp: registry_lookup_def)

lemma upsert_mem:
  assumes "registry_wf r" and "fingerprint d \<noteq> []"
  shows "d\<lparr>last_seen_ms := now\<rparr> \<in> set (snd (ls_registry_upsert d now r))"
proof (cases "find_fingerprint (fingerprint d) 0 r")
  case None
  have "\<not> length r < 16 \<Longrightarrow> find_oldest r 0 1 < length r"
    using find_oldest_props [of 0 1 r] by (cases r) auto
  with None assms show ?thesis
    by (auto simp: ls_registry_upsert_def Let_def set_update_memI)
next
  case (Some i)
  with find_fingerprint_Some [OF this] assms show ?thesis
    by (auto simp: ls_registry_upsert_def Let_def set_update_memI)
qed

lemma lookup_upsert:
  "registry_wf r \<Longrightarrow> fingerprint d \<noteq> [] \<Longrightarrow>
     registry_lookup (snd (ls_registry_upsert d now r)) (fingerprint d) = Some (d\<lparr>last_seen_ms := now\<rparr>)"
  using wf_upsert [of r d now] upsert_mem [of r d now]
  by (simp add: registry_wf_def lookup_mem)

lemma lookup_None: "registry_lookup r fp = None \<longleftrightarrow> fp \<notin> fingerprint ` set r"
  by (auto simp: registry_lookup_def find_None_iff)

lemma lookup_prune:
  assumes "registry_wf r"
  shows "registry_lookup (snd (ls_registry_prune now timeout r)) fp =
     (case registry_lookup r fp of None \<Rightarrow> None
      | Some d \<Rightarrow> if expired now timeout d then None else Some d)"
proof -
  let ?r = "filter (\<lambda>d. \<not> expired now timeout d) r"
  have d: "distinct (map fingerprint r)" "distinct (map fingerprint ?r)"
    using assms by (auto simp: registry_wf_def distinct_map_filter)
  show ?thesis
  proof (cases "registry_lookup r fp")
    case None
    then have "registry_lookup ?r fp = None" by (auto simp: lookup_None)
    with None show ?thesis by (simp add: prune_filter)
  next
    case (Some e)
    then have e: "e \<in> set r" "fingerprint e = fp" using lookup_mem [OF d(1)] by auto
    show ?thesis
    proof (cases "expired now timeout e")
      case True
      have "x = e" if "x \<in> set r" "fingerprint x = fp" for x
        using that e d(1) by (metis (no_types, lifting) distinct_map inj_on_def)
      with True have "registry_lookup ?r fp = None" by (auto simp: lookup_None)
      with Some True show ?thesis by (simp add: prune_filter)
    next
      case False
      with e have "registry_lookup ?r fp = Some e" using lookup_mem [OF d(2)] by simp
      with Some False show ?thesis by (simp add: prune_filter)
    qed
  qed
qed

text \<open>
  What the rest of the program needs of a table of peers: the invariant, that a sighting is found
  under its fingerprint, and that pruning removes exactly the expired peers.
\<close>

locale peer_table =
  fixes wf :: "'r \<Rightarrow> bool"
    and start :: 'r
    and sighting :: "LsDevice \<Rightarrow> u64 \<Rightarrow> 'r \<Rightarrow> 'r"
    and sweep :: "u64 \<Rightarrow> u64 \<Rightarrow> 'r \<Rightarrow> 'r"
    and peer :: "'r \<Rightarrow> string \<Rightarrow> LsDevice option"
  assumes wf_start: "wf start"
    and wf_sighting: "wf r \<Longrightarrow> wf (sighting d now r)"
    and wf_sweep: "wf r \<Longrightarrow> wf (sweep now timeout r)"
    and peer_sighting: "wf r \<Longrightarrow> fingerprint d \<noteq> [] \<Longrightarrow>
      peer (sighting d now r) (fingerprint d) = Some (d\<lparr>last_seen_ms := now\<rparr>)"
    and peer_sweep: "wf r \<Longrightarrow> peer (sweep now timeout r) fp =
      (case peer r fp of None \<Rightarrow> None | Some d \<Rightarrow> if expired now timeout d then None else Some d)"
begin

definition run :: "(LsDevice \<times> u64 + u64 \<times> u64) list \<Rightarrow> 'r \<Rightarrow> 'r" where
  "run ops r = fold (\<lambda>op r. case op of Inl (d, now) \<Rightarrow> sighting d now r
                                  | Inr (now, timeout) \<Rightarrow> sweep now timeout r) ops r"

lemma wf_run: "wf r \<Longrightarrow> wf (run ops r)"
  by (induction ops arbitrary: r)
     (auto simp: run_def wf_sighting wf_sweep split: sum.splits)

lemma wf_reachable: "wf (run ops start)"
  by (rule wf_run [OF wf_start])

lemma fresh_peer_survives:
  assumes "wf r" and "fingerprint d \<noteq> []" and "now \<le> later" and "later - now < timeout"
  shows "peer (sweep later timeout (sighting d now r)) (fingerprint d) = Some (d\<lparr>last_seen_ms := now\<rparr>)"
  using assms by (simp add: peer_sweep wf_sighting peer_sighting expired_def Let_def)

lemma silent_peer_removed:
  assumes "wf r" and "fingerprint d \<noteq> []" and "now \<le> later" and "timeout \<le> later - now"
  shows "peer (sweep later timeout (sighting d now r)) (fingerprint d) = None"
  using assms by (simp add: peer_sweep wf_sighting peer_sighting expired_def Let_def)

end

interpretation registry: peer_table registry_wf ls_registry_init
    "\<lambda>d now r. snd (ls_registry_upsert d now r)"
    "\<lambda>now timeout r. snd (ls_registry_prune now timeout r)" registry_lookup
  by unfold_locales (simp_all add: wf_init wf_upsert wf_prune lookup_upsert lookup_prune)

section \<open>Properties\<close>

text \<open>Every reachable registry holds at most 16 devices under distinct, non-empty fingerprints.\<close>

definition registry_run ::
    "(LsDevice \<times> u64 + u64 \<times> u64) list \<Rightarrow> LsDeviceRegistry \<Rightarrow> LsDeviceRegistry" where
  "registry_run ops r =
     fold (\<lambda>op r. case op of Inl (d, now) \<Rightarrow> snd (ls_registry_upsert d now r)
                           | Inr (now, timeout) \<Rightarrow> snd (ls_registry_prune now timeout r)) ops r"

lemma registry_reachable_wf: "registry_wf (registry_run ops ls_registry_init)"
  using registry.wf_reachable unfolding registry_run_def registry.run_def .

text \<open>Full table: an unknown device replaces the entry seen longest ago and only that one.\<close>

lemma upsert_evicts_oldest:
  assumes "length r = LS3DS_MAX_DEVICES" and "fingerprint d \<noteq> []" and "fingerprint d \<notin> fingerprint ` set r"
  shows "\<exists>i < length r. ls_registry_upsert d now r =
           (LS_REGISTRY_REPLACED, r[i := d\<lparr>last_seen_ms := now\<rparr>]) \<and>
         (\<forall>k < length r. last_seen_ms (r ! i) \<le> last_seen_ms (r ! k))"
proof -
  have "find_fingerprint (fingerprint d) 0 r = None" using assms(3) by (simp add: find_fingerprint_None)
  with assms find_oldest_props [of 0 1 r] show ?thesis
    by (intro exI [of _ "find_oldest r 0 1"]) (auto simp: ls_registry_upsert_def Let_def)
qed

lemma prune_silent_peer:
  assumes "registry_wf r" and "fingerprint d \<noteq> []" and "now \<le> later"
  shows "registry_lookup (snd (ls_registry_prune later timeout (snd (ls_registry_upsert d now r)))) (fingerprint d) =
           (if timeout \<le> later - now then None else Some (d\<lparr>last_seen_ms := now\<rparr>))"
  using assms registry.silent_peer_removed registry.fresh_peer_survives by auto

end
