(* ===== verification/Protocol_Write.thy ===== *)
theory Protocol_Write
  imports Protocol_Read
begin

text \<open>
  The message writers of \<open>source/localsend_protocol.c\<close>. A writer is the sequence of its writing
  steps; \<open>None\<close> is the return value \<open>false\<close> (the text does not fit \<open>capacity\<close>, or a required argument is
  empty), \<open>Some\<close> the text written. The theorems give the text as a JSON object and say that the
  readers of \<open>Protocol_Read\<close> read it back.
\<close>

section \<open>The writers\<close>

definition write_steps :: "(JsonWriter \<Rightarrow> JsonWriter) list \<Rightarrow> JsonWriter \<Rightarrow> JsonWriter" where
  "write_steps steps w = fold (\<lambda>step w. step w) steps w"

text \<open>A quoted name inside a string literal of the source.\<close>

definition quoted :: "string \<Rightarrow> string" where
  "quoted s = [QUOTE] @ s @ [QUOTE]"

definition device_type_text :: "LsDeviceType \<Rightarrow> string" where
  "device_type_text t =
     (case t of
        LS_DEVICE_MOBILE \<Rightarrow> ''mobile''
      | LS_DEVICE_WEB \<Rightarrow> ''web''
      | LS_DEVICE_HEADLESS \<Rightarrow> ''headless''
      | LS_DEVICE_SERVER \<Rightarrow> ''server''
      | LS_DEVICE_DESKTOP \<Rightarrow> ''desktop'')"

definition protocol_text :: "LsProtocol \<Rightarrow> string" where
  "protocol_text p = (if p = LS_PROTOCOL_HTTPS then ''https'' else ''http'')"

text \<open>The fields every device message starts with.\<close>

definition device_steps :: "LsDevice \<Rightarrow> (JsonWriter \<Rightarrow> JsonWriter) list" where
  "device_steps device =
     [writer_field ''alias'' (device_alias device) False,
      writer_field ''version'' (version device) True] @
     (if device_model device \<noteq> [] then [writer_field ''deviceModel'' (device_model device) True] else []) @
     [writer_field ''deviceType'' (device_type_text (device_type device)) True,
      writer_field ''fingerprint'' (fingerprint device) True]"

definition address_steps :: "LsDevice \<Rightarrow> (JsonWriter \<Rightarrow> JsonWriter) list" where
  "address_steps device =
     [writer_text ('','' @ quoted ''port'' @ '':''),
      writer_text (dec (unat (port device))),
      writer_field ''protocol'' (protocol_text (protocol device)) True]"

definition ls_protocol_write_announcement :: "LsDevice \<Rightarrow> nat \<Rightarrow> string option" where
  "ls_protocol_write_announcement device capacity =
     (if capacity = 0 then None
      else writer_finish (write_steps
        ([writer_text ''{''] @ device_steps device @ address_steps device @
         [writer_text (if download device then '','' @ quoted ''download'' @ '':true''
                       else '','' @ quoted ''download'' @ '':false''),
          writer_text ('','' @ quoted ''announce'' @ '':true}'')])
        (writer_start capacity)))"

definition ls_protocol_write_info :: "LsDevice \<Rightarrow> nat \<Rightarrow> string option" where
  "ls_protocol_write_info device capacity =
     (if capacity = 0 then None
      else writer_finish (write_steps
        ([writer_text ''{''] @ device_steps device @
         [writer_text (if download device then '','' @ quoted ''download'' @ '':true}''
                       else '','' @ quoted ''download'' @ '':false}'')])
        (writer_start capacity)))"

definition ls_protocol_write_prepare_upload_response ::
    "string \<Rightarrow> string \<Rightarrow> string \<Rightarrow> nat \<Rightarrow> string option" where
  "ls_protocol_write_prepare_upload_response session_id fileid token capacity =
     (if capacity = 0 then None
      else writer_finish (write_steps
        [writer_text (''{'' @ quoted ''sessionId'' @ '':''),
         writer_string session_id,
         writer_text ('','' @ quoted ''files'' @ '':{''),
         writer_string fileid,
         writer_text '':'',
         writer_string token,
         writer_text ''}}'']
        (writer_start capacity)))"

definition ls_protocol_write_prepare_upload_request ::
    "LsDevice \<Rightarrow> string \<Rightarrow> string \<Rightarrow> u64 \<Rightarrow> string \<Rightarrow> nat \<Rightarrow> string option" where
  "ls_protocol_write_prepare_upload_request sender fileid filename filesize filetype capacity =
     (if capacity = 0 \<or> fileid = [] \<or> filename = [] \<or> filetype = [] then None
      else writer_finish (write_steps
        ([writer_text (''{'' @ quoted ''info'' @ '':{'')] @ device_steps sender @ address_steps sender @
         [writer_text (if download sender then '','' @ quoted ''download'' @ '':true}''
                       else '','' @ quoted ''download'' @ '':false}''),
          writer_text ('','' @ quoted ''files'' @ '':{''),
          writer_string fileid,
          writer_text ('':{'' @ quoted ''id'' @ '':''),
          writer_string fileid,
          writer_text ('','' @ quoted ''fileName'' @ '':''),
          writer_string filename,
          writer_text ('','' @ quoted ''size'' @ '':''),
          writer_text (dec (unat filesize)),
          writer_text ('','' @ quoted ''fileType'' @ '':''),
          writer_string filetype,
          writer_text ('','' @ quoted ''sha256'' @ '':null,'' @ quoted ''preview'' @ '':null}}}'')])
        (writer_start capacity)))"

section \<open>The texts\<close>

definition device_members :: "LsDevice \<Rightarrow> (string \<times> string) list" where
  "device_members d =
     [(''alias'', json_text (device_alias d)), (''version'', json_text (version d))] @
     (if device_model d \<noteq> [] then [(''deviceModel'', json_text (device_model d))] else []) @
     [(''deviceType'', json_text (device_type_text (device_type d))),
      (''fingerprint'', json_text (fingerprint d))]"

definition address_members :: "LsDevice \<Rightarrow> (string \<times> string) list" where
  "address_members d =
     [(''port'', dec (unat (port d))), (''protocol'', json_text (protocol_text (protocol d)))]"

definition announcement_text :: "LsDevice \<Rightarrow> string" where
  "announcement_text d = json_object
     (device_members d @ address_members d @
      [(''download'', json_bool (download d)), (''announce'', json_bool True)])"

definition info_text :: "LsDevice \<Rightarrow> string" where
  "info_text d = json_object (device_members d @ [(''download'', json_bool (download d))])"

definition sender_text :: "LsDevice \<Rightarrow> string" where
  "sender_text d = json_object
     (device_members d @ address_members d @ [(''download'', json_bool (download d))])"

definition file_text :: "string \<Rightarrow> string \<Rightarrow> u64 \<Rightarrow> string \<Rightarrow> string" where
  "file_text fileid filename filesize filetype = json_object
     [(''id'', json_text fileid), (''fileName'', json_text filename), (''size'', dec (unat filesize)),
      (''fileType'', json_text filetype), (''sha256'', ''null''), (''preview'', ''null'')]"

definition request_text :: "LsDevice \<Rightarrow> string \<Rightarrow> string \<Rightarrow> u64 \<Rightarrow> string \<Rightarrow> string" where
  "request_text sender fileid filename filesize filetype = json_object
     [(''info'', sender_text sender),
      (''files'', json_object [(fileid, file_text fileid filename filesize filetype)])]"

definition response_text :: "string \<Rightarrow> string \<Rightarrow> string \<Rightarrow> string" where
  "response_text session_id fileid token = json_object
     [(''sessionId'', json_text session_id), (''files'', json_object [(fileid, json_text token)])]"

section \<open>What the writers write\<close>

lemma json_members_Cons:
  "json_members (m # ms) = json_member m @ concat (map (\<lambda>m. '','' @ json_member m) ms)"
  by (induction ms arbitrary: m) auto

lemma emits_steps:
  "list_all2 emits ts fs \<Longrightarrow> emits (concat ts) (write_steps fs)"
proof (induction ts fs rule: list_all2_induct)
  case (Cons t ts f fs)
  from emits_comp [OF Cons.hyps(1) Cons.IH] show ?case
    by (simp add: write_steps_def)
qed (auto simp: emits_def write_steps_def)

lemma writer_result:
  assumes "list_all2 emits ts fs" and "concat ts = t"
  shows "(if capacity = 0 then None else writer_finish (write_steps fs (writer_start capacity))) =
    (if length t < capacity then Some t else None)"
  using writer_finish_emits [OF emits_steps [OF assms(1)]] assms(2) by simp

definition device_texts :: "LsDevice \<Rightarrow> string list" where
  "device_texts d =
     [json_member (''alias'', json_text (device_alias d)),
      '','' @ json_member (''version'', json_text (version d))] @
     (if device_model d \<noteq> [] then ['','' @ json_member (''deviceModel'', json_text (device_model d))] else []) @
     ['','' @ json_member (''deviceType'', json_text (device_type_text (device_type d))),
      '','' @ json_member (''fingerprint'', json_text (fingerprint d))]"

definition address_texts :: "LsDevice \<Rightarrow> string list" where
  "address_texts d =
     ['','' @ json_text ''port'' @ '':'', dec (unat (port d)),
      '','' @ json_member (''protocol'', json_text (protocol_text (protocol d)))]"

lemma quoted_names:
  "quoted ''port'' = json_text ''port''" "quoted ''download'' = json_text ''download''"
  "quoted ''announce'' = json_text ''announce''" "quoted ''sessionId'' = json_text ''sessionId''"
  "quoted ''files'' = json_text ''files''" "quoted ''info'' = json_text ''info''"
  "quoted ''id'' = json_text ''id''" "quoted ''fileName'' = json_text ''fileName''"
  "quoted ''size'' = json_text ''size''" "quoted ''fileType'' = json_text ''fileType''"
  "quoted ''sha256'' = json_text ''sha256''" "quoted ''preview'' = json_text ''preview''"
  by code_simp+

lemma emits_field_member:
  "emits (json_member (k, json_text v)) (writer_field k v False)"
  "emits ('','' @ json_member (k, json_text v)) (writer_field k v True)"
  using emits_field [of False k v] emits_field [of True k v] by (simp_all add: json_member_def)

lemma emits_device_steps: "list_all2 emits (device_texts d) (device_steps d)"
  using emits_field_member by (simp add: device_texts_def device_steps_def)

lemma emits_address_steps: "list_all2 emits (address_texts d) (address_steps d)"
  using emits_field_member(2) emits_text by (simp add: address_texts_def address_steps_def quoted_names)

lemmas emits_parts = list_all2_appendI emits_device_steps emits_address_steps emits_text emits_string

lemmas text_parts = json_object_def device_texts_def address_texts_def device_members_def
  address_members_def json_members_Cons json_member_def json_bool_def

lemma write_announcement:
  "ls_protocol_write_announcement d capacity =
     (if length (announcement_text d) < capacity then Some (announcement_text d) else None)"
  unfolding ls_protocol_write_announcement_def quoted_names
proof (rule writer_result)
  show "concat ([''{''] @ device_texts d @ address_texts d @
      ['','' @ json_text ''download'' @ '':'' @ json_bool (download d),
       '','' @ json_text ''announce'' @ '':true}'']) = announcement_text d"
    by (simp add: announcement_text_def text_parts)
qed (auto simp: json_bool_def intro!: emits_parts)

lemma write_info:
  "ls_protocol_write_info d capacity =
     (if length (info_text d) < capacity then Some (info_text d) else None)"
  unfolding ls_protocol_write_info_def quoted_names
proof (rule writer_result)
  show "concat ([''{''] @ device_texts d @
      ['','' @ json_text ''download'' @ '':'' @ json_bool (download d) @ ''}'']) = info_text d"
    by (simp add: info_text_def text_parts)
qed (auto simp: json_bool_def intro!: emits_parts)

lemma write_prepare_upload_response:
  "ls_protocol_write_prepare_upload_response session_id fileid token capacity =
     (if length (response_text session_id fileid token) < capacity
      then Some (response_text session_id fileid token) else None)"
  unfolding ls_protocol_write_prepare_upload_response_def quoted_names
proof (rule writer_result)
  show "concat [''{'' @ json_text ''sessionId'' @ '':'', json_text session_id,
      '','' @ json_text ''files'' @ '':{'', json_text fileid, '':'', json_text token, ''}}''] =
      response_text session_id fileid token"
    by (simp add: response_text_def text_parts)
qed (auto intro!: emits_parts)

lemma write_prepare_upload_request:
  assumes "fileid \<noteq> []" and "filename \<noteq> []" and "filetype \<noteq> []"
  shows "ls_protocol_write_prepare_upload_request sender fileid filename filesize filetype capacity =
     (if length (request_text sender fileid filename filesize filetype) < capacity
      then Some (request_text sender fileid filename filesize filetype) else None)"
  unfolding ls_protocol_write_prepare_upload_request_def quoted_names
proof (simp only: assms simp_thms, rule writer_result)
  show "concat ([''{'' @ json_text ''info'' @ '':{''] @ device_texts sender @ address_texts sender @
      ['','' @ json_text ''download'' @ '':'' @ json_bool (download sender) @ ''}'',
       '','' @ json_text ''files'' @ '':{'', json_text fileid, '':{'' @ json_text ''id'' @ '':'',
       json_text fileid, '','' @ json_text ''fileName'' @ '':'', json_text filename,
       '','' @ json_text ''size'' @ '':'', dec (unat filesize), '','' @ json_text ''fileType'' @ '':'',
       json_text filetype,
       '','' @ json_text ''sha256'' @ '':null,'' @ json_text ''preview'' @ '':null}}}'']) =
      request_text sender fileid filename filesize filetype"
    by (simp add: request_text_def sender_text_def file_text_def text_parts)
qed (auto simp: json_bool_def intro!: emits_parts)

section \<open>Reading the texts back\<close>

lemma step_note: "f \<notin> seen \<Longrightarrow> note_field seen (Some f) = Some (insert f seen)"
  by (simp add: note_field_def set_once_def)

lemma json_key_ascii: "list_all (\<lambda>c. byte c < 0x80 \<and> c \<noteq> NUL) s \<Longrightarrow> json_key s"
  by (auto simp: json_key_def nul_free_def list_all_iff intro: valid_utf8_ascii_all)

lemma device_keys:
  "device_field_of ''alias'' = Some FIELD_ALIAS" "device_field_of ''version'' = Some FIELD_VERSION"
  "device_field_of ''deviceModel'' = Some FIELD_MODEL" "device_field_of ''deviceType'' = Some FIELD_TYPE"
  "device_field_of ''fingerprint'' = Some FIELD_FINGERPRINT" "device_field_of ''port'' = Some FIELD_PORT"
  "device_field_of ''protocol'' = Some FIELD_PROTOCOL" "device_field_of ''download'' = Some FIELD_DOWNLOAD"
  "device_field_of ''announce'' = Some FIELD_ANNOUNCE"
  by code_simp+

lemma keys_plain [simp]:
  "json_key ''alias''" "json_key ''version''" "json_key ''deviceModel''" "json_key ''deviceType''"
  "json_key ''fingerprint''" "json_key ''port''" "json_key ''protocol''" "json_key ''download''"
  "json_key ''announce''" "json_key ''id''" "json_key ''fileName''" "json_key ''size''"
  "json_key ''fileType''" "json_key ''sha256''" "json_key ''preview''" "json_key ''info''"
  "json_key ''files''" "json_key ''sessionId''"
  by (simp_all add: json_key_ascii)

lemma device_type_roundtrip: "parse_device_type (device_type_text t) = t" "text_field 16 (device_type_text t)"
  by (cases t; simp add: parse_device_type_def device_type_text_def text_field_def)+

lemma device_stepI:
  assumes "json_key k" and "length k < 32" and "device_field_of k = Some f" and "f \<notin> seen"
    and "\<And>rest. value_end rest \<Longrightarrow> parse_device_value (Some f) out (v @ rest) = Inr (out', rest)"
  shows "device_reader.step seen out (k, v) (insert f seen) out'"
  using assms by (simp add: device_reader.step_def step_note)

lemma device_step_alias:
  "FIELD_ALIAS \<notin> seen \<Longrightarrow> text_field 65 v \<Longrightarrow>
     device_reader.step seen out (''alias'', json_text v) (insert FIELD_ALIAS seen) (out\<lparr>device_alias := v\<rparr>)"
  by (rule device_stepI) (simp_all add: device_keys parse_device_value_def store_def read_back)

lemma device_step_version:
  "FIELD_VERSION \<notin> seen \<Longrightarrow> text_field 16 v \<Longrightarrow>
     device_reader.step seen out (''version'', json_text v) (insert FIELD_VERSION seen) (out\<lparr>version := v\<rparr>)"
  by (rule device_stepI) (simp_all add: device_keys parse_device_value_def store_def read_back)

lemma device_step_model:
  "FIELD_MODEL \<notin> seen \<Longrightarrow> text_field 49 v \<Longrightarrow>
     device_reader.step seen out (''deviceModel'', json_text v) (insert FIELD_MODEL seen) (out\<lparr>device_model := v\<rparr>)"
  by (rule device_stepI) (simp_all add: device_keys parse_device_value_def store_def read_back)

lemma device_step_type:
  "FIELD_TYPE \<notin> seen \<Longrightarrow>
     device_reader.step seen out (''deviceType'', json_text (device_type_text t)) (insert FIELD_TYPE seen)
       (out\<lparr>device_type := t\<rparr>)"
  by (rule device_stepI) (simp_all add: device_keys parse_device_value_def store_def read_back device_type_roundtrip)

lemma device_step_fingerprint:
  "FIELD_FINGERPRINT \<notin> seen \<Longrightarrow> text_field 129 v \<Longrightarrow>
     device_reader.step seen out (''fingerprint'', json_text v) (insert FIELD_FINGERPRINT seen) (out\<lparr>fingerprint := v\<rparr>)"
  by (rule device_stepI) (simp_all add: device_keys parse_device_value_def store_def read_back)

lemma device_step_port:
  "FIELD_PORT \<notin> seen \<Longrightarrow> p \<noteq> 0 \<Longrightarrow>
     device_reader.step seen out (''port'', dec (unat p)) (insert FIELD_PORT seen) (out\<lparr>port := p\<rparr>)"
  by (rule device_stepI) (simp_all add: device_keys parse_device_value_def store_def read_back)

lemma device_step_protocol:
  "FIELD_PROTOCOL \<notin> seen \<Longrightarrow>
     device_reader.step seen out (''protocol'', json_text (protocol_text pr)) (insert FIELD_PROTOCOL seen)
       (out\<lparr>protocol := pr\<rparr>)"
  using parse_protocol_text [of "pr = LS_PROTOCOL_HTTPS"]
  by (intro device_stepI; cases pr) (simp_all add: device_keys parse_device_value_def store_def protocol_text_def)

lemma device_step_download:
  "FIELD_DOWNLOAD \<notin> seen \<Longrightarrow>
     device_reader.step seen out (''download'', json_bool b) (insert FIELD_DOWNLOAD seen) (out\<lparr>download := b\<rparr>)"
  by (rule device_stepI) (simp_all add: device_keys parse_device_value_def store_def read_back)

lemma device_step_announce:
  "FIELD_ANNOUNCE \<notin> seen \<Longrightarrow>
     device_reader.step seen out (''announce'', json_bool b) (insert FIELD_ANNOUNCE seen) (out\<lparr>announce := b\<rparr>)"
  by (rule device_stepI) (simp_all add: device_keys parse_device_value_def store_def read_back)

lemmas device_steps_read = device_step_alias device_step_version device_step_model device_step_type
  device_step_fingerprint device_step_port device_step_protocol device_step_download device_step_announce

section \<open>Round trips\<close>

lemma reads_device_members:
  assumes "device_wf d"
  shows "device_reader.reads {} out (device_members d)
     ({FIELD_ALIAS, FIELD_VERSION, FIELD_TYPE, FIELD_FINGERPRINT} \<union>
        (if device_model d = [] then {} else {FIELD_MODEL}))
     (out\<lparr>device_alias := device_alias d, version := version d,
          device_model := (if device_model d = [] then device_model out else device_model d),
          device_type := device_type d, fingerprint := fingerprint d\<rparr>)"
proof (cases "device_model d = []")
  case True
  have "device_reader.reads {} out (device_members d)
     (insert FIELD_FINGERPRINT (insert FIELD_TYPE (insert FIELD_VERSION (insert FIELD_ALIAS {}))))
     (out\<lparr>device_alias := device_alias d, version := version d, device_type := device_type d,
          fingerprint := fingerprint d\<rparr>)"
    using assms True unfolding device_members_def device_wf_def
    by (simp only: append.simps simp_thms if_False if_True)
       (rule device_reader.reads_Cons [OF device_step_alias], simp, simp, rule device_reader.reads_Cons [OF device_step_version], simp, simp, rule device_reader.reads_Cons [OF device_step_type], simp, rule device_reader.reads_Cons [OF device_step_fingerprint], simp, simp, rule device_reader.reads_Nil)
  with True show ?thesis by (simp add: insert_commute)
next
  case False
  have "device_reader.reads {} out (device_members d)
     (insert FIELD_FINGERPRINT (insert FIELD_TYPE (insert FIELD_MODEL (insert FIELD_VERSION (insert FIELD_ALIAS {})))))
     (out\<lparr>device_alias := device_alias d, version := version d, device_model := device_model d,
          device_type := device_type d, fingerprint := fingerprint d\<rparr>)"
    using assms False unfolding device_members_def device_wf_def
    by (simp only: append.simps simp_thms if_False if_True)
       (rule device_reader.reads_Cons [OF device_step_alias], simp, simp, rule device_reader.reads_Cons [OF device_step_version], simp, simp, rule device_reader.reads_Cons [OF device_step_model], simp, simp, rule device_reader.reads_Cons [OF device_step_type], simp, rule device_reader.reads_Cons [OF device_step_fingerprint], simp, simp, rule device_reader.reads_Nil)
  with False show ?thesis by (simp add: insert_commute)
qed

lemma reads_address_members:
  assumes "FIELD_PORT \<notin> seen" and "FIELD_PROTOCOL \<notin> seen" and "port d \<noteq> 0"
  shows "device_reader.reads seen out (address_members d) (insert FIELD_PROTOCOL (insert FIELD_PORT seen))
    (out\<lparr>port := port d, protocol := protocol d\<rparr>)"
  unfolding address_members_def
  by (insert assms, rule device_reader.reads_Cons [OF device_step_port], simp, simp, rule device_reader.reads_Cons [OF device_step_protocol], simp, rule device_reader.reads_Nil)

text \<open>The device a reader of the message of \<open>d\<close> gets.\<close>

definition received_device :: "LsDevice \<Rightarrow> bool \<Rightarrow> string option \<Rightarrow> LsDevice" where
  "received_device d announced ip =
     d\<lparr>ip_address := (case ip of None \<Rightarrow> [] | Some a \<Rightarrow> a), announce := announced, last_seen_ms := 0\<rparr>"

lemma parse_device_members:
  assumes "device_message_wf d" and "device_reader.reads {} (zero_device\<lparr>device_type := LS_DEVICE_DESKTOP\<rparr>) ms seen out"
    and "{FIELD_ALIAS, FIELD_VERSION, FIELD_FINGERPRINT, FIELD_PORT, FIELD_PROTOCOL} \<subseteq> seen"
    and "out = received_device d b None" and "\<forall>a. ip = Some a \<longrightarrow> length a < 16" and "ms \<noteq> []"
  shows "ls_protocol_parse_device (json_object ms) ip = Inr (received_device d b ip)"
proof -
  obtain t where t: "json_members ms = QUOTE # t" using json_members_head [OF assms(6)] by blast
  have l: "parse_device_loop {} (zero_device\<lparr>device_type := LS_DEVICE_DESKTOP\<rparr>) (json_members ms @ ''}'') =
      Inr (seen, out, [])"
    using device_reader.loop_reads [OF assms(2,6), of "[]"] by simp
  have "take_char (CHR ''{'') (json_object ms) = Some (json_members ms @ ''}'')"
    by (simp add: json_object_def)
  moreover have "skip_whitespace (json_members ms @ ''}'') = json_members ms @ ''}''"
    "\<not> starts_with ''}'' (json_members ms @ ''}'')" "json_object ms \<noteq> []"
    by (simp_all add: t starts_with_def json_object_def)
  ultimately show ?thesis
    using l assms(1,3,4,5)
    by (cases ip) (simp_all add: ls_protocol_parse_device_def valid_network_display_text_def device_message_wf_def
        received_device_def)
qed

lemma reads_sender:
  assumes "device_message_wf d"
  shows "\<exists>seen. device_reader.reads {} (zero_device\<lparr>device_type := LS_DEVICE_DESKTOP\<rparr>)
      (device_members d @ address_members d @ [(''download'', json_bool (download d))]) seen
      (received_device d False None) \<and> FIELD_ANNOUNCE \<notin> seen \<and>
      {FIELD_ALIAS, FIELD_VERSION, FIELD_FINGERPRINT, FIELD_PORT, FIELD_PROTOCOL} \<subseteq> seen"
proof -
  let ?z = "zero_device\<lparr>device_type := LS_DEVICE_DESKTOP\<rparr>"
  let ?s = "{FIELD_ALIAS, FIELD_VERSION, FIELD_TYPE, FIELD_FINGERPRINT} \<union>
        (if device_model d = [] then {} else {FIELD_MODEL})"
  let ?s2 = "insert FIELD_DOWNLOAD (insert FIELD_PROTOCOL (insert FIELD_PORT ?s))"
  let ?o = "?z\<lparr>device_alias := device_alias d, version := version d,
          device_model := (if device_model d = [] then device_model ?z else device_model d),
          device_type := device_type d, fingerprint := fingerprint d, port := port d, protocol := protocol d,
          download := download d\<rparr>"
  have wf: "device_wf d" "port d \<noteq> 0" using assms by (auto simp: device_message_wf_def)
  have "device_reader.reads {} ?z
      (device_members d @ address_members d @ [(''download'', json_bool (download d))]) ?s2 ?o"
    by (rule device_reader.reads_append [OF reads_device_members [OF wf(1)]],
        rule device_reader.reads_append [OF reads_address_members],
        simp, simp, rule wf(2), rule device_reader.reads_Cons [OF device_step_download], simp,
        rule device_reader.reads_Nil)
  moreover have "?o = received_device d False None"
    by (simp add: received_device_def zero_device_def)
  ultimately show ?thesis by (intro exI [of _ ?s2]) simp
qed

lemma announcement_roundtrip:
  assumes "device_message_wf d" and "\<forall>a. ip = Some a \<longrightarrow> length a < LS3DS_IPV4_CAPACITY"
  shows "ls_protocol_parse_device (announcement_text d) ip = Inr (received_device d True ip)"
proof -
  obtain seen where r: "device_reader.reads {} (zero_device\<lparr>device_type := LS_DEVICE_DESKTOP\<rparr>)
      (device_members d @ address_members d @ [(''download'', json_bool (download d))]) seen
      (received_device d False None)" and s: "FIELD_ANNOUNCE \<notin> seen"
      "{FIELD_ALIAS, FIELD_VERSION, FIELD_FINGERPRINT, FIELD_PORT, FIELD_PROTOCOL} \<subseteq> seen"
    using reads_sender [OF assms(1)] by blast
  have "device_reader.reads {} (zero_device\<lparr>device_type := LS_DEVICE_DESKTOP\<rparr>)
      (device_members d @ address_members d @ [(''download'', json_bool (download d)), (''announce'', json_bool True)])
      (insert FIELD_ANNOUNCE seen) ((received_device d False None)\<lparr>announce := True\<rparr>)"
    using device_reader.reads_append [OF r device_reader.reads_Cons [OF device_step_announce [OF s(1)]
        device_reader.reads_Nil], of True] by simp
  from parse_device_members [OF assms(1) this, of True ip] s(2) assms(2) show ?thesis
    by (auto simp: announcement_text_def received_device_def)
qed

lemma sender_roundtrip:
  assumes "device_message_wf d" and "\<forall>a. ip = Some a \<longrightarrow> length a < LS3DS_IPV4_CAPACITY"
  shows "ls_protocol_parse_device (sender_text d) ip = Inr (received_device d False ip)"
  using reads_sender [OF assms(1)] parse_device_members [OF assms(1)] assms(2)
  unfolding sender_text_def by fastforce

section \<open>The prepare-upload request\<close>

lemma file_keys:
  "file_field_of ''id'' = Some FILE_FIELD_ID" "file_field_of ''fileName'' = Some FILE_FIELD_NAME"
  "file_field_of ''size'' = Some FILE_FIELD_SIZE" "file_field_of ''fileType'' = Some FILE_FIELD_TYPE"
  "file_field_of ''sha256'' = Some FILE_FIELD_SHA256" "file_field_of ''preview'' = None"
  by code_simp+

lemma file_stepI:
  assumes "json_key k" and "length k < 32" and "file_field_of k = Some f" and "f \<notin> seen"
    and "\<And>rest. value_end rest \<Longrightarrow> parse_file_value (Some f) out (v @ rest) = Inr (out', rest)"
  shows "file_reader.step seen out (k, v) (insert f seen) out'"
  using assms by (simp add: file_reader.step_def step_note)

lemma file_step_other:
  "skippable 0 v \<Longrightarrow> file_reader.step seen out (''preview'', v) seen out"
  unfolding file_reader.step_def
  by (simp add: file_keys note_field_def parse_file_value_def skippable_def skip_json_def)

definition received_file :: "string \<Rightarrow> string \<Rightarrow> u64 \<Rightarrow> string \<Rightarrow> LsIncomingFileMetadata" where
  "received_file fileid filename filesize filetype =
     \<lparr>file_id = fileid, file_name = filename, file_size = filesize, file_type = filetype,
      has_sha256 = False, file_sha256 = []\<rparr>"

text \<open>What the client may put into a request: the texts fit the receiver's fields.\<close>

definition sendable_file :: "string \<Rightarrow> string \<Rightarrow> string \<Rightarrow> bool" where
  "sendable_file fileid filename filetype \<longleftrightarrow>
     text_field LS3DS_FILE_ID_CAPACITY fileid \<and> fileid \<noteq> [] \<and>
     text_field LS3DS_FILENAME_CAPACITY filename \<and> filename \<noteq> [] \<and> display_text_loop filename \<and>
     text_field LS3DS_FILE_TYPE_CAPACITY filetype \<and> filetype \<noteq> []"

lemma reads_file:
  assumes "sendable_file fileid filename filetype"
  shows "file_reader.reads {} zero_file
     [(''id'', json_text fileid), (''fileName'', json_text filename), (''size'', dec (unat filesize)),
      (''fileType'', json_text filetype), (''sha256'', ''null''), (''preview'', ''null'')]
     {FILE_FIELD_SHA256, FILE_FIELD_TYPE, FILE_FIELD_SIZE, FILE_FIELD_NAME, FILE_FIELD_ID}
     (received_file fileid filename filesize filetype)"
proof -
  note f = file_keys parse_file_value_def store_def require_def read_back valid_network_display_text_def
  have wf: "text_field 129 fileid" "text_field 256 filename" "display_text_loop filename" "text_field 129 filetype"
    using assms by (auto simp: sendable_file_def)
  have id: "file_reader.step {} zero_file (''id'', json_text fileid) {FILE_FIELD_ID} (zero_file\<lparr>file_id := fileid\<rparr>)"
    using wf by (intro file_stepI) (simp_all add: f)
  have name: "file_reader.step seen out (''fileName'', json_text filename) (insert FILE_FIELD_NAME seen)
      (out\<lparr>file_name := filename\<rparr>)" if "FILE_FIELD_NAME \<notin> seen" for seen out
    using wf that by (intro file_stepI) (simp_all add: f)
  have size: "file_reader.step seen out (''size'', dec (unat filesize)) (insert FILE_FIELD_SIZE seen)
      (out\<lparr>file_size := filesize\<rparr>)" if "FILE_FIELD_SIZE \<notin> seen" for seen out
    using that by (intro file_stepI) (simp_all add: f)
  have type: "file_reader.step seen out (''fileType'', json_text filetype) (insert FILE_FIELD_TYPE seen)
      (out\<lparr>file_type := filetype\<rparr>)" if "FILE_FIELD_TYPE \<notin> seen" for seen out
    using wf that by (intro file_stepI) (simp_all add: f)
  have sha: "file_reader.step seen out (''sha256'', ''null'') (insert FILE_FIELD_SHA256 seen) out"
    if "FILE_FIELD_SHA256 \<notin> seen" for seen out
    using that parse_null_or_null by (intro file_stepI) (simp_all add: f)
  have "received_file fileid filename filesize filetype =
      zero_file\<lparr>file_id := fileid, file_name := filename, file_size := filesize, file_type := filetype\<rparr>"
    by (simp add: received_file_def zero_file_def)
  then show ?thesis
    by (simp only:) (rule file_reader.reads_Cons [OF id] file_reader.reads_Cons [OF name] file_reader.reads_Cons [OF size]
        file_reader.reads_Cons [OF type] file_reader.reads_Cons [OF sha]
        file_reader.reads_Cons [OF file_step_other [OF skippable_null]] file_reader.reads_Nil | simp)+
qed

lemma parse_file_object_text:
  assumes "sendable_file fileid filename filetype"
  shows "parse_file_object (file_text fileid filename filesize filetype @ rest) =
    Inr (received_file fileid filename filesize filetype, rest)"
proof -
  let ?ms = "[(''id'', json_text fileid), (''fileName'', json_text filename), (''size'', dec (unat filesize)),
      (''fileType'', json_text filetype), (''sha256'', ''null''), (''preview'', ''null'')]"
  obtain t where t: "json_members ?ms = QUOTE # t" using json_members_head [of ?ms] by blast
  have "parse_file_loop {} zero_file (json_members ?ms @ ''}'' @ rest) =
      Inr ({FILE_FIELD_SHA256, FILE_FIELD_TYPE, FILE_FIELD_SIZE, FILE_FIELD_NAME, FILE_FIELD_ID},
        received_file fileid filename filesize filetype, rest)"
    using file_reader.loop_reads [OF reads_file [OF assms]] by simp
  with assms show ?thesis unfolding file_text_def json_object_def t
    by (simp add: parse_file_object_def starts_with_def received_file_def sendable_file_def)
qed

lemma parse_single_file_map_text:
  assumes "sendable_file fileid filename filetype"
  shows "parse_single_file_map (json_object [(fileid, file_text fileid filename filesize filetype)] @ rest) =
    Inr (received_file fileid filename filesize filetype, rest)"
proof -
  let ?v = "file_text fileid filename filesize filetype"
  have "member_key LS3DS_FILE_ID_CAPACITY (json_text fileid @ '':'' @ ?v @ ''}'' @ rest) = Inr (fileid, ?v @ ''}'' @ rest)"
    using assms by (simp add: member_key_def sendable_file_def parse_string_field)
  with parse_file_object_text [OF assms, of filesize "''}'' @ rest"] show ?thesis
    by (simp add: parse_single_file_map_def json_object_def json_member_def json_text_Cons starts_with_def
        received_file_def)
qed

lemma skippable_sender:
  assumes "device_wf d"
  shows "skippable 0 (sender_text d)"
  unfolding sender_text_def
proof (rule skippable_object)
  have "text_field n s \<Longrightarrow> skippable 1 (json_text s)" for n s
    by (rule skippable_text) (simp add: json_key_def text_field_def)
  moreover have "skippable 1 (json_text (device_type_text t))" "skippable 1 (json_text (protocol_text p))" for t p
    by (cases t; cases p; rule skippable_text; simp add: device_type_text_def protocol_text_def json_key_ascii)+
  ultimately show "skippable_members (Suc 0) (device_members d @ address_members d @ [(''download'', json_bool (download d))])"
    using assms skippable_dec skippable_bool
    by (auto simp: skippable_members_def device_members_def address_members_def device_wf_def)
qed (simp_all add: device_members_def)

lemma prepare_stepI:
  assumes "json_key k" and "length k < 32" and "prepare_field_of k = Some f" and "f \<notin> seen"
    and "\<And>rest. value_end rest \<Longrightarrow> parse_prepare_value ip (Some f) out (v @ rest) = Inr (out', rest)"
  shows "prepare_reader.step ip seen out (k, v) (insert f seen) out'"
  using assms by (simp add: prepare_reader.step_def step_note)

lemma prepare_info_value:
  assumes "device_message_wf d" and "\<forall>a. ip = Some a \<longrightarrow> length a < 16" and "value_end rest"
  shows "parse_prepare_value ip (Some PREPARE_FIELD_INFO) out (sender_text d @ rest) =
    Inr (out\<lparr>request_sender := received_device d False ip\<rparr>, rest)"
proof -
  have "device_wf d" using assms(1) by (simp add: device_message_wf_def)
  then have "skip_value 0 (sender_text d @ rest) = Some rest"
    using skippable_sender assms(3) by (auto simp: skippable_def)
  moreover have "skip_whitespace (sender_text d @ rest) = sender_text d @ rest"
    by (simp add: sender_text_def json_object_def)
  ultimately show ?thesis using sender_roundtrip [OF assms(1), of ip] assms(2)
    by (simp add: parse_prepare_value_def)
qed

lemma request_roundtrip:
  assumes "device_message_wf d" and "sendable_file fileid filename filetype"
    and "\<forall>a. ip = Some a \<longrightarrow> length a < LS3DS_IPV4_CAPACITY"
  shows "ls_protocol_parse_prepare_upload (request_text d fileid filename filesize filetype) ip =
    Inr \<lparr>request_sender = received_device d False ip,
         request_file = received_file fileid filename filesize filetype\<rparr>"
proof -
  let ?z = "\<lparr>request_sender = zero_device, request_file = zero_file\<rparr>"
  let ?fs = "json_object [(fileid, file_text fileid filename filesize filetype)]"
  let ?ms = "[(''info'', sender_text d), (''files'', ?fs)]"
  let ?q = "\<lparr>request_sender = received_device d False ip, request_file = received_file fileid filename filesize filetype\<rparr>"
  have k: "prepare_field_of ''info'' = Some PREPARE_FIELD_INFO" "prepare_field_of ''files'' = Some PREPARE_FIELD_FILES"
    by code_simp+
  have i: "prepare_reader.step ip {} ?z (''info'', sender_text d) {PREPARE_FIELD_INFO}
      (?z\<lparr>request_sender := received_device d False ip\<rparr>)"
    using assms by (intro prepare_stepI) (simp_all add: k prepare_info_value)
  have f: "prepare_reader.step ip {PREPARE_FIELD_INFO} (?z\<lparr>request_sender := received_device d False ip\<rparr>)
      (''files'', ?fs) {PREPARE_FIELD_FILES, PREPARE_FIELD_INFO} ?q"
    using assms(2) by (intro prepare_stepI) (simp_all add: k parse_prepare_value_def parse_single_file_map_text)
  have "prepare_reader.reads ip {} ?z ?ms {PREPARE_FIELD_FILES, PREPARE_FIELD_INFO} ?q"
    by (rule prepare_reader.reads_Cons [OF i prepare_reader.reads_Cons [OF f prepare_reader.reads_Nil]])
  from prepare_reader.loop_reads [OF this, of "[]"]
  have l: "parse_prepare_loop ip {} ?z (json_members ?ms @ ''}'') = Inr ({PREPARE_FIELD_FILES, PREPARE_FIELD_INFO}, ?q, [])"
    by simp
  obtain t where t: "json_members ?ms = QUOTE # t" using json_members_head [of ?ms] by blast
  show ?thesis using l unfolding request_text_def json_object_def [of ?ms] t
    by (simp add: ls_protocol_parse_prepare_upload_def starts_with_def)
qed

section \<open>The prepare-upload response\<close>

lemma response_roundtrip:
  assumes "text_field LS3DS_SESSION_ID_CAPACITY session_id" and "session_id \<noteq> []"
    and "text_field LS3DS_FILE_ID_CAPACITY fileid" and "fileid \<noteq> []"
    and "text_field LS3DS_FILE_TOKEN_CAPACITY token" and "token \<noteq> []"
  shows "ls_protocol_parse_prepare_upload_response (response_text session_id fileid token) fileid =
    Inr \<lparr>response_session_id = session_id, response_file_token = token\<rparr>"
proof -
  let ?fs = "json_object [(fileid, json_text token)]"
  have k: "member_key n (json_member (key, v) @ rest) = Inr (key, v @ rest)" if "text_field n key" for n key v rest
    using that by (simp add: member_key_def json_member_def parse_string_field)
  have fl: "parse_response_files_loop fileid False [] (json_member (fileid, json_text token) @ ''}'' @ rest) =
      Inr (True, token, rest)" for rest
    using assms
    by (subst parse_response_files_loop.simps) (simp add: k parse_string_field member_end_def)
  have f: "parse_response_files fileid (?fs @ rest) = Inr (token, rest)" for rest
    using fl [of rest]
    by (simp add: parse_response_files_def json_object_def json_member_def json_text_Cons starts_with_def)
  have keys: "text_field 32 ''sessionId''" "text_field 32 ''files''" by (simp_all add: text_field_def)
  have head: "skip_whitespace (json_member m @ r) = json_member m @ r" "\<not> starts_with ''}'' (json_member m @ r)" for m r
    by (simp_all add: json_member_def json_text_Cons starts_with_def)
  have fields: "response_field_of ''sessionId'' = Some RESPONSE_SESSION" "response_field_of ''files'' = Some RESPONSE_FILES"
    by code_simp+
  let ?z = "\<lparr>response_session_id = [], response_file_token = []\<rparr>"
  let ?f = "json_member (''files'', ?fs) @ ''}''"
  have "parse_response_loop fileid {RESPONSE_SESSION} (?z\<lparr>response_session_id := session_id\<rparr>) ?f =
    Inr ({RESPONSE_FILES, RESPONSE_SESSION}, \<lparr>response_session_id = session_id, response_file_token = token\<rparr>, [])"
    using keys
    by (subst parse_response_loop.simps) (simp add: head k fields step_note parse_response_value_def f member_end_def)
  then have "parse_response_loop fileid {} ?z (json_member (''sessionId'', json_text session_id) @ '','' @ ?f) =
    Inr ({RESPONSE_FILES, RESPONSE_SESSION}, \<lparr>response_session_id = session_id, response_file_token = token\<rparr>, [])"
    using keys assms
    by (subst parse_response_loop.simps)
       (simp add: head k fields step_note parse_response_value_def parse_string_field member_end_def)
  then show ?thesis
    by (simp add: ls_protocol_parse_prepare_upload_response_def response_text_def json_object_def [of "[_, _]"] assms(4))
qed

end
