(* ===== verification/Http_Server.thy ===== *)
theory Http_Server
  imports Http_Upload Registry Protocol_Write
begin

text \<open>
  The server of \<open>source/http_server.c\<close>: start and stop, accepting connections, the routes of the
  LocalSend protocol, the decision of the user and the polling loop \<open>ls_http_server_update\<close>. A state
  is the server, the device registry the register route updates, and the world. The operations on
  one connection of the theories below run on the connection in slot \<open>i\<close>. Left out: log lines, the
  \<open>NULL\<close> checks, and the port, which only goes into \<open>bind\<close>, whose answer the world gives.
\<close>

definition [cap_defs, simp]: "LS3DS_HTTP_IDLE_TIMEOUT_MS = (5000 :: u64)"
definition [cap_defs, simp]: "LS3DS_HTTP_DECISION_TIMEOUT_MS = (120000 :: u64)"
definition [cap_defs, simp]: "LS3DS_HTTP_TRANSFER_IDLE_TIMEOUT_MS = (30000 :: u64)"
definition [cap_defs, simp]: "LS3DS_UPLOAD_SESSION_TIMEOUT_MS = (120000 :: u64)"
definition [cap_defs]: "LS3DS_DOWNLOAD_DIRECTORY = ''sdmc:/3ds/LocalSend/Downloads''"

type_synonym slots_state = "LsHttpServer \<times> world"
type_synonym server_state = "LsHttpServer \<times> LsDeviceRegistry \<times> world"

abbreviation client :: "LsHttpServer \<Rightarrow> nat \<Rightarrow> LsHttpConnection" where
  "client s i \<equiv> sv_clients s ! i"

definition set_client :: "nat \<Rightarrow> LsHttpConnection \<Rightarrow> LsHttpServer \<Rightarrow> LsHttpServer" where
  "set_client i c s = s\<lparr>sv_clients := (sv_clients s)[i := c]\<rparr>"

definition at_slot :: "nat \<Rightarrow> (http_state \<Rightarrow> http_state) \<Rightarrow> slots_state \<Rightarrow> slots_state" where
  "at_slot i f = (\<lambda>(s, w). case f (client s i, s, w) of (c, s, w) \<Rightarrow> (set_client i c s, w))"

abbreviation slots :: "nat list" where
  "slots \<equiv> [0..<LS3DS_MAX_HTTP_CONNECTIONS]"

section \<open>Start and stop\<close>

definition set_nonblocking :: "world \<Rightarrow> bool \<times> world" where
  "set_nonblocking w = (case do_net w of (False, w) \<Rightarrow> (False, w) | (True, w) \<Rightarrow> do_net w)"

definition ls_http_server_stop :: "slots_state \<Rightarrow> slots_state" where
  "ls_http_server_stop = (\<lambda>(s, w).
     (let (s, w) = (if ls_transfer_is_busy (sv_transfer s)
                    then on_transfer (ls_transfer_cancel (Some ''Application/network shutdown'') 0) (s, w)
                    else (s, w));
          (s, w) = fold (\<lambda>i. at_slot i reset_state) slots (s, w);
          w = (if sv_listen_fd s \<ge> 0 then do_close (sv_listen_fd s) w else w)
      in (s\<lparr>sv_listen_fd := -1, sv_running := False\<rparr>, w)))"

definition zero_server :: "string \<Rightarrow> LsHttpServer" where
  "zero_server download_directory =
     \<lparr>sv_listen_fd = -1, sv_running = False,
      sv_clients = replicate LS3DS_MAX_HTTP_CONNECTIONS zero_connection, sv_accepted_connections = 0,
      sv_handled_requests = 0, sv_rejected_requests = 0, sv_last_errno = 0,
      sv_external_transfer_busy = False, sv_quick_save = False,
      sv_download_directory = download_directory, sv_transfer = ls_transfer_init\<rparr>"

text \<open>A configuration step that fails stops the server.\<close>

definition start_failed :: "slots_state \<Rightarrow> bool \<times> slots_state" where
  "start_failed = (\<lambda>(s, w). (False, ls_http_server_stop (s\<lparr>sv_last_errno := w_errno w\<rparr>, w)))"

definition ls_http_server_start_on_port_at :: "string \<Rightarrow> slots_state \<Rightarrow> bool \<times> slots_state" where
  "ls_http_server_start_on_port_at download_directory = (\<lambda>(s, w).
     (if download_directory = [] \<or> length download_directory \<ge> LS3DS_PATH_CAPACITY then (False, s, w)
      else (let s = zero_server download_directory in
            case do_socket w of
              (None, w) \<Rightarrow> (False, s\<lparr>sv_last_errno := w_errno w\<rparr>, w)
            | (Some fd, w) \<Rightarrow>
                (let s = s\<lparr>sv_listen_fd := fd\<rparr> in
                 if fd < 0 then (False, s\<lparr>sv_last_errno := w_errno w\<rparr>, w)
                 else case do_net w of
                   (False, w) \<Rightarrow> start_failed (s, w)
                 | (True, w) \<Rightarrow>
                     (case set_nonblocking w of
                        (False, w) \<Rightarrow> start_failed (s, w)
                      | (True, w) \<Rightarrow>
                          (case do_net w of
                             (False, w) \<Rightarrow> start_failed (s, w)
                           | (True, w) \<Rightarrow>
                               (case do_net w of
                                  (False, w) \<Rightarrow> start_failed (s, w)
                                | (True, w) \<Rightarrow> (True, s\<lparr>sv_running := True\<rparr>, w))))))))"

definition ls_http_server_start :: "slots_state \<Rightarrow> bool \<times> slots_state" where
  "ls_http_server_start = ls_http_server_start_on_port_at LS3DS_DOWNLOAD_DIRECTORY"

definition ls_http_server_set_external_transfer_busy :: "bool \<Rightarrow> LsHttpServer \<Rightarrow> LsHttpServer" where
  "ls_http_server_set_external_transfer_busy busy s = s\<lparr>sv_external_transfer_busy := busy\<rparr>"

definition ls_http_server_set_quick_save :: "bool \<Rightarrow> LsHttpServer \<Rightarrow> LsHttpServer" where
  "ls_http_server_set_quick_save enabled s = s\<lparr>sv_quick_save := enabled\<rparr>"

section \<open>Accepting connections\<close>

definition free_connection :: "LsHttpServer \<Rightarrow> nat option" where
  "free_connection s = find (\<lambda>i. cn_fd (client s i) < 0) slots"

definition reject_connection :: "int \<Rightarrow> slots_state \<Rightarrow> slots_state" where
  "reject_connection fd = (\<lambda>(s, w). (s\<lparr>sv_rejected_requests := sv_rejected_requests s + 1\<rparr>, do_close fd w))"

text \<open>One accepted descriptor; \<open>connection_reset\<close> closes it when its address has no text.\<close>

definition place_connection :: "int \<Rightarrow> string \<Rightarrow> bool \<Rightarrow> bool \<Rightarrow> u64 \<Rightarrow> slots_state \<Rightarrow> slots_state" where
  "place_connection fd ip nonblocking known now_ms = (\<lambda>(s, w).
     (case free_connection s of
        None \<Rightarrow> reject_connection fd (s, w)
      | Some i \<Rightarrow>
          (if \<not> nonblocking then reject_connection fd (s, w)
           else if \<not> known then reject_connection fd (set_client i zero_connection s, w)
           else (set_client i (zero_connection\<lparr>cn_fd := fd, cn_peer_ip := ip, cn_last_activity_ms := now_ms\<rparr>)
                   (s\<lparr>sv_accepted_connections := sv_accepted_connections s + 1\<rparr>), w))))"

fun accept_loop :: "nat \<Rightarrow> u64 \<Rightarrow> slots_state \<Rightarrow> slots_state" where
  "accept_loop 0 now_ms st = st"
| "accept_loop (Suc n) now_ms (s, w) =
     (case do_accept w of
        (None, w) \<Rightarrow> (s, w)
      | (Some (AcceptError e), w) \<Rightarrow> (s\<lparr>sv_last_errno := e\<rparr>, w)
      | (Some (AcceptPeer fd ip nonblocking known), w) \<Rightarrow>
          accept_loop n now_ms (place_connection fd ip nonblocking known now_ms (s, w)))"

definition accept_connections :: "u64 \<Rightarrow> slots_state \<Rightarrow> slots_state" where
  "accept_connections = accept_loop LS3DS_MAX_HTTP_CONNECTIONS"

section \<open>The user's decision\<close>

definition waiting_approval_connection :: "LsHttpServer \<Rightarrow> nat option" where
  "waiting_approval_connection s =
     find (\<lambda>i. cn_fd (client s i) \<ge> 0 \<and> cn_mode (client s i) = LS_HTTP_WAITING_FOR_APPROVAL) slots"

definition active_now :: "u64 \<Rightarrow> http_state \<Rightarrow> http_state" where
  "active_now now_ms = (\<lambda>(c, s, w). (c\<lparr>cn_last_activity_ms := now_ms\<rparr>, s, w))"

definition ls_http_server_accept_transfer :: "u64 \<Rightarrow> slots_state \<Rightarrow> bool \<times> slots_state" where
  "ls_http_server_accept_transfer now_ms = (\<lambda>(s, w).
     (if tr_state (sv_transfer s) \<noteq> LS_TRANSFER_WAITING_FOR_USER then (False, s, w)
      else case waiting_approval_connection s of
        None \<Rightarrow> (False, on_transfer (ls_transfer_cancel (Some ''Sender disconnected before approval'') now_ms) (s, w))
      | Some i \<Rightarrow>
          (let (s, w) = at_slot i (active_now now_ms) (s, w) in
           case ls_transfer_accept (sv_download_directory s) now_ms (sv_transfer s) w of
             (accepted, t, w) \<Rightarrow>
               (let s = s\<lparr>sv_transfer := t\<rparr> in
                case (if accepted
                      then ls_protocol_write_prepare_upload_response (tr_session_id t)
                             (file_id (tr_file_metadata t)) (tr_file_token t) 512
                      else None) of
                  None \<Rightarrow>
                    (let (s, w) = (if ls_transfer_is_busy t
                                   then on_transfer (ls_transfer_fail (Some ''Could not create upload session'') now_ms) (s, w)
                                   else (s, w))
                     in (False, at_slot i (count_rejected \<circ> empty_response 500 ''Internal Server Error'') (s, w)))
                | Some body \<Rightarrow>
                    (True, at_slot i (\<lambda>(c, s, w).
                       count_handled (response 200 ''OK'' ''application/json; charset=utf-8'' body
                         (c\<lparr>cn_owns_prepare_session := True\<rparr>, s, w))) (s, w))))))"

definition ls_http_server_reject_transfer :: "u64 \<Rightarrow> slots_state \<Rightarrow> bool \<times> slots_state" where
  "ls_http_server_reject_transfer now_ms = (\<lambda>(s, w).
     (if tr_state (sv_transfer s) \<noteq> LS_TRANSFER_WAITING_FOR_USER then (False, s, w)
      else (let connection = waiting_approval_connection s;
                s = s\<lparr>sv_transfer := ls_transfer_reject now_ms (sv_transfer s)\<rparr>
            in (True, (case connection of
                  None \<Rightarrow> (s, w)
                | Some i \<Rightarrow>
                    at_slot i (count_handled \<circ> message_response 403 ''Forbidden'' ''Rejected'' \<circ> active_now now_ms) (s, w))))))"

text \<open>The connections that belong to the transfer, but for \<open>keep\<close>, are closed.\<close>

definition owned_by_transfer :: "LsHttpConnection \<Rightarrow> bool" where
  "owned_by_transfer c \<longleftrightarrow>
     cn_fd c \<ge> 0 \<and> (cn_mode c = LS_HTTP_STREAMING_UPLOAD \<or> cn_mode c = LS_HTTP_WAITING_FOR_APPROVAL \<or>
                     cn_owns_prepare_session c)"

definition close_transfer_connections :: "nat option \<Rightarrow> slots_state \<Rightarrow> slots_state" where
  "close_transfer_connections keep =
     fold (\<lambda>i (s, w). if Some i \<noteq> keep \<and> owned_by_transfer (client s i) then at_slot i reset_state (s, w) else (s, w)) slots"

definition ls_http_server_cancel_transfer :: "u64 \<Rightarrow> slots_state \<Rightarrow> bool \<times> slots_state" where
  "ls_http_server_cancel_transfer now_ms = (\<lambda>(s, w).
     (if \<not> ls_transfer_is_busy (sv_transfer s) then (False, s, w)
      else (True, close_transfer_connections None
                    (on_transfer (ls_transfer_cancel (Some ''Cancelled locally'') now_ms) (s, w)))))"

section \<open>The routes\<close>

definition handle_prepare_upload :: "nat \<Rightarrow> string \<Rightarrow> u64 \<Rightarrow> slots_state \<Rightarrow> slots_state" where
  "handle_prepare_upload i body now_ms = (\<lambda>(s, w).
     (let blocked = count_rejected \<circ> message_response 409 ''Conflict'' ''Blocked by another session'';
          peer_ip = cn_peer_ip (client s i)
      in if sv_external_transfer_busy s \<or> ls_transfer_is_busy (sv_transfer s) then at_slot i blocked (s, w)
         else case ls_protocol_parse_prepare_upload body (Some peer_ip) of
           Inl _ \<Rightarrow> at_slot i (count_rejected \<circ> message_response 400 ''Bad Request'' ''Invalid body'') (s, w)
         | Inr request \<Rightarrow>
             (case ls_transfer_begin_request request peer_ip now_ms (sv_transfer s) w of
                (False, t, w) \<Rightarrow> at_slot i blocked (s\<lparr>sv_transfer := t\<rparr>, w)
              | (True, t, w) \<Rightarrow>
                  (let (s, w) = at_slot i (\<lambda>(c, s, w).
                         (c\<lparr>cn_mode := LS_HTTP_WAITING_FOR_APPROVAL, cn_last_activity_ms := now_ms\<rparr>, s, w))
                         (s\<lparr>sv_transfer := t\<rparr>, w)
                   in if sv_quick_save s then snd (ls_http_server_accept_transfer now_ms (s, w)) else (s, w)))))"

definition cancel_allowed :: "LsIncomingTransfer \<Rightarrow> string \<Rightarrow> QueryResult \<Rightarrow> bool" where
  "cancel_allowed t peer_ip session \<longleftrightarrow>
     session \<noteq> QUERY_INVALID \<and> ls_transfer_is_busy t \<and> tr_sender_ip t = peer_ip \<and>
     (if tr_state t = LS_TRANSFER_WAITING_FOR_USER
      then session = QUERY_MISSING \<or> session = QUERY_OK (tr_session_id t)
      else session = QUERY_OK (tr_session_id t))"

definition handle_remote_cancel :: "nat \<Rightarrow> ParsedRequest \<Rightarrow> u64 \<Rightarrow> slots_state \<Rightarrow> slots_state" where
  "handle_remote_cancel i request now_ms = (\<lambda>(s, w).
     (let session = query_value (req_target request) ''sessionId'' LS3DS_SESSION_ID_CAPACITY;
          (s, w) = (if cancel_allowed (sv_transfer s) (cn_peer_ip (client s i)) session
                    then close_transfer_connections (Some i)
                           (on_transfer (ls_transfer_cancel (Some ''Cancelled by sender'') now_ms) (s, w))
                    else (s, w))
      in at_slot i (count_handled \<circ> empty_response 200 ''OK'') (s, w)))"

text \<open>The answer to a register or info request.\<close>

definition info_response :: "LsDevice \<Rightarrow> http_state \<Rightarrow> http_state" where
  "info_response identity st =
     (case ls_protocol_write_info identity 512 of
        None \<Rightarrow> count_rejected (empty_response 500 ''Internal Server Error'' st)
      | Some info \<Rightarrow> count_handled (response 200 ''OK'' ''application/json; charset=utf-8'' info st))"

definition handle_register :: "nat \<Rightarrow> string \<Rightarrow> LsDevice \<Rightarrow> u64 \<Rightarrow> server_state \<Rightarrow> server_state" where
  "handle_register i body identity now_ms = (\<lambda>(s, registry, w).
     (case ls_protocol_parse_device body (Some (cn_peer_ip (client s i))) of
        Inl _ \<Rightarrow>
          (case at_slot i (count_rejected \<circ> empty_response 400 ''Bad Request'') (s, w) of (s, w) \<Rightarrow> (s, registry, w))
      | Inr peer \<Rightarrow>
          (if fingerprint peer = fingerprint identity then
             (case at_slot i (count_rejected \<circ> empty_response 400 ''Bad Request'') (s, w) of (s, w) \<Rightarrow> (s, registry, w))
           else (let registry = snd (ls_registry_upsert peer now_ms registry) in
                 case at_slot i (info_response identity) (s, w) of (s, w) \<Rightarrow> (s, registry, w)))))"

definition on_slots :: "(slots_state \<Rightarrow> slots_state) \<Rightarrow> server_state \<Rightarrow> server_state" where
  "on_slots f = (\<lambda>(s, registry, w). case f (s, w) of (s, w) \<Rightarrow> (s, registry, w))"

definition handle_metadata_request :: "nat \<Rightarrow> ParsedRequest \<Rightarrow> LsDevice \<Rightarrow> u64 \<Rightarrow> server_state \<Rightarrow> server_state" where
  "handle_metadata_request i request identity now_ms st =
     (let rejected = (\<lambda>status reason. on_slots (at_slot i (count_rejected \<circ> empty_response status reason)) st);
          body = take (unat (req_content_length request)) (drop (req_header_length request) (cn_rx (client (fst st) i)));
          posted = (req_method request = ''POST'')
      in case route_path (req_target request) 256 of
           None \<Rightarrow> rejected 400 ''Bad Request''
         | Some path \<Rightarrow>
             (if posted \<and> path = ''/api/localsend/v2/register'' then handle_register i body identity now_ms st
              else if req_method request = ''GET'' \<and>
                (path = ''/api/localsend/v2/info'' \<or> path = ''/api/localsend/v1/info'')
              then on_slots (at_slot i (info_response identity)) st
              else if posted \<and> path = ''/api/localsend/v2/prepare-upload''
              then on_slots (handle_prepare_upload i body now_ms) st
              else if posted \<and> path = ''/api/localsend/v2/cancel''
              then on_slots (handle_remote_cancel i request now_ms) st
              else if take 18 path = ''/api/localsend/v2/'' \<or> take 18 path = ''/api/localsend/v1/''
              then rejected 405 ''Method Not Allowed''
              else rejected 404 ''Not Found''))"

section \<open>Polling\<close>

text \<open>The second half of \<open>read_request\<close>, once the bytes are in \<open>rx\<close>.\<close>

definition dispatch_request :: "nat \<Rightarrow> LsDevice \<Rightarrow> u64 \<Rightarrow> server_state \<Rightarrow> server_state" where
  "dispatch_request i identity now_ms st =
     (let rejected = (\<lambda>status reason. on_slots (at_slot i (count_rejected \<circ> empty_response status reason)) st);
          rx = cn_rx (client (fst st) i);
          header_length = find_header_end rx;
          received = length rx - header_length
      in if header_length = 0 then
           (if length rx \<ge> LS3DS_MAX_HTTP_HEADER_SIZE then rejected 431 ''Request Header Fields Too Large'' else st)
         else if header_length > LS3DS_MAX_HTTP_HEADER_SIZE then rejected 431 ''Request Header Fields Too Large''
         else case parse_request_headers (take header_length rx) of
           None \<Rightarrow> rejected 400 ''Bad Request''
         | Some request \<Rightarrow>
             (case route_path (req_target request) 256 of
                None \<Rightarrow> rejected 400 ''Bad Request''
              | Some path \<Rightarrow>
                  (if req_method request = ''POST'' \<and> path = ''/api/localsend/v2/upload'' then
                     on_slots (at_slot i (handle_upload_start request (drop header_length rx) now_ms)) st
                   else if req_chunked request then rejected 501 ''Not Implemented''
                   else if req_method request = ''POST'' \<and> \<not> req_has_content_length request then
                     rejected 411 ''Length Required''
                   else if unat (req_content_length request) > LS3DS_MAX_HTTP_METADATA_SIZE then
                     rejected 413 ''Content Too Large''
                   else if unat (req_content_length request) > received then st
                   else if unat (req_content_length request) \<noteq> received then rejected 400 ''Bad Request''
                   else handle_metadata_request i request identity now_ms st)))"

definition read_request :: "nat \<Rightarrow> LsDevice \<Rightarrow> u64 \<Rightarrow> server_state \<Rightarrow> server_state" where
  "read_request i identity now_ms = (\<lambda>(s, registry, w).
     (let c = client s i in
      if length (cn_rx c) \<ge> LS3DS_HTTP_RX_CAPACITY then
        on_slots (at_slot i (count_rejected \<circ> empty_response 413 ''Content Too Large'')) (s, registry, w)
      else case do_recv (cn_fd c) (LS3DS_HTTP_RX_CAPACITY - length (cn_rx c)) w of
        (RecvEof, w) \<Rightarrow> on_slots (at_slot i (abort_connection ''Sender disconnected'' now_ms)) (s, registry, w)
      | (RecvAgain, w) \<Rightarrow> (s, registry, w)
      | (RecvError n, w) \<Rightarrow>
          on_slots (at_slot i (abort_connection ''Network receive failed'' now_ms)) (s\<lparr>sv_last_errno := n\<rparr>, registry, w)
      | (RecvData data, w) \<Rightarrow>
          dispatch_request i identity now_ms
            (set_client i (c\<lparr>cn_rx := cn_rx c @ data, cn_last_activity_ms := now_ms\<rparr>) s, registry, w)))"

definition write_connection :: "u64 \<Rightarrow> http_state \<Rightarrow> http_state" where
  "write_connection now_ms = (\<lambda>(c, s, w).
     (if cn_mode c \<noteq> LS_HTTP_WRITING_RESPONSE \<or> cn_tx c = [] then (c, s, w)
      else case do_send (cn_fd c) (drop (cn_tx_sent c) (cn_tx c)) w of
        (SendAgain, w) \<Rightarrow> (c, s, w)
      | (SendError n, w) \<Rightarrow>
          abort_connection ''Could not send session response'' now_ms (c, s\<lparr>sv_last_errno := n\<rparr>, w)
      | (SendSome n, w) \<Rightarrow>
          (let c = c\<lparr>cn_tx_sent := cn_tx_sent c + n, cn_last_activity_ms := now_ms\<rparr> in
           if cn_tx_sent c = length (cn_tx c) then reset_state (c\<lparr>cn_owns_prepare_session := False\<rparr>, s, w)
           else (c, s, w))))"

definition connection_timeout :: "LsHttpConnection \<Rightarrow> u64" where
  "connection_timeout c =
     (if cn_mode c = LS_HTTP_WAITING_FOR_APPROVAL then LS3DS_HTTP_DECISION_TIMEOUT_MS
      else if cn_mode c = LS_HTTP_STREAMING_UPLOAD then LS3DS_HTTP_TRANSFER_IDLE_TIMEOUT_MS
      else LS3DS_HTTP_IDLE_TIMEOUT_MS)"

definition connection_expired :: "u64 \<Rightarrow> LsHttpConnection \<Rightarrow> bool" where
  "connection_expired now_ms c \<longleftrightarrow>
     now_ms \<ge> cn_last_activity_ms c \<and> now_ms - cn_last_activity_ms c \<ge> connection_timeout c"

definition update_connection :: "LsDevice \<Rightarrow> u64 \<Rightarrow> nat \<Rightarrow> server_state \<Rightarrow> server_state" where
  "update_connection identity now_ms i = (\<lambda>(s, registry, w).
     (let c = client s i in
      if cn_fd c < 0 then (s, registry, w)
      else if connection_expired now_ms c then
        on_slots (at_slot i (count_rejected \<circ> abort_connection ''Network request timed out'' now_ms)) (s, registry, w)
      else (let st = (if cn_mode c = LS_HTTP_READING_REQUEST then read_request i identity now_ms (s, registry, w)
                      else if cn_mode c = LS_HTTP_STREAMING_UPLOAD
                      then on_slots (at_slot i (read_stream now_ms)) (s, registry, w)
                      else (s, registry, w));
                c = client (fst st) i
            in if cn_fd c \<ge> 0 \<and> cn_mode c = LS_HTTP_WRITING_RESPONSE
               then on_slots (at_slot i (write_connection now_ms)) st else st)))"

definition session_expired :: "u64 \<Rightarrow> LsIncomingTransfer \<Rightarrow> bool" where
  "session_expired now_ms t \<longleftrightarrow>
     tr_state t = LS_TRANSFER_ACCEPTED \<and> now_ms \<ge> tr_state_changed_ms t \<and>
     now_ms - tr_state_changed_ms t \<ge> LS3DS_UPLOAD_SESSION_TIMEOUT_MS"

definition expire_session :: "u64 \<Rightarrow> slots_state \<Rightarrow> slots_state" where
  "expire_session now_ms = (\<lambda>(s, w).
     (if session_expired now_ms (sv_transfer s)
      then on_transfer (ls_transfer_fail (Some ''Accepted upload session timed out'') now_ms) (s, w)
      else (s, w)))"

definition ls_http_server_update :: "LsDevice \<Rightarrow> u64 \<Rightarrow> server_state \<Rightarrow> server_state" where
  "ls_http_server_update identity now_ms st =
     (if \<not> sv_running (fst st) then st
      else fold (update_connection identity now_ms) slots
             (on_slots (expire_session now_ms \<circ> accept_connections now_ms) st))"

end
