(* ===== verification/Server_Refinement.thy ===== *)
theory Server_Refinement
  imports Http_Server
begin

text \<open>
  Every operation of the server is a run of the transfer's own operations: the server never writes a
  field of the transfer or a file of the card in any other way. So what holds along the runs of the
  transfer holds for the server, in every interleaving of its connections: the invariant of the
  transfer, and that a card without faults keeps everything that was on it.
\<close>

section \<open>The server acts through the operations of the transfer\<close>

abbreviation session_of :: "slots_state \<Rightarrow> LsIncomingTransfer \<times> world" where
  "session_of st \<equiv> (sv_transfer (fst st), snd st)"

definition same_config :: "LsHttpServer \<Rightarrow> LsHttpServer \<Rightarrow> bool" where
  "same_config s s' \<longleftrightarrow>
     sv_listen_fd s' = sv_listen_fd s \<and> sv_running s' = sv_running s \<and>
     length (sv_clients s') = length (sv_clients s) \<and>
     sv_external_transfer_busy s' = sv_external_transfer_busy s \<and> sv_quick_save s' = sv_quick_save s \<and>
     sv_download_directory s' = sv_download_directory s"

definition acted :: "permits \<Rightarrow> slots_state \<Rightarrow> slots_state \<Rightarrow> bool" where
  "acted sb st st' \<longleftrightarrow> transfer_run sb (session_of st) (session_of st') \<and> same_config (fst st) (fst st')"

lemma acted_refl [simp]: "acted sb st st"
  by (simp add: acted_def run_refl same_config_def)

lemma acted_trans: "acted sb b c \<Longrightarrow> acted sb a b \<Longrightarrow> acted sb a c"
  by (auto simp: acted_def same_config_def intro: run_trans)

lemma acted_slot:
  assumes "\<And>st. handled sb st (f st)"
  shows "acted sb (s, w) (at_slot i f (s, w))"
proof -
  obtain c s' w' where f: "f (client s i, s, w) = (c, s', w')" by (metis prod_cases3)
  with assms [of "(client s i, s, w)"] show ?thesis
    by (simp add: at_slot_def acted_def handled_def same_server_def same_config_def set_client_def)
qed

lemma acted_fail_cancel:
  "acted sb st (on_transfer (ls_transfer_fail m now) st)" "acted sb st (on_transfer (ls_transfer_cancel m now) st)"
proof -
  obtain s w where st: "st = (s, w)" by (cases st)
  obtain t1 w1 where f: "ls_transfer_fail m now (sv_transfer s) w = (t1, w1)" by fastforce
  obtain t2 w2 where c: "ls_transfer_cancel m now (sv_transfer s) w = (t2, w2)" by fastforce
  show "acted sb st (on_transfer (ls_transfer_fail m now) st)" "acted sb st (on_transfer (ls_transfer_cancel m now) st)"
    using run_ops(3) [OF f] run_ops(4) [OF c] by (simp_all add: st on_transfer_def f c acted_def same_config_def)
qed

lemma acted_onto:
  "acted sb a b \<Longrightarrow> (\<And>st. handled sb st (f st)) \<Longrightarrow> acted sb a (at_slot i f b)"
  "acted sb a b \<Longrightarrow> acted sb a (on_transfer (ls_transfer_fail m now) b)"
  "acted sb a b \<Longrightarrow> acted sb a (on_transfer (ls_transfer_cancel m now) b)"
proof -
  show "acted sb a (at_slot i f b)" if "acted sb a b" "\<And>st. handled sb st (f st)"
  proof -
    obtain s w where b: "b = (s, w)" by (cases b)
    from that(1) acted_slot [OF that(2)] show ?thesis unfolding b by (blast intro: acted_trans)
  qed
qed (blast intro: acted_trans acted_fail_cancel)+

lemma acted_fold: "(\<And>i st. acted sb st (f i st)) \<Longrightarrow> acted sb st (fold f xs st)"
proof (induction xs arbitrary: st)
  case (Cons x xs)
  from Cons.IH [OF Cons.prems, of "f x st"] Cons.prems [of st x] show ?case by (auto intro: acted_trans)
qed simp

text \<open>The handlers of one connection, as functions.\<close>

lemma handled_simple:
  "handled sb st (count_rejected (empty_response status reason st))"
  "handled sb st (count_rejected (message_response status reason m st))"
  "handled sb st (count_handled (empty_response status reason st))"
  "handled sb st (count_handled (response status reason ct m st))"
  by (simp_all add: handled_count handled_responses)

lemma handled_active: "handled sb st (active_now now st)"
  by (cases st) (simp add: active_now_def handled_connection [OF handled_refl])

lemma handled_abort: "handled sb st (abort_connection reason now st)"
proof -
  obtain c s w where st: "st = (c, s, w)" by (cases st)
  obtain t w1 where k: "ls_transfer_cancel (Some reason) now (sv_transfer s) w = (t, w1)" by fastforce
  have "handled sb st (reset_state (c, s\<lparr>sv_transfer := t\<rparr>, w1))"
    unfolding st by (rule handled_after(4) [OF handled_transfer [OF run_ops(4) [OF k]]])
  with handled_reset [of _ st] k show ?thesis by (auto simp: st abort_connection_def on_transfer_def Let_def)
qed

lemma handled_write_connection: "handled sb st (write_connection now st)"
proof -
  obtain c s w where st: "st = (c, s, w)" by (cases st)
  obtain a w1 where r: "do_send (cn_fd c) (drop (cn_tx_sent c) (cn_tx c)) w = (a, w1)" by fastforce
  have n: "handled sb (c, s, w) (c', s, w1)" "handled sb (c, s, w) (c', s\<lparr>sv_last_errno := k\<rparr>, w1)" for c' k
    using net_only_ops(3) [OF r] by (simp_all add: handled_net handled_errno)
  show ?thesis
    using r n by (cases a)
      (auto simp: st write_connection_def Let_def intro: handled_refl handled_after(4) handled_trans [OF handled_abort])
qed

lemma handled_info: "handled sb st (info_response identity st)"
  by (auto simp: info_response_def handled_simple split: option.splits)

lemma handled_timed_out: "handled sb st (count_rejected (abort_connection reason now st))"
  by (simp add: handled_count handled_abort)

lemmas handled_handlers = handled_simple handled_timed_out handled_active handled_abort handled_write_connection handled_info
  handled_reset handled_read_stream handled_upload_start

lemma acted_close: "acted sb st (close_transfer_connections keep st)"
  unfolding close_transfer_connections_def
  by (rule acted_fold) (auto simp: case_prod_beta intro!: acted_onto handled_reset)

lemma acted_net: "net_only w w' \<Longrightarrow> acted sb (s, w) (s, w')"
  by (simp add: acted_def run_world same_config_def)

lemma acted_accept_transfer: "acted (Permits b True) st (snd (ls_http_server_accept_transfer now st))"
proof -
  obtain s w where st: "st = (s, w)" by (cases st)
  show ?thesis
  proof (cases "tr_state (sv_transfer s) = LS_TRANSFER_WAITING_FOR_USER")
    case False
    then show ?thesis by (simp add: st ls_http_server_accept_transfer_def)
  next
    case True
    show ?thesis
    proof (cases "waiting_approval_connection s")
      case None
      with True show ?thesis by (simp add: st ls_http_server_accept_transfer_def acted_fail_cancel)
    next
      case (Some i)
      obtain s1 w1 where a: "at_slot i (active_now now) (s, w) = (s1, w1)" by fastforce
      have h1: "acted (Permits b True) (s, w) (s1, w1)" unfolding a [symmetric] by (rule acted_slot [OF handled_active])
      obtain ok t w2 where k: "ls_transfer_accept (sv_download_directory s1) now (sv_transfer s1) w1 = (ok, t, w2)"
        by (metis prod_cases3)
      have h2: "acted (Permits b True) (s, w) (s1\<lparr>sv_transfer := t\<rparr>, w2)"
        by (rule acted_trans [OF _ h1]) (simp add: acted_def same_config_def run_ops(6) [OF k])
      have own: "handled (Permits b True) (c, s, w) (count_handled (response 200 r ct d (c\<lparr>cn_owns_prepare_session := True\<rparr>, s, w)))"
        for c s w r ct d
        by (auto simp: handled_count intro: handled_after handled_connection [OF handled_refl])
      show ?thesis
        using True Some a k h2
        by (auto simp: st ls_http_server_accept_transfer_def Let_def case_prod_beta split: option.split
            intro!: acted_onto handled_handlers own)
    qed
  qed
qed


lemma acted_via: "acted sb b (f b) \<Longrightarrow> acted sb a b \<Longrightarrow> acted sb a (f b)"
  by (rule acted_trans)

lemma acted_waiting: "handled sb (c, s, w) (c', s, w)"
  by (rule handled_connection [OF handled_refl])

lemma acted_prepare_upload: "sv_quick_save (fst st) \<longrightarrow> v \<Longrightarrow> acted (Permits b v) st (handle_prepare_upload i body now st)"
proof -
  assume v: "sv_quick_save (fst st) \<longrightarrow> v"
  obtain s w where st: "st = (s, w)" by (cases st)
  let ?ip = "cn_peer_ip (client s i)"
  show ?thesis
  proof (cases "ls_protocol_parse_prepare_upload body (Some ?ip)")
    case (Inl e)
    then show ?thesis by (auto simp: st handle_prepare_upload_def Let_def intro!: acted_onto handled_handlers)
  next
    case (Inr q)
    obtain ok t w1 where r: "ls_transfer_begin_request q ?ip now (sv_transfer s) w = (ok, t, w1)" by (metis prod_cases3)
    have h: "acted (Permits b v) (s, w) (s\<lparr>sv_transfer := t\<rparr>, w1)"
      using run_op [OF step_request [OF Inr r]] by (simp add: acted_def same_config_def permitted_def)
    let ?wait = "\<lambda>(c, s, w). (c\<lparr>cn_mode := LS_HTTP_WAITING_FOR_APPROVAL, cn_last_activity_ms := now\<rparr>, s, w)"
    obtain s2 w2 where a: "at_slot i ?wait (s\<lparr>sv_transfer := t\<rparr>, w1) = (s2, w2)" by fastforce
    have h2: "acted (Permits b v) (s, w) (s2, w2)" unfolding a [symmetric]
      by (rule acted_onto(1) [OF h]) (auto intro: acted_waiting)
    then have qs: "sv_quick_save s2 = sv_quick_save s" by (simp add: acted_def same_config_def)
    have h3: "sv_quick_save s2 \<Longrightarrow> acted (Permits b v) (s, w) (snd (ls_http_server_accept_transfer now (s2, w2)))"
      using v qs acted_trans [OF acted_accept_transfer [of b "(s2, w2)" now], of "(s, w)"] h2 by (simp add: st)
    show ?thesis
      using Inr r h h2 a h3
      by (auto simp: st handle_prepare_upload_def Let_def split: bool.splits intro!: acted_onto handled_handlers)
  qed
qed

lemma acted_remote_cancel: "acted sb st (handle_remote_cancel i request now st)"
  by (cases st) (auto simp: handle_remote_cancel_def Let_def case_prod_beta
      intro!: acted_onto handled_handlers acted_trans [OF acted_close])

text \<open>The same with the registry beside.\<close>

definition slots_of :: "server_state \<Rightarrow> slots_state" where
  "slots_of = (\<lambda>(s, registry, w). (s, w))"

lemma slots_of_simps [simp]: "slots_of (s, r, w) = (s, w)" "slots_of (on_slots f st) = f (slots_of st)"
  by (cases st; simp add: slots_of_def on_slots_def split: prod.splits)+

lemma acted_at: "(\<And>st. handled sb st (f st)) \<Longrightarrow> acted sb st (at_slot i f st)"
  using acted_onto(1) [OF acted_refl] .

lemma acted_register: "acted sb (slots_of st) (slots_of (handle_register i body identity now st))"
proof -
  obtain s r w where st: "st = (s, r, w)" by (cases st)
  obtain s1 w1 where a: "at_slot i (count_rejected \<circ> empty_response 400 ''Bad Request'') (s, w) = (s1, w1)" by fastforce
  obtain s2 w2 where b: "at_slot i (info_response identity) (s, w) = (s2, w2)" by fastforce
  have "acted sb (s, w) (s1, w1)" "acted sb (s, w) (s2, w2)"
    unfolding a [symmetric] b [symmetric] by (rule acted_at, simp add: handled_handlers)+
  with a b show ?thesis by (simp add: st handle_register_def Let_def split: sum.split)
qed

lemma acted_branches:
  "acted sb a (slots_of b) \<Longrightarrow> acted sb a (slots_of c) \<Longrightarrow> acted sb a (slots_of (if P then b else c))"
  "acted sb a (slots_of b) \<Longrightarrow> (\<And>x. acted sb a (slots_of (f x))) \<Longrightarrow>
     acted sb a (slots_of (case y of None \<Rightarrow> b | Some x \<Rightarrow> f x))"
  "acted sb (slots_of st) (g (slots_of st)) \<Longrightarrow> acted sb (slots_of st) (slots_of (on_slots g st))"
  by (simp_all split: option.split)

lemma handled_answered: "handled sb st ((count_rejected \<circ> empty_response status reason) st)"
  by (simp add: handled_simple)

abbreviation quick_saves :: "server_state \<Rightarrow> bool" where
  "quick_saves st \<equiv> sv_quick_save (fst (slots_of st))"

lemma acted_quick_save: "acted sb (slots_of st) (slots_of st') \<Longrightarrow> quick_saves st' = quick_saves st"
  by (simp add: acted_def same_config_def)

lemma acted_metadata:
  "quick_saves st \<longrightarrow> v \<Longrightarrow> acted (Permits b v) (slots_of st) (slots_of (handle_metadata_request i request identity now st))"
  unfolding handle_metadata_request_def Let_def
  by (intro acted_branches acted_at acted_register acted_prepare_upload acted_remote_cancel handled_info handled_answered)

lemma acted_dispatch:
  "quick_saves st \<longrightarrow> v \<Longrightarrow> acted (Permits True v) (slots_of st) (slots_of (dispatch_request i identity now st))"
  unfolding dispatch_request_def Let_def
  by (intro acted_branches acted_at acted_metadata acted_refl handled_upload_start handled_answered)

lemma acted_read_request:
  "quick_saves st \<longrightarrow> v \<Longrightarrow> acted (Permits True v) (slots_of st) (slots_of (read_request i identity now st))"
proof -
  assume v: "quick_saves st \<longrightarrow> v"
  obtain s r w where st: "st = (s, r, w)" by (cases st)
  let ?c = "client s i"
  obtain a w1 where rc: "do_recv (cn_fd ?c) (LS3DS_HTTP_RX_CAPACITY - length (cn_rx ?c)) w = (a, w1)" by fastforce
  have n: "acted (Permits True v) (s, w) (s\<lparr>sv_last_errno := k\<rparr>, w1)" "acted (Permits True v) (s, w) (s, w1)" "acted (Permits True v) (s, w) (set_client i c s, w1)" for k c
    using run_world [OF net_only_ops(2) [OF rc]] by (simp_all add: acted_def same_config_def set_client_def)
  have d: "acted (Permits True v) (s, w) (slots_of (dispatch_request i identity now (set_client i c s, r, w1)))" for c
    by (rule acted_trans [OF acted_dispatch [of "(set_client i c s, r, w1)", simplified slots_of_simps] n(3)]) (use v st in \<open>simp add: set_client_def\<close>)
  show ?thesis
  proof (cases "length (cn_rx ?c) \<ge> LS3DS_HTTP_RX_CAPACITY")
    case True
    then show ?thesis by (simp add: st read_request_def Let_def) (auto intro!: acted_at handled_handlers)
  next
    case False
    then have "read_request i identity now st = (case a of
        RecvEof \<Rightarrow> on_slots (at_slot i (abort_connection ''Sender disconnected'' now)) (s, r, w1)
      | RecvAgain \<Rightarrow> (s, r, w1)
      | RecvError n \<Rightarrow> on_slots (at_slot i (abort_connection ''Network receive failed'' now)) (s\<lparr>sv_last_errno := n\<rparr>, r, w1)
      | RecvData data \<Rightarrow> dispatch_request i identity now
            (set_client i (?c\<lparr>cn_rx := cn_rx ?c @ data, cn_last_activity_ms := now\<rparr>) s, r, w1))"
      using rc by (cases a) (simp_all add: st read_request_def Let_def)
    with d n show ?thesis
      by (cases a) (auto simp: st intro!: acted_onto(1) handled_handlers)
  qed
qed

lemma acted_update_connection:
  "quick_saves st \<longrightarrow> v \<Longrightarrow> acted (Permits True v) (slots_of st) (slots_of (update_connection identity now i st))"
proof -
  assume v: "quick_saves st \<longrightarrow> v"
  obtain s r w where st: "st = (s, r, w)" by (cases st)
  note rd = acted_read_request [of "(s, r, w)", simplified, OF v [unfolded st, simplified]]
  show ?thesis
    using rd
    by (auto simp: st update_connection_def Let_def intro!: acted_onto(1) acted_at handled_handlers)
qed

lemma acted_place: "acted sb st (place_connection fd ip nb known now st)"
proof -
  obtain s w where st: "st = (s, w)" by (cases st)
  have "acted sb (s, w) (s', w')" if "sv_transfer s' = sv_transfer s" "same_config s s'" "net_only w w'" for s' w'
    using that by (simp add: acted_def run_world)
  then show ?thesis
    by (auto simp: st place_connection_def reject_connection_def same_config_def set_client_def net_only_ops split: option.split)
qed

lemma acted_accept_loop: "acted sb st (accept_loop n now st)"
proof (induction n arbitrary: st)
  case (Suc n)
  obtain s w where st: "st = (s, w)" by (cases st)
  obtain a w1 where ac: "do_accept w = (a, w1)" by fastforce
  have n: "acted sb (s, w) (s, w1)" "acted sb (s, w) (s\<lparr>sv_last_errno := e\<rparr>, w1)" for e
    using run_world [OF net_only_ops(4) [OF ac]] by (simp_all add: acted_def same_config_def)
  have "acted sb (s, w) (accept_loop n now (place_connection fd ip nb known now (s, w1)))" for fd ip nb known
    by (rule acted_trans [OF Suc.IH acted_trans [OF acted_place n(1)]])
  with n ac show ?case by (auto simp: st split: option.split accept_answer.split)
qed simp

lemma acted_expire: "acted sb st (expire_session now st)"
  by (cases st) (auto simp: expire_session_def intro: acted_fail_cancel)

lemma acted_update:
  "quick_saves st \<longrightarrow> v \<Longrightarrow> acted (Permits True v) (slots_of st) (slots_of (ls_http_server_update identity now st))"
proof -
  assume v: "quick_saves st \<longrightarrow> v"
  have f: "acted (Permits True v) (slots_of st) (slots_of (fold (update_connection identity now) xs st))"
    if "quick_saves st \<longrightarrow> v" for xs st using that
  proof (induction xs arbitrary: st)
    case (Cons x xs)
    note u = acted_update_connection [OF Cons.prems, of identity now x]
    from acted_quick_save [OF u] Cons.prems have "quick_saves (update_connection identity now x st) \<longrightarrow> v" by simp
    from acted_trans [OF Cons.IH [OF this] u] show ?case by simp
  qed simp
  let ?st = "on_slots (expire_session now \<circ> accept_connections now) st"
  have g: "acted (Permits True v) (slots_of st) (slots_of ?st)"
    using acted_trans [OF acted_expire acted_accept_loop] by (simp add: accept_connections_def)
  from acted_quick_save [OF g] v have "quick_saves ?st \<longrightarrow> v" by simp
  from acted_trans [OF f [OF this] g] show ?thesis by (simp add: ls_http_server_update_def)
qed

lemma acted_reject: "acted sb st (snd (ls_http_server_reject_transfer now st))"
proof -
  obtain s w where st: "st = (s, w)" by (cases st)
  have h: "acted sb (s, w) (s\<lparr>sv_transfer := ls_transfer_reject now (sv_transfer s)\<rparr>, w)"
    using run_ops(7) by (simp add: acted_def same_config_def)
  have "handled sb st (count_handled (message_response 403 ''Forbidden'' ''Rejected'' (active_now now st)))" for st
    by (simp add: handled_count handled_after handled_active)
  with h show ?thesis
    by (auto simp: st ls_http_server_reject_transfer_def Let_def split: option.split intro!: acted_onto(1))
qed

lemma acted_cancel: "acted sb st (snd (ls_http_server_cancel_transfer now st))"
  by (cases st) (auto simp: ls_http_server_cancel_transfer_def intro!: acted_trans [OF acted_close] acted_fail_cancel)

section \<open>Reachable servers\<close>

text \<open>What the application does with a running server; other parts of the program may use the
  registry and the sockets between two operations.\<close>

inductive server_step :: "server_state \<Rightarrow> server_state \<Rightarrow> bool" where
  server_update: "server_step st (ls_http_server_update identity now st)"
| server_accept: "server_step st (on_slots (snd \<circ> ls_http_server_accept_transfer now) st)"
| server_reject: "server_step st (on_slots (snd \<circ> ls_http_server_reject_transfer now) st)"
| server_cancel: "server_step st (on_slots (snd \<circ> ls_http_server_cancel_transfer now) st)"
| server_stop: "server_step st (on_slots ls_http_server_stop st)"
| server_busy: "server_step (s, r, w) (ls_http_server_set_external_transfer_busy b s, r, w)"
| server_quick_save: "server_step (s, r, w) (ls_http_server_set_quick_save b s, r, w)"
| server_others: "net_only w w' \<Longrightarrow> server_step (s, r, w) (s, r', w')"

inductive server_reachable :: "world \<Rightarrow> server_state \<Rightarrow> bool" where
  server_started: "ls_http_server_start_on_port_at dir (s, w) = (ok, s', w') \<Longrightarrow> ok \<Longrightarrow> server_reachable w (s', r, w')"
| server_stepped: "server_reachable w0 st \<Longrightarrow> server_step st st' \<Longrightarrow> server_reachable w0 st'"

lemma stop_run: "transfer_run sb (session_of st) (session_of (ls_http_server_stop st))"
proof -
  obtain s w where st: "st = (s, w)" by (cases st)
  let ?b = "if ls_transfer_is_busy (sv_transfer s)
    then on_transfer (ls_transfer_cancel (Some ''Application/network shutdown'') 0) (s, w) else (s, w)"
  have b: "acted sb (s, w) ?b" by (simp add: acted_fail_cancel)
  obtain s1 w1 where b1: "?b = (s1, w1)" by (metis surj_pair)
  obtain s2 w2 where f: "fold (\<lambda>i. at_slot i reset_state) slots (s1, w1) = (s2, w2)" by (metis surj_pair)
  have "acted sb (s, w) (fold (\<lambda>i. at_slot i reset_state) slots (s1, w1))"
    by (rule acted_trans [OF acted_fold b [unfolded b1]]) (simp add: acted_at handled_reset)
  then have r: "transfer_run sb (sv_transfer s, w) (sv_transfer s2, w2)" using f by (simp add: acted_def)
  have "ls_http_server_stop st =
      (s2\<lparr>sv_listen_fd := -1, sv_running := False\<rparr>, if sv_listen_fd s2 \<ge> 0 then do_close (sv_listen_fd s2) w2 else w2)"
    by (simp only: st ls_http_server_stop_def Let_def b1 f split_conv)
  with r show ?thesis
    by (auto simp: st intro: run_trans [OF run_world [OF net_only_ops(1)]])
qed

lemma start_run:
  assumes "ls_http_server_start_on_port_at dir (s, w) = (True, s', w')"
  shows "net_only w w'" and "\<exists>fd. s' = (zero_server dir)\<lparr>sv_listen_fd := fd, sv_running := True\<rparr>"
proof -
  obtain a w1 where so: "do_socket w = (a, w1)" by fastforce
  obtain b w2 where n1: "do_net w1 = (b, w2)" by fastforce
  obtain c w3 where n2: "set_nonblocking w2 = (c, w3)" by fastforce
  obtain d w4 where n3: "do_net w3 = (d, w4)" by fastforce
  obtain e w5 where n4: "do_net w4 = (e, w5)" by fastforce
  have e: "w' = w5 \<and> (\<exists>fd. s' = (zero_server dir)\<lparr>sv_listen_fd := fd, sv_running := True\<rparr>)"
    using assms so n1 n2 n3 n4
    by (auto simp: ls_http_server_start_on_port_at_def start_failed_def Let_def split: if_splits option.splits bool.splits)
  then show "\<exists>fd. s' = (zero_server dir)\<lparr>sv_listen_fd := fd, sv_running := True\<rparr>" by blast
  have "net_only w2 w3"
    using n2 by (auto simp: set_nonblocking_def split: prod.splits bool.splits intro: net_only_trans dest!: net_only_ops(6))
  with net_only_ops(5) [OF so] net_only_ops(6) [OF n1] net_only_ops(6) [OF n3] net_only_ops(6) [OF n4] e
  show "net_only w w'" by (meson net_only_trans)
qed

lemma step_run: "server_step st st' \<Longrightarrow> transfer_run (Permits True True) (session_of (slots_of st)) (session_of (slots_of st'))"
proof (induction rule: server_step.induct)
  case (server_update st identity now)
  with acted_update [of st True] show ?case by (simp add: acted_def)
next
  case (server_accept st now)
  with acted_accept_transfer [of _ "slots_of st" now] show ?case by (simp add: acted_def)
next
  case (server_reject st now)
  with acted_reject [of _ "slots_of st" now] show ?case by (simp add: acted_def)
next
  case (server_cancel st now)
  with acted_cancel [of _ "slots_of st" now] show ?case by (simp add: acted_def)
next
  case (server_stop st)
  with stop_run [of _ "slots_of st"] show ?case by simp
qed (auto simp: ls_http_server_set_external_transfer_busy_def ls_http_server_set_quick_save_def run_refl run_world)

lemma reachable_run: "server_reachable w0 st \<Longrightarrow> transfer_run (Permits True True) (ls_transfer_init, w0) (session_of (slots_of st))"
proof (induction rule: server_reachable.induct)
  case (server_started dir s w ok s' w' r)
  from start_run [of dir s w s' w'] server_started have "net_only w w'" "sv_transfer s' = ls_transfer_init"
    by (auto simp: zero_server_def)
  then show ?case by (simp add: run_world)
next
  case (server_stepped w0 st st')
  from run_trans [OF step_run [OF server_stepped(2)] server_stepped(3)] show ?case .
qed

lemma server_transfer_inv: "server_reachable w0 (s, r, w) \<Longrightarrow> transfer_inv (sv_transfer s) w"
  using run_inv [OF reachable_run] inv_init by fastforce

lemma server_card_kept: "server_reachable w0 (s, r, w) \<Longrightarrow> w_io w0 = [] \<Longrightarrow> card_kept w0 (sv_transfer s, w)"
  using card_kept_run [OF reachable_run card_kept_init] by fastforce

end
