(* ===== verification/Server_Invariant.thy ===== *)
theory Server_Invariant
  imports Server_Refinement
begin

text \<open>
  The connections of a reachable server: there are always four slots, every buffer index stays
  inside its array, a connection that reads a request has no half-read chunk behind it, and after an
  update no connection is left that has been idle for longer than its timeout.
\<close>

definition connection_ok :: "LsHttpConnection \<Rightarrow> bool" where
  "connection_ok c \<longleftrightarrow>
     length (cn_rx c) \<le> LS3DS_HTTP_RX_CAPACITY \<and> length (cn_tx c) \<le> LS3DS_HTTP_TX_CAPACITY \<and>
     length (cn_chunk_line c) \<le> CHUNK_LINE_CAPACITY \<and> cn_tx_sent c \<le> length (cn_tx c) \<and>
     (cn_mode c = LS_HTTP_READING_REQUEST \<longrightarrow> fresh_stream c) \<and>
     (cn_mode c = LS_HTTP_STREAMING_UPLOAD \<longrightarrow> chunk_ok c) \<and>
     (cn_mode c = LS_HTTP_WRITING_RESPONSE \<longrightarrow> cn_tx_sent c < length (cn_tx c))"

text \<open>What a handler makes of a connection: it keeps it well formed, and keeps descriptor, peer and
  activity or closes it.\<close>

definition kept :: "LsHttpConnection \<Rightarrow> LsHttpConnection \<Rightarrow> bool" where
  "kept c c' \<longleftrightarrow> (connection_ok c \<longrightarrow> connection_ok c') \<and>
     (cn_fd c' < 0 \<or> cn_fd c' = cn_fd c \<and> cn_peer_ip c' = cn_peer_ip c \<and>
        cn_last_activity_ms c' = cn_last_activity_ms c)"

lemma kept_refl [simp]: "kept c c"
  by (simp add: kept_def)

lemma kept_trans: "kept b c \<Longrightarrow> kept a b \<Longrightarrow> kept a c"
  by (auto simp: kept_def)

lemma connection_ok_zero [simp]: "connection_ok zero_connection"
  by (simp add: connection_ok_def zero_connection_def fresh_stream_def chunk_ok_def)

lemma kept_zero [simp]: "kept c zero_connection"
  by (simp add: kept_def)

lemma kept_reset: "kept (fst st) (fst (reset_state st))"
  by (cases st) (simp add: reset_state_def connection_reset_def)

lemma kept_count [simp]: "fst (count_handled st) = fst st" "fst (count_rejected st) = fst st"
  by simp_all

lemma kept_response: "kept (fst st) (fst (response status reason ct body st))"
proof -
  obtain c s w where st: "st = (c, s, w)" by (cases st)
  have h: "response_head status reason ct n \<noteq> []" for n by (simp add: response_head_def)
  show ?thesis
  proof (cases "length (response_head status reason ct (length body)) + length body > LS3DS_HTTP_TX_CAPACITY")
    case True
    then show ?thesis by (simp add: st response_def Let_def reset_state_def connection_reset_def)
  next
    case False
    with h show ?thesis
      by (simp add: st response_def Let_def kept_def connection_ok_def)
  qed
qed

lemmas kept_responses = kept_response
  kept_response [where ct = "''text/plain; charset=utf-8''" and body = "[]", folded empty_response_def]
  kept_response [where ct = "''text/plain; charset=utf-8''", folded message_response_def]

lemma kept_after:
  "kept a (fst b) \<Longrightarrow> kept a (fst (empty_response status reason b))"
  "kept a (fst b) \<Longrightarrow> kept a (fst (message_response status reason m b))"
  "kept a (fst b) \<Longrightarrow> kept a (fst (response status reason ct body b))"
  "kept a (fst b) \<Longrightarrow> kept a (fst (reset_state b))"
  using kept_trans kept_responses kept_reset by blast+

lemma kept_stream_finish: "kept a c \<Longrightarrow> kept a (fst (stream_finish now (c, s, w)))"
  by (auto simp: stream_finish_def Let_def split: prod.splits intro!: kept_after)

lemma kept_bad_request: "kept a c \<Longrightarrow> kept a (fst (stream_bad_request m now (c, s, w)))"
  by (auto simp: stream_bad_request_def split: prod.splits intro!: kept_after)

lemma kept_lost: "kept a c \<Longrightarrow> kept a (fst (stream_lost m now (c, s, w)))"
  by (auto simp: stream_lost_def split: prod.splits intro!: kept_after)

lemma kept_stream_write: "stream_write data now (c, s, w) = (ok, st') \<Longrightarrow> kept c (fst st')"
  by (auto simp: stream_write_def Let_def split: prod.splits if_splits intro!: kept_after)

text \<open>A connection that goes on streaming.\<close>

lemma kept_streaming:
  assumes "cn_mode c = LS_HTTP_STREAMING_UPLOAD" and "cn_mode c' = LS_HTTP_STREAMING_UPLOAD"
    and "length (cn_chunk_line c') \<le> CHUNK_LINE_CAPACITY \<or> length (cn_chunk_line c') \<le> length (cn_chunk_line c)"
    and "chunk_ok c \<Longrightarrow> chunk_ok c'"
    and "cn_rx c' = cn_rx c" "cn_tx c' = cn_tx c" "cn_tx_sent c' = cn_tx_sent c"
    and "cn_fd c' = cn_fd c" "cn_peer_ip c' = cn_peer_ip c" "cn_last_activity_ms c' = cn_last_activity_ms c"
  shows "kept c c'"
  using assms by (auto simp: kept_def connection_ok_def)

lemma kept_chunk_data:
  assumes "chunk_data_step now data (c, s, w) = (r, st')" and "cn_mode c = LS_HTTP_STREAMING_UPLOAD"
  shows "kept c (fst st')"
proof -
  let ?d = "take (min (length data) (unat (cn_chunk_remaining c))) data"
  obtain ok c1 s1 w1 where wr: "stream_write ?d now (c, s, w) = (ok, c1, s1, w1)" by (metis prod_cases4)
  note k = kept_stream_write [OF wr]
  show ?thesis
  proof (cases ok)
    case True
    with wr stream_write_keeps have "c1 = c" by simp
    with assms wr True show ?thesis
      by (auto simp: chunk_data_step_def Let_def split: if_splits intro!: kept_bad_request kept_streaming)
         (simp_all add: chunk_ok_def)
  next
    case False
    with assms wr k show ?thesis by (auto simp: chunk_data_step_def Let_def split: if_splits intro!: kept_bad_request)
  qed
qed

lemma kept_chunk_lines:
  assumes "cn_mode c = LS_HTTP_STREAMING_UPLOAD"
  shows "cn_chunk_state c = LS_HTTP_CHUNK_SIZE \<Longrightarrow> kept c (fst (chunk_size_step now v (c, s, w)))"
    and "kept c (fst (chunk_cr_step now v (c, s, w)))" and "kept c (fst (chunk_lf_step now v (c, s, w)))"
    and "cn_chunk_state c = LS_HTTP_CHUNK_TRAILER \<Longrightarrow> kept c (fst (chunk_trailer_step now v rest (c, s, w)))"
proof -
  show "cn_chunk_state c = LS_HTTP_CHUNK_SIZE \<Longrightarrow> kept c (fst (chunk_size_step now v (c, s, w)))"
    using assms by (auto simp: chunk_size_step_def Let_def chunk_ok_def split: option.split
        intro!: kept_bad_request kept_streaming)
  show "kept c (fst (chunk_cr_step now v (c, s, w)))" "kept c (fst (chunk_lf_step now v (c, s, w)))"
    using assms by (auto simp: chunk_cr_step_def chunk_lf_step_def chunk_ok_def intro!: kept_bad_request kept_streaming)
  have ks: "cn_chunk_state c = LS_HTTP_CHUNK_TRAILER \<Longrightarrow> kept c (c\<lparr>cn_trailer_bytes := n\<rparr>)"
    "cn_chunk_state c = LS_HTTP_CHUNK_TRAILER \<Longrightarrow> length l \<le> CHUNK_LINE_CAPACITY \<Longrightarrow>
      kept c (c\<lparr>cn_trailer_bytes := n, cn_chunk_line := l\<rparr>)" for n l
    using assms by (auto intro!: kept_streaming simp: chunk_ok_def)
  show "cn_chunk_state c = LS_HTTP_CHUNK_TRAILER \<Longrightarrow> kept c (fst (chunk_trailer_step now v rest (c, s, w)))"
    using ks by (simp add: chunk_trailer_step_def Let_def kept_bad_request kept_stream_finish)
qed

lemma kept_chunk_step:
  assumes "chunk_step now data (c, s, w) = (rest, st')" and "cn_mode c = LS_HTTP_STREAMING_UPLOAD"
  shows "kept c (fst st')"
  using assms(1) kept_chunk_data [OF _ assms(2)] kept_chunk_lines [OF assms(2)]
  by (auto simp: chunk_step_def Let_def split: LsHttpChunkState.splits)

lemma kept_chunked: "kept (fst st) (fst (process_chunked_data now data st))"
proof (induction now data st rule: process_chunked_data.induct)
  case (1 now data st)
  obtain c s w where st: "st = (c, s, w)" by (cases st)
  obtain rest st' where s: "chunk_step now data st = (rest, st')" by (metis surj_pair)
  show ?case
  proof (cases "data = [] \<or> cn_mode (fst st) \<noteq> LS_HTTP_STREAMING_UPLOAD")
    case True
    then show ?thesis by (subst process_chunked_data.simps) simp
  next
    case False
    with kept_chunk_step [of now data c s w rest st'] s st have k: "kept (fst st) (fst st')" by simp
    from False s have "process_chunked_data now data st = process_chunked_data now rest st'"
      by (subst process_chunked_data.simps) simp
    with kept_trans [OF 1 [OF False s [symmetric]] k] show ?thesis by simp
  qed
qed

lemma kept_length: "cn_mode c = LS_HTTP_STREAMING_UPLOAD \<Longrightarrow> kept c (fst (process_length_data now data (c, s, w)))"
proof -
  assume m: "cn_mode c = LS_HTTP_STREAMING_UPLOAD"
  obtain ok c1 s1 w1 where wr: "stream_write data now (c, s, w) = (ok, c1, s1, w1)" by (metis prod_cases4)
  note k = kept_stream_write [OF wr]
  have c1: "ok \<Longrightarrow> c1 = c" using wr stream_write_keeps by simp
  show ?thesis
    using wr k m by (auto simp: process_length_data_def Let_def chunk_ok_def dest!: c1 split: bool.split
        intro!: kept_bad_request kept_stream_finish kept_streaming)
qed

lemma kept_stream_data:
  "cn_mode c = LS_HTTP_STREAMING_UPLOAD \<Longrightarrow> kept c (fst (process_stream_data now data (c, s, w)))"
  using kept_chunked [of "(c, s, w)" now data] by (simp add: process_stream_data_def kept_length)

lemma kept_upload_start:
  assumes "fresh_stream c"
  shows "kept c (fst (handle_upload_start request initial now (c, s, w)))"
proof -
  let ?d = "if req_has_content_length request then Some (req_content_length request) else None"
  obtain ok t w1 where b: "ls_transfer_begin_stream ?d now (sv_transfer s) w = (ok, t, w1)" by (metis prod_cases3)
  let ?c = "start_stream request c"
  have m: "cn_mode ?c = LS_HTTP_STREAMING_UPLOAD" by (simp add: start_stream_def)
  have k: "kept c ?c" using assms by (simp add: kept_def connection_ok_def start_stream_def chunk_ok_def fresh_stream_def)
  have k2: "kept c (fst (process_stream_data now initial (?c, s1, w1)))" for s1
    by (rule kept_trans [OF kept_stream_data [OF m] k])
  show ?thesis
    using b k k2 by (auto simp: handle_upload_start_def Let_def split: option.split bool.split
        intro!: kept_after kept_stream_finish)
qed

section \<open>All slots\<close>

definition active_at :: "u64 \<Rightarrow> LsHttpConnection \<Rightarrow> bool" where
  "active_at now c \<longleftrightarrow> cn_fd c < 0 \<or> \<not> connection_expired now c"

definition slot_ok :: "u64 \<Rightarrow> LsHttpConnection \<Rightarrow> LsHttpConnection \<Rightarrow> bool" where
  "slot_ok now c c' \<longleftrightarrow> (connection_ok c \<longrightarrow> connection_ok c') \<and> (active_at now c \<longrightarrow> active_at now c')"

definition slots_ok :: "u64 \<Rightarrow> LsHttpServer \<Rightarrow> LsHttpServer \<Rightarrow> bool" where
  "slots_ok now s s' \<longleftrightarrow> length (sv_clients s') = length (sv_clients s) \<and>
     (\<forall>i < length (sv_clients s). slot_ok now (client s i) (client s' i))"

lemma slot_ok_refl [simp]: "slot_ok now c c"
  by (simp add: slot_ok_def)

lemma slot_ok_zero [simp]: "slot_ok now c zero_connection"
  by (simp add: slot_ok_def active_at_def)

lemma slots_ok_refl [simp]: "sv_clients s' = sv_clients s \<Longrightarrow> slots_ok now s s'"
  by (simp add: slots_ok_def)

lemma slots_ok_trans: "slots_ok now b c \<Longrightarrow> slots_ok now a b \<Longrightarrow> slots_ok now a c"
  by (simp add: slots_ok_def slot_ok_def)

lemma active_now_at: "cn_last_activity_ms c = now \<Longrightarrow> active_at now c"
  by (simp add: active_at_def connection_expired_def connection_timeout_def)

lemma kept_slot_ok:
  assumes "kept a c" and "connection_ok b \<longrightarrow> connection_ok a" and "cn_last_activity_ms a = now"
  shows "slot_ok now b c"
proof -
  have "cn_fd c < 0 \<or> cn_last_activity_ms c = now" using assms(1,3) by (auto simp: kept_def)
  then have "active_at now c" using active_now_at by (auto simp: active_at_def)
  with assms(1,2) show ?thesis by (simp add: slot_ok_def kept_def)
qed

lemma slots_ok_set:
  assumes "slot_ok now (client s i) c"
  shows "slots_ok now s (set_client i c s)"
proof -
  have "slot_ok now (client s j) ((sv_clients s)[i := c] ! j)" if "j < length (sv_clients s)" for j
    using assms that by (cases "i = j") simp_all
  then show ?thesis by (simp add: slots_ok_def set_client_def)
qed

lemma slots_ok_at:
  assumes "\<And>st. handled (Permits True True) st (f st)" and "slot_ok now (client s i) (fst (f (client s i, s, w)))"
  shows "slots_ok now s (fst (at_slot i f (s, w)))"
proof -
  obtain c s' w' where f: "f (client s i, s, w) = (c, s', w')" by (metis prod_cases3)
  with assms(1) [of "(client s i, s, w)"] have "sv_clients s' = sv_clients s"
    by (simp add: handled_def same_server_def)
  moreover have "sv_clients (set_client i c s') = (sv_clients s')[i := c]" by (simp add: set_client_def)
  ultimately show ?thesis
    using slots_ok_set [OF assms(2)] f by (simp add: at_slot_def slots_ok_def set_client_def)
qed

lemma slots_ok_on_transfer [simp]: "slots_ok now s (fst (on_transfer f (s, w)))"
  by (simp add: on_transfer_def split: prod.splits)

text \<open>Handlers that only answer or close; the connection has just been active.\<close>

definition answers :: "(http_state \<Rightarrow> http_state) \<Rightarrow> bool" where
  "answers f \<longleftrightarrow> (\<forall>st. handled (Permits True True) st (f st)) \<and> (\<forall>st. kept (fst st) (fst (f st)))"

lemma answers_simple:
  "answers (count_rejected \<circ> empty_response status reason)" "answers (count_rejected \<circ> message_response status reason m)"
  "answers (count_handled \<circ> empty_response status reason)"
  unfolding answers_def comp_def by (simp_all only: kept_count handled_simple kept_responses simp_thms)

lemma answers_info: "answers (info_response identity)"
proof -
  have "kept (fst st) (fst (info_response identity st))" for st
    by (simp add: info_response_def kept_responses split: option.split)
  then show ?thesis unfolding answers_def using handled_info by blast
qed

lemma answers_ok: "answers f \<Longrightarrow> cn_last_activity_ms (client s i) = now \<Longrightarrow> slots_ok now s (fst (at_slot i f (s, w)))"
proof (rule slots_ok_at)
  assume a: "answers f" "cn_last_activity_ms (client s i) = now"
  then show "handled (Permits True True) st (f st)" for st unfolding answers_def by blast
  from a(1) have "kept (fst (client s i, s, w)) (fst (f (client s i, s, w)))" unfolding answers_def by blast
  then show "slot_ok now (client s i) (fst (f (client s i, s, w)))" using a(2) by (simp add: kept_slot_ok)
qed

lemma close_slots_ok: "slots_ok now (fst st) (fst (close_transfer_connections keep st))"
proof -
  let ?f = "\<lambda>i (s, w). if Some i \<noteq> keep \<and> owned_by_transfer (client s i) then at_slot i reset_state (s, w) else (s, w)"
  have step: "slots_ok now (fst st) (fst (?f i st))" for i st
  proof -
    obtain s w where st: "st = (s, w)" by (cases st)
    have "slots_ok now s (fst (at_slot i reset_state (s, w)))"
      by (rule slots_ok_at) (simp_all add: handled_reset, simp add: reset_state_def connection_reset_def)
    then show ?thesis by (simp add: st)
  qed
  have "slots_ok now (fst st) (fst (fold ?f xs st))" for xs
  proof (induction xs arbitrary: st)
    case (Cons x xs)
    show ?case using slots_ok_trans [OF Cons [of "?f x st"] step [of st x]] by simp
  qed simp
  then show ?thesis by (simp add: close_transfer_connections_def)
qed

lemma active_now_ok: "slots_ok now s (fst (at_slot i (active_now now) (s, w)))"
  by (rule slots_ok_at [OF handled_active])
     (simp add: active_now_def slot_ok_def active_now_at connection_ok_def fresh_stream_def chunk_ok_def)

lemma at_slot_client:
  "i < length (sv_clients s) \<Longrightarrow> (\<And>st. handled (Permits True True) st (f st)) \<Longrightarrow> client (fst (at_slot i f (s, w))) i = fst (f (client s i, s, w))"
proof -
  assume i: "i < length (sv_clients s)" and h: "\<And>st. handled (Permits True True) st (f st)"
  obtain c s' w' where f: "f (client s i, s, w) = (c, s', w')" by (metis prod_cases3)
  with h [of "(client s i, s, w)"] have "sv_clients s' = sv_clients s" by (simp add: handled_def same_server_def)
  with f i show ?thesis by (simp add: at_slot_def set_client_def)
qed

lemma waiting_approval_props:
  "waiting_approval_connection s = Some i \<Longrightarrow> i < LS3DS_MAX_HTTP_CONNECTIONS \<and> cn_fd (client s i) \<ge> 0 \<and>
     cn_mode (client s i) = LS_HTTP_WAITING_FOR_APPROVAL"
  by (auto simp: waiting_approval_connection_def find_Some_iff)

lemma accept_transfer_ok:
  assumes "length (sv_clients s) = LS3DS_MAX_HTTP_CONNECTIONS"
  shows "slots_ok now s (fst (snd (ls_http_server_accept_transfer now (s, w))))"
proof (cases "tr_state (sv_transfer s) = LS_TRANSFER_WAITING_FOR_USER")
  case False
  then show ?thesis by (simp add: ls_http_server_accept_transfer_def)
next
  case True
  show ?thesis
  proof (cases "waiting_approval_connection s")
    case None
    with True show ?thesis by (simp add: ls_http_server_accept_transfer_def)
  next
    case (Some i)
    obtain s1 w1 where a: "at_slot i (active_now now) (s, w) = (s1, w1)" by fastforce
    have o1: "slots_ok now s s1" using active_now_ok [of now s i w] a by simp
    have i: "i < length (sv_clients s)" using waiting_approval_props [OF Some] assms by simp
    have la: "cn_last_activity_ms (client s1 i) = now"
      using at_slot_client [OF i, of "active_now now" w] handled_active a by (simp add: active_now_def)
    obtain ok t w2 where k: "ls_transfer_accept (sv_download_directory s1) now (sv_transfer s1) w1 = (ok, t, w2)"
      by (metis prod_cases3)
    let ?s = "s1\<lparr>sv_transfer := t\<rparr>"
    have e: "slots_ok now s (fst (at_slot i (count_rejected \<circ> empty_response 500 ''Internal Server Error'') st))"
      if "sv_clients (fst st) = sv_clients s1" for st
      using slots_ok_trans [OF answers_ok [OF answers_simple(1)] slots_ok_trans [OF slots_ok_refl o1], of "fst st"] that la
      by (cases st) simp
    have own: "slots_ok now s (fst (at_slot i (\<lambda>(c, s, w). count_handled (response 200 r ct b
        (c\<lparr>cn_owns_prepare_session := True\<rparr>, s, w))) (?s, w2)))" for r ct b
    proof (rule slots_ok_trans [OF slots_ok_at slots_ok_trans [OF slots_ok_refl o1]])
      show "handled (Permits True True) st ((\<lambda>(c, s, w). count_handled (response 200 r ct b (c\<lparr>cn_owns_prepare_session := True\<rparr>, s, w))) st)" for st
        by (cases st) (auto simp: handled_count intro: handled_after handled_connection [OF handled_refl])
      let ?c = "client ?s i"
      let ?d = "?c\<lparr>cn_owns_prepare_session := True\<rparr>"
      have "slot_ok now ?c (fst (response 200 r ct b (?d, ?s, w2)))"
      proof (rule kept_slot_ok [OF kept_response [of "(?d, ?s, w2)", simplified fst_conv]])
        show "connection_ok ?c \<longrightarrow> connection_ok ?d" by (simp add: connection_ok_def fresh_stream_def chunk_ok_def)
        show "cn_last_activity_ms ?d = now" using la by simp
      qed
      then show "slot_ok now ?c (fst ((\<lambda>(c, s, w). count_handled (response 200 r ct b
          (c\<lparr>cn_owns_prepare_session := True\<rparr>, s, w))) (?c, ?s, w2)))" by simp
    qed simp
    have f: "sv_clients (fst (on_transfer g (?s, w2))) = sv_clients s1" for g
      by (simp add: on_transfer_def split: prod.splits)
    show ?thesis
      using True Some a k own e f
      by (auto simp: ls_http_server_accept_transfer_def Let_def case_prod_beta split: option.split)
  qed
qed


lemma prepare_upload_ok:
  assumes "length (sv_clients s) = LS3DS_MAX_HTTP_CONNECTIONS" and "cn_last_activity_ms (client s i) = now"
  shows "slots_ok now s (fst (handle_prepare_upload i body now (s, w)))"
proof -
  let ?ip = "cn_peer_ip (client s i)"
  have e: "slots_ok now s (fst (at_slot i (count_rejected \<circ> message_response status r m) st))"
    if "sv_clients (fst st) = sv_clients s" for st status r m
    using slots_ok_trans [OF answers_ok [OF answers_simple(2)] slots_ok_refl, of "fst st"] that assms(2)
    by (cases st) simp
  show ?thesis
  proof (cases "ls_protocol_parse_prepare_upload body (Some ?ip)")
    case (Inl x)
    with e show ?thesis by (simp add: handle_prepare_upload_def Let_def)
  next
    case (Inr q)
    obtain ok t w1 where b: "ls_transfer_begin_request q ?ip now (sv_transfer s) w = (ok, t, w1)" by (metis prod_cases3)
    let ?wait = "\<lambda>(c, s, w). (c\<lparr>cn_mode := LS_HTTP_WAITING_FOR_APPROVAL, cn_last_activity_ms := now\<rparr>, s, w)"
    obtain s2 w2 where a: "at_slot i ?wait (s\<lparr>sv_transfer := t\<rparr>, w1) = (s2, w2)" by fastforce
    have "slots_ok now (s\<lparr>sv_transfer := t\<rparr>) (fst (at_slot i ?wait (s\<lparr>sv_transfer := t\<rparr>, w1)))"
    proof (rule slots_ok_at)
      show "handled (Permits True True) st (?wait st)" for st by (cases st) (auto intro: acted_waiting)
      show "slot_ok now (client (s\<lparr>sv_transfer := t\<rparr>) i)
          (fst (?wait (client (s\<lparr>sv_transfer := t\<rparr>) i, s\<lparr>sv_transfer := t\<rparr>, w1)))"
        by (simp add: slot_ok_def active_now_at connection_ok_def)
    qed
    then have o: "slots_ok now s s2" using slots_ok_trans [OF _ slots_ok_refl] a by simp
    then have l: "length (sv_clients s2) = LS3DS_MAX_HTTP_CONNECTIONS" using assms(1) by (simp add: slots_ok_def)
    from Inr b a o e slots_ok_trans [OF accept_transfer_ok [OF l] o, of w2] show ?thesis
      by (auto simp: handle_prepare_upload_def Let_def split: bool.splits)
  qed
qed

lemma remote_cancel_ok:
  assumes "cn_last_activity_ms (client s i) = now" and "i < length (sv_clients s)"
  shows "slots_ok now s (fst (handle_remote_cancel i request now (s, w)))"
proof -
  obtain s1 w1 where t: "on_transfer (ls_transfer_cancel (Some ''Cancelled by sender'') now) (s, w) = (s1, w1)" by fastforce
  have c1: "sv_clients s1 = sv_clients s" using t by (auto simp: on_transfer_def split: prod.splits)
  obtain s2 w2 where c: "close_transfer_connections (Some i) (s1, w1) = (s2, w2)" by fastforce
  have o2: "slots_ok now s s2" using slots_ok_trans [OF close_slots_ok [of now "(s1, w1)", simplified fst_conv] slots_ok_refl [OF c1]] c
    by (metis fst_conv)
  have k: "client s2 i = client s i"
  proof -
    let ?f = "\<lambda>j (s, w). if Some j \<noteq> Some i \<and> owned_by_transfer (client s j) then at_slot j reset_state (s, w) else (s, w)"
    have "client (fst (fold ?f xs st)) i = client (fst st) i" for xs st
    proof (induction xs arbitrary: st)
      case (Cons x xs)
      have "client (fst (?f x st)) i = client (fst st) i"
        by (cases st) (auto simp: at_slot_def set_client_def reset_state_def split: prod.splits)
      with Cons [of "?f x st"] show ?case by simp
    qed simp
    from this [of slots "(s1, w1)"] c c1 show ?thesis by (simp add: close_transfer_connections_def)
  qed
  show ?thesis
    using slots_ok_trans [OF answers_ok [OF answers_simple(3)] o2, of i 200 "''OK''" w2] k assms(1) t c
      answers_ok [OF answers_simple(3), of s i now 200 "''OK''" w]
    by (simp add: handle_remote_cancel_def Let_def)
qed

lemma fst_on_slots: "fst (on_slots f (s, r, w)) = fst (f (s, w))"
  by (simp add: on_slots_def split: prod.splits)

lemma register_ok:
  assumes "cn_last_activity_ms (client s i) = now"
  shows "slots_ok now s (fst (handle_register i body identity now (s, r, w)))"
  using answers_ok [OF answers_simple(1) assms, of 400 "''Bad Request''" w] answers_ok [OF answers_info assms, of identity w]
  by (auto simp: handle_register_def Let_def split: sum.split prod.split)

lemma slots_ok_branches:
  "slots_ok now s (fst b) \<Longrightarrow> slots_ok now s (fst c) \<Longrightarrow> slots_ok now s (fst (if P then b else c))"
  "slots_ok now s (fst b) \<Longrightarrow> (\<And>x. slots_ok now s (fst (f x))) \<Longrightarrow>
     slots_ok now s (fst (case y of None \<Rightarrow> b | Some x \<Rightarrow> f x))"
  "slots_ok now s (fst (g (s, w))) \<Longrightarrow> slots_ok now s (fst (on_slots g (s, r, w)))"
  by (simp_all add: fst_on_slots split: option.split)

lemma metadata_ok:
  assumes "length (sv_clients s) = LS3DS_MAX_HTTP_CONNECTIONS" and "cn_last_activity_ms (client s i) = now"
    and "i < LS3DS_MAX_HTTP_CONNECTIONS"
  shows "slots_ok now s (fst (handle_metadata_request i request identity now (s, r, w)))"
proof -
  have i: "i < length (sv_clients s)" using assms(1,3) by simp
  show ?thesis
    unfolding handle_metadata_request_def Let_def
    by (intro slots_ok_branches answers_ok [OF answers_simple(1) assms(2)] answers_ok [OF answers_info assms(2)]
        register_ok [OF assms(2)] prepare_upload_ok [OF assms(1,2)] remote_cancel_ok [OF assms(2) i])
qed

lemma dispatch_ok:
  assumes "length (sv_clients s) = LS3DS_MAX_HTTP_CONNECTIONS" and "cn_last_activity_ms (client s i) = now"
    and "i < LS3DS_MAX_HTTP_CONNECTIONS" and "fresh_stream (client s i)"
  shows "slots_ok now s (fst (dispatch_request i identity now (s, r, w)))"
proof -
  have u: "slots_ok now s (fst (at_slot i (handle_upload_start request d now) (s, w)))" for request d
    by (rule slots_ok_at [OF handled_upload_start])
       (rule kept_slot_ok [OF kept_upload_start [OF assms(4)]], simp_all add: assms(2))
  show ?thesis
    unfolding dispatch_request_def Let_def
    by (intro slots_ok_branches answers_ok [OF answers_simple(1) assms(2)] metadata_ok [OF assms(1-3)] u)
       (simp_all add: u)
qed

section \<open>Reading, writing and accepting\<close>

lemma abort_slot_ok: "slot_ok now c (fst (abort_connection reason now' (c, s, w)))"
  by (simp add: abort_connection_def reset_state_def connection_reset_def Let_def split: prod.splits)

lemma abort_slots_ok:
  "slots_ok now s (fst (at_slot i (abort_connection reason now') (s, w)))"
  "slots_ok now s (fst (at_slot i (count_rejected \<circ> abort_connection reason now') (s, w)))"
  by (rule slots_ok_at; simp add: handled_abort handled_timed_out abort_slot_ok)+

text \<open>An answer to a request that is still being read leaves the idle time as it is.\<close>

lemma response_slot_ok:
  assumes "cn_mode c = LS_HTTP_READING_REQUEST"
  shows "slot_ok now c (fst (response status reason ct body (c, s, w)))"
proof -
  let ?c = "fst (response status reason ct body (c, s, w))"
  have k: "kept c ?c" using kept_response [of "(c, s, w)"] by simp
  have "?c = zero_connection \<or> cn_mode ?c = LS_HTTP_WRITING_RESPONSE"
    by (simp add: response_def Let_def reset_state_def connection_reset_def)
  with k assms have "active_at now c \<longrightarrow> active_at now ?c"
    by (auto simp: kept_def active_at_def connection_expired_def connection_timeout_def)
  with k show ?thesis by (simp add: slot_ok_def kept_def)
qed

lemma read_request_ok:
  assumes "length (sv_clients s) = LS3DS_MAX_HTTP_CONNECTIONS" and "i < LS3DS_MAX_HTTP_CONNECTIONS"
    and "connection_ok (client s i)" and "cn_mode (client s i) = LS_HTTP_READING_REQUEST"
  shows "slots_ok now s (fst (read_request i identity now (s, r, w)))"
proof -
  let ?c = "client s i"
  have fresh: "fresh_stream ?c" using assms(3,4) by (simp add: connection_ok_def)
  obtain a w1 where rc: "do_recv (cn_fd ?c) (LS3DS_HTTP_RX_CAPACITY - length (cn_rx ?c)) w = (a, w1)" by fastforce
  show ?thesis
  proof (cases "length (cn_rx ?c) \<ge> LS3DS_HTTP_RX_CAPACITY")
    case True
    have "slots_ok now s (fst (at_slot i (count_rejected \<circ> empty_response 413 ''Content Too Large'') (s, w)))"
      by (rule slots_ok_at) (simp_all add: handled_simple empty_response_def response_slot_ok assms(4) handled_count handled_responses)
    with True show ?thesis by (simp add: read_request_def Let_def fst_on_slots)
  next
    case cap: False
    show ?thesis
    proof (cases a)
      case (RecvData d)
      let ?d = "?c\<lparr>cn_rx := cn_rx ?c @ d, cn_last_activity_ms := now\<rparr>"
      have "length d \<le> LS3DS_HTTP_RX_CAPACITY - length (cn_rx ?c)" using recv_data rc RecvData cap by fastforce
      then have ok: "connection_ok ?d" using assms(3) cap by (simp add: connection_ok_def fresh_stream_def chunk_ok_def)
      have s1: "slots_ok now s (set_client i ?d s)"
        by (rule slots_ok_set) (simp add: slot_ok_def ok active_now_at)
      have "slots_ok now (set_client i ?d s) (fst (dispatch_request i identity now (set_client i ?d s, r, w1)))"
        using assms(1,2) fresh by (intro dispatch_ok) (simp_all add: set_client_def fresh_stream_def)
      from slots_ok_trans [OF this s1] show ?thesis using rc RecvData cap by (simp add: read_request_def Let_def)
    next
      case RecvAgain
      with rc cap show ?thesis by (simp add: read_request_def Let_def)
    next
      case RecvEof
      with rc cap show ?thesis by (simp add: read_request_def Let_def fst_on_slots abort_slots_ok)
    next
      case (RecvError n)
      with rc cap slots_ok_trans [OF abort_slots_ok(1) slots_ok_refl, of "s\<lparr>sv_last_errno := n\<rparr>" s] show ?thesis
        by (simp add: read_request_def Let_def fst_on_slots)
    qed
  qed
qed

lemma read_stream_ok:
  assumes "cn_mode (client s i) = LS_HTTP_STREAMING_UPLOAD"
  shows "slots_ok now s (fst (at_slot i (read_stream now) (s, w)))"
proof (rule slots_ok_at [OF handled_read_stream])
  let ?c = "client s i"
  let ?d = "?c\<lparr>cn_last_activity_ms := now\<rparr>"
  obtain a w1 where rc: "do_recv (cn_fd ?c) LS3DS_HTTP_STREAM_BUFFER_SIZE w = (a, w1)" by fastforce
  have l: "slot_ok now ?c (fst (stream_lost m now (?c, s', w1)))" for m s'
    by (simp add: stream_lost_def reset_state_def connection_reset_def split: prod.splits)
  have "kept ?d (fst (process_stream_data now data (?d, s, w1)))" for data
    using assms by (intro kept_stream_data) simp
  then have d: "slot_ok now ?c (fst (process_stream_data now data (?d, s, w1)))" for data
    by (rule kept_slot_ok) (simp_all add: connection_ok_def fresh_stream_def chunk_ok_def)
  show "slot_ok now ?c (fst (read_stream now (?c, s, w)))"
    using rc l d by (cases a) (simp_all add: read_stream_def)
qed

lemma write_connection_ok: "slots_ok now s (fst (at_slot i (write_connection now) (s, w)))"
proof (rule slots_ok_at [OF handled_write_connection])
  let ?c = "client s i"
  obtain a w1 where sd: "do_send (cn_fd ?c) (drop (cn_tx_sent ?c) (cn_tx ?c)) w = (a, w1)" by fastforce
  have n: "cn_tx_sent ?c + n \<le> length (cn_tx ?c)" if "a = SendSome n" "connection_ok ?c" for n
    using send_some [OF sd [unfolded that(1)]] that(2) by (simp add: connection_ok_def le_diff_conv2)
  have z: "slot_ok now ?c (fst (reset_state (c, s, w)))" for c s w
    by (simp add: reset_state_def connection_reset_def)
  have k: "slot_ok now ?c (?c\<lparr>cn_tx_sent := cn_tx_sent ?c + m, cn_last_activity_ms := now\<rparr>)"
    if "a = SendSome m" "cn_tx_sent ?c + m \<noteq> length (cn_tx ?c)" for m
    using n [OF that(1)] that(2)
    by (auto simp: slot_ok_def active_now_at connection_ok_def fresh_stream_def chunk_ok_def)
  show "slot_ok now ?c (fst (write_connection now (?c, s, w)))"
    using sd k z by (cases a) (simp_all add: write_connection_def Let_def abort_slot_ok)
qed

lemma update_connection_ok:
  assumes "length (sv_clients s) = LS3DS_MAX_HTTP_CONNECTIONS" and "i < LS3DS_MAX_HTTP_CONNECTIONS"
    and "connection_ok (client s i)"
  shows "slots_ok now s (fst (update_connection identity now i (s, r, w)))"
    and "active_at now (client (fst (update_connection identity now i (s, r, w))) i)"
proof -
  let ?c = "client s i"
  let ?u = "update_connection identity now i (s, r, w)"
  have i: "i < length (sv_clients s)" using assms(1,2) by simp
  let ?st = "if cn_mode ?c = LS_HTTP_READING_REQUEST then read_request i identity now (s, r, w)
             else if cn_mode ?c = LS_HTTP_STREAMING_UPLOAD then on_slots (at_slot i (read_stream now)) (s, r, w)
             else (s, r, w)"
  obtain s1 r1 w1 where st: "?st = (s1, r1, w1)" by (metis prod_cases3)
  have "slots_ok now s (fst ?st)"
    using read_request_ok [OF assms] read_stream_ok by (auto simp: fst_on_slots)
  then have o1: "slots_ok now s s1" unfolding st by simp
  have o2: "slots_ok now s (fst (at_slot i (write_connection now) (s1, w1)))"
    by (rule slots_ok_trans [OF write_connection_ok o1])
  have idle: "slots_ok now s (fst ?u) \<and> active_at now (client (fst ?u) i)"
    if "cn_fd ?c < 0"
    using that by (simp add: update_connection_def Let_def active_at_def)
  have expired: "slots_ok now s (fst ?u) \<and> active_at now (client (fst ?u) i)"
    if "\<not> cn_fd ?c < 0" "connection_expired now ?c"
  proof -
    let ?f = "count_rejected \<circ> abort_connection ''Network request timed out'' now"
    have u: "fst ?u = fst (at_slot i ?f (s, w))" using that by (simp add: update_connection_def Let_def fst_on_slots)
    have "client (fst (at_slot i ?f (s, w))) i = fst (?f (?c, s, w))"
      by (rule at_slot_client [OF i]) (simp add: handled_timed_out)
    also have "\<dots> = zero_connection"
      by (simp add: abort_connection_def reset_state_def connection_reset_def Let_def split: prod.splits)
    finally show ?thesis using abort_slots_ok(2) u by (simp add: active_at_def)
  qed
  have busy: "slots_ok now s (fst ?u) \<and> active_at now (client (fst ?u) i)"
    if "\<not> cn_fd ?c < 0" "\<not> connection_expired now ?c"
  proof -
    have "fst ?u = (if cn_fd (client s1 i) \<ge> 0 \<and> cn_mode (client s1 i) = LS_HTTP_WRITING_RESPONSE
        then fst (at_slot i (write_connection now) (s1, w1)) else s1)"
      using that st by (simp add: update_connection_def Let_def fst_on_slots)
    with o1 o2 have o: "slots_ok now s (fst ?u)" by simp
    moreover have "active_at now ?c" using that by (simp add: active_at_def)
    ultimately show ?thesis using i by (simp add: slots_ok_def slot_ok_def)
  qed
  from idle expired busy show "slots_ok now s (fst ?u)" "active_at now (client (fst ?u) i)" by blast+
qed

lemma place_ok: "slots_ok now s (fst (place_connection fd ip nb known now (s, w)))"
proof -
  have "slot_ok now c (zero_connection\<lparr>cn_fd := fd, cn_peer_ip := ip, cn_last_activity_ms := now\<rparr>)" for c
    using connection_ok_zero by (simp add: slot_ok_def active_now_at connection_ok_def fresh_stream_def chunk_ok_def)
  from slots_ok_set [OF this] slots_ok_set [OF slot_ok_zero] show ?thesis
    by (auto simp: place_connection_def reject_connection_def slots_ok_def set_client_def split: option.split)
qed

lemma accept_loop_ok: "slots_ok now (fst st) (fst (accept_loop n now st))"
proof (induction n arbitrary: st)
  case (Suc n)
  obtain s w where st: "st = (s, w)" by (cases st)
  obtain a w1 where ac: "do_accept w = (a, w1)" by fastforce
  have "slots_ok now s (fst (accept_loop n now (place_connection fd ip nb known now (s, w1))))" for fd ip nb known
    by (rule slots_ok_trans [OF Suc.IH place_ok])
  with ac show ?case by (simp add: st split: option.split accept_answer.split)
qed simp

section \<open>Every reachable server\<close>

definition server_ok :: "LsHttpServer \<Rightarrow> bool" where
  "server_ok s \<longleftrightarrow> length (sv_clients s) = LS3DS_MAX_HTTP_CONNECTIONS \<and> (\<forall>c \<in> set (sv_clients s). connection_ok c)"

lemma server_ok_client: "server_ok s \<Longrightarrow> i < LS3DS_MAX_HTTP_CONNECTIONS \<Longrightarrow> connection_ok (client s i)"
  by (simp add: server_ok_def)

lemma slots_ok_server: "slots_ok now s s' \<Longrightarrow> server_ok s \<Longrightarrow> server_ok s'"
  unfolding server_ok_def slots_ok_def slot_ok_def by (metis in_set_conv_nth)

lemma update_fold_ok:
  assumes "server_ok (fst st)" and "\<forall>i \<in> set xs. i < LS3DS_MAX_HTTP_CONNECTIONS"
  shows "slots_ok now (fst st) (fst (fold (update_connection identity now) xs st))"
    and "\<forall>i \<in> set xs. active_at now (client (fst (fold (update_connection identity now) xs st)) i)"
proof -
  have "slots_ok now (fst st) (fst (fold (update_connection identity now) xs st)) \<and>
      (\<forall>i \<in> set xs. active_at now (client (fst (fold (update_connection identity now) xs st)) i))"
    using assms
  proof (induction xs arbitrary: st)
    case (Cons x xs)
    obtain s r w where st: "st = (s, r, w)" by (cases st)
    let ?u = "update_connection identity now x st"
    have x: "x < LS3DS_MAX_HTTP_CONNECTIONS" using Cons.prems(2) by simp
    have l: "length (sv_clients s) = LS3DS_MAX_HTTP_CONNECTIONS" "connection_ok (client s x)"
      using Cons.prems(1) server_ok_client [OF _ x] by (simp_all add: st server_ok_def)
    note u = update_connection_ok [OF l(1) x l(2), of now identity r w]
    have ok: "server_ok (fst ?u)" using slots_ok_server [OF u(1)] Cons.prems(1) by (simp add: st)
    from Cons.IH [OF ok] Cons.prems(2)
    have ih: "slots_ok now (fst ?u) (fst (fold (update_connection identity now) xs ?u))"
      "\<forall>i \<in> set xs. active_at now (client (fst (fold (update_connection identity now) xs ?u)) i)" by auto
    have "active_at now (client (fst (fold (update_connection identity now) xs ?u)) x)"
      using ih(1) u(2) x ok by (simp add: st slots_ok_def slot_ok_def server_ok_def)
    with ih slots_ok_trans [OF ih(1) u(1) [folded st]] show ?case by (simp add: st)
  qed simp
  then show "slots_ok now (fst st) (fst (fold (update_connection identity now) xs st))"
    "\<forall>i \<in> set xs. active_at now (client (fst (fold (update_connection identity now) xs st)) i)" by blast+
qed

lemma update_slots_ok:
  assumes "server_ok (fst st)"
  shows "slots_ok now (fst st) (fst (ls_http_server_update identity now st))"
    and "sv_running (fst st) \<Longrightarrow> i < LS3DS_MAX_HTTP_CONNECTIONS \<Longrightarrow>
      active_at now (client (fst (ls_http_server_update identity now st)) i)"
proof -
  obtain s r w where st: "st = (s, r, w)" by (cases st)
  let ?b = "on_slots (expire_session now \<circ> accept_connections now) st"
  have "slots_ok now s' (fst (expire_session now (s', w')))" for s' w'
    by (simp add: expire_session_def)
  then have e: "slots_ok now (fst x) (fst (expire_session now x))" for x by (cases x) simp
  have b: "slots_ok now s (fst ?b)"
    using slots_ok_trans [OF e accept_loop_ok [of now "(s, w)"]] by (simp add: st fst_on_slots accept_connections_def)
  have okb: "server_ok (fst ?b)" using slots_ok_server [OF b] assms by (simp add: st)
  note f = update_fold_ok [OF okb, of slots now identity]
  have m: "\<forall>i \<in> set slots. i < LS3DS_MAX_HTTP_CONNECTIONS" by simp
  show "slots_ok now (fst st) (fst (ls_http_server_update identity now st))"
    using slots_ok_trans [OF f(1) [OF m] b] by (simp add: ls_http_server_update_def st)
  show "active_at now (client (fst (ls_http_server_update identity now st)) i)"
    if "sv_running (fst st)" "i < LS3DS_MAX_HTTP_CONNECTIONS"
    using f(2) [OF m] that by (simp add: ls_http_server_update_def)
qed

lemma stop_slots_ok: "slots_ok now (fst st) (fst (ls_http_server_stop st))"
proof -
  obtain s w where st: "st = (s, w)" by (cases st)
  have "slots_ok now (fst x) (fst (at_slot i reset_state x))" for x i
  proof -
    obtain s w where x: "x = (s, w)" by (cases x)
    have "slots_ok now s (fst (at_slot i reset_state (s, w)))"
      by (rule slots_ok_at) (simp_all add: handled_reset, simp add: reset_state_def connection_reset_def)
    then show ?thesis by (simp add: x)
  qed
  then have f: "slots_ok now (fst x) (fst (fold (\<lambda>i. at_slot i reset_state) xs x))" for x xs
  proof (induction xs arbitrary: x)
    case (Cons y ys)
    from slots_ok_trans [OF Cons.IH [OF Cons.prems] Cons.prems [of x y]] show ?case by simp
  qed simp
  let ?b = "if ls_transfer_is_busy (sv_transfer s)
    then on_transfer (ls_transfer_cancel (Some ''Application/network shutdown'') 0) (s, w) else (s, w)"
  obtain s1 w1 where b: "?b = (s1, w1)" by (metis surj_pair)
  obtain s2 w2 where g: "fold (\<lambda>i. at_slot i reset_state) slots (s1, w1) = (s2, w2)" by (metis surj_pair)
  have "slots_ok now s (fst ?b)" by simp
  then have "slots_ok now s s1" unfolding b by simp
  with f [of "(s1, w1)" slots] g have "slots_ok now s s2" using slots_ok_trans by fastforce
  moreover have "fst (ls_http_server_stop st) = s2\<lparr>sv_listen_fd := -1, sv_running := False\<rparr>"
    by (simp only: st ls_http_server_stop_def Let_def b g split_conv fst_conv)
  ultimately show ?thesis by (simp add: st slots_ok_def)
qed

lemma reject_slots_ok:
  assumes "length (sv_clients s) = LS3DS_MAX_HTTP_CONNECTIONS"
  shows "slots_ok now s (fst (snd (ls_http_server_reject_transfer now (s, w))))"
proof -
  have k: "slot_ok now c (fst ((count_handled \<circ> message_response 403 ''Forbidden'' ''Rejected'' \<circ> active_now now) (c, s, w)))"
    for c s w
    using kept_slot_ok [OF kept_responses(3) [of "active_now now (c, s, w)"]]
    by (simp add: active_now_def connection_ok_def fresh_stream_def chunk_ok_def)
  have h: "handled (Permits True True) st ((count_handled \<circ> message_response 403 ''Forbidden'' ''Rejected'' \<circ> active_now now) st)" for st
    by (simp add: handled_count handled_after handled_active)
  let ?s = "s\<lparr>sv_transfer := ls_transfer_reject now (sv_transfer s)\<rparr>"
  have "slots_ok now s (fst (at_slot i (count_handled \<circ> message_response 403 ''Forbidden'' ''Rejected'' \<circ> active_now now) (?s, w)))" for i
    by (rule slots_ok_trans [OF slots_ok_at [OF h k] slots_ok_refl]) simp
  then show ?thesis by (auto simp: ls_http_server_reject_transfer_def Let_def split: option.split)
qed

lemma step_server_ok: "server_step st st' \<Longrightarrow> server_ok (fst st) \<Longrightarrow> server_ok (fst st')"
proof (induction rule: server_step.induct)
  case (server_update st identity now)
  from slots_ok_server [OF update_slots_ok(1) [OF server_update] server_update] show ?case .
next
  case (server_accept st now)
  obtain s r w where st: "st = (s, r, w)" by (cases st)
  have "length (sv_clients s) = LS3DS_MAX_HTTP_CONNECTIONS" using server_accept by (simp add: st server_ok_def)
  from slots_ok_server [OF accept_transfer_ok [OF this]] server_accept show ?case by (simp add: st fst_on_slots)
next
  case (server_reject st now)
  obtain s r w where st: "st = (s, r, w)" by (cases st)
  have "length (sv_clients s) = LS3DS_MAX_HTTP_CONNECTIONS" using server_reject by (simp add: st server_ok_def)
  from slots_ok_server [OF reject_slots_ok [OF this]] server_reject show ?case by (simp add: st fst_on_slots)
next
  case (server_cancel st now)
  obtain s r w where st: "st = (s, r, w)" by (cases st)
  have "slots_ok now s (fst (snd (ls_http_server_cancel_transfer now (s, w))))"
    by (simp add: ls_http_server_cancel_transfer_def slots_ok_trans [OF close_slots_ok slots_ok_on_transfer])
  from slots_ok_server [OF this] server_cancel show ?case by (simp add: st fst_on_slots)
next
  case (server_stop st)
  obtain s r w where st: "st = (s, r, w)" by (cases st)
  from slots_ok_server [OF stop_slots_ok [of 0 "(s, w)"]] server_stop show ?case by (simp add: st fst_on_slots)
qed (simp_all add: ls_http_server_set_external_transfer_busy_def ls_http_server_set_quick_save_def server_ok_def)

lemma reachable_server_ok: "server_reachable w0 st \<Longrightarrow> server_ok (fst st)"
proof (induction rule: server_reachable.induct)
  case (server_started dir s w ok s' w' r)
  with start_run(2) [of dir s w s' w'] show ?case by (auto simp: server_ok_def zero_server_def)
next
  case (server_stepped w0 st st')
  with step_server_ok show ?case by blast
qed

section \<open>A file is accepted only with consent\<close>

definition consented :: "LsIncomingTransfer \<Rightarrow> bool" where
  "consented t \<longleftrightarrow> tr_state t = LS_TRANSFER_ACCEPTED \<or> tr_state t = LS_TRANSFER_RECEIVING"

lemma step_consented:
  assumes "transfer_step s op s'" and "permitted (Permits b False) op" and "consented (fst s')"
  shows "consented (fst s)"
  using assms
proof (induction rule: transfer_step.induct)
  case (step_request json ip' q ip now t w ok t' w')
  then show ?case by (auto simp: consented_def ls_transfer_begin_request_def Let_def split: if_splits prod.splits)
next
  case (step_stream declared now t w ok t' w')
  from begin_stream_failed [of declared now t w t' w'] step_stream show ?case
    by (cases "tr_state t = LS_TRANSFER_ACCEPTED") (auto simp: consented_def ls_transfer_begin_stream_def)
next
  case (step_write data now t w ok t' w')
  then show ?case by (auto simp: consented_def ls_transfer_write_def split: if_splits)
next
  case (step_finish now t w r t' w')
  then show ?case by (auto simp: consented_def ls_transfer_finish_def split: if_splits)
next
  case (step_fail m now t w t' w')
  from fail_result(1) [OF step_fail(1)] step_fail(3) show ?case by (auto simp: consented_def)
next
  case (step_cancel m now t w t' w')
  then show ?case
    by (auto simp: consented_def ls_transfer_cancel_def set_error_def invalidate_credentials_def Let_def
        split: if_splits prod.splits)
qed (auto simp: consented_def ls_transfer_reject_def set_error_def invalidate_credentials_def permitted_def split: if_splits)

lemma run_consented: "transfer_run (Permits b False) s s' \<Longrightarrow> consented (fst s') \<Longrightarrow> consented (fst s)"
  by (induction rule: transfer_run.induct) (auto dest: step_consented)

section \<open>A stream begins only with the credentials of the session\<close>

lemma step_begins:
  assumes "transfer_step s op s'" and "permitted (Permits False v) op" and "tr_state (fst s') = LS_TRANSFER_RECEIVING"
  shows "tr_state (fst s) = LS_TRANSFER_RECEIVING"
  using assms
proof (induction rule: transfer_step.induct)
  case (step_request json ip' q ip now t w ok t' w')
  then show ?case by (auto simp: ls_transfer_begin_request_def Let_def split: if_splits prod.splits)
next
  case (step_accept dir now t w ok t' w')
  show ?case
  proof (cases "tr_state t = LS_TRANSFER_WAITING_FOR_USER")
    case True
    from step_accept(1) True step_accept(3) show ?thesis by (cases rule: accept_cases) simp_all
  next
    case False
    with step_accept show ?thesis by (simp add: ls_transfer_accept_def)
  qed
next
  case (step_write data now t w ok t' w')
  then show ?case by (auto simp: ls_transfer_write_def split: if_splits)
next
  case (step_finish now t w r t' w')
  then show ?case by (auto simp: ls_transfer_finish_def split: if_splits)
next
  case (step_fail m now t w t' w')
  from fail_result(1) [OF step_fail(1)] step_fail(3) show ?case by simp
next
  case (step_cancel m now t w t' w')
  then show ?case
    by (auto simp: ls_transfer_cancel_def set_error_def invalidate_credentials_def Let_def split: if_splits prod.splits)
qed (auto simp: ls_transfer_reject_def set_error_def invalidate_credentials_def permitted_def split: if_splits)

lemma run_begins:
  "transfer_run (Permits False v) s s' \<Longrightarrow> tr_state (fst s') = LS_TRANSFER_RECEIVING \<Longrightarrow> tr_state (fst s) = LS_TRANSFER_RECEIVING"
  by (induction rule: transfer_run.induct) (auto dest: step_begins)

lemma acted_begins:
  "acted (Permits False True) (s, w) (s', w') \<Longrightarrow> tr_state (sv_transfer s') = LS_TRANSFER_RECEIVING \<Longrightarrow>
     tr_state (sv_transfer s) = LS_TRANSFER_RECEIVING"
  using run_begins by (fastforce simp: acted_def)

definition upload_request :: "string \<Rightarrow> string \<Rightarrow> LsIncomingTransfer \<Rightarrow> bool" where
  "upload_request rx peer_ip t \<longleftrightarrow>
     (\<exists>request session_id fileid token. 0 < find_header_end rx \<and>
        parse_request_headers (take (find_header_end rx) rx) = Some request \<and> req_method request = ''POST'' \<and>
        route_path (req_target request) 256 = Some ''/api/localsend/v2/upload'' \<and>
        upload_parameters request = Some (session_id, fileid, token) \<and>
        ls_transfer_validate_upload t peer_ip session_id fileid token)"

lemma upload_start_calm:
  assumes "\<not> (\<exists>session_id fileid token. upload_parameters request = Some (session_id, fileid, token) \<and>
     ls_transfer_validate_upload (sv_transfer s) (cn_peer_ip c) session_id fileid token)"
  shows "handled (Permits False True) (c, s, w) (handle_upload_start request initial now (c, s, w))"
  using assms by (auto simp: handle_upload_start_def handled_simple split: option.split)

lemma acted_at_here:
  assumes "handled (Permits False True) (client s i, s, w) (f (client s i, s, w))"
  shows "acted (Permits False True) (s, w) (at_slot i f (s, w))"
proof -
  obtain c s' w' where f: "f (client s i, s, w) = (c, s', w')" by (metis prod_cases3)
  with assms show ?thesis
    by (simp add: at_slot_def acted_def handled_def same_server_def same_config_def set_client_def)
qed

lemma dispatch_calm:
  "acted (Permits False True) (s, w) (slots_of (dispatch_request i identity now (s, r, w))) \<or>
   upload_request (cn_rx (client s i)) (cn_peer_ip (client s i)) (sv_transfer s)"
proof -
  let ?rx = "cn_rx (client s i)"
  let ?hl = "find_header_end ?rx"
  have rej: "acted (Permits False True) (s, w) (slots_of (on_slots (at_slot i (count_rejected \<circ> empty_response status reason)) (s, r, w)))"
    for status reason by (simp only: slots_of_simps, rule acted_at, rule handled_answered)
  have met: "acted (Permits False True) (s, w) (slots_of (handle_metadata_request i request identity now (s, r, w)))" for request
    using acted_metadata [of "(s, r, w)" True False] by simp
  show ?thesis
  proof (cases "?hl = 0")
    case True
    with rej show ?thesis by (simp add: dispatch_request_def Let_def)
  next
    case hl: False
    show ?thesis
    proof (cases "parse_request_headers (take ?hl ?rx)")
      case None
      with hl rej show ?thesis by (simp add: dispatch_request_def Let_def)
    next
      case (Some request)
      show ?thesis
      proof (cases "req_method request = ''POST'' \<and> route_path (req_target request) 256 = Some ''/api/localsend/v2/upload''")
        case True
        show ?thesis
        proof (cases "upload_request ?rx (cn_peer_ip (client s i)) (sv_transfer s)")
          case False
          with True Some hl have "handled (Permits False True) (client s i, s, w)
              (handle_upload_start request (drop ?hl ?rx) now (client s i, s, w))"
            by (intro upload_start_calm) (auto simp: upload_request_def)
          then have "acted (Permits False True) (s, w) (at_slot i (handle_upload_start request (drop ?hl ?rx) now) (s, w))"
            by (rule acted_at_here)
          with True Some hl rej show ?thesis by (simp add: dispatch_request_def Let_def)
        qed simp
      next
        case False
        with Some hl rej met show ?thesis
          by (auto simp: dispatch_request_def Let_def split: option.split)
      qed
    qed
  qed
qed

lemma stream_begins_authorised:
  assumes "update_connection identity now i (s, r, w) = (s', r', w')"
    and "tr_state (sv_transfer s) \<noteq> LS_TRANSFER_RECEIVING" and "tr_state (sv_transfer s') = LS_TRANSFER_RECEIVING"
    and "i < length (sv_clients s)"
  shows "\<exists>data. upload_request (cn_rx (client s i) @ data) (cn_peer_ip (client s i)) (sv_transfer s)"
proof (rule ccontr)
  assume no: "\<not> ?thesis"
  let ?c = "client s i"
  have rd: "acted (Permits False True) (s, w) (slots_of (read_request i identity now (s, r, w)))"
  proof -
    obtain a w1 where rc: "do_recv (cn_fd ?c) (LS3DS_HTTP_RX_CAPACITY - length (cn_rx ?c)) w = (a, w1)" by fastforce
    have n: "acted (Permits False True) (s, w) (s\<lparr>sv_last_errno := k\<rparr>, w1)" "acted (Permits False True) (s, w) (s, w1)" "acted (Permits False True) (s, w) (set_client i c s, w1)" for k c
      using run_world [OF net_only_ops(2) [OF rc]] by (simp_all add: acted_def same_config_def set_client_def)
    let ?s = "\<lambda>data. set_client i (?c\<lparr>cn_rx := cn_rx ?c @ data, cn_last_activity_ms := now\<rparr>) s"
    have d: "acted (Permits False True) (s, w) (slots_of (dispatch_request i identity now (?s data, r, w1)))" for data
    proof -
      have "client (?s data) i = ?c\<lparr>cn_rx := cn_rx ?c @ data, cn_last_activity_ms := now\<rparr>"
        "sv_transfer (?s data) = sv_transfer s" using assms(4) by (simp_all add: set_client_def)
      with no dispatch_calm [of "?s data" w1 i identity now r] have
        "acted (Permits False True) (?s data, w1) (slots_of (dispatch_request i identity now (?s data, r, w1)))" by auto
      from acted_trans [OF this n(3)] show ?thesis .
    qed
    have e: "acted (Permits False True) (s, w) (slots_of (on_slots (at_slot i f) (s1, r, w1)))"
      if "acted (Permits False True) (s, w) (s1, w1)" "\<And>st. handled (Permits False True) st (f st)" for f s1
      using acted_onto(1) [OF that] by simp
    show ?thesis
    proof (cases "length (cn_rx ?c) \<ge> LS3DS_HTTP_RX_CAPACITY")
      case True
      then show ?thesis by (simp add: read_request_def Let_def) (auto intro!: acted_at handled_handlers)
    next
      case False
      with rc d e n show ?thesis by (cases a) (auto simp: read_request_def Let_def handled_abort)
    qed
  qed
  have st: "acted (Permits False True) (s, w) (at_slot i (read_stream now) (s, w))" by (simp add: acted_at handled_read_stream)
  have u: "acted (Permits False True) (s, w) (slots_of (update_connection identity now i (s, r, w)))"
    using rd st by (auto simp: update_connection_def Let_def intro!: acted_onto(1) acted_at handled_handlers)
  with acted_begins [of s w s' w'] assms(1-3) show False by simp
qed

end
