(* ===== verification/Upload_Progress.thy ===== *)
theory Upload_Progress
  imports Http_Upload
begin

text \<open>
  The counterpart to the safety of uploads: on a card without faults an upload with the session's
  credentials, the announced length and all its bytes, in any pieces, completes.
\<close>

lemma piece_received:
  assumes "w_recv w fd = map RecvData (p # ps)" and "p \<noteq> []" and "length p \<le> n"
  shows "do_recv fd n w = (RecvData p, w\<lparr>w_recv := (w_recv w)(fd := map RecvData ps)\<rparr>)"
  using assms by (simp add: do_recv_def)

text \<open>A stream that has taken \<open>x\<close> of a file and expects \<open>rest\<close>.\<close>

definition expects :: "LsIncomingTransfer \<times> world \<Rightarrow> string \<Rightarrow> string \<Rightarrow> http_state \<Rightarrow> bool" where
  "expects s0 x rest st \<longleftrightarrow>
     (let (c, s, w) = st; m = tr_file_metadata (sv_transfer s) in
      receiving s0 x (sv_transfer s, w) \<and> cn_mode c = LS_HTTP_STREAMING_UPLOAD \<and>
      cn_upload_encoding c = LS_HTTP_UPLOAD_LENGTH \<and> w_io w = [] \<and>
      unat (cn_body_remaining c) = length rest \<and> length x + length rest = unat (file_size m) \<and>
      w_fs w (tr_final_path (sv_transfer s)) = None \<and>
      (has_sha256 m \<longrightarrow> file_sha256 m = ls_sha256_hex (sha256 (bytes_of (x @ rest)))))"

lemma final_not_part: "transfer_inv t w \<Longrightarrow> has_session t \<Longrightarrow> tr_final_path t \<noteq> tr_part_path t"
  by (simp add: transfer_inv_def)

lemma expected_write:
  assumes "expects s0 x (p @ rest) (c, s, w)"
  shows "\<exists>t' w'. stream_write p now (c, s, w) = (True, c, s\<lparr>sv_transfer := t'\<rparr>, w') \<and> same_net w w' \<and>
    expects s0 (x @ p) rest (c\<lparr>cn_body_remaining := cn_body_remaining c - of_nat (length p)\<rparr>, s\<lparr>sv_transfer := t'\<rparr>, w')"
proof -
  let ?t = "sv_transfer s"
  have r: "receiving s0 x (?t, w)" and io: "w_io w = []" and sz: "length x + length (p @ rest) = unat (file_size (tr_file_metadata ?t))"
    and rem: "unat (cn_body_remaining c) = length (p @ rest)" and fin: "w_fs w (tr_final_path ?t) = None"
    using assms by (auto simp: expects_def Let_def)
  have inv: "transfer_inv ?t w" and st: "tr_state ?t = LS_TRANSFER_RECEIVING" using r by (auto simp: receiving_def)
  note part = receiving_part [OF r]
  have "length x + length p \<le> unat (file_size (tr_file_metadata ?t))" using sz by simp
  from write_succeeds [OF inv st part this io] obtain t' w' where
    wr: "ls_transfer_write p now ?t w = (True, t', w')" and io': "w_io w' = []" by blast
  note wc = write_content [OF wr part]
  have "w_fs w' (tr_final_path ?t) = w_fs w (tr_final_path ?t)"
    using wc(2) final_not_part [OF inv] st by (auto simp: others_unchanged_def has_session_def)
  moreover have "tr_final_path t' = tr_final_path ?t" "tr_file_metadata t' = tr_file_metadata ?t"
    unfolding wc(3) by simp_all
  moreover have "unat (cn_body_remaining c - of_nat (length p)) = length rest"
    using remaining_less(1) [of "length p" "cn_body_remaining c"] rem by simp
  ultimately have "expects s0 (x @ p) rest (c\<lparr>cn_body_remaining := cn_body_remaining c - of_nat (length p)\<rparr>, s\<lparr>sv_transfer := t'\<rparr>, w')"
    using assms receiving_write [OF r wr] io' fin sz by (simp add: expects_def Let_def)
  moreover have "stream_write p now (c, s, w) = (True, c, s\<lparr>sv_transfer := t'\<rparr>, w')"
    using wr by (simp add: stream_write_def)
  ultimately show ?thesis using write_net [OF wr] by blast
qed

lemma expected_finish:
  assumes "expects s0 x [] (c, s, w)"
  shows "tr_state (fst (transfer_of (stream_finish now (c, s, w)))) = LS_TRANSFER_COMPLETED"
proof -
  let ?t = "sv_transfer s"
  have r: "receiving s0 x (?t, w)" using assms by (simp add: expects_def Let_def)
  then have inv: "transfer_inv ?t w" and st: "tr_state ?t = LS_TRANSFER_RECEIVING" by (auto simp: receiving_def)
  have "\<exists>t' w'. ls_transfer_finish now ?t w = (LS_TRANSFER_FINISH_SUCCESS, t', w')"
    using assms by (intro finish_succeeds [OF inv st receiving_part [OF r]]) (simp_all add: expects_def Let_def)
  then obtain t' w' where f: "ls_transfer_finish now ?t w = (LS_TRANSFER_FINISH_SUCCESS, t', w')" by blast
  from receiving_finish [OF r f] have "tr_state t' = LS_TRANSFER_COMPLETED" by (simp add: received_intact_def Let_def)
  with f show ?thesis by (simp add: stream_finish_def empty_response_def)
qed

lemma expected_data:
  assumes "expects s0 x (p @ rest) (c, s, w)"
  shows "(rest = [] \<and> \<not> streaming (process_stream_data now p (c, s, w)) \<and>
     tr_state (fst (transfer_of (process_stream_data now p (c, s, w)))) = LS_TRANSFER_COMPLETED) \<or>
    (rest \<noteq> [] \<and> expects s0 (x @ p) rest (process_stream_data now p (c, s, w)) \<and>
     cn_fd (fst (process_stream_data now p (c, s, w))) = cn_fd c)"
proof -
  let ?c = "c\<lparr>cn_body_remaining := cn_body_remaining c - of_nat (length p)\<rparr>"
  obtain t' w' where wr: "stream_write p now (c, s, w) = (True, c, s\<lparr>sv_transfer := t'\<rparr>, w')"
    and e: "expects s0 (x @ p) rest (?c, s\<lparr>sv_transfer := t'\<rparr>, w')"
    using expected_write [OF assms] by blast
  have rem: "unat (cn_body_remaining c) = length (p @ rest)" "cn_upload_encoding c = LS_HTTP_UPLOAD_LENGTH"
    using assms by (simp_all add: expects_def Let_def)
  have z: "cn_body_remaining ?c = 0 \<longleftrightarrow> rest = []" using remaining_less(2) [of "length p" "cn_body_remaining c"] rem by simp
  have "process_stream_data now p (c, s, w) =
      (if cn_body_remaining ?c = 0 then stream_finish now (?c, s\<lparr>sv_transfer := t'\<rparr>, w') else (?c, s\<lparr>sv_transfer := t'\<rparr>, w'))"
    using wr rem by (simp add: process_stream_data_def process_length_data_def Let_def)
  with z e expected_finish [of s0 "x @ p" ?c "s\<lparr>sv_transfer := t'\<rparr>" w' now] show ?thesis by auto
qed

definition pieces_ok :: "string list \<Rightarrow> bool" where
  "pieces_ok ps \<longleftrightarrow> (\<forall>p \<in> set ps. p \<noteq> [] \<and> length p \<le> LS3DS_HTTP_STREAM_BUFFER_SIZE)"

lemma reads_complete:
  assumes "expects s0 x (concat ps) st" and "ps \<noteq> []" and "pieces_ok ps"
    and "recv_of st (cn_fd (fst st)) = map RecvData ps" and "length ps \<le> length ts"
  shows "tr_state (fst (transfer_of (stream_reads ts st))) = LS_TRANSFER_COMPLETED"
  using assms
proof (induction ps arbitrary: ts st x)
  case (Cons p ps)
  obtain c s w where st: "st = (c, s, w)" by (cases st)
  obtain now ts' where ts: "ts = now # ts'" using Cons.prems(5) by (cases ts) auto
  have m: "streaming st" using Cons.prems(1) by (simp add: st expects_def streaming_def Let_def)
  have p: "p \<noteq> []" "length p \<le> LS3DS_HTTP_STREAM_BUFFER_SIZE" "pieces_ok ps" using Cons.prems(3) by (simp_all add: pieces_ok_def)
  let ?w = "w\<lparr>w_recv := (w_recv w)(cn_fd c := map RecvData ps)\<rparr>"
  let ?c = "c\<lparr>cn_last_activity_ms := now\<rparr>"
  let ?q = "process_stream_data now p (?c, s, ?w)"
  have rd: "read_stream now st = ?q"
    using piece_received [OF _ p(1,2), of w "cn_fd c" ps] Cons.prems(4) by (simp add: st read_stream_def)
  have "expects s0 x (p @ concat ps) (?c, s, ?w)"
    using Cons.prems(1) receiving_fs [of s0 x "sv_transfer s" w ?w] by (simp add: st expects_def Let_def)
  note d = expected_data [OF this, of now]
  have sr: "stream_reads ts st = stream_reads ts' ?q" using m rd by (simp add: ts)
  show ?case
  proof (cases "concat ps = []")
    case True
    with d sr stream_reads_stopped show ?thesis by auto
  next
    case False
    then have e: "expects s0 (x @ p) (concat ps) ?q" "cn_fd (fst ?q) = cn_fd c" "ps \<noteq> []" using d by auto
    have "recv_of ?q (cn_fd (fst ?q)) = map RecvData ps" using e(2) by simp
    from Cons.IH [OF e(1,3) p(3) this] Cons.prems(5) sr show ?thesis by (simp add: ts)
  qed
qed simp


lemma upload_reads_complete:
  assumes "transfer_inv (sv_transfer s) w" and "w_io w = []"
    and "upload_parameters request = Some (session_id, fileid, token)"
    and "ls_transfer_validate_upload (sv_transfer s) (cn_peer_ip c) session_id fileid token"
    and "\<not> req_chunked request" and "req_has_content_length request"
    and "req_content_length request = file_size (tr_file_metadata (sv_transfer s))"
    and "length (initial @ concat ps) = unat (file_size (tr_file_metadata (sv_transfer s)))"
    and "w_fs w (tr_part_path (sv_transfer s)) = None" and "w_fs w (tr_final_path (sv_transfer s)) = None"
    and "has_sha256 (tr_file_metadata (sv_transfer s)) \<Longrightarrow>
      file_sha256 (tr_file_metadata (sv_transfer s)) = ls_sha256_hex (sha256 (bytes_of (initial @ concat ps)))"
    and "pieces_ok ps" and "w_recv w (cn_fd c) = map RecvData ps" and "length ps \<le> length ts"
  shows "tr_state (fst (transfer_of (stream_reads ts (handle_upload_start request initial now (c, s, w))))) = LS_TRANSFER_COMPLETED"
proof -
  let ?t = "sv_transfer s"
  let ?c = "start_stream request c"
  let ?h = "handle_upload_start request initial now (c, s, w)"
  have acc: "tr_state ?t = LS_TRANSFER_ACCEPTED"
    using assms(4) by (auto simp: ls_transfer_validate_upload_def split: if_splits)
  obtain t w1 where b: "ls_transfer_begin_stream (Some (file_size (tr_file_metadata ?t))) now ?t w = (True, t, w1)" "w_io w1 = []"
    using begin_stream_succeeds [OF assms(1) acc assms(2,9), of "Some (file_size (tr_file_metadata ?t))" now] by auto
  have nf: "\<not> tr_file ?t" using assms(1) acc by (simp add: transfer_inv_def)
  note ss = stream_success [OF b(1) nf]
  have meta: "tr_file_metadata t = tr_file_metadata ?t" "tr_final_path t = tr_final_path ?t" unfolding ss(1) by simp_all
  have inv: "transfer_inv t w1" by (rule inv_begin_stream [OF b(1) assms(1)])
  have "tr_final_path ?t \<noteq> tr_part_path ?t" using final_not_part [OF assms(1)] acc by (simp add: has_session_def)
  then have fin: "w_fs w1 (tr_final_path t) = None" using ss(3) assms(10) meta(2) by simp
  have "receiving (?t, w) [] (t, w1)"
    using inv ss(3) ss(1) by (simp add: receiving_def file_at_def others_unchanged_def)
  then have e: "expects (?t, w) [] (initial @ concat ps) (?c, s\<lparr>sv_transfer := t\<rparr>, w1)"
    using assms(5,7,8,11) b(2) fin meta by (simp add: expects_def Let_def start_stream_def)
  let ?st = "(?c, s\<lparr>sv_transfer := t\<rparr>, w1)"
  have h: "?h = (if initial \<noteq> [] then process_stream_data now initial ?st
      else if req_content_length request = 0 then stream_finish now ?st else ?st)"
    using assms(3-7) b(1) by (simp add: handle_upload_start_def Let_def)
  have rv: "w_recv w1 (cn_fd ?c) = map RecvData ps"
    using net_recv [OF begin_stream_net [OF b(1)]] assms(13) by (simp add: start_stream_def)
  have fd: "cn_fd ?c = cn_fd c" by (simp add: start_stream_def)
  show ?thesis
  proof (cases "initial = []")
    case True
    show ?thesis
    proof (cases "ps = []")
      case True
      then have "req_content_length request = 0" using \<open>initial = []\<close> assms(7,8) by (simp add: unat_eq_0)
      with h True \<open>initial = []\<close> e expected_finish [of "(?t, w)" "[]" ?c "s\<lparr>sv_transfer := t\<rparr>" w1 now] stream_reads_stopped
      show ?thesis by simp
    next
      case False
      then have "concat ps \<noteq> []" using assms(12) by (cases ps) (auto simp: pieces_ok_def)
      then have "req_content_length request \<noteq> 0" using assms(7,8) True by auto
      with h True have "?h = ?st" by simp
      with reads_complete [OF _ False assms(12) _ assms(14), of "(?t, w)" "[]" ?st] e rv True show ?thesis by simp
    qed
  next
    case init: False
    let ?q = "process_stream_data now initial ?st"
    have hq: "?h = ?q" using h init by simp
    note d = expected_data [OF e, of now]
    show ?thesis
    proof (cases "concat ps = []")
      case True
      with d hq stream_reads_stopped show ?thesis by auto
    next
      case False
      then have q: "expects (?t, w) ([] @ initial) (concat ps) ?q" "cn_fd (fst ?q) = cn_fd ?c" "ps \<noteq> []" using d by auto
      have "recv_of ?q (cn_fd (fst ?q)) = map RecvData ps" using rv q(2) by simp
      from reads_complete [OF q(1,3) assms(12) this assms(14)] hq show ?thesis by simp
    qed
  qed
qed

end
