(* ===== verification/Example_Session.thy ===== *)
theory Example_Session
  imports Protocol_Write Incoming_Transfer
begin

text \<open>
  Concrete data for the witnesses: a sender, its prepare-upload message for a two byte file, a card
  without faults, and the transfer that has been requested and then accepted on it.
\<close>

definition example_device :: LsDevice where
  "example_device =
     \<lparr>device_alias = ''Ada'', version = ''2.2'', device_model = ''PC'', device_type = LS_DEVICE_DESKTOP,
      fingerprint = ''f00d'', ip_address = [], port = 53317, protocol = LS_PROTOCOL_HTTP, download = False,
      announce = False, last_seen_ms = 0\<rparr>"

lemma example_device_wf: "device_message_wf example_device"
  by code_simp

definition example_ip :: string where
  "example_ip = ''10.0.0.2''"

definition example_json :: string where
  "example_json = request_text example_device ''id1'' ''a.txt'' 2 ''text/plain''"

definition example_request :: LsPrepareUploadRequest where
  "example_request =
     \<lparr>request_sender = received_device example_device False (Some example_ip),
      request_file = received_file ''id1'' ''a.txt'' 2 ''text/plain''\<rparr>"

lemma example_sendable: "sendable_file ''id1'' ''a.txt'' ''text/plain''"
  by code_simp

lemma example_parse: "ls_protocol_parse_prepare_upload example_json (Some example_ip) = Inr example_request"
  unfolding example_json_def example_request_def
  using request_roundtrip [OF example_device_wf example_sendable, of "Some example_ip" 2]
  by (simp add: example_ip_def)

text \<open>The messages fit the buffers of discovery and of the outgoing transfer.\<close>

lemmas message_texts = announcement_text_def request_text_def sender_text_def file_text_def text_parts
  json_text_def json_char_def example_device_def device_type_text_def protocol_text_def dec_big dec_small

lemma example_lengths:
  "length (announcement_text example_device) < 2048"
  "length (request_text example_device ''id1'' ''a.txt'' 2 ''text/plain'') < 3072"
  by (simp_all add: message_texts)

definition example_world :: world where
  "example_world =
     \<lparr>w_fs = Map.empty, w_io = [], w_random = [Some (replicate 16 1), Some (replicate 16 2)],
      w_accept = [], w_recv = (\<lambda>_. []), w_send = (\<lambda>_. []), w_wire = (\<lambda>_. []),
      w_closed = [], w_socket = [], w_connect = [], w_select = [], w_so_error = [], w_udp = [],
      w_tls_setup = [], w_tls = [], w_tls_seen = (\<lambda>_. []), w_tls_wire = (\<lambda>_. []), w_errno = 0\<rparr>"

definition example_waiting :: "LsIncomingTransfer \<times> world" where
  "example_waiting = snd (ls_transfer_begin_request example_request example_ip 1000 ls_transfer_init example_world)"

definition example_accepted :: "LsIncomingTransfer \<times> world" where
  "example_accepted = snd (ls_transfer_accept ''sdmc:/in'' 2000 (fst example_waiting) (snd example_waiting))"

lemma example_waiting_reachable: "transfer_reachable example_waiting"
proof -
  obtain ok t' w' where b: "ls_transfer_begin_request example_request example_ip 1000 ls_transfer_init example_world = (ok, t', w')"
    by (metis prod_cases3)
  from reach_step [OF reach_start step_request [OF example_parse b]] b show ?thesis
    by (simp add: example_waiting_def)
qed

lemma example_accepted_reachable: "transfer_reachable example_accepted"
proof -
  obtain ok t' w' where b: "ls_transfer_accept ''sdmc:/in'' 2000 (fst example_waiting) (snd example_waiting) = (ok, t', w')"
    by (metis prod_cases3)
  from reach_step [OF example_waiting_reachable, of _ "(t', w')"] step_accept [OF b] b show ?thesis
    by (simp add: example_accepted_def)
qed

text \<open>The evaluated session; one \<open>case\<close>, so that the acceptance runs once.\<close>

lemma example_accepted_eval:
  "case example_accepted of (t, w) \<Rightarrow>
     tr_state t = LS_TRANSFER_ACCEPTED \<and> tr_final_path t = ''sdmc:/in/a.txt'' \<and>
     tr_part_path t = ''sdmc:/in/a.txt.part'' \<and> tr_sender_ip t = ''10.0.0.2'' \<and>
     tr_session_id t = ''01010101-0101-4101-8101-010101010101'' \<and>
     tr_file_token t = ''02020202-0202-4202-8202-020202020202'' \<and>
     tr_file_metadata t = received_file ''id1'' ''a.txt'' 2 ''text/plain'' \<and> w_io w = [] \<and>
     w_fs w ''sdmc:/in/a.txt'' = None \<and> w_fs w ''sdmc:/in/a.txt.part'' = None"
  by code_simp

lemma example_accepted_props:
  "tr_state (fst example_accepted) = LS_TRANSFER_ACCEPTED"
  "tr_final_path (fst example_accepted) = ''sdmc:/in/a.txt''"
  "tr_part_path (fst example_accepted) = ''sdmc:/in/a.txt.part''"
  "tr_sender_ip (fst example_accepted) = ''10.0.0.2''"
  "tr_session_id (fst example_accepted) = ''01010101-0101-4101-8101-010101010101''"
  "tr_file_token (fst example_accepted) = ''02020202-0202-4202-8202-020202020202''"
  "tr_file_metadata (fst example_accepted) = received_file ''id1'' ''a.txt'' 2 ''text/plain''"
  "w_io (snd example_accepted) = []"
  "w_fs (snd example_accepted) ''sdmc:/in/a.txt'' = None"
  "w_fs (snd example_accepted) ''sdmc:/in/a.txt.part'' = None"
  using example_accepted_eval by (simp_all add: case_prod_beta)

end
