(* ===== verification/Example_Server.thy ===== *)
theory Example_Server
  imports Server_Invariant Upload_Progress Example_Session
begin

text \<open>
  Concrete servers for the witnesses: a started server on a card that holds a file, and a server whose
  accepted session is about to receive its upload.
\<close>

definition example_card :: world where
  "example_card = example_world\<lparr>w_fs := [''sdmc:/old.txt'' \<mapsto> FileNode ''keep''], w_socket := [Some 3],
     w_accept := [AcceptPeer 5 ''10.0.0.2'' True True]\<rparr>"

definition example_started :: server_state where
  "example_started = (case ls_http_server_start (zero_server [], example_card) of (_, s, w) \<Rightarrow> (s, [], w))"

lemma example_start: "\<exists>s w. ls_http_server_start (zero_server [], example_card) = (True, s, w) \<and> example_started = (s, [], w)"
  by (simp add: example_started_def ls_http_server_start_def ls_http_server_start_on_port_at_def example_card_def
      example_world_def do_socket_def do_net_def next_io_def set_nonblocking_def cap_defs Let_def)

lemma example_started_reachable: "server_reachable example_card example_started"
proof -
  obtain s w where e: "ls_http_server_start_on_port_at LS3DS_DOWNLOAD_DIRECTORY (zero_server [], example_card) = (True, s, w)"
    "example_started = (s, [], w)" using example_start by (auto simp: ls_http_server_start_def)
  from server_started [OF e(1), of "[]"] e(2) show ?thesis by simp
qed

lemma example_started_running: "sv_running (fst example_started)"
  by (simp add: example_started_def ls_http_server_start_def ls_http_server_start_on_port_at_def example_card_def
      example_world_def do_socket_def do_net_def next_io_def set_nonblocking_def cap_defs Let_def)

text \<open>The first poll accepts the waiting peer.\<close>

lemma example_accepts: "cn_fd (client (fst (ls_http_server_update example_device 9 example_started)) 0) = 5"
proof -
  let ?s = "(zero_server LS3DS_DOWNLOAD_DIRECTORY)\<lparr>sv_listen_fd := 3, sv_running := True\<rparr>"
  let ?w = "example_card\<lparr>w_socket := []\<rparr>"
  let ?c = "zero_connection\<lparr>cn_fd := 5, cn_peer_ip := ''10.0.0.2'', cn_last_activity_ms := 9\<rparr>"
  let ?s1 = "set_client 0 ?c (?s\<lparr>sv_accepted_connections := 1\<rparr>)"
  let ?w1 = "?w\<lparr>w_accept := []\<rparr>"
  have st: "example_started = (?s, [], ?w)"
    by (simp add: example_started_def ls_http_server_start_def ls_http_server_start_on_port_at_def example_card_def
      example_world_def do_socket_def do_net_def next_io_def set_nonblocking_def cap_defs Let_def fun_upd_idem)
  have free: "free_connection ?s = Some 0"
    by (simp add: free_connection_def zero_server_def upt_conv_Cons)
  have acc: "accept_connections 9 (?s, ?w) = (?s1, ?w1)"
    using free by (simp add: accept_connections_def numeral_eq_Suc do_accept_def example_card_def place_connection_def zero_server_def)
  have exp: "expire_session 9 (?s1, ?w1) = (?s1, ?w1)"
    by (simp add: expire_session_def session_expired_def zero_server_def ls_transfer_init_def set_client_def)
  have c: "sv_clients ?s1 = [?c, zero_connection, zero_connection, zero_connection]"
    by (simp add: set_client_def zero_server_def numeral_eq_Suc)
  have idle: "\<not> connection_expired 9 ?c" by (simp add: connection_expired_def connection_timeout_def)
  have rc: "do_recv 5 n ?w1 = (RecvAgain, ?w1)" for n
    by (simp add: do_recv_def example_card_def example_world_def)
  have u0: "update_connection example_device 9 0 (?s1, [], ?w1) = (?s1, [], ?w1)"
    using idle by (simp add: update_connection_def Let_def c read_request_def rc)
  have u: "update_connection example_device 9 i (?s1, [], ?w1) = (?s1, [], ?w1)" if "i \<in> {1, 2, 3}" for i
    using that by (auto simp: update_connection_def Let_def c)
  have "ls_http_server_update example_device 9 example_started = (?s1, [], ?w1)"
    using acc exp u0 u by (simp add: ls_http_server_update_def st on_slots_def upt_conv_Cons)
  then show ?thesis by (simp add: c)
qed

text \<open>The upload of the two bytes of the session of \<open>example_accepted\<close>.\<close>

definition example_upload_target :: string where
  "example_upload_target = ''/api/localsend/v2/upload?sessionId='' @ ''01010101-0101-4101-8101-010101010101'' @
     ''&fileId=id1&token='' @ ''02020202-0202-4202-8202-020202020202''"

definition example_upload_text :: string where
  "example_upload_text = ''POST '' @ example_upload_target @ '' HTTP/1.1'' @ CRLF @ ''Content-Length: 2'' @ CRLF @ CRLF"

definition example_upload_request :: ParsedRequest where
  "example_upload_request =
     \<lparr>req_method = ''POST'', req_target = example_upload_target, req_header_length = length example_upload_text,
      req_content_length = 2, req_has_content_length = True, req_chunked = False\<rparr>"

lemma example_upload_fields [simp]:
  "req_method example_upload_request = ''POST''" "req_target example_upload_request = example_upload_target"
  "req_content_length example_upload_request = 2" "req_has_content_length example_upload_request"
  "\<not> req_chunked example_upload_request"
  by (simp_all add: example_upload_request_def)

lemma example_upload_length: "length example_upload_text = 162"
  by (simp add: example_upload_text_def example_upload_target_def)

lemma example_upload_head: "find_header_end example_upload_text = length example_upload_text"
  unfolding example_upload_length by code_simp

lemma example_upload_parsed: "parse_request_headers example_upload_text = Some example_upload_request"
proof -
  let ?l = "''Content-Length: '' @ dec (unat (2 :: u64))"
  have t: "example_upload_text = request_head ''POST'' example_upload_target [?l]"
    by (simp add: request_head_def example_upload_text_def dec_small digit_char_def)
  show ?thesis unfolding t
  proof (rule parse_request_head)
    show "word_text ''POST''" "word_text example_upload_target" "length example_upload_target \<le> 767"
      by (simp_all add: word_text_def isspace_def nul_free_def example_upload_target_def)
    show "\<forall>l \<in> set [?l]. line_text l \<and> l \<noteq> []" by (simp add: dec_small digit_char_def)
    show "parse_all [?l] (\<lparr>req_method = ''POST'', req_target = example_upload_target,
        req_header_length = length (request_head ''POST'' example_upload_target [?l]), req_content_length = 0,
        req_has_content_length = False, req_chunked = False\<rparr>, False) = Some (example_upload_request, False)"
      using content_length_line [where n = 2] by (simp add: example_upload_request_def t)
  qed (simp_all add: example_upload_request_def)
qed

lemma example_upload_route: "route_path (req_target example_upload_request) 256 = Some ''/api/localsend/v2/upload''"
  unfolding example_upload_fields by code_simp

lemma example_upload_parameters:
  "upload_parameters example_upload_request =
     Some (''01010101-0101-4101-8101-010101010101'', ''id1'', ''02020202-0202-4202-8202-020202020202'')"
  unfolding example_upload_request_def example_upload_length by code_simp

lemma example_upload_short: "0 < length example_upload_text" "length example_upload_text \<le> 2048"
  by (simp_all add: example_upload_length)

definition example_connection :: LsHttpConnection where
  "example_connection = zero_connection\<lparr>cn_fd := 5, cn_peer_ip := ''10.0.0.2''\<rparr>"

lemma example_inv: "transfer_inv (fst example_accepted) (snd example_accepted)"
  using reachable_inv [of "fst example_accepted" "snd example_accepted"] example_accepted_reachable by simp

lemma example_upload_valid:
  "ls_transfer_validate_upload (fst example_accepted) ''10.0.0.2'' ''01010101-0101-4101-8101-010101010101'' ''id1''
     ''02020202-0202-4202-8202-020202020202''"
  using upload_authorised [OF example_inv] example_accepted_props by (simp add: received_file_def)

text \<open>The upload over the connection: one byte with the head, one in a piece of its own.\<close>

definition example_server :: LsHttpServer where
  "example_server = (zero_server ''sdmc:/in'')\<lparr>sv_running := True, sv_transfer := fst example_accepted,
     sv_clients := (replicate 4 zero_connection)[0 := example_connection]\<rparr>"

definition example_net :: "recv_answer list \<Rightarrow> world" where
  "example_net reads = (snd example_accepted)\<lparr>w_recv := (\<lambda>_. [])(5 := reads)\<rparr>"

lemma example_net_inv: "transfer_inv (sv_transfer example_server) (example_net reads)"
  using transfer_inv_fs [of "example_net reads" "snd example_accepted" "fst example_accepted"] example_inv
  by (simp add: example_server_def example_net_def)

lemma example_upload_completes:
  "tr_state (fst (transfer_of (stream_reads [3001] (handle_upload_start example_upload_request ''h'' 3000
     (example_connection, example_server, example_net [RecvData ''i'']))))) = LS_TRANSFER_COMPLETED"
proof (rule upload_reads_complete [OF example_net_inv _ example_upload_parameters, where ps = "[''i'']"])
  show "ls_transfer_validate_upload (sv_transfer example_server) (cn_peer_ip example_connection)
      ''01010101-0101-4101-8101-010101010101'' ''id1'' ''02020202-0202-4202-8202-020202020202''"
    using example_upload_valid by (simp add: example_server_def example_connection_def)
qed (use example_accepted_props in \<open>simp_all add: example_server_def example_net_def example_connection_def
      example_upload_request_def received_file_def pieces_ok_def\<close>)

lemma example_stream_begins:
  "\<exists>s r w. update_connection example_device 3000 0 (example_server, [], example_net [RecvData example_upload_text]) = (s, r, w) \<and>
     tr_state (sv_transfer s) = LS_TRANSFER_RECEIVING"
proof -
  let ?w = "example_net []"
  let ?c = "example_connection\<lparr>cn_rx := example_upload_text, cn_last_activity_ms := 3000\<rparr>"
  let ?s = "set_client 0 ?c example_server"
  let ?t = "fst example_accepted"
  have ex: "cn_rx example_connection = []" "cn_fd example_connection = 5" by (simp_all add: example_connection_def)
  have cl: "client example_server 0 = example_connection" "client ?s 0 = ?c" "sv_transfer ?s = ?t"
    by (simp_all add: example_server_def set_client_def)
  have rc: "do_recv 5 LS3DS_HTTP_RX_CAPACITY (example_net [RecvData example_upload_text]) = (RecvData example_upload_text, ?w)"
    using example_upload_short by (simp add: do_recv_def example_net_def)
  have "w_fs ?w = w_fs (snd example_accepted)" "w_io ?w = []" using example_accepted_props by (simp_all add: example_net_def)
  moreover have "tr_part_path ?t = ''sdmc:/in/a.txt.part''" "w_fs (snd example_accepted) ''sdmc:/in/a.txt.part'' = None"
    "tr_state ?t = LS_TRANSFER_ACCEPTED" "file_size (tr_file_metadata ?t) = 2"
    using example_accepted_props by (simp_all add: received_file_def)
  ultimately obtain t w where b: "ls_transfer_begin_stream (Some 2) 3000 ?t ?w = (True, t, w)"
    using begin_stream_succeeds [OF example_net_inv, of "[]" "Some 2" 3000] by (auto simp: example_server_def)
  have nf: "\<not> tr_file ?t" using example_inv example_accepted_props(1) by (simp add: transfer_inv_def)
  note ss = stream_success [OF b nf]
  have h: "handle_upload_start example_upload_request [] 3000 (?c, ?s, ?w) =
      (start_stream example_upload_request ?c, ?s\<lparr>sv_transfer := t\<rparr>, w)"
    using example_upload_parameters example_upload_valid b
    by (simp add: handle_upload_start_def cl Let_def) (simp add: example_connection_def)
  have d: "dispatch_request 0 example_device 3000 (?s, [], ?w) =
      on_slots (at_slot 0 (handle_upload_start example_upload_request [] 3000)) (?s, [], ?w)"
    using example_upload_short
    by (simp add: dispatch_request_def Let_def cl example_upload_head example_upload_parsed example_upload_route [simplified])
  have r: "read_request 0 example_device 3000 (example_server, [], example_net [RecvData example_upload_text]) =
      dispatch_request 0 example_device 3000 (?s, [], ?w)"
    using rc by (simp add: read_request_def Let_def cl(1) ex)
  have o: "on_slots (at_slot 0 (handle_upload_start example_upload_request [] 3000)) (?s, [], ?w) =
      (set_client 0 (start_stream example_upload_request ?c) (?s\<lparr>sv_transfer := t\<rparr>), [], w)"
    by (simp add: on_slots_def at_slot_def cl h)
  have m: "cn_mode example_connection = LS_HTTP_READING_REQUEST" by (simp add: example_connection_def)
  have n: "\<not> connection_expired 3000 example_connection"
    by (simp add: example_connection_def connection_expired_def connection_timeout_def zero_connection_def word_le_nat_alt)
  have ss2: "cn_mode (client (set_client 0 (start_stream example_upload_request ?c) (?s\<lparr>sv_transfer := t\<rparr>)) 0) =
      LS_HTTP_STREAMING_UPLOAD"
    by (simp add: set_client_def start_stream_def example_server_def)
  have "update_connection example_device 3000 0 (example_server, [], example_net [RecvData example_upload_text]) =
      (set_client 0 (start_stream example_upload_request ?c) (?s\<lparr>sv_transfer := t\<rparr>), [], w)"
    using n by (simp add: update_connection_def Let_def cl(1) r d o ex m ss2)
  moreover have "tr_state t = LS_TRANSFER_RECEIVING" unfolding ss(1) by simp
  ultimately show ?thesis by (simp add: set_client_def)
qed

end
