(* ===== verification/Http_Response.thy ===== *)
theory Http_Response
  imports Chunked_Coding
begin

text \<open>
  \<open>source/http_response.c\<close>: the client's incremental reader of a response. \<open>rs_raw\<close> holds the
  \<open>raw_length\<close> bytes fed (the terminator after them is implicit), \<open>rs_body\<close> the \<open>body_length\<close>
  bytes of the decoded body. An error leaves its message in \<open>rs_error\<close>. The lemmas show that the
  result does not depend on how the response is cut into reads, that every buffer stays in its
  bounds, and that the bodies the program itself writes or accepts are read back.
\<close>

definition [cap_defs, simp]: "LS3DS_HTTP_RESPONSE_BODY_CAPACITY = (4096 :: nat)"
definition [cap_defs, simp]: "LS3DS_HTTP_RESPONSE_RAW_CAPACITY = (2048 + 4096 + 256 :: nat)"

datatype LsHttpResponseResult =
  LS_HTTP_RESPONSE_NEED_MORE | LS_HTTP_RESPONSE_COMPLETE | LS_HTTP_RESPONSE_ERROR

datatype LsHttpResponseFraming =
  LS_HTTP_RESPONSE_CLOSE_DELIMITED | LS_HTTP_RESPONSE_CONTENT_LENGTH | LS_HTTP_RESPONSE_CHUNKED

record LsHttpResponse =
  rs_raw :: string
  rs_header_length :: nat
  rs_body :: string
  rs_content_length :: u64
  rs_status_code :: int
  rs_framing :: LsHttpResponseFraming
  rs_headers_parsed :: bool
  rs_complete :: bool
  rs_error :: string

definition response_set_error :: "string \<Rightarrow> LsHttpResponse \<Rightarrow> LsHttpResponse" where
  "response_set_error message response = response\<lparr>rs_error := take 95 message\<rparr>"

text \<open>\<open>find_bytes\<close>: the offset of the first occurrence; \<open>None\<close> stands for \<open>SIZE_MAX\<close>.\<close>

fun find_from :: "nat \<Rightarrow> string \<Rightarrow> string \<Rightarrow> nat option" where
  "find_from i wanted [] = None"
| "find_from i wanted (c # s) =
     (if take (length wanted) (c # s) = wanted then Some i else find_from (Suc i) wanted s)"

definition find_bytes :: "string \<Rightarrow> string \<Rightarrow> nat option" where
  "find_bytes data wanted =
     (if wanted = [] \<or> length wanted > length data then None else find_from 0 wanted data)"

text \<open>The copies of \<open>parse_u64\<close>, \<open>value_equals\<close> and \<open>hex_digit\<close> that this file has of its own.\<close>

definition response_parse_u64 :: "string \<Rightarrow> u64 option" where
  "response_parse_u64 s =
     (case dec_accum 0 0 (dropWhile is_blank s) of
        None \<Rightarrow> None
      | Some (parsed, digits, rest) \<Rightarrow>
          (if digits = 0 \<or> dropWhile is_blank rest \<noteq> [] then None else Some parsed))"

definition response_value_equals :: "string \<Rightarrow> string \<Rightarrow> bool" where
  "response_value_equals s expected \<longleftrightarrow> strcase_eq (trim s) expected"

definition response_hex_digit :: "char \<Rightarrow> nat option" where
  "response_hex_digit value =
     (if 48 \<le> byte value \<and> byte value \<le> 57 then Some (byte value - 48)
      else if 97 \<le> byte value \<and> byte value \<le> 102 then Some (byte value - 97 + 10)
      else if 65 \<le> byte value \<and> byte value \<le> 70 then Some (byte value - 65 + 10)
      else None)"

text \<open>
  \<open>sscanf(status_line, "%15s %d %63[^\r\n]%c", ...) == 3\<close>. The \<open>int\<close> of \<open>%d\<close> saturates, as the
  console's C library has it.
\<close>

definition scan_int :: "string \<Rightarrow> (int \<times> string) option" where
  "scan_int s =
     (let s = dropWhile isspace s;
          negative = (s \<noteq> [] \<and> hd s = CHR ''-'');
          s = (if s \<noteq> [] \<and> (hd s = CHR ''-'' \<or> hd s = CHR ''+'') then tl s else s);
          ds = takeWhile isdigit s;
          n = foldl (\<lambda>n d. n * 10 + int (digit_val d)) 0 ds
      in if ds = [] then None
         else Some (max (- (2 ^ 31)) (min (2 ^ 31 - 1) (if negative then - n else n)), drop (length ds) s))"

definition scan_status_line :: "string \<Rightarrow> (string \<times> int) option" where
  "scan_status_line s =
     (case scan_word 15 s of
        None \<Rightarrow> None
      | Some (version, s) \<Rightarrow>
          (case scan_int s of
             None \<Rightarrow> None
           | Some (status, s) \<Rightarrow>
               (let s = dropWhile isspace s;
                    reason = take 63 (takeWhile (\<lambda>c. c \<noteq> CR \<and> c \<noteq> LF) s)
                in if reason = [] \<or> drop (length reason) s \<noteq> [] then None
                   else Some (version, status))))"

text \<open>The loop over the header lines; the flags are \<open>have_length\<close> and \<open>have_encoding\<close>.\<close>

definition response_header_line ::
    "string \<Rightarrow> LsHttpResponse \<times> bool \<times> bool \<Rightarrow> string + (LsHttpResponse \<times> bool \<times> bool)" where
  "response_header_line line = (\<lambda>(response, have_length, have_encoding).
     (let name = takeWhile (\<lambda>c. c \<noteq> CHR '':'') line in
      case dropWhile (\<lambda>c. c \<noteq> CHR '':'') line of
        [] \<Rightarrow> Inl ''Malformed HTTP header''
      | _ # value \<Rightarrow>
          (if length name = length ''Content-Length'' \<and> strcase_eq name ''Content-Length'' then
             (if have_length then Inl ''Invalid Content-Length''
              else case response_parse_u64 value of
                None \<Rightarrow> Inl ''Invalid Content-Length''
              | Some n \<Rightarrow> Inr (response\<lparr>rs_content_length := n\<rparr>, True, have_encoding))
           else if length name = length ''Transfer-Encoding'' \<and> strcase_eq name ''Transfer-Encoding'' then
             (if have_encoding \<or> \<not> response_value_equals value ''chunked'' then Inl ''Unsupported Transfer-Encoding''
              else Inr (response, have_length, True))
           else Inr (response, have_length, have_encoding))))"

function response_header_lines ::
    "string \<Rightarrow> LsHttpResponse \<times> bool \<times> bool \<Rightarrow> LsHttpResponse \<times> (string + (bool \<times> bool))" where
  "response_header_lines s st =
     (if length s \<le> 2 then (fst st, Inr (snd st))
      else case split_line s of
        None \<Rightarrow> (fst st, Inl ''Malformed HTTP headers'')
      | Some (line, rest) \<Rightarrow>
          (if line = [] then (fst st, Inr (snd st))
           else case response_header_line line st of
             Inl e \<Rightarrow> (fst st, Inl e)
           | Inr st \<Rightarrow> response_header_lines rest st))"
  by pat_completeness auto
termination
  by (relation "measure (\<lambda>(s, _). length s)") (auto dest: split_line_length)

declare response_header_lines.simps [simp del]

definition settle_framing :: "bool \<times> bool \<Rightarrow> LsHttpResponse \<Rightarrow> LsHttpResponse \<times> bool" where
  "settle_framing = (\<lambda>(have_length, have_encoding) response.
     (if have_length \<and> have_encoding
      then (response_set_error ''Ambiguous HTTP response framing'' response, False)
      else
        (let response = response\<lparr>rs_framing :=
               (if have_length then LS_HTTP_RESPONSE_CONTENT_LENGTH
                else if have_encoding then LS_HTTP_RESPONSE_CHUNKED
                else LS_HTTP_RESPONSE_CLOSE_DELIMITED)\<rparr> in
         if unat (rs_content_length response) > LS3DS_HTTP_RESPONSE_BODY_CAPACITY
         then (response_set_error ''HTTP response body too large'' response, False)
         else (response\<lparr>rs_headers_parsed := True\<rparr>, True))))"

definition response_parse_headers :: "LsHttpResponse \<Rightarrow> LsHttpResponse \<times> bool" where
  "response_parse_headers response =
     (case split_line (take (rs_header_length response) (rs_raw response)) of
        None \<Rightarrow> (response_set_error ''Malformed HTTP status line'' response, False)
      | Some (status_line, rest) \<Rightarrow>
          (if status_line = [] \<or> length status_line \<ge> 128
           then (response_set_error ''Malformed HTTP status line'' response, False)
           else case scan_status_line status_line of
             None \<Rightarrow> (response_set_error ''Malformed HTTP status line'' response, False)
           | Some (version, status) \<Rightarrow>
               (if version \<noteq> ''HTTP/1.1'' \<and> version \<noteq> ''HTTP/1.0'' \<or> status < 100 \<or> status > 599
                then (response_set_error ''Malformed HTTP status line'' response, False)
                else case response_header_lines rest (response\<lparr>rs_status_code := status\<rparr>, False, False) of
                  (response, Inl e) \<Rightarrow> (response_set_error e response, False)
                | (response, Inr flags) \<Rightarrow> settle_framing flags response)))"

text \<open>The size of a chunk: its value, the number of digits and what follows them on the line.\<close>

fun response_chunk_size :: "u64 \<Rightarrow> nat \<Rightarrow> string \<Rightarrow> (u64 \<times> nat \<times> string) option" where
  "response_chunk_size chunk_size digit_count [] = Some (chunk_size, digit_count, [])"
| "response_chunk_size chunk_size digit_count (c # s) =
     (case response_hex_digit c of
        None \<Rightarrow> Some (chunk_size, digit_count, c # s)
      | Some digit \<Rightarrow>
          (if chunk_size > (- 1 - of_nat digit) div 16 then None
           else response_chunk_size (chunk_size * 16 + of_nat digit) (Suc digit_count) s))"

text \<open>
  The loop of \<open>decode_chunked\<close> on the bytes from \<open>cursor\<close> on, with the body so far: an error, more
  input needed, or the whole body. \<open>SIZE_MAX\<close> is that of the console, 32 bits.
\<close>

function decode_chunks :: "string \<Rightarrow> string \<Rightarrow> string + string option" where
  "decode_chunks data body =
     (if data = [] then Inr None
      else case find_bytes data [CR, LF] of
        None \<Rightarrow> Inr None
      | Some line_end \<Rightarrow>
          (case response_chunk_size 0 0 (take line_end data) of
             None \<Rightarrow> Inl ''Chunk size overflow''
           | Some (chunk_size, digit_count, rest) \<Rightarrow>
               (if digit_count = 0 \<or> (rest \<noteq> [] \<and> hd rest \<noteq> CHR '';'') then Inl ''Malformed chunk size''
                else
                  (let after = drop (line_end + 2) data in
                   if chunk_size = 0 then
                     (if take 2 after = [CR, LF] then
                        (if length after \<noteq> 2 then Inl ''Data follows final HTTP chunk'' else Inr (Some body))
                      else case find_bytes after [CR, LF, CR, LF] of
                        None \<Rightarrow> Inr None
                      | Some trailer_end \<Rightarrow>
                          (if trailer_end + 4 \<noteq> length after then Inl ''Data follows HTTP chunk trailers''
                           else Inr (Some body)))
                   else if unat chunk_size > LS3DS_HTTP_RESPONSE_BODY_CAPACITY - length body
                   then Inl ''Chunked response body too large''
                   else if unat chunk_size > 2 ^ 32 - 1 - 2 \<or> length after < unat chunk_size + 2 then Inr None
                   else if take 2 (drop (unat chunk_size) after) \<noteq> [CR, LF] then Inl ''Malformed chunk terminator''
                   else decode_chunks (drop (unat chunk_size + 2) after) (body @ take (unat chunk_size) after)))))"
  by pat_completeness auto
termination
  by (relation "measure (\<lambda>(data, _). length data)") auto

declare decode_chunks.simps [simp del]

definition response_completed :: "string \<Rightarrow> LsHttpResponse \<Rightarrow> LsHttpResponse" where
  "response_completed body response = response\<lparr>rs_body := body, rs_complete := True\<rparr>"

definition decode_chunked :: "LsHttpResponse \<Rightarrow> LsHttpResponse \<times> LsHttpResponseResult" where
  "decode_chunked response =
     (case decode_chunks (drop (rs_header_length response) (rs_raw response)) [] of
        Inl e \<Rightarrow> (response_set_error e response, LS_HTTP_RESPONSE_ERROR)
      | Inr None \<Rightarrow> (response, LS_HTTP_RESPONSE_NEED_MORE)
      | Inr (Some body) \<Rightarrow> (response_completed body response, LS_HTTP_RESPONSE_COMPLETE))"

definition evaluate_body :: "LsHttpResponse \<Rightarrow> LsHttpResponse \<times> LsHttpResponseResult" where
  "evaluate_body response =
     (let available = drop (rs_header_length response) (rs_raw response) in
      case rs_framing response of
        LS_HTTP_RESPONSE_CONTENT_LENGTH \<Rightarrow>
          (if length available < unat (rs_content_length response)
           then (response, LS_HTTP_RESPONSE_NEED_MORE)
           else if length available \<noteq> unat (rs_content_length response)
           then (response_set_error ''HTTP response exceeds Content-Length'' response, LS_HTTP_RESPONSE_ERROR)
           else (response_completed available response, LS_HTTP_RESPONSE_COMPLETE))
      | LS_HTTP_RESPONSE_CHUNKED \<Rightarrow> decode_chunked response
      | LS_HTTP_RESPONSE_CLOSE_DELIMITED \<Rightarrow> (response, LS_HTTP_RESPONSE_NEED_MORE))"

definition without_body :: "LsHttpResponse \<Rightarrow> bool" where
  "without_body response \<longleftrightarrow>
     (rs_status_code response = 204 \<or> rs_status_code response = 304 \<or>
      100 \<le> rs_status_code response \<and> rs_status_code response < 200) \<and>
     rs_framing response = LS_HTTP_RESPONSE_CLOSE_DELIMITED"

definition evaluate :: "LsHttpResponse \<Rightarrow> LsHttpResponse \<times> LsHttpResponseResult" where
  "evaluate response =
     (if rs_headers_parsed response then evaluate_body response
      else case find_bytes (rs_raw response) [CR, LF, CR, LF] of
        None \<Rightarrow>
          (if length (rs_raw response) > LS3DS_MAX_HTTP_HEADER_SIZE
           then (response_set_error ''HTTP response headers too large'' response, LS_HTTP_RESPONSE_ERROR)
           else (response, LS_HTTP_RESPONSE_NEED_MORE))
      | Some header_offset \<Rightarrow>
          (case response_parse_headers (response\<lparr>rs_header_length := header_offset + 4\<rparr>) of
             (response, False) \<Rightarrow> (response, LS_HTTP_RESPONSE_ERROR)
           | (response, True) \<Rightarrow>
               (if without_body response then (response_completed [] response, LS_HTTP_RESPONSE_COMPLETE)
                else evaluate_body response)))"

definition ls_http_response_init :: LsHttpResponse where
  "ls_http_response_init =
     \<lparr>rs_raw = [], rs_header_length = 0, rs_body = [], rs_content_length = 0, rs_status_code = 0,
      rs_framing = LS_HTTP_RESPONSE_CLOSE_DELIMITED, rs_headers_parsed = False, rs_complete = False,
      rs_error = []\<rparr>"

definition ls_http_response_feed :: "LsHttpResponse \<Rightarrow> string \<Rightarrow> LsHttpResponse \<times> LsHttpResponseResult" where
  "ls_http_response_feed response data =
     (if rs_complete response then (response, LS_HTTP_RESPONSE_ERROR)
      else if length data > LS3DS_HTTP_RESPONSE_RAW_CAPACITY - 1 - length (rs_raw response)
      then (response_set_error ''HTTP response exceeds configured limit'' response, LS_HTTP_RESPONSE_ERROR)
      else evaluate (response\<lparr>rs_raw := rs_raw response @ data\<rparr>))"

definition ls_http_response_finish :: "LsHttpResponse \<Rightarrow> LsHttpResponse \<times> LsHttpResponseResult" where
  "ls_http_response_finish response =
     (case evaluate response of
        (response, LS_HTTP_RESPONSE_NEED_MORE) \<Rightarrow>
          (if \<not> rs_headers_parsed response \<or> rs_framing response \<noteq> LS_HTTP_RESPONSE_CLOSE_DELIMITED
           then (response_set_error ''HTTP connection closed before complete response'' response, LS_HTTP_RESPONSE_ERROR)
           else
             (let body = drop (rs_header_length response) (rs_raw response) in
              if length body > LS3DS_HTTP_RESPONSE_BODY_CAPACITY
              then (response_set_error ''HTTP response body too large'' response, LS_HTTP_RESPONSE_ERROR)
              else (response_completed body response, LS_HTTP_RESPONSE_COMPLETE)))
      | other \<Rightarrow> other)"

section \<open>Finding bytes\<close>

lemma take_eq_length: "take (length w) s = w \<Longrightarrow> length w \<le> length s"
  by (metis length_take min.cobounded1 min.commute)

lemma find_from_Some:
  "find_from k w s = Some i \<Longrightarrow> w \<noteq> [] \<Longrightarrow>
     k \<le> i \<and> take (length w) (drop (i - k) s) = w \<and> (\<forall>j < i - k. take (length w) (drop j s) \<noteq> w)"
proof (induction k w s rule: find_from.induct)
  case (2 k w c s)
  show ?case
  proof (cases "take (length w) (c # s) = w")
    case False
    with "2.prems" "2.IH" have h: "Suc k \<le> i" "take (length w) (drop (i - Suc k) s) = w"
      "\<forall>j < i - Suc k. take (length w) (drop j s) \<noteq> w" by auto
    have "take (length w) (drop j (c # s)) \<noteq> w" if "j < i - k" for j
      using that h(3) False by (cases j) auto
    moreover from h(1) have "i - k = Suc (i - Suc k)" by simp
    ultimately show ?thesis using h by simp
  qed (use "2.prems" in auto)
qed simp

lemma find_from_None: "find_from k w s = None \<Longrightarrow> w \<noteq> [] \<Longrightarrow> take (length w) (drop j s) \<noteq> w"
proof (induction k w s arbitrary: j rule: find_from.induct)
  case (2 k w c s)
  then show ?case by (cases j) (auto split: if_splits)
qed simp

lemma find_bytes_eq:
  assumes "w \<noteq> []"
  shows "find_bytes s w = Some i \<longleftrightarrow> take (length w) (drop i s) = w \<and> (\<forall>j < i. take (length w) (drop j s) \<noteq> w)"
    (is "_ \<longleftrightarrow> ?r i")
proof
  assume "find_bytes s w = Some i"
  with assms find_from_Some [of 0 w s i] show "?r i" by (auto simp: find_bytes_def split: if_splits)
next
  assume r: "?r i"
  then have len: "\<not> length w > length s"
    using take_eq_length [of w "drop i s"] by auto
  obtain i' where i': "find_from 0 w s = Some i'"
    using find_from_None [of 0 w s i] r assms by (cases "find_from 0 w s") auto
  with find_from_Some [OF i' assms] have "?r i'" by simp
  with r have "i' = i" by (metis linorder_neqE_nat)
  with i' len assms show "find_bytes s w = Some i" by (simp add: find_bytes_def)
qed

lemma find_bytes_None:
  assumes "w \<noteq> []"
  shows "find_bytes s w = None \<longleftrightarrow> (\<forall>j. take (length w) (drop j s) \<noteq> w)"
  using find_bytes_eq [OF assms, of s] find_from_None [of 0 w s]
  by (metis assms not_None_eq find_bytes_def take_eq_length length_drop diff_le_self le_trans not_le)

lemma find_bytes_length: "find_bytes s w = Some i \<Longrightarrow> i + length w \<le> length s \<and> w \<noteq> []"
proof -
  assume f: "find_bytes s w = Some i"
  then have w: "w \<noteq> []" by (auto simp: find_bytes_def)
  from f w have "take (length w) (drop i s) = w" by (simp add: find_bytes_eq)
  from take_eq_length [OF this] w show ?thesis by (cases w) auto
qed

lemma find_bytes_more: "find_bytes s w = Some i \<Longrightarrow> find_bytes (s @ t) w = Some i"
proof -
  assume f: "find_bytes s w = Some i"
  from find_bytes_length [OF f] have l: "i + length w \<le> length s" and w: "w \<noteq> []" by auto
  from f w have "take (length w) (drop j (s @ t)) = take (length w) (drop j s)" if "j \<le> i" for j
    using that l by simp
  with f w show ?thesis by (simp add: find_bytes_eq del: drop_append take_append)
qed

lemma find_header_end_bytes:
  "find_bytes s END_OF_HEADERS = (if find_header_end s = 0 then None else Some (find_header_end s - 4))"
proof (cases "find_bytes s END_OF_HEADERS")
  case None
  have "find_header_end s = 0"
    using find_header_end_spec [of s "find_header_end s"] find_bytes_None [of END_OF_HEADERS s] None
    by (auto simp: numeral_eq_Suc)
  with None show ?thesis by simp
next
  case (Some i)
  have "find_header_end s = i + 4"
    using find_header_end_spec [of s "i + 4"] Some find_bytes_length [OF Some]
    by (simp add: find_bytes_eq numeral_eq_Suc)
  with Some show ?thesis by simp
qed

section \<open>Reading in pieces\<close>

abbreviation fed :: "LsHttpResponse \<Rightarrow> string \<Rightarrow> LsHttpResponse" where
  "fed r b \<equiv> r\<lparr>rs_raw := rs_raw r @ b\<rparr>"

lemma evaluate_body_state:
  "evaluate_body r = (s, LS_HTTP_RESPONSE_NEED_MORE) \<Longrightarrow> s = r"
  by (auto simp: evaluate_body_def decode_chunked_def Let_def
        split: LsHttpResponseFraming.splits if_splits sum.splits option.splits)

lemma header_line_none:
  "CHR '':'' \<notin> set l \<Longrightarrow> response_header_line l (r, f) = Inl ''Malformed HTTP header''"
proof -
  assume "CHR '':'' \<notin> set l"
  then have d: "dropWhile (\<lambda>c. c \<noteq> CHR '':'') l = []" by auto
  show ?thesis by (cases f, simp only: response_header_line_def Let_def d list.case prod.case)
qed

lemma header_line_some:
  assumes "dropWhile (\<lambda>c. c \<noteq> CHR '':'') l = c # v"
  shows "response_header_line l (r, a, b) =
      (if header_named ''Content-Length'' l then
        (if a then Inl ''Invalid Content-Length''
         else case response_parse_u64 v of
           None \<Rightarrow> Inl ''Invalid Content-Length''
         | Some n \<Rightarrow> Inr (r\<lparr>rs_content_length := n\<rparr>, True, b))
      else if header_named ''Transfer-Encoding'' l then
        (if b \<or> \<not> response_value_equals v ''chunked''
         then Inl ''Unsupported Transfer-Encoding'' else Inr (r, a, True))
      else Inr (r, a, b))"
proof -
  have n: "(length x = length y \<and> strcase_eq x y) = strcase_eq x y" for x y
    using strcase_eq_length by blast
  show ?thesis
    by (simp only: response_header_line_def Let_def assms list.case prod.case n header_named_def)
qed

lemma header_line_raw:
  "response_header_line l (r\<lparr>rs_raw := x\<rparr>, f) =
     (case response_header_line l (r, f) of Inl e \<Rightarrow> Inl e | Inr (s, g) \<Rightarrow> Inr (s\<lparr>rs_raw := x\<rparr>, g))"
proof (cases "CHR '':'' \<in> set l")
  case True
  then obtain c v where "dropWhile (\<lambda>c. c \<noteq> CHR '':'') l = c # v"
    by (cases "dropWhile (\<lambda>c. c \<noteq> CHR '':'') l") auto
  note e = header_line_some [OF this]
  show ?thesis by (cases f) (simp add: e split: option.split)
qed (simp add: header_line_none)

lemma header_lines_end:
  assumes "length t \<le> 2 \<or> split_line t = None \<or> (\<exists>rest. split_line t = Some ([], rest))"
  shows "response_header_lines t st =
    (fst st, if 2 < length t \<and> split_line t = None then Inl ''Malformed HTTP headers'' else Inr (snd st))"
  using assms by (subst response_header_lines.simps) (auto split: option.split)

lemma header_lines_step:
  assumes "\<not> length t \<le> 2" and "split_line t = Some (l, rest)" and "l \<noteq> []"
  shows "response_header_lines t st =
    (case response_header_line l st of Inl e \<Rightarrow> (fst st, Inl e) | Inr st \<Rightarrow> response_header_lines rest st)"
  using assms by (subst response_header_lines.simps) simp

lemma header_lines_raw:
  "response_header_lines t (r\<lparr>rs_raw := x\<rparr>, f) =
     (case response_header_lines t (r, f) of (s, g) \<Rightarrow> (s\<lparr>rs_raw := x\<rparr>, g))"
proof (induction t "(r, f)" arbitrary: r f rule: response_header_lines.induct)
  case (1 t r f)
  show ?case
  proof (cases "length t \<le> 2 \<or> split_line t = None \<or> (\<exists>rest. split_line t = Some ([], rest))")
    case True
    show ?thesis unfolding header_lines_end [OF True] by simp
  next
    case False
    then obtain l rest where l: "\<not> length t \<le> 2" "split_line t = Some (l, rest)" "l \<noteq> []"
      by (cases "split_line t") auto
    show ?thesis
    proof (cases "response_header_line l (r, f)")
      case (Inr st)
      obtain s g where st: "st = (s, g)" by (cases st)
      from "1" [OF l(1,2) refl l(3) Inr [unfolded st]] l Inr st header_line_raw [of l x r f]
      show ?thesis by (simp add: header_lines_step [OF l])
    qed (use header_line_raw [of l x r f] in \<open>simp add: header_lines_step [OF l]\<close>)
  qed
qed

lemma settle_framing_raw:
  "settle_framing f (r\<lparr>rs_raw := x\<rparr>) = (case settle_framing f r of (s, ok) \<Rightarrow> (s\<lparr>rs_raw := x\<rparr>, ok))"
  by (cases f) (simp add: settle_framing_def response_set_error_def Let_def)

lemma set_error_raw: "response_set_error e (r\<lparr>rs_raw := x\<rparr>) = (response_set_error e r)\<lparr>rs_raw := x\<rparr>"
  by (simp add: response_set_error_def)

lemma parse_headers_raw:
  assumes "rs_header_length r \<le> length (rs_raw r)"
  shows "response_parse_headers (fed r b) =
     (case response_parse_headers r of (s, ok) \<Rightarrow> (s\<lparr>rs_raw := rs_raw r @ b\<rparr>, ok))"
proof -
  have c: "r\<lparr>rs_raw := x, rs_status_code := n\<rparr> = r\<lparr>rs_status_code := n\<rparr>\<lparr>rs_raw := x\<rparr>" for x n by simp
  from assms have t: "take (rs_header_length (fed r b)) (rs_raw (fed r b)) = take (rs_header_length r) (rs_raw r)"
    by simp
  show ?thesis
    unfolding response_parse_headers_def t c header_lines_raw
    by (simp add: set_error_raw settle_framing_raw del: LsHttpResponse.update_convs
          split: option.split prod.split sum.split)
qed

lemma same_content_length: "\<exists>n. r = r\<lparr>rs_content_length := n\<rparr>"
  by (rule exI [of _ "rs_content_length r"]) simp

lemma header_line_keeps:
  assumes "response_header_line l (r, f) = Inr (s, g)"
  shows "\<exists>n. s = r\<lparr>rs_content_length := n\<rparr>"
proof (cases "CHR '':'' \<in> set l")
  case True
  then obtain c v where "dropWhile (\<lambda>c. c \<noteq> CHR '':'') l = c # v"
    by (cases "dropWhile (\<lambda>c. c \<noteq> CHR '':'') l") auto
  note e = header_line_some [OF this]
  from assms show ?thesis by (cases f) (auto simp: e same_content_length split: option.splits if_splits)
qed (use assms in \<open>simp add: header_line_none\<close>)

lemma header_lines_keep:
  "response_header_lines t (r, f) = (s, g) \<Longrightarrow> \<exists>n. s = r\<lparr>rs_content_length := n\<rparr>"
proof (induction t "(r, f)" arbitrary: r f rule: response_header_lines.induct)
  case (1 t r f)
  show ?case
  proof (cases "length t \<le> 2 \<or> split_line t = None \<or> (\<exists>rest. split_line t = Some ([], rest))")
    case True
    from "1.prems" have "s = r" unfolding header_lines_end [OF True] by simp
    then show ?thesis by (intro exI [of _ "rs_content_length r"]) simp
  next
    case False
    then obtain l rest where l: "\<not> length t \<le> 2" "split_line t = Some (l, rest)" "l \<noteq> []"
      by (cases "split_line t") auto
    show ?thesis
    proof (cases "response_header_line l (r, f)")
      case (Inr st)
      obtain s1 g1 where st: "st = (s1, g1)" by (cases st)
      from "1.prems" l Inr st have "response_header_lines rest (s1, g1) = (s, g)"
        by (simp add: header_lines_step [OF l])
      from "1.hyps" [OF l(1,2) refl l(3) Inr [unfolded st] this] header_line_keeps [of l r f s1 g1] Inr st
      show ?thesis by auto
    qed (use "1.prems" in \<open>auto simp: header_lines_step [OF l] intro: exI [of _ "rs_content_length r"]\<close>)
  qed
qed

text \<open>What the parser of the headers leaves alone, and what it has checked when it succeeds.\<close>

lemma parse_headers_cases:
  assumes "response_parse_headers r = (s, ok)"
  obtains (error) m u n l where "s = response_set_error m u" "\<not> ok"
      "u = r\<lparr>rs_status_code := n, rs_content_length := l\<rparr>"
  | (settled) f u n l where "settle_framing f u = (s, ok)" "100 \<le> n" "n \<le> 599"
      "u = r\<lparr>rs_status_code := n, rs_content_length := l\<rparr>"
proof -
  have same: "r = r\<lparr>rs_status_code := rs_status_code r, rs_content_length := rs_content_length r\<rparr>" by simp
  note e1 = error [OF _ _ same]
  have e2: thesis if "response_header_lines t (r\<lparr>rs_status_code := n\<rparr>, f) = (u, Inl e)"
      "s = response_set_error e u" "\<not> ok" for t n f u e
    using header_lines_keep [OF that(1)] that(2,3) error by auto
  have e3: thesis if "response_header_lines t (r\<lparr>rs_status_code := n\<rparr>, f) = (u, Inr g)"
      "settle_framing g u = (s, ok)" "100 \<le> n" "n \<le> 599" for t n f u g
    using header_lines_keep [OF that(1)] that(2-4) settled [of g] by auto
  from assms show thesis
    unfolding response_parse_headers_def
    by (auto split: option.splits prod.splits sum.splits if_splits intro: e1 e2 e3)
qed

lemma parse_headers_keep:
  assumes "response_parse_headers r = (s, ok)"
  shows "rs_raw s = rs_raw r \<and> rs_header_length s = rs_header_length r \<and> rs_body s = rs_body r \<and>
     rs_complete s = rs_complete r \<and>
     (ok \<longrightarrow> rs_headers_parsed s \<and> rs_error s = rs_error r \<and> 100 \<le> rs_status_code s \<and> rs_status_code s \<le> 599 \<and>
        unat (rs_content_length s) \<le> 4096) \<and>
     (\<not> ok \<longrightarrow> rs_headers_parsed s = rs_headers_parsed r \<and> length (rs_error s) \<le> 95)"
  using assms
proof (cases rule: parse_headers_cases)
  case (settled f u n l)
  then show ?thesis
    by (cases f) (auto simp: settle_framing_def response_set_error_def Let_def split: if_splits)
qed (simp add: response_set_error_def)

lemma response_feed_pieces:
  assumes "ls_http_response_feed r a = (s, LS_HTTP_RESPONSE_NEED_MORE)"
    and "length (rs_raw r) + length a + length b < LS3DS_HTTP_RESPONSE_RAW_CAPACITY"
  shows "ls_http_response_feed s b = ls_http_response_feed r (a @ b)"
proof -
  let ?r = "fed r a"
  from assms have c: "\<not> rs_complete r" and e: "evaluate ?r = (s, LS_HTTP_RESPONSE_NEED_MORE)"
    by (auto simp: ls_http_response_feed_def split: if_splits)
  have all: "\<not> rs_complete s \<and> rs_raw s = rs_raw ?r \<and> evaluate (fed s b) = evaluate (fed ?r b)"
  proof (cases "rs_headers_parsed ?r")
    case True
    with e have "s = ?r" by (intro evaluate_body_state) (simp add: evaluate_def)
    with c show ?thesis by simp
  next
    case False
    show ?thesis
    proof (cases "find_bytes (rs_raw ?r) END_OF_HEADERS")
      case None
      with False e have "s = ?r" by (auto simp: evaluate_def split: if_splits)
      with c show ?thesis by simp
    next
      case (Some i)
      let ?h = "?r\<lparr>rs_header_length := i + 4\<rparr>"
      from find_bytes_length [OF Some] have l: "rs_header_length ?h \<le> length (rs_raw ?h)" by simp
      from False Some e obtain p where p: "response_parse_headers ?h = (p, True)" "\<not> without_body p"
        "evaluate_body p = (s, LS_HTTP_RESPONSE_NEED_MORE)"
        by (auto simp: evaluate_def split: prod.splits bool.splits if_splits)
      from evaluate_body_state [OF p(3)] have s: "s = p" .
      from parse_headers_keep [OF p(1)] c have k: "rs_raw p = rs_raw ?r" "\<not> rs_complete p" "rs_headers_parsed p" by simp_all
      obtain x where x: "x = fed ?r b" by simp
      have "x\<lparr>rs_header_length := i + 4\<rparr> = fed ?h b" by (simp add: x)
      with parse_headers_raw [OF l, of b] p(1) k
      have "response_parse_headers (x\<lparr>rs_header_length := i + 4\<rparr>) = (fed p b, True)" by simp
      moreover have "\<not> rs_headers_parsed x" "find_bytes (rs_raw x) END_OF_HEADERS = Some i"
        using find_bytes_more [OF Some, of b] False by (simp_all add: x)
      moreover have "\<not> without_body (fed p b)" using p(2) by (simp add: without_body_def)
      ultimately have "evaluate x = evaluate_body (fed p b)" by (simp add: evaluate_def)
      then have "evaluate (fed ?r b) = evaluate_body (fed p b)" by (simp only: x)
      with k s show ?thesis by (simp add: evaluate_def)
    qed
  qed
  note h = conjunct1 [OF all] conjunct1 [OF conjunct2 [OF all]] conjunct2 [OF conjunct2 [OF all]]
  from h(2) have "s\<lparr>rs_raw := rs_raw r @ a @ b\<rparr> = fed s b" by simp
  also have "evaluate \<dots> = evaluate (fed ?r b)" by (rule h(3))
  also have "fed ?r b = fed r (a @ b)" by simp
  finally have "evaluate (s\<lparr>rs_raw := rs_raw r @ a @ b\<rparr>) = evaluate (fed r (a @ b))" .
  with c h(1,2) assms(2) show ?thesis by (auto simp: ls_http_response_feed_def)
qed

section \<open>Bounds\<close>

definition response_ok :: "LsHttpResponse \<Rightarrow> bool" where
  "response_ok r \<longleftrightarrow>
     length (rs_raw r) < LS3DS_HTTP_RESPONSE_RAW_CAPACITY \<and> rs_header_length r \<le> length (rs_raw r) \<and>
     length (rs_body r) \<le> LS3DS_HTTP_RESPONSE_BODY_CAPACITY \<and> length (rs_error r) \<le> 95 \<and>
     (rs_headers_parsed r \<longrightarrow> 100 \<le> rs_status_code r \<and> rs_status_code r \<le> 599 \<and>
        unat (rs_content_length r) \<le> LS3DS_HTTP_RESPONSE_BODY_CAPACITY) \<and>
     (rs_complete r \<longrightarrow> rs_headers_parsed r)"

lemma decode_chunks_Some:
  assumes "decode_chunks data body = Inr (Some b)" and "b \<noteq> body"
  shows "\<exists>rest d. decode_chunks rest (body @ d) = Inr (Some b) \<and> length rest < length data \<and> length d \<le> 4096 - length body"
proof -
  have r: ?thesis if "decode_chunks rest (body @ d) = Inr (Some b)" "length rest < length data" "length d \<le> 4096 - length body" for rest d
    using that by blast
  from assms show ?thesis
    by (subst (asm) decode_chunks.simps)
       (auto simp: Let_def split: option.splits prod.splits if_splits elim!: r)
qed

lemma decode_chunks_bound:
  "decode_chunks data body = Inr (Some b) \<Longrightarrow> length body \<le> 4096 \<Longrightarrow> length b \<le> 4096"
proof (induction "length data" arbitrary: data body rule: less_induct)
  case less
  show ?case
  proof (cases "b = body")
    case False
    from decode_chunks_Some [OF less.prems(1) False] obtain rest d where "length rest < length data" "length d \<le> 4096 - length body"
      "decode_chunks rest (body @ d) = Inr (Some b)" by auto
    with less.hyps [of rest "body @ d"] less.prems(2) show ?thesis by simp
  qed (use less.prems(2) in simp)
qed

lemma evaluate_body_ok:
  assumes "evaluate_body r = (s, result)" and "response_ok r" and "rs_headers_parsed r"
  shows "response_ok s \<and> (result = LS_HTTP_RESPONSE_COMPLETE \<longrightarrow> rs_complete s)"
  using assms decode_chunks_bound [of "drop (rs_header_length r) (rs_raw r)" "[]"]
  by (auto simp: evaluate_body_def decode_chunked_def response_completed_def response_set_error_def
        response_ok_def Let_def split: LsHttpResponseFraming.splits sum.splits option.splits if_splits)

lemma evaluate_headers:
  assumes "\<not> rs_headers_parsed r" and "find_bytes (rs_raw r) END_OF_HEADERS = Some i"
    and "response_parse_headers (r\<lparr>rs_header_length := i + 4\<rparr>) = (p, ok)"
  shows "evaluate r =
    (if \<not> ok then (p, LS_HTTP_RESPONSE_ERROR)
     else if without_body p then (response_completed [] p, LS_HTTP_RESPONSE_COMPLETE) else evaluate_body p)"
  using assms by (cases ok) (simp_all add: evaluate_def)

lemma evaluate_ok:
  assumes "evaluate r = (s, result)" and "response_ok r"
  shows "response_ok s \<and> (result = LS_HTTP_RESPONSE_COMPLETE \<longrightarrow> rs_complete s)"
proof (cases "rs_headers_parsed r \<or> find_bytes (rs_raw r) END_OF_HEADERS = None")
  case True
  with assms evaluate_body_ok [of r s result] show ?thesis
    by (auto simp: evaluate_def response_set_error_def response_ok_def split: if_splits option.splits)
next
  case False
  then obtain i where i: "\<not> rs_headers_parsed r" "find_bytes (rs_raw r) END_OF_HEADERS = Some i" by auto
  obtain p ok where p: "response_parse_headers (r\<lparr>rs_header_length := i + 4\<rparr>) = (p, ok)"
    by (cases "response_parse_headers (r\<lparr>rs_header_length := i + 4\<rparr>)")
  from parse_headers_keep [OF p] find_bytes_length [OF i(2)] assms(2) i(1)
  have ok: "response_ok p" "ok \<Longrightarrow> rs_headers_parsed p" by (cases ok; simp add: response_ok_def)+
  from ok have fin: "response_ok (response_completed [] p)" "rs_complete (response_completed [] p)" if "ok"
    using that by (simp_all add: response_ok_def response_completed_def)
  from assms(1) evaluate_headers [OF i p] have s: "(s, result) =
    (if \<not> ok then (p, LS_HTTP_RESPONSE_ERROR)
     else if without_body p then (response_completed [] p, LS_HTTP_RESPONSE_COMPLETE) else evaluate_body p)" by simp
  consider "\<not> ok" | "ok" "without_body p" | "ok" "\<not> without_body p" by blast
  then show ?thesis
  proof cases
    case 3
    with s ok show ?thesis by (intro evaluate_body_ok [of p]) simp_all
  qed (use s ok(1) fin in simp_all)
qed

lemma response_bounds:
  assumes "response_ok r"
  shows "case ls_http_response_feed r data of
      (s, result) \<Rightarrow> response_ok s \<and> (result = LS_HTTP_RESPONSE_COMPLETE \<longrightarrow> rs_complete s)"
    and "case ls_http_response_finish r of
      (s, result) \<Rightarrow> response_ok s \<and> (result = LS_HTTP_RESPONSE_COMPLETE \<longrightarrow> rs_complete s) \<and>
         result \<noteq> LS_HTTP_RESPONSE_NEED_MORE"
proof -
  from assms have "response_ok (fed r data)" if "\<not> length data > 6399 - length (rs_raw r)"
    using that by (auto simp: response_ok_def)
  with assms evaluate_ok [of "fed r data"]
  show "case ls_http_response_feed r data of
      (s, result) \<Rightarrow> response_ok s \<and> (result = LS_HTTP_RESPONSE_COMPLETE \<longrightarrow> rs_complete s)"
    by (auto simp: ls_http_response_feed_def split: prod.split) (simp_all add: response_ok_def response_set_error_def)
  obtain s result where e: "evaluate r = (s, result)" by fastforce
  from evaluate_ok [OF e assms] show "case ls_http_response_finish r of
      (s, result) \<Rightarrow> response_ok s \<and> (result = LS_HTTP_RESPONSE_COMPLETE \<longrightarrow> rs_complete s) \<and>
         result \<noteq> LS_HTTP_RESPONSE_NEED_MORE"
    by (cases result) (simp_all add: ls_http_response_finish_def e response_completed_def response_set_error_def
          response_ok_def Let_def)
qed

lemma response_init_ok: "response_ok ls_http_response_init"
  by (simp add: response_ok_def ls_http_response_init_def)

section \<open>Reading back what the program writes\<close>

lemma find_from_skip:
  "LF \<notin> set t \<Longrightarrow> find_from i (CR # LF # w) (t @ CR # s) = find_from (i + length t) (CR # LF # w) (CR # s)"
proof (induction t arbitrary: i)
  case (Cons c t)
  have "take (length (CR # LF # w)) (c # t @ CR # s) \<noteq> CR # LF # w"
    using Cons.prems by (cases t) auto
  then have "find_from i (CR # LF # w) (c # t @ CR # s) = find_from (Suc i) (CR # LF # w) (t @ CR # s)"
    by (simp only: find_from.simps if_False)
  with Cons show ?case by simp
qed simp

lemma find_line_end: "LF \<notin> set l \<Longrightarrow> find_bytes (l @ CRLF @ r) CRLF = Some (length l)"
  using find_from_skip [of l 0 "[]" "LF # r"] by (simp add: find_bytes_def)

lemma find_blank_line_from:
  "\<forall>t \<in> set ts. LF \<notin> set t \<and> t \<noteq> [] \<Longrightarrow> ts \<noteq> [] \<Longrightarrow>
     find_from i END_OF_HEADERS (lines_text ts @ CRLF @ r) = Some (i + length (lines_text ts) - 2)"
proof (induction ts arbitrary: i)
  case (Cons t ts)
  have "find_from i END_OF_HEADERS (lines_text (t # ts) @ CRLF @ r) =
      find_from (i + length t) END_OF_HEADERS (CR # LF # lines_text ts @ CRLF @ r)"
    using find_from_skip [of t i "[CR, LF]" "LF # lines_text ts @ CRLF @ r"] Cons.prems by simp
  also have "\<dots> = Some (i + length (lines_text (t # ts)) - 2)"
  proof (cases ts)
    case (Cons u us)
    then have u: "LF \<notin> set u" "u \<noteq> []" using Cons.prems by auto
    then have "take 2 (lines_text ts @ CRLF @ r) \<noteq> CRLF"
      by (cases u; cases "tl u") (auto simp: Cons)
    then have "find_from (i + length t) END_OF_HEADERS (CR # LF # lines_text ts @ CRLF @ r) =
        find_from (i + length t + 2) END_OF_HEADERS (lines_text ts @ CRLF @ r)"
      by (simp add: numeral_eq_Suc)
    with Cons.IH [of "i + length t + 2"] Cons.prems Cons show ?thesis by simp
  qed simp
  finally show ?case .
qed simp

lemma find_blank_line:
  assumes "\<forall>t \<in> set ts. LF \<notin> set t \<and> t \<noteq> []" and "ts \<noteq> []"
  shows "find_bytes (lines_text ts @ CRLF @ r) END_OF_HEADERS = Some (length (lines_text ts) - 2)"
proof -
  have "2 \<le> length (lines_text ts)" using assms(2) by (cases ts) simp_all
  then show ?thesis using find_blank_line_from [OF assms, of 0 r] by (simp add: find_bytes_def)
qed

text \<open>Every chunked body the server accepts is decoded to the same payload by the client.\<close>

lemma chunk_size_same:
  "parse_chunk_size_loop p k l = Some n \<Longrightarrow>
     \<exists>k' rest. response_chunk_size p k l = Some (n, k', rest) \<and> k' \<noteq> 0 \<and> (rest = [] \<or> hd rest = CHR '';'')"
proof (induction p k l rule: parse_chunk_size_loop.induct)
  case (2 p k c s)
  have "response_hex_digit (CHR '';'') = None" "response_hex_digit = hex_digit"
    by (auto simp: response_hex_digit_def hex_digit_def)
  with 2 show ?case by (auto split: if_splits option.splits)
qed (auto split: if_splits)

lemma decode_chunks_line:
  assumes "short_line l" and "parse_chunk_size l = Some n"
  shows "decode_chunks (l @ CRLF @ after) body =
     (if n = 0 then
        (if take 2 after = CRLF then
           (if length after \<noteq> 2 then Inl ''Data follows final HTTP chunk'' else Inr (Some body))
         else case find_bytes after END_OF_HEADERS of
           None \<Rightarrow> Inr None
         | Some trailer_end \<Rightarrow>
             (if trailer_end + 4 \<noteq> length after then Inl ''Data follows HTTP chunk trailers'' else Inr (Some body)))
      else if unat n > 4096 - length body then Inl ''Chunked response body too large''
      else if length after < unat n + 2 then Inr None
      else if take 2 (drop (unat n) after) \<noteq> CRLF then Inl ''Malformed chunk terminator''
      else decode_chunks (drop (unat n + 2) after) (body @ take (unat n) after))"
proof -
  from assms chunk_size_same [of 0 0 l n] obtain k rest where
    c: "response_chunk_size 0 0 l = Some (n, k, rest)" "k \<noteq> 0" "rest = [] \<or> hd rest = CHR '';''"
    by (auto simp: parse_chunk_size_def)
  have "find_bytes (l @ CRLF @ after) CRLF = Some (length l)"
    using assms(1) by (intro find_line_end) (simp add: short_line_def)
  then have e: "find_bytes (l @ CR # LF # after) CRLF = Some (length l)" by simp
  have big: "\<not> 2 ^ 32 - 1 - 2 < unat n" if "\<not> unat n > 4096 - length body"
    using that by simp
  from c e show ?thesis
    by (subst decode_chunks.simps) (auto dest: big)
qed

lemma client_decodes_chunks:
  "chunked_body enc payload \<Longrightarrow> length body + length payload \<le> LS3DS_HTTP_RESPONSE_BODY_CAPACITY \<Longrightarrow>
     decode_chunks enc body = Inr (Some (body @ payload))"
proof (induction enc payload arbitrary: body rule: chunked_body.induct)
  case (last_chunk l ts)
  show ?case
  proof (cases ts)
    case Nil
    with decode_chunks_line [OF last_chunk.hyps(1,2), of CRLF body] show ?thesis by simp
  next
    case (Cons t us)
    then have t: "LF \<notin> set t" "t \<noteq> []" using last_chunk.hyps(3) by (auto simp: short_line_def)
    then have "take 2 (lines_text ts @ CRLF) \<noteq> CRLF"
      by (cases t; cases "tl t") (auto simp: Cons)
    moreover have "find_bytes (lines_text ts @ CRLF) END_OF_HEADERS = Some (length (lines_text ts) - 2)"
      using find_blank_line [of ts "[]"] last_chunk.hyps(3) Cons by (auto simp: short_line_def)
    ultimately show ?thesis
      using decode_chunks_line [OF last_chunk.hyps(1,2), of "lines_text ts @ CRLF" body] Cons by simp
  qed
next
  case (next_chunk l n data rest payload)
  have "\<not> unat n > 4096 - length body" using next_chunk.hyps(4) next_chunk.prems by simp
  with decode_chunks_line [OF next_chunk.hyps(1,2), of "data @ CRLF @ rest" body] next_chunk
  show ?case by simp
qed

text \<open>A response with a declared length, written line by line, is read back.\<close>

lemma header_lines_text:
  assumes "line_text l" and "l \<noteq> []"
  shows "response_header_lines (lines_text (l # ls) @ CRLF) st =
    (case response_header_line l st of Inl e \<Rightarrow> (fst st, Inl e) | Inr st \<Rightarrow> response_header_lines (lines_text ls @ CRLF) st)"
  by (rule header_lines_step) (use assms split_line_text [of l "lines_text ls @ CRLF"] in auto)

definition plain_header :: "string \<Rightarrow> bool" where
  "plain_header l \<longleftrightarrow> line_text l \<and> LF \<notin> set l \<and> CHR '':'' \<in> set l \<and>
     \<not> header_named ''Content-Length'' l \<and> \<not> header_named ''Transfer-Encoding'' l"

lemma plain_header_line:
  assumes "plain_header l"
  shows "response_header_line l st = Inr st"
proof -
  obtain c v where "dropWhile (\<lambda>c. c \<noteq> CHR '':'') l = c # v"
    using assms by (cases "dropWhile (\<lambda>c. c \<noteq> CHR '':'') l") (auto simp: plain_header_def)
  note e = header_line_some [OF this]
  obtain r a b where "st = (r, a, b)" by (cases st)
  then show ?thesis using assms by (simp only: e plain_header_def if_False)
qed

lemma plain_headers:
  "\<forall>l \<in> set ls. plain_header l \<Longrightarrow> response_header_lines (lines_text ls @ CRLF) st = (fst st, Inr (snd st))"
proof (induction ls)
  case Nil
  show ?case by (subst header_lines_end) simp_all
next
  case (Cons l ls)
  then have l: "line_text l" "l \<noteq> []" by (auto simp: plain_header_def)
  show ?case unfolding header_lines_text [OF l] using Cons by (simp add: plain_header_line)
qed

lemma content_length_header:
  "response_header_line (''Content-Length: '' @ dec (unat n)) (r, False, b) =
     Inr (r\<lparr>rs_content_length := n\<rparr>, True, b)"
proof -
  have "response_parse_u64 = parse_u64" by (simp add: response_parse_u64_def parse_u64_def fun_eq_iff)
  with parse_u64_dec [of n] have "response_parse_u64 (CHR '' '' # dec (unat n)) = Some n" by simp
  moreover have "dropWhile (\<lambda>c. c \<noteq> CHR '':'') (''Content-Length: '' @ dec (unat n)) = CHR '':'' # CHR '' '' # dec (unat n)" by simp
  note header_line_some [OF this]
  moreover have "header_named ''Content-Length'' (''Content-Length: '' @ dec (unat n))"
    by (simp add: header_named_def strcase_eq_def)
  ultimately show ?thesis by simp
qed

lemma scan_int_dec:
  assumes "n < 1000" and "s = [] \<or> \<not> isdigit (hd s)"
  shows "scan_int (CHR '' '' # dec n @ s) = Some (int n, s)"
proof -
  have f: "foldl (\<lambda>n d. n * 10 + int (digit_val d)) (int a) ds = int (dec_value a ds)" for a ds
  proof (induction ds arbitrary: a)
    case (Cons d ds)
    have "int a * 10 + int (digit_val d) = int (10 * a + digit_val d)" by simp
    then show ?case by (simp only: foldl_Cons Cons.IH dec_value.simps)
  qed simp
  have d: "isdigit c" if "c \<in> set (dec n)" for c using that by (rule dec_digits)
  then have h: "isdigit (hd (dec n))" by simp
  then have h': "\<not> isspace (hd (dec n))" "hd (dec n) \<noteq> CHR ''-''" "hd (dec n) \<noteq> CHR ''+''"
    by (auto simp: isdigit_def isspace_def)
  from h'(1) have "dropWhile isspace (CHR '' '' # dec n @ s) = dec n @ s"
    by (cases "dec n") simp_all
  moreover have "takeWhile isdigit (dec n @ s) = dec n"
    using assms(2) d by (cases s) (simp_all add: takeWhile_append2)
  ultimately show ?thesis
    using h' f [of 0 "dec n"] assms(1) by (simp add: scan_int_def Let_def)
qed

definition reason_text :: "string \<Rightarrow> bool" where
  "reason_text s \<longleftrightarrow> s \<noteq> [] \<and> line_text s \<and> LF \<notin> set s \<and> \<not> isspace (hd s) \<and> length s \<le> 63"

lemma scan_status_text:
  assumes "n < 1000" and "reason_text reason"
  shows "scan_status_line (''HTTP/1.1 '' @ dec n @ '' '' @ reason) = Some (''HTTP/1.1'', int n)"
proof -
  have "word_text ''HTTP/1.1''" by (simp add: word_text_def isspace_def)
  from scan_word_text [OF this, of 15 "'' '' @ dec n @ '' '' @ reason"]
  have w: "scan_word 15 (''HTTP/1.1 '' @ dec n @ '' '' @ reason) = Some (''HTTP/1.1'', '' '' @ dec n @ '' '' @ reason)"
    by simp
  have i: "scan_int ('' '' @ dec n @ '' '' @ reason) = Some (int n, '' '' @ reason)"
    using scan_int_dec [OF assms(1), of "'' '' @ reason"] by (simp add: isdigit_def)
  have r: "dropWhile isspace ('' '' @ reason) = reason"
    using assms(2) by (cases reason) (simp_all add: reason_text_def)
  have t: "takeWhile (\<lambda>c. c \<noteq> CR \<and> c \<noteq> LF) reason = reason"
    using assms(2) by (auto simp: reason_text_def line_text_def)
  show ?thesis
    unfolding scan_status_line_def w option.case prod.case i Let_def r t
    using assms(2) by (simp add: reason_text_def)
qed

definition written_response :: "nat \<Rightarrow> string \<Rightarrow> string list \<Rightarrow> string \<Rightarrow> string" where
  "written_response status reason headers body =
     lines_text ((''HTTP/1.1 '' @ dec status @ '' '' @ reason) #
       (''Content-Length: '' @ dec (length body)) # headers) @ CRLF @ body"

lemma status_length:
  assumes "n < 1000" and "reason_text reason"
  shows "line_text (''HTTP/1.1 '' @ dec n @ '' '' @ reason)" "length (''HTTP/1.1 '' @ dec n @ '' '' @ reason) < 128"
    "LF \<notin> set (''HTTP/1.1 '' @ dec n @ '' '' @ reason)"
proof -
  have d: "line_text (dec n) \<and> LF \<notin> set (dec n)"
    using dec_digits [of _ n] by (fastforce simp: line_text_def isdigit_def)
  have "length (dec n) \<le> 3" using length_dec_bound [of n 2] assms(1) by simp
  with d assms(2) show "line_text (''HTTP/1.1 '' @ dec n @ '' '' @ reason)"
    "length (''HTTP/1.1 '' @ dec n @ '' '' @ reason) < 128"
    "LF \<notin> set (''HTTP/1.1 '' @ dec n @ '' '' @ reason)" by (simp_all add: reason_text_def)
qed

lemma response_read_back:
  assumes "100 \<le> status" "status \<le> 599" and "reason_text reason" and "\<forall>l \<in> set headers. plain_header l"
    and "length body \<le> LS3DS_HTTP_RESPONSE_BODY_CAPACITY"
    and "length (written_response status reason headers body) < LS3DS_HTTP_RESPONSE_RAW_CAPACITY"
  shows "\<exists>s. ls_http_response_feed ls_http_response_init (written_response status reason headers body) =
      (s, LS_HTTP_RESPONSE_COMPLETE) \<and> rs_status_code s = int status \<and> rs_body s = body"
proof -
  let ?first = "''HTTP/1.1 '' @ dec status @ '' '' @ reason"
  let ?cl = "''Content-Length: '' @ dec (length body)"
  let ?lines = "?first # ?cl # headers"
  define raw where "raw = written_response status reason headers body"
  have st: "status < 1000" using assms(2) by simp
  note first = status_length [OF st assms(3)]
  have n: "unat (of_nat (length body) :: u64) = length body"
    using assms(5) by (simp add: unat_of_nat)
  have cl: "line_text ?cl" "LF \<notin> set ?cl" "?cl \<noteq> []"
    using dec_digits [of _ "length body"] by (fastforce simp: line_text_def isdigit_def)+
  have find: "find_bytes raw END_OF_HEADERS = Some (length (lines_text ?lines) - 2)"
    unfolding raw_def written_response_def
    by (rule find_blank_line) (use first cl assms(4) in \<open>auto simp: plain_header_def\<close>)
  have hl: "length (lines_text ?lines) - 2 + 4 = length (lines_text ?lines @ CRLF)" by simp
  have raw: "raw = (lines_text ?lines @ CRLF) @ body" by (simp add: raw_def written_response_def)
  have h: "take (length xs) (xs @ ys) = xs" "drop (length xs) (xs @ ys) = ys" for xs ys :: string by simp_all
  have parts: "take (length (lines_text ?lines @ CRLF)) raw = lines_text ?lines @ CRLF"
    "drop (length (lines_text ?lines @ CRLF)) raw = body"
    unfolding raw by (rule h)+
  let ?r = "ls_http_response_init\<lparr>rs_raw := raw, rs_header_length := length (lines_text ?lines @ CRLF)\<rparr>"
  have head: "take (rs_header_length ?r) (rs_raw ?r) = ?first @ CR # LF # (lines_text (?cl # headers) @ CRLF)"
    using parts(1) by simp
  have "response_header_lines (lines_text (?cl # headers) @ CRLF) (?r\<lparr>rs_status_code := int status\<rparr>, False, False) =
      (?r\<lparr>rs_status_code := int status, rs_content_length := of_nat (length body)\<rparr>, Inr (True, False))"
    unfolding header_lines_text [OF cl(1,3)]
    using content_length_header [of "of_nat (length body)"] assms(4) n by (simp add: plain_headers)
  moreover have "settle_framing (True, False) (?r\<lparr>rs_status_code := int status, rs_content_length := of_nat (length body)\<rparr>) =
      (?r\<lparr>rs_status_code := int status, rs_content_length := of_nat (length body),
         rs_framing := LS_HTTP_RESPONSE_CONTENT_LENGTH, rs_headers_parsed := True\<rparr>, True)" (is "_ = (?p, _)")
    using assms(5) n by (simp add: settle_framing_def)
  ultimately have "response_parse_headers ?r = (?p, True)"
    unfolding response_parse_headers_def head split_line_text [OF first(1)] option.case prod.case
      scan_status_text [OF st assms(3)]
    using first(2) assms(1,2) by simp
  then have p: "response_parse_headers ((ls_http_response_init\<lparr>rs_raw := raw\<rparr>)\<lparr>rs_header_length := length (lines_text ?lines) - 2 + 4\<rparr>) = (?p, True)"
    unfolding hl by simp
  have "drop (rs_header_length ?p) (rs_raw ?p) = body"
    using parts(2) by simp
  with n have "evaluate_body ?p = (response_completed body ?p, LS_HTTP_RESPONSE_COMPLETE)"
    unfolding evaluate_body_def Let_def by simp
  moreover have "\<not> without_body ?p" by (simp add: without_body_def)
  ultimately have "evaluate (ls_http_response_init\<lparr>rs_raw := raw\<rparr>) = (response_completed body ?p, LS_HTTP_RESPONSE_COMPLETE)"
    using evaluate_headers [OF _ _ p] find by (simp add: ls_http_response_init_def)
  then show ?thesis using assms(6)
    by (simp add: ls_http_response_feed_def ls_http_response_init_def raw_def response_completed_def)
qed

end
