(* ===== verification/Tls_Identity.thy ===== *)
theory Tls_Identity
  imports Json Sha256 Secure_Random
begin

text \<open>
  The parts of \<open>source/tls_identity.c\<close> that judge a peer: the text form of a fingerprint and the two
  checks of a certificate. A \<open>certificate\<close> holds the answers of the TLS library about it. The
  implementation behind an identity is the pair of its DER texts.
\<close>

datatype LsTlsCertificateValidity =
  LS_TLS_CERTIFICATE_VALIDITY_OK | LS_TLS_CERTIFICATE_VALIDITY_NOT_YET_VALID
| LS_TLS_CERTIFICATE_VALIDITY_EXPIRED | LS_TLS_CERTIFICATE_VALIDITY_INVALID

record LsTlsIdentity =
  ti_implementation :: "(u8 list \<times> u8 list) option"
  ti_fingerprint :: string

definition ls_tls_certificate_check_validity :: "certificate \<Rightarrow> LsTlsCertificateValidity" where
  "ls_tls_certificate_check_validity crt =
     (if crt_raw crt = None then LS_TLS_CERTIFICATE_VALIDITY_INVALID
      else if crt_is_future crt then LS_TLS_CERTIFICATE_VALIDITY_NOT_YET_VALID
      else if crt_is_past crt then LS_TLS_CERTIFICATE_VALIDITY_EXPIRED
      else LS_TLS_CERTIFICATE_VALIDITY_OK)"

text \<open>The numbers are \<open>MBEDTLS_ERR_X509_BAD_INPUT_DATA\<close> and \<open>MBEDTLS_ERR_MD_FEATURE_UNAVAILABLE\<close>.\<close>

definition ls_tls_certificate_verify_self_signature :: "certificate \<Rightarrow> int" where
  "ls_tls_certificate_verify_self_signature crt =
     (if crt_raw crt = None \<or> \<not> crt_signed_parts crt then - 0x2800
      else if \<not> crt_md_known crt then - 0x5080
      else if crt_md_result crt \<noteq> 0 then crt_md_result crt
      else crt_pk_verify crt)"

definition ls_tls_certificate_is_valid_self_signed :: "certificate \<Rightarrow> bool" where
  "ls_tls_certificate_is_valid_self_signed crt \<longleftrightarrow>
     ls_tls_certificate_check_validity crt = LS_TLS_CERTIFICATE_VALIDITY_OK \<and>
     ls_tls_certificate_verify_self_signature crt = 0"

text \<open>The digest the library computes of a certificate, as the 32 bytes of the buffer it fills.\<close>

definition certificate_digest :: "certificate \<Rightarrow> u8 list option" where
  "certificate_digest crt =
     (case crt_sha256 crt of Inl _ \<Rightarrow> None | Inr d \<Rightarrow> Some (take 32 (d @ replicate 32 0)))"

definition certificate_fingerprint :: "certificate \<Rightarrow> string option" where
  "certificate_fingerprint crt =
     (if crt_raw crt = None then None
      else map_option (\<lambda>d. concat (map (two_digits ''0123456789ABCDEF'') d)) (certificate_digest crt))"

fun parse_fingerprint_pairs :: "string \<Rightarrow> u8 list option" where
  "parse_fingerprint_pairs (high # low # s) =
     (case (hex_value high, hex_value low) of
        (Some high_value, Some low_value) \<Rightarrow>
          map_option ((#) (of_nat (push_bit 4 high_value OR low_value))) (parse_fingerprint_pairs s)
      | _ \<Rightarrow> None)"
| "parse_fingerprint_pairs s = Some []"

definition ls_tls_fingerprint_parse :: "string \<Rightarrow> u8 list option" where
  "ls_tls_fingerprint_parse s = (if length s \<noteq> 64 then None else parse_fingerprint_pairs s)"

section \<open>Fingerprints as text\<close>

lemma fingerprint_parse_length: "ls_tls_fingerprint_parse s = Some d \<Longrightarrow> length d = 32"
proof -
  have "parse_fingerprint_pairs s = Some d \<Longrightarrow> length d = length s div 2" for d
    by (induction s arbitrary: d rule: parse_fingerprint_pairs.induct) (auto split: option.splits)
  then show "ls_tls_fingerprint_parse s = Some d \<Longrightarrow> length d = 32"
    by (auto simp: ls_tls_fingerprint_parse_def split: if_splits)
qed

lemma hex_value_upper_digit: "n < 16 \<Longrightarrow> hex_value (''0123456789ABCDEF'' ! n) = Some n"
proof -
  have "\<forall>n \<in> set [0..<16]. hex_value (''0123456789ABCDEF'' ! n) = Some n" by code_simp
  then show "n < 16 \<Longrightarrow> ?thesis" by auto
qed

lemma nibble_pair: "l < 16 \<Longrightarrow> push_bit 4 h OR l = 16 * h + (l :: nat)"
proof -
  assume "l < 16"
  then have l: "l = take_bit 4 l" by (simp add: take_bit_nat_eq_self)
  have "push_bit 4 h AND take_bit 4 l = 0"
    by (rule bit_eqI) (auto simp: bit_simps)
  then have "push_bit 4 h OR take_bit 4 l = push_bit 4 h + take_bit 4 l"
    by (rule disjunctive_add_eq_or [symmetric])
  with l show ?thesis by (simp add: push_bit_eq_mult)
qed

lemma parse_fingerprint_digits:
  "parse_fingerprint_pairs (concat (map (two_digits ''0123456789ABCDEF'') d)) = Some d"
proof (induction d)
  case (Cons b d)
  have "of_nat (push_bit 4 (unat (drop_bit 4 b)) OR unat (b AND 0x0f)) = b"
    unfolding nibble_pair [OF nibbles(2)] nibbles(3) [symmetric] by simp
  with Cons show ?case
    unfolding two_digits_def list.map concat.simps append.simps parse_fingerprint_pairs.simps
      hex_value_upper_digit [OF nibbles(1)] hex_value_upper_digit [OF nibbles(2)] by simp
qed simp

text \<open>The fingerprint a device announces names exactly the digest of its certificate.\<close>

lemma fingerprint_round_trip:
  assumes "certificate_fingerprint crt = Some f"
  shows "\<exists>d. certificate_digest crt = Some d \<and> ls_tls_fingerprint_parse f = Some d"
proof -
  from assms obtain d where d: "certificate_digest crt = Some d" "f = concat (map (two_digits ''0123456789ABCDEF'') d)"
    by (auto simp: certificate_fingerprint_def split: if_splits)
  then have "length d = 32" by (auto simp: certificate_digest_def split: sum.splits)
  then have "length f = 64" unfolding d(2) by (simp add: length_concat two_digits_def comp_def sum_list_triv)
  with d parse_fingerprint_digits [of d] show ?thesis by (auto simp: ls_tls_fingerprint_parse_def)
qed

end
