(* ===== verification/Outgoing_Transport.thy ===== *)
theory Outgoing_Transport
  imports Device Tls_Identity
begin

text \<open>
  \<open>source/socket_compat.c\<close> and \<open>source/outgoing_transport.c\<close> (the build for the console): the
  connection of the sender, plain or inside TLS. The TLS library answers through the world: a call
  runs its \<open>tls_event\<close>s, which use the socket through \<open>tls_send\<close> and \<open>tls_recv\<close> and hand the peer's
  certificates to \<open>verify_peer\<close>, and then returns. The lemmas show that a TLS connection becomes ready
  only after a certificate with the expected fingerprint has passed the checks, and that no text is
  handed to the library before.
\<close>

section \<open>Socket results\<close>

datatype LsSocketConnectResult = LS_SOCKET_CONNECT_COMPLETE | LS_SOCKET_CONNECT_PENDING | LS_SOCKET_CONNECT_FAILED

text \<open>The numbers of the C library of the console.\<close>

definition EPERM :: nat where "EPERM = 1"
definition ENOMEM :: nat where "ENOMEM = 12"
definition EAGAIN :: nat where "EAGAIN = 11"
definition EINVAL :: nat where "EINVAL = 22"
definition EPIPE :: nat where "EPIPE = 32"
definition ECONNRESET :: nat where "ECONNRESET = 104"
definition EINPROGRESS :: nat where "EINPROGRESS = 119"
definition EALREADY :: nat where "EALREADY = 120"
definition EISCONN :: nat where "EISCONN = 127"

lemmas errno_values = EPERM_def ENOMEM_def EAGAIN_def EINVAL_def EPIPE_def ECONNRESET_def EINPROGRESS_def
  EALREADY_def EISCONN_def

definition ls_socket_classify_connect_result :: "int \<Rightarrow> nat \<Rightarrow> LsSocketConnectResult" where
  "ls_socket_classify_connect_result result error_value =
     (if result = 0 \<or> (result < 0 \<and> error_value = EISCONN) then LS_SOCKET_CONNECT_COMPLETE
      else if result < 0 \<and> (error_value = EINPROGRESS \<or> error_value = EALREADY \<or> error_value = EAGAIN)
      then LS_SOCKET_CONNECT_PENDING
      else LS_SOCKET_CONNECT_FAILED)"

definition LS3DS_SOC_RAW_EINPROGRESS :: int where "LS3DS_SOC_RAW_EINPROGRESS = - 26"

definition ls_socket_is_3ds_stale_in_progress :: "int \<Rightarrow> bool" where
  "ls_socket_is_3ds_stale_in_progress raw_socket_error \<longleftrightarrow> raw_socket_error = LS3DS_SOC_RAW_EINPROGRESS"

section \<open>The state of a connection\<close>

datatype LsTransportConnectResult =
  LS_TRANSPORT_CONNECT_PENDING | LS_TRANSPORT_CONNECT_READY | LS_TRANSPORT_CONNECT_FAILED

record LsTlsTransportState =
  ts_expected_fingerprint :: "u8 list"
  ts_tcp_logged :: bool
  ts_handshake_started :: bool
  ts_verify_callback_seen :: bool
  ts_peer_verified :: bool
  ts_fingerprint_computed :: bool
  ts_fingerprint_match :: bool
  ts_validity :: LsTlsCertificateValidity
  ts_self_signature_result :: int
  ts_generic_verify_flags :: u32
  ts_verification_error :: string
  ts_socket_errno :: nat

type_synonym sender = "int \<Rightarrow> string \<Rightarrow> world \<Rightarrow> send_answer \<times> world"

record LsOutgoingTransport =
  tp_fd :: int
  tp_protocol :: LsProtocol
  tp_tcp_connected :: bool
  tp_ready :: bool
  tp_tls_state :: "LsTlsTransportState option"
  tp_last_connect_so_error :: int
  tp_last_connect_probe_error :: int
  tp_last_error :: int
  tp_error :: string
  tp_plain_send :: "sender option"

definition default_plain_send :: sender where
  "default_plain_send = do_send"

definition transport_set_error :: "int \<Rightarrow> string \<Rightarrow> LsOutgoingTransport \<Rightarrow> LsOutgoingTransport" where
  "transport_set_error error message transport =
     transport\<lparr>tp_last_error := error, tp_error := take 127 message\<rparr>"

text \<open>\<open>inet_pton(AF_INET, s, ...) == 1\<close>: four decimal numbers up to 255 with dots between them.\<close>

definition octet_text :: "string \<Rightarrow> bool" where
  "octet_text s \<longleftrightarrow> s \<noteq> [] \<and> length s \<le> 3 \<and> (\<forall>c \<in> set s. isdigit c) \<and> dec_value 0 s \<le> 255"

fun split_dots :: "string \<Rightarrow> string list" where
  "split_dots [] = [[]]"
| "split_dots (c # s) =
     (if c = CHR ''.'' then [] # split_dots s
      else case split_dots s of [] \<Rightarrow> [[c]] | p # ps \<Rightarrow> (c # p) # ps)"

definition peer_address :: "LsDevice \<Rightarrow> bool" where
  "peer_address peer \<longleftrightarrow>
     length (split_dots (ip_address peer)) = 4 \<and> list_all octet_text (split_dots (ip_address peer))"

definition transport_set_nonblocking :: "world \<Rightarrow> bool \<times> world" where
  "transport_set_nonblocking w =
     (case do_net w of (ok, w) \<Rightarrow> if \<not> ok then (False, w) else do_net w)"

section \<open>TLS\<close>

definition MBEDTLS_ERR_SSL_WANT_READ :: int where "MBEDTLS_ERR_SSL_WANT_READ = - 0x6900"
definition MBEDTLS_ERR_SSL_WANT_WRITE :: int where "MBEDTLS_ERR_SSL_WANT_WRITE = - 0x6880"
definition MBEDTLS_ERR_SSL_PEER_CLOSE_NOTIFY :: int where "MBEDTLS_ERR_SSL_PEER_CLOSE_NOTIFY = - 0x7880"
definition MBEDTLS_ERR_NET_CONN_RESET :: int where "MBEDTLS_ERR_NET_CONN_RESET = - 0x0050"
definition MBEDTLS_ERR_NET_SEND_FAILED :: int where "MBEDTLS_ERR_NET_SEND_FAILED = - 0x004E"
definition MBEDTLS_ERR_NET_RECV_FAILED :: int where "MBEDTLS_ERR_NET_RECV_FAILED = - 0x004C"
definition MBEDTLS_ERR_X509_CERT_VERIFY_FAILED :: int where "MBEDTLS_ERR_X509_CERT_VERIFY_FAILED = - 0x2700"
definition MBEDTLS_X509_BADCERT_EXPIRED :: u32 where "MBEDTLS_X509_BADCERT_EXPIRED = 0x01"
definition MBEDTLS_X509_BADCERT_OTHER :: u32 where "MBEDTLS_X509_BADCERT_OTHER = 0x0100"
definition MBEDTLS_X509_BADCERT_FUTURE :: u32 where "MBEDTLS_X509_BADCERT_FUTURE = 0x0200"

lemmas mbedtls_values = MBEDTLS_ERR_SSL_WANT_READ_def MBEDTLS_ERR_SSL_WANT_WRITE_def
  MBEDTLS_ERR_SSL_PEER_CLOSE_NOTIFY_def MBEDTLS_ERR_X509_CERT_VERIFY_FAILED_def

type_synonym tls_run = "LsTlsTransportState \<times> world"

definition tls_send :: "int \<Rightarrow> string \<Rightarrow> tls_run \<Rightarrow> int \<times> tls_run" where
  "tls_send fd data = (\<lambda>(tls, w).
     (case do_send fd data w of
        (SendSome n, w) \<Rightarrow> (int n, tls, w)
      | (a, w) \<Rightarrow>
          (let error = (case a of SendError n \<Rightarrow> n | _ \<Rightarrow> EAGAIN);
               tls = tls\<lparr>ts_socket_errno := error\<rparr>
           in (if error = EAGAIN then MBEDTLS_ERR_SSL_WANT_WRITE
               else if error = EPIPE \<or> error = ECONNRESET then MBEDTLS_ERR_NET_CONN_RESET
               else MBEDTLS_ERR_NET_SEND_FAILED, tls, w))))"

definition tls_recv :: "int \<Rightarrow> nat \<Rightarrow> tls_run \<Rightarrow> (int \<times> string) \<times> tls_run" where
  "tls_recv fd capacity = (\<lambda>(tls, w).
     (case do_recv fd capacity w of
        (RecvData d, w) \<Rightarrow> ((int (length d), d), tls, w)
      | (RecvEof, w) \<Rightarrow> ((0, []), tls, w)
      | (a, w) \<Rightarrow>
          (let error = (case a of RecvError n \<Rightarrow> n | _ \<Rightarrow> EAGAIN);
               tls = tls\<lparr>ts_socket_errno := error\<rparr>
           in ((if error = EAGAIN then MBEDTLS_ERR_SSL_WANT_READ
                else if error = ECONNRESET then MBEDTLS_ERR_NET_CONN_RESET
                else MBEDTLS_ERR_NET_RECV_FAILED, []), tls, w))))"

definition transport_constant_time_equal :: "u8 list \<Rightarrow> u8 list \<Rightarrow> bool" where
  "transport_constant_time_equal left right \<longleftrightarrow>
     fold (\<lambda>(l, r) difference. difference OR (l XOR r)) (zip left right) 0 = 0"

definition verification_rejected :: "string \<Rightarrow> LsTlsTransportState \<Rightarrow> LsTlsTransportState" where
  "verification_rejected message tls = tls\<lparr>ts_peer_verified := False, ts_verification_error := take 127 message\<rparr>"

text \<open>The verification callback: the new state and the flags it leaves; it always returns 0.\<close>

definition look_at_certificate :: "certificate \<Rightarrow> LsTlsTransportState \<Rightarrow> LsTlsTransportState" where
  "look_at_certificate crt tls =
     (let tls = tls\<lparr>ts_validity := ls_tls_certificate_check_validity crt,
                    ts_self_signature_result := ls_tls_certificate_verify_self_signature crt\<rparr>;
          digest = (case crt_raw crt of None \<Rightarrow> None | Some raw \<Rightarrow> if raw = [] then None else certificate_digest crt);
          tls = tls\<lparr>ts_fingerprint_computed := (digest \<noteq> None)\<rparr>
      in case digest of
           None \<Rightarrow> tls
         | Some actual \<Rightarrow>
             tls\<lparr>ts_fingerprint_match := transport_constant_time_equal actual (ts_expected_fingerprint tls)\<rparr>)"

definition verify_peer :: "certificate \<Rightarrow> int \<Rightarrow> u32 \<Rightarrow> LsTlsTransportState \<Rightarrow> LsTlsTransportState \<times> u32" where
  "verify_peer crt depth flags tls =
     (let tls = tls\<lparr>ts_verify_callback_seen := True, ts_generic_verify_flags := flags\<rparr> in
      if depth \<noteq> 0 then
        (verification_rejected ''TLS peer sent an unexpected certificate chain'' tls, flags OR MBEDTLS_X509_BADCERT_OTHER)
      else
        (let tls = look_at_certificate crt tls in
         if ts_validity tls \<noteq> LS_TLS_CERTIFICATE_VALIDITY_OK then
           (verification_rejected
              (case ts_validity tls of
                 LS_TLS_CERTIFICATE_VALIDITY_NOT_YET_VALID \<Rightarrow>
                   ''TLS recipient certificate is not yet valid; check the console date and time''
               | LS_TLS_CERTIFICATE_VALIDITY_EXPIRED \<Rightarrow> ''TLS recipient certificate has expired''
               | _ \<Rightarrow> ''TLS recipient certificate validity is invalid'') tls,
            flags OR
              (case ts_validity tls of
                 LS_TLS_CERTIFICATE_VALIDITY_NOT_YET_VALID \<Rightarrow> MBEDTLS_X509_BADCERT_FUTURE
               | LS_TLS_CERTIFICATE_VALIDITY_EXPIRED \<Rightarrow> MBEDTLS_X509_BADCERT_EXPIRED
               | _ \<Rightarrow> MBEDTLS_X509_BADCERT_OTHER))
         else if ts_self_signature_result tls \<noteq> 0 then
           (verification_rejected ''TLS recipient self-signature verification failed'' tls, flags OR MBEDTLS_X509_BADCERT_OTHER)
         else if \<not> ts_fingerprint_computed tls then
           (verification_rejected ''TLS recipient fingerprint calculation failed'' tls, flags OR MBEDTLS_X509_BADCERT_OTHER)
         else if \<not> ts_fingerprint_match tls then
           (verification_rejected ''TLS recipient fingerprint does not match discovery'' tls, flags OR MBEDTLS_X509_BADCERT_OTHER)
         else (tls\<lparr>ts_peer_verified := True, ts_verification_error := []\<rparr>, 0)))"

text \<open>One call of the TLS library: its use of the callbacks, then its answer.\<close>

fun tls_event_run :: "int \<Rightarrow> tls_event \<Rightarrow> tls_run \<Rightarrow> tls_run" where
  "tls_event_run fd (BioSend data) st = snd (tls_send fd data st)"
| "tls_event_run fd (BioRecv n) st = snd (tls_recv fd n st)"
| "tls_event_run fd (VerifyPeer crt depth flags) (tls, w) = (fst (verify_peer crt depth flags tls), w)"

definition tls_call :: "int \<Rightarrow> tls_run \<Rightarrow> tls_answer \<times> tls_run" where
  "tls_call fd = (\<lambda>(tls, w).
     (case do_tls fd w of (a, w) \<Rightarrow> (a, fold (tls_event_run fd) (ta_events a) (tls, w))))"

text \<open>The set-up calls in order; each is made only while the result is 0.\<close>

definition setup_step :: "int \<times> world \<Rightarrow> int \<times> world" where
  "setup_step = (\<lambda>(result, w). if result = 0 then do_tls_setup w else (result, w))"

definition new_tls_state :: "u8 list \<Rightarrow> LsTlsTransportState" where
  "new_tls_state expected_fingerprint =
     \<lparr>ts_expected_fingerprint = expected_fingerprint, ts_tcp_logged = False, ts_handshake_started = False,
      ts_verify_callback_seen = False, ts_peer_verified = False, ts_fingerprint_computed = False,
      ts_fingerprint_match = False, ts_validity = LS_TLS_CERTIFICATE_VALIDITY_OK, ts_self_signature_result = 0,
      ts_generic_verify_flags = 0, ts_verification_error = [], ts_socket_errno = 0\<rparr>"

definition tls_state_create ::
    "LsDevice \<Rightarrow> LsTlsIdentity option \<Rightarrow> LsOutgoingTransport \<Rightarrow> world \<Rightarrow> bool \<times> LsOutgoingTransport \<times> world" where
  "tls_state_create peer identity transport w =
     (case (identity, ls_tls_fingerprint_parse (fingerprint peer)) of
        (Some i, Some expected_fingerprint) \<Rightarrow>
          (if ti_implementation i = None
           then (False, transport_set_error (int EINVAL) ''HTTPS peer has an invalid fingerprint'' transport, w)
           else case do_simple w of
             (False, w) \<Rightarrow> (False, transport_set_error (int ENOMEM) ''TLS state allocation failed'' transport, w)
           | (True, w) \<Rightarrow>
               (case setup_step (setup_step (setup_step (setup_step (0, w)))) of
                  (result, w) \<Rightarrow>
                    (if result \<noteq> 0 then (False, transport_set_error result ''TLS setup failed'' transport, w)
                     else (True, transport\<lparr>tp_tls_state := Some (new_tls_state expected_fingerprint)\<rparr>, w))))
      | _ \<Rightarrow> (False, transport_set_error (int EINVAL) ''HTTPS peer has an invalid fingerprint'' transport, w))"

section \<open>The operations\<close>

definition INT_MIN :: int where "INT_MIN = - (2 ^ 31)"

definition ls_outgoing_transport_init :: LsOutgoingTransport where
  "ls_outgoing_transport_init =
     \<lparr>tp_fd = -1, tp_protocol = LS_PROTOCOL_HTTP, tp_tcp_connected = False, tp_ready = False,
      tp_tls_state = None, tp_last_connect_so_error = INT_MIN, tp_last_connect_probe_error = INT_MIN,
      tp_last_error = 0, tp_error = [], tp_plain_send = Some default_plain_send\<rparr>"

definition or_default :: "sender option \<Rightarrow> sender option" where
  "or_default s = (case s of None \<Rightarrow> Some default_plain_send | Some f \<Rightarrow> Some f)"

definition ls_outgoing_transport_close :: "LsOutgoingTransport \<Rightarrow> world \<Rightarrow> LsOutgoingTransport \<times> world" where
  "ls_outgoing_transport_close transport w =
     (let w = (case tp_tls_state transport of
                 None \<Rightarrow> w
               | Some tls \<Rightarrow> if tp_tcp_connected transport then snd (snd (tls_call (tp_fd transport) (tls, w))) else w);
          w = (if tp_fd transport \<ge> 0 then do_close (tp_fd transport) w else w)
      in (ls_outgoing_transport_init\<lparr>tp_plain_send := or_default (tp_plain_send transport)\<rparr>, w))"

definition close_with_errno :: "nat \<Rightarrow> LsOutgoingTransport \<times> world \<Rightarrow> bool \<times> LsOutgoingTransport \<times> world" where
  "close_with_errno error = (\<lambda>(transport, w).
     (case ls_outgoing_transport_close transport w of (transport, w) \<Rightarrow> (False, transport, w\<lparr>w_errno := error\<rparr>)))"

text \<open>From \<open>socket\<close> on; the first part only prepares TLS.\<close>

definition begin_connect :: "LsDevice \<Rightarrow> LsOutgoingTransport \<times> world \<Rightarrow> bool \<times> LsOutgoingTransport \<times> world" where
  "begin_connect peer = (\<lambda>(transport, w).
     (if \<not> peer_address peer then close_with_errno EINVAL (transport, w)
      else case do_connect (w\<lparr>w_errno := 0\<rparr>) of
        ((result, error), w) \<Rightarrow>
          (let connect_error = (if result < 0 then error else 0) in
           case ls_socket_classify_connect_result result connect_error of
             LS_SOCKET_CONNECT_FAILED \<Rightarrow> close_with_errno connect_error (transport, w)
           | LS_SOCKET_CONNECT_COMPLETE \<Rightarrow> (True, transport\<lparr>tp_tcp_connected := True\<rparr>, w)
           | LS_SOCKET_CONNECT_PENDING \<Rightarrow> (True, transport, w))))"

definition begin_socket :: "LsDevice \<Rightarrow> LsOutgoingTransport \<times> world \<Rightarrow> bool \<times> LsOutgoingTransport \<times> world" where
  "begin_socket peer = (\<lambda>(transport, w).
     (case do_socket w of
        (fd, w) \<Rightarrow>
          (let transport = transport\<lparr>tp_fd := (case fd of None \<Rightarrow> -1 | Some fd \<Rightarrow> fd)\<rparr> in
           if tp_fd transport < 0 then close_with_errno (w_errno w) (transport, w)
           else case transport_set_nonblocking w of
             (False, w) \<Rightarrow> close_with_errno (w_errno w) (transport, w)
           | (True, w) \<Rightarrow> begin_connect peer (transport, w))))"

definition ls_outgoing_transport_begin ::
    "LsOutgoingTransport \<Rightarrow> LsDevice \<Rightarrow> LsTlsIdentity option \<Rightarrow> world \<Rightarrow> bool \<times> LsOutgoingTransport \<times> world" where
  "ls_outgoing_transport_begin transport peer identity w =
     (case ls_outgoing_transport_close transport w of
        (transport, w) \<Rightarrow>
          (let transport = transport\<lparr>tp_protocol := protocol peer\<rparr> in
           case (if protocol peer = LS_PROTOCOL_HTTPS then tls_state_create peer identity transport w
                 else (True, transport, w)) of
             (False, transport, w) \<Rightarrow> (False, transport, w)
           | (True, transport, w) \<Rightarrow> begin_socket peer (transport, w)))"

type_synonym poll_result = "LsTransportConnectResult \<times> LsOutgoingTransport \<times> world"

definition poll_tcp :: "LsOutgoingTransport \<Rightarrow> LsDevice \<Rightarrow> world \<Rightarrow> poll_result" where
  "poll_tcp transport peer w =
     (case do_select w of
        (SelectError n, w) \<Rightarrow>
          (LS_TRANSPORT_CONNECT_FAILED,
           transport_set_error (int n) ''TCP connection readiness check failed'' transport, w)
      | (SelectNone, w) \<Rightarrow> (LS_TRANSPORT_CONNECT_PENDING, transport, w)
      | (SelectReady, w) \<Rightarrow>
          (case do_so_error w of
             (socket_error, w) \<Rightarrow>
               (if \<not> peer_address peer then
                  (LS_TRANSPORT_CONNECT_FAILED,
                   transport_set_error (int EINVAL) ''Invalid recipient IPv4 address'' transport, w)
                else case do_connect (w\<lparr>w_errno := 0\<rparr>) of
                  ((probe_result, error), w) \<Rightarrow>
                    (let probe_error = (if probe_result < 0 then error else 0);
                         transport = transport\<lparr>tp_last_connect_so_error := socket_error,
                                               tp_last_connect_probe_error := int probe_error\<rparr>
                     in case ls_socket_classify_connect_result probe_result probe_error of
                          LS_SOCKET_CONNECT_PENDING \<Rightarrow> (LS_TRANSPORT_CONNECT_PENDING, transport, w)
                        | LS_SOCKET_CONNECT_FAILED \<Rightarrow>
                            (LS_TRANSPORT_CONNECT_FAILED,
                             transport_set_error (int probe_error) ''TCP connection failed'' transport,
                             w\<lparr>w_errno := probe_error\<rparr>)
                        | LS_SOCKET_CONNECT_COMPLETE \<Rightarrow>
                            (LS_TRANSPORT_CONNECT_READY, transport\<lparr>tp_tcp_connected := True\<rparr>, w)))))"

definition poll_tls :: "LsOutgoingTransport \<Rightarrow> world \<Rightarrow> poll_result" where
  "poll_tls transport w =
     (case tp_tls_state transport of
        None \<Rightarrow> (LS_TRANSPORT_CONNECT_FAILED, transport, w)
      | Some tls \<Rightarrow>
          (case tls_call (tp_fd transport)
                  (tls\<lparr>ts_tcp_logged := True, ts_handshake_started := True, ts_socket_errno := 0\<rparr>, w) of
             (a, tls, w) \<Rightarrow>
               (let transport = transport\<lparr>tp_tls_state := Some tls\<rparr>;
                    result = ta_result a
                in if result = MBEDTLS_ERR_SSL_WANT_READ \<or> result = MBEDTLS_ERR_SSL_WANT_WRITE
                   then (LS_TRANSPORT_CONNECT_PENDING, transport, w)
                   else if result \<noteq> 0 \<or> \<not> ts_peer_verified tls \<or> \<not> ta_peer_certificate a then
                     (LS_TRANSPORT_CONNECT_FAILED,
                      transport_set_error (if result \<noteq> 0 then result else MBEDTLS_ERR_X509_CERT_VERIFY_FAILED)
                        (if ts_verification_error tls \<noteq> [] then ts_verification_error tls
                         else ''TLS handshake or fingerprint verification failed'') transport, w)
                   else (LS_TRANSPORT_CONNECT_READY, transport\<lparr>tp_ready := True\<rparr>, w))))"

definition ls_outgoing_transport_poll :: "LsOutgoingTransport \<Rightarrow> LsDevice \<Rightarrow> world \<Rightarrow> poll_result" where
  "ls_outgoing_transport_poll transport peer w =
     (if tp_fd transport < 0 then (LS_TRANSPORT_CONNECT_FAILED, transport, w)
      else case (if tp_tcp_connected transport then (LS_TRANSPORT_CONNECT_READY, transport, w)
                 else poll_tcp transport peer w) of
        (LS_TRANSPORT_CONNECT_READY, transport, w) \<Rightarrow>
          (if tp_protocol transport = LS_PROTOCOL_HTTP
           then (LS_TRANSPORT_CONNECT_READY, transport\<lparr>tp_ready := True\<rparr>, w)
           else poll_tls transport w)
      | other \<Rightarrow> other)"

text \<open>
  \<open>ssize_t\<close> with \<open>errno\<close>: \<open>EAGAIN\<close> has its own constructor. The text the TLS library takes goes to
  \<open>w_tls_wire\<close>. A ready TLS transport always has its state, so the pointer is not tested.
\<close>

definition send_failed :: "nat \<Rightarrow> send_answer" where
  "send_failed error = (if error = EAGAIN then SendAgain else SendError error)"

definition recv_failed :: "nat \<Rightarrow> recv_answer" where
  "recv_failed error = (if error = EAGAIN then RecvAgain else RecvError error)"

definition not_ready_errno :: "LsOutgoingTransport \<Rightarrow> nat" where
  "not_ready_errno transport = (if tp_fd transport \<ge> 0 then EPERM else EINVAL)"

definition take_tls :: "int \<Rightarrow> string \<Rightarrow> world \<Rightarrow> world" where
  "take_tls fd data w = w\<lparr>w_tls_wire := (w_tls_wire w)(fd := w_tls_wire w fd @ data)\<rparr>"

definition tls_failed :: "int \<Rightarrow> LsTlsTransportState \<Rightarrow> LsOutgoingTransport \<Rightarrow> nat \<times> LsOutgoingTransport" where
  "tls_failed result tls transport =
     (if ts_socket_errno tls \<noteq> 0 then ts_socket_errno tls else errno_number EIO, transport\<lparr>tp_last_error := result\<rparr>)"

definition ls_outgoing_transport_write ::
    "string \<Rightarrow> LsOutgoingTransport \<Rightarrow> world \<Rightarrow> send_answer \<times> LsOutgoingTransport \<times> world" where
  "ls_outgoing_transport_write data transport w =
     (if tp_fd transport < 0 \<or> \<not> tp_ready transport then
        (send_failed (not_ready_errno transport), transport, w\<lparr>w_errno := not_ready_errno transport\<rparr>)
      else case (tp_protocol transport, tp_tls_state transport) of
        (LS_PROTOCOL_HTTPS, Some tls) \<Rightarrow>
          (case tls_call (tp_fd transport) (tls\<lparr>ts_socket_errno := 0\<rparr>, w) of
             (a, tls, w) \<Rightarrow>
               (let transport = transport\<lparr>tp_tls_state := Some tls\<rparr>;
                    result = ta_result a
                in if result = MBEDTLS_ERR_SSL_WANT_READ \<or> result = MBEDTLS_ERR_SSL_WANT_WRITE
                   then (SendAgain, transport, w\<lparr>w_errno := EAGAIN\<rparr>)
                   else if result < 0 then
                     (case tls_failed result tls transport of
                        (error, transport) \<Rightarrow> (send_failed error, transport, w\<lparr>w_errno := error\<rparr>))
                   else (SendSome (min (nat result) (length data)), transport,
                         take_tls (tp_fd transport) (take (nat result) data) w)))
      | (LS_PROTOCOL_HTTPS, None) \<Rightarrow> (SendError EINVAL, transport, w)
      | (LS_PROTOCOL_HTTP, _) \<Rightarrow>
          (case the (or_default (tp_plain_send transport)) (tp_fd transport) data w of (a, w) \<Rightarrow> (a, transport, w)))"

definition ls_outgoing_transport_read ::
    "nat \<Rightarrow> LsOutgoingTransport \<Rightarrow> world \<Rightarrow> recv_answer \<times> LsOutgoingTransport \<times> world" where
  "ls_outgoing_transport_read capacity transport w =
     (if tp_fd transport < 0 \<or> \<not> tp_ready transport then
        (recv_failed (not_ready_errno transport), transport, w\<lparr>w_errno := not_ready_errno transport\<rparr>)
      else case (tp_protocol transport, tp_tls_state transport) of
        (LS_PROTOCOL_HTTPS, Some tls) \<Rightarrow>
          (case tls_call (tp_fd transport) (tls\<lparr>ts_socket_errno := 0\<rparr>, w) of
             (a, tls, w) \<Rightarrow>
               (let transport = transport\<lparr>tp_tls_state := Some tls\<rparr>;
                    result = ta_result a
                in if result = MBEDTLS_ERR_SSL_WANT_READ \<or> result = MBEDTLS_ERR_SSL_WANT_WRITE
                   then (RecvAgain, transport, w\<lparr>w_errno := EAGAIN\<rparr>)
                   else if result = MBEDTLS_ERR_SSL_PEER_CLOSE_NOTIFY \<or> result = 0 then (RecvEof, transport, w)
                   else if result < 0 then
                     (case tls_failed result tls transport of
                        (error, transport) \<Rightarrow> (recv_failed error, transport, w\<lparr>w_errno := error\<rparr>))
                   else if ta_data a = [] then (RecvEof, transport, w)
                   else (RecvData (take capacity (ta_data a)), transport, w)))
      | (LS_PROTOCOL_HTTPS, None) \<Rightarrow> (RecvError EINVAL, transport, w)
      | (LS_PROTOCOL_HTTP, _) \<Rightarrow> (case do_recv (tp_fd transport) capacity w of (a, w) \<Rightarrow> (a, transport, w)))"

definition ls_outgoing_transport_set_plain_send ::
    "sender option \<Rightarrow> LsOutgoingTransport \<Rightarrow> LsOutgoingTransport" where
  "ls_outgoing_transport_set_plain_send function transport =
     (if tp_fd transport < 0 then transport\<lparr>tp_plain_send := or_default function\<rparr> else transport)"

section \<open>A TLS connection is only ever ready for the pinned certificate\<close>

definition accepted_certificate :: "u8 list \<Rightarrow> certificate \<Rightarrow> bool" where
  "accepted_certificate expected crt \<longleftrightarrow>
     ls_tls_certificate_is_valid_self_signed crt \<and> certificate_digest crt = Some expected"

text \<open>The leaf certificates the library has shown for the connection of a descriptor.\<close>

definition presented :: "int \<Rightarrow> world \<Rightarrow> certificate set" where
  "presented fd w = {crt. \<exists>a \<in> set (w_tls_seen w fd). \<exists>flags. VerifyPeer crt 0 flags \<in> set (ta_events a)}"

lemma xor_zero: "a XOR b = 0 \<longleftrightarrow> a = (b :: u8)"
proof
  assume z: "a XOR b = 0"
  have "a = (a XOR b) XOR b" by (simp add: xor.assoc)
  then show "a = b" by (simp add: z)
qed simp

lemma constant_time_fold:
  "fold (\<lambda>(l, r) difference. difference OR (l XOR r)) zs (d :: u8) = 0 \<longleftrightarrow> d = 0 \<and> (\<forall>(l, r) \<in> set zs. l = r)"
  by (induction zs arbitrary: d) (auto simp: or_eq_0_iff xor_zero)

lemma transport_constant_time:
  assumes "length left = length right"
  shows "transport_constant_time_equal left right \<longleftrightarrow> left = right"
  using assms unfolding transport_constant_time_equal_def constant_time_fold
  by (induction left right rule: list_induct2) auto

lemma look_fields:
  "ts_expected_fingerprint (look_at_certificate crt tls) = ts_expected_fingerprint tls"
  "ts_validity (look_at_certificate crt tls) = ls_tls_certificate_check_validity crt"
  "ts_self_signature_result (look_at_certificate crt tls) = ls_tls_certificate_verify_self_signature crt"
  "ts_fingerprint_computed (look_at_certificate crt tls) \<longleftrightarrow>
     crt_raw crt \<noteq> None \<and> crt_raw crt \<noteq> Some [] \<and> certificate_digest crt \<noteq> None"
  "ts_fingerprint_computed (look_at_certificate crt tls) \<Longrightarrow>
     ts_fingerprint_match (look_at_certificate crt tls) =
       transport_constant_time_equal (the (certificate_digest crt)) (ts_expected_fingerprint tls)"
  by (auto simp: look_at_certificate_def Let_def split: option.splits if_splits)

lemma verify_peer_expected [simp]:
  "ts_expected_fingerprint (fst (verify_peer crt depth flags tls)) = ts_expected_fingerprint tls"
  by (simp add: verify_peer_def verification_rejected_def look_fields Let_def)

text \<open>The callback says yes exactly to the leaf whose digest is the expected one.\<close>

lemma verify_peer_verified:
  assumes "length (ts_expected_fingerprint tls) = 32"
  shows "ts_peer_verified (fst (verify_peer crt depth flags tls)) \<longleftrightarrow>
      depth = 0 \<and> crt_raw crt \<noteq> Some [] \<and> accepted_certificate (ts_expected_fingerprint tls) crt"
proof -
  let ?tls = "tls\<lparr>ts_verify_callback_seen := True, ts_generic_verify_flags := flags\<rparr>"
  let ?look = "look_at_certificate crt ?tls"
  have v: "ts_peer_verified (fst (verify_peer crt depth flags tls)) \<longleftrightarrow>
      depth = 0 \<and> ts_validity ?look = LS_TLS_CERTIFICATE_VALIDITY_OK \<and> ts_self_signature_result ?look = 0 \<and>
      ts_fingerprint_computed ?look \<and> ts_fingerprint_match ?look"
    by (simp add: verify_peer_def verification_rejected_def Let_def)
  have len: "length d = length (ts_expected_fingerprint tls)" if "certificate_digest crt = Some d" for d
    using that assms by (auto simp: certificate_digest_def split: sum.splits)
  have raw: "crt_raw crt \<noteq> None" if "ls_tls_certificate_check_validity crt = LS_TLS_CERTIFICATE_VALIDITY_OK"
    using that by (auto simp: ls_tls_certificate_check_validity_def split: if_splits)
  show ?thesis
  proof (cases "ts_fingerprint_computed ?look")
    case True
    then obtain d where d: "certificate_digest crt = Some d" by (auto simp: look_fields(4))
    with True show ?thesis
      unfolding v by (auto simp: look_fields accepted_certificate_def ls_tls_certificate_is_valid_self_signed_def
          transport_constant_time [OF len])
  next
    case False
    then show ?thesis
      unfolding v by (auto simp: look_fields(4) accepted_certificate_def
          ls_tls_certificate_is_valid_self_signed_def dest: raw)
  qed
qed

definition pinned :: "certificate set \<Rightarrow> LsDevice \<Rightarrow> bool" where
  "pinned P peer \<longleftrightarrow> (\<exists>expected crt. ls_tls_fingerprint_parse (fingerprint peer) = Some expected \<and>
     crt \<in> P \<and> accepted_certificate expected crt)"

definition tls_ok :: "certificate set \<Rightarrow> LsDevice \<Rightarrow> LsTlsTransportState \<Rightarrow> bool" where
  "tls_ok P peer tls \<longleftrightarrow>
     ls_tls_fingerprint_parse (fingerprint peer) = Some (ts_expected_fingerprint tls) \<and>
     (ts_peer_verified tls \<longrightarrow> pinned P peer)"

definition transport_ok :: "certificate set \<Rightarrow> LsDevice \<Rightarrow> LsOutgoingTransport \<Rightarrow> bool" where
  "transport_ok P peer tp \<longleftrightarrow>
     (\<forall>tls. tp_tls_state tp = Some tls \<longrightarrow> tls_ok P peer tls) \<and>
     (tp_ready tp \<and> tp_protocol tp = LS_PROTOCOL_HTTPS \<longrightarrow> pinned P peer)"

lemma pinned_mono: "pinned P p \<Longrightarrow> P \<subseteq> Q \<Longrightarrow> pinned Q p"
  by (auto simp: pinned_def)

lemma transport_mono: "transport_ok P p tp \<Longrightarrow> P \<subseteq> Q \<Longrightarrow> transport_ok Q p tp"
  by (auto simp: transport_ok_def tls_ok_def intro: pinned_mono)

lemma tls_io_frame:
  "tls_send fd d (tls, w) = (r, tls', w') \<Longrightarrow> w_tls_seen w' = w_tls_seen w \<and> w_tls_wire w' = w_tls_wire w \<and> w_fs w' = w_fs w \<and>
     ts_expected_fingerprint tls' = ts_expected_fingerprint tls \<and> ts_peer_verified tls' = ts_peer_verified tls"
  "tls_recv fd n (tls, w) = (r', tls', w') \<Longrightarrow> w_tls_seen w' = w_tls_seen w \<and> w_tls_wire w' = w_tls_wire w \<and> w_fs w' = w_fs w \<and>
     ts_expected_fingerprint tls' = ts_expected_fingerprint tls \<and> ts_peer_verified tls' = ts_peer_verified tls"
  by (auto simp: tls_send_def tls_recv_def do_send_def do_recv_def Let_def
      split: list.splits send_answer.splits recv_answer.splits if_splits)

lemma event_run:
  assumes "tls_event_run fd e (tls, w) = (tls', w')"
  shows "w_tls_seen w' = w_tls_seen w \<and> w_tls_wire w' = w_tls_wire w \<and> w_fs w' = w_fs w \<and>
    (\<forall>p. tls_ok P p tls \<longrightarrow> (\<forall>crt flags. e = VerifyPeer crt 0 flags \<longrightarrow> crt \<in> P) \<longrightarrow> tls_ok P p tls')"
proof (cases e)
  case (VerifyPeer crt depth flags)
  with assms have t: "tls' = fst (verify_peer crt depth flags tls)" "w' = w" by auto
  have "tls_ok P p tls'" if "tls_ok P p tls" "depth = 0 \<Longrightarrow> crt \<in> P" for p
  proof -
    from that(1) have "length (ts_expected_fingerprint tls) = 32"
      by (auto simp: tls_ok_def dest: fingerprint_parse_length)
    from verify_peer_verified [OF this, of crt depth flags] that t show ?thesis by (auto simp: tls_ok_def pinned_def)
  qed
  with t VerifyPeer show ?thesis by auto
next
  case (BioSend d)
  with assms obtain r where "tls_send fd d (tls, w) = (r, tls', w')" by (cases "tls_send fd d (tls, w)") auto
  from tls_io_frame(1) [OF this] BioSend show ?thesis by (simp add: tls_ok_def)
next
  case (BioRecv n)
  with assms obtain r where "tls_recv fd n (tls, w) = (r, tls', w')" by (cases "tls_recv fd n (tls, w)") auto
  from tls_io_frame(2) [OF this] BioRecv show ?thesis by (simp add: tls_ok_def)
qed

lemma events_run:
  assumes "fold (tls_event_run fd) es (tls, w) = (tls', w')"
    and "\<And>crt flags. VerifyPeer crt 0 flags \<in> set es \<Longrightarrow> crt \<in> P"
  shows "w_tls_seen w' = w_tls_seen w \<and> w_tls_wire w' = w_tls_wire w \<and> w_fs w' = w_fs w \<and>
    (tls_ok P p tls \<longrightarrow> tls_ok P p tls')"
  using assms
proof (induction es arbitrary: tls w)
  case (Cons e es)
  obtain tls1 w1 where e: "tls_event_run fd e (tls, w) = (tls1, w1)" by (cases "tls_event_run fd e (tls, w)")
  with Cons.prems(1) have f: "fold (tls_event_run fd) es (tls1, w1) = (tls', w')" by simp
  have "\<And>crt flags. VerifyPeer crt 0 flags \<in> set es \<Longrightarrow> crt \<in> P" "\<And>crt flags. e = VerifyPeer crt 0 flags \<Longrightarrow> crt \<in> P"
    using Cons.prems(2) by auto
  with Cons.IH [OF f] event_run [OF e, of P] show ?case by auto
qed auto

text \<open>\<open>quiet\<close>: no file is touched and the TLS library takes no text; \<open>calm\<close>: and nothing it has shown is forgotten.\<close>

definition quiet :: "world \<Rightarrow> world \<Rightarrow> bool" where
  "quiet w w' \<longleftrightarrow> w_tls_wire w' = w_tls_wire w \<and> w_fs w' = w_fs w"

definition calm :: "world \<Rightarrow> world \<Rightarrow> bool" where
  "calm w w' \<longleftrightarrow> quiet w w' \<and> (\<forall>fd. presented fd w \<subseteq> presented fd w')"

lemma quiet_refl [simp]: "quiet w w" by (simp add: quiet_def)

lemma quiet_trans: "quiet a b \<Longrightarrow> quiet b c \<Longrightarrow> quiet a c" by (simp add: quiet_def)

lemma calm_refl [simp]: "calm w w" by (simp add: calm_def)

lemma calm_trans: "calm a b \<Longrightarrow> calm b c \<Longrightarrow> calm a c" by (auto simp: calm_def quiet_def)

lemma calm_errno [simp]: "calm w (w'\<lparr>w_errno := n\<rparr>) = calm w w'" "calm (w\<lparr>w_errno := n\<rparr>) w' = calm w w'"
  by (simp_all add: calm_def quiet_def presented_def)

lemma calm_quiet: "calm w w' \<Longrightarrow> quiet w w'" by (simp add: calm_def)

lemma quiet_errno [simp]: "quiet w (w'\<lparr>w_errno := n\<rparr>) = quiet w w'" "quiet (w\<lparr>w_errno := n\<rparr>) w' = quiet w w'"
  by (simp_all add: quiet_def)

lemma transport_calm: "transport_ok (presented fd w) p tp \<Longrightarrow> calm w w' \<Longrightarrow> transport_ok (presented fd w') p tp"
  by (auto simp: calm_def intro: transport_mono)

lemma tls_call_ok:
  assumes "tls_call fd (tls, w) = (a, tls', w')"
  shows "calm w w' \<and> (tls_ok (presented fd w) p tls \<longrightarrow> tls_ok (presented fd w') p tls')"
proof -
  obtain w1 where d: "do_tls fd w = (a, w1)" "fold (tls_event_run fd) (ta_events a) (tls, w1) = (tls', w')"
    using assms(1) by (auto simp: tls_call_def split: prod.splits)
  then have f: "calm w w1" "\<And>crt flags. VerifyPeer crt 0 flags \<in> set (ta_events a) \<Longrightarrow> crt \<in> presented fd w1"
    by (auto simp: do_tls_def calm_def quiet_def presented_def split: list.splits)
  have "tls_ok (presented fd w1) p tls" if "tls_ok (presented fd w) p tls"
    using that f(1) by (auto simp: tls_ok_def calm_def intro: pinned_mono)
  with events_run [OF d(2) f(2), where p = p] f(1) show ?thesis by (auto simp: calm_def quiet_def presented_def)
qed

lemma same_net_calm: "same_net w w' \<Longrightarrow> w_fs w' = w_fs w \<Longrightarrow> calm w w'"
  by (simp add: same_net_def calm_def quiet_def presented_def)

lemma close_calm: "do_close fd w = w1 \<Longrightarrow> calm w w1"
  by (auto simp: do_close_def calm_def quiet_def presented_def)

lemma socket_quiet: "do_socket w = (r, w') \<Longrightarrow> quiet w w'"
  by (auto simp: do_socket_def quiet_def split: list.splits option.splits)

lemma net_calm: "do_net w = (r, w') \<Longrightarrow> calm w w'"
  by (auto simp: do_net_def next_io_def calm_def quiet_def presented_def split: list.splits io_answer.splits)

lemma connect_calm: "do_connect w = (r, w') \<Longrightarrow> calm w w'"
  by (auto simp: do_connect_def calm_def quiet_def presented_def split: list.splits)

lemma select_calm: "do_select w = (r, w') \<Longrightarrow> calm w w'"
  by (auto simp: do_select_def calm_def quiet_def presented_def split: list.splits select_answer.splits)

lemma so_error_calm: "do_so_error w = (r, w') \<Longrightarrow> calm w w'"
  by (auto simp: do_so_error_def calm_def quiet_def presented_def split: list.splits)

lemma recv_calm: "do_recv fd n w = (r, w') \<Longrightarrow> calm w w'"
  by (auto simp: do_recv_def calm_def quiet_def presented_def split: list.splits recv_answer.splits if_splits)

lemma send_calm: "do_send fd d w = (r, w') \<Longrightarrow> calm w w'"
  by (auto simp: do_send_def calm_def quiet_def presented_def split: list.splits send_answer.splits)

lemma simple_calm: "do_simple w = (r, w') \<Longrightarrow> calm w w'"
  by (auto simp: do_simple_def failing_def next_io_def calm_def quiet_def presented_def split: list.splits io_answer.splits)

lemma setup_calm: "do_tls_setup w = (r, w') \<Longrightarrow> calm w w'"
  by (auto simp: do_tls_setup_def calm_def quiet_def presented_def split: list.splits)

text \<open>A connection that has not shown any certificate yet.\<close>

definition fresh_transport :: "LsDevice \<Rightarrow> LsOutgoingTransport \<Rightarrow> bool" where
  "fresh_transport p tp \<longleftrightarrow> \<not> tp_ready tp \<and> (\<forall>P. transport_ok P p tp)"

lemma init_fresh [simp]:
  "fresh_transport p (ls_outgoing_transport_init\<lparr>tp_plain_send := f\<rparr>)" "fresh_transport p ls_outgoing_transport_init"
  "fresh_transport p (ls_outgoing_transport_init\<lparr>tp_plain_send := f, tp_protocol := q\<rparr>)"
  by (simp_all add: fresh_transport_def transport_ok_def ls_outgoing_transport_init_def)

lemma fresh_fields [simp]:
  "fresh_transport p (transport_set_error e m tp) = fresh_transport p tp"
  "fresh_transport p (tp\<lparr>tp_fd := fd\<rparr>) = fresh_transport p tp"
  "fresh_transport p (tp\<lparr>tp_tcp_connected := b\<rparr>) = fresh_transport p tp"
  by (simp_all add: fresh_transport_def transport_ok_def transport_set_error_def)

lemma set_error_fields [simp]:
  "tp_fd (transport_set_error e m tp) = tp_fd tp" "tp_protocol (transport_set_error e m tp) = tp_protocol tp"
  "tp_plain_send (transport_set_error e m tp) = tp_plain_send tp"
  "tp_ready (transport_set_error e m tp) = tp_ready tp"
  by (simp_all add: transport_set_error_def)

lemma set_error_ok [simp]: "transport_ok P p (transport_set_error e m tp) = transport_ok P p tp"
  by (simp add: transport_ok_def transport_set_error_def)

lemma transport_close_ok:
  assumes "ls_outgoing_transport_close tp w = (tp', w')"
  shows "tp' = ls_outgoing_transport_init\<lparr>tp_plain_send := or_default (tp_plain_send tp)\<rparr> \<and> calm w w'"
proof -
  let ?w1 = "case tp_tls_state tp of None \<Rightarrow> w
    | Some tls \<Rightarrow> if tp_tcp_connected tp then snd (snd (tls_call (tp_fd tp) (tls, w))) else w"
  have "calm w ?w1"
  proof (cases "tp_tls_state tp")
    case (Some tls)
    obtain a tls' w1 where "tls_call (tp_fd tp) (tls, w) = (a, tls', w1)" by (metis prod_cases3)
    with tls_call_ok [OF this] Some show ?thesis by simp
  qed simp
  moreover have "calm ?w1 (if tp_fd tp \<ge> 0 then do_close (tp_fd tp) ?w1 else ?w1)"
    by (simp only: close_calm [OF refl] calm_refl split: if_split) simp
  ultimately have "calm w (if tp_fd tp \<ge> 0 then do_close (tp_fd tp) ?w1 else ?w1)" by (rule calm_trans)
  with assms(1) show ?thesis
    unfolding ls_outgoing_transport_close_def Let_def by (simp only: prod.inject)
qed

lemma setup_step_calm: "setup_step (r, w) = (r', w') \<Longrightarrow> calm w w'"
  by (auto simp: setup_step_def setup_calm split: if_splits)

lemma new_state_fresh:
  "ls_tls_fingerprint_parse (fingerprint p) = Some d \<Longrightarrow> fresh_transport p tp \<Longrightarrow>
     fresh_transport p (tp\<lparr>tp_tls_state := Some (new_tls_state d)\<rparr>)"
  by (simp add: fresh_transport_def transport_ok_def tls_ok_def new_tls_state_def)

lemma tls_state_create_ok:
  assumes "tls_state_create p identity tp w = (b, tp', w')" and "fresh_transport p tp"
  shows "fresh_transport p tp' \<and> tp_fd tp' = tp_fd tp \<and> tp_protocol tp' = tp_protocol tp \<and>
    tp_plain_send tp' = tp_plain_send tp \<and> calm w w'"
proof -
  obtain r1 w1 r2 w2 r3 w3 r4 w4 ok w0 where s: "do_simple w = (ok, w0)" "setup_step (0, w0) = (r1, w1)"
    "setup_step (r1, w1) = (r2, w2)" "setup_step (r2, w2) = (r3, w3)" "setup_step (r3, w3) = (r4, w4)"
    by (metis surj_pair)
  then have "calm w w0" "calm w0 w4" by (meson calm_trans setup_step_calm simple_calm)+
  then have c: "calm w w0" "calm w w4" by (auto intro: calm_trans)
  show ?thesis
  proof (cases "ls_tls_fingerprint_parse (fingerprint p)")
    case None
    with assms show ?thesis by (auto simp: tls_state_create_def split: option.splits)
  next
    case (Some d)
    from assms(1) consider "tp' = transport_set_error (int EINVAL) ''HTTPS peer has an invalid fingerprint'' tp" "w' = w"
      | "tp' = transport_set_error (int ENOMEM) ''TLS state allocation failed'' tp" "w' = w0"
      | m where "tp' = transport_set_error r4 m tp" "w' = w4"
      | "tp' = tp\<lparr>tp_tls_state := Some (new_tls_state d)\<rparr>" "w' = w4"
      unfolding tls_state_create_def by (auto simp: s Some split: option.splits if_splits bool.splits)
    then show ?thesis
    proof cases
      case 4
      with new_state_fresh [OF Some assms(2)] c show ?thesis by simp
    qed (use assms(2) c in simp_all)
  qed
qed

lemma close_with_errno_ok:
  assumes "close_with_errno e (tp, w) = (b, tp', w')"
  shows "\<not> b \<and> tp' = ls_outgoing_transport_init\<lparr>tp_plain_send := or_default (tp_plain_send tp)\<rparr> \<and> calm w w'"
proof -
  obtain tp1 w1 where c: "ls_outgoing_transport_close tp w = (tp1, w1)" by (metis surj_pair)
  with assms(1) transport_close_ok [OF c] show ?thesis by (auto simp: close_with_errno_def)
qed

lemma set_nonblocking_calm: "transport_set_nonblocking w = (b, w') \<Longrightarrow> calm w w'"
  by (auto simp: transport_set_nonblocking_def split: prod.splits if_splits dest!: net_calm intro: calm_trans)

text \<open>The post-condition of every part of \<open>ls_outgoing_transport_begin\<close>, from its own start.\<close>

definition begun :: "LsDevice \<Rightarrow> LsOutgoingTransport \<Rightarrow> world \<Rightarrow> bool \<times> LsOutgoingTransport \<times> world \<Rightarrow> bool" where
  "begun p tp w = (\<lambda>(b, tp', w'). fresh_transport p tp' \<and> (b \<longrightarrow> tp_protocol tp' = protocol p \<and> peer_address p) \<and>
     or_default (tp_plain_send tp') = or_default (tp_plain_send tp) \<and> quiet w w')"

lemma begun_close:
  assumes "quiet w v" and "or_default (tp_plain_send tp1) = or_default (tp_plain_send tp)"
  shows "begun p tp w (close_with_errno e (tp1, v))"
proof -
  obtain b tp' w' where c: "close_with_errno e (tp1, v) = (b, tp', w')" by (metis prod_cases3)
  from close_with_errno_ok [OF c] assms(1,2) show ?thesis
    unfolding c by (auto simp: begun_def or_default_def intro: quiet_trans calm_quiet split: option.splits)
qed

lemma begun_connect:
  assumes "fresh_transport p tp" and "tp_protocol tp = protocol p"
  shows "begun p tp w (begin_connect p (tp, w))"
proof -
  obtain r e w1 where co: "do_connect (w\<lparr>w_errno := 0\<rparr>) = ((r, e), w1)" by (metis surj_pair)
  have "calm (w\<lparr>w_errno := 0\<rparr>) w1" by (rule connect_calm [OF co])
  then have c: "quiet w w1" by (simp add: calm_quiet)
  have b: "begun p tp w (True, tp, w1)" "begun p tp w (True, tp\<lparr>tp_tcp_connected := True\<rparr>, w1)" if "peer_address p"
    using c assms that by (simp_all add: begun_def)
  show ?thesis
    unfolding begin_connect_def prod.case co Let_def
    using c by (auto intro!: begun_close b split: LsSocketConnectResult.split)
qed

lemma begun_trans:
  "quiet w v \<Longrightarrow> or_default (tp_plain_send tp1) = or_default (tp_plain_send tp) \<Longrightarrow> begun p tp1 v r \<Longrightarrow> begun p tp w r"
  by (auto simp: begun_def intro: quiet_trans)

lemma begun_socket:
  assumes "fresh_transport p tp" and "tp_protocol tp = protocol p"
  shows "begun p tp w (begin_socket p (tp, w))"
proof -
  obtain fd w1 where s: "do_socket w = (fd, w1)" by (metis surj_pair)
  let ?tp = "tp\<lparr>tp_fd := (case fd of None \<Rightarrow> -1 | Some fd \<Rightarrow> fd)\<rparr>"
  obtain ok w2 where nb: "transport_set_nonblocking w1 = (ok, w2)" by (metis surj_pair)
  have c: "quiet w w1" "quiet w w2"
    using socket_quiet [OF s] set_nonblocking_calm [OF nb] by (auto intro: quiet_trans calm_quiet)
  have i: "fresh_transport p ?tp" "tp_protocol ?tp = protocol p"
    "or_default (tp_plain_send ?tp) = or_default (tp_plain_send tp)"
    using assms by simp_all
  show ?thesis
    unfolding begin_socket_def prod.case s Let_def nb
    using begun_close [OF c(1) i(3)] begun_close [OF c(2) i(3)]
      begun_trans [OF c(2) i(3) begun_connect [OF i(1,2)]] by (simp split: bool.split)
qed

lemma transport_begin_ok: "begun p tp w (ls_outgoing_transport_begin tp p identity w)"
proof -
  obtain tp1 w1 where c: "ls_outgoing_transport_close tp w = (tp1, w1)" by (metis surj_pair)
  note c' = transport_close_ok [OF c]
  let ?tp1 = "tp1\<lparr>tp_protocol := protocol p\<rparr>"
  have i: "fresh_transport p ?tp1" "or_default (tp_plain_send ?tp1) = or_default (tp_plain_send tp)"
    using c' by (simp_all add: or_default_def split: option.split)
  obtain b2 tp2 w2 where t: "(if protocol p = LS_PROTOCOL_HTTPS then tls_state_create p identity ?tp1 w1
      else (True, ?tp1, w1)) = (b2, tp2, w2)" by (metis prod_cases3)
  have t': "fresh_transport p tp2" "tp_protocol tp2 = protocol p"
    "or_default (tp_plain_send tp2) = or_default (tp_plain_send tp)" "calm w1 w2"
    using t i tls_state_create_ok [of p identity ?tp1 w1 b2 tp2 w2] by (auto split: if_splits)
  have c2: "quiet w w2" using t'(4) c' by (auto intro: calm_quiet quiet_trans)
  show ?thesis
    unfolding ls_outgoing_transport_begin_def c prod.case Let_def t
    using begun_trans [OF c2(1) t'(3) begun_socket [OF t'(1,2)]] t' c2
    by (simp add: begun_def split: bool.split)
qed


section \<open>Polling, writing and reading\<close>

text \<open>
  The text of a connection: what the peer is sent, inside TLS or plain. An operation \<open>runs\<close> when it
  keeps the descriptor, what is known of the certificate, the files and the text.
\<close>

definition connection_text :: "LsOutgoingTransport \<Rightarrow> world \<Rightarrow> string" where
  "connection_text tp w = (if tp_protocol tp = LS_PROTOCOL_HTTPS then w_tls_wire w else w_wire w) (tp_fd tp)"

definition same_transport :: "LsOutgoingTransport \<Rightarrow> LsOutgoingTransport \<Rightarrow> bool" where
  "same_transport tp tp' \<longleftrightarrow> tp_fd tp' = tp_fd tp \<and> tp_protocol tp' = tp_protocol tp \<and> tp_plain_send tp' = tp_plain_send tp"

lemma same_transport_refl [simp]: "same_transport tp tp" by (simp add: same_transport_def)

lemma same_transport_trans: "same_transport a b \<Longrightarrow> same_transport b c \<Longrightarrow> same_transport a c"
  by (simp add: same_transport_def)

definition runs :: "LsDevice \<Rightarrow> LsOutgoingTransport \<Rightarrow> world \<Rightarrow> LsOutgoingTransport \<Rightarrow> world \<Rightarrow> bool" where
  "runs p tp w tp' w' \<longleftrightarrow> same_transport tp tp' \<and> calm w w' \<and> connection_text tp' w' = connection_text tp w \<and>
     (transport_ok (presented (tp_fd tp) w) p tp \<longrightarrow> transport_ok (presented (tp_fd tp) w') p tp')"

lemma runs_trans: "runs p a u b v \<Longrightarrow> runs p b v c w \<Longrightarrow> runs p a u c w"
  by (auto simp: runs_def same_transport_def intro: calm_trans)

lemma connection_text_fields [simp]:
  "connection_text (tp\<lparr>tp_last_connect_so_error := x\<rparr>) w = connection_text tp w"
  "connection_text (tp\<lparr>tp_last_connect_probe_error := y\<rparr>) w = connection_text tp w"
  "connection_text (tp\<lparr>tp_tcp_connected := b\<rparr>) w = connection_text tp w"
  "connection_text (tp\<lparr>tp_last_error := e\<rparr>) w = connection_text tp w"
  "connection_text (tp\<lparr>tp_ready := b\<rparr>) w = connection_text tp w"
  "connection_text (tp\<lparr>tp_tls_state := s\<rparr>) w = connection_text tp w"
  "connection_text (transport_set_error e m tp) w = connection_text tp w"
  "connection_text tp (w\<lparr>w_errno := n\<rparr>) = connection_text tp w"
  by (simp_all add: connection_text_def)

lemma transport_ok_fields [simp]:
  "transport_ok P p (tp\<lparr>tp_last_connect_so_error := x\<rparr>) = transport_ok P p tp"
  "transport_ok P p (tp\<lparr>tp_last_connect_probe_error := y\<rparr>) = transport_ok P p tp"
  "transport_ok P p (tp\<lparr>tp_tcp_connected := b\<rparr>) = transport_ok P p tp"
  "transport_ok P p (tp\<lparr>tp_last_error := e\<rparr>) = transport_ok P p tp"
  by (simp_all add: transport_ok_def)

lemma runs_error [simp]: "runs p tp w (transport_set_error e m tp') w' = runs p tp w tp' w'"
  by (simp add: runs_def same_transport_def)

lemma runs_errno [simp]: "runs p tp w tp' (w'\<lparr>w_errno := n\<rparr>) = runs p tp w tp' w'"
  by (simp add: runs_def presented_def)

lemma runs_world:
  assumes "calm w w'" and "w_wire w' = w_wire w"
  shows "runs p tp w tp w'"
  using assms transport_calm [OF _ assms(1), of "tp_fd tp" p tp]
  by (simp add: runs_def connection_text_def calm_def quiet_def)

lemma runs_fields:
  assumes "runs p tp w tp' w'"
  shows "runs p tp w (tp'\<lparr>tp_last_connect_so_error := x, tp_last_connect_probe_error := y\<rparr>) w'"
    "runs p tp w (tp'\<lparr>tp_tcp_connected := b\<rparr>) w'"
    "runs p tp w (tp'\<lparr>tp_last_connect_so_error := x, tp_last_connect_probe_error := y, tp_tcp_connected := b\<rparr>) w'"
    "runs p tp w (tp'\<lparr>tp_last_error := e\<rparr>) w'"
  using assms by (simp_all add: runs_def same_transport_def)

lemma poll_tcp_runs:
  assumes "poll_tcp tp p w = (r, tp', w')"
  shows "runs p tp w tp' w'"
proof -
  obtain sel w1 where s: "do_select w = (sel, w1)" by (metis surj_pair)
  obtain so w2 where so: "do_so_error w1 = (so, w2)" by (metis surj_pair)
  obtain c e w3 where co: "do_connect (w2\<lparr>w_errno := 0\<rparr>) = ((c, e), w3)" by (metis surj_pair)
  have "calm (w2\<lparr>w_errno := 0\<rparr>) w3" by (rule connect_calm [OF co])
  with select_calm [OF s] so_error_calm [OF so]
  have c: "calm w w1" "calm w w2" "calm w w3" by (auto intro: calm_trans)
  have "w_wire w1 = w_wire w" "w_wire w2 = w_wire w" "w_wire w3 = w_wire w"
    using s so co by (auto simp: do_select_def do_so_error_def do_connect_def split: list.splits select_answer.splits)
  then have k: "runs p tp w tp w1" "runs p tp w tp w2" "runs p tp w tp w3" using c by (auto intro: runs_world)
  have "case poll_tcp tp p w of (r, tp', w') \<Rightarrow> runs p tp w tp' w'"
    unfolding poll_tcp_def s so prod.case co Let_def
    by (auto simp: k runs_fields [OF k(3)] split: select_answer.split LsSocketConnectResult.split)
  with assms show ?thesis by simp
qed

lemma tls_runs:
  assumes "tls_call (tp_fd tp) (tls1, w) = (a, tls2, w')" and "tp_tls_state tp = Some tls"
    and "tp_protocol tp = LS_PROTOCOL_HTTPS"
    and "ts_expected_fingerprint tls1 = ts_expected_fingerprint tls" "ts_peer_verified tls1 = ts_peer_verified tls"
  shows "runs p tp w (tp\<lparr>tp_tls_state := Some tls2\<rparr>) w' \<and>
    (transport_ok (presented (tp_fd tp) w) p tp \<longrightarrow> tls_ok (presented (tp_fd tp) w') p tls2)"
proof -
  note c = tls_call_ok [OF assms(1), of p]
  have "tls_ok (presented (tp_fd tp) w') p tls2" if "transport_ok (presented (tp_fd tp) w) p tp"
    using that c assms(2,4,5) by (auto simp: transport_ok_def tls_ok_def)
  moreover from this have "transport_ok (presented (tp_fd tp) w') p (tp\<lparr>tp_tls_state := Some tls2\<rparr>)"
    if "transport_ok (presented (tp_fd tp) w) p tp"
    using that transport_calm [OF that, of w'] c by (simp add: transport_ok_def)
  moreover have "same_transport tp (tp\<lparr>tp_tls_state := Some tls2\<rparr>)"
    "connection_text (tp\<lparr>tp_tls_state := Some tls2\<rparr>) w' = connection_text tp w"
    using c assms(3) by (simp_all add: same_transport_def connection_text_def calm_def quiet_def)
  ultimately show ?thesis using c by (simp add: runs_def)
qed

lemma poll_tls_runs:
  assumes "poll_tls tp w = (r, tp', w')" and "tp_protocol tp = LS_PROTOCOL_HTTPS"
  shows "runs p tp w tp' w'"
proof (cases "tp_tls_state tp")
  case None
  with assms show ?thesis by (auto simp: poll_tls_def runs_world)
next
  case (Some tls)
  let ?tls = "tls\<lparr>ts_tcp_logged := True, ts_handshake_started := True, ts_socket_errno := 0\<rparr>"
  obtain a tls2 w2 where c: "tls_call (tp_fd tp) (?tls, w) = (a, tls2, w2)" by (metis prod_cases3)
  have t: "runs p tp w (tp\<lparr>tp_tls_state := Some tls2\<rparr>) w2"
    "transport_ok (presented (tp_fd tp) w) p tp \<Longrightarrow> tls_ok (presented (tp_fd tp) w2) p tls2"
    using tls_runs [OF c Some assms(2), of p] by simp_all
  have "runs p tp w (tp\<lparr>tp_tls_state := Some tls2, tp_ready := True\<rparr>) w2" if "ts_peer_verified tls2"
    using t that by (auto simp: runs_def same_transport_def connection_text_def transport_ok_def tls_ok_def)
  with t(1) show ?thesis
    using assms(1) unfolding poll_tls_def Some option.case c prod.case Let_def by (auto split: if_splits)
qed

lemma transport_poll_runs:
  assumes "ls_outgoing_transport_poll tp p w = (r, tp', w')"
  shows "runs p tp w tp' w'"
proof (cases "tp_fd tp < 0")
  case True
  with assms show ?thesis by (auto simp: ls_outgoing_transport_poll_def runs_world)
next
  case False
  obtain r1 tp1 w1 where t: "(if tp_tcp_connected tp then (LS_TRANSPORT_CONNECT_READY, tp, w) else poll_tcp tp p w) = (r1, tp1, w1)"
    by (metis prod_cases3)
  have p1: "runs p tp w tp1 w1"
    using t poll_tcp_runs [of tp p w] by (auto simp: runs_world split: if_splits)
  have h: "runs p tp1 w1 (tp1\<lparr>tp_ready := True\<rparr>) w1" if "tp_protocol tp1 = LS_PROTOCOL_HTTP"
    using that by (simp add: runs_def same_transport_def connection_text_def transport_ok_def)
  show ?thesis
    using assms p1 runs_trans [OF p1 h] runs_trans [OF p1 poll_tls_runs]
    unfolding ls_outgoing_transport_poll_def t if_not_P [OF False]
    by (auto split: LsTransportConnectResult.splits if_splits LsProtocol.splits)
       (metis LsProtocol.exhaust)+
qed

lemma poll_ready:
  assumes "ls_outgoing_transport_poll tp p w = (LS_TRANSPORT_CONNECT_READY, tp', w')"
  shows "tp_ready tp'"
  using assms unfolding ls_outgoing_transport_poll_def poll_tls_def Let_def
  by (auto split: if_splits prod.splits LsTransportConnectResult.splits option.splits)


text \<open>A write: what the connection takes is a prefix of the data, in TLS only after the pin has been checked.\<close>

definition wrote :: "LsDevice \<Rightarrow> string \<Rightarrow> LsOutgoingTransport \<Rightarrow> world \<Rightarrow> send_answer \<Rightarrow> LsOutgoingTransport \<Rightarrow> world \<Rightarrow> bool" where
  "wrote p data tp w a tp' w' \<longleftrightarrow> same_transport tp tp' \<and> w_fs w' = w_fs w \<and>
     (\<forall>fd. presented fd w \<subseteq> presented fd w') \<and>
     (transport_ok (presented (tp_fd tp) w) p tp \<longrightarrow> transport_ok (presented (tp_fd tp) w') p tp') \<and>
     connection_text tp' w' = connection_text tp w @ (case a of SendSome n \<Rightarrow> take n data | _ \<Rightarrow> []) \<and>
     (\<forall>n. a = SendSome n \<longrightarrow> n \<le> length data \<and> tp_ready tp) \<and>
     (\<forall>fd. w_tls_wire w' fd = w_tls_wire w fd \<or> (fd = tp_fd tp \<and> tp_protocol tp = LS_PROTOCOL_HTTPS \<and> tp_ready tp))"

lemma runs_wrote: "runs p tp w tp' w' \<Longrightarrow> \<forall>n. a \<noteq> SendSome n \<Longrightarrow> wrote p data tp w a tp' w'"
  by (auto simp: runs_def wrote_def calm_def quiet_def split: send_answer.split)

lemma send_failed_not_some [simp]: "send_failed e \<noteq> SendSome n"
  by (simp add: send_failed_def)

lemma transport_write_wrote:
  assumes "ls_outgoing_transport_write data tp w = (a, tp', w')"
    and "or_default (tp_plain_send tp) = Some default_plain_send"
  shows "wrote p data tp w a tp' w'"
proof (cases "tp_fd tp < 0 \<or> \<not> tp_ready tp")
  case True
  with assms(1) have "tp' = tp" "w' = w\<lparr>w_errno := not_ready_errno tp\<rparr>" "\<forall>n. a \<noteq> SendSome n"
    by (auto simp: ls_outgoing_transport_write_def)
  then show ?thesis by (simp add: runs_wrote runs_world)
next
  case False
  note go = assms(1) [unfolded ls_outgoing_transport_write_def if_not_P [OF False]]
  show ?thesis
  proof (cases "tp_protocol tp")
    case LS_PROTOCOL_HTTP
    with go assms(2) have s: "do_send (tp_fd tp) data w = (a, w')" "tp' = tp"
      by (auto simp: default_plain_send_def split: prod.splits)
    have "w_wire w' (tp_fd tp) = w_wire w (tp_fd tp) @ (case a of SendSome n \<Rightarrow> take n data | _ \<Rightarrow> [])"
      "\<forall>n. a = SendSome n \<longrightarrow> n \<le> length data"
      using s(1) by (auto simp: do_send_def min_def split: list.splits send_answer.splits)
    with send_calm [OF s(1)] LS_PROTOCOL_HTTP False s(2) transport_calm [of "tp_fd tp" w p tp w'] show ?thesis
      by (simp add: wrote_def calm_def quiet_def connection_text_def)
  next
    case LS_PROTOCOL_HTTPS
    show ?thesis
    proof (cases "tp_tls_state tp")
      case None
      with go LS_PROTOCOL_HTTPS show ?thesis by (auto simp: runs_wrote runs_world)
    next
      case (Some tls)
      let ?tls = "tls\<lparr>ts_socket_errno := 0\<rparr>"
      obtain b tls2 w1 where c: "tls_call (tp_fd tp) (?tls, w) = (b, tls2, w1)" by (metis prod_cases3)
      have t: "runs p tp w (tp\<lparr>tp_tls_state := Some tls2\<rparr>) w1"
        using tls_runs [OF c Some LS_PROTOCOL_HTTPS, of p] by simp
      from go consider n where "tp' = tp\<lparr>tp_tls_state := Some tls2\<rparr>" "w' = w1\<lparr>w_errno := n\<rparr>" "a = SendAgain"
        | n m where "tp' = tp\<lparr>tp_tls_state := Some tls2, tp_last_error := n\<rparr>" "w' = w1\<lparr>w_errno := m\<rparr>" "a = send_failed m"
        | n where "tp' = tp\<lparr>tp_tls_state := Some tls2\<rparr>" "w' = take_tls (tp_fd tp) (take n data) w1" "a = SendSome (min n (length data))"
        unfolding LS_PROTOCOL_HTTPS Some prod.case option.case LsProtocol.case c Let_def
        by (auto simp: tls_failed_def split: if_splits)
      then show ?thesis
      proof cases
        case 1
        with t show ?thesis by (simp add: runs_wrote)
      next
        case 2
        with runs_fields(4) [OF t, of n] show ?thesis by (simp add: runs_wrote)
      next
        case 3
        with t False LS_PROTOCOL_HTTPS show ?thesis
          by (simp add: wrote_def runs_def take_tls_def calm_def quiet_def connection_text_def same_transport_def
              presented_def min_def)
      qed
    qed
  qed
qed

lemma transport_read_runs:
  assumes "ls_outgoing_transport_read n tp w = (a, tp', w')"
  shows "runs p tp w tp' w'"
proof (cases "tp_fd tp < 0 \<or> \<not> tp_ready tp")
  case True
  with assms show ?thesis by (auto simp: ls_outgoing_transport_read_def runs_world)
next
  case False
  note go = assms(1) [unfolded ls_outgoing_transport_read_def if_not_P [OF False]]
  show ?thesis
  proof (cases "tp_protocol tp")
    case LS_PROTOCOL_HTTP
    with go obtain x where r: "do_recv (tp_fd tp) n w = (x, w')" "tp' = tp" by (auto split: prod.splits)
    then have "w_wire w' = w_wire w" by (auto simp: do_recv_def split: list.splits recv_answer.splits if_splits)
    with r recv_calm [OF r(1)] show ?thesis by (simp add: runs_world)
  next
    case LS_PROTOCOL_HTTPS
    show ?thesis
    proof (cases "tp_tls_state tp")
      case None
      with go LS_PROTOCOL_HTTPS show ?thesis by (auto simp: runs_world)
    next
      case (Some tls)
      let ?tls = "tls\<lparr>ts_socket_errno := 0\<rparr>"
      obtain b tls2 w1 where c: "tls_call (tp_fd tp) (?tls, w) = (b, tls2, w1)" by (metis prod_cases3)
      have t: "runs p tp w (tp\<lparr>tp_tls_state := Some tls2\<rparr>) w1"
        using tls_runs [OF c Some LS_PROTOCOL_HTTPS, of p] by simp
      from go have "(tp' = tp\<lparr>tp_tls_state := Some tls2\<rparr> \<or> (\<exists>m. tp' = tp\<lparr>tp_tls_state := Some tls2, tp_last_error := m\<rparr>)) \<and>
          (w' = w1 \<or> (\<exists>m. w' = w1\<lparr>w_errno := m\<rparr>))"
        unfolding LS_PROTOCOL_HTTPS Some prod.case option.case LsProtocol.case c Let_def
        by (auto simp: tls_failed_def split: if_splits)
      with t runs_fields(4) [OF t] show ?thesis by auto
    qed
  qed
qed

end
