(* ===== verification/Outgoing_Transfer.thy ===== *)
theory Outgoing_Transfer
  imports Http_Response Protocol_Write Filesystem Outgoing_Transport
begin

text \<open>
  \<open>source/outgoing_transfer.c\<close>: the sender's side of a transfer. An operation takes the transfer and
  the world and returns both. \<open>ot_request\<close> holds the \<open>request_length\<close> bytes of the request, \<open>ot_io\<close> the
  \<open>io_length\<close> bytes read from the file; the open file is its path \<open>ot_file_path\<close> and the position
  \<open>ot_file\<close>. Log lines are left out.
\<close>

definition [cap_defs, simp]: "LS3DS_OUTGOING_METADATA_CAPACITY = (3072 :: nat)"
definition [cap_defs, simp]: "LS3DS_OUTGOING_REQUEST_CAPACITY = (4096 :: nat)"
definition [cap_defs, simp]: "LS3DS_OUTGOING_IO_BUFFER_SIZE = (32 * 1024 :: nat)"

definition LS3DS_OUTGOING_CONNECT_TIMEOUT_MS :: u64 where "LS3DS_OUTGOING_CONNECT_TIMEOUT_MS = 10000"
definition LS3DS_OUTGOING_IO_TIMEOUT_MS :: u64 where "LS3DS_OUTGOING_IO_TIMEOUT_MS = 30000"
definition LS3DS_OUTGOING_APPROVAL_TIMEOUT_MS :: u64 where "LS3DS_OUTGOING_APPROVAL_TIMEOUT_MS = 180000"
definition LS3DS_OUTGOING_CANCEL_TIMEOUT_MS :: u64 where "LS3DS_OUTGOING_CANCEL_TIMEOUT_MS = 5000"

lemmas outgoing_timeouts = LS3DS_OUTGOING_CONNECT_TIMEOUT_MS_def LS3DS_OUTGOING_IO_TIMEOUT_MS_def
  LS3DS_OUTGOING_APPROVAL_TIMEOUT_MS_def LS3DS_OUTGOING_CANCEL_TIMEOUT_MS_def

datatype LsOutgoingState =
  LS_OUTGOING_IDLE | LS_OUTGOING_CONNECTING_PREPARE | LS_OUTGOING_SENDING_PREPARE
| LS_OUTGOING_WAITING_FOR_APPROVAL | LS_OUTGOING_CONNECTING_UPLOAD | LS_OUTGOING_SENDING_UPLOAD_HEADERS
| LS_OUTGOING_STREAMING_UPLOAD | LS_OUTGOING_WAITING_FOR_UPLOAD_RESPONSE | LS_OUTGOING_CONNECTING_CANCEL
| LS_OUTGOING_SENDING_CANCEL | LS_OUTGOING_WAITING_FOR_CANCEL_RESPONSE | LS_OUTGOING_COMPLETED
| LS_OUTGOING_REJECTED | LS_OUTGOING_CANCELLED | LS_OUTGOING_FAILED

record LsOutgoingTransfer =
  ot_transport :: LsOutgoingTransport
  ot_tls_identity :: "LsTlsIdentity option"
  ot_state :: LsOutgoingState
  ot_cancel_terminal_state :: LsOutgoingState
  ot_peer :: LsDevice
  ot_file_path :: string
  ot_file_name :: string
  ot_file_id :: string
  ot_session_id :: string
  ot_file_token :: string
  ot_error :: string
  ot_file_size :: u64
  ot_sent_bytes :: u64
  ot_state_changed_ms :: u64
  ot_last_activity_ms :: u64
  ot_remote_status :: int
  ot_file :: "nat option"
  ot_metadata :: string
  ot_request :: string
  ot_request_sent :: nat
  ot_io :: string
  ot_io_sent :: nat
  ot_response :: LsHttpResponse
  ot_send_function :: "sender option"

type_synonym out_state = "LsOutgoingTransfer \<times> world"

definition int_text :: "int \<Rightarrow> string" where
  "int_text n = (if n < 0 then ''-'' @ dec (nat (- n)) else dec (nat n))"

section \<open>Parts\<close>

definition close_socket :: "out_state \<Rightarrow> out_state" where
  "close_socket = (\<lambda>(t, w).
     (case ls_outgoing_transport_close (ot_transport t) w of (tp, w) \<Rightarrow> (t\<lparr>ot_transport := tp\<rparr>, w)))"

definition close_file :: "out_state \<Rightarrow> out_state" where
  "close_file = (\<lambda>(t, w).
     (t\<lparr>ot_file := None, ot_io := [], ot_io_sent := 0\<rparr>, if ot_file t \<noteq> None then snd (do_simple w) else w))"

definition outgoing_invalidate_credentials :: "LsOutgoingTransfer \<Rightarrow> LsOutgoingTransfer" where
  "outgoing_invalidate_credentials t = t\<lparr>ot_session_id := [], ot_file_token := []\<rparr>"

definition set_state :: "LsOutgoingState \<Rightarrow> u64 \<Rightarrow> LsOutgoingTransfer \<Rightarrow> LsOutgoingTransfer" where
  "set_state state now_ms t = t\<lparr>ot_state := state, ot_state_changed_ms := now_ms, ot_last_activity_ms := now_ms\<rparr>"

definition outgoing_set_error :: "string \<Rightarrow> LsOutgoingTransfer \<Rightarrow> LsOutgoingTransfer" where
  "outgoing_set_error message t = t\<lparr>ot_error := take (LS3DS_TRANSFER_ERROR_CAPACITY - 1) message\<rparr>"

text \<open>The order of the enumeration in the comparisons of the source.\<close>

definition cancelling :: "LsOutgoingState \<Rightarrow> bool" where
  "cancelling state \<longleftrightarrow>
     state \<in> {LS_OUTGOING_CONNECTING_CANCEL, LS_OUTGOING_SENDING_CANCEL, LS_OUTGOING_WAITING_FOR_CANCEL_RESPONSE}"

definition ls_outgoing_is_active :: "LsOutgoingTransfer \<Rightarrow> bool" where
  "ls_outgoing_is_active t \<longleftrightarrow>
     ot_state t \<notin> {LS_OUTGOING_IDLE, LS_OUTGOING_COMPLETED, LS_OUTGOING_REJECTED, LS_OUTGOING_CANCELLED,
       LS_OUTGOING_FAILED}"

definition safe_query_char :: "char \<Rightarrow> bool" where
  "safe_query_char c \<longleftrightarrow> isalnum c \<or> c \<in> set ''-_.~''"

fun query_encode_loop :: "nat \<Rightarrow> string \<Rightarrow> string \<Rightarrow> string option" where
  "query_encode_loop capacity [] encoded = Some encoded"
| "query_encode_loop capacity (c # s) encoded =
     (if length encoded + (if safe_query_char c then 1 else 3) \<ge> capacity then None
      else query_encode_loop capacity s
        (encoded @ (if safe_query_char c then [c]
                    else [CHR ''%'', ''0123456789ABCDEF'' ! (byte c div 16), ''0123456789ABCDEF'' ! (byte c mod 16)])))"

definition query_encode :: "string \<Rightarrow> nat \<Rightarrow> string option" where
  "query_encode s capacity = (if capacity = 0 then None else query_encode_loop capacity s [])"

definition host_line :: "LsDevice \<Rightarrow> string" where
  "host_line peer = ''Host: '' @ ip_address peer @ '':'' @ dec (unat (port peer)) @ CRLF"

definition put_request :: "string \<Rightarrow> LsOutgoingTransfer \<Rightarrow> LsOutgoingTransfer" where
  "put_request request t = t\<lparr>ot_request := request, ot_request_sent := 0\<rparr>"

definition append_body :: "string \<Rightarrow> string \<Rightarrow> LsOutgoingTransfer \<Rightarrow> LsOutgoingTransfer option" where
  "append_body header body t =
     (if length header + length body > LS3DS_OUTGOING_REQUEST_CAPACITY then None
      else Some (put_request (header @ body) t))"

definition prepare_head :: "LsDevice \<Rightarrow> nat \<Rightarrow> string" where
  "prepare_head peer metadata_length =
     ''POST /api/localsend/v2/prepare-upload HTTP/1.1'' @ CRLF @ host_line peer @
     ''Content-Type: application/json'' @ CRLF @
     ''Content-Length: '' @ dec metadata_length @ CRLF @ ''Connection: close'' @ CRLF @ CRLF"

definition build_prepare_request :: "LsDevice \<Rightarrow> LsOutgoingTransfer \<Rightarrow> LsOutgoingTransfer option" where
  "build_prepare_request identity t =
     (case ls_protocol_write_prepare_upload_request identity (ot_file_id t) (ot_file_name t) (ot_file_size t)
             ''application/octet-stream'' LS3DS_OUTGOING_METADATA_CAPACITY of
        None \<Rightarrow> None
      | Some metadata \<Rightarrow>
          (let header = prepare_head (ot_peer t) (length metadata) in
           if length header \<ge> 512 then None else append_body header metadata (t\<lparr>ot_metadata := metadata\<rparr>)))"

definition upload_head :: "LsDevice \<Rightarrow> string \<Rightarrow> string \<Rightarrow> string \<Rightarrow> u64 \<Rightarrow> string" where
  "upload_head peer session fileid token filesize =
     ''POST /api/localsend/v2/upload?sessionId='' @ session @ ''&fileId='' @ fileid @ ''&token='' @ token @
     '' HTTP/1.1'' @ CRLF @ host_line peer @ ''Content-Type: application/octet-stream'' @ CRLF @
     ''Content-Length: '' @ dec (unat filesize) @ CRLF @ ''Connection: close'' @ CRLF @ CRLF"

definition build_upload_request :: "LsOutgoingTransfer \<Rightarrow> LsOutgoingTransfer option" where
  "build_upload_request t =
     (case (query_encode (ot_session_id t) (LS3DS_SESSION_ID_CAPACITY * 3),
            query_encode (ot_file_id t) (LS3DS_FILE_ID_CAPACITY * 3),
            query_encode (ot_file_token t) (LS3DS_FILE_TOKEN_CAPACITY * 3)) of
        (Some session, Some fileid, Some token) \<Rightarrow>
          (let request = upload_head (ot_peer t) session fileid token (ot_file_size t) in
           if length request \<ge> LS3DS_OUTGOING_REQUEST_CAPACITY then None else Some (put_request request t))
      | _ \<Rightarrow> None)"

definition cancel_head :: "LsDevice \<Rightarrow> string \<Rightarrow> string" where
  "cancel_head peer session =
     ''POST /api/localsend/v2/cancel?sessionId='' @ session @ '' HTTP/1.1'' @ CRLF @ host_line peer @
     ''Content-Length: 0'' @ CRLF @ ''Connection: close'' @ CRLF @ CRLF"

definition build_cancel_request :: "LsOutgoingTransfer \<Rightarrow> LsOutgoingTransfer option" where
  "build_cancel_request t =
     (case query_encode (ot_session_id t) (LS3DS_SESSION_ID_CAPACITY * 3) of
        None \<Rightarrow> None
      | Some session \<Rightarrow>
          (let request = cancel_head (ot_peer t) session in
           if length request \<ge> LS3DS_OUTGOING_REQUEST_CAPACITY then None else Some (put_request request t)))"

section \<open>Connections and endings\<close>

definition begin_connection :: "LsOutgoingState \<Rightarrow> u64 \<Rightarrow> out_state \<Rightarrow> bool \<times> out_state" where
  "begin_connection connecting_state now_ms st =
     (case close_socket st of
        (t, w) \<Rightarrow>
          (case ls_outgoing_transport_begin
                  (ls_outgoing_transport_set_plain_send (ot_send_function t) (ot_transport t))
                  (ot_peer t) (ot_tls_identity t) w of
             (False, tp, w) \<Rightarrow> (False, t\<lparr>ot_transport := tp\<rparr>, w)
           | (True, tp, w) \<Rightarrow> (True, set_state connecting_state now_ms (t\<lparr>ot_transport := tp\<rparr>), w)))"

definition fail_final :: "u64 \<Rightarrow> out_state \<Rightarrow> out_state" where
  "fail_final now_ms = (\<lambda>(t, w). (set_state LS_OUTGOING_FAILED now_ms (outgoing_invalidate_credentials t), w))"

definition fail_transfer :: "string \<Rightarrow> u64 \<Rightarrow> out_state \<Rightarrow> out_state" where
  "fail_transfer message now_ms = (\<lambda>(t, w).
     (case close_file (close_socket (outgoing_set_error message t, w)) of
        (t, w) \<Rightarrow>
          (if ot_session_id t \<noteq> [] \<and> \<not> cancelling (ot_state t) then
             (let t = t\<lparr>ot_cancel_terminal_state := LS_OUTGOING_FAILED\<rparr> in
              case build_cancel_request t of
                None \<Rightarrow> fail_final now_ms (t, w)
              | Some t \<Rightarrow>
                  (case begin_connection LS_OUTGOING_CONNECTING_CANCEL now_ms (t, w) of
                     (True, st) \<Rightarrow> st
                   | (False, st) \<Rightarrow> fail_final now_ms st))
           else fail_final now_ms (t, w))))"

definition reject_transfer :: "int \<Rightarrow> u64 \<Rightarrow> out_state \<Rightarrow> out_state" where
  "reject_transfer status now_ms st =
     (case close_file (close_socket st) of
        (t, w) \<Rightarrow>
          (set_state LS_OUTGOING_REJECTED now_ms (outgoing_invalidate_credentials
             (outgoing_set_error (''Recipient rejected transfer (HTTP '' @ int_text status @ '')'')
                (t\<lparr>ot_remote_status := status\<rparr>))), w))"

definition finish_cancel :: "int \<Rightarrow> u64 \<Rightarrow> out_state \<Rightarrow> out_state" where
  "finish_cancel status now_ms st =
     (let terminal_state = (if ot_cancel_terminal_state (fst st) = LS_OUTGOING_FAILED then LS_OUTGOING_FAILED
                            else LS_OUTGOING_CANCELLED)
      in case close_file (close_socket st) of
           (t, w) \<Rightarrow>
             (outgoing_invalidate_credentials (set_state terminal_state now_ms (t\<lparr>ot_remote_status := status\<rparr>)), w))"

definition connected_state :: "LsOutgoingState \<Rightarrow> LsOutgoingState" where
  "connected_state state =
     (case state of
        LS_OUTGOING_CONNECTING_PREPARE \<Rightarrow> LS_OUTGOING_SENDING_PREPARE
      | LS_OUTGOING_CONNECTING_UPLOAD \<Rightarrow> LS_OUTGOING_SENDING_UPLOAD_HEADERS
      | LS_OUTGOING_CONNECTING_CANCEL \<Rightarrow> LS_OUTGOING_SENDING_CANCEL
      | _ \<Rightarrow> LS_OUTGOING_FAILED)"

definition last_error_code :: "LsOutgoingTransfer \<Rightarrow> world \<Rightarrow> int" where
  "last_error_code t w =
     (if tp_last_error (ot_transport t) \<noteq> 0 then tp_last_error (ot_transport t) else int (w_errno w))"

definition transport_detail :: "LsOutgoingTransfer \<Rightarrow> string" where
  "transport_detail t = (if tp_error (ot_transport t) \<noteq> [] then tp_error (ot_transport t) else ''network error'')"

definition update_connect :: "u64 \<Rightarrow> out_state \<Rightarrow> out_state" where
  "update_connect now_ms = (\<lambda>(t, w).
     (case ls_outgoing_transport_poll (ot_transport t) (ot_peer t) w of
        (result, tp, w) \<Rightarrow>
          (let t = t\<lparr>ot_transport := tp\<rparr> in
           case result of
             LS_TRANSPORT_CONNECT_PENDING \<Rightarrow> (t, w)
           | LS_TRANSPORT_CONNECT_FAILED \<Rightarrow>
               (if ot_state t = LS_OUTGOING_CONNECTING_CANCEL then finish_cancel 0 now_ms (t, w)
                else fail_transfer (''Connection failed ('' @ transport_detail t @ ''; code '' @
                       int_text (last_error_code t w) @ '')'') now_ms (t, w))
           | LS_TRANSPORT_CONNECT_READY \<Rightarrow> (set_state (connected_state (ot_state t)) now_ms t, w))))"

section \<open>The operations\<close>

definition ls_outgoing_init :: LsOutgoingTransfer where
  "ls_outgoing_init =
     \<lparr>ot_transport = ls_outgoing_transport_init, ot_tls_identity = None, ot_state = LS_OUTGOING_IDLE,
      ot_cancel_terminal_state = LS_OUTGOING_CANCELLED, ot_peer = zero_device, ot_file_path = [],
      ot_file_name = [], ot_file_id = [], ot_session_id = [], ot_file_token = [], ot_error = [],
      ot_file_size = 0, ot_sent_bytes = 0, ot_state_changed_ms = 0, ot_last_activity_ms = 0,
      ot_remote_status = 0, ot_file = None, ot_metadata = [], ot_request = [], ot_request_sent = 0,
      ot_io = [], ot_io_sent = 0, ot_response = ls_http_response_init, ot_send_function = None\<rparr>"

definition ls_outgoing_abort :: "out_state \<Rightarrow> out_state" where
  "ls_outgoing_abort st = close_file (close_socket st)"

definition start_failed_with :: "string \<Rightarrow> u64 \<Rightarrow> out_state \<Rightarrow> bool \<times> out_state" where
  "start_failed_with message now_ms = (\<lambda>(t, w).
     (False, set_state LS_OUTGOING_FAILED now_ms (outgoing_set_error message t), w))"

text \<open>\<open>stat\<close> and \<open>S_ISREG\<close>: the size of a regular file.\<close>

definition regular_file :: "string \<Rightarrow> world \<Rightarrow> u64 option \<times> world" where
  "regular_file path w =
     (case do_stat path w of
        (Inr (FileNode d), w) \<Rightarrow> (Some (of_nat (length d)), w)
      | (_, w) \<Rightarrow> (None, w))"

definition connect_failure :: "string \<Rightarrow> out_state \<Rightarrow> string" where
  "connect_failure what = (\<lambda>(t, w).
     ''Could not connect for '' @ what @ '': '' @ take 127 (transport_detail t) @ '' (code '' @
     int_text (last_error_code t w) @ '')'')"

definition start_request :: "LsDevice \<Rightarrow> u64 \<Rightarrow> out_state \<Rightarrow> bool \<times> out_state" where
  "start_request identity now_ms = (\<lambda>(t, w).
     (case ls_secure_random_uuid w of
        (None, w) \<Rightarrow> start_failed_with ''Could not create prepare-upload metadata'' now_ms (t, w)
      | (Some fileid, w) \<Rightarrow>
          (let t = t\<lparr>ot_file_id := fileid\<rparr> in
           case build_prepare_request identity t of
             None \<Rightarrow> start_failed_with ''Could not create prepare-upload metadata'' now_ms (t, w)
           | Some t \<Rightarrow>
               (case begin_connection LS_OUTGOING_CONNECTING_PREPARE now_ms
                       (t\<lparr>ot_response := ls_http_response_init\<rparr>, w) of
                  (True, st) \<Rightarrow> (True, st)
                | (False, st) \<Rightarrow> (False, fail_transfer (connect_failure ''prepare-upload'' st) now_ms st)))))"

definition ls_outgoing_start ::
    "LsDevice \<Rightarrow> LsTlsIdentity option \<Rightarrow> LsDevice \<Rightarrow> string \<Rightarrow> string \<Rightarrow> u64 \<Rightarrow> out_state \<Rightarrow> bool \<times> out_state" where
  "ls_outgoing_start identity tls_identity peer path filename now_ms st =
     (if ls_outgoing_is_active (fst st) then (False, st)
      else
        (case ls_outgoing_abort st of
           (t, w) \<Rightarrow>
             (let t = ls_outgoing_init\<lparr>ot_send_function := ot_send_function t, ot_tls_identity := tls_identity,
                        ot_peer := peer\<rparr>
              in if protocol peer = LS_PROTOCOL_HTTPS \<and>
                    (case tls_identity of None \<Rightarrow> True | Some i \<Rightarrow> ti_implementation i = None)
                 then start_failed_with ''HTTPS identity is unavailable'' now_ms (t, w)
                 else
                   (case ls_filename_sanitize filename LS3DS_FILENAME_CAPACITY of
                      (filename_result, safe_name) \<Rightarrow>
                        (if path = [] \<or> length path \<ge> LS3DS_PATH_CAPACITY \<or> filename_result \<noteq> LS_FILENAME_OK then
                           start_failed_with ''Selected file is unavailable or has an invalid name'' now_ms (t, w)
                         else case regular_file path w of
                           (None, w) \<Rightarrow>
                             start_failed_with ''Selected file is unavailable or has an invalid name'' now_ms (t, w)
                         | (Some n, w) \<Rightarrow>
                             start_request identity now_ms
                               (t\<lparr>ot_file_path := path, ot_file_name := safe_name, ot_file_size := n\<rparr>, w))))))"

definition request_sent :: "u64 \<Rightarrow> LsOutgoingTransfer \<Rightarrow> LsOutgoingTransfer" where
  "request_sent now_ms t =
     (case ot_state t of
        LS_OUTGOING_SENDING_PREPARE \<Rightarrow>
          set_state LS_OUTGOING_WAITING_FOR_APPROVAL now_ms (t\<lparr>ot_response := ls_http_response_init\<rparr>)
      | LS_OUTGOING_SENDING_UPLOAD_HEADERS \<Rightarrow> set_state LS_OUTGOING_STREAMING_UPLOAD now_ms t
      | LS_OUTGOING_SENDING_CANCEL \<Rightarrow>
          set_state LS_OUTGOING_WAITING_FOR_CANCEL_RESPONSE now_ms (t\<lparr>ot_response := ls_http_response_init\<rparr>)
      | _ \<Rightarrow> t)"

definition fail_or_finish_cancel :: "LsOutgoingState \<Rightarrow> string \<Rightarrow> u64 \<Rightarrow> out_state \<Rightarrow> out_state" where
  "fail_or_finish_cancel cancel_state message now_ms st =
     (if ot_state (fst st) = cancel_state then finish_cancel 0 now_ms st else fail_transfer message now_ms st)"

definition update_request_write :: "u64 \<Rightarrow> out_state \<Rightarrow> out_state" where
  "update_request_write now_ms = (\<lambda>(t, w).
     (case ls_outgoing_transport_write (drop (ot_request_sent t) (ot_request t)) (ot_transport t) w of
        (sent, tp, w) \<Rightarrow>
          (let t = t\<lparr>ot_transport := tp\<rparr> in
           case sent of
             SendAgain \<Rightarrow> (t, w)
           | SendError n \<Rightarrow>
               fail_or_finish_cancel LS_OUTGOING_SENDING_CANCEL
                 (''Network send failed (errno '' @ dec n @ '')'') now_ms (t, w)
           | SendSome n \<Rightarrow>
               (if n = 0 then
                  fail_or_finish_cancel LS_OUTGOING_SENDING_CANCEL
                    ''Connection closed during request write'' now_ms (t, w)
                else
                  (let t = t\<lparr>ot_request_sent := ot_request_sent t + n, ot_last_activity_ms := now_ms\<rparr> in
                   (if ot_request_sent t = length (ot_request t) then request_sent now_ms t else t, w))))))"

definition begin_upload :: "u64 \<Rightarrow> out_state \<Rightarrow> out_state" where
  "begin_upload now_ms st =
     (case close_socket st of
        (t, w) \<Rightarrow>
          (case fopen_read (ot_file_path t) w of
             (Inl _, w) \<Rightarrow> fail_transfer ''Selected file changed or could not be opened'' now_ms (t\<lparr>ot_file := None\<rparr>, w)
           | (Inr d, w) \<Rightarrow>
               (let t = t\<lparr>ot_file := Some 0\<rparr> in
                case do_simple w of
                  (fstat_ok, w) \<Rightarrow>
                    (if \<not> fstat_ok \<or> of_nat (length d) \<noteq> ot_file_size t
                     then fail_transfer ''Selected file changed or could not be opened'' now_ms (t, w)
                     else case build_upload_request t of
                       None \<Rightarrow> fail_transfer ''Could not build upload request'' now_ms (t, w)
                     | Some t \<Rightarrow>
                         (case begin_connection LS_OUTGOING_CONNECTING_UPLOAD now_ms (t, w) of
                            (True, st) \<Rightarrow> st
                          | (False, st) \<Rightarrow> fail_transfer (connect_failure ''upload'' st) now_ms st)))))"

definition handle_prepare_response :: "u64 \<Rightarrow> out_state \<Rightarrow> out_state" where
  "handle_prepare_response now_ms = (\<lambda>(t, w).
     (let status = rs_status_code (ot_response t);
          t = t\<lparr>ot_remote_status := status\<rparr>
      in if status \<in> {204, 401, 403, 409, 429} then reject_transfer status now_ms (t, w)
         else if status \<noteq> 200 then
           fail_transfer (''Unexpected prepare-upload HTTP status '' @ int_text status) now_ms (t, w)
         else case ls_protocol_parse_prepare_upload_response (rs_body (ot_response t)) (ot_file_id t) of
           Inl e \<Rightarrow>
             fail_transfer (''Malformed prepare-upload response: '' @ ls_protocol_parse_result_string e) now_ms (t, w)
         | Inr parsed \<Rightarrow>
             begin_upload now_ms
               (t\<lparr>ot_session_id := response_session_id parsed, ot_file_token := response_file_token parsed\<rparr>, w)))"

definition handle_upload_response :: "u64 \<Rightarrow> out_state \<Rightarrow> out_state" where
  "handle_upload_response now_ms = (\<lambda>(t, w).
     (let status = rs_status_code (ot_response t) in
      case close_file (close_socket (t\<lparr>ot_remote_status := status\<rparr>, w)) of
        (t, w) \<Rightarrow>
          (if status = 200 \<and> ot_sent_bytes t = ot_file_size t then
             (outgoing_invalidate_credentials ((set_state LS_OUTGOING_COMPLETED now_ms t)\<lparr>ot_error := []\<rparr>), w)
           else if status \<in> {401, 403, 409, 429} then reject_transfer status now_ms (t, w)
           else fail_transfer (''Unexpected upload HTTP status '' @ int_text status) now_ms (t, w))))"

definition handle_complete_response :: "u64 \<Rightarrow> out_state \<Rightarrow> out_state" where
  "handle_complete_response now_ms st =
     (if ot_state (fst st) = LS_OUTGOING_WAITING_FOR_APPROVAL then handle_prepare_response now_ms st
      else if ot_state (fst st) = LS_OUTGOING_WAITING_FOR_UPLOAD_RESPONSE then handle_upload_response now_ms st
      else if ot_state (fst st) = LS_OUTGOING_WAITING_FOR_CANCEL_RESPONSE
      then finish_cancel (rs_status_code (ot_response (fst st))) now_ms st
      else st)"

definition take_response :: "u64 \<Rightarrow> LsHttpResponse \<times> LsHttpResponseResult \<Rightarrow> out_state \<Rightarrow> out_state" where
  "take_response now_ms = (\<lambda>(response, result) (t, w).
     (let t = t\<lparr>ot_response := response\<rparr> in
      case result of
        LS_HTTP_RESPONSE_COMPLETE \<Rightarrow> handle_complete_response now_ms (t, w)
      | LS_HTTP_RESPONSE_ERROR \<Rightarrow>
          fail_or_finish_cancel LS_OUTGOING_WAITING_FOR_CANCEL_RESPONSE
            (''Malformed HTTP response: '' @ rs_error response) now_ms (t, w)
      | LS_HTTP_RESPONSE_NEED_MORE \<Rightarrow> (t, w)))"

definition update_response_read :: "u64 \<Rightarrow> out_state \<Rightarrow> out_state" where
  "update_response_read now_ms = (\<lambda>(t, w).
     (case ls_outgoing_transport_read LS3DS_OUTGOING_IO_BUFFER_SIZE (ot_transport t) w of
        (received, tp, w) \<Rightarrow>
          (let t = t\<lparr>ot_transport := tp\<rparr> in
           case received of
             RecvAgain \<Rightarrow> (t, w)
           | RecvError n \<Rightarrow>
               fail_or_finish_cancel LS_OUTGOING_WAITING_FOR_CANCEL_RESPONSE
                 (''Network response read failed (errno '' @ dec n @ '')'') now_ms (t, w)
           | RecvEof \<Rightarrow> take_response now_ms (ls_http_response_finish (ot_response t)) (t, w)
           | RecvData d \<Rightarrow>
               take_response now_ms (ls_http_response_feed (ot_response t) d)
                 (t\<lparr>ot_last_activity_ms := now_ms\<rparr>, w))))"

text \<open>The next block of the file; \<open>None\<close> when this call is over.\<close>

definition read_block :: "u64 \<Rightarrow> out_state \<Rightarrow> out_state + out_state" where
  "read_block now_ms = (\<lambda>(t, w).
     (if ot_io_sent t \<noteq> length (ot_io t) then Inr (t, w)
      else
        (let remaining = ot_file_size t - ot_sent_bytes t in
         if remaining = 0 then
           (case close_file (t, w) of
              (t, w) \<Rightarrow>
                Inl (set_state LS_OUTGOING_WAITING_FOR_UPLOAD_RESPONSE now_ms
                       (t\<lparr>ot_response := ls_http_response_init\<rparr>), w))
         else
           (let wanted = min (unat remaining) LS3DS_OUTGOING_IO_BUFFER_SIZE;
                pos = (case ot_file t of None \<Rightarrow> 0 | Some p \<Rightarrow> p)
            in case do_fread (ot_file_path t) pos wanted w of
                 ((d, failed), w) \<Rightarrow>
                   (let t = t\<lparr>ot_io := d, ot_io_sent := 0, ot_file := Some (pos + length d)\<rparr> in
                    if d = [] then
                      Inl (fail_transfer (if failed then ''SD read failed''
                             else ''Selected file ended before declared size'') now_ms (t, w))
                    else Inr (t, w))))))"

definition update_file_stream :: "u64 \<Rightarrow> out_state \<Rightarrow> out_state" where
  "update_file_stream now_ms st =
     (case read_block now_ms st of
        Inl st \<Rightarrow> st
      | Inr (t, w) \<Rightarrow>
          (case ls_outgoing_transport_write (drop (ot_io_sent t) (ot_io t)) (ot_transport t) w of
             (sent, tp, w) \<Rightarrow>
               (let t = t\<lparr>ot_transport := tp\<rparr> in
                case sent of
                  SendAgain \<Rightarrow> (t, w)
                | SendError n \<Rightarrow> fail_transfer (''Upload connection lost (errno '' @ dec n @ '')'') now_ms (t, w)
                | SendSome n \<Rightarrow>
                    (if n = 0 then fail_transfer ''Upload connection closed by recipient'' now_ms (t, w)
                     else (t\<lparr>ot_io_sent := ot_io_sent t + n, ot_sent_bytes := ot_sent_bytes t + of_nat n,
                             ot_last_activity_ms := now_ms\<rparr>, w)))))"

definition ls_outgoing_cancel :: "u64 \<Rightarrow> out_state \<Rightarrow> bool \<times> out_state" where
  "ls_outgoing_cancel now_ms st =
     (if \<not> ls_outgoing_is_active (fst st) then (False, st)
      else
        (case close_file (close_socket st) of
           (t, w) \<Rightarrow>
             (let t = (outgoing_set_error ''Cancelled locally'' t)\<lparr>ot_cancel_terminal_state := LS_OUTGOING_CANCELLED\<rparr> in
              (True,
               if ot_session_id t = [] then finish_cancel 0 now_ms (t, w)
               else case build_cancel_request t of
                 None \<Rightarrow> finish_cancel 0 now_ms (t, w)
               | Some t \<Rightarrow>
                   (case begin_connection LS_OUTGOING_CONNECTING_CANCEL now_ms (t, w) of
                      (True, st) \<Rightarrow> st
                    | (False, st) \<Rightarrow> finish_cancel 0 now_ms st)))))"

definition timeout_for_state :: "LsOutgoingState \<Rightarrow> u64" where
  "timeout_for_state state =
     (if state = LS_OUTGOING_WAITING_FOR_APPROVAL then LS3DS_OUTGOING_APPROVAL_TIMEOUT_MS
      else if cancelling state then LS3DS_OUTGOING_CANCEL_TIMEOUT_MS
      else if state = LS_OUTGOING_CONNECTING_PREPARE \<or> state = LS_OUTGOING_CONNECTING_UPLOAD
      then LS3DS_OUTGOING_CONNECT_TIMEOUT_MS
      else LS3DS_OUTGOING_IO_TIMEOUT_MS)"

definition outgoing_expired :: "u64 \<Rightarrow> LsOutgoingTransfer \<Rightarrow> bool" where
  "outgoing_expired now_ms t \<longleftrightarrow>
     now_ms \<ge> ot_last_activity_ms t \<and> now_ms - ot_last_activity_ms t \<ge> timeout_for_state (ot_state t)"

definition ls_outgoing_update :: "u64 \<Rightarrow> out_state \<Rightarrow> out_state" where
  "ls_outgoing_update now_ms st =
     (if \<not> ls_outgoing_is_active (fst st) then st
      else if outgoing_expired now_ms (fst st) then
        (if cancelling (ot_state (fst st)) then finish_cancel 0 now_ms st
         else fail_transfer ''Outgoing request timed out'' now_ms st)
      else if ot_state (fst st) \<in> {LS_OUTGOING_CONNECTING_PREPARE, LS_OUTGOING_CONNECTING_UPLOAD,
                LS_OUTGOING_CONNECTING_CANCEL} then update_connect now_ms st
      else if ot_state (fst st) \<in> {LS_OUTGOING_SENDING_PREPARE, LS_OUTGOING_SENDING_UPLOAD_HEADERS,
                LS_OUTGOING_SENDING_CANCEL} then update_request_write now_ms st
      else if ot_state (fst st) \<in> {LS_OUTGOING_WAITING_FOR_APPROVAL, LS_OUTGOING_WAITING_FOR_UPLOAD_RESPONSE,
                LS_OUTGOING_WAITING_FOR_CANCEL_RESPONSE} then update_response_read now_ms st
      else update_file_stream now_ms st)"

definition ls_outgoing_reset :: "LsOutgoingTransfer \<Rightarrow> LsOutgoingTransfer" where
  "ls_outgoing_reset t =
     (if ls_outgoing_is_active t then t else ls_outgoing_init\<lparr>ot_send_function := ot_send_function t\<rparr>)"

definition ls_outgoing_set_send_function :: "sender option \<Rightarrow> LsOutgoingTransfer \<Rightarrow> LsOutgoingTransfer" where
  "ls_outgoing_set_send_function function t =
     (if ls_outgoing_is_active t then t else t\<lparr>ot_send_function := function\<rparr>)"

definition ls_outgoing_state_string :: "LsOutgoingState \<Rightarrow> string" where
  "ls_outgoing_state_string state =
     (case state of
        LS_OUTGOING_IDLE \<Rightarrow> ''idle''
      | LS_OUTGOING_CONNECTING_PREPARE \<Rightarrow> ''connecting''
      | LS_OUTGOING_SENDING_PREPARE \<Rightarrow> ''sending metadata''
      | LS_OUTGOING_WAITING_FOR_APPROVAL \<Rightarrow> ''waiting for recipient''
      | LS_OUTGOING_CONNECTING_UPLOAD \<Rightarrow> ''connecting upload''
      | LS_OUTGOING_SENDING_UPLOAD_HEADERS \<Rightarrow> ''sending upload headers''
      | LS_OUTGOING_STREAMING_UPLOAD \<Rightarrow> ''sending''
      | LS_OUTGOING_WAITING_FOR_UPLOAD_RESPONSE \<Rightarrow> ''finishing''
      | LS_OUTGOING_CONNECTING_CANCEL \<Rightarrow> ''cancelling''
      | LS_OUTGOING_SENDING_CANCEL \<Rightarrow> ''cancelling''
      | LS_OUTGOING_WAITING_FOR_CANCEL_RESPONSE \<Rightarrow> ''cancelling''
      | LS_OUTGOING_COMPLETED \<Rightarrow> ''completed''
      | LS_OUTGOING_REJECTED \<Rightarrow> ''rejected''
      | LS_OUTGOING_CANCELLED \<Rightarrow> ''cancelled''
      | LS_OUTGOING_FAILED \<Rightarrow> ''failed'')"

end
