(* ===== verification/Outgoing_Invariant.thy ===== *)
theory Outgoing_Invariant
  imports Outgoing_Transfer
begin

text \<open>
  What holds of every transfer the operations of \<open>Outgoing_Transfer\<close> can reach: lengths stay in their
  buffers, credentials exist only while the peer knows the session, the text of an upload connection is
  the request followed by the sent part of the file, and TLS takes text only after the pinned
  certificate has been checked (\<open>outgoing_inv\<close>, \<open>sends_pinned\<close>). \<open>updates\<close> says what one update can do;
  from it follows a bound on the time a transfer can stay active.
\<close>


section \<open>The invariant\<close>

text \<open>
  \<open>sender_ok\<close> holds in every state: the connection sends with the default function and knows no more of
  the peer than the TLS library has shown, and every length stays in its buffer. \<open>phase_ok\<close> adds what
  the states promise. In the states of an upload the text of the connection ends with the sent part of
  the request and of the file, and the unsent part of the buffer is what comes next in the file.
\<close>

definition sender_ok :: "out_state \<Rightarrow> bool" where
  "sender_ok = (\<lambda>(t, w).
     or_default (ot_send_function t) = Some default_plain_send \<and>
     or_default (tp_plain_send (ot_transport t)) = Some default_plain_send \<and>
     transport_ok (presented (tp_fd (ot_transport t)) w) (ot_peer t) (ot_transport t) \<and>
     response_ok (ot_response t) \<and>
     ot_request_sent t \<le> length (ot_request t) \<and> length (ot_request t) \<le> LS3DS_OUTGOING_REQUEST_CAPACITY \<and>
     ot_io_sent t \<le> length (ot_io t) \<and> length (ot_io t) \<le> LS3DS_OUTGOING_IO_BUFFER_SIZE \<and>
     length (ot_error t) < LS3DS_TRANSFER_ERROR_CAPACITY)"

definition no_credentials :: "LsOutgoingTransfer \<Rightarrow> bool" where
  "no_credentials t \<longleftrightarrow> ot_session_id t = [] \<and> ot_file_token t = []"

definition uploading :: "LsOutgoingState \<Rightarrow> bool" where
  "uploading state \<longleftrightarrow>
     state \<in> {LS_OUTGOING_CONNECTING_UPLOAD, LS_OUTGOING_SENDING_UPLOAD_HEADERS, LS_OUTGOING_STREAMING_UPLOAD,
       LS_OUTGOING_WAITING_FOR_UPLOAD_RESPONSE}"

definition preparing :: "LsOutgoingState \<Rightarrow> bool" where
  "preparing state \<longleftrightarrow>
     state \<in> {LS_OUTGOING_CONNECTING_PREPARE, LS_OUTGOING_SENDING_PREPARE, LS_OUTGOING_WAITING_FOR_APPROVAL}"

definition pending :: "LsOutgoingTransfer \<Rightarrow> string" where
  "pending t = drop (ot_io_sent t) (ot_io t)"

definition upload_text :: "LsOutgoingTransfer \<Rightarrow> string option" where
  "upload_text t = map_option ot_request (build_upload_request t)"

lemma upload_text_fields [simp]:
  "upload_text (t\<lparr>ot_transport := tp\<rparr>) = upload_text t" "upload_text (t\<lparr>ot_state := s\<rparr>) = upload_text t"
  "upload_text (t\<lparr>ot_state_changed_ms := now\<rparr>) = upload_text t" "upload_text (t\<lparr>ot_last_activity_ms := now\<rparr>) = upload_text t"
  "upload_text (t\<lparr>ot_io := d\<rparr>) = upload_text t" "upload_text (t\<lparr>ot_io_sent := n\<rparr>) = upload_text t"
  "upload_text (t\<lparr>ot_file := f\<rparr>) = upload_text t" "upload_text (t\<lparr>ot_sent_bytes := b\<rparr>) = upload_text t"
  "upload_text (t\<lparr>ot_response := r\<rparr>) = upload_text t" "upload_text (t\<lparr>ot_request := q\<rparr>) = upload_text t"
  "upload_text (t\<lparr>ot_request_sent := n\<rparr>) = upload_text t"
  by (simp_all add: upload_text_def build_upload_request_def put_request_def Let_def split: option.split)

lemma pending_fields [simp]:
  "pending (t\<lparr>ot_transport := tp\<rparr>) = pending t" "pending (t\<lparr>ot_state := s\<rparr>) = pending t"
  "pending (t\<lparr>ot_state_changed_ms := now\<rparr>) = pending t" "pending (t\<lparr>ot_last_activity_ms := now\<rparr>) = pending t"
  "pending (t\<lparr>ot_response := r\<rparr>) = pending t" "pending (t\<lparr>ot_request_sent := n\<rparr>) = pending t"
  "pending (t\<lparr>ot_sent_bytes := b\<rparr>) = pending t"
  by (simp_all add: pending_def)

definition upload_ok :: "string \<Rightarrow> out_state \<Rightarrow> bool" where
  "upload_ok content = (\<lambda>(t, w).
     file_at w (ot_file_path t) = Some content \<and> ot_file_size t = of_nat (length content) \<and>
     ot_session_id t \<noteq> [] \<and> peer_address (ot_peer t) \<and> upload_text t = Some (ot_request t) \<and>
     (\<exists>base. connection_text (ot_transport t) w =
        base @ take (ot_request_sent t) (ot_request t) @ take (unat (ot_sent_bytes t)) content) \<and>
     unat (ot_sent_bytes t) + length (pending t) \<le> unat (ot_file_size t) \<and>
     pending t = take (length (pending t)) (drop (unat (ot_sent_bytes t)) content) \<and>
     (if ot_state t = LS_OUTGOING_WAITING_FOR_UPLOAD_RESPONSE
      then ot_file t = None \<and> ot_sent_bytes t = ot_file_size t
      else ot_file t = Some (unat (ot_sent_bytes t) + length (pending t))) \<and>
     (if ot_state t \<in> {LS_OUTGOING_STREAMING_UPLOAD, LS_OUTGOING_WAITING_FOR_UPLOAD_RESPONSE}
      then ot_request_sent t = length (ot_request t)
      else ot_sent_bytes t = 0 \<and> ot_io t = []))"

definition phase_ok :: "out_state \<Rightarrow> bool" where
  "phase_ok = (\<lambda>(t, w).
     (\<not> ls_outgoing_is_active t \<longrightarrow> no_credentials t \<and> ot_file t = None) \<and>
     (ot_state t = LS_OUTGOING_COMPLETED \<longrightarrow> ot_sent_bytes t = ot_file_size t) \<and>
     (preparing (ot_state t) \<longrightarrow> no_credentials t \<and> ot_file t = None \<and> ot_sent_bytes t = 0 \<and> ot_io t = []) \<and>
     (cancelling (ot_state t) \<longrightarrow> ot_session_id t \<noteq> [] \<and> ot_file t = None) \<and>
     (uploading (ot_state t) \<longrightarrow> (\<exists>content. upload_ok content (t, w))))"

definition outgoing_inv :: "out_state \<Rightarrow> bool" where
  "outgoing_inv st \<longleftrightarrow> sender_ok st \<and> phase_ok st"

lemmas state_groups = ls_outgoing_is_active_def preparing_def cancelling_def uploading_def

lemma inv_uploading: "sender_ok (t, w) \<Longrightarrow> upload_ok content (t, w) \<Longrightarrow> uploading (ot_state t) \<Longrightarrow> outgoing_inv (t, w)"
  by (auto simp: outgoing_inv_def phase_ok_def state_groups)

lemma inv_preparing:
  "sender_ok (t, w) \<Longrightarrow> no_credentials t \<Longrightarrow> ot_file t = None \<Longrightarrow> ot_sent_bytes t = 0 \<Longrightarrow> ot_io t = [] \<Longrightarrow>
     preparing (ot_state t) \<Longrightarrow>
     outgoing_inv (t, w)"
  by (auto simp: outgoing_inv_def phase_ok_def state_groups)

lemma inv_cancelling:
  "sender_ok (t, w) \<Longrightarrow> ot_session_id t \<noteq> [] \<Longrightarrow> ot_file t = None \<Longrightarrow> cancelling (ot_state t) \<Longrightarrow> outgoing_inv (t, w)"
  by (auto simp: outgoing_inv_def phase_ok_def state_groups)

lemma inv_cases:
  assumes "outgoing_inv (t, w)" and "ls_outgoing_is_active t"
  obtains (prep) "sender_ok (t, w)" "no_credentials t" "ot_file t = None" "ot_sent_bytes t = 0" "ot_io t = []" "preparing (ot_state t)"
  | (upload) content where "sender_ok (t, w)" "upload_ok content (t, w)" "uploading (ot_state t)"
  | (cancel) "sender_ok (t, w)" "ot_session_id t \<noteq> []" "ot_file t = None" "cancelling (ot_state t)"
proof -
  have "preparing (ot_state t) \<or> uploading (ot_state t) \<or> cancelling (ot_state t)"
    using assms(2) by (cases "ot_state t"; simp add: state_groups)
  with assms(1) show thesis
    by (auto simp: outgoing_inv_def phase_ok_def intro: prep upload cancel)
qed

lemma file_at_fs: "w_fs w' = w_fs w \<Longrightarrow> file_at w' p = file_at w p"
  by (simp add: file_at_def)

text \<open>What a step may do to the world: no file changes, and TLS takes text for the current connection
  only, after the pin has been checked.\<close>

definition sends_pinned :: "out_state \<Rightarrow> world \<Rightarrow> bool" where
  "sends_pinned = (\<lambda>(t, w) w'. w_fs w' = w_fs w \<and>
     (\<forall>fd. w_tls_wire w' fd = w_tls_wire w fd \<or>
        fd = tp_fd (ot_transport t) \<and> pinned (presented fd w) (ot_peer t)))"

lemma quiet_sends: "quiet w w' \<Longrightarrow> sends_pinned (t, w) w'"
  by (simp add: sends_pinned_def quiet_def)

lemma sends_quiet: "sends_pinned s w' \<Longrightarrow> quiet w' w'' \<Longrightarrow> sends_pinned s w''"
  by (cases s) (simp add: sends_pinned_def quiet_def)

section \<open>Closing and connecting\<close>

lemma init_fields [simp]:
  "tp_plain_send (ls_outgoing_transport_init\<lparr>tp_plain_send := f\<rparr>) = f" "tp_fd ls_outgoing_transport_init = -1"
  by (simp_all add: ls_outgoing_transport_init_def)

lemma close_socket_ok:
  assumes "close_socket (t, w) = (t', w')"
  shows "t' = t\<lparr>ot_transport := ls_outgoing_transport_init\<lparr>tp_plain_send := or_default (tp_plain_send (ot_transport t))\<rparr>\<rparr> \<and>
    calm w w'"
proof -
  obtain tp w1 where c: "ls_outgoing_transport_close (ot_transport t) w = (tp, w1)" by (metis surj_pair)
  from transport_close_ok [OF c] assms show ?thesis by (auto simp: close_socket_def c)
qed

lemma close_file_ok:
  assumes "close_file (t, w) = (t', w')"
  shows "t' = t\<lparr>ot_file := None, ot_io := [], ot_io_sent := 0\<rparr> \<and> calm w w' \<and> w_wire w' = w_wire w"
  using assms simple_calm [of w] 
  by (cases "do_simple w") (auto simp: close_file_def do_simple_def failing_def next_io_def split: if_splits list.splits io_answer.splits)

lemma or_default_simps [simp]: "or_default (or_default f) = or_default f" "or_default (Some g) = Some g"
  by (simp_all add: or_default_def split: option.split)

definition closed_transfer :: "LsOutgoingTransfer \<Rightarrow> LsOutgoingTransfer" where
  "closed_transfer t = t\<lparr>ot_transport := ls_outgoing_transport_init\<lparr>tp_plain_send := or_default (tp_plain_send (ot_transport t))\<rparr>,
     ot_file := None, ot_io := [], ot_io_sent := 0\<rparr>"

lemma closed_ok:
  assumes "close_file (close_socket (t, w)) = (t', w')"
  shows "t' = closed_transfer t \<and> calm w w'"
proof -
  obtain t1 w1 where c: "close_socket (t, w) = (t1, w1)" by (metis surj_pair)
  from close_socket_ok [OF c] close_file_ok [of t1 w1 t' w'] assms c show ?thesis
    by (auto simp: closed_transfer_def intro: calm_trans)
qed

lemma init_transport_ok [simp]: "transport_ok P p (ls_outgoing_transport_init\<lparr>tp_plain_send := f\<rparr>)"
  by (simp add: transport_ok_def ls_outgoing_transport_init_def)

lemma fresh_ok: "fresh_transport p tp \<Longrightarrow> transport_ok P p tp"
  by (simp add: fresh_transport_def)

lemma closed_sender:
  assumes "sender_ok (t, w)"
  shows "sender_ok (closed_transfer t, w')"
  using assms by (simp add: sender_ok_def closed_transfer_def fresh_ok)

lemma begin_connection_ok:
  assumes "begin_connection cs now (t, w) = (b, t', w')" and "sender_ok (t, w)"
  shows "\<exists>tp. t' = (if b then set_state cs now (t\<lparr>ot_transport := tp\<rparr>) else t\<lparr>ot_transport := tp\<rparr>) \<and>
    (b \<longrightarrow> tp_protocol tp = protocol (ot_peer t) \<and> peer_address (ot_peer t))" "quiet w w'" "sender_ok (t', w')"
proof -
  obtain t1 w1 where c: "close_socket (t, w) = (t1, w1)" by (metis surj_pair)
  note t1 = close_socket_ok [OF c]
  let ?tp = "ls_outgoing_transport_set_plain_send (ot_send_function t1) (ot_transport t1)"
  obtain r tp w2 where g: "ls_outgoing_transport_begin ?tp (ot_peer t1) (ot_tls_identity t1) w1 = (r, tp, w2)"
    by (metis prod_cases3)
  have def: "or_default (tp_plain_send ?tp) = Some default_plain_send"
    using t1 assms(2) by (simp add: sender_ok_def ls_outgoing_transport_set_plain_send_def)
  have e: "b = r" "w' = w2" "t' = (if r then set_state cs now (t1\<lparr>ot_transport := tp\<rparr>) else t1\<lparr>ot_transport := tp\<rparr>)"
    using assms(1) by (auto simp: begin_connection_def c g split: bool.splits)
  note k = transport_begin_ok [of "ot_peer t1" ?tp w1 "ot_tls_identity t1", unfolded g begun_def prod.case]
  show "\<exists>tp. t' = (if b then set_state cs now (t\<lparr>ot_transport := tp\<rparr>) else t\<lparr>ot_transport := tp\<rparr>) \<and>
    (b \<longrightarrow> tp_protocol tp = protocol (ot_peer t) \<and> peer_address (ot_peer t))"
    using e t1 k by (intro exI [of _ tp]) simp
  show "quiet w w'" using t1 k e by (auto intro: quiet_trans calm_quiet)
  show "sender_ok (t', w')"
    using e k t1 def assms(2) by (auto simp: sender_ok_def set_state_def intro: fresh_ok)
qed


section \<open>Endings\<close>

definition same_job :: "LsOutgoingTransfer \<Rightarrow> LsOutgoingTransfer \<Rightarrow> bool" where
  "same_job t t' \<longleftrightarrow> ot_file_size t' = ot_file_size t \<and> ot_peer t' = ot_peer t \<and> ot_file_path t' = ot_file_path t \<and>
     ot_file_id t' = ot_file_id t"

text \<open>A step that ends a transfer or, when the peer knows the session, turns to telling it.\<close>

definition ends :: "u64 \<Rightarrow> LsOutgoingState set \<Rightarrow> out_state \<Rightarrow> out_state \<Rightarrow> bool" where
  "ends now states = (\<lambda>(t, w) (t', w'). outgoing_inv (t', w') \<and> quiet w w' \<and> same_job t t' \<and> ot_state t' \<in> states \<and>
     ot_last_activity_ms t' = now)"

lemma same_job_fields [simp]:
  "same_job a (b\<lparr>ot_file := f\<rparr>) = same_job a b" "same_job a (b\<lparr>ot_transport := tp\<rparr>) = same_job a b"
  "same_job a (b\<lparr>ot_response := r\<rparr>) = same_job a b" "same_job a (b\<lparr>ot_remote_status := n\<rparr>) = same_job a b"
  "same_job a (b\<lparr>ot_last_activity_ms := now\<rparr>) = same_job a b" "same_job a (b\<lparr>ot_session_id := x\<rparr>) = same_job a b"
  "same_job a (b\<lparr>ot_file_token := y\<rparr>) = same_job a b" "same_job a (set_state s now b) = same_job a b"
  "same_job a (put_request q b) = same_job a b" "same_job a a"
  by (simp_all add: same_job_def set_state_def put_request_def)

lemma same_job_trans: "same_job a b \<Longrightarrow> same_job b c \<Longrightarrow> same_job a c"
  by (simp add: same_job_def)

lemma fail_final_ends:
  assumes "sender_ok (t, w)" and "ot_file t = None"
  shows "ends now {LS_OUTGOING_FAILED} (t, w) (fail_final now (t, w))"
  using assms by (simp add: ends_def fail_final_def outgoing_inv_def phase_ok_def sender_ok_def set_state_def same_job_def
      outgoing_invalidate_credentials_def no_credentials_def state_groups)

lemma put_sender: "sender_ok (t, w) \<Longrightarrow> length r \<le> LS3DS_OUTGOING_REQUEST_CAPACITY \<Longrightarrow> sender_ok (put_request r t, w)"
  by (simp add: sender_ok_def put_request_def)

lemma build_cancel_put:
  assumes "build_cancel_request t = Some t'"
  shows "\<exists>r. t' = put_request r t \<and> length r \<le> LS3DS_OUTGOING_REQUEST_CAPACITY"
  using assms by (auto simp: build_cancel_request_def Let_def split: option.splits if_splits)

lemma ends_trans:
  "ends now S (t1, w1) r \<Longrightarrow> quiet w w1 \<Longrightarrow> same_job t t1 \<Longrightarrow> S \<subseteq> T \<Longrightarrow> ends now T (t, w) r"
  by (auto simp: ends_def same_job_def intro: quiet_trans)

lemma begin_cancel_ends:
  assumes "begin_connection LS_OUTGOING_CONNECTING_CANCEL now (t, w) = (True, t', w')" and "sender_ok (t, w)"
    and "ot_file t = None" and "ot_session_id t \<noteq> []"
  shows "ends now {LS_OUTGOING_CONNECTING_CANCEL} (t, w) (t', w')"
proof -
  note b = begin_connection_ok [OF assms(1,2)]
  from b(1) obtain tp where "t' = set_state LS_OUTGOING_CONNECTING_CANCEL now (t\<lparr>ot_transport := tp\<rparr>)" by auto
  with b(2,3) assms(3,4) show ?thesis
    by (simp add: ends_def outgoing_inv_def phase_ok_def set_state_def state_groups same_job_def)
qed

lemma begin_connection_fails:
  assumes "begin_connection cs now (t, w) = (False, t', w')" and "sender_ok (t, w)"
  shows "sender_ok (t', w')" "quiet w w'" "same_job t t'" "ot_file t' = ot_file t" "ot_state t' = ot_state t"
    "ot_session_id t' = ot_session_id t"
  using begin_connection_ok [OF assms] by (auto simp: same_job_def)

lemma closed_fields [simp]:
  "ot_file (closed_transfer t) = None" "ot_session_id (closed_transfer t) = ot_session_id t"
  "ot_state (closed_transfer t) = ot_state t" "same_job t (closed_transfer t)"
  "ot_file_token (closed_transfer t) = ot_file_token t" "ot_sent_bytes (closed_transfer t) = ot_sent_bytes t"
  "ot_file_size (closed_transfer t) = ot_file_size t"
  by (simp_all add: closed_transfer_def same_job_def)

lemma error_sender [simp]: "sender_ok (t, w) \<Longrightarrow> sender_ok (outgoing_set_error m t, w)"
  by (simp add: sender_ok_def outgoing_set_error_def)

lemma cancel_attempt_ends:
  assumes "sender_ok (t, w)" and "ot_file t = None" and "ot_session_id t \<noteq> []"
    and final: "\<And>t1 w1. sender_ok (t1, w1) \<Longrightarrow> ot_file t1 = None \<Longrightarrow> ends now S (t1, w1) (f (t1, w1))"
  shows "ends now (insert LS_OUTGOING_CONNECTING_CANCEL S) (t, w)
    (case build_cancel_request t of None \<Rightarrow> f (t, w)
     | Some t \<Rightarrow> (case begin_connection LS_OUTGOING_CONNECTING_CANCEL now (t, w) of (True, st) \<Rightarrow> st | (False, st) \<Rightarrow> f st))"
proof (cases "build_cancel_request t")
  case None
  from final [OF assms(1,2)] have "ends now (insert LS_OUTGOING_CONNECTING_CANCEL S) (t, w) (f (t, w))"
    by (rule ends_trans) (auto simp: same_job_def)
  with None show ?thesis by simp
next
  case (Some t1)
  with build_cancel_put obtain r where r: "t1 = put_request r t" "length r \<le> LS3DS_OUTGOING_REQUEST_CAPACITY" by blast
  then have k: "sender_ok (t1, w)" "ot_file t1 = None" "ot_session_id t1 \<noteq> []" "same_job t t1"
    using assms(1-3) put_sender [OF assms(1) r(2)] by (simp_all add: put_request_def same_job_def)
  obtain b t2 w2 where g: "begin_connection LS_OUTGOING_CONNECTING_CANCEL now (t1, w) = (b, t2, w2)" by (metis prod_cases3)
  show ?thesis
  proof (cases b)
    case True
    with g have "begin_connection LS_OUTGOING_CONNECTING_CANCEL now (t1, w) = (True, t2, w2)" by simp
    from begin_cancel_ends [OF this k(1-3)]
    have "ends now (insert LS_OUTGOING_CONNECTING_CANCEL S) (t, w) (t2, w2)"
      by (rule ends_trans) (use k in auto)
    with Some g True show ?thesis by simp
  next
    case False
    with g have "begin_connection LS_OUTGOING_CONNECTING_CANCEL now (t1, w) = (False, t2, w2)" by simp
    note z = begin_connection_fails [OF this k(1)]
    from final [OF z(1)] z(4) k(2) have "ends now S (t2, w2) (f (t2, w2))" by simp
    then have "ends now (insert LS_OUTGOING_CONNECTING_CANCEL S) (t, w) (f (t2, w2))"
      by (rule ends_trans) (use z k(4) in \<open>auto simp: same_job_def\<close>)
    with Some g False show ?thesis by simp
  qed
qed

lemma fail_transfer_ends:
  assumes "sender_ok (t, w)"
  shows "ends now (if ot_session_id t = [] \<or> cancelling (ot_state t) then {LS_OUTGOING_FAILED}
      else {LS_OUTGOING_CONNECTING_CANCEL, LS_OUTGOING_FAILED}) (t, w) (fail_transfer m now (t, w))"
proof -
  obtain t1 w1 where c: "close_file (close_socket (outgoing_set_error m t, w)) = (t1, w1)" by (metis surj_pair)
  note c' = closed_ok [OF c]
  have k: "sender_ok (t1, w1)" "ot_file t1 = None" "ot_session_id t1 = ot_session_id t" "ot_state t1 = ot_state t"
    "same_job t t1" "quiet w w1"
    using c' closed_sender [OF error_sender [OF assms], of m w1] by (simp_all add: calm_quiet)
      (simp_all add: outgoing_set_error_def same_job_def closed_transfer_def)
  let ?t = "t1\<lparr>ot_cancel_terminal_state := LS_OUTGOING_FAILED\<rparr>"
  have k2: "sender_ok (?t, w1)" using k(1) by (simp add: sender_ok_def)
  have e: "fail_transfer m now (t, w) =
    (if ot_session_id t \<noteq> [] \<and> \<not> cancelling (ot_state t) then
       (case build_cancel_request ?t of None \<Rightarrow> fail_final now (?t, w1)
        | Some t \<Rightarrow> (case begin_connection LS_OUTGOING_CONNECTING_CANCEL now (t, w1) of (True, st) \<Rightarrow> st | (False, st) \<Rightarrow> fail_final now st))
     else fail_final now (t1, w1))"
    by (simp add: fail_transfer_def c k(3,4) Let_def)
  show ?thesis
  proof (cases "ot_session_id t \<noteq> [] \<and> \<not> cancelling (ot_state t)")
    case True
    from cancel_attempt_ends [OF k2 _ _ fail_final_ends, of now] k True
    have "ends now {LS_OUTGOING_CONNECTING_CANCEL, LS_OUTGOING_FAILED} (?t, w1) (fail_transfer m now (t, w))"
      by (simp add: e)
    then have "ends now {LS_OUTGOING_CONNECTING_CANCEL, LS_OUTGOING_FAILED} (t, w) (fail_transfer m now (t, w))"
      by (rule ends_trans) (use k in \<open>auto simp: same_job_def\<close>)
    with True show ?thesis by auto
  next
    case False
    have "ends now {LS_OUTGOING_FAILED} (t, w) (fail_final now (t1, w1))"
      by (rule ends_trans [OF fail_final_ends [OF k(1,2)]]) (simp_all add: k)
    with False e show ?thesis by auto
  qed
qed

lemma reject_transfer_ends:
  assumes "sender_ok (t, w)"
  shows "ends now {LS_OUTGOING_REJECTED} (t, w) (reject_transfer status now (t, w))"
proof -
  obtain t1 w1 where c: "close_file (close_socket (t, w)) = (t1, w1)" by (metis surj_pair)
  note c' = closed_ok [OF c]
  have "sender_ok (closed_transfer t, w1)" by (rule closed_sender [OF assms])
  with c' show ?thesis
    by (simp add: reject_transfer_def c ends_def outgoing_inv_def phase_ok_def state_groups no_credentials_def calm_quiet)
      (simp add: sender_ok_def set_state_def outgoing_invalidate_credentials_def outgoing_set_error_def closed_transfer_def same_job_def)
qed

lemma finish_cancel_ends:
  assumes "sender_ok (t, w)"
  shows "ends now {LS_OUTGOING_FAILED, LS_OUTGOING_CANCELLED} (t, w) (finish_cancel status now (t, w))"
proof -
  obtain t1 w1 where c: "close_file (close_socket (t, w)) = (t1, w1)" by (metis surj_pair)
  note c' = closed_ok [OF c]
  have "sender_ok (closed_transfer t, w1)" by (rule closed_sender [OF assms])
  with c' show ?thesis
    by (simp add: finish_cancel_def c ends_def outgoing_inv_def phase_ok_def state_groups no_credentials_def calm_quiet)
      (simp add: sender_ok_def set_state_def outgoing_invalidate_credentials_def outgoing_set_error_def closed_transfer_def same_job_def)
qed


section \<open>One update\<close>

text \<open>Where an update can take a transfer, and the bytes left to do in a state.\<close>

definition outgoing_next :: "LsOutgoingState \<Rightarrow> LsOutgoingState set" where
  "outgoing_next state =
     (case state of
        LS_OUTGOING_CONNECTING_PREPARE \<Rightarrow> {LS_OUTGOING_SENDING_PREPARE, LS_OUTGOING_FAILED}
      | LS_OUTGOING_SENDING_PREPARE \<Rightarrow> {LS_OUTGOING_WAITING_FOR_APPROVAL, LS_OUTGOING_FAILED}
      | LS_OUTGOING_WAITING_FOR_APPROVAL \<Rightarrow>
          {LS_OUTGOING_CONNECTING_UPLOAD, LS_OUTGOING_REJECTED, LS_OUTGOING_CONNECTING_CANCEL, LS_OUTGOING_FAILED}
      | LS_OUTGOING_CONNECTING_UPLOAD \<Rightarrow>
          {LS_OUTGOING_SENDING_UPLOAD_HEADERS, LS_OUTGOING_CONNECTING_CANCEL, LS_OUTGOING_FAILED}
      | LS_OUTGOING_SENDING_UPLOAD_HEADERS \<Rightarrow>
          {LS_OUTGOING_STREAMING_UPLOAD, LS_OUTGOING_CONNECTING_CANCEL, LS_OUTGOING_FAILED}
      | LS_OUTGOING_STREAMING_UPLOAD \<Rightarrow>
          {LS_OUTGOING_WAITING_FOR_UPLOAD_RESPONSE, LS_OUTGOING_CONNECTING_CANCEL, LS_OUTGOING_FAILED}
      | LS_OUTGOING_WAITING_FOR_UPLOAD_RESPONSE \<Rightarrow>
          {LS_OUTGOING_COMPLETED, LS_OUTGOING_REJECTED, LS_OUTGOING_CONNECTING_CANCEL, LS_OUTGOING_FAILED}
      | LS_OUTGOING_CONNECTING_CANCEL \<Rightarrow> {LS_OUTGOING_SENDING_CANCEL, LS_OUTGOING_CANCELLED, LS_OUTGOING_FAILED}
      | LS_OUTGOING_SENDING_CANCEL \<Rightarrow>
          {LS_OUTGOING_WAITING_FOR_CANCEL_RESPONSE, LS_OUTGOING_CANCELLED, LS_OUTGOING_FAILED}
      | LS_OUTGOING_WAITING_FOR_CANCEL_RESPONSE \<Rightarrow> {LS_OUTGOING_CANCELLED, LS_OUTGOING_FAILED}
      | _ \<Rightarrow> {})"

definition work :: "LsOutgoingTransfer \<Rightarrow> nat" where
  "work t =
     (if ot_state t \<in> {LS_OUTGOING_SENDING_PREPARE, LS_OUTGOING_SENDING_UPLOAD_HEADERS, LS_OUTGOING_SENDING_CANCEL}
      then length (ot_request t) - ot_request_sent t
      else if ot_state t = LS_OUTGOING_STREAMING_UPLOAD then unat (ot_file_size t) - unat (ot_sent_bytes t)
      else if ot_state t \<in> {LS_OUTGOING_WAITING_FOR_APPROVAL, LS_OUTGOING_WAITING_FOR_UPLOAD_RESPONSE,
                LS_OUTGOING_WAITING_FOR_CANCEL_RESPONSE}
      then LS3DS_HTTP_RESPONSE_RAW_CAPACITY - length (rs_raw (ot_response t))
      else 0)"

definition updates :: "u64 \<Rightarrow> out_state \<Rightarrow> out_state \<Rightarrow> bool" where
  "updates now = (\<lambda>(t, w) (t', w'). outgoing_inv (t', w') \<and> sends_pinned (t, w) w' \<and> same_job t t' \<and>
     (ot_state t' \<in> outgoing_next (ot_state t) \<and> ot_last_activity_ms t' = now \<or>
      ot_state t' = ot_state t \<and>
        (ot_last_activity_ms t' = ot_last_activity_ms t \<and> work t' = work t \<or>
         ot_last_activity_ms t' = now \<and> work t' < work t)))"

lemma ends_updates:
  assumes "ends now S (t1, w1) r" and "sends_pinned (t, w) w1" and "same_job t t1" and "S \<subseteq> outgoing_next (ot_state t)"
  shows "updates now (t, w) r"
  using assms by (auto simp: ends_def updates_def same_job_def intro: sends_quiet)

text \<open>What an operation on the connection leaves for the rest of the update.\<close>

definition onward :: "out_state \<Rightarrow> out_state \<Rightarrow> bool" where
  "onward = (\<lambda>(t, w) (t1, w1). sender_ok (t1, w1) \<and> sends_pinned (t, w) w1 \<and> same_job t t1 \<and>
     ot_state t1 = ot_state t \<and> ot_session_id t1 = ot_session_id t)"

lemma fail_updates:
  assumes "outgoing_inv (t, w)" and "ls_outgoing_is_active t" and "\<not> cancelling (ot_state t)" and "onward (t, w) (t1, w1)"
  shows "updates now (t, w) (fail_transfer m now (t1, w1))"
proof -
  have "sender_ok (t1, w1)" using assms(4) by (simp add: onward_def)
  from fail_transfer_ends [OF this, of now m] show ?thesis
    by (rule ends_updates)
       (use assms in \<open>cases "ot_state t"; simp add: onward_def outgoing_inv_def phase_ok_def state_groups no_credentials_def outgoing_next_def\<close>)+
qed

lemma finish_updates:
  assumes "cancelling (ot_state t)" and "onward (t, w) (t1, w1)"
  shows "updates now (t, w) (finish_cancel status now (t1, w1))"
proof -
  have "sender_ok (t1, w1)" using assms(2) by (simp add: onward_def)
  from finish_cancel_ends [OF this, of now status] show ?thesis
    by (rule ends_updates)
       (use assms in \<open>cases "ot_state t"; simp add: onward_def state_groups outgoing_next_def\<close>)+
qed

lemma fail_or_finish_updates:
  assumes "outgoing_inv (t, w)" and "ls_outgoing_is_active t" and "onward (t, w) (t1, w1)"
    and "cancelling (ot_state t) \<longleftrightarrow> ot_state t = cs"
  shows "updates now (t, w) (fail_or_finish_cancel cs m now (t1, w1))"
  using assms fail_updates [OF assms(1,2) _ assms(3), of now m] finish_updates [OF _ assms(3), of now 0]
  by (auto simp: fail_or_finish_cancel_def onward_def)

lemma runs_inv:
  assumes "outgoing_inv (t, w)" and "runs (ot_peer t) (ot_transport t) w tp w1"
  shows "outgoing_inv (t\<lparr>ot_transport := tp\<rparr>, w1)" "onward (t, w) (t\<lparr>ot_transport := tp\<rparr>, w1)"
proof -
  have s: "sender_ok (t\<lparr>ot_transport := tp\<rparr>, w1)"
    using assms by (simp add: outgoing_inv_def sender_ok_def runs_def same_transport_def)
  have f: "file_at w1 p = file_at w p" for p
    using assms(2) by (simp add: runs_def calm_def quiet_def file_at_fs [of w1 w])
  have c: "connection_text tp w1 = connection_text (ot_transport t) w" using assms(2) by (simp add: runs_def)
  have u: "upload_ok content (t\<lparr>ot_transport := tp\<rparr>, w1) = upload_ok content (t, w)" for content
    by (simp add: upload_ok_def f c)
  have "phase_ok (t\<lparr>ot_transport := tp\<rparr>, w1)"
    using assms(1) u unfolding outgoing_inv_def phase_ok_def prod.case
    by (simp add: no_credentials_def ls_outgoing_is_active_def)
  with s show "outgoing_inv (t\<lparr>ot_transport := tp\<rparr>, w1)" by (simp add: outgoing_inv_def)
  from s assms(2) show "onward (t, w) (t\<lparr>ot_transport := tp\<rparr>, w1)"
    by (simp add: onward_def same_job_def runs_def calm_def quiet_sends)
qed

lemma wrote_onward:
  assumes "outgoing_inv (t, w)" and "wrote (ot_peer t) data (ot_transport t) w a tp w1"
  shows "onward (t, w) (t\<lparr>ot_transport := tp\<rparr>, w1)"
proof -
  have "transport_ok (presented (tp_fd (ot_transport t)) w) (ot_peer t) (ot_transport t)"
    using assms(1) by (simp add: outgoing_inv_def sender_ok_def)
  with assms(2) have "sends_pinned (t, w) w1"
    by (auto simp: sends_pinned_def wrote_def transport_ok_def)
  with assms show ?thesis
    by (simp add: onward_def same_job_def outgoing_inv_def sender_ok_def wrote_def same_transport_def)
qed

lemma same_updates:
  assumes "outgoing_inv (t1, w1)" and "onward (t, w) (t1, w1)" and "ot_last_activity_ms t1 = ot_last_activity_ms t"
    and "work t1 = work t"
  shows "updates now (t, w) (t1, w1)"
  using assms by (simp add: updates_def onward_def)

lemma update_connect_updates:
  assumes "outgoing_inv (t, w)"
    and "ot_state t \<in> {LS_OUTGOING_CONNECTING_PREPARE, LS_OUTGOING_CONNECTING_UPLOAD, LS_OUTGOING_CONNECTING_CANCEL}"
  shows "updates now (t, w) (update_connect now (t, w))"
proof -
  obtain r tp w1 where p: "ls_outgoing_transport_poll (ot_transport t) (ot_peer t) w = (r, tp, w1)" by (metis prod_cases3)
  let ?t = "t\<lparr>ot_transport := tp\<rparr>"
  note k = runs_inv [OF assms(1) transport_poll_runs [OF p]]
  have active: "ls_outgoing_is_active t" using assms(2) by (auto simp: ls_outgoing_is_active_def)
  show ?thesis
  proof (cases r)
    case LS_TRANSPORT_CONNECT_PENDING
    then show ?thesis
      using same_updates [OF k] assms(2) by (simp add: update_connect_def p work_def)
  next
    case LS_TRANSPORT_CONNECT_FAILED
    have s: "ot_state ?t = ot_state t" by simp
    show ?thesis
      unfolding update_connect_def prod.case p Let_def LS_TRANSPORT_CONNECT_FAILED LsTransportConnectResult.case s
      using finish_updates [OF _ k(2)] fail_updates [OF assms(1) active _ k(2)] assms(2)
      by (auto simp: cancelling_def)
  next
    case LS_TRANSPORT_CONNECT_READY
    let ?s = "set_state (connected_state (ot_state t)) now ?t"
    from k(1) have so: "sender_ok (?s, w1)" by (simp add: outgoing_inv_def sender_ok_def set_state_def)
    have "ls_outgoing_is_active ?t" using active by (simp add: ls_outgoing_is_active_def)
    with k(1) have "outgoing_inv (?s, w1)"
    proof (cases rule: inv_cases)
      case prep
      with so assms(2) show ?thesis
        by (intro inv_preparing) (auto simp: set_state_def connected_state_def state_groups no_credentials_def)
    next
      case (upload content)
      with assms(2) have "ot_state t = LS_OUTGOING_CONNECTING_UPLOAD" by (auto simp: uploading_def)
      with upload so show ?thesis
        by (intro inv_uploading [of _ _ content]) (auto simp: set_state_def connected_state_def state_groups upload_ok_def)
    next
      case cancel
      with so assms(2) show ?thesis
        by (intro inv_cancelling) (auto simp: set_state_def connected_state_def state_groups)
    qed
    with k(2) assms(2) LS_TRANSPORT_CONNECT_READY show ?thesis
      by (auto simp: update_connect_def p updates_def onward_def set_state_def connected_state_def outgoing_next_def same_job_def)
  qed
qed


lemma wrote_nothing:
  assumes "wrote p data tp w SendAgain tp' w'"
  shows "runs p tp w tp' w'"
proof -
  have "w_tls_wire w' fd = w_tls_wire w fd" for fd
    using assms by (cases "fd = tp_fd tp"; cases "tp_protocol tp = LS_PROTOCOL_HTTPS")
      (auto simp: wrote_def connection_text_def same_transport_def)
  with assms show ?thesis by (auto simp: wrote_def runs_def calm_def quiet_def)
qed

lemma active_sending:
  "ot_state t \<in> {LS_OUTGOING_SENDING_PREPARE, LS_OUTGOING_SENDING_UPLOAD_HEADERS, LS_OUTGOING_SENDING_CANCEL} \<Longrightarrow>
     ls_outgoing_is_active t"
  by (auto simp: ls_outgoing_is_active_def)

lemma onward_sender: "onward (t, w) (t1, w1) \<Longrightarrow> sender_ok (t1, w1)"
  by (simp add: onward_def)

lemma onward_world: "onward (t, w) (t1, w1) \<Longrightarrow> w_fs w1 = w_fs w"
  by (simp add: onward_def sends_pinned_def)

text \<open>The state after a part of the request has been taken, before \<open>request_sent\<close>.\<close>

lemma request_part_inv:
  fixes now :: u64
  assumes "outgoing_inv (t, w)"
    and "ot_state t \<in> {LS_OUTGOING_SENDING_PREPARE, LS_OUTGOING_SENDING_UPLOAD_HEADERS, LS_OUTGOING_SENDING_CANCEL}"
    and "wrote (ot_peer t) (drop (ot_request_sent t) (ot_request t)) (ot_transport t) w (SendSome n) tp w1"
  defines "s \<equiv> t\<lparr>ot_transport := tp, ot_request_sent := ot_request_sent t + n, ot_last_activity_ms := now\<rparr>"
  shows "outgoing_inv (s, w1)"
proof -
  have n: "n \<le> length (ot_request t) - ot_request_sent t" using assms(3) by (simp add: wrote_def)
  note o = wrote_onward [OF assms(1,3)]
  from onward_sender [OF o] n assms(1) have so: "sender_ok (s, w1)"
    by (auto simp: sender_ok_def s_def outgoing_inv_def)
  from assms(1) active_sending [OF assms(2)] show ?thesis
  proof (cases rule: inv_cases)
    case prep
    with so show ?thesis by (intro inv_preparing) (auto simp: s_def no_credentials_def)
  next
    case (upload content)
    with assms(2) have st: "ot_state t = LS_OUTGOING_SENDING_UPLOAD_HEADERS" by (auto simp: uploading_def)
    from upload(2) st obtain base where base: "connection_text (ot_transport t) w = base @ take (ot_request_sent t) (ot_request t)"
      by (auto simp: upload_ok_def)
    have "connection_text tp w1 = base @ take (ot_request_sent t + n) (ot_request t)"
      using assms(3) base by (simp add: wrote_def take_add)
    then have "upload_ok content (s, w1)"
      using upload(2) st file_at_fs [OF onward_world [OF o]] by (auto simp: upload_ok_def s_def)
    with so st show ?thesis by (intro inv_uploading [of _ _ content]) (simp_all add: s_def uploading_def)
  next
    case cancel
    with so show ?thesis by (intro inv_cancelling) (auto simp: s_def)
  qed
qed

lemma request_sent_inv:
  assumes "outgoing_inv (t, w)"
    and "ot_state t \<in> {LS_OUTGOING_SENDING_PREPARE, LS_OUTGOING_SENDING_UPLOAD_HEADERS, LS_OUTGOING_SENDING_CANCEL}"
    and "ot_request_sent t = length (ot_request t)"
  shows "outgoing_inv (request_sent now t, w)"
proof -
  from assms(1,2) have so: "sender_ok (request_sent now t, w)"
    using response_init_ok by (auto simp: sender_ok_def request_sent_def set_state_def outgoing_inv_def)
  from assms(1) active_sending [OF assms(2)] show ?thesis
  proof (cases rule: inv_cases)
    case prep
    with so assms(2) show ?thesis
      by (intro inv_preparing) (auto simp: request_sent_def set_state_def no_credentials_def state_groups)
  next
    case (upload content)
    with assms(2) have st: "ot_state t = LS_OUTGOING_SENDING_UPLOAD_HEADERS" by (auto simp: uploading_def)
    with upload(2) assms(3) have "upload_ok content (request_sent now t, w)"
      by (auto simp: upload_ok_def request_sent_def set_state_def)
    with so st show ?thesis
      by (intro inv_uploading [of _ _ content]) (simp_all add: request_sent_def set_state_def uploading_def)
  next
    case cancel
    with so assms(2) show ?thesis
      by (intro inv_cancelling) (auto simp: request_sent_def set_state_def state_groups)
  qed
qed

lemma update_request_write_updates:
  assumes "outgoing_inv (t, w)"
    and "ot_state t \<in> {LS_OUTGOING_SENDING_PREPARE, LS_OUTGOING_SENDING_UPLOAD_HEADERS, LS_OUTGOING_SENDING_CANCEL}"
  shows "updates now (t, w) (update_request_write now (t, w))"
proof -
  let ?d = "drop (ot_request_sent t) (ot_request t)"
  obtain a tp w1 where p: "ls_outgoing_transport_write ?d (ot_transport t) w = (a, tp, w1)" by (metis prod_cases3)
  have "or_default (tp_plain_send (ot_transport t)) = Some default_plain_send"
    using assms(1) by (simp add: outgoing_inv_def sender_ok_def)
  note k = transport_write_wrote [OF p this, of "ot_peer t"]
  note o = wrote_onward [OF assms(1) k]
  note active = active_sending [OF assms(2)]
  have c: "cancelling (ot_state t) \<longleftrightarrow> ot_state t = LS_OUTGOING_SENDING_CANCEL" using assms(2) by (auto simp: cancelling_def)
  note fail = fail_or_finish_updates [OF assms(1) active o c]
  show ?thesis
  proof (cases a)
    case SendAgain
    with k have "runs (ot_peer t) (ot_transport t) w tp w1" by (simp add: wrote_nothing)
    from same_updates [OF runs_inv [OF assms(1) this]] SendAgain show ?thesis
      by (simp add: update_request_write_def p work_def)
  next
    case (SendError n)
    with fail show ?thesis by (simp add: update_request_write_def p)
  next
    case (SendSome n)
    show ?thesis
    proof (cases "n = 0")
      case True
      with SendSome fail show ?thesis by (simp add: update_request_write_def p)
    next
      case False
      let ?s = "t\<lparr>ot_transport := tp, ot_request_sent := ot_request_sent t + n, ot_last_activity_ms := now\<rparr>"
      have n: "n \<le> length (ot_request t) - ot_request_sent t" using k SendSome by (simp add: wrote_def)
      note inv = request_part_inv [OF assms k [unfolded SendSome], of now]
      have e: "update_request_write now (t, w) =
        (if ot_request_sent t + n = length (ot_request t) then request_sent now ?s else ?s, w1)"
        using SendSome False by (simp add: update_request_write_def p Let_def)
      show ?thesis
      proof (cases "ot_request_sent t + n = length (ot_request t)")
        case True
        with request_sent_inv [OF inv, of now] assms(2) o show ?thesis
          unfolding e by (auto simp: updates_def onward_def request_sent_def set_state_def outgoing_next_def same_job_def)
      next
        case 2: False
        with inv o n False show ?thesis
          unfolding e using assms(2) by (auto simp: updates_def onward_def same_job_def work_def)
      qed
    qed
  qed
qed


section \<open>Streaming the file\<close>

text \<open>Reading the file is not seen from outside.\<close>

definition unseen :: "out_state \<Rightarrow> out_state \<Rightarrow> bool" where
  "unseen = (\<lambda>(t, w) (t1, w1). same_job t t1 \<and> ot_transport t1 = ot_transport t \<and> ot_state t1 = ot_state t \<and>
     ot_last_activity_ms t1 = ot_last_activity_ms t \<and> ot_session_id t1 = ot_session_id t \<and> work t1 = work t \<and>
     w_fs w1 = w_fs w \<and> w_tls_wire w1 = w_tls_wire w \<and> w_wire w1 = w_wire w \<and> w_tls_seen w1 = w_tls_seen w)"

lemma unseen_updates: "unseen (t, w) (t1, w1) \<Longrightarrow> updates now (t1, w1) r \<Longrightarrow> updates now (t, w) r"
  by (cases r) (auto simp: unseen_def updates_def sends_pinned_def presented_def same_job_def)

lemma unseen_onward: "unseen (t, w) (t1, w1) \<Longrightarrow> sender_ok (t1, w1) \<Longrightarrow> onward (t, w) (t1, w1)"
  by (simp add: unseen_def onward_def sends_pinned_def)

definition card_only :: "world \<Rightarrow> world \<Rightarrow> bool" where
  "card_only w w' \<longleftrightarrow> same_net w w' \<and> w_fs w' = w_fs w"

lemma card_only_calls: "do_simple w = (b, w') \<Longrightarrow> card_only w w'" "do_fread p pos n w = (r, w') \<Longrightarrow> card_only w w'"
  by (auto simp: card_only_def do_simple_def do_fread_def failing_def next_io_def same_net_def Let_def
      split: list.splits io_answer.splits)

lemma card_only_sender: "card_only w w' \<Longrightarrow> sender_ok (t, w') = sender_ok (t, w)"
  by (simp add: sender_ok_def card_only_def same_net_def presented_def)

lemma card_only_text: "card_only w w' \<Longrightarrow> connection_text tp w' = connection_text tp w"
  by (simp add: connection_text_def card_only_def same_net_def)

lemma fread_data:
  assumes "do_fread p pos n w = ((d, failed), w')" and "file_at w p = Some content"
  shows "d = take (length d) (drop pos content)" "length d \<le> n"
  using assms by (auto simp: do_fread_def failing_def next_io_def Let_def min_def split: list.splits io_answer.splits)

lemma read_block_ok:
  assumes "sender_ok (t, w)" and "upload_ok content (t, w)" and "ot_state t = LS_OUTGOING_STREAMING_UPLOAD"
  shows "case read_block now (t, w) of
      Inl r \<Rightarrow> updates now (t, w) r
    | Inr (t1, w1) \<Rightarrow> unseen (t, w) (t1, w1) \<and> sender_ok (t1, w1) \<and> upload_ok content (t1, w1)"
proof (cases "ot_io_sent t = length (ot_io t)")
  case False
  then show ?thesis using assms by (simp add: read_block_def unseen_def same_job_def)
next
  case True
  then have p: "pending t = []" by (simp add: pending_def)
  have inv: "outgoing_inv (t, w)" by (rule inv_uploading [OF assms(1,2)]) (simp add: assms(3) uploading_def)
  have active: "ls_outgoing_is_active t" "\<not> cancelling (ot_state t)" using assms(3) by (simp_all add: state_groups)
  note u = assms(2) [unfolded upload_ok_def prod.case]
  show ?thesis
  proof (cases "ot_sent_bytes t = ot_file_size t")
    case rest: True
    obtain t1 w1 where c: "close_file (t, w) = (t1, w1)" by (metis surj_pair)
    note c' = close_file_ok [OF c]
    let ?t = "set_state LS_OUTGOING_WAITING_FOR_UPLOAD_RESPONSE now (t1\<lparr>ot_response := ls_http_response_init\<rparr>)"
    have "connection_text (ot_transport t) w1 = connection_text (ot_transport t) w"
      using c' by (simp add: connection_text_def calm_def quiet_def)
    moreover have "file_at w1 q = file_at w q" for q using c' by (simp add: calm_def quiet_def file_at_fs [of w1 w])
    moreover have "pending ?t = []" using c' by (simp add: set_state_def pending_def)
    ultimately have "upload_ok content (?t, w1)"
      using u c' rest assms(3) by (auto simp: upload_ok_def set_state_def p)
    moreover have "sender_ok (?t, w1)"
      using assms(1) c' transport_calm [of "tp_fd (ot_transport t)" w "ot_peer t" "ot_transport t" w1] response_init_ok
      by (simp add: sender_ok_def set_state_def)
    ultimately have "outgoing_inv (?t, w1)"
      by (intro inv_uploading [of _ _ content]) (simp_all add: set_state_def uploading_def)
    moreover have "sends_pinned (t, w) w1" using c' by (simp add: calm_quiet quiet_sends)
    ultimately show ?thesis
      using True rest c c' assms(3)
      by (simp add: read_block_def Let_def updates_def same_job_def outgoing_next_def set_state_def)
  next
    case more: False
    then have rem: "ot_file_size t - ot_sent_bytes t \<noteq> 0" by simp
    let ?wanted = "min (unat (ot_file_size t - ot_sent_bytes t)) LS3DS_OUTGOING_IO_BUFFER_SIZE"
    have pos: "ot_file t = Some (unat (ot_sent_bytes t))" using u p assms(3) by simp
    obtain d failed w1 where f: "do_fread (ot_file_path t) (unat (ot_sent_bytes t)) ?wanted w = ((d, failed), w1)"
      by (metis surj_pair)
    let ?t = "t\<lparr>ot_io := d, ot_io_sent := 0, ot_file := Some (unat (ot_sent_bytes t) + length d)\<rparr>"
    note card = card_only_calls(2) [OF f]
    note d = fread_data [OF f, of content]
    have le: "ot_sent_bytes t \<le> ot_file_size t" unfolding word_le_nat_alt using u by linarith
    then have size: "unat (ot_file_size t - ot_sent_bytes t) = unat (ot_file_size t) - unat (ot_sent_bytes t)"
      by (simp add: unat_sub)
    have ld: "length d \<le> unat (ot_file_size t) - unat (ot_sent_bytes t)" "length d \<le> LS3DS_OUTGOING_IO_BUFFER_SIZE"
      using d u size by simp_all
    have so: "sender_ok (?t, w1)"
      using assms(1) ld card_only_sender [OF card, of t] by (simp add: sender_ok_def)
    have un: "unseen (t, w) (?t, w1)"
      using card assms(3) by (simp add: unseen_def same_job_def card_only_def same_net_def work_def)
    have e: "read_block now (t, w) =
      (if d = [] then Inl (fail_transfer (if failed then ''SD read failed'' else ''Selected file ended before declared size'') now (?t, w1))
       else Inr (?t, w1))"
      using True rem pos f by (simp add: read_block_def Let_def)
    show ?thesis
    proof (cases "d = []")
      case True
      with fail_updates [OF inv active unseen_onward [OF un so]] show ?thesis by (simp add: e)
    next
      case False
      have "file_at w1 q = file_at w q" for q using card by (simp add: card_only_def file_at_fs [of w1 w])
      moreover have "pending ?t = d" by (simp add: pending_def)
      moreover have "unat (ot_sent_bytes t) + length d \<le> unat (ot_file_size t)" using ld le by (simp add: word_le_nat_alt)
      ultimately have "upload_ok content (?t, w1)"
        using u d assms(3) card_only_text [OF card, of "ot_transport t"] by (auto simp: upload_ok_def)
      with un so False show ?thesis by (simp add: e)
    qed
  qed
qed

lemma update_file_stream_updates:
  assumes "outgoing_inv (t, w)" and "ot_state t = LS_OUTGOING_STREAMING_UPLOAD"
  shows "updates now (t, w) (update_file_stream now (t, w))"
proof -
  have "uploading (ot_state t)" using assms(2) by (simp add: uploading_def)
  with assms(1) obtain content where sc: "sender_ok (t, w)" "upload_ok content (t, w)"
    by (auto simp: outgoing_inv_def phase_ok_def)
  note rb = read_block_ok [OF sc assms(2), of now]
  show ?thesis
  proof (cases "read_block now (t, w)")
    case (Inl r)
    with rb show ?thesis by (simp add: update_file_stream_def)
  next
    case (Inr s)
    obtain t1 w1 where s: "s = (t1, w1)" by (metis surj_pair)
    with rb Inr have un: "unseen (t, w) (t1, w1)" and so: "sender_ok (t1, w1)" and u1: "upload_ok content (t1, w1)" by simp_all
    from un assms(2) have st: "ot_state t1 = LS_OUTGOING_STREAMING_UPLOAD" by (simp add: unseen_def)
    then have active: "ls_outgoing_is_active t1" "\<not> cancelling (ot_state t1)" by (simp_all add: state_groups)
    have inv: "outgoing_inv (t1, w1)" by (rule inv_uploading [OF so u1]) (simp add: st uploading_def)
    obtain a tp w2 where p: "ls_outgoing_transport_write (pending t1) (ot_transport t1) w1 = (a, tp, w2)" by (metis prod_cases3)
    have "or_default (tp_plain_send (ot_transport t1)) = Some default_plain_send"
      using so by (simp add: sender_ok_def)
    note k = transport_write_wrote [OF p this, of "ot_peer t1"]
    note o = wrote_onward [OF inv k]
    note fail = fail_updates [OF inv active o]
    have "updates now (t1, w1) (update_file_stream now (t, w))"
    proof (cases a)
      case SendAgain
      with k have "runs (ot_peer t1) (ot_transport t1) w1 tp w2" by (simp add: wrote_nothing)
      from same_updates [OF runs_inv [OF inv this]] SendAgain Inr s p show ?thesis
        by (simp add: update_file_stream_def pending_def work_def)
    next
      case (SendError n)
      with fail Inr s p show ?thesis by (simp add: update_file_stream_def pending_def)
    next
      case (SendSome n)
      show ?thesis
      proof (cases "n = 0")
        case True
        with fail Inr s p SendSome show ?thesis by (simp add: update_file_stream_def pending_def)
      next
        case False
        let ?s = "t1\<lparr>ot_transport := tp, ot_io_sent := ot_io_sent t1 + n, ot_sent_bytes := ot_sent_bytes t1 + of_nat n,
          ot_last_activity_ms := now\<rparr>"
        note u = u1 [unfolded upload_ok_def prod.case]
        have n: "n \<le> length (pending t1)" using k SendSome by (simp add: wrote_def)
        have all: "unat (ot_sent_bytes t1) + length (pending t1) \<le> unat (ot_file_size t1)" using u by linarith
        have total: "unat (ot_sent_bytes t1) + n \<le> unat (ot_file_size t1)" using u n by linarith
        have "unat (ot_file_size t1) < 2 ^ 64" using unsigned_less [of "ot_file_size t1"] by simp
        with total have sent: "unat (ot_sent_bytes t1 + of_nat n) = unat (ot_sent_bytes t1) + n"
          by (simp add: unat_word_ariths unat_of_nat)
        have pend: "pending ?s = drop n (pending t1)" by (simp add: pending_def add.commute)
        obtain base where "connection_text (ot_transport t1) w1 =
            base @ take (ot_request_sent t1) (ot_request t1) @ take (unat (ot_sent_bytes t1)) content" using u by blast
        then have tx: "connection_text tp w2 =
            base @ take (ot_request_sent t1) (ot_request t1) @ take (unat (ot_sent_bytes t1) + n) content"
          using k SendSome n u by (simp add: wrote_def take_add) (metis min.absorb1 take_take)
        have p2: "drop n (pending t1) = take (length (pending t1) - n) (drop (unat (ot_sent_bytes t1) + n) content)"
          using u by (metis add.commute drop_drop drop_take)
        have "upload_ok content (?s, w2)"
          unfolding upload_ok_def prod.case pend
          using u all total st tx p2 [symmetric] n file_at_fs [OF onward_world [OF o]] by (simp add: sent)
        moreover have "sender_ok (?s, w2)"
          using onward_sender [OF o] n by (auto simp: sender_ok_def pending_def)
        ultimately have "outgoing_inv (?s, w2)"
          by (intro inv_uploading [of _ _ content]) (simp_all add: st uploading_def)
        moreover have "work ?s < work t1" using sent total False st by (simp add: work_def)
        moreover have "update_file_stream now (t, w) = (?s, w2)"
          using Inr s p SendSome False by (simp add: update_file_stream_def pending_def Let_def)
        ultimately show ?thesis using o by (simp add: updates_def onward_def same_job_def)
      qed
    qed
    with un show ?thesis by (rule unseen_updates)
  qed
qed


section \<open>Responses\<close>

lemma evaluate_body_raw: "evaluate_body r = (s, result) \<Longrightarrow> rs_raw s = rs_raw r"
  by (auto simp: evaluate_body_def decode_chunked_def response_completed_def response_set_error_def Let_def
      split: LsHttpResponseFraming.splits sum.splits option.splits if_splits)

lemma evaluate_raw:
  assumes "evaluate r = (s, result)"
  shows "rs_raw s = rs_raw r"
proof (cases "rs_headers_parsed r \<or> find_bytes (rs_raw r) END_OF_HEADERS = None")
  case True
  with assms evaluate_body_raw [of r s result] show ?thesis
    by (auto simp: evaluate_def response_set_error_def split: if_splits option.splits)
next
  case False
  then obtain i where i: "\<not> rs_headers_parsed r" "find_bytes (rs_raw r) END_OF_HEADERS = Some i" by auto
  obtain p ok where p: "response_parse_headers (r\<lparr>rs_header_length := i + 4\<rparr>) = (p, ok)"
    by (cases "response_parse_headers (r\<lparr>rs_header_length := i + 4\<rparr>)")
  have "rs_raw p = rs_raw r" using parse_headers_keep [OF p] by simp
  with assms evaluate_headers [OF i p] evaluate_body_raw [of p s result] show ?thesis
    by (auto simp: response_completed_def split: if_splits)
qed

lemma feed_need_more:
  assumes "ls_http_response_feed r d = (s, LS_HTTP_RESPONSE_NEED_MORE)"
  shows "rs_raw s = rs_raw r @ d"
  using assms evaluate_raw [of "fed r d" s LS_HTTP_RESPONSE_NEED_MORE]
  by (auto simp: ls_http_response_feed_def split: if_splits)

lemma begin_upload_updates:
  assumes "outgoing_inv (t, w)" and "ot_state t = LS_OUTGOING_WAITING_FOR_APPROVAL"
    and "onward (t, w) (t1\<lparr>ot_session_id := []\<rparr>, w1)" and "ot_session_id t1 \<noteq> []"
    and "ot_sent_bytes t1 = 0" and "ot_io t1 = []"
  shows "updates now (t, w) (begin_upload now (t1, w1))"
proof -
  have so1: "sender_ok (t1, w1)" using assms(3) by (simp add: onward_def sender_ok_def)
  have sp: "sends_pinned (t, w) w1" and sj: "same_job t t1" and st: "ot_state t1 = ot_state t"
    using assms(3) by (simp_all add: onward_def same_job_def)
  have fail: "updates now (t, w) (fail_transfer m now (t2, w2))"
    if "sender_ok (t2, w2)" "quiet w1 w2" "same_job t1 t2" "ot_state t2 = ot_state t" for m t2 w2
  proof -
    from fail_transfer_ends [OF that(1), of now m] show ?thesis
      by (rule ends_updates)
        (use that sp sj assms(2) in \<open>auto simp: outgoing_next_def intro: sends_quiet same_job_trans\<close>)
  qed
  obtain t2 w2 where c: "close_socket (t1, w1) = (t2, w2)" by (metis surj_pair)
  note c' = close_socket_ok [OF c]
  have so2: "sender_ok (t2, w2)" using c' so1 by (simp add: sender_ok_def)
  obtain r w3 where o: "fopen_read (ot_file_path t2) w2 = (r, w3)" by (metis surj_pair)
  have q3: "quiet w1 w3"
    using c' fopen_read_fs [OF o] card_net'(8) [OF o] by (simp add: calm_def quiet_def same_net_def)
  have so3: "sender_ok (t2\<lparr>ot_file := f\<rparr>, w)" for f w using so2 c' by (simp add: sender_ok_def)
  have k2: "same_job t1 t2" "ot_state t2 = ot_state t" "ot_session_id t2 = ot_session_id t1" "ot_sent_bytes t2 = 0"
    "ot_io t2 = []"
    using c' st assms(5,6) by simp_all
  show ?thesis
  proof (cases r)
    case (Inl e)
    with fail [OF so3 [of None w3] q3] k2 show ?thesis by (simp add: begin_upload_def c o)
  next
    case (Inr content)
    obtain ok w4 where f: "do_simple w3 = (ok, w4)" by (metis surj_pair)
    let ?t = "t2\<lparr>ot_file := Some 0\<rparr>"
    have q4: "quiet w1 w4" using quiet_trans [OF q3 calm_quiet [OF simple_calm [OF f]]] .
    note fail4 = fail [OF so3 [of "Some 0" w4] q4]
    show ?thesis
    proof (cases "ok \<and> of_nat (length content) = ot_file_size t2")
      case False
      with fail4 k2 Inr show ?thesis by (auto simp: begin_upload_def c o f)
    next
      case ok: True
      show ?thesis
      proof (cases "build_upload_request ?t")
        case None
        with ok fail4 k2 Inr show ?thesis by (simp add: begin_upload_def c o f)
      next
        case (Some t3)
        then obtain q where t3: "t3 = put_request q ?t" "length q \<le> LS3DS_OUTGOING_REQUEST_CAPACITY"
          by (auto simp: build_upload_request_def Let_def split: option.splits if_splits)
        have "sender_ok (t3, w4)" unfolding t3(1) by (rule put_sender [OF so3 t3(2)])
        obtain b t4 w5 where g: "begin_connection LS_OUTGOING_CONNECTING_UPLOAD now (t3, w4) = (b, t4, w5)" by (metis prod_cases3)
        note b = begin_connection_ok [OF g \<open>sender_ok (t3, w4)\<close>]
        have q5: "quiet w1 w5" using b(2) q4 by (blast intro: quiet_trans)
        have e: "begin_upload now (t1, w1) = (if b then (t4, w5) else fail_transfer (connect_failure ''upload'' (t4, w5)) now (t4, w5))"
          using Inr ok Some g by (cases b) (simp_all add: begin_upload_def c o f)
        show ?thesis
        proof (cases b)
          case False
          with b(1) have "same_job t1 t4" using k2 t3 by auto
          moreover have "ot_state t4 = ot_state t" using b(1) False k2 t3 by (auto simp: put_request_def)
          ultimately show ?thesis using fail [OF b(3) q5] e False by simp
        next
          case True
          with b(1) obtain tp where t4: "t4 = set_state LS_OUTGOING_CONNECTING_UPLOAD now (t3\<lparr>ot_transport := tp\<rparr>)"
            and pa: "peer_address (ot_peer t3)" by auto
          have "w_fs w5 = w_fs w2" "w_fs w3 = w_fs w2"
            using q5 q3 c' fopen_read_fs [OF o] by (simp_all add: calm_def quiet_def)
          with fopen_read_fs [OF o] Inr have "file_at w5 (ot_file_path t2) = Some content" by (simp add: file_at_def)
          moreover have "upload_text t3 = Some q"
          proof -
            have "upload_text ?t = Some q" using Some t3 by (simp add: upload_text_def put_request_def)
            then show ?thesis unfolding t3(1) put_request_def by simp
          qed
          moreover have "ot_io t4 = []" "ot_io_sent t4 = 0" using k2 so2 t3 by (auto simp: t4 set_state_def put_request_def sender_ok_def)
          ultimately have "upload_ok content (t4, w5)"
            using t3(1) k2 ok assms(4) pa unfolding t4 by (simp add: upload_ok_def set_state_def put_request_def pending_def)
          with b(3) have "outgoing_inv (t4, w5)"
            by (rule inv_uploading) (simp add: t4 set_state_def uploading_def)
          moreover have "same_job t t4" using same_job_trans [OF sj k2(1)] t3 by (simp add: t4)
          ultimately show ?thesis
            using True sends_quiet [OF sp q5] assms(2) unfolding e
            by (simp add: updates_def t4 set_state_def outgoing_next_def)
        qed
      qed
    qed
  qed
qed


lemma handle_prepare_updates:
  assumes "outgoing_inv (t, w)" and "ot_state t = LS_OUTGOING_WAITING_FOR_APPROVAL"
    and "onward (t, w) (t1, w1)" and "ot_sent_bytes t1 = 0" and "ot_io t1 = []"
  shows "updates now (t, w) (handle_prepare_response now (t1, w1))"
proof -
  let ?s = "t1\<lparr>ot_remote_status := rs_status_code (ot_response t1)\<rparr>"
  have active: "ls_outgoing_is_active t" "\<not> cancelling (ot_state t)" using assms(2) by (simp_all add: state_groups)
  have so: "sender_ok (?s, w1)" using onward_sender [OF assms(3)] by (simp add: sender_ok_def)
  have o: "onward (t, w) (?s, w1)" using assms(3) so by (simp add: onward_def)
  have rej: "updates now (t, w) (reject_transfer status now (?s, w1))" for status
    by (rule ends_updates [OF reject_transfer_ends [OF so]])
      (use o assms(2) in \<open>simp_all add: onward_def outgoing_next_def\<close>)
  have up: "updates now (t, w) (begin_upload now
      (?s\<lparr>ot_session_id := response_session_id p, ot_file_token := response_file_token p\<rparr>, w1))"
    if "ls_protocol_parse_prepare_upload_response json e = Inr p" for p json e
  proof (rule begin_upload_updates [OF assms(1,2)])
    have "ot_session_id t = []" using assms(1,2) by (simp add: outgoing_inv_def phase_ok_def preparing_def no_credentials_def)
    moreover have "sender_ok (?s\<lparr>ot_file_token := response_file_token p, ot_session_id := []\<rparr>, w1)"
      using so by (simp add: sender_ok_def)
    ultimately show "onward (t, w) (?s\<lparr>ot_session_id := response_session_id p, ot_file_token := response_file_token p,
        ot_session_id := []\<rparr>, w1)"
      using o by (simp add: onward_def)
  qed (use that assms(4,5) parse_response_wf(2) [OF that] in simp_all)
  show ?thesis
    unfolding handle_prepare_response_def prod.case Let_def
    using rej up fail_updates [OF assms(1) active o] by (auto split: sum.split)
qed

lemma handle_upload_updates:
  assumes "outgoing_inv (t, w)" and "ot_state t = LS_OUTGOING_WAITING_FOR_UPLOAD_RESPONSE" and "onward (t, w) (t1, w1)"
  shows "updates now (t, w) (handle_upload_response now (t1, w1))"
proof -
  let ?s = "t1\<lparr>ot_remote_status := rs_status_code (ot_response t1)\<rparr>"
  have active: "ls_outgoing_is_active t" "\<not> cancelling (ot_state t)" using assms(2) by (simp_all add: state_groups)
  obtain t2 w2 where c: "close_file (close_socket (?s, w1)) = (t2, w2)" by (metis surj_pair)
  note c' = closed_ok [OF c]
  have so: "sender_ok (t2, w2)" using closed_sender [of ?s w1 w2] c' onward_sender [OF assms(3)]
    by (simp add: sender_ok_def)
  have "same_job t ?s" using assms(3) by (simp add: onward_def)
  then have "same_job t t2" using c' by (metis same_job_trans closed_fields(4))
  with assms(3) c' so have o: "onward (t, w) (t2, w2)"
    by (auto simp: onward_def intro: sends_quiet calm_quiet)
  have rej: "updates now (t, w) (reject_transfer status now (t2, w2))" for status
    by (rule ends_updates [OF reject_transfer_ends [OF so]])
      (use o assms(2) in \<open>simp_all add: onward_def outgoing_next_def\<close>)
  have fin: "updates now (t, w)
      (outgoing_invalidate_credentials ((set_state LS_OUTGOING_COMPLETED now t2)\<lparr>ot_error := []\<rparr>), w2)"
    if "ot_sent_bytes t2 = ot_file_size t2"
    using o so c' that assms(2)
    by (simp add: updates_def onward_def outgoing_inv_def phase_ok_def state_groups no_credentials_def outgoing_next_def
        set_state_def outgoing_invalidate_credentials_def sender_ok_def same_job_def)
  show ?thesis
    unfolding handle_upload_response_def prod.case Let_def c
    using rej fin fail_updates [OF assms(1) active o] by auto
qed

lemma take_response_updates:
  assumes "outgoing_inv (t, w)" and "onward (t, w) (t1, w1)"
    and "ot_state t \<in> {LS_OUTGOING_WAITING_FOR_APPROVAL, LS_OUTGOING_WAITING_FOR_UPLOAD_RESPONSE,
      LS_OUTGOING_WAITING_FOR_CANCEL_RESPONSE}"
    and "ot_sent_bytes t1 = ot_sent_bytes t" and "ot_io t1 = ot_io t" and "response_ok r"
    and "result = LS_HTTP_RESPONSE_NEED_MORE \<Longrightarrow> updates now (t, w) (t1\<lparr>ot_response := r\<rparr>, w1)"
  shows "updates now (t, w) (take_response now (r, result) (t1, w1))"
proof -
  let ?t = "t1\<lparr>ot_response := r\<rparr>"
  have active: "ls_outgoing_is_active t" using assms(3) by (auto simp: ls_outgoing_is_active_def)
  have o: "onward (t, w) (?t, w1)" using assms(2,6) by (simp add: onward_def sender_ok_def)
  have st: "ot_state ?t = ot_state t" using o by (simp add: onward_def)
  have c: "cancelling (ot_state t) \<longleftrightarrow> ot_state t = LS_OUTGOING_WAITING_FOR_CANCEL_RESPONSE"
    using assms(3) by (auto simp: cancelling_def)
  have complete: "updates now (t, w) (handle_complete_response now (?t, w1))"
  proof -
    have p: "ot_sent_bytes ?t = 0" "ot_io ?t = []" if "ot_state t = LS_OUTGOING_WAITING_FOR_APPROVAL"
      using that assms(1,4,5) by (simp_all add: outgoing_inv_def phase_ok_def preparing_def)
    show ?thesis
      unfolding handle_complete_response_def fst_conv st
      using handle_prepare_updates [OF assms(1) _ o] handle_upload_updates [OF assms(1) _ o] finish_updates [OF _ o] p assms(3) c
      by auto
  qed
  show ?thesis
    unfolding take_response_def prod.case Let_def
    using complete fail_or_finish_updates [OF assms(1) active o c] assms(7) by (cases result) simp_all
qed

lemma transport_read_data:
  "ls_outgoing_transport_read n tp w = (RecvData d, tp', w') \<Longrightarrow> 0 < n \<Longrightarrow> d \<noteq> []"
  by (auto simp: ls_outgoing_transport_read_def recv_failed_def tls_failed_def Let_def dest: recv_data
      split: if_splits LsProtocol.splits option.splits prod.splits)

lemma update_response_read_updates:
  assumes "outgoing_inv (t, w)"
    and "ot_state t \<in> {LS_OUTGOING_WAITING_FOR_APPROVAL, LS_OUTGOING_WAITING_FOR_UPLOAD_RESPONSE,
      LS_OUTGOING_WAITING_FOR_CANCEL_RESPONSE}"
  shows "updates now (t, w) (update_response_read now (t, w))"
proof -
  obtain a tp w1 where p: "ls_outgoing_transport_read LS3DS_OUTGOING_IO_BUFFER_SIZE (ot_transport t) w = (a, tp, w1)"
    by (metis prod_cases3)
  let ?t = "t\<lparr>ot_transport := tp\<rparr>"
  note k = runs_inv [OF assms(1) transport_read_runs [OF p]]
  have active: "ls_outgoing_is_active t" using assms(2) by (auto simp: ls_outgoing_is_active_def)
  have c: "cancelling (ot_state t) \<longleftrightarrow> ot_state t = LS_OUTGOING_WAITING_FOR_CANCEL_RESPONSE"
    using assms(2) by (auto simp: cancelling_def)
  have rok: "response_ok (ot_response t)" using assms(1) by (simp add: outgoing_inv_def sender_ok_def)
  show ?thesis
  proof (cases a)
    case RecvAgain
    with same_updates [OF k] show ?thesis by (simp add: update_response_read_def p work_def del: LS3DS_OUTGOING_IO_BUFFER_SIZE_def)
  next
    case (RecvError n)
    with fail_or_finish_updates [OF assms(1) active k(2) c] show ?thesis by (simp add: update_response_read_def p del: LS3DS_OUTGOING_IO_BUFFER_SIZE_def)
  next
    case RecvEof
    obtain r result where f: "ls_http_response_finish (ot_response t) = (r, result)" by (metis surj_pair)
    from response_bounds(2) [OF rok] f have "response_ok r" "result \<noteq> LS_HTTP_RESPONSE_NEED_MORE" by simp_all
    with take_response_updates [OF assms(1) k(2) assms(2), of r result now] RecvEof f show ?thesis
      by (simp add: update_response_read_def p del: LS3DS_OUTGOING_IO_BUFFER_SIZE_def)
  next
    case (RecvData d)
    obtain r result where f: "ls_http_response_feed (ot_response t) d = (r, result)" by (metis surj_pair)
    from response_bounds(1) [OF rok, of d] f have ok: "response_ok r" by simp
    let ?s = "?t\<lparr>ot_last_activity_ms := now\<rparr>"
    have o: "onward (t, w) (?s, w1)" using k(2) by (simp add: onward_def sender_ok_def)
    have more: "updates now (t, w) (?s\<lparr>ot_response := r\<rparr>, w1)" if "result = LS_HTTP_RESPONSE_NEED_MORE"
    proof -
      have raw: "rs_raw r = rs_raw (ot_response t) @ d" using feed_need_more f that by simp
      have "0 < length d" using p RecvData transport_read_data by auto
      moreover have "length (rs_raw (ot_response t)) + length d < LS3DS_HTTP_RESPONSE_RAW_CAPACITY"
        using raw ok by (simp add: response_ok_def)
      ultimately have "LS3DS_HTTP_RESPONSE_RAW_CAPACITY - length (rs_raw r) <
          LS3DS_HTTP_RESPONSE_RAW_CAPACITY - length (rs_raw (ot_response t))"
        unfolding raw length_append by linarith
      then have "work (?s\<lparr>ot_response := r\<rparr>) < work t"
        using assms(2) by (auto simp: work_def)
      moreover have "outgoing_inv (?s\<lparr>ot_response := r\<rparr>, w1)"
      proof -
        have so: "sender_ok (?s\<lparr>ot_response := r\<rparr>, w1)" using onward_sender [OF o] ok by (simp add: sender_ok_def)
        have "ls_outgoing_is_active ?t" using active by (simp add: ls_outgoing_is_active_def)
        with k(1) show ?thesis
        proof (cases rule: inv_cases)
          case prep
          with so show ?thesis by (intro inv_preparing) (simp_all add: no_credentials_def)
        next
          case (upload content)
          have "upload_ok content (?s\<lparr>ot_response := r\<rparr>, w1) = upload_ok content (?t, w1)" by (simp add: upload_ok_def)
          with upload(2) have "upload_ok content (?s\<lparr>ot_response := r\<rparr>, w1)" by simp
          with so show ?thesis using upload(3) by (intro inv_uploading [of _ _ content]) simp_all
        next
          case cancel
          with so show ?thesis by (intro inv_cancelling) simp_all
        qed
      qed
      ultimately show ?thesis using o by (simp add: updates_def onward_def)
    qed
    from take_response_updates [OF assms(1) o assms(2) _ _ ok more] RecvData f show ?thesis
      by (simp add: update_response_read_def p del: LS3DS_OUTGOING_IO_BUFFER_SIZE_def)
  qed
qed

lemma outgoing_update_updates:
  assumes "outgoing_inv (t, w)" and "ls_outgoing_is_active t"
  shows "updates now (t, w) (ls_outgoing_update now (t, w))"
    and "outgoing_expired now t \<Longrightarrow> ot_state (fst (ls_outgoing_update now (t, w))) \<noteq> ot_state t"
proof -
  have o: "onward (t, w) (t, w)"
    using assms(1) by (simp add: onward_def outgoing_inv_def sends_pinned_def)
  have u: "ls_outgoing_update now (t, w) =
    (if outgoing_expired now t then
       if cancelling (ot_state t) then finish_cancel 0 now (t, w) else fail_transfer ''Outgoing request timed out'' now (t, w)
     else if ot_state t \<in> {LS_OUTGOING_CONNECTING_PREPARE, LS_OUTGOING_CONNECTING_UPLOAD, LS_OUTGOING_CONNECTING_CANCEL}
     then update_connect now (t, w)
     else if ot_state t \<in> {LS_OUTGOING_SENDING_PREPARE, LS_OUTGOING_SENDING_UPLOAD_HEADERS, LS_OUTGOING_SENDING_CANCEL}
     then update_request_write now (t, w)
     else if ot_state t \<in> {LS_OUTGOING_WAITING_FOR_APPROVAL, LS_OUTGOING_WAITING_FOR_UPLOAD_RESPONSE,
       LS_OUTGOING_WAITING_FOR_CANCEL_RESPONSE} then update_response_read now (t, w)
     else update_file_stream now (t, w))"
    using assms(2) by (simp add: ls_outgoing_update_def)
  have st: "ot_state t = LS_OUTGOING_STREAMING_UPLOAD"
    if "ot_state t \<notin> {LS_OUTGOING_CONNECTING_PREPARE, LS_OUTGOING_CONNECTING_UPLOAD, LS_OUTGOING_CONNECTING_CANCEL}"
      "ot_state t \<notin> {LS_OUTGOING_SENDING_PREPARE, LS_OUTGOING_SENDING_UPLOAD_HEADERS, LS_OUTGOING_SENDING_CANCEL}"
      "ot_state t \<notin> {LS_OUTGOING_WAITING_FOR_APPROVAL, LS_OUTGOING_WAITING_FOR_UPLOAD_RESPONSE,
         LS_OUTGOING_WAITING_FOR_CANCEL_RESPONSE}"
    using assms(2) that by (cases "ot_state t") (auto simp: ls_outgoing_is_active_def)
  show "updates now (t, w) (ls_outgoing_update now (t, w))"
    unfolding u
    using finish_updates [OF _ o] fail_updates [OF assms _ o] update_connect_updates [OF assms(1)]
      update_request_write_updates [OF assms(1)] update_response_read_updates [OF assms(1)]
      update_file_stream_updates [OF assms(1) st]
    by (simp del: insert_iff)
  assume e: "outgoing_expired now t"
  have so: "sender_ok (t, w)" using assms(1) by (simp add: outgoing_inv_def)
  obtain t1 w1 where r: "ls_outgoing_update now (t, w) = (t1, w1)" by (metis surj_pair)
  show "ot_state (fst (ls_outgoing_update now (t, w))) \<noteq> ot_state t"
    using finish_cancel_ends [OF so, of now 0] fail_transfer_ends [OF so, of now "''Outgoing request timed out''"] u e r assms(2)
    by (cases "cancelling (ot_state t)"; cases "ot_session_id t = []") (auto simp: ends_def state_groups)
qed


section \<open>Starting, cancelling and everything reachable\<close>

lemma start_failed_inv:
  "sender_ok (t, w) \<Longrightarrow> no_credentials t \<Longrightarrow> ot_file t = None \<Longrightarrow> outgoing_inv (snd (start_failed_with m now (t, w)))"
  by (simp add: start_failed_with_def outgoing_inv_def sender_ok_def phase_ok_def state_groups set_state_def
      outgoing_set_error_def no_credentials_def)

lemma regular_file_calm:
  assumes "regular_file p w = (r, w')"
  shows "calm w w'"
proof -
  obtain a v where s: "do_stat p w = (a, v)" by (metis surj_pair)
  then have "w' = v" using assms by (auto simp: regular_file_def split: sum.splits fs_node.splits)
  with stat_fs [OF s] card_net'(7) [OF s] show ?thesis by (simp add: same_net_calm)
qed

definition started :: "u64 \<Rightarrow> world \<Rightarrow> bool \<times> out_state \<Rightarrow> bool" where
  "started now w = (\<lambda>(b, t', w'). outgoing_inv (t', w') \<and> quiet w w' \<and>
     ot_state t' = (if b then LS_OUTGOING_CONNECTING_PREPARE else LS_OUTGOING_FAILED))"

lemma start_failed_started:
  assumes "sender_ok (t, v)" and "no_credentials t" and "ot_file t = None" and "quiet w v"
  shows "started now w (start_failed_with m now (t, v))"
  using start_failed_inv [OF assms(1-3), of m now] assms(4)
  by (simp add: started_def start_failed_with_def set_state_def)

lemma start_request_started:
  assumes "sender_ok (t, v)" and "no_credentials t" and "ot_file t = None" and "ot_sent_bytes t = 0" and "ot_io t = []"
    and "quiet w v" and "ot_state t = LS_OUTGOING_IDLE"
  shows "started now w (start_request identity now (t, v))"
proof -
  obtain r v1 where u: "ls_secure_random_uuid v = (r, v1)" by (metis surj_pair)
  have c: "calm v v1" using uuid_frame [OF u] uuid_net [OF u] by (simp add: same_net_calm)
  have q: "quiet w v1" using assms(6) c by (auto intro: quiet_trans calm_quiet)
  have so1: "sender_ok (t, v1)"
    using assms(1) transport_calm [OF _ c] by (simp add: sender_ok_def)
  show ?thesis
  proof (cases r)
    case None
    with start_failed_started [OF so1 assms(2,3) q] show ?thesis by (simp add: start_request_def u)
  next
    case (Some i)
    let ?t = "t\<lparr>ot_file_id := i\<rparr>"
    have so2: "sender_ok (?t, v1)" using so1 by (simp add: sender_ok_def)
    show ?thesis
    proof (cases "build_prepare_request identity ?t")
      case None
      with start_failed_started [OF so2 _ _ q] assms(2,3) Some show ?thesis
        by (simp add: start_request_def u no_credentials_def)
    next
      case req: (Some t2)
      then obtain m q' where t2: "t2 = put_request q' (?t\<lparr>ot_metadata := m\<rparr>)" "length q' \<le> LS3DS_OUTGOING_REQUEST_CAPACITY"
        by (auto simp: build_prepare_request_def append_body_def Let_def split: option.splits if_splits)
      let ?s = "t2\<lparr>ot_response := ls_http_response_init\<rparr>"
      have so3: "sender_ok (?s, v1)" using so2 t2 response_init_ok by (simp add: sender_ok_def put_request_def)
      obtain b t3 v2 where g: "begin_connection LS_OUTGOING_CONNECTING_PREPARE now (?s, v1) = (b, t3, v2)" by (metis prod_cases3)
      note k = begin_connection_ok [OF g so3]
      have q2: "quiet w v2" using q k(2) by (rule quiet_trans)
      show ?thesis
      proof (cases b)
        case True
        with k(1) obtain tp where t3: "t3 = set_state LS_OUTGOING_CONNECTING_PREPARE now (?s\<lparr>ot_transport := tp\<rparr>)" by auto
        have "outgoing_inv (t3, v2)"
          by (rule inv_preparing [OF k(3)])
            (use assms t2(1) in \<open>simp_all add: t3 set_state_def put_request_def no_credentials_def preparing_def\<close>)
        with True Some req g q2 show ?thesis by (simp add: start_request_def u started_def t3 set_state_def)
      next
        case False
        with g have g': "begin_connection LS_OUTGOING_CONNECTING_PREPARE now (?s, v1) = (False, t3, v2)" by simp
        note z = begin_connection_fails [OF g' so3]
        have "ot_session_id t3 = []" using z(6) t2(1) assms(2) by (simp add: put_request_def no_credentials_def)
        with fail_transfer_ends [OF z(1), of now "connect_failure ''prepare-upload'' (t3, v2)"] q2 Some req g'
        show ?thesis by (auto simp: start_request_def u started_def ends_def intro: quiet_trans)
      qed
    qed
  qed
qed

lemma outgoing_start_ok:
  assumes "outgoing_inv (t, w)" and "\<not> ls_outgoing_is_active t"
  shows "started now w (ls_outgoing_start identity tls peer path name now (t, w))"
proof -
  obtain t1 w1 where a: "ls_outgoing_abort (t, w) = (t1, w1)" by (metis surj_pair)
  note a' = closed_ok [OF a [unfolded ls_outgoing_abort_def]]
  let ?t = "ls_outgoing_init\<lparr>ot_send_function := ot_send_function t1, ot_tls_identity := tls, ot_peer := peer\<rparr>"
  have fs: "or_default (ot_send_function t1) = Some default_plain_send"
    using assms(1) a' by (simp add: outgoing_inv_def sender_ok_def closed_transfer_def)
  have plain: "or_default (tp_plain_send ls_outgoing_transport_init) = Some default_plain_send"
    by (simp add: ls_outgoing_transport_init_def)
  have so: "sender_ok (?t\<lparr>ot_file_path := p, ot_file_name := n, ot_file_size := k\<rparr>, v)" "sender_ok (?t, v)" for p n k v
    using fs plain response_init_ok by (simp_all add: sender_ok_def ls_outgoing_init_def fresh_ok)
  have i: "no_credentials ?t" "ot_file ?t = None" "ot_sent_bytes ?t = 0" "ot_io ?t = []" "ot_state ?t = LS_OUTGOING_IDLE"
    by (simp_all add: ls_outgoing_init_def no_credentials_def)
  have q1: "quiet w w1" using a' by (simp add: calm_quiet)
  obtain r w2 where f: "regular_file path w1 = (r, w2)" by (metis surj_pair)
  have q2: "quiet w w2" using q1 regular_file_calm [OF f] by (auto intro: quiet_trans calm_quiet)
  obtain fr sn where n: "ls_filename_sanitize name LS3DS_FILENAME_CAPACITY = (fr, sn)" by (metis surj_pair)
  note fail1 = start_failed_started [OF so(2) i(1,2) q1]
  note fail2 = start_failed_started [OF so(2) i(1,2) q2]
  have go: "started now w (start_request identity now (?t\<lparr>ot_file_path := path, ot_file_name := sn, ot_file_size := k\<rparr>, w2))" for k
    by (rule start_request_started [OF so(1) _ _ _ _ q2]) (use i in \<open>simp_all add: no_credentials_def\<close>)
  show ?thesis
    unfolding ls_outgoing_start_def Let_def
    using assms(2) fail1 fail2 go by (simp add: a n f del: LS3DS_FILENAME_CAPACITY_def split: option.split)
qed

lemma outgoing_cancel_ok:
  assumes "outgoing_inv (t, w)" and "ls_outgoing_is_active t" and "ls_outgoing_cancel now (t, w) = (b, t', w')"
  shows "b \<and> ends now {LS_OUTGOING_CONNECTING_CANCEL, LS_OUTGOING_CANCELLED, LS_OUTGOING_FAILED} (t, w) (t', w')"
proof -
  obtain t1 w1 where c: "close_file (close_socket (t, w)) = (t1, w1)" by (metis surj_pair)
  note c' = closed_ok [OF c]
  have "sender_ok (closed_transfer t, w1)" by (rule closed_sender [of t w]) (use assms(1) in \<open>simp add: outgoing_inv_def\<close>)
  with c' have so: "sender_ok (outgoing_set_error m t1\<lparr>ot_cancel_terminal_state := x\<rparr>, w1)" for m x
    by (simp add: sender_ok_def outgoing_set_error_def)
  let ?t = "outgoing_set_error ''Cancelled locally'' t1\<lparr>ot_cancel_terminal_state := LS_OUTGOING_CANCELLED\<rparr>"
  have sj: "same_job t ?t" "ot_file ?t = None" "ot_session_id ?t = ot_session_id t1"
    using c' by (simp_all add: outgoing_set_error_def same_job_def closed_transfer_def)
  have q: "quiet w w1" using c' by (simp add: calm_quiet)
  have fin: "ends now {LS_OUTGOING_FAILED, LS_OUTGOING_CANCELLED} (t2, w2) (finish_cancel 0 now (t2, w2))"
    if "sender_ok (t2, w2)" "ot_file t2 = None" for t2 w2
    by (rule finish_cancel_ends [OF that(1)])
  have e: "ls_outgoing_cancel now (t, w) = (True,
      if ot_session_id ?t = [] then finish_cancel 0 now (?t, w1)
      else case build_cancel_request ?t of None \<Rightarrow> finish_cancel 0 now (?t, w1)
        | Some t \<Rightarrow> (case begin_connection LS_OUTGOING_CONNECTING_CANCEL now (t, w1) of (True, st) \<Rightarrow> st
            | (False, st) \<Rightarrow> finish_cancel 0 now st))"
    using assms(2) by (simp add: ls_outgoing_cancel_def c Let_def)
  let ?S = "{LS_OUTGOING_CONNECTING_CANCEL, LS_OUTGOING_FAILED, LS_OUTGOING_CANCELLED}"
  have "ends now ?S (?t, w1) (snd (ls_outgoing_cancel now (t, w)))"
  proof (cases "ot_session_id ?t = []")
    case True
    have "ends now ?S (?t, w1) (finish_cancel 0 now (?t, w1))"
      by (rule ends_trans [OF fin [OF so sj(2)]]) simp_all
    with True e show ?thesis by simp
  next
    case False
    from cancel_attempt_ends [OF so sj(2) False fin] show ?thesis unfolding e snd_conv if_not_P [OF False] .
  qed
  then have "ends now {LS_OUTGOING_CONNECTING_CANCEL, LS_OUTGOING_CANCELLED, LS_OUTGOING_FAILED} (t, w)
      (snd (ls_outgoing_cancel now (t, w)))"
    by (rule ends_trans [OF _ q sj(1)]) auto
  moreover have "b" using arg_cong [OF e, of fst] assms(3) by simp
  ultimately show ?thesis by (simp add: assms(3))
qed

lemma outgoing_init_fields [simp]:
  "ot_state ls_outgoing_init = LS_OUTGOING_IDLE" "ot_session_id ls_outgoing_init = []" "ot_file_token ls_outgoing_init = []"
  "ot_file ls_outgoing_init = None" "ot_io ls_outgoing_init = []" "ot_io_sent ls_outgoing_init = 0"
  "ot_request ls_outgoing_init = []" "ot_request_sent ls_outgoing_init = 0" "ot_error ls_outgoing_init = []"
  "ot_response ls_outgoing_init = ls_http_response_init" "ot_transport ls_outgoing_init = ls_outgoing_transport_init"
  "ot_send_function ls_outgoing_init = None"
  by (simp_all add: ls_outgoing_init_def)

lemma outgoing_init_inv:
  assumes "or_default f = Some default_plain_send"
  shows "outgoing_inv (ls_outgoing_init\<lparr>ot_send_function := f\<rparr>, w)"
proof -
  have "or_default (tp_plain_send ls_outgoing_transport_init) = Some default_plain_send"
    by (simp add: ls_outgoing_transport_init_def)
  with assms response_init_ok have "sender_ok (ls_outgoing_init\<lparr>ot_send_function := f\<rparr>, w)"
    by (simp add: sender_ok_def fresh_ok)
  then show ?thesis by (simp add: outgoing_inv_def phase_ok_def state_groups no_credentials_def)
qed

lemma outgoing_start_inv: "outgoing_inv (ls_outgoing_init, w)"
  using outgoing_init_inv [of None w] by (simp add: or_default_def ls_outgoing_init_def)

lemma outgoing_reset_inv:
  assumes "outgoing_inv (t, w)"
  shows "outgoing_inv (ls_outgoing_reset t, w)"
  using assms outgoing_init_inv [of "ot_send_function t" w]
  by (simp add: ls_outgoing_reset_def) (simp add: outgoing_inv_def sender_ok_def)

section \<open>Runs\<close>

text \<open>The operations the application calls; between them the rest of the program may change the world
  where it does not belong to this transfer: its connection and the file it sends.\<close>

datatype outgoing_op =
  OutStart LsDevice "LsTlsIdentity option" LsDevice string string u64
| OutCancel u64
| OutUpdate u64
| OutReset

fun outgoing_do :: "outgoing_op \<Rightarrow> out_state \<Rightarrow> out_state" where
  "outgoing_do (OutStart identity tls peer path name now) st = snd (ls_outgoing_start identity tls peer path name now st)"
| "outgoing_do (OutCancel now) st = snd (ls_outgoing_cancel now st)"
| "outgoing_do (OutUpdate now) st = ls_outgoing_update now st"
| "outgoing_do OutReset (t, w) = (ls_outgoing_reset t, w)"

definition undisturbed :: "LsOutgoingTransfer \<Rightarrow> world \<Rightarrow> world \<Rightarrow> bool" where
  "undisturbed t w w' \<longleftrightarrow> file_at w' (ot_file_path t) = file_at w (ot_file_path t) \<and>
     (\<forall>fd. fd = tp_fd (ot_transport t) \<longrightarrow> w_wire w' fd = w_wire w fd \<and> w_tls_wire w' fd = w_tls_wire w fd \<and>
        w_tls_seen w' fd = w_tls_seen w fd)"

inductive outgoing_reachable :: "out_state \<Rightarrow> bool" where
  reachable_init: "outgoing_reachable (ls_outgoing_init, w)"
| reachable_do: "outgoing_reachable st \<Longrightarrow> outgoing_reachable (outgoing_do op st)"
| reachable_others: "outgoing_reachable (t, w) \<Longrightarrow> undisturbed t w w' \<Longrightarrow> outgoing_reachable (t, w')"

lemma undisturbed_inv:
  assumes "outgoing_inv (t, w)" and "undisturbed t w w'"
  shows "outgoing_inv (t, w')"
proof -
  have "presented (tp_fd (ot_transport t)) w' = presented (tp_fd (ot_transport t)) w"
    using assms(2) by (simp add: undisturbed_def presented_def)
  moreover have "connection_text (ot_transport t) w' = connection_text (ot_transport t) w"
    using assms(2) by (simp add: undisturbed_def connection_text_def)
  moreover have "file_at w' (ot_file_path t) = file_at w (ot_file_path t)" using assms(2) by (simp add: undisturbed_def)
  ultimately show ?thesis using assms(1) by (simp add: outgoing_inv_def sender_ok_def phase_ok_def upload_ok_def)
qed

text \<open>Where an operation can take a transfer, and that it touches no file and sends only to a checked peer.\<close>

definition op_states :: "outgoing_op \<Rightarrow> LsOutgoingState \<Rightarrow> LsOutgoingState set" where
  "op_states op state =
     (let active = state \<notin> {LS_OUTGOING_IDLE, LS_OUTGOING_COMPLETED, LS_OUTGOING_REJECTED, LS_OUTGOING_CANCELLED, LS_OUTGOING_FAILED} in
      case op of
        OutStart _ _ _ _ _ _ \<Rightarrow> if active then {state} else {LS_OUTGOING_CONNECTING_PREPARE, LS_OUTGOING_FAILED}
      | OutCancel _ \<Rightarrow> if active then {LS_OUTGOING_CONNECTING_CANCEL, LS_OUTGOING_CANCELLED, LS_OUTGOING_FAILED} else {state}
      | OutUpdate _ \<Rightarrow> insert state (outgoing_next state)
      | OutReset \<Rightarrow> if active then {state} else {LS_OUTGOING_IDLE})"

lemma outgoing_do_ok:
  assumes "outgoing_inv (t, w)" and "outgoing_do op (t, w) = (t', w')"
  shows "outgoing_inv (t', w') \<and> sends_pinned (t, w) w' \<and> ot_state t' \<in> op_states op (ot_state t)"
proof (cases "ls_outgoing_is_active t")
  case True
  then have a: "(ot_state t \<notin> {LS_OUTGOING_IDLE, LS_OUTGOING_COMPLETED, LS_OUTGOING_REJECTED, LS_OUTGOING_CANCELLED, LS_OUTGOING_FAILED}) = True"
    by (simp add: ls_outgoing_is_active_def)
  show ?thesis
  proof (cases op)
    case (OutUpdate now)
    with outgoing_update_updates(1) [OF assms(1) True, of now] assms(2) show ?thesis
      by (auto simp: updates_def op_states_def)
  next
    case (OutCancel now)
    obtain b where "ls_outgoing_cancel now (t, w) = (b, t', w')"
      using OutCancel assms(2) by (cases "ls_outgoing_cancel now (t, w)") auto
    from outgoing_cancel_ok [OF assms(1) True this] OutCancel a show ?thesis
      by (auto simp: ends_def op_states_def quiet_sends)
  qed (use assms a True in \<open>simp_all add: op_states_def sends_pinned_def ls_outgoing_start_def ls_outgoing_reset_def\<close>)
next
  case False
  then have a: "(ot_state t \<notin> {LS_OUTGOING_IDLE, LS_OUTGOING_COMPLETED, LS_OUTGOING_REJECTED, LS_OUTGOING_CANCELLED, LS_OUTGOING_FAILED}) = False"
    by (simp add: ls_outgoing_is_active_def)
  show ?thesis
  proof (cases op)
    case (OutStart identity tls peer path name now)
    obtain b where "ls_outgoing_start identity tls peer path name now (t, w) = (b, t', w')"
      using OutStart assms(2) by (cases "ls_outgoing_start identity tls peer path name now (t, w)") auto
    with outgoing_start_ok [OF assms(1) False, of now identity tls peer path name] OutStart a show ?thesis
      by (auto simp: started_def op_states_def quiet_sends split: if_splits)
  next
    case OutReset
    with assms outgoing_reset_inv [OF assms(1)] False a show ?thesis
      by (auto simp: sends_pinned_def op_states_def ls_outgoing_reset_def)
  next
    case (OutCancel now)
    with assms False a show ?thesis by (simp add: ls_outgoing_cancel_def sends_pinned_def op_states_def)
  next
    case (OutUpdate now)
    with assms False a show ?thesis by (simp add: ls_outgoing_update_def sends_pinned_def op_states_def)
  qed
qed

lemma outgoing_reachable_inv: "outgoing_reachable st \<Longrightarrow> outgoing_inv st"
proof (induction rule: outgoing_reachable.induct)
  case (reachable_do st op)
  obtain t w t' w' where "st = (t, w)" "outgoing_do op (t, w) = (t', w')" by (metis surj_pair)
  with outgoing_do_ok [of t w op t' w'] reachable_do.IH show ?case by simp
qed (auto intro: outgoing_start_inv undisturbed_inv)

section \<open>A transfer ends\<close>

text \<open>Every update that does not leave the transfer as it is takes it down by at least one.\<close>

definition rank :: "LsOutgoingState \<Rightarrow> nat" where
  "rank state =
     (case state of
        LS_OUTGOING_CONNECTING_PREPARE \<Rightarrow> 10
      | LS_OUTGOING_SENDING_PREPARE \<Rightarrow> 9
      | LS_OUTGOING_WAITING_FOR_APPROVAL \<Rightarrow> 8
      | LS_OUTGOING_CONNECTING_UPLOAD \<Rightarrow> 7
      | LS_OUTGOING_SENDING_UPLOAD_HEADERS \<Rightarrow> 6
      | LS_OUTGOING_STREAMING_UPLOAD \<Rightarrow> 5
      | LS_OUTGOING_WAITING_FOR_UPLOAD_RESPONSE \<Rightarrow> 4
      | LS_OUTGOING_CONNECTING_CANCEL \<Rightarrow> 3
      | LS_OUTGOING_SENDING_CANCEL \<Rightarrow> 2
      | LS_OUTGOING_WAITING_FOR_CANCEL_RESPONSE \<Rightarrow> 1
      | _ \<Rightarrow> 0)"

definition most_work :: "u64 \<Rightarrow> nat" where
  "most_work n = LS3DS_HTTP_RESPONSE_RAW_CAPACITY + unat n"

definition left_to_do :: "LsOutgoingTransfer \<Rightarrow> nat" where
  "left_to_do t = rank (ot_state t) * (most_work (ot_file_size t) + 1) + work t"

lemma rank_next: "s' \<in> outgoing_next s \<Longrightarrow> rank s' < rank s"
  by (cases s) (auto simp: outgoing_next_def rank_def)

lemma rank_le: "rank s \<le> 10" by (cases s) (simp_all add: rank_def)

lemma work_le: "outgoing_inv (t, w) \<Longrightarrow> work t \<le> most_work (ot_file_size t)"
  by (auto simp: work_def most_work_def outgoing_inv_def sender_ok_def)

lemma left_le: "outgoing_inv (t, w) \<Longrightarrow> left_to_do t \<le> 11 * (most_work (ot_file_size t) + 1)"
proof -
  assume "outgoing_inv (t, w)"
  from work_le [OF this] have "left_to_do t \<le> 10 * (most_work (ot_file_size t) + 1) + most_work (ot_file_size t)"
    unfolding left_to_do_def by (intro add_mono mult_le_mono1 rank_le)
  then show ?thesis by simp
qed

lemma update_progress:
  assumes "updates now (t, w) (t', w')"
  shows "ot_last_activity_ms t' = ot_last_activity_ms t \<and> left_to_do t' = left_to_do t \<and> ot_state t' = ot_state t \<or>
    ot_last_activity_ms t' = now \<and> left_to_do t' < left_to_do t"
proof -
  have sz: "ot_file_size t' = ot_file_size t" and inv: "outgoing_inv (t', w')" using assms by (simp_all add: updates_def same_job_def)
  have down: "left_to_do t' < left_to_do t" if "ot_state t' \<in> outgoing_next (ot_state t)"
  proof -
    let ?m = "most_work (ot_file_size t) + 1"
    from rank_next [OF that] have "(rank (ot_state t') + 1) * ?m \<le> rank (ot_state t) * ?m" by (intro mult_le_mono1) simp
    then show ?thesis using work_le [OF inv] by (simp add: left_to_do_def sz)
  qed
  from assms consider "ot_state t' \<in> outgoing_next (ot_state t)" "ot_last_activity_ms t' = now"
    | "ot_state t' = ot_state t" "ot_last_activity_ms t' = ot_last_activity_ms t" "work t' = work t"
    | "ot_state t' = ot_state t" "ot_last_activity_ms t' = now" "work t' < work t"
    by (auto simp: updates_def)
  then show ?thesis by cases (use down in \<open>simp_all add: left_to_do_def sz\<close>)
qed

text \<open>Updates at the given times, the rest of the program running in between.\<close>

inductive outgoing_ticks :: "out_state \<Rightarrow> u64 list \<Rightarrow> out_state \<Rightarrow> bool" where
  ticks_start: "outgoing_ticks st [] st"
| ticks_next: "outgoing_ticks st clock (t, w) \<Longrightarrow> undisturbed t w w' \<Longrightarrow>
     outgoing_ticks st (clock @ [now]) (ls_outgoing_update now (t, w'))"

definition longest_timeout :: nat where "longest_timeout = 180000"

lemma timeout_le: "unat (timeout_for_state s) \<le> longest_timeout"
  by (cases s) (simp_all add: timeout_for_state_def outgoing_timeouts longest_timeout_def)

lemma not_expired:
  assumes "\<not> outgoing_expired now t" and "unat (ot_last_activity_ms t) \<le> unat now"
  shows "unat now < unat (ot_last_activity_ms t) + longest_timeout"
proof -
  have le: "ot_last_activity_ms t \<le> now" using assms(2) by (simp add: word_le_nat_alt)
  with assms(1) have "now - ot_last_activity_ms t < timeout_for_state (ot_state t)"
    by (simp add: outgoing_expired_def not_le)
  then have "unat now - unat (ot_last_activity_ms t) < unat (timeout_for_state (ot_state t))"
    using le by (simp add: word_less_nat_alt unat_sub)
  with timeout_le [of "ot_state t"] show ?thesis by linarith
qed

lemma ticks_bound:
  assumes "outgoing_ticks (t, w) clock st" and "outgoing_inv (t, w)" and "paced gap (ot_last_activity_ms t # clock)"
  shows "outgoing_inv st \<and> (ls_outgoing_is_active (fst st) \<longrightarrow>
     unat (ot_last_activity_ms (fst st)) + (longest_timeout + gap) * left_to_do (fst st)
       \<le> unat (ot_last_activity_ms t) + (longest_timeout + gap) * left_to_do t \<and>
     unat (ot_last_activity_ms (fst st)) \<le> unat (last (ot_last_activity_ms t # clock)) \<and>
     unat (last (ot_last_activity_ms t # clock)) \<le> unat (ot_last_activity_ms (fst st)) + longest_timeout)"
  using assms
proof (induction "(t, w)" clock st rule: outgoing_ticks.induct)
  case (ticks_next clock s v v' now)
  let ?last = "last (ot_last_activity_ms t # clock)"
  have so: "paced gap (ot_last_activity_ms t # clock)" "unat ?last \<le> unat now" "unat now \<le> unat ?last + gap"
    using ticks_next.prems(2) by (simp_all only: paced_snoc)
  note ih0 = ticks_next.hyps(2) [OF ticks_next.prems(1) so(1)]
  have inv: "outgoing_inv (s, v')" using ih0 ticks_next.hyps(3) by (auto intro: undisturbed_inv)
  show ?case
  proof (cases "ls_outgoing_is_active s")
    case False
    with inv show ?thesis by (simp add: ls_outgoing_update_def)
  next
    case True
    obtain s1 v1 where u: "ls_outgoing_update now (s, v') = (s1, v1)" by (metis surj_pair)
    note up = outgoing_update_updates [OF inv True, of now, unfolded u]
    from ih0 True have ih:
      "unat (ot_last_activity_ms s) + (longest_timeout + gap) * left_to_do s
         \<le> unat (ot_last_activity_ms t) + (longest_timeout + gap) * left_to_do t"
      "unat (ot_last_activity_ms s) \<le> unat ?last" "unat ?last \<le> unat (ot_last_activity_ms s) + longest_timeout"
      by simp_all
    have inv1: "outgoing_inv (s1, v1)" using up(1) by (simp add: updates_def)
    from update_progress [OF up(1)] show ?thesis
    proof
      assume i: "ot_last_activity_ms s1 = ot_last_activity_ms s \<and> left_to_do s1 = left_to_do s \<and> ot_state s1 = ot_state s"
      with up(2) have "\<not> outgoing_expired now s" by auto
      from not_expired [OF this] ih so have "unat now \<le> unat (ot_last_activity_ms s) + longest_timeout" by simp
      with i ih so inv1 show ?thesis by (simp add: u)
    next
      assume p: "ot_last_activity_ms s1 = now \<and> left_to_do s1 < left_to_do s"
      then have "(longest_timeout + gap) * (left_to_do s1 + 1) \<le> (longest_timeout + gap) * left_to_do s"
        by (intro mult_le_mono2) simp
      then have "unat now + (longest_timeout + gap) * left_to_do s1 \<le> unat (ot_last_activity_ms s) + (longest_timeout + gap) * left_to_do s"
        using ih so by simp
      with p ih inv1 show ?thesis by (simp add: u)
    qed
  qed
qed simp

lemma outgoing_over:
  assumes "outgoing_ticks (t, w) clock (t', w')" and "outgoing_inv (t, w)" and "paced gap (ot_last_activity_ms t # clock)"
    and "unat (ot_last_activity_ms t) + (longest_timeout + gap) * (11 * (most_work (ot_file_size t) + 1) + 1)
      < unat (last (ot_last_activity_ms t # clock))"
  shows "\<not> ls_outgoing_is_active t'"
proof
  assume active: "ls_outgoing_is_active t'"
  from ticks_bound [OF assms(1-3)] active have b:
    "unat (ot_last_activity_ms t') \<le> unat (ot_last_activity_ms t) + (longest_timeout + gap) * left_to_do t"
    "unat (last (ot_last_activity_ms t # clock)) \<le> unat (ot_last_activity_ms t') + longest_timeout" by simp_all
  have "(longest_timeout + gap) * left_to_do t \<le> (longest_timeout + gap) * (11 * (most_work (ot_file_size t) + 1))"
    by (intro mult_le_mono2 left_le [OF assms(2)])
  with b assms(4) show False by (simp add: distrib_left)
qed

end
