(* ===== verification/Upload_Link.thy ===== *)
theory Upload_Link
  imports Outgoing_Invariant Http_Upload
begin

text \<open>
  The two sides of an upload together: the query encoding of the sender is undone by the percent
  decoding of the receiver, the upload request of \<open>Outgoing_Transfer\<close> is read by \<open>Http_Request\<close> and
  \<open>Http_Upload\<close> as the same session, file and token, and what a sender has handed to its connection when
  it waits for the answer is such a request with exactly its file as the body.
\<close>


section \<open>Query encoding\<close>

definition encoded_char :: "char \<Rightarrow> string" where
  "encoded_char c = (if safe_query_char c then [c]
     else [CHR ''%'', ''0123456789ABCDEF'' ! (byte c div 16), ''0123456789ABCDEF'' ! (byte c mod 16)])"

lemma query_encode_loop_eq:
  "query_encode_loop capacity s out = Some r \<Longrightarrow> r = out @ concat (map encoded_char s)"
  by (induction s arbitrary: out) (fastforce simp: encoded_char_def split: if_splits)+

lemma query_encode_loop_safe:
  "\<forall>c \<in> set s. safe_query_char c \<Longrightarrow> length out + length s < capacity \<Longrightarrow> query_encode_loop capacity s out = Some (out @ s)"
  by (induction s arbitrary: out) auto

lemma query_encode_eq: "query_encode s capacity = Some r \<Longrightarrow> r = concat (map encoded_char s)"
  by (auto simp: query_encode_def dest: query_encode_loop_eq split: if_splits)

lemma query_encode_safe:
  "\<forall>c \<in> set s. safe_query_char c \<Longrightarrow> length s < capacity \<Longrightarrow> query_encode s capacity = Some s"
  by (simp add: query_encode_def query_encode_loop_safe)

lemma safe_query_cases:
  "safe_query_char c \<longleftrightarrow> 48 \<le> byte c \<and> byte c \<le> 57 \<or> 65 \<le> byte c \<and> byte c \<le> 90 \<or> 97 \<le> byte c \<and> byte c \<le> 122 \<or>
     byte c = 45 \<or> byte c = 95 \<or> byte c = 46 \<or> byte c = 126"
  by (auto simp: safe_query_char_def isalnum_def isdigit_def isupper_def islower_def char_eq_byte_iff simp del: byte_inj)

lemma upper_hex_digit: "n < 16 \<Longrightarrow> hex_digit (''0123456789ABCDEF'' ! n) = Some n \<and> safe_query_char (''0123456789ABCDEF'' ! n)"
proof -
  have "\<forall>n \<in> set [0..<16]. hex_digit (''0123456789ABCDEF'' ! n) = Some n \<and> safe_query_char (''0123456789ABCDEF'' ! n)"
    by code_simp
  then show "n < 16 \<Longrightarrow> ?thesis" by auto
qed

text \<open>The encoded text holds only characters a query value may hold.\<close>

lemma encoded_chars: "c \<in> set (concat (map encoded_char s)) \<Longrightarrow> safe_query_char c \<or> c = CHR ''%''"
proof -
  have "byte d div 16 < 16" "byte d mod 16 < 16" for d using byte_less_256 [of d] by (simp_all add: less_mult_imp_div_less)
  then show "c \<in> set (concat (map encoded_char s)) \<Longrightarrow> ?thesis"
    using upper_hex_digit by (auto simp: encoded_char_def split: if_splits)
qed

lemma percent_decode_encoded:
  "printable s \<Longrightarrow> length out + length s < capacity \<Longrightarrow>
     percent_decode_loop capacity (concat (map encoded_char s)) out = Some (out @ s)"
proof (induction s arbitrary: out)
  case (Cons c s)
  have b: "byte c div 16 < 16" "byte c mod 16 < 16" "char_of (byte c) = c"
    using byte_less_256 [of c] by (simp_all add: less_mult_imp_div_less)
  have p: "put_decoded capacity (byte c) out = Some (out @ [c])" using Cons.prems b(3) by (simp add: put_decoded_def)
  have ih: "percent_decode_loop capacity (concat (map encoded_char s)) (out @ [c]) = Some ((out @ [c]) @ s)"
    using Cons.prems by (intro Cons.IH) simp_all
  show ?case
  proof (cases "safe_query_char c")
    case True
    then have "c \<noteq> CHR ''%''" "c \<noteq> CHR ''+''"
      by (auto simp: safe_query_cases char_eq_byte_iff simp del: byte_inj)
    with True p ih show ?thesis by (simp add: encoded_char_def [of c])
  next
    case False
    have "push_bit 4 (byte c div 16) OR byte c mod 16 = byte c"
      using nibble_pair [OF b(2), of "byte c div 16"] by simp
    with False p ih upper_hex_digit [OF b(1)] upper_hex_digit [OF b(2)] show ?thesis
      by (simp add: encoded_char_def [of c])
  qed
qed simp

lemma query_encode_decode:
  "query_encode s n = Some e \<Longrightarrow> printable s \<Longrightarrow> length s < capacity \<Longrightarrow> percent_decode e capacity = Some s"
  using percent_decode_encoded [of s "[]" capacity] by (auto simp: percent_decode_def dest!: query_encode_eq)

section \<open>The upload request, read by the receiving side of this program\<close>

definition upload_target :: "string \<Rightarrow> string \<Rightarrow> string \<Rightarrow> string" where
  "upload_target session fileid token =
     ''/api/localsend/v2/upload?sessionId='' @ session @ ''&fileId='' @ fileid @ ''&token='' @ token"

definition upload_lines :: "LsDevice \<Rightarrow> u64 \<Rightarrow> string list" where
  "upload_lines peer filesize =
     [''Host: '' @ ip_address peer @ '':'' @ dec (unat (port peer)), ''Content-Type: application/octet-stream'',
      ''Content-Length: '' @ dec (unat filesize), ''Connection: close'']"

lemma upload_head_lines:
  "upload_head peer session fileid token filesize =
     request_head ''POST'' (upload_target session fileid token) (upload_lines peer filesize)"
  by (simp add: upload_head_def request_head_def upload_target_def upload_lines_def host_line_def)

definition query_text :: "string \<Rightarrow> bool" where
  "query_text s \<longleftrightarrow> s \<noteq> [] \<and> (\<forall>c \<in> set s. safe_query_char c \<or> c = CHR ''%'')"

lemma query_text_chars:
  assumes "query_text s"
  shows "CHR ''&'' \<notin> set s" "\<forall>c \<in> set s. \<not> isspace c \<and> c \<noteq> NUL \<and> c \<noteq> CHR ''?''"
  using assms by (auto simp: query_text_def safe_query_cases isspace_def char_eq_byte_iff simp del: byte_inj)

lemma target_word:
  assumes "query_text a" "query_text b" "query_text c"
  shows "word_text (upload_target a b c)"
  using query_text_chars(2) [OF assms(1)] query_text_chars(2) [OF assms(2)] query_text_chars(2) [OF assms(3)]
  by (auto simp: word_text_def upload_target_def nul_free_def isspace_def)

lemma name_decoded: "percent_decode ''sessionId'' 32 = Some ''sessionId''" "percent_decode ''fileId'' 32 = Some ''fileId''"
  "percent_decode ''token'' 32 = Some ''token''"
  by (intro percent_decode_plain; simp)+

lemma query_pair:
  assumes "CHR ''&'' \<notin> set n" "CHR ''='' \<notin> set n" "CHR ''&'' \<notin> set enc" "percent_decode n 32 = Some name"
  shows "query_loop wanted capacity (n @ ''='' @ enc @ ''&'' @ rest) found =
     (if name = wanted then
        (if found \<noteq> None then QUERY_INVALID
         else case percent_decode enc capacity of
           None \<Rightarrow> QUERY_INVALID
         | Some value \<Rightarrow> if value = [] then QUERY_INVALID else query_loop wanted capacity rest (Some value))
      else query_loop wanted capacity rest found)"
proof -
  have e: "drop 1 (''&'' @ rest) = rest" "''&'' @ rest = [] \<or> hd (''&'' @ rest) = CHR ''&''" by simp_all
  from query_step [OF assms e(2), of wanted capacity found] show ?thesis unfolding e(1) by simp
qed

lemma query_values:
  assumes "query_text a" "query_text b" "query_text c"
    and "percent_decode a 65 = Some s" "percent_decode b 129 = Some i" "percent_decode c 65 = Some k"
    and "s \<noteq> []" "i \<noteq> []" "k \<noteq> []"
  shows "query_value (upload_target a b c) ''sessionId'' 65 = QUERY_OK s"
    "query_value (upload_target a b c) ''fileId'' 129 = QUERY_OK i"
    "query_value (upload_target a b c) ''token'' 65 = QUERY_OK k"
proof -
  have d: "dropWhile (\<lambda>c. c \<noteq> CHR ''?'') (upload_target a b c) =
      CHR ''?'' # ''sessionId'' @ ''='' @ a @ ''&'' @ ''fileId'' @ ''='' @ b @ ''&'' @ ''token'' @ ''='' @ c @ []"
    by (simp add: upload_target_def)
  have s1: "query_loop wanted n (''sessionId'' @ ''='' @ a @ ''&'' @ ''fileId'' @ ''='' @ b @ ''&'' @ ''token'' @ ''='' @ c @ []) found =
     (if ''sessionId'' = wanted then
        (if found \<noteq> None then QUERY_INVALID
         else case percent_decode a n of None \<Rightarrow> QUERY_INVALID
         | Some value \<Rightarrow> if value = [] then QUERY_INVALID
             else query_loop wanted n (''fileId'' @ ''='' @ b @ ''&'' @ ''token'' @ ''='' @ c @ []) (Some value))
      else query_loop wanted n (''fileId'' @ ''='' @ b @ ''&'' @ ''token'' @ ''='' @ c @ []) found)" for wanted n found
    using query_pair [OF _ _ query_text_chars(1) [OF assms(1)] name_decoded(1), of wanted n "''fileId'' @ ''='' @ b @ ''&'' @ ''token'' @ ''='' @ c @ []" found]
    by (simp del: append.simps)
  have s2: "query_loop wanted n (''fileId'' @ ''='' @ b @ ''&'' @ ''token'' @ ''='' @ c @ []) found =
     (if ''fileId'' = wanted then
        (if found \<noteq> None then QUERY_INVALID
         else case percent_decode b n of None \<Rightarrow> QUERY_INVALID
         | Some value \<Rightarrow> if value = [] then QUERY_INVALID
             else query_loop wanted n (''token'' @ ''='' @ c @ []) (Some value))
      else query_loop wanted n (''token'' @ ''='' @ c @ []) found)" for wanted n found
    using query_pair [OF _ _ query_text_chars(1) [OF assms(2)] name_decoded(2), of wanted n "''token'' @ ''='' @ c @ []" found]
    by (simp del: append.simps)
  have s3: "query_loop wanted n (''token'' @ ''='' @ c @ []) found =
     (if ''token'' = wanted then
        (if found \<noteq> None then QUERY_INVALID
         else case percent_decode c n of None \<Rightarrow> QUERY_INVALID
         | Some value \<Rightarrow> if value = [] then QUERY_INVALID else QUERY_OK value)
      else case found of None \<Rightarrow> QUERY_MISSING | Some v \<Rightarrow> QUERY_OK v)" for wanted n found
  proof -
    have e: "drop 1 [] = ([] :: string)" by simp
    have z: "query_loop wanted n [] f = (case f of None \<Rightarrow> QUERY_MISSING | Some v \<Rightarrow> QUERY_OK v)" for f
      by (simp add: query_loop.simps [of wanted n "[]"])
    show ?thesis
      using query_step [OF _ _ query_text_chars(1) [OF assms(3)] name_decoded(3), of "[]" wanted n found, unfolded e z option.case]
      by (simp del: append.simps)
  qed
  show "query_value (upload_target a b c) ''sessionId'' 65 = QUERY_OK s"
    "query_value (upload_target a b c) ''fileId'' 129 = QUERY_OK i"
    "query_value (upload_target a b c) ''token'' 65 = QUERY_OK k"
    unfolding query_value_def d list.case s1 s2 s3 using assms(4-9) by simp_all
qed

lemma upload_head_parsed:
  assumes "query_text a" "query_text b" "query_text c" and "length (upload_target a b c) \<le> 767" and "line_text (ip_address peer)"
  shows "parse_request_headers (upload_head peer a b c n) = Some
    \<lparr>req_method = ''POST'', req_target = upload_target a b c, req_header_length = length (upload_head peer a b c n),
     req_content_length = n, req_has_content_length = True, req_chunked = False\<rparr>"
  unfolding upload_head_lines
proof (rule parse_request_head)
  have "CR \<notin> set (dec m)" for m using dec_digits [of CR m] by (auto simp: isdigit_def)
  then have d: "line_text (dec m)" for m by (simp add: line_text_def)
  show "\<forall>l \<in> set (upload_lines peer n). line_text l \<and> l \<noteq> []"
    using assms(5) d by (simp add: upload_lines_def)
  have o: "parse_header_line (''Host: '' @ v) st = Some st" "parse_header_line ''Content-Type: application/octet-stream'' st = Some st"
    "parse_header_line ''Connection: close'' st = Some st" for v st
    using other_header_line [of "''Host''" "'' '' @ v"] other_header_line [of "''Content-Type''" "'' application/octet-stream''"]
      other_header_line [of "''Connection''" "'' close''"] by (cases st; simp)+
  let ?r = "\<lambda>l v has. \<lparr>req_method = ''POST'', req_target = upload_target a b c, req_header_length = l,
    req_content_length = v, req_has_content_length = has, req_chunked = False\<rparr>"
  have "parse_all (upload_lines peer n) (?r l 0 False, False) = Some (?r l n True, False)" for l
  proof -
    have "parse_header_line (''Content-Length: '' @ dec (unat n)) (?r l 0 False, False) = Some (?r l n True, False)"
      using content_length_line [of "?r l 0 False" n False] by simp
    then show ?thesis by (simp only: upload_lines_def parse_all.simps o option.case)
  qed
  then show "parse_all (upload_lines peer n) (?r (length (request_head ''POST'' (upload_target a b c) (upload_lines peer n))) 0 False, False) =
    Some (?r (length (request_head ''POST'' (upload_target a b c) (upload_lines peer n))) n True, False)" .
qed (use assms target_word in \<open>simp_all add: word_text_def isspace_def nul_free_def\<close>)


lemma uuid_chars:
  assumes "uuid_text s"
  shows "\<forall>c \<in> set s. safe_query_char c" "length s = 36" "query_text s" "printable s"
proof -
  define H where "H = set ''0123456789abcdef''"
  have h: "\<forall>c \<in> H \<union> {CHR ''-''}. safe_query_char c \<and> 32 \<le> byte c"
    unfolding H_def by code_simp
  from assms obtain a b c d e where "s = a @ ''-'' @ b @ ''-'' @ c @ ''-'' @ d @ ''-'' @ e"
    "set a \<subseteq> H" "set b \<subseteq> H" "set c \<subseteq> H" "set d \<subseteq> H" "set e \<subseteq> H"
    unfolding uuid_text_def hex_group_def H_def [symmetric] by blast
  then have "set s \<subseteq> H \<union> {CHR ''-''}" by auto
  with h have m: "\<forall>x \<in> set s. safe_query_char x \<and> 32 \<le> byte x" by blast
  then show "\<forall>c \<in> set s. safe_query_char c" "printable s" by (simp_all add: printable_def)
  show "length s = 36" using uuid_nul_free [OF assms] by simp
  with m show "query_text s" by (auto simp: query_text_def)
qed

lemma uuid_encoded:
  assumes "uuid_text s" and "37 \<le> capacity"
  shows "query_encode s capacity = Some s"
  using query_encode_safe [OF uuid_chars(1) [OF assms(1)]] uuid_chars(2) [OF assms(1)] assms(2) by simp

lemma uuid_decoded:
  assumes "uuid_text s" and "37 \<le> capacity"
  shows "percent_decode s capacity = Some s"
  using query_encode_decode [OF uuid_encoded [OF assms] uuid_chars(4) [OF assms(1)]] uuid_chars(2) [OF assms(1)] assms(2)
  by simp

lemma split_dots_chars: "c \<in> set s \<Longrightarrow> c = CHR ''.'' \<or> (\<exists>p \<in> set (split_dots s). c \<in> set p)"
proof (induction s)
  case (Cons d s)
  then show ?case by (cases "d = CHR ''.''"; cases "split_dots s"; simp) blast+
qed simp

lemma address_line: "peer_address peer \<Longrightarrow> line_text (ip_address peer) \<and> LF \<notin> set (ip_address peer)"
proof -
  assume "peer_address peer"
  then have "\<forall>p \<in> set (split_dots (ip_address peer)). \<forall>c \<in> set p. isdigit c"
    by (simp add: peer_address_def list_all_iff octet_text_def)
  then have d: "c \<in> set (ip_address peer) \<Longrightarrow> c = CHR ''.'' \<or> isdigit c" for c using split_dots_chars [of c] by blast
  have "\<not> isdigit CR" "\<not> isdigit LF" "\<not> isdigit NUL" by (simp_all add: isdigit_def)
  with d [of CR] d [of LF] d [of NUL] show ?thesis by (auto simp: line_text_def nul_free_def)
qed

lemma upload_head_end:
  assumes "uuid_text a" "uuid_text b" "uuid_text c" and "peer_address peer"
  shows "find_header_end (upload_head peer a b c n @ body) = length (upload_head peer a b c n)"
proof -
  define ts where "ts = (''POST'' @ '' '' @ upload_target a b c @ '' HTTP/1.1'') # upload_lines peer n"
  have d: "LF \<notin> set (dec m)" for m using dec_digits [of LF m] by (auto simp: isdigit_def)
  have u: "LF \<notin> set x" if "uuid_text x" for x
    using query_text_chars(2) [OF uuid_chars(3) [OF that]] isspace_space(3) by blast
  have ts: "\<forall>t \<in> set ts. LF \<notin> set t \<and> t \<noteq> []" "ts \<noteq> []"
    using u [OF assms(1)] u [OF assms(2)] u [OF assms(3)] d address_line [OF assms(4)]
    by (simp_all add: ts_def upload_target_def upload_lines_def)
  have h: "upload_head peer a b c n = lines_text ts @ CRLF"
    by (simp only: upload_head_lines request_head_def ts_def lines_text_simps append_assoc)
  have "4 \<le> length (lines_text ts)" by (simp add: ts_def)
  moreover have "find_bytes (upload_head peer a b c n @ body) END_OF_HEADERS = Some (length (lines_text ts) - 2)"
    using find_blank_line [OF ts, of body] by (simp only: h append_assoc)
  ultimately have "find_header_end (upload_head peer a b c n @ body) \<noteq> 0"
    "find_header_end (upload_head peer a b c n @ body) - 4 = length (lines_text ts) - 2"
    unfolding find_header_end_bytes by (simp_all split: if_splits)
  moreover from this(1) have "4 \<le> find_header_end (upload_head peer a b c n @ body)"
    using find_header_end_spec [of "upload_head peer a b c n @ body"] by blast
  moreover have "length (upload_head peer a b c n) = length (lines_text ts) + 2" unfolding h by simp
  ultimately show ?thesis using \<open>4 \<le> length (lines_text ts)\<close> by linarith
qed

definition sent_request :: "LsOutgoingTransfer \<Rightarrow> ParsedRequest" where
  "sent_request t =
     \<lparr>req_method = ''POST'', req_target = upload_target (ot_session_id t) (ot_file_id t) (ot_file_token t),
      req_header_length = length (ot_request t), req_content_length = ot_file_size t,
      req_has_content_length = True, req_chunked = False\<rparr>"

lemma upload_text_head:
  assumes "uuid_text (ot_session_id t)" "uuid_text (ot_file_id t)" "uuid_text (ot_file_token t)"
    and "upload_text t = Some q"
  shows "q = upload_head (ot_peer t) (ot_session_id t) (ot_file_id t) (ot_file_token t) (ot_file_size t)"
  using assms(4) uuid_encoded [OF assms(1)] uuid_encoded [OF assms(2)] uuid_encoded [OF assms(3)]
  by (auto simp: upload_text_def build_upload_request_def put_request_def Let_def split: if_splits)

lemma upload_request_read:
  assumes "uuid_text (ot_session_id t)" "uuid_text (ot_file_id t)" "uuid_text (ot_file_token t)"
    and "upload_text t = Some (ot_request t)" and "peer_address (ot_peer t)"
  shows "find_header_end (ot_request t @ body) = length (ot_request t)"
    "parse_request_headers (ot_request t) = Some (sent_request t)"
    "route_path (req_target (sent_request t)) 256 = Some ''/api/localsend/v2/upload''"
    "upload_parameters (sent_request t) = Some (ot_session_id t, ot_file_id t, ot_file_token t)"
proof -
  note q = upload_text_head [OF assms(1-4)]
  note u1 = uuid_chars [OF assms(1)] and u2 = uuid_chars [OF assms(2)] and u3 = uuid_chars [OF assms(3)]
  show "find_header_end (ot_request t @ body) = length (ot_request t)"
    unfolding q by (rule upload_head_end [OF assms(1-3,5)])
  have "length (upload_target (ot_session_id t) (ot_file_id t) (ot_file_token t)) \<le> 767"
    using u1(2) u2(2) u3(2) by (simp add: upload_target_def)
  from upload_head_parsed [OF u1(3) u2(3) u3(3) this address_line [OF assms(5), THEN conjunct1], of "ot_file_size t"]
  show "parse_request_headers (ot_request t) = Some (sent_request t)"
    by (simp add: sent_request_def q)
  show "route_path (req_target (sent_request t)) 256 = Some ''/api/localsend/v2/upload''"
    by (simp add: sent_request_def upload_target_def route_path_def)
  have "query_text x \<Longrightarrow> x \<noteq> []" for x by (simp add: query_text_def)
  with query_values [OF u1(3) u2(3) u3(3) uuid_decoded [OF assms(1)] uuid_decoded [OF assms(2)] uuid_decoded [OF assms(3)]] u1(3) u2(3) u3(3)
  show "upload_parameters (sent_request t) = Some (ot_session_id t, ot_file_id t, ot_file_token t)"
    by (simp add: upload_parameters_def sent_request_def)
qed

section \<open>The file of a transfer is named by a UUID\<close>

lemma start_file_id:
  assumes "ls_outgoing_start identity tls peer path name now (t, w) = (True, t', w')" and "\<not> ls_outgoing_is_active t"
  shows "uuid_text (ot_file_id t')"
proof -
  have r: "uuid_text (ot_file_id t2)" if "start_request identity now (t1, w1) = (True, t2, w2)" for t1 w1 t2 w2
  proof -
    obtain r v where u: "ls_secure_random_uuid w1 = (r, v)" by (metis surj_pair)
    with that obtain i where i: "r = Some i" by (cases r) (auto simp: start_request_def start_failed_with_def)
    with that u obtain t3 where b: "build_prepare_request identity (t1\<lparr>ot_file_id := i\<rparr>) = Some t3"
      by (cases "build_prepare_request identity (t1\<lparr>ot_file_id := i\<rparr>)") (simp_all add: start_request_def start_failed_with_def Let_def)
    then have "ot_file_id t3 = i"
      by (auto simp: build_prepare_request_def append_body_def put_request_def Let_def split: option.splits if_splits)
    moreover have "begin_connection LS_OUTGOING_CONNECTING_PREPARE now (t3\<lparr>ot_response := ls_http_response_init\<rparr>, v) = (True, t2, w2)"
      using that u i b by (simp add: start_request_def Let_def split: bool.splits prod.splits)
    ultimately have "ot_file_id t2 = i"
      by (auto simp: begin_connection_def set_state_def close_socket_def split: prod.splits bool.splits)
    with uuid_format [of w1 i v] u i show ?thesis by simp
  qed
  obtain t1 w1 where a: "ls_outgoing_abort (t, w) = (t1, w1)" by (metis surj_pair)
  have "\<exists>s v. start_request identity now (s, v) = (True, t', w')"
    using assms unfolding ls_outgoing_start_def Let_def
    by (auto simp: a start_failed_with_def split: prod.splits option.splits if_splits)
  with r show ?thesis by blast
qed

lemma reachable_file_id:
  "outgoing_reachable (t, w) \<Longrightarrow> ls_outgoing_is_active t \<Longrightarrow> uuid_text (ot_file_id t)"
proof (induction "(t, w)" arbitrary: t w rule: outgoing_reachable.induct)
  case (reachable_do st op)
  obtain t0 w0 where st: "st = (t0, w0)" by (metis surj_pair)
  have inv: "outgoing_inv (t0, w0)" using outgoing_reachable_inv reachable_do.hyps(1) st by blast
  show ?case
  proof (cases "ls_outgoing_is_active t0")
    case True
    then have id: "uuid_text (ot_file_id t0)" using reachable_do.hyps(2) st by blast
    have "ot_file_id t = ot_file_id t0"
    proof (cases op)
      case (OutUpdate now)
      with outgoing_update_updates(1) [OF inv True, of now] reachable_do.hyps(3) st show ?thesis
        by (simp add: updates_def same_job_def)
    next
      case (OutCancel now)
      obtain b where "ls_outgoing_cancel now (t0, w0) = (b, t, w)"
        using OutCancel reachable_do.hyps(3) st by (cases "ls_outgoing_cancel now (t0, w0)") auto
      from outgoing_cancel_ok [OF inv True this] show ?thesis by (simp add: ends_def same_job_def)
    qed (use reachable_do.hyps(3) st True in \<open>auto simp: ls_outgoing_start_def ls_outgoing_reset_def\<close>)
    with id show ?thesis by simp
  next
    case False
    show ?thesis
    proof (cases op)
      case (OutStart identity tls peer path name now)
      obtain ok where b: "ls_outgoing_start identity tls peer path name now (t0, w0) = (ok, t, w)"
        using OutStart reachable_do.hyps(3) st by (cases "ls_outgoing_start identity tls peer path name now (t0, w0)") auto
      with outgoing_start_ok [OF inv False, of now identity tls peer path name] reachable_do.prems have ok
        by (auto simp: started_def ls_outgoing_is_active_def split: if_splits)
      with start_file_id [of identity tls peer path name now t0 w0 t w] b False show ?thesis by simp
    qed (use reachable_do False st in \<open>auto simp: ls_outgoing_cancel_def ls_outgoing_update_def ls_outgoing_reset_def ls_outgoing_is_active_def\<close>)
  qed
qed (auto simp: ls_outgoing_is_active_def)

section \<open>From the sender's file to the receiver's request\<close>

lemma upload_sent:
  assumes "outgoing_reachable (t, w)" and "ot_state t = LS_OUTGOING_WAITING_FOR_UPLOAD_RESPONSE"
  obtains base content where "file_at w (ot_file_path t) = Some content" "ot_file_size t = of_nat (length content)"
    "connection_text (ot_transport t) w = base @ ot_request t @ take (unat (ot_file_size t)) content"
    "upload_text t = Some (ot_request t)" "peer_address (ot_peer t)"
proof -
  have "phase_ok (t, w)" using outgoing_reachable_inv [OF assms(1)] by (simp add: outgoing_inv_def)
  then obtain content where u: "upload_ok content (t, w)" using assms(2) by (auto simp: phase_ok_def uploading_def)
  from u [unfolded upload_ok_def prod.case] assms(2) obtain base where
    "connection_text (ot_transport t) w = base @ ot_request t @ take (unat (ot_file_size t)) content" by auto
  with u that show thesis by (simp add: upload_ok_def)
qed

lemma upload_understood:
  assumes "outgoing_reachable (t, w)" and "ot_state t = LS_OUTGOING_WAITING_FOR_UPLOAD_RESPONSE"
    and "uuid_text (ot_session_id t)" "uuid_text (ot_file_token t)"
    and "file_at w (ot_file_path t) = Some content" "length content < 2 ^ 64"
  shows "\<exists>base request. connection_text (ot_transport t) w = base @ ot_request t @ content \<and>
     find_header_end (ot_request t @ content) = length (ot_request t) \<and>
     parse_request_headers (ot_request t) = Some request \<and>
     req_method request = ''POST'' \<and> route_path (req_target request) 256 = Some ''/api/localsend/v2/upload'' \<and>
     upload_parameters request = Some (ot_session_id t, ot_file_id t, ot_file_token t) \<and>
     request_body request content content"
proof -
  from assms(2) have "ls_outgoing_is_active t" by (simp add: ls_outgoing_is_active_def)
  note id = reachable_file_id [OF assms(1) this]
  from upload_sent [OF assms(1,2)] assms(5) obtain base where
    s: "ot_file_size t = of_nat (length content)"
      "connection_text (ot_transport t) w = base @ ot_request t @ take (unat (ot_file_size t)) content"
      "upload_text t = Some (ot_request t)" "peer_address (ot_peer t)" by (metis option.inject)
  have n: "unat (ot_file_size t) = length content" using s(1) assms(6) by (simp add: unat_of_nat)
  note r = upload_request_read [OF assms(3) id assms(4) s(3,4)]
  show ?thesis
    using s(2) r(1) [of content] r(2-4) n
    by (intro exI [of _ base] exI [of _ "sent_request t"]) (simp add: sent_request_def request_body_def)
qed

end
