(* ===== verification/Upload_Success.thy ===== *)
theory Upload_Success
  imports Upload_Link
begin

text \<open>
  A transfer without faults: on a plain connection whose peer takes what it is offered and agrees, the updates of
  \<open>outgoing_transfer.c\<close> carry the whole file, of any length, and end with the transfer completed.
\<close>

section \<open>Plain connections that take everything\<close>

lemma do_net_ok: "w_io w = [] \<Longrightarrow> do_net w = (True, w)"
  by (simp add: do_net_def next_io_def)

lemma do_simple_ok: "w_io w = [] \<Longrightarrow> do_simple w = (True, w)"
  by (simp add: do_simple_def next_io_def)

text \<open>The part of the world the walk needs: no faults, what the card holds, the next sockets and
  connections, what the peers take, send and have been sent.\<close>

definition view :: "world \<Rightarrow> (string \<rightharpoonup> fs_node) \<Rightarrow> int option list \<Rightarrow> (int \<times> nat) list \<Rightarrow> (int \<Rightarrow> send_answer list) \<Rightarrow>
    (int \<Rightarrow> recv_answer list) \<Rightarrow> (int \<Rightarrow> string) \<Rightarrow> bool" where
  "view w fs sockets connects sends recvs wire \<longleftrightarrow>
     w_io w = [] \<and> w_fs w = fs \<and> w_socket w = sockets \<and> w_connect w = connects \<and> w_send w = sends \<and>
     w_recv w = recvs \<and> w_wire w = wire"

lemma plain_close:
  assumes "tp_tls_state tp = None" and "view w fs so co se re wi"
  shows "\<exists>w'. ls_outgoing_transport_close tp w =
      (ls_outgoing_transport_init\<lparr>tp_plain_send := or_default (tp_plain_send tp)\<rparr>, w') \<and> view w' fs so co se re wi"
  using assms by (simp add: ls_outgoing_transport_close_def do_close_def view_def)

definition plain_transport :: "int \<Rightarrow> bool \<Rightarrow> LsOutgoingTransport" where
  "plain_transport fd ready =
     ls_outgoing_transport_init\<lparr>tp_fd := fd, tp_tcp_connected := True, tp_ready := ready\<rparr>"

lemma plain_transport_fields [simp]:
  "tp_fd (plain_transport fd b) = fd" "tp_tcp_connected (plain_transport fd b)" "tp_ready (plain_transport fd b) = b"
  "tp_tls_state (plain_transport fd b) = None" "tp_protocol (plain_transport fd b) = LS_PROTOCOL_HTTP"
  "tp_plain_send (plain_transport fd b) = Some default_plain_send"
  by (simp_all add: plain_transport_def ls_outgoing_transport_init_def)

lemma plain_begin:
  assumes "tp_tls_state tp = None" and "or_default (tp_plain_send tp) = Some default_plain_send"
    and "protocol p = LS_PROTOCOL_HTTP" and "peer_address p" and "0 \<le> fd"
    and "view w fs (Some fd # so) ((0, e) # co) se re wi"
  shows "\<exists>w'. ls_outgoing_transport_begin tp p identity w = (True, plain_transport fd False, w') \<and> view w' fs so co se re wi"
proof -
  obtain w1 where c: "ls_outgoing_transport_close tp w = (ls_outgoing_transport_init\<lparr>tp_plain_send := or_default (tp_plain_send tp)\<rparr>, w1)"
    "view w1 fs (Some fd # so) ((0, e) # co) se re wi" using plain_close [OF assms(1,6)] by blast
  have io: "w_io w1 = []" using c(2) by (simp add: view_def)
  have "ls_outgoing_transport_init\<lparr>tp_plain_send := or_default (tp_plain_send tp), tp_protocol := LS_PROTOCOL_HTTP, tp_fd := fd,
      tp_tcp_connected := True\<rparr> = plain_transport fd False"
    using assms(2) by (simp add: plain_transport_def ls_outgoing_transport_init_def)
  then show ?thesis
    using c assms(3-5)
    by (simp add: ls_outgoing_transport_begin_def begin_socket_def begin_connect_def do_socket_def do_connect_def view_def
        transport_set_nonblocking_def do_net_ok ls_socket_classify_connect_result_def)
qed

text \<open>The transfers of the walk.\<close>

definition plain_transfer :: "int \<Rightarrow> bool \<Rightarrow> LsOutgoingTransfer \<Rightarrow> bool" where
  "plain_transfer fd ready t \<longleftrightarrow> ot_transport t = plain_transport fd ready \<and> 0 \<le> fd \<and>
     protocol (ot_peer t) = LS_PROTOCOL_HTTP \<and> peer_address (ot_peer t) \<and> ot_send_function t = None"

lemma plain_begin_connection:
  assumes "tp_tls_state (ot_transport t) = None" and "or_default (tp_plain_send (ot_transport t)) = Some default_plain_send"
    and "ot_send_function t = None"
    and "protocol (ot_peer t) = LS_PROTOCOL_HTTP" and "peer_address (ot_peer t)" and "0 \<le> fd"
    and "view w fs (Some fd # so) ((0, e) # co) se re wi"
  shows "\<exists>w'. begin_connection cs now (t, w) = (True, set_state cs now (t\<lparr>ot_transport := plain_transport fd False\<rparr>), w') \<and>
    view w' fs so co se re wi"
proof -
  obtain w1 where c: "ls_outgoing_transport_close (ot_transport t) w =
      (ls_outgoing_transport_init\<lparr>tp_plain_send := or_default (tp_plain_send (ot_transport t))\<rparr>, w1)"
    "view w1 fs (Some fd # so) ((0, e) # co) se re wi" using plain_close [OF assms(1,7)] by blast
  let ?tp = "ls_outgoing_transport_set_plain_send None
      (ls_outgoing_transport_init\<lparr>tp_plain_send := or_default (tp_plain_send (ot_transport t))\<rparr>)"
  have "tp_tls_state ?tp = None" "or_default (tp_plain_send ?tp) = Some default_plain_send"
    by (simp_all add: ls_outgoing_transport_set_plain_send_def or_default_def ls_outgoing_transport_init_def)
  from plain_begin [OF this assms(4-6) c(2), of "ot_tls_identity t"] obtain w2 where
    "ls_outgoing_transport_begin ?tp (ot_peer t) (ot_tls_identity t) w1 = (True, plain_transport fd False, w2)"
    "view w2 fs so co se re wi" by blast
  with c(1) assms(3) show ?thesis
    by (intro exI [of _ w2]) (simp add: begin_connection_def close_socket_def)
qed

lemma fresh_clock: "ot_last_activity_ms t = now \<Longrightarrow> \<not> outgoing_expired now t"
  by (simp add: outgoing_expired_def timeout_for_state_def outgoing_timeouts)

lemma plain_connected:
  assumes "plain_transfer fd False t" and "ot_last_activity_ms t = now"
    and "ot_state t \<in> {LS_OUTGOING_CONNECTING_PREPARE, LS_OUTGOING_CONNECTING_UPLOAD}"
  shows "ls_outgoing_update now (t, w) =
    (set_state (connected_state (ot_state t)) now (t\<lparr>ot_transport := plain_transport fd True\<rparr>), w)"
proof -
  have r: "(plain_transport fd False)\<lparr>tp_ready := True\<rparr> = plain_transport fd True" by (simp add: plain_transport_def)
  have "ls_outgoing_transport_poll (ot_transport t) (ot_peer t) w = (LS_TRANSPORT_CONNECT_READY, plain_transport fd True, w)"
    using assms(1) by (simp add: plain_transfer_def ls_outgoing_transport_poll_def r)
  with assms(3) fresh_clock [OF assms(2)] show ?thesis
    by (auto simp: ls_outgoing_update_def update_connect_def ls_outgoing_is_active_def)
qed

lemma plain_write:
  assumes "w_send w fd = SendSome n # rest" and "length data \<le> n" and "0 \<le> fd"
  shows "ls_outgoing_transport_write data (plain_transport fd True) w = (SendSome (length data), plain_transport fd True,
    w\<lparr>w_send := (w_send w)(fd := rest), w_wire := (w_wire w)(fd := w_wire w fd @ data)\<rparr>)"
  using assms by (simp add: ls_outgoing_transport_write_def or_default_def default_plain_send_def do_send_def min_def)

lemma plain_request:
  assumes "plain_transfer fd True t" and "ot_last_activity_ms t = now"
    and "ot_state t \<in> {LS_OUTGOING_SENDING_PREPARE, LS_OUTGOING_SENDING_UPLOAD_HEADERS}"
    and "w_send w fd = SendSome n # rest" and "length (ot_request t) \<le> n" and "ot_request_sent t = 0" and "ot_request t \<noteq> []"
  shows "ls_outgoing_update now (t, w) =
    (request_sent now (t\<lparr>ot_request_sent := length (ot_request t)\<rparr>),
     w\<lparr>w_send := (w_send w)(fd := rest), w_wire := (w_wire w)(fd := w_wire w fd @ ot_request t)\<rparr>)"
proof -
  have tr: "ot_transport t = plain_transport fd True" "0 \<le> fd" using assms(1) by (simp_all add: plain_transfer_def)
  have same: "t\<lparr>ot_transport := plain_transport fd True, ot_request_sent := length (ot_request t), ot_last_activity_ms := now\<rparr> =
    t\<lparr>ot_request_sent := length (ot_request t)\<rparr>" using tr(1) assms(2) by auto
  have "update_request_write now (t, w) = (request_sent now (t\<lparr>ot_request_sent := length (ot_request t)\<rparr>),
     w\<lparr>w_send := (w_send w)(fd := rest), w_wire := (w_wire w)(fd := w_wire w fd @ ot_request t)\<rparr>)"
    using plain_write [OF assms(4,5) tr(2)] assms(6,7) tr(1) same by (simp add: update_request_write_def)
  with assms(3) fresh_clock [OF assms(2)] show ?thesis
    by (auto simp: ls_outgoing_update_def ls_outgoing_is_active_def)
qed

lemma plain_response:
  assumes "plain_transfer fd True t" and "ot_last_activity_ms t = now"
    and "ot_state t \<in> {LS_OUTGOING_WAITING_FOR_APPROVAL, LS_OUTGOING_WAITING_FOR_UPLOAD_RESPONSE}"
    and "w_recv w fd = [RecvData d]" and "d \<noteq> []" and "length d \<le> LS3DS_OUTGOING_IO_BUFFER_SIZE"
    and "ls_http_response_feed (ot_response t) d = (r, LS_HTTP_RESPONSE_COMPLETE)"
  shows "ls_outgoing_update now (t, w) =
    handle_complete_response now (t\<lparr>ot_response := r\<rparr>, w\<lparr>w_recv := (w_recv w)(fd := [])\<rparr>)"
proof -
  have tr: "ot_transport t = plain_transport fd True" "0 \<le> fd" using assms(1) by (simp_all add: plain_transfer_def)
  have rd: "ls_outgoing_transport_read LS3DS_OUTGOING_IO_BUFFER_SIZE (plain_transport fd True) w =
    (RecvData d, plain_transport fd True, w\<lparr>w_recv := (w_recv w)(fd := [])\<rparr>)"
    using assms(4-6) tr(2) by (simp add: ls_outgoing_transport_read_def do_recv_def)
  have same: "t\<lparr>ot_transport := plain_transport fd True, ot_last_activity_ms := now, ot_response := r\<rparr> = t\<lparr>ot_response := r\<rparr>"
    using tr(1) assms(2) by auto
  have "update_response_read now (t, w) =
      handle_complete_response now (t\<lparr>ot_response := r\<rparr>, w\<lparr>w_recv := (w_recv w)(fd := [])\<rparr>)"
    using rd assms(7) tr(1) same
    by (simp add: update_response_read_def take_response_def del: LS3DS_OUTGOING_IO_BUFFER_SIZE_def)
  with assms(3) fresh_clock [OF assms(2)] show ?thesis
    by (auto simp: ls_outgoing_update_def ls_outgoing_is_active_def)
qed


text \<open>Streaming from the offset \<open>pos\<close> of the file, with nothing left in the block.\<close>

definition same_upload :: "LsOutgoingTransfer \<Rightarrow> LsOutgoingTransfer \<Rightarrow> bool" where
  "same_upload t0 t \<longleftrightarrow> ot_peer t = ot_peer t0 \<and> ot_file_path t = ot_file_path t0 \<and> ot_file_id t = ot_file_id t0 \<and>
     ot_session_id t = ot_session_id t0 \<and> ot_file_token t = ot_file_token t0"

lemma same_upload_fields [simp]:
  "same_upload t0 (t\<lparr>ot_io := d\<rparr>) = same_upload t0 t" "same_upload t0 (t\<lparr>ot_file := f\<rparr>) = same_upload t0 t"
  "same_upload t0 (t\<lparr>ot_transport := tp\<rparr>) = same_upload t0 t" "same_upload t0 (t\<lparr>ot_io_sent := n\<rparr>) = same_upload t0 t"
  "same_upload t0 (t\<lparr>ot_sent_bytes := m\<rparr>) = same_upload t0 t" "same_upload t0 (t\<lparr>ot_last_activity_ms := now\<rparr>) = same_upload t0 t"
  by (simp_all add: same_upload_def)

definition upload_streaming :: "LsOutgoingTransfer \<Rightarrow> int \<Rightarrow> string \<Rightarrow> u64 \<Rightarrow> nat \<Rightarrow> LsOutgoingTransfer \<times> world \<Rightarrow> bool" where
  "upload_streaming t0 fd content now pos = (\<lambda>(t, w).
     plain_transfer fd True t \<and> same_upload t0 t \<and> ot_last_activity_ms t = now \<and>
     ot_state t = LS_OUTGOING_STREAMING_UPLOAD \<and> w_io w = [] \<and> file_at w (ot_file_path t) = Some content \<and> length content < 2 ^ 64 \<and>
     ot_file_size t = of_nat (length content) \<and> ot_sent_bytes t = of_nat pos \<and> ot_io_sent t = length (ot_io t) \<and>
     ot_file t = Some pos \<and> pos \<le> length content)"

lemma plain_stream:
  assumes "upload_streaming t0 fd content now pos (t, w)" and "pos < length content"
    and "w_send w fd = SendSome LS3DS_OUTGOING_IO_BUFFER_SIZE # rest"
  defines "next \<equiv> min (length content) (pos + LS3DS_OUTGOING_IO_BUFFER_SIZE)"
  shows "\<exists>t'. ls_outgoing_update now (t, w) =
      (t', w\<lparr>w_send := (w_send w)(fd := rest), w_wire := (w_wire w)(fd := w_wire w fd @ drop pos (take next content))\<rparr>) \<and>
    upload_streaming t0 fd content now next (t', w\<lparr>w_send := (w_send w)(fd := rest),
      w_wire := (w_wire w)(fd := w_wire w fd @ drop pos (take next content))\<rparr>)"
proof -
  note s = assms(1) [unfolded upload_streaming_def prod.case]
  have tr: "ot_transport t = plain_transport fd True" "0 \<le> fd" using s by (simp_all add: plain_transfer_def)
  let ?d = "drop pos (take next content)"
  define remaining where "remaining = ot_file_size t - ot_sent_bytes t"
  have r: "remaining = of_nat (length content - pos)" using s by (simp add: remaining_def of_nat_diff)
  have "length content - pos < 2 ^ 64" using s by linarith
  then have u: "unat remaining = length content - pos" unfolding r by (simp add: unat_of_nat del: of_nat_diff)
  then have nz: "remaining \<noteq> 0" using assms(2) by auto
  have d: "take (min (unat remaining) LS3DS_OUTGOING_IO_BUFFER_SIZE) (drop pos content) = ?d"
    unfolding u next_def by (simp add: take_drop min_def add.commute)
  have l: "pos < next" "next \<le> length content" "next \<le> pos + LS3DS_OUTGOING_IO_BUFFER_SIZE" using assms(2) by (simp_all add: next_def)
  then have ld: "length ?d = next - pos" "?d \<noteq> []" by simp_all
  let ?t = "t\<lparr>ot_io := ?d, ot_io_sent := 0, ot_file := Some next\<rparr>"
  have fr: "do_fread (ot_file_path t) pos (min (unat remaining) LS3DS_OUTGOING_IO_BUFFER_SIZE) w = ((?d, False), w)"
    unfolding do_fread_def Let_def using s d by (simp add: next_io_def del: LS3DS_OUTGOING_IO_BUFFER_SIZE_def)
  have p: "pos + length ?d = next" using l ld by simp
  have rb: "read_block now (t, w) = Inr (?t, w)"
    unfolding read_block_def Let_def prod.case remaining_def [symmetric]
    using s nz fr p ld(2) by (simp del: LS3DS_OUTGOING_IO_BUFFER_SIZE_def)
  have wr: "ls_outgoing_transport_write ?d (plain_transport fd True) w = (SendSome (length ?d), plain_transport fd True,
      w\<lparr>w_send := (w_send w)(fd := rest), w_wire := (w_wire w)(fd := w_wire w fd @ ?d)\<rparr>)"
    using plain_write [OF assms(3) _ tr(2), of ?d] l ld by simp
  define t' where "t' = ?t\<lparr>ot_transport := plain_transport fd True, ot_io_sent := 0 + length ?d,
    ot_sent_bytes := ot_sent_bytes t + of_nat (length ?d), ot_last_activity_ms := now\<rparr>"
  have "update_file_stream now (t, w) = (t', w\<lparr>w_send := (w_send w)(fd := rest), w_wire := (w_wire w)(fd := w_wire w fd @ ?d)\<rparr>)"
    using wr ld(2) tr(1) by (simp add: update_file_stream_def rb t'_def)
  moreover have "ls_outgoing_update now (t, w) = update_file_stream now (t, w)"
    using s fresh_clock [of t now] by (simp add: ls_outgoing_update_def ls_outgoing_is_active_def)
  moreover have "of_nat pos + of_nat (length ?d) = (of_nat next :: u64)" using p by (metis of_nat_add)
  ultimately show ?thesis using s l
    by (intro exI [of _ t']) (simp add: upload_streaming_def t'_def plain_transfer_def file_at_def del: length_drop length_take)
qed

lemma plain_stream_all:
  assumes "upload_streaming t0 fd content now pos (t, w)" and "length content \<le> pos + k * LS3DS_OUTGOING_IO_BUFFER_SIZE"
    and "w_send w fd = replicate k (SendSome LS3DS_OUTGOING_IO_BUFFER_SIZE)"
    and "view w fs so co se re wi"
  shows "\<exists>n t' w' se'. (ls_outgoing_update now ^^ n) (t, w) = (t', w') \<and> upload_streaming t0 fd content now (length content) (t', w') \<and>
    view w' fs so co se' re (wi(fd := wi fd @ drop pos content))"
  using assms
proof (induction k arbitrary: pos t w se wi)
  case 0
  then have "pos = length content" by (simp add: upload_streaming_def)
  with 0 show ?case by (intro exI [of _ 0]) auto
next
  case (Suc k)
  show ?case
  proof (cases "pos = length content")
    case True
    with Suc.prems show ?thesis by (intro exI [of _ 0]) auto
  next
    case False
    with Suc.prems(1) have lt: "pos < length content" by (simp add: upload_streaming_def)
    define next' where "next' = min (length content) (pos + LS3DS_OUTGOING_IO_BUFFER_SIZE)"
    from plain_stream [OF Suc.prems(1) lt, of "replicate k (SendSome LS3DS_OUTGOING_IO_BUFFER_SIZE)"] Suc.prems(3)
    obtain t1 w1 where st: "ls_outgoing_update now (t, w) = (t1, w1)" "upload_streaming t0 fd content now next' (t1, w1)"
      and w1: "w1 = w\<lparr>w_send := (w_send w)(fd := replicate k (SendSome LS3DS_OUTGOING_IO_BUFFER_SIZE)),
        w_wire := (w_wire w)(fd := w_wire w fd @ drop pos (take next' content))\<rparr>"
      unfolding next'_def by auto
    define wi1 where "wi1 = wi(fd := wi fd @ drop pos (take next' content))"
    have v: "view w1 fs so co (se(fd := replicate k (SendSome LS3DS_OUTGOING_IO_BUFFER_SIZE))) re wi1"
      using Suc.prems(4) by (simp add: w1 view_def wi1_def)
    have "length content \<le> next' + k * LS3DS_OUTGOING_IO_BUFFER_SIZE" using Suc.prems(2) by (simp add: next'_def min_def)
    moreover have "w_send w1 fd = replicate k (SendSome LS3DS_OUTGOING_IO_BUFFER_SIZE)" by (simp add: w1)
    ultimately obtain n t' w' se' where r: "(ls_outgoing_update now ^^ n) (t1, w1) = (t', w')"
      "upload_streaming t0 fd content now (length content) (t', w')"
      "view w' fs so co se' re (wi1(fd := wi1 fd @ drop next' content))"
      using Suc.IH [OF st(2) _ _ v] by blast
    have "wi1(fd := wi1 fd @ drop next' content) = wi(fd := wi fd @ drop pos (take next' content) @ drop next' content)"
      by (simp add: wi1_def)
    note r = r(1,2) r(3) [unfolded this]
    have "drop pos (take next' content) @ drop next' content = drop pos content"
      using lt by (metis append_take_drop_id drop_append length_take min_def next'_def diff_is_0_eq' drop_0 le_add1 less_imp_le_nat)
    with r st(1) show ?thesis
      by (intro exI [of _ "Suc n"] exI [of _ t'] exI [of _ w'] exI [of _ se'] conjI) (simp_all only: funpow_Suc_right o_apply)
  qed
qed

lemma plain_stream_end:
  assumes "upload_streaming t0 fd content now (length content) (t, w)"
  shows "ls_outgoing_update now (t, w) =
    (set_state LS_OUTGOING_WAITING_FOR_UPLOAD_RESPONSE now
       (t\<lparr>ot_file := None, ot_io := [], ot_io_sent := 0, ot_response := ls_http_response_init\<rparr>), w)"
proof -
  note s = assms [unfolded upload_streaming_def prod.case]
  have "update_file_stream now (t, w) = (set_state LS_OUTGOING_WAITING_FOR_UPLOAD_RESPONSE now
       (t\<lparr>ot_file := None, ot_io := [], ot_io_sent := 0, ot_response := ls_http_response_init\<rparr>), w)"
    using s by (simp add: update_file_stream_def read_block_def close_file_def do_simple_ok)
  with s fresh_clock [of t now] show ?thesis
    by (simp add: ls_outgoing_update_def ls_outgoing_is_active_def)
qed

section \<open>A transfer to a peer that agrees\<close>

text \<open>
  The peer's side of the walk: the prepare connection \<open>f1\<close> takes the request and answers with a session
  and a token for the file, the upload connection \<open>f2\<close> takes the head and \<open>blocks\<close> blocks and answers 200.
\<close>

definition agreeing :: "world \<Rightarrow> int \<Rightarrow> int \<Rightarrow> string \<Rightarrow> string \<Rightarrow> string \<Rightarrow> nat \<Rightarrow> bool" where
  "agreeing w f1 f2 session fileid token blocks \<longleftrightarrow>
     w_io w = [] \<and> 0 \<le> f1 \<and> 0 \<le> f2 \<and> f1 \<noteq> f2 \<and> w_socket w = [Some f1, Some f2] \<and> w_connect w = [(0, 0), (0, 0)] \<and>
     w_send w f1 = [SendSome LS3DS_OUTGOING_REQUEST_CAPACITY] \<and>
     w_send w f2 = SendSome LS3DS_OUTGOING_REQUEST_CAPACITY # replicate blocks (SendSome LS3DS_OUTGOING_IO_BUFFER_SIZE) \<and>
     w_recv w f1 = [RecvData (written_response 200 ''OK'' [] (response_text session fileid token))] \<and>
     w_recv w f2 = [RecvData (written_response 200 ''OK'' [] [])]"

lemma ok_response:
  assumes "length body \<le> LS3DS_HTTP_RESPONSE_BODY_CAPACITY"
  obtains s where "ls_http_response_feed ls_http_response_init (written_response 200 ''OK'' [] body) = (s, LS_HTTP_RESPONSE_COMPLETE)"
    "rs_status_code s = 200" "rs_body s = body" "written_response 200 ''OK'' [] body \<noteq> []"
    "length (written_response 200 ''OK'' [] body) \<le> LS3DS_OUTGOING_IO_BUFFER_SIZE"
proof -
  have "length (dec (length body)) \<le> 4" using length_dec_bound [of "length body" 3] assms by simp
  then have l: "length (written_response 200 ''OK'' [] body) \<le> 50 + length body"
    by (simp add: written_response_def dec_big dec_small)
  have r: "reason_text ''OK''" by (simp add: reason_text_def line_text_def nul_free_def isspace_def)
  have "length (written_response 200 ''OK'' [] body) < LS3DS_HTTP_RESPONSE_RAW_CAPACITY" using l assms by simp
  from response_read_back [OF _ _ r _ assms this] obtain s where
    "ls_http_response_feed ls_http_response_init (written_response 200 ''OK'' [] body) = (s, LS_HTTP_RESPONSE_COMPLETE)"
    "rs_status_code s = int 200" "rs_body s = body" by auto
  moreover have "written_response 200 ''OK'' [] body \<noteq> []" by (simp add: written_response_def)
  ultimately show thesis using that [of s] l assms by simp
qed

lemma view_uuid:
  assumes "ls_secure_random_uuid w = (r, w')" and "view w fs so co se re wi"
  shows "view w' fs so co se re wi"
  using uuid_frame [OF assms(1)] uuid_net [OF assms(1)] assms(2) by (simp add: view_def same_net_def)

lemma split_dots_length: "length s + 1 = sum_list (map length (split_dots s)) + length (split_dots s)"
  by (induction s) (auto split: list.split)

lemma address_length:
  assumes "peer_address peer" shows "length (ip_address peer) \<le> 15"
proof -
  have m: "\<forall>p \<in> set ps. length p \<le> 3 \<Longrightarrow> sum_list (map length ps) \<le> 3 * length ps" for ps :: "string list"
    by (induction ps) auto
  have "\<forall>p \<in> set (split_dots (ip_address peer)). length p \<le> 3"
    using assms by (auto simp: peer_address_def list_all_iff octet_text_def)
  from m [OF this] split_dots_length [of "ip_address peer"] assms show ?thesis by (simp add: peer_address_def)
qed

lemma host_line_length:
  assumes "peer_address peer" shows "length (host_line peer) \<le> 29"
proof -
  have "unat (port peer) < 2 ^ 16" using unsigned_less [of "port peer"] by simp
  then have "length (dec (unat (port peer))) \<le> 5" using length_dec_bound [of "unat (port peer)" 4] by simp
  with address_length [OF assms] show ?thesis by (simp add: host_line_def)
qed

lemma upload_head_length:
  assumes "peer_address peer" and "uuid_text a" "uuid_text b" "uuid_text c"
  shows "length (upload_head peer a b c n) < LS3DS_OUTGOING_REQUEST_CAPACITY"
proof -
  have "unat n < 2 ^ 64" using unsigned_less [of n] by simp
  then have "length (dec (unat n)) \<le> 20" using length_dec_bound [of "unat n" 19] by simp
  with host_line_length [OF assms(1)] uuid_chars(2) [OF assms(2)] uuid_chars(2) [OF assms(3)] uuid_chars(2) [OF assms(4)]
  show ?thesis by (simp add: upload_head_def)
qed

lemma prepare_head_length:
  assumes "peer_address peer" and "n < LS3DS_OUTGOING_METADATA_CAPACITY"
  shows "length (prepare_head peer n) < 512"
proof -
  have "length (dec n) \<le> 4" using length_dec_bound [of n 3] assms(2) by simp
  with host_line_length [OF assms(1)] show ?thesis by (simp add: prepare_head_def)
qed

text \<open>The prepare request.\<close>

definition prepare_text :: "LsDevice \<Rightarrow> LsDevice \<Rightarrow> string \<Rightarrow> string \<Rightarrow> u64 \<Rightarrow> string" where
  "prepare_text identity peer fileid name n =
     (let metadata = request_text identity fileid name n ''application/octet-stream''
      in prepare_head peer (length metadata) @ metadata)"

lemma prepare_built:
  assumes "peer_address (ot_peer t)" and "ot_file_id t \<noteq> []" "ot_file_name t \<noteq> []"
    and "length (request_text identity (ot_file_id t) (ot_file_name t) (ot_file_size t) ''application/octet-stream'') <
      LS3DS_OUTGOING_METADATA_CAPACITY"
  shows "\<exists>m. build_prepare_request identity t = Some (t\<lparr>ot_metadata := m,
      ot_request := prepare_text identity (ot_peer t) (ot_file_id t) (ot_file_name t) (ot_file_size t), ot_request_sent := 0\<rparr>)"
    and "length (prepare_text identity (ot_peer t) (ot_file_id t) (ot_file_name t) (ot_file_size t)) \<le> LS3DS_OUTGOING_REQUEST_CAPACITY"
    and "prepare_text identity (ot_peer t) (ot_file_id t) (ot_file_name t) (ot_file_size t) \<noteq> []"
proof -
  let ?m = "request_text identity (ot_file_id t) (ot_file_name t) (ot_file_size t) ''application/octet-stream''"
  note l = prepare_head_length [OF assms(1,4)]
  have "ls_protocol_write_prepare_upload_request identity (ot_file_id t) (ot_file_name t) (ot_file_size t)
      ''application/octet-stream'' LS3DS_OUTGOING_METADATA_CAPACITY = Some ?m"
    using assms(4) by (subst write_prepare_upload_request [OF assms(2,3)]) simp_all
  with l assms(4) show "\<exists>m. build_prepare_request identity t = Some (t\<lparr>ot_metadata := m,
      ot_request := prepare_text identity (ot_peer t) (ot_file_id t) (ot_file_name t) (ot_file_size t), ot_request_sent := 0\<rparr>)"
    by (intro exI [of _ ?m]) (simp add: build_prepare_request_def append_body_def put_request_def prepare_text_def Let_def)
  show "length (prepare_text identity (ot_peer t) (ot_file_id t) (ot_file_name t) (ot_file_size t)) \<le> LS3DS_OUTGOING_REQUEST_CAPACITY"
    using l assms(4) by (simp add: prepare_text_def Let_def)
  show "prepare_text identity (ot_peer t) (ot_file_id t) (ot_file_name t) (ot_file_size t) \<noteq> []"
    by (simp add: prepare_text_def prepare_head_def Let_def)
qed

lemma upload_built:
  assumes "peer_address (ot_peer t)" and "uuid_text (ot_session_id t)" "uuid_text (ot_file_id t)" "uuid_text (ot_file_token t)"
  shows "build_upload_request t = Some (t\<lparr>ot_request :=
      upload_head (ot_peer t) (ot_session_id t) (ot_file_id t) (ot_file_token t) (ot_file_size t), ot_request_sent := 0\<rparr>)"
  using upload_head_length [OF assms, of "ot_file_size t"] uuid_encoded [OF assms(2)] uuid_encoded [OF assms(3)] uuid_encoded [OF assms(4)]
  by (simp add: build_upload_request_def put_request_def Let_def)

section \<open>The three parts of the walk\<close>

definition job :: "LsDevice \<Rightarrow> string \<Rightarrow> string \<Rightarrow> u64 \<Rightarrow> u64 \<Rightarrow> LsOutgoingTransfer \<Rightarrow> bool" where
  "job peer path fileid n now t \<longleftrightarrow> ot_peer t = peer \<and> ot_file_path t = path \<and> ot_file_id t = fileid \<and>
     ot_file_size t = n \<and> ot_last_activity_ms t = now"

lemma plain_prepare:
  assumes "view w fs (Some f1 # so) ((0, e) # co) se re wi" and "0 \<le> f1"
    and "protocol peer = LS_PROTOCOL_HTTP" and "peer_address peer"
    and "fs path = Some (FileNode content)" and "path \<noteq> []" "length path < LS3DS_PATH_CAPACITY"
    and "ls_filename_sanitize filename LS3DS_FILENAME_CAPACITY = (LS_FILENAME_OK, name)" and "name \<noteq> []"
    and "ls_secure_random_uuid w = (Some fileid, w1)"
    and "length (request_text identity fileid name (of_nat (length content)) ''application/octet-stream'') <
      LS3DS_OUTGOING_METADATA_CAPACITY"
  shows "\<exists>t' w'. ls_outgoing_start identity tls peer path filename now (ls_outgoing_init, w) = (True, t', w') \<and>
    view w' fs so co se re wi \<and> plain_transfer f1 False t' \<and> job peer path fileid (of_nat (length content)) now t' \<and>
    ot_state t' = LS_OUTGOING_CONNECTING_PREPARE \<and> ot_request_sent t' = 0 \<and> ot_sent_bytes t' = 0 \<and>
    ot_io_sent t' = length (ot_io t') \<and>
    ot_request t' = prepare_text identity peer fileid name (of_nat (length content))"
proof -
  let ?n = "of_nat (length content) :: u64"
  define t0 where "t0 = ls_outgoing_init\<lparr>ot_send_function := None, ot_tls_identity := tls, ot_peer := peer,
    ot_file_path := path, ot_file_name := name, ot_file_size := ?n, ot_file_id := fileid\<rparr>"
  have fid: "fileid \<noteq> []" using uuid_chars(2) [OF uuid_format [OF assms(10)]] by auto
  have f: "ot_peer t0 = peer" "ot_file_id t0 = fileid" "ot_file_name t0 = name" "ot_file_size t0 = ?n" "ot_file_path t0 = path"
    "ot_transport t0 = ls_outgoing_transport_init" "ot_send_function t0 = None"
    by (simp_all add: t0_def ls_outgoing_init_def)
  obtain m where m: "build_prepare_request identity t0 =
      Some (t0\<lparr>ot_metadata := m, ot_request := prepare_text identity peer fileid name ?n, ot_request_sent := 0\<rparr>)"
    using prepare_built(1) [of t0 identity] assms fid f by auto
  let ?t = "t0\<lparr>ot_metadata := m, ot_request := prepare_text identity peer fileid name ?n, ot_request_sent := 0,
    ot_response := ls_http_response_init\<rparr>"
  have "tp_tls_state (ot_transport ?t) = None" "or_default (tp_plain_send (ot_transport ?t)) = Some default_plain_send"
    by (simp_all add: f ls_outgoing_transport_init_def or_default_def)
  from plain_begin_connection [OF this _ _ _ assms(2) view_uuid [OF assms(10,1)], where cs = LS_OUTGOING_CONNECTING_PREPARE and now = now]
  obtain w2 where b: "begin_connection LS_OUTGOING_CONNECTING_PREPARE now (?t, w1) =
      (True, set_state LS_OUTGOING_CONNECTING_PREPARE now (?t\<lparr>ot_transport := plain_transport f1 False\<rparr>), w2)"
    "view w2 fs so co se re wi" using assms(3,4) f by auto
  let ?r = "set_state LS_OUTGOING_CONNECTING_PREPARE now (?t\<lparr>ot_transport := plain_transport f1 False\<rparr>)"
  have w: "w_io w = []" "w_fs w = fs" using assms(1) by (simp_all add: view_def)
  have a: "ls_outgoing_abort (ls_outgoing_init, w) = (ls_outgoing_init, w)"
    by (simp add: ls_outgoing_abort_def close_socket_def close_file_def ls_outgoing_transport_close_def ls_outgoing_init_def
        ls_outgoing_transport_init_def or_default_def)
  have reg: "regular_file path w = (Some ?n, w)"
    using w assms(5) by (simp add: regular_file_def do_stat_def next_io_def)
  have "start_request identity now (ls_outgoing_init\<lparr>ot_send_function := None, ot_tls_identity := tls, ot_peer := peer,
    ot_file_path := path, ot_file_name := name, ot_file_size := ?n\<rparr>, w) = (True, ?r, w2)"
    using assms(10) m b(1) by (simp add: start_request_def t0_def [symmetric])
  then have "ls_outgoing_start identity tls peer path filename now (ls_outgoing_init, w) = (True, ?r, w2)"
    using a reg assms(3,6-8)
    by (simp add: ls_outgoing_start_def ls_outgoing_is_active_def ls_outgoing_init_def)
  with b(2) assms(2-4) f show ?thesis
    by (intro exI [of _ ?r] exI [of _ w2]) (simp add: plain_transfer_def job_def set_state_def t0_def ls_outgoing_init_def)
qed

lemma plain_connect_send:
  assumes "plain_transfer fd False t" and "job peer path fileid n now t"
    and "ot_state t \<in> {LS_OUTGOING_CONNECTING_PREPARE, LS_OUTGOING_CONNECTING_UPLOAD}"
    and "view w fs so co se re wi" and "se fd = SendSome LS3DS_OUTGOING_REQUEST_CAPACITY # rest"
    and "length (ot_request t) \<le> LS3DS_OUTGOING_REQUEST_CAPACITY" "ot_request t \<noteq> []" "ot_request_sent t = 0"
  defines "sent \<equiv> t\<lparr>ot_transport := plain_transport fd True, ot_state := connected_state (ot_state t),
    ot_request_sent := length (ot_request t)\<rparr>"
  shows "\<exists>w'. (ls_outgoing_update now ^^ 2) (t, w) = (request_sent now (sent\<lparr>ot_state_changed_ms := now\<rparr>), w') \<and>
    view w' fs so co (se(fd := rest)) re (wi(fd := wi fd @ ot_request t))"
proof -
  let ?s = "set_state (connected_state (ot_state t)) now (t\<lparr>ot_transport := plain_transport fd True\<rparr>)"
  let ?w = "w\<lparr>w_send := (w_send w)(fd := rest), w_wire := (w_wire w)(fd := w_wire w fd @ ot_request t)\<rparr>"
  have now: "ot_last_activity_ms t = now" using assms(2) by (simp add: job_def)
  have "plain_transfer fd True ?s" using assms(1) by (simp add: plain_transfer_def set_state_def)
  moreover have "ot_state ?s \<in> {LS_OUTGOING_SENDING_PREPARE, LS_OUTGOING_SENDING_UPLOAD_HEADERS}"
    using assms(3) by (auto simp: set_state_def connected_state_def)
  moreover have "w_send w fd = SendSome LS3DS_OUTGOING_REQUEST_CAPACITY # rest" using assms(4,5) by (simp add: view_def)
  ultimately have "ls_outgoing_update now (?s, w) = (request_sent now (?s\<lparr>ot_request_sent := length (ot_request ?s)\<rparr>), ?w)"
    using plain_request [of fd ?s now w _ rest] assms(6-8) by (simp add: set_state_def)
  moreover have "?s\<lparr>ot_request_sent := length (ot_request ?s)\<rparr> = sent\<lparr>ot_state_changed_ms := now\<rparr>"
    using now by (simp add: sent_def set_state_def)
  moreover have "view ?w fs so co (se(fd := rest)) re (wi(fd := wi fd @ ot_request t))"
    using assms(4) by (simp add: view_def)
  ultimately show ?thesis
    using plain_connected [OF assms(1) now assms(3)] by (intro exI [of _ ?w]) (simp add: numeral_2_eq_2)
qed

lemma uuid_json:
  assumes "uuid_text s" shows "length (json_text s) = 38"
proof -
  have c: "safe_query_char x \<Longrightarrow> json_char x = [x]" for x
    by (auto simp: safe_query_cases json_char_def char_eq_byte_iff simp del: byte_inj)
  have "\<forall>x \<in> set u. safe_query_char x \<Longrightarrow> json_chars u = u" for u by (induction u) (simp_all add: c json_chars_def)
  with uuid_chars(1,2) [OF assms] show ?thesis by (simp add: json_text_def)
qed

lemma uuid_field:
  assumes "uuid_text u" and "36 < n" shows "text_field n u \<and> u \<noteq> []"
proof -
  have "\<forall>c \<in> set u. byte c < 0x80" using uuid_chars(1) [OF assms(1)] by (auto simp: safe_query_cases)
  with valid_utf8_ascii_all [of u] uuid_nul_free [OF assms(1)] assms(2) show ?thesis by (auto simp: text_field_def)
qed

lemma plain_approved:
  assumes "plain_transfer f1 True t" and "job peer path fileid (of_nat (length content)) now t"
    and "ot_state t = LS_OUTGOING_WAITING_FOR_APPROVAL" and "ot_response t = ls_http_response_init"
    and "view w fs (Some f2 # so) ((0, e) # co) se re wi" and "0 \<le> f2"
    and "fs path = Some (FileNode content)"
    and "re f1 = [RecvData (written_response 200 ''OK'' [] (response_text session fileid token))]"
    and "uuid_text session" "uuid_text fileid" "uuid_text token" and "ot_io_sent t = length (ot_io t)"
  shows "\<exists>t' w'. ls_outgoing_update now (t, w) = (t', w') \<and> view w' fs so co se (re(f1 := [])) wi \<and>
    plain_transfer f2 False t' \<and> job peer path fileid (of_nat (length content)) now t' \<and> ot_session_id t' = session \<and> ot_file_token t' = token \<and>
    ot_state t' = LS_OUTGOING_CONNECTING_UPLOAD \<and> ot_request_sent t' = 0 \<and> ot_io_sent t' = length (ot_io t') \<and>
    ot_file t' = Some 0 \<and> ot_sent_bytes t' = ot_sent_bytes t \<and>
    ot_request t' = upload_head peer session fileid token (of_nat (length content))"
proof -
  let ?body = "response_text session fileid token"
  have names: "length (json_text ''sessionId'') = 11" "length (json_text ''files'') = 7" by code_simp+
  have len: "length ?body \<le> LS3DS_HTTP_RESPONSE_BODY_CAPACITY"
    using uuid_json [OF assms(9)] uuid_json [OF assms(10)] uuid_json [OF assms(11)]
      names by (simp add: response_text_def json_object_def json_member_def)
  from ok_response [OF len] obtain r where
    r: "ls_http_response_feed (ot_response t) (written_response 200 ''OK'' [] ?body) = (r, LS_HTTP_RESPONSE_COMPLETE)"
      "rs_status_code r = 200" "rs_body r = ?body"
    and d: "written_response 200 ''OK'' [] ?body \<noteq> []" "length (written_response 200 ''OK'' [] ?body) \<le> LS3DS_OUTGOING_IO_BUFFER_SIZE"
    using assms(4) by auto
  have j: "ot_last_activity_ms t = now" "ot_peer t = peer" "ot_file_path t = path" "ot_file_id t = fileid"
    "ot_file_size t = of_nat (length content)" using assms(2) by (simp_all add: job_def)
  let ?w = "w\<lparr>w_recv := (w_recv w)(f1 := [])\<rparr>"
  have up: "ls_outgoing_update now (t, w) = handle_complete_response now (t\<lparr>ot_response := r\<rparr>, ?w)"
    using plain_response [OF assms(1) j(1) _ _ d r(1)] assms(3,5,8) by (simp add: view_def)
  have parsed: "ls_protocol_parse_prepare_upload_response (rs_body r) (ot_file_id t) =
      Inr \<lparr>response_session_id = session, response_file_token = token\<rparr>"
    unfolding r(3) j(4)
    by (intro response_roundtrip) (use uuid_field [OF assms(9), of 37] uuid_field [OF assms(10), of 37] uuid_field [OF assms(11), of 37] in
        \<open>simp_all add: uuid_field assms(9-11)\<close>)
  let ?t = "t\<lparr>ot_response := r, ot_remote_status := 200, ot_session_id := session, ot_file_token := token\<rparr>"
  have h: "handle_complete_response now (t\<lparr>ot_response := r\<rparr>, ?w) = begin_upload now (?t, ?w)"
    using r(2) parsed assms(3) by (simp add: handle_complete_response_def handle_prepare_response_def Let_def)
  define tp where "tp = ls_outgoing_transport_init\<lparr>tp_plain_send := or_default (tp_plain_send (ot_transport t))\<rparr>"
  have tr: "ot_transport t = plain_transport f1 True" "protocol peer = LS_PROTOCOL_HTTP" "peer_address peer" "ot_send_function t = None"
    using assms(1) j(2) by (simp_all add: plain_transfer_def)
  have "view ?w fs (Some f2 # so) ((0, e) # co) se (re(f1 := [])) wi" using assms(5) by (simp add: view_def)
  from plain_close [OF _ this, of "ot_transport t"] obtain w1 where c: "ls_outgoing_transport_close (ot_transport t) ?w = (tp, w1)"
    "view w1 fs (Some f2 # so) ((0, e) # co) se (re(f1 := [])) wi" using tr(1) by (auto simp: tp_def)
  have cs: "close_socket (?t, ?w) = (?t\<lparr>ot_transport := tp\<rparr>, w1)" using c(1) by (simp add: close_socket_def)
  have fo: "fopen_read path w1 = (Inr content, w1)" "do_simple w1 = (True, w1)"
    using c(2) assms(7) by (simp_all add: view_def fopen_read_def next_io_def do_simple_ok)
  let ?t2 = "?t\<lparr>ot_transport := tp, ot_file := Some 0\<rparr>"
  define t3 where "t3 = ?t2\<lparr>ot_request := upload_head peer session fileid token (of_nat (length content)), ot_request_sent := 0\<rparr>"
  have bu: "build_upload_request ?t2 = Some t3"
    using upload_built [of ?t2] tr(3) j assms(9-11) by (simp add: t3_def)
  have "tp_tls_state (ot_transport t3) = None" "or_default (tp_plain_send (ot_transport t3)) = Some default_plain_send"
    "ot_send_function t3 = None" "protocol (ot_peer t3) = LS_PROTOCOL_HTTP" "peer_address (ot_peer t3)"
    using tr j(2) by (simp_all add: t3_def tp_def ls_outgoing_transport_init_def or_default_def)
  from plain_begin_connection [OF this assms(6) c(2), of LS_OUTGOING_CONNECTING_UPLOAD now] obtain w2 where
    b: "begin_connection LS_OUTGOING_CONNECTING_UPLOAD now (t3, w1) =
      (True, set_state LS_OUTGOING_CONNECTING_UPLOAD now (t3\<lparr>ot_transport := plain_transport f2 False\<rparr>), w2)"
    "view w2 fs so co se (re(f1 := [])) wi" by blast
  let ?r = "set_state LS_OUTGOING_CONNECTING_UPLOAD now (t3\<lparr>ot_transport := plain_transport f2 False\<rparr>)"
  have "begin_upload now (?t, ?w) = (?r, w2)"
    using cs fo bu b(1) j by (simp add: begin_upload_def Let_def)
  with up h b(2) tr j assms(6,12) show ?thesis
    by (intro exI [of _ ?r] exI [of _ w2]) (simp add: plain_transfer_def job_def set_state_def t3_def)
qed

text \<open>The transfer that has sent everything and waits for the answer.\<close>

definition all_sent :: "int \<Rightarrow> LsDevice \<Rightarrow> string \<Rightarrow> string \<Rightarrow> string \<Rightarrow> string \<Rightarrow> u64 \<Rightarrow> u64 \<Rightarrow> LsOutgoingTransfer \<Rightarrow> bool" where
  "all_sent fd peer path session fileid token n now t \<longleftrightarrow>
     plain_transfer fd True t \<and> job peer path fileid n now t \<and> ot_state t = LS_OUTGOING_WAITING_FOR_UPLOAD_RESPONSE \<and>
     ot_session_id t = session \<and> ot_file_token t = token \<and> ot_sent_bytes t = n \<and> ot_file t = None \<and>
     ot_response t = ls_http_response_init"

lemma plain_upload:
  assumes "plain_transfer fd False t" and "job peer path fileid (of_nat (length content)) now t"
    and "ot_state t = LS_OUTGOING_CONNECTING_UPLOAD" and "ot_session_id t = session" "ot_file_token t = token"
    and "ot_request t = upload_head peer session fileid token (of_nat (length content))" and "ot_request_sent t = 0"
    and "ot_io_sent t = length (ot_io t)" and "ot_file t = Some 0" and "ot_sent_bytes t = 0"
    and "view w fs so co se re wi" and "fs path = Some (FileNode content)" and "length content < 2 ^ 64"
    and "se fd = SendSome LS3DS_OUTGOING_REQUEST_CAPACITY # replicate k (SendSome LS3DS_OUTGOING_IO_BUFFER_SIZE)"
    and "length content \<le> k * LS3DS_OUTGOING_IO_BUFFER_SIZE"
    and "uuid_text session" "uuid_text fileid" "uuid_text token"
  shows "\<exists>n t' w' se'. (ls_outgoing_update now ^^ n) (t, w) = (t', w') \<and>
    all_sent fd peer path session fileid token (of_nat (length content)) now t' \<and>
    view w' fs so co se' re (wi(fd := wi fd @ upload_head peer session fileid token (of_nat (length content)) @ content))"
proof -
  let ?n = "of_nat (length content) :: u64"
  have j: "ot_last_activity_ms t = now" "ot_peer t = peer" "ot_file_path t = path" "ot_file_id t = fileid" "ot_file_size t = ?n"
    using assms(2) by (simp_all add: job_def)
  have p: "peer_address peer" "0 \<le> fd" "protocol peer = LS_PROTOCOL_HTTP" "ot_send_function t = None"
    using assms(1) j(2) by (simp_all add: plain_transfer_def)
  have q: "length (ot_request t) \<le> LS3DS_OUTGOING_REQUEST_CAPACITY" "ot_request t \<noteq> []"
    using upload_head_length [OF p(1) assms(16-18), of ?n] assms(6) by (simp_all add: upload_head_def)
  let ?sends = "replicate k (SendSome LS3DS_OUTGOING_IO_BUFFER_SIZE)"
  define t1 where "t1 = t\<lparr>ot_transport := plain_transport fd True, ot_state := LS_OUTGOING_STREAMING_UPLOAD,
    ot_request_sent := length (ot_request t), ot_state_changed_ms := now\<rparr>"
  have t1: "request_sent now (t\<lparr>ot_transport := plain_transport fd True, ot_state := connected_state (ot_state t),
      ot_request_sent := length (ot_request t), ot_state_changed_ms := now\<rparr>) = t1"
    using assms(3) j(1) by (simp add: request_sent_def connected_state_def set_state_def t1_def)
  from plain_connect_send [OF assms(1,2) _ assms(11,14) q assms(7)] assms(3) obtain w1 where
    a: "(ls_outgoing_update now ^^ 2) (t, w) = (t1, w1)"
      "view w1 fs so co (se(fd := ?sends)) re (wi(fd := wi fd @ ot_request t))"
    using t1 by (auto simp del: LS3DS_OUTGOING_IO_BUFFER_SIZE_def)
  have s1: "upload_streaming t fd content now 0 (t1, w1)"
    using a(2) assms(8-10,12,13) j p
    by (simp add: upload_streaming_def same_upload_def plain_transfer_def t1_def view_def file_at_def)
  have "length content \<le> 0 + k * LS3DS_OUTGOING_IO_BUFFER_SIZE" "w_send w1 fd = ?sends"
    using assms(15) a(2) by (simp_all add: view_def)
  from plain_stream_all [OF s1 this a(2)] obtain n t2 w2 se2 where b: "(ls_outgoing_update now ^^ n) (t1, w1) = (t2, w2)"
    "upload_streaming t fd content now (length content) (t2, w2)"
    "view w2 fs so co se2 re (wi(fd := wi fd @ ot_request t @ content))" by auto
  define t3 where "t3 = set_state LS_OUTGOING_WAITING_FOR_UPLOAD_RESPONSE now
    (t2\<lparr>ot_file := None, ot_io := [], ot_io_sent := 0, ot_response := ls_http_response_init\<rparr>)"
  note s2 = b(2) [unfolded upload_streaming_def prod.case]
  have c: "ls_outgoing_update now (t2, w2) = (t3, w2)" using plain_stream_end [OF b(2)] by (simp add: t3_def)
  have "all_sent fd peer path session fileid token ?n now t3"
    using s2 j assms(4,5) p(1,3) by (simp add: all_sent_def t3_def set_state_def plain_transfer_def job_def same_upload_def)
  moreover have "(ls_outgoing_update now ^^ (1 + (n + 2))) (t, w) = (t3, w2)"
    using a(1) b(1) c by (simp only: funpow_add o_apply) simp
  ultimately show ?thesis using b(3) assms(6) by (intro exI [of _ "1 + (n + 2)"] exI [of _ t3] exI [of _ w2]) auto
qed

lemma plain_completed:
  assumes "all_sent fd peer path session fileid token n now t" and "view w fs so co se re wi"
    and "re fd = [RecvData (written_response 200 ''OK'' [] [])]"
  shows "\<exists>t' w'. ls_outgoing_update now (t, w) = (t', w') \<and> ot_state t' = LS_OUTGOING_COMPLETED \<and>
    ot_sent_bytes t' = n \<and> w_fs w' = fs \<and> w_wire w' = wi"
proof -
  have s: "plain_transfer fd True t" "ot_last_activity_ms t = now" "ot_state t = LS_OUTGOING_WAITING_FOR_UPLOAD_RESPONSE"
    "ot_sent_bytes t = n" "ot_file_size t = n" "ot_file t = None" "ot_response t = ls_http_response_init"
    using assms(1) by (simp_all add: all_sent_def job_def)
  obtain r where r: "ls_http_response_feed (ot_response t) (written_response 200 ''OK'' [] []) = (r, LS_HTTP_RESPONSE_COMPLETE)"
    "rs_status_code r = 200" "written_response 200 ''OK'' [] [] \<noteq> []"
    "length (written_response 200 ''OK'' [] []) \<le> LS3DS_OUTGOING_IO_BUFFER_SIZE"
    using ok_response [of "[]"] s(7) by auto
  let ?w = "w\<lparr>w_recv := (w_recv w)(fd := [])\<rparr>"
  have "w_recv w fd = [RecvData (written_response 200 ''OK'' [] [])]" using assms(2,3) by (simp add: view_def)
  from plain_response [OF s(1,2) _ this r(3,4,1)] s(3)
  have d: "ls_outgoing_update now (t, w) = handle_complete_response now (t\<lparr>ot_response := r\<rparr>, ?w)" by simp
  have "view ?w fs so co se (re(fd := [])) wi" using assms(2) by (simp add: view_def)
  from plain_close [OF _ this, of "ot_transport t"] s(1) obtain tp w' where
    e: "ls_outgoing_transport_close (ot_transport t) ?w = (tp, w')" "view w' fs so co se (re(fd := [])) wi"
    by (auto simp: plain_transfer_def)
  obtain t' where "handle_complete_response now (t\<lparr>ot_response := r\<rparr>, ?w) = (t', w')"
    "ot_state t' = LS_OUTGOING_COMPLETED" "ot_sent_bytes t' = n"
    using e(1) r(2) s
    by (simp add: handle_complete_response_def handle_upload_response_def close_socket_def close_file_def
        outgoing_invalidate_credentials_def set_state_def Let_def)
  with d e(2) show ?thesis by (simp add: view_def)
qed

lemma agreeing_view:
  assumes "agreeing w f1 f2 session fileid token blocks"
  shows "view w (w_fs w) [Some f1, Some f2] [(0, 0), (0, 0)] (w_send w) (w_recv w) (w_wire w)"
    "0 \<le> f1" "0 \<le> f2" "f1 \<noteq> f2" "w_send w f1 = [SendSome LS3DS_OUTGOING_REQUEST_CAPACITY]"
    "w_send w f2 = SendSome LS3DS_OUTGOING_REQUEST_CAPACITY # replicate blocks (SendSome LS3DS_OUTGOING_IO_BUFFER_SIZE)"
    "w_recv w f1 = [RecvData (written_response 200 ''OK'' [] (response_text session fileid token))]"
    "w_recv w f2 = [RecvData (written_response 200 ''OK'' [] [])]"
  using assms by (simp_all add: agreeing_def view_def)

definition agreed :: "world \<Rightarrow> int \<Rightarrow> int \<Rightarrow> string \<Rightarrow> string \<Rightarrow> string \<Rightarrow> LsDevice \<Rightarrow> LsDevice \<Rightarrow> string \<Rightarrow> string \<Rightarrow>
    string \<Rightarrow> string \<Rightarrow> bool" where
  "agreed w f1 f2 session fileid token identity peer path filename name content \<longleftrightarrow>
     (\<exists>blocks. agreeing w f1 f2 session fileid token blocks \<and> length content \<le> blocks * LS3DS_OUTGOING_IO_BUFFER_SIZE) \<and>
     protocol peer = LS_PROTOCOL_HTTP \<and> peer_address peer \<and>
     file_at w path = Some content \<and> length content < 2 ^ 64 \<and> path \<noteq> [] \<and> length path < LS3DS_PATH_CAPACITY \<and>
     ls_filename_sanitize filename LS3DS_FILENAME_CAPACITY = (LS_FILENAME_OK, name) \<and> name \<noteq> [] \<and>
     fst (ls_secure_random_uuid w) = Some fileid \<and> uuid_text session \<and> uuid_text token \<and>
     length (request_text identity fileid name (of_nat (length content)) ''application/octet-stream'') <
       LS3DS_OUTGOING_METADATA_CAPACITY"

lemma agreed_upload_sent:
  assumes "agreed w f1 f2 session fileid token identity peer path filename name content"
  shows "\<exists>started n t' w' so co se re. ls_outgoing_start identity tls peer path filename now (ls_outgoing_init, w) = (True, started) \<and>
    (ls_outgoing_update now ^^ n) started = (t', w') \<and>
    all_sent f2 peer path session fileid token (of_nat (length content)) now t' \<and>
    view w' (w_fs w) so co se re ((w_wire w)
      (f1 := w_wire w f1 @ prepare_text identity peer fileid name (of_nat (length content)),
       f2 := w_wire w f2 @ upload_head peer session fileid token (of_nat (length content)) @ content)) \<and>
    re f2 = [RecvData (written_response 200 ''OK'' [] [])]"
proof -
  let ?n = "of_nat (length content) :: u64"
  from assms obtain blocks where a1: "agreeing w f1 f2 session fileid token blocks"
    and a2: "length content \<le> blocks * LS3DS_OUTGOING_IO_BUFFER_SIZE" unfolding agreed_def by blast
  note g = agreeing_view [OF a1]
  have h: "protocol peer = LS_PROTOCOL_HTTP" "peer_address peer" "length content < 2 ^ 64"
    "path \<noteq> []" "length path < LS3DS_PATH_CAPACITY"
    "ls_filename_sanitize filename LS3DS_FILENAME_CAPACITY = (LS_FILENAME_OK, name)" "name \<noteq> []"
    "uuid_text session" "uuid_text token"
    "length (request_text identity fileid name ?n ''application/octet-stream'') < LS3DS_OUTGOING_METADATA_CAPACITY"
    using assms by (simp_all add: agreed_def)
  obtain w0 where u: "ls_secure_random_uuid w = (Some fileid, w0)" using assms by (metis agreed_def prod.collapse)
  note fid = uuid_format [OF u]
  have fs: "w_fs w path = Some (FileNode content)"
    using assms by (auto simp: agreed_def file_at_def split: option.splits fs_node.splits)
  from plain_prepare [OF g(1,2) h(1,2) fs h(4-7) u h(10), of tls now] obtain t1 w1 where
    a: "ls_outgoing_start identity tls peer path filename now (ls_outgoing_init, w) = (True, t1, w1)"
      "view w1 (w_fs w) [Some f2] [(0, 0)] (w_send w) (w_recv w) (w_wire w)" "plain_transfer f1 False t1"
      "job peer path fileid ?n now t1" "ot_state t1 = LS_OUTGOING_CONNECTING_PREPARE" "ot_request_sent t1 = 0"
      "ot_sent_bytes t1 = 0" "ot_io_sent t1 = length (ot_io t1)" "ot_request t1 = prepare_text identity peer fileid name ?n"
    by blast
  have j: "ot_file_size t1 = ?n" "ot_peer t1 = peer" "ot_last_activity_ms t1 = now" using a(4) by (simp_all add: job_def)
  let ?p = "ls_outgoing_init\<lparr>ot_peer := peer, ot_file_id := fileid, ot_file_name := name, ot_file_size := ?n\<rparr>"
  have q: "length (ot_request t1) \<le> LS3DS_OUTGOING_REQUEST_CAPACITY" "ot_request t1 \<noteq> []"
    using prepare_built(2,3) [of ?p identity] a(9) h uuid_field [OF fid, of 37] by simp_all
  define t2 where "t2 = t1\<lparr>ot_transport := plain_transport f1 True, ot_state := LS_OUTGOING_WAITING_FOR_APPROVAL,
    ot_request_sent := length (ot_request t1), ot_state_changed_ms := now, ot_response := ls_http_response_init\<rparr>"
  have t2: "request_sent now (t1\<lparr>ot_transport := plain_transport f1 True, ot_state := connected_state (ot_state t1),
      ot_request_sent := length (ot_request t1), ot_state_changed_ms := now\<rparr>) = t2"
    using a(5) j(3) by (simp add: request_sent_def connected_state_def set_state_def t2_def)
  from plain_connect_send [OF a(3,4) _ a(2) g(5) q a(6)] a(5) obtain w2 where
    b: "(ls_outgoing_update now ^^ 2) (t1, w1) = (t2, w2)"
      "view w2 (w_fs w) [Some f2] [(0, 0)] ((w_send w)(f1 := [])) (w_recv w) ((w_wire w)(f1 := w_wire w f1 @ ot_request t1))"
    using t2 by auto
  have t2': "plain_transfer f1 True t2" "job peer path fileid ?n now t2" "ot_state t2 = LS_OUTGOING_WAITING_FOR_APPROVAL"
    "ot_response t2 = ls_http_response_init" "ot_io_sent t2 = length (ot_io t2)"
    using a(3,4,8) by (simp_all add: t2_def plain_transfer_def job_def)
  from plain_approved [OF t2'(1-4) b(2) g(3) fs g(7) h(8) fid h(9) t2'(5)] obtain t3 w3 where
    c: "ls_outgoing_update now (t2, w2) = (t3, w3)" "view w3 (w_fs w) [] [] ((w_send w)(f1 := [])) ((w_recv w)(f1 := []))
        ((w_wire w)(f1 := w_wire w f1 @ ot_request t1))" "plain_transfer f2 False t3" "job peer path fileid ?n now t3"
      "ot_state t3 = LS_OUTGOING_CONNECTING_UPLOAD" "ot_request_sent t3 = 0" "ot_io_sent t3 = length (ot_io t3)"
      "ot_file t3 = Some 0" "ot_sent_bytes t3 = ot_sent_bytes t2" "ot_request t3 = upload_head peer session fileid token ?n"
      "ot_session_id t3 = session" "ot_file_token t3 = token"
    by blast
  have "ot_sent_bytes t3 = 0" using c(9) a(7) by (simp add: t2_def)
  moreover have "((w_send w)(f1 := [])) f2 = SendSome LS3DS_OUTGOING_REQUEST_CAPACITY # replicate blocks (SendSome LS3DS_OUTGOING_IO_BUFFER_SIZE)"
    "((w_recv w)(f1 := [])) f2 = [RecvData (written_response 200 ''OK'' [] [])]" using g(4,6,8) by simp_all
  ultimately obtain n t' w' se where d: "(ls_outgoing_update now ^^ n) (t3, w3) = (t', w')"
      "all_sent f2 peer path session fileid token ?n now t'"
      "view w' (w_fs w) [] [] se ((w_recv w)(f1 := [])) (((w_wire w)(f1 := w_wire w f1 @ ot_request t1))
         (f2 := w_wire w f2 @ upload_head peer session fileid token ?n @ content))"
    using plain_upload [OF c(3-5,11,12,10,6-8) _ c(2) fs h(3) _ a2 h(8) fid h(9)] g(4) by force
  have "(ls_outgoing_update now ^^ (n + (1 + 2))) (t1, w1) = (t', w')"
    using b(1) c(1) d(1) by (simp only: funpow_add o_apply) simp
  with a(1,9) d(2,3) g(4,8) show ?thesis
    by (intro exI [of _ "(t1, w1)"] exI [of _ "n + (1 + 2)"] exI [of _ t'] exI [of _ w'] exI [of _ "[]"] exI [of _ se]
        exI [of _ "(w_recv w)(f1 := [])"]) simp
qed

lemma agreed_upload_completes:
  assumes "agreed w f1 f2 session fileid token identity peer path filename name content"
  shows "\<exists>started n t' w'. ls_outgoing_start identity tls peer path filename now (ls_outgoing_init, w) = (True, started) \<and>
    (ls_outgoing_update now ^^ n) started = (t', w') \<and> ot_state t' = LS_OUTGOING_COMPLETED \<and>
    ot_sent_bytes t' = of_nat (length content) \<and> w_fs w' = w_fs w \<and>
    w_wire w' f1 = w_wire w f1 @ prepare_text identity peer fileid name (of_nat (length content)) \<and>
    w_wire w' f2 = w_wire w f2 @ upload_head peer session fileid token (of_nat (length content)) @ content"
proof -
  from agreed_upload_sent [OF assms, of tls now] obtain started n t1 w1 so co se re where
    a: "ls_outgoing_start identity tls peer path filename now (ls_outgoing_init, w) = (True, started)"
      "(ls_outgoing_update now ^^ n) started = (t1, w1)"
      "all_sent f2 peer path session fileid token (of_nat (length content)) now t1"
      "view w1 (w_fs w) so co se re ((w_wire w)
        (f1 := w_wire w f1 @ prepare_text identity peer fileid name (of_nat (length content)),
         f2 := w_wire w f2 @ upload_head peer session fileid token (of_nat (length content)) @ content))"
      "re f2 = [RecvData (written_response 200 ''OK'' [] [])]" by blast
  from plain_completed [OF a(3-5)] obtain t' w' where b: "ls_outgoing_update now (t1, w1) = (t', w')"
    "ot_state t' = LS_OUTGOING_COMPLETED" "ot_sent_bytes t' = of_nat (length content)" "w_fs w' = w_fs w"
    "w_wire w' = (w_wire w)
        (f1 := w_wire w f1 @ prepare_text identity peer fileid name (of_nat (length content)),
         f2 := w_wire w f2 @ upload_head peer session fileid token (of_nat (length content)) @ content)" by blast
  have "f1 \<noteq> f2" using assms by (auto simp: agreed_def agreeing_def)
  with a(1,2) b show ?thesis by (intro exI [of _ started] exI [of _ "Suc n"] exI [of _ t'] exI [of _ w']) simp
qed

lemma updates_reachable: "outgoing_reachable st \<Longrightarrow> outgoing_reachable ((ls_outgoing_update now ^^ k) st)"
proof (induction k)
  case (Suc k)
  from reachable_do [OF Suc.IH [OF Suc.prems], of "OutUpdate now"] show ?case by simp
qed simp

lemma agreed_sent_reachable:
  assumes "agreed w f1 f2 session fileid token identity peer path filename name content"
  obtains t w' where "outgoing_reachable (t, w')" "ot_state t = LS_OUTGOING_WAITING_FOR_UPLOAD_RESPONSE"
    "ot_session_id t = session" "ot_file_token t = token" "file_at w' (ot_file_path t) = Some content"
    "ot_last_activity_ms t = 0" "ot_file_size t = of_nat (length content)"
proof -
  from agreed_upload_sent [OF assms, of None 0] obtain started n t1 w1 so co se re wi where
    a: "ls_outgoing_start identity None peer path filename 0 (ls_outgoing_init, w) = (True, started)"
      "(ls_outgoing_update 0 ^^ n) started = (t1, w1)"
      "all_sent f2 peer path session fileid token (of_nat (length content)) 0 t1" "view w1 (w_fs w) so co se re wi" by blast
  have "outgoing_reachable started"
    using reachable_do [OF reachable_init, of "OutStart identity None peer path filename 0" w] a(1) by simp
  from updates_reachable [OF this, where k = n and now = 0] a(2) have "outgoing_reachable (t1, w1)" by simp
  moreover have "file_at w1 (ot_file_path t1) = Some content"
    using a(3,4) assms by (simp add: all_sent_def job_def view_def agreed_def file_at_def)
  ultimately show thesis using that a(3) by (simp add: all_sent_def job_def)
qed

end
