(* ===== verification/Example_Upload.thy ===== *)
theory Example_Upload
  imports Upload_Success Example_Server
begin

text \<open>
  A concrete transfer of a two byte file to a peer that agrees, for the witnesses of the properties of the sender.
\<close>

definition example_session :: string where "example_session = ''01010101-0101-4101-8101-010101010101''"
definition example_token :: string where "example_token = ''02020202-0202-4202-8202-020202020202''"
definition example_fileid :: string where "example_fileid = ''03030303-0303-4303-8303-030303030303''"

definition example_peer :: LsDevice where
  "example_peer = zero_device\<lparr>ip_address := ''10.0.0.2'', port := 53317\<rparr>"

definition example_sending :: world where
  "example_sending = example_world\<lparr>w_fs := [''/f'' \<mapsto> FileNode ''hi''], w_random := [Some (replicate 16 3)],
     w_socket := [Some 3, Some 4], w_connect := [(0, 0), (0, 0)],
     w_send := (\<lambda>_. [])(3 := [SendSome 4096], 4 := [SendSome 4096, SendSome 32768]),
     w_recv := (\<lambda>_. [])(3 := [RecvData (written_response 200 ''OK'' [] (response_text example_session example_fileid example_token))],
                        4 := [RecvData (written_response 200 ''OK'' [] [])])\<rparr>"

lemma example_uuid:
  assumes "w_random w = [Some (replicate 16 b)]"
  shows "fst (ls_secure_random_uuid w) =
    Some (uuid_loop ((replicate 16 b)[6 := (b AND 0x0f) OR 0x40, 8 := (b AND 0x3f) OR 0x80]) [])"
  using assms by (simp add: ls_secure_random_uuid_def ls_secure_random_bytes_def random_bytes_def Let_def)

lemma example_ids:
  "uuid_text example_session" "uuid_text example_token" "fst (ls_secure_random_uuid example_sending) = Some example_fileid"
proof -
  have e: "uuid_loop ((replicate 16 1)[6 := (1 AND 0x0f) OR 0x40, 8 := (1 AND 0x3f) OR 0x80]) [] = example_session"
    "uuid_loop ((replicate 16 2)[6 := (2 AND 0x0f) OR 0x40, 8 := (2 AND 0x3f) OR 0x80]) [] = example_token"
    "uuid_loop ((replicate 16 3)[6 := (3 AND 0x0f) OR 0x40, 8 := (3 AND 0x3f) OR 0x80]) [] = example_fileid"
    by code_simp+
  have u: "uuid_text (uuid_loop ((replicate 16 b)[6 := (b AND 0x0f) OR 0x40, 8 := (b AND 0x3f) OR 0x80]) [])" for b
  proof -
    let ?w = "example_world\<lparr>w_random := [Some (replicate 16 b)]\<rparr>"
    have "w_random ?w = [Some (replicate 16 b)]" by simp
    from example_uuid [OF this] uuid_format [of ?w] show ?thesis by (cases "ls_secure_random_uuid ?w") simp
  qed
  show "uuid_text example_session" "uuid_text example_token" using u [of 1] u [of 2] by (simp_all only: e)
  show "fst (ls_secure_random_uuid example_sending) = Some example_fileid"
    unfolding e(3) [symmetric] by (rule example_uuid) (simp add: example_sending_def)
qed

lemma example_agreed:
  "agreed example_sending 3 4 example_session example_fileid example_token example_device example_peer ''/f'' ''f'' ''f'' ''hi''"
proof -
  have "agreeing example_sending 3 4 example_session example_fileid example_token 1"
    by (simp add: agreeing_def example_sending_def example_world_def)
  moreover have "length ''hi'' \<le> 1 * LS3DS_OUTGOING_IO_BUFFER_SIZE" by simp
  moreover have "protocol example_peer = LS_PROTOCOL_HTTP" "peer_address example_peer" by code_simp+
  moreover have "file_at example_sending ''/f'' = Some ''hi''" by (simp add: file_at_def example_sending_def)
  moreover have "ls_filename_sanitize ''f'' LS3DS_FILENAME_CAPACITY = (LS_FILENAME_OK, ''f'')" by code_simp
  moreover have "length (request_text example_device example_fileid ''f'' (of_nat (length ''hi'')) ''application/octet-stream'') <
       LS3DS_OUTGOING_METADATA_CAPACITY" by (simp add: message_texts example_fileid_def)
  ultimately show ?thesis using example_ids unfolding agreed_def
    by (intro conjI exI [of _ 1]) (simp_all del: LS3DS_OUTGOING_IO_BUFFER_SIZE_def LS3DS_OUTGOING_METADATA_CAPACITY_def LS3DS_FILENAME_CAPACITY_def)
qed

lemma example_sent:
  obtains t w where "outgoing_reachable (t, w)" "ot_state t = LS_OUTGOING_WAITING_FOR_UPLOAD_RESPONSE"
    "uuid_text (ot_session_id t)" "uuid_text (ot_file_token t)" "file_at w (ot_file_path t) = Some ''hi''"
    "ot_last_activity_ms t = 0" "ot_file_size t = 2"
proof -
  obtain t w where "outgoing_reachable (t, w)" "ot_state t = LS_OUTGOING_WAITING_FOR_UPLOAD_RESPONSE"
    "ot_session_id t = example_session" "ot_file_token t = example_token" "file_at w (ot_file_path t) = Some ''hi''"
    "ot_last_activity_ms t = 0" "ot_file_size t = of_nat (length ''hi'')"
    by (rule agreed_sent_reachable [OF example_agreed])
  with that show thesis using example_ids by simp
qed

text \<open>A clock that goes on in equal steps.\<close>

definition steady :: "nat \<Rightarrow> nat \<Rightarrow> u64 list" where
  "steady gap n = map (\<lambda>k. of_nat (k * gap)) [1..<Suc n]"

lemma steady_Suc: "steady gap (Suc n) = steady gap n @ [of_nat (Suc n * gap)]"
  by (simp add: steady_def algebra_simps)

lemma steady_last: "last (0 # steady gap n) = of_nat (n * gap)"
  by (cases n) (simp_all add: steady_def algebra_simps)

lemma steady_paced: "n * gap < 2 ^ 64 \<Longrightarrow> paced gap (0 # steady gap n)"
proof (induction n)
  case 0
  show ?case by (simp add: steady_def paced_def)
next
  case (Suc n)
  then have n: "n * gap < 2 ^ 64" by simp
  have u: "unat (of_nat m :: u64) = m" if "m < 2 ^ 64" for m using that by (simp add: unat_of_nat)
  show ?case unfolding steady_Suc paced_snoc steady_last u [OF n] u [OF Suc.prems] using Suc.IH [OF n] by simp
qed

lemma ticks_exist: "\<exists>t' w'. outgoing_ticks st clock (t', w')"
proof (induction clock rule: rev_induct)
  case Nil
  obtain t w where "st = (t, w)" by (cases st)
  then show ?case using ticks_start [of st] by blast
next
  case (snoc now clock)
  then obtain t w where "outgoing_ticks st clock (t, w)" by blast
  from ticks_next [OF this, of w now] show ?case by (metis surj_pair undisturbed_def)
qed

end
