(* ===== verification/Settings.thy ===== *)
theory Settings
  imports Device World
begin

text \<open>
  \<open>settings.c\<close>: the settings file, its reader and the writer that keeps a backup while it replaces the file.
  A line is read with \<open>fgets\<close>; the C string in its buffer ends at a NUL of the file. A text argument of
  \<open>ls_settings_set_alias\<close> is the C string it points to. Each call on the card consumes an answer of
  \<open>w_io\<close>, so a theorem over all worlds also covers a program that stops after any of them.
\<close>

definition LS_SETTINGS_PATH_CAPACITY :: nat where [simp, cap_defs]: "LS_SETTINGS_PATH_CAPACITY = 512"

definition LS3DS_DEFAULT_ALIAS :: string where "LS3DS_DEFAULT_ALIAS = ''LocalSend 3DS''"

datatype LsSettingsItem =
  LS_SETTING_DEVICE_NAME | LS_SETTING_QUICK_SAVE | LS_SETTING_AUTO_FINISH | LS_SETTING_SAVE_FOLDER
| LS_SETTING_CONNECTION | LS_SETTING_PORT | LS_SETTING_ADVANCED | LS_SETTING_ABOUT_APP | LS_SETTING_VERSION
| LS_SETTING_AUTHOR | LS_SETTING_LICENSE

record LsSettings =
  settings_alias :: string
  quick_save :: bool
  auto_finish :: bool

section \<open>Paths\<close>

text \<open>\<open>EINVAL\<close> and \<open>ENAMETOOLONG\<close> of the console's C library; the callers set the second where there is no path.\<close>

definition SETTINGS_EINVAL :: nat where "SETTINGS_EINVAL = 22"
definition SETTINGS_ENAMETOOLONG :: nat where "SETTINGS_ENAMETOOLONG = 91"

definition sidecar_path :: "string \<Rightarrow> string \<Rightarrow> string option" where
  "sidecar_path path suffix =
     (if length (path @ suffix) \<ge> LS_SETTINGS_PATH_CAPACITY then None else Some (path @ suffix))"

definition unlink_if_present :: "string \<Rightarrow> world \<Rightarrow> bool \<times> world" where
  "unlink_if_present path w = (case do_unlink path w of (r, w) \<Rightarrow> (r = None \<or> r = Some ENOENT, w))"

definition save_failure :: "string \<Rightarrow> nat \<Rightarrow> world \<Rightarrow> bool \<times> world" where
  "save_failure temporary_path error_number w =
     (case do_unlink temporary_path w of
        (_, w) \<Rightarrow> (False, w\<lparr>w_errno := if error_number \<noteq> 0 then error_number else errno_number EIO\<rparr>))"

section \<open>The device name\<close>

function alias_loop :: "string \<Rightarrow> bool \<Rightarrow> bool" where
  "alias_loop [] non_whitespace = non_whitespace"
| "alias_loop (c # s) non_whitespace =
     (if byte c < 0x80 then
        (if byte c < 0x20 \<or> byte c = 0x7f then False
         else alias_loop s (non_whitespace \<or> c \<noteq> CHR '' '' \<and> c \<noteq> TAB))
      else case utf8_sequence (c # s) of
          None \<Rightarrow> False
        | Some (sequence, codepoint) \<Rightarrow>
            (if 0x80 \<le> codepoint \<and> codepoint \<le> 0x9f then False else alias_loop (drop sequence (c # s)) True))"
  by pat_completeness auto
termination
  by (relation "measure (length \<circ> fst)") (auto dest: utf8_sequence_bounds)

definition valid_alias :: "string \<Rightarrow> bool" where
  "valid_alias s \<longleftrightarrow> s \<noteq> [] \<and> length s < LS3DS_ALIAS_CAPACITY \<and> alias_loop s False"

definition ls_settings_defaults :: LsSettings where
  "ls_settings_defaults = \<lparr>settings_alias = LS3DS_DEFAULT_ALIAS, quick_save = False, auto_finish = True\<rparr>"

definition ls_settings_set_alias :: "string \<Rightarrow> LsSettings \<Rightarrow> LsSettings option" where
  "ls_settings_set_alias s settings = (if \<not> valid_alias s then None else Some (settings\<lparr>settings_alias := s\<rparr>))"

definition parse_boolean :: "string \<Rightarrow> bool option" where
  "parse_boolean value =
     (if value = ''0'' \<or> value = ''false'' then Some False
      else if value = ''1'' \<or> value = ''true'' then Some True
      else None)"

section \<open>Reading\<close>

text \<open>\<open>fgets\<close> with room for \<open>n\<close> characters: what it stores, what is left, whether it met the end.\<close>

fun fgets :: "nat \<Rightarrow> string \<Rightarrow> string \<times> string \<times> bool" where
  "fgets 0 s = ([], s, False)"
| "fgets (Suc n) [] = ([], [], True)"
| "fgets (Suc n) (c # s) =
     (if c = LF then ([c], s, False) else case fgets n s of (l, r, eof) \<Rightarrow> (c # l, r, eof))"

lemma fgets_split: "fgets n s = (l, r, eof) \<Longrightarrow> s = l @ r"
  by (induction n s arbitrary: l r rule: fgets.induct) (auto split: if_splits prod.splits)

datatype settings_field =
  SETTINGS_FIELD_VERSION | SETTINGS_FIELD_DEVICE_NAME | SETTINGS_FIELD_QUICK_SAVE | SETTINGS_FIELD_AUTO_FINISH

definition required_fields :: "settings_field set" where
  "required_fields =
     {SETTINGS_FIELD_VERSION, SETTINGS_FIELD_DEVICE_NAME, SETTINGS_FIELD_QUICK_SAVE, SETTINGS_FIELD_AUTO_FINISH}"

definition field_named :: "string \<Rightarrow> settings_field option" where
  "field_named name =
     (if name = ''version'' then Some SETTINGS_FIELD_VERSION
      else if name = ''device_name'' then Some SETTINGS_FIELD_DEVICE_NAME
      else if name = ''quick_save'' then Some SETTINGS_FIELD_QUICK_SAVE
      else if name = ''auto_finish'' then Some SETTINGS_FIELD_AUTO_FINISH
      else None)"

definition set_field :: "settings_field \<Rightarrow> string \<Rightarrow> LsSettings \<Rightarrow> LsSettings option" where
  "set_field field value loaded =
     (case field of
        SETTINGS_FIELD_VERSION \<Rightarrow> (if value \<noteq> ''1'' then None else Some loaded)
      | SETTINGS_FIELD_DEVICE_NAME \<Rightarrow> ls_settings_set_alias value loaded
      | SETTINGS_FIELD_QUICK_SAVE \<Rightarrow> map_option (\<lambda>b. loaded\<lparr>quick_save := b\<rparr>) (parse_boolean value)
      | SETTINGS_FIELD_AUTO_FINISH \<Rightarrow> map_option (\<lambda>b. loaded\<lparr>auto_finish := b\<rparr>) (parse_boolean value))"

definition strip_line_end :: "string \<Rightarrow> string" where
  "strip_line_end l = rev (dropWhile (\<lambda>c. c = LF \<or> c = CR) (rev l))"

text \<open>One line of the file; \<open>None\<close> makes the file invalid.\<close>

definition settings_line ::
    "string \<Rightarrow> bool \<Rightarrow> LsSettings \<times> settings_field set \<Rightarrow> (LsSettings \<times> settings_field set) option" where
  "settings_line buffer eof = (\<lambda>(loaded, seen).
     (let line = cstr buffer in
      if line \<noteq> [] \<and> last line \<noteq> LF \<and> \<not> eof then None
      else
        (let line = strip_line_end line in
         if line = [] \<or> hd line = CHR ''#'' then Some (loaded, seen)
         else if CHR ''='' \<notin> set line then None
         else
           (let name = takeWhile (\<lambda>c. c \<noteq> CHR ''='') line;
                value = tl (dropWhile (\<lambda>c. c \<noteq> CHR ''='') line)
            in case field_named name of
                 None \<Rightarrow> Some (loaded, seen)
               | Some field \<Rightarrow>
                   (case set_field field value loaded of
                      None \<Rightarrow> None
                    | Some loaded \<Rightarrow>
                        (if field \<in> seen then None else Some (loaded, insert field seen)))))))"

text \<open>The loop over the lines; a read that fails sets the error flag of the file.\<close>

function settings_lines :: "string \<Rightarrow> LsSettings \<times> settings_field set \<Rightarrow> world \<Rightarrow>
    (LsSettings \<times> settings_field set) option \<times> world" where
  "settings_lines s st w =
     (case next_io w of
        (IoFail _, w) \<Rightarrow> (None, snd (failing Some EIO w))
      | (IoOk, w) \<Rightarrow>
          (case fgets 255 s of
             (l, r, eof) \<Rightarrow>
               (if l = [] then (Some st, w)
                else case settings_line l eof st of
                  None \<Rightarrow> (None, w)
                | Some st \<Rightarrow> settings_lines r st w)))"
  by pat_completeness auto
termination
  by (relation "measure (\<lambda>(s, _, _). length s)") (auto dest!: fgets_split [OF sym])

datatype SettingsLoadResult = SETTINGS_LOAD_VALID LsSettings | SETTINGS_LOAD_MISSING | SETTINGS_LOAD_INVALID

definition load_settings_file :: "string \<Rightarrow> world \<Rightarrow> SettingsLoadResult \<times> world" where
  "load_settings_file path w =
     (case fopen_read path w of
        (Inl ENOENT, w) \<Rightarrow> (SETTINGS_LOAD_MISSING, w)
      | (Inl _, w) \<Rightarrow> (SETTINGS_LOAD_INVALID, w)
      | (Inr content, w) \<Rightarrow>
          (case settings_lines content (ls_settings_defaults, {}) w of
             (st, w) \<Rightarrow>
               (case do_simple w of
                  (closed, w) \<Rightarrow>
                    ((case st of
                        None \<Rightarrow> SETTINGS_LOAD_INVALID
                      | Some (loaded, seen) \<Rightarrow>
                          (if \<not> closed \<or> seen \<noteq> required_fields then SETTINGS_LOAD_INVALID
                           else SETTINGS_LOAD_VALID loaded)), w))))"

definition recover_backup_file :: "string \<Rightarrow> string \<Rightarrow> SettingsLoadResult \<Rightarrow> world \<Rightarrow> world" where
  "recover_backup_file path backup_path primary_result w =
     (if primary_result = SETTINGS_LOAD_MISSING then snd (do_rename backup_path path w)
      else case sidecar_path path ''.tmp'' of
        None \<Rightarrow> w\<lparr>w_errno := SETTINGS_ENAMETOOLONG\<rparr>
      | Some temporary_path \<Rightarrow>
          (case unlink_if_present temporary_path w of
             (False, w) \<Rightarrow> w
           | (True, w) \<Rightarrow>
               (case do_rename path temporary_path w of
                  (Some _, w) \<Rightarrow> w
                | (None, w) \<Rightarrow>
                    (case do_rename backup_path path w of
                       (Some _, w) \<Rightarrow> snd (do_rename temporary_path path w)
                     | (None, w) \<Rightarrow> snd (do_unlink temporary_path w)))))"

text \<open>The result, and the settings the caller has afterwards.\<close>

definition ls_settings_load :: "LsSettings \<Rightarrow> string \<Rightarrow> world \<Rightarrow> bool \<times> LsSettings \<times> world" where
  "ls_settings_load settings path w =
     (if path = [] then (False, settings, w)
      else case sidecar_path path ''.bak'' of
        None \<Rightarrow> (False, ls_settings_defaults, w\<lparr>w_errno := SETTINGS_ENAMETOOLONG\<rparr>)
      | Some backup_path \<Rightarrow>
          (case load_settings_file path w of
             (SETTINGS_LOAD_VALID loaded, w) \<Rightarrow> (True, loaded, w)
           | (primary_result, w) \<Rightarrow>
               (case load_settings_file backup_path w of
                  (SETTINGS_LOAD_VALID loaded, w) \<Rightarrow>
                    (True, loaded, recover_backup_file path backup_path primary_result w)
                | (_, w) \<Rightarrow> (False, ls_settings_defaults, w))))"

section \<open>Writing\<close>

definition flag_text :: "bool \<Rightarrow> string" where
  "flag_text b = (if b then ''1'' else ''0'')"

definition settings_text :: "LsSettings \<Rightarrow> string" where
  "settings_text s =
     ''version=1'' @ [LF] @ ''device_name='' @ settings_alias s @ [LF] @
     ''quick_save='' @ flag_text (quick_save s) @ [LF] @ ''auto_finish='' @ flag_text (auto_finish s) @ [LF]"

text \<open>The temporary file: opened, written, flushed and closed.\<close>

definition write_temporary :: "LsSettings \<Rightarrow> string \<Rightarrow> world \<Rightarrow> bool \<times> world" where
  "write_temporary settings temporary_path w =
     (case fopen_write temporary_path w of
        (Some _, w) \<Rightarrow> (False, w)
      | (None, w) \<Rightarrow>
          (case do_fwrite temporary_path (settings_text settings) w of
             (n, w) \<Rightarrow>
               (case (if n < length (settings_text settings) then (False, w) else do_simple w) of
                  (False, w) \<Rightarrow> save_failure temporary_path (w_errno w) (snd (do_simple w))
                | (True, w) \<Rightarrow>
                    (case do_simple w of
                       (False, w) \<Rightarrow> save_failure temporary_path (w_errno w) w
                     | (True, w) \<Rightarrow> (True, w)))))"

definition replace_file :: "string \<Rightarrow> string \<Rightarrow> string \<Rightarrow> bool \<Rightarrow> world \<Rightarrow> bool \<times> world" where
  "replace_file path temporary_path backup_path destination_exists w =
     (case do_rename temporary_path path w of
        (Some _, w) \<Rightarrow>
          save_failure temporary_path (w_errno w)
            (if destination_exists then snd (do_rename backup_path path w) else w)
      | (None, w) \<Rightarrow> (True, snd (do_unlink backup_path w)))"

text \<open>Replacing a file that exists: the old settings go to the backup first.\<close>

definition replace_existing :: "string \<Rightarrow> string \<Rightarrow> string \<Rightarrow> world \<Rightarrow> bool \<times> world" where
  "replace_existing path temporary_path backup_path w =
     (case unlink_if_present backup_path w of
        (False, w) \<Rightarrow> save_failure temporary_path (w_errno w) w
      | (True, w) \<Rightarrow>
          (case do_rename path backup_path w of
             (Some _, w) \<Rightarrow> save_failure temporary_path (w_errno w) w
           | (None, w) \<Rightarrow> replace_file path temporary_path backup_path True w))"

definition ls_settings_save :: "LsSettings \<Rightarrow> string \<Rightarrow> world \<Rightarrow> bool \<times> world" where
  "ls_settings_save settings path w =
     (if path = [] \<or> \<not> valid_alias (settings_alias settings) then (False, w\<lparr>w_errno := SETTINGS_EINVAL\<rparr>)
      else case (sidecar_path path ''.tmp'', sidecar_path path ''.bak'') of
        (Some temporary_path, Some backup_path) \<Rightarrow>
          (case write_temporary settings temporary_path w of
             (False, w) \<Rightarrow> (False, w)
           | (True, w) \<Rightarrow>
               (case do_access path w of
                  (Some e, w) \<Rightarrow>
                    (if e \<noteq> ENOENT then save_failure temporary_path (w_errno w) w
                     else replace_file path temporary_path backup_path False w)
                | (None, w) \<Rightarrow> replace_existing path temporary_path backup_path w))
      | _ \<Rightarrow> (False, w\<lparr>w_errno := SETTINGS_ENAMETOOLONG\<rparr>))"

section \<open>What a settings file says\<close>

function lines_say :: "string \<Rightarrow> LsSettings \<times> settings_field set \<Rightarrow> (LsSettings \<times> settings_field set) option" where
  "lines_say s st =
     (case fgets 255 s of
        (l, r, eof) \<Rightarrow>
          (if l = [] then Some st
           else case settings_line l eof st of None \<Rightarrow> None | Some st \<Rightarrow> lines_say r st))"
  by pat_completeness auto
termination
  by (relation "measure (\<lambda>(s, _). length s)") (auto dest!: fgets_split [OF sym])

declare lines_say.simps [simp del] settings_lines.simps [simp del]

definition file_says :: "string \<Rightarrow> LsSettings option" where
  "file_says content =
     (case lines_say content (ls_settings_defaults, {}) of
        None \<Rightarrow> None
      | Some (loaded, seen) \<Rightarrow> if seen = required_fields then Some loaded else None)"

definition settings_at :: "world \<Rightarrow> string \<Rightarrow> LsSettings option" where
  "settings_at w path = (case file_at w path of None \<Rightarrow> None | Some content \<Rightarrow> file_says content)"

lemma settings_lines_say:
  "settings_lines s st w = (r, w') \<Longrightarrow>
     w_fs w' = w_fs w \<and> (r \<noteq> None \<longrightarrow> r = lines_say s st) \<and> (w_io w = [] \<longrightarrow> r = lines_say s st \<and> w_io w' = [])"
proof (induction s st w arbitrary: r w' rule: settings_lines.induct)
  case (1 s st w)
  show ?case
  proof (cases "next_io w")
    case (Pair a v)
    note n = next_io_frame [OF Pair]
    show ?thesis
    proof (cases a)
      case IoOk
      obtain l t eof where g: "fgets 255 s = (l, t, eof)" by (metis prod_cases3)
      have io: "w_io w = [] \<Longrightarrow> w_io v = []" using Pair by (simp add: next_io_def)
      show ?thesis
      proof (cases "l = [] \<or> settings_line l eof st = None")
        case True
        with 1(2) Pair IoOk g n io show ?thesis
          by (auto simp: settings_lines.simps [of s st w] lines_say.simps [of s st])
      next
        case False
        then obtain st' where st': "settings_line l eof st = Some st'" "l \<noteq> []" by auto
        with 1(2) Pair IoOk g have "settings_lines t st' v = (r, w')" by (simp add: settings_lines.simps [of s st w])
        from 1(1) [OF Pair [symmetric] IoOk g [symmetric] refl st'(2) st'(1) this] n io st' g show ?thesis
          by (simp add: lines_say.simps [of s st])
      qed
    next
      case (IoFail k)
      with 1(2) Pair n show ?thesis
        by (auto simp: settings_lines.simps [of s st w] failing_def next_io_def split: list.splits)
    qed
  qed
qed

lemma load_settings_says:
  assumes "load_settings_file path w = (r, w')"
  shows "w_fs w' = w_fs w"
    "r = SETTINGS_LOAD_VALID s \<Longrightarrow> settings_at w path = Some s"
    "r = SETTINGS_LOAD_MISSING \<Longrightarrow> w_fs w path = None"
    "w_io w = [] \<Longrightarrow> w_io w' = [] \<and> (settings_at w path = Some s \<longrightarrow> r = SETTINGS_LOAD_VALID s)"
proof -
  obtain a v where f: "fopen_read path w = (a, v)" by (metis surj_pair)
  note ff = fopen_read_fs [OF f]
  have r: "w_fs w' = w_fs w \<and> (r = SETTINGS_LOAD_VALID s \<longrightarrow> settings_at w path = Some s) \<and>
    (r = SETTINGS_LOAD_MISSING \<longrightarrow> w_fs w path = None) \<and>
    (w_io w = [] \<longrightarrow> w_io w' = [] \<and> (settings_at w path = Some s \<longrightarrow> r = SETTINGS_LOAD_VALID s))"
  proof (cases a)
    case (Inl e)
    have "w_io w = [] \<Longrightarrow> w_io v = [] \<and> settings_at w path = None"
      using f Inl by (auto simp: fopen_read_def next_io_def failing_def settings_at_def file_at_def split: option.splits fs_node.splits)
    with f Inl ff assms show ?thesis by (cases e) (auto simp: load_settings_file_def)
  next
    case (Inr content)
    have v: "w_io w = [] \<Longrightarrow> w_io v = []"
      using f Inr by (auto simp: fopen_read_def next_io_def failing_def split: option.splits fs_node.splits)
    have at: "settings_at w path = file_says content" using ff Inr by (simp add: settings_at_def file_at_def)
    obtain st u where l: "settings_lines content (ls_settings_defaults, {}) v = (st, u)" by (metis surj_pair)
    obtain closed x where c: "do_simple u = (closed, x)" by (metis surj_pair)
    note ll = settings_lines_say [OF l] and cc = simple_fs [OF c]
    have d: "w_io u = [] \<Longrightarrow> closed \<and> x = u" using c by (simp add: do_simple_def next_io_def)
    from assms f Inr l c have "w' = x" "r = (case st of None \<Rightarrow> SETTINGS_LOAD_INVALID
        | Some (loaded, seen) \<Rightarrow> if \<not> closed \<or> seen \<noteq> required_fields then SETTINGS_LOAD_INVALID else SETTINGS_LOAD_VALID loaded)"
      by (simp_all add: load_settings_file_def)
    with ll cc d v ff at show ?thesis by (auto simp: file_says_def split: option.splits if_splits prod.splits)
  qed
  from r show "w_fs w' = w_fs w" "r = SETTINGS_LOAD_VALID s \<Longrightarrow> settings_at w path = Some s"
    "r = SETTINGS_LOAD_MISSING \<Longrightarrow> w_fs w path = None"
    "w_io w = [] \<Longrightarrow> w_io w' = [] \<and> (settings_at w path = Some s \<longrightarrow> r = SETTINGS_LOAD_VALID s)"
    by blast+
qed

section \<open>Writing and reading back\<close>

lemma fgets_line:
  "LF \<notin> set l \<Longrightarrow> length l < n \<Longrightarrow> fgets n (l @ LF # r) = (l @ [LF], r, False)"
proof (induction l arbitrary: n)
  case Nil
  then show ?case by (cases n) auto
next
  case (Cons c l)
  then show ?case by (cases n) auto
qed

lemma alias_loop_bytes: "alias_loop s b \<Longrightarrow> c \<in> set s \<Longrightarrow> 0x20 \<le> byte c"
proof (induction s b rule: alias_loop.induct)
  case (2 d s b)
  show ?case
  proof (cases "byte d < 0x80")
    case True
    with 2 show ?thesis by (auto split: if_splits)
  next
    case False
    with 2(3) obtain k cp where k: "utf8_sequence (d # s) = Some (k, cp)" by (auto split: option.splits)
    have "c \<in> set (take k (d # s)) \<or> c \<in> set (drop k (d # s))"
      using 2(4) by (metis Un_iff append_take_drop_id set_append)
    moreover have "0x20 \<le> byte c" if "c \<in> set (drop k (d # s))"
      using 2(2) [OF False k refl] 2(3) k False that by (auto split: if_splits)
    moreover have "0x20 \<le> byte c" if "c \<in> set (take k (d # s))"
      using utf8_sequence_bytes [OF k] utf8_sequence_bounds [OF k] False that by (cases "k = 1") fastforce+
    ultimately show ?thesis by blast
  qed
qed simp

lemma alias_line:
  assumes "valid_alias s" shows "LF \<notin> set s" "CR \<notin> set s" "nul_free s" "s \<noteq> []" "length s < 65"
proof -
  have b: "c \<in> set s \<Longrightarrow> 0x20 \<le> byte c" for c using assms alias_loop_bytes by (auto simp: valid_alias_def)
  from b [of LF] b [of CR] b [of NUL] show "LF \<notin> set s" "CR \<notin> set s" "nul_free s" by (auto simp: nul_free_def)
  show "s \<noteq> []" "length s < 65" using assms by (simp_all add: valid_alias_def)
qed

lemma strip_line: "x \<noteq> [] \<Longrightarrow> last x \<noteq> LF \<Longrightarrow> last x \<noteq> CR \<Longrightarrow> strip_line_end (x @ [LF]) = x"
  by (cases x rule: rev_cases) (simp_all add: strip_line_end_def)

text \<open>A line the writer produces.\<close>

lemma written_line:
  assumes "CHR ''='' \<notin> set name" and "name \<noteq> []" and "hd name \<noteq> CHR ''#''" and "nul_free name" and "nul_free value"
    and "value \<noteq> []" "LF \<notin> set value" "CR \<notin> set value" "LF \<notin> set name"
    and "field_named name = Some field" and "set_field field value loaded = Some loaded'" and "field \<notin> seen"
    and "length name + length value < 254"
  shows "lines_say (name @ ''='' @ value @ LF # rest) (loaded, seen) = lines_say rest (loaded', insert field seen)"
proof -
  let ?l = "name @ ''='' @ value"
  have e: "value = [] \<or> last value \<noteq> LF \<and> last value \<noteq> CR" using assms(7,8) by (metis last_in_set)
  have g: "fgets 255 (?l @ LF # rest) = (?l @ [LF], rest, False)" by (rule fgets_line) (use assms in auto)
  have n: "nul_free (?l @ [LF])" using assms(4,5) by simp
  have s: "strip_line_end (?l @ [LF]) = ?l" by (rule strip_line) (use assms(6) e in auto)
  have t: "takeWhile (\<lambda>c. c \<noteq> CHR ''='') ?l = name" "tl (dropWhile (\<lambda>c. c \<noteq> CHR ''='') ?l) = value"
    using assms(1) by (auto simp: takeWhile_append dropWhile_append)
  have h: "hd ?l \<noteq> CHR ''#''" "CHR ''='' \<in> set ?l" using assms(2,3) by simp_all
  have "settings_line (?l @ [LF]) False (loaded, seen) = Some (loaded', insert field seen)"
    unfolding settings_line_def Let_def prod.case cstr_id [OF n] s t using assms(10-12) h by simp
  moreover have "name @ ''='' @ value @ LF # rest = ?l @ LF # rest" by simp
  ultimately show ?thesis using g by (simp only: lines_say.simps [of "?l @ LF # rest"]) simp
qed

lemma lines_say_Nil: "lines_say [] st = Some st"
  by (simp add: lines_say.simps eval_nat_numeral)

lemma settings_read_back:
  assumes "valid_alias (settings_alias s)"
  shows "file_says (settings_text s) = Some s"
proof -
  note a = alias_line [OF assms]
  have flag: "nul_free (flag_text b)" "flag_text b \<noteq> []" "LF \<notin> set (flag_text b)" "CR \<notin> set (flag_text b)"
    "length (flag_text b) = 1" "parse_boolean (flag_text b) = Some b" for b
    by (simp_all add: flag_text_def parse_boolean_def)
  let ?d = ls_settings_defaults
  let ?s1 = "?d\<lparr>settings_alias := settings_alias s\<rparr>"
  let ?s2 = "?s1\<lparr>quick_save := quick_save s\<rparr>"
  let ?s3 = "?s2\<lparr>auto_finish := auto_finish s\<rparr>"
  have f: "field_named ''version'' = Some SETTINGS_FIELD_VERSION" "field_named ''device_name'' = Some SETTINGS_FIELD_DEVICE_NAME"
    "field_named ''quick_save'' = Some SETTINGS_FIELD_QUICK_SAVE" "field_named ''auto_finish'' = Some SETTINGS_FIELD_AUTO_FINISH"
    by (simp_all add: field_named_def)
  have v: "set_field SETTINGS_FIELD_VERSION ''1'' ?d = Some ?d"
    "set_field SETTINGS_FIELD_DEVICE_NAME (settings_alias s) ?d = Some ?s1"
    "set_field SETTINGS_FIELD_QUICK_SAVE (flag_text (quick_save s)) ?s1 = Some ?s2"
    "set_field SETTINGS_FIELD_AUTO_FINISH (flag_text (auto_finish s)) ?s2 = Some ?s3"
    using assms flag(6) by (simp_all add: set_field_def ls_settings_set_alias_def)
  have "lines_say (settings_text s) (?d, {}) = Some (?s3, insert SETTINGS_FIELD_AUTO_FINISH
      (insert SETTINGS_FIELD_QUICK_SAVE (insert SETTINGS_FIELD_DEVICE_NAME (insert SETTINGS_FIELD_VERSION {}))))"
  proof -
    have t: "settings_text s = ''version'' @ ''='' @ ''1'' @ LF # ''device_name'' @ ''='' @ settings_alias s @ LF #
        ''quick_save'' @ ''='' @ flag_text (quick_save s) @ LF # ''auto_finish'' @ ''='' @ flag_text (auto_finish s) @ LF # []"
      by (simp add: settings_text_def)
    show ?thesis unfolding t
      apply (subst written_line [OF _ _ _ _ _ _ _ _ _ f(1) v(1)]; (simp; fail)?)
      apply (subst written_line [OF _ _ _ _ _ _ _ _ _ f(2) v(2)]; (simp add: a; fail)?)
      subgoal using a by simp
      apply (subst written_line [OF _ _ _ _ _ _ _ _ _ f(3) v(3)]; (simp add: flag; fail)?)
      apply (subst written_line [OF _ _ _ _ _ _ _ _ _ f(4) v(4)]; (simp add: flag; fail)?)
      by (simp add: lines_say_Nil)
  qed
  moreover have "?s3 = s" by simp
  ultimately show ?thesis by (simp add: file_says_def required_fields_def insert_commute)
qed

section \<open>Settings survive\<close>

text \<open>What a start of the program reads: the file, else its backup.\<close>

definition stored_settings :: "string \<Rightarrow> world \<Rightarrow> LsSettings option" where
  "stored_settings path w =
     (case settings_at w path of Some s \<Rightarrow> Some s | None \<Rightarrow> settings_at w (path @ ''.bak''))"

definition only_changes :: "string set \<Rightarrow> world \<Rightarrow> world \<Rightarrow> bool" where
  "only_changes P w w' \<longleftrightarrow> (\<forall>p. p \<notin> P \<longrightarrow> w_fs w' p = w_fs w p)"

lemma only_changes_refl: "w_fs w' = w_fs w \<Longrightarrow> only_changes P w w'"
  by (simp add: only_changes_def)

lemma only_changes_trans: "only_changes P w v \<Longrightarrow> only_changes P v u \<Longrightarrow> only_changes P w u"
  by (simp add: only_changes_def)

lemma settings_same: "w_fs w' p = w_fs w p \<Longrightarrow> settings_at w' p = settings_at w p"
  by (simp add: settings_at_def file_at_def)

lemma save_failure_props:
  "save_failure t e w = (r, w') \<Longrightarrow> \<not> r \<and> only_changes {t} w w'"
  by (auto simp: save_failure_def only_changes_def split: prod.splits dest!: unlink_fs)

lemma write_temporary_props:
  assumes "write_temporary s t w = (r, w')"
  shows "only_changes {t} w w' \<and> (r \<longrightarrow> w_fs w' t = Some (FileNode (settings_text s)))"
proof -
  obtain a v where o: "fopen_write t w = (a, v)" by (metis surj_pair)
  show ?thesis
  proof (cases a)
    case (Some e)
    with assms o fopen_write_fs [OF o] show ?thesis by (simp add: write_temporary_def only_changes_def)
  next
    case None
    with fopen_write_fs [OF o] have v: "w_fs v = (w_fs w)(t \<mapsto> FileNode [])" by simp
    obtain n u where f: "do_fwrite t (settings_text s) v = (n, u)" by (metis surj_pair)
    have u: "n \<le> length (settings_text s)" "w_fs u = (w_fs v)(t \<mapsto> FileNode (take n (settings_text s)))"
      using fwrite_fs [OF f, of "[]"] v by (simp_all add: file_at_def)
    obtain b x where b: "(if n < length (settings_text s) then (False, u) else do_simple u) = (b, x)" by (metis surj_pair)
    have x: "w_fs x = w_fs u" using b simple_fs by (auto split: if_splits)
    obtain c y where c: "do_simple x = (c, y)" by (metis surj_pair)
    note y = simple_fs [OF c]
    from assms have r: "(case b of False \<Rightarrow> save_failure t (w_errno x) y
        | True \<Rightarrow> (case c of False \<Rightarrow> save_failure t (w_errno y) y | True \<Rightarrow> (True, y))) = (r, w')"
      using None o f b c by (cases b) (simp_all add: write_temporary_def)
    have base: "only_changes {t} w y" using v u x y by (simp add: only_changes_def)
    show ?thesis
    proof (cases "b \<and> c")
      case True
      with b u have "n = length (settings_text s)" by (auto split: if_splits)
      with True r base u x y show ?thesis by simp
    next
      case False
      then have "\<exists>e. save_failure t e y = (r, w')" using r by (auto split: bool.splits)
      then show ?thesis using save_failure_props base only_changes_trans by blast
    qed
  qed
qed

lemma sidecars [simp]: "path @ ''.tmp'' \<noteq> path" "path @ ''.bak'' \<noteq> path" "path @ ''.tmp'' \<noteq> path @ ''.bak''"
  by simp_all

lemma stored_same:
  assumes "only_changes {path @ ''.tmp''} w w'"
  shows "settings_at w' path = settings_at w path" "w_fs w' path = w_fs w path" "stored_settings path w' = stored_settings path w"
    "settings_at w' (path @ ''.bak'') = settings_at w (path @ ''.bak'')"
proof -
  have "w_fs w' path = w_fs w path" "w_fs w' (path @ ''.bak'') = w_fs w (path @ ''.bak'')"
    using assms by (simp_all add: only_changes_def)
  from this settings_same [OF this(1)] settings_same [OF this(2)]
  show "settings_at w' path = settings_at w path" "w_fs w' path = w_fs w path" "stored_settings path w' = stored_settings path w"
    "settings_at w' (path @ ''.bak'') = settings_at w (path @ ''.bak'')" by (simp_all add: stored_settings_def split: option.split)
qed

lemma moved_settings: "w_fs w' q = w_fs w p \<Longrightarrow> settings_at w' q = settings_at w p"
  by (simp add: settings_at_def file_at_def)

lemma no_settings: "w_fs w p = None \<Longrightarrow> settings_at w p = None"
  by (simp add: settings_at_def file_at_def)

text \<open>The last part of saving, once the old settings are in the backup, or there is no file.\<close>

lemma replace_file_props:
  assumes "replace_file path (path @ ''.tmp'') (path @ ''.bak'') d w = (ok, w')"
    and "settings_at w (path @ ''.tmp'') = Some new" and "w_fs w path = None"
    and "old = settings_at w (path @ ''.bak'')"
  shows "if ok then settings_at w' path = Some new else stored_settings path w' = old"
proof -
  define t where "t = path @ ''.tmp''"
  define b where "b = path @ ''.bak''"
  have ne: "t \<noteq> path" "b \<noteq> path" "t \<noteq> b" by (simp_all add: t_def b_def)
  note a = assms [folded t_def b_def]
  have st: "stored_settings path x = (case settings_at x path of Some s \<Rightarrow> Some s | None \<Rightarrow> settings_at x b)" for x
    by (simp add: stored_settings_def b_def split: option.split)
  obtain r v where r: "do_rename t path w = (r, v)" by (metis surj_pair)
  note rr = rename_fs [OF r]
  show ?thesis
  proof (cases r)
    case None
    obtain q u where q: "do_unlink b v = (q, u)" by (metis surj_pair)
    have "w_fs v path = w_fs w t" using rr None ne by simp
    moreover have "w_fs u path = w_fs v path" using unlink_fs [OF q] ne by (cases q) simp_all
    ultimately have "settings_at u path = Some new" using a(2) moved_settings [of u path w t] by simp
    with a(1) r None q show ?thesis by (auto simp: replace_file_def)
  next
    case (Some e)
    with rr have v: "w_fs v = w_fs w" by simp
    define u where "u = (if d then snd (do_rename b path v) else v)"
    have u: "stored_settings path u = old"
    proof (cases "d \<and> fst (do_rename b path v) = None")
      case True
      obtain q x where q: "do_rename b path v = (q, x)" by (metis surj_pair)
      with True rename_fs [OF q] ne v have x: "w_fs x path = w_fs w b" "w_fs x b = None" by simp_all
      then have "stored_settings path x = settings_at w b"
        unfolding st using no_settings [OF x(2)] moved_settings [OF x(1)] by (simp split: option.split)
      with True q a(4) show ?thesis by (simp add: u_def)
    next
      case False
      then have "w_fs u = w_fs v"
        using rename_fs [of b path v] by (cases "do_rename b path v") (auto simp: u_def)
      then have x: "w_fs u path = None" "w_fs u b = w_fs w b" using v a(3) by simp_all
      then show ?thesis unfolding st a(4) using no_settings [OF x(1)] moved_settings [OF x(2)] by simp
    qed
    from a(1) r Some have "\<exists>e. save_failure t e u = (ok, w')" by (auto simp: replace_file_def u_def)
    then obtain e where "save_failure t e u = (ok, w')" by blast
    from save_failure_props [OF this, unfolded t_def] stored_same(3) [of path u w'] u show ?thesis by simp
  qed
qed

lemma replace_existing_props:
  assumes "replace_existing path (path @ ''.tmp'') (path @ ''.bak'') w = (ok, w')"
    and "settings_at w (path @ ''.tmp'') = Some new" and "settings_at w path = Some old"
  shows "if ok then settings_at w' path = Some new else stored_settings path w' = Some old"
proof -
  define t where "t = path @ ''.tmp''"
  define b where "b = path @ ''.bak''"
  have ne: "t \<noteq> path" "b \<noteq> path" "t \<noteq> b" by (simp_all add: t_def b_def)
  note a = assms [folded t_def b_def]
  have fail: ?thesis if "save_failure t e x = (ok, w')" "settings_at x path = Some old" for e x
    using save_failure_props [OF that(1)] stored_same(1) [of path x w', folded t_def] that(2) by (simp add: stored_settings_def)
  obtain g x where g: "unlink_if_present b w = (g, x)" by (metis surj_pair)
  then have x: "w_fs x p = w_fs w p" if "p \<noteq> b" for p
    using that by (auto simp: unlink_if_present_def split: prod.splits dest!: unlink_fs)
  note xs = settings_same [OF x]
  show ?thesis
  proof (cases g)
    case False
    with fail [of _ x] a(1,3) g xs [of path] ne show ?thesis by (auto simp: replace_existing_def)
  next
    case True
    obtain h y where h: "do_rename path b x = (h, y)" by (metis surj_pair)
    note hh = rename_fs [OF h]
    show ?thesis
    proof (cases h)
      case (Some e)
      with hh a(3) xs [of path] ne have "settings_at y path = Some old" using settings_same [of y path x] by simp
      with fail [of _ y] a(1) g True h Some show ?thesis by (auto simp: replace_existing_def)
    next
      case None
      with a(1) g True h have rp: "replace_file path t b True y = (ok, w')" by (simp add: replace_existing_def)
      have "w_fs y path = None" "w_fs y b = w_fs x path" "w_fs y t = w_fs x t" using hh None ne by auto
      with replace_file_props [of path, folded t_def b_def, OF rp _ _ refl, of new] a(2,3) xs [of path] xs [of t] ne
        moved_settings [of y b x path] settings_same [of y t x] show ?thesis by simp
    qed
  qed
qed

lemma save_keeps:
  assumes "ls_settings_save new path w = (ok, w')"
    and "settings_at w path = Some old \<or> w_fs w path = None \<and> stored_settings path w = Some old"
  shows "if ok then settings_at w' path = Some new else stored_settings path w' = Some old"
proof -
  define t where "t = path @ ''.tmp''"
  define b where "b = path @ ''.bak''"
  have ne: "t \<noteq> path" "b \<noteq> path" "t \<noteq> b" by (simp_all add: t_def b_def)
  note same = stored_same [of path, folded t_def b_def]
  note replace = replace_file_props [of path, folded t_def b_def]
  have old: "stored_settings path w = Some old" using assms(2) by (auto simp: stored_settings_def)
  show ?thesis
  proof (cases "path = [] \<or> \<not> valid_alias (settings_alias new) \<or> sidecar_path path ''.tmp'' = None \<or> sidecar_path path ''.bak'' = None")
    case True
    then have "\<not> ok \<and> w_fs w' = w_fs w" using assms(1) by (auto simp: ls_settings_save_def split: if_splits option.splits)
    with old same(3) [of w w'] show ?thesis by (simp add: only_changes_def)
  next
    case False
    then have sp: "sidecar_path path ''.tmp'' = Some t" "sidecar_path path ''.bak'' = Some b"
      by (auto simp: sidecar_path_def t_def b_def split: if_splits)
    obtain r v where wt: "write_temporary new t w = (r, v)" by (metis surj_pair)
    note tmp = write_temporary_props [OF wt]
    note v = same [OF tmp [THEN conjunct1]]
    have fail: ?thesis if "save_failure t e x = (ok, w')" "only_changes {t} w x" for e x
      using save_failure_props [OF that(1)] same(3) [OF only_changes_trans [OF that(2)], of w'] old by simp
    show ?thesis
    proof (cases r)
      case False
      with assms(1) \<open>\<not> (path = [] \<or> _)\<close> sp wt have "\<not> ok" "w' = v" by (simp_all add: ls_settings_save_def)
      with v old show ?thesis by simp
    next
      case True
      have new: "settings_at v t = Some new"
        using True tmp False settings_read_back by (simp add: settings_at_def file_at_def)
      obtain a u where ac: "do_access path v = (a, u)" by (metis surj_pair)
      note acc = access_fs [OF ac]
      have u: "only_changes {t} w u" using acc tmp by (simp add: only_changes_def)
      note us = same [OF u]
      have ut: "settings_at u t = Some new" using new acc settings_same [of u t v] by simp
      from assms(1) False sp wt True ac have s: "(ok, w') = (case a of
          Some e \<Rightarrow> if e \<noteq> ENOENT then save_failure t (w_errno u) u else replace_file path t b False u
        | None \<Rightarrow> replace_existing path t b u)"
        by (simp add: ls_settings_save_def split: option.split)
      show ?thesis
      proof (cases a)
        case (Some e)
        show ?thesis
        proof (cases "e = ENOENT")
          case True
          with Some s have rp: "replace_file path t b False u = (ok, w')" by simp
          have n: "w_fs u path = None" using acc Some True by simp
          with us have "w_fs w path = None" by simp
          with assms(2) no_settings [OF this] have "settings_at w b = Some old" by (simp add: stored_settings_def b_def)
          with replace [OF rp ut n refl] us show ?thesis by simp
        qed (use Some s fail u in auto)
      next
        case None
        then have "w_fs w path \<noteq> None" using acc us by simp
        with assms(2) have o: "settings_at w path = Some old" by simp
        from s None have "replace_existing path t b u = (ok, w')" by simp
        from replace_existing_props [of path, folded t_def b_def, OF this ut] o us show ?thesis by simp
      qed
    qed
  qed
qed

section \<open>Reading the settings back\<close>

lemma unlink_present_props:
  "unlink_if_present p w = (r, w') \<Longrightarrow> only_changes {p} w w' \<and> (w_io w = [] \<longrightarrow> w_io w' = [])"
  by (auto simp: unlink_if_present_def only_changes_def do_unlink_def next_io_def failing_def
      split: prod.splits dest!: unlink_fs split: io_answer.splits option.splits fs_node.splits list.splits)

lemma recover_keeps:
  assumes "settings_at w (path @ ''.bak'') = Some s" and "r = SETTINGS_LOAD_MISSING \<Longrightarrow> w_fs w path = None"
    and "w' = recover_backup_file path (path @ ''.bak'') r w"
  shows "stored_settings path w' \<in> {settings_at w path, Some s} - {None}"
proof -
  define t where "t = path @ ''.tmp''"
  define b where "b = path @ ''.bak''"
  have ne: "t \<noteq> path" "b \<noteq> path" "t \<noteq> b" by (simp_all add: t_def b_def)
  have st: "stored_settings path x = (case settings_at x path of Some s \<Rightarrow> Some s | None \<Rightarrow> settings_at x b)" for x
    by (simp add: stored_settings_def b_def split: option.split)
  have s: "settings_at w b = Some s" using assms(1) by (simp add: b_def)
  have w': "w' = recover_backup_file path b r w" using assms(3) by (simp add: b_def)
  have same: ?thesis if "w_fs w' path = w_fs w path" "w_fs w' b = w_fs w b"
    unfolding st using s settings_same [OF that(1)] settings_same [OF that(2)] by (simp split: option.split)
  have promoted: ?thesis if "w_fs w' path = w_fs w b" unfolding st using moved_settings [OF that] s by simp
  consider (missing) "r = SETTINGS_LOAD_MISSING" | (long) "r \<noteq> SETTINGS_LOAD_MISSING" "sidecar_path path ''.tmp'' = None"
    | (move) "r \<noteq> SETTINGS_LOAD_MISSING" "sidecar_path path ''.tmp'' = Some t"
    by (cases "sidecar_path path ''.tmp''") (auto simp: sidecar_path_def t_def split: if_splits)
  then show ?thesis
  proof cases
    case missing
    obtain q x where q: "do_rename b path w = (q, x)" by (metis surj_pair)
    with w' missing have "w' = x" by (simp add: recover_backup_file_def)
    with rename_fs [OF q] ne same promoted show ?thesis by (cases q) simp_all
  next
    case long
    with w' same show ?thesis by (simp add: recover_backup_file_def)
  next
    case move
    obtain g x where g: "unlink_if_present t w = (g, x)" by (metis surj_pair)
    then have x: "w_fs x path = w_fs w path" "w_fs x b = w_fs w b"
      using unlink_present_props ne by (simp_all add: only_changes_def)
    obtain h y where h: "do_rename path t x = (h, y)" by (metis surj_pair)
    note hh = rename_fs [OF h]
    show ?thesis
    proof (cases "g \<and> h = None")
      case False
      with w' move g h have "w' = x \<or> h \<noteq> None \<and> w' = y"
        by (cases g; cases h) (simp_all add: recover_backup_file_def)
      with x hh same show ?thesis by auto
    next
      case True
      have y: "w_fs y path = None" "w_fs y b = w_fs w b" "w_fs y t = w_fs w path" using hh True ne x by auto
      obtain k z where k: "do_rename b path y = (k, z)" by (metis surj_pair)
      note kk = rename_fs [OF k]
      obtain m v where m: "(if k = None then do_unlink t z else do_rename t path z) = (m, v)" by (metis surj_pair)
      have "w' = v" using w' move g h True k m by (cases k) (simp_all add: recover_backup_file_def)
      show ?thesis
      proof (cases k)
        case None
        then have "w_fs v path = w_fs w b"
          using m kk y ne unlink_fs [of t z m v] by (cases m) auto
        with \<open>w' = v\<close> promoted show ?thesis by simp
      next
        case (Some e)
        with m kk y ne rename_fs [of t path z m v] have v: "w_fs v b = w_fs w b" "w_fs v path = None \<or> w_fs v path = w_fs w path"
          by (cases m; auto)+
        show ?thesis
        proof (cases "w_fs v path = w_fs w path")
          case True
          with v(1) same \<open>w' = v\<close> show ?thesis by simp
        next
          case False
          with v no_settings [of v path] settings_same [OF v(1)] s \<open>w' = v\<close> show ?thesis unfolding st by simp
        qed
      qed
    qed
  qed
qed

lemma load_keeps:
  assumes "ls_settings_load d path w = (ok, s, w')" and "path \<noteq> []" and "stored_settings path w \<noteq> None"
  shows "stored_settings path w' \<in> {settings_at w path, settings_at w (path @ ''.bak'')} - {None}"
    "if ok then Some s \<in> {settings_at w path, settings_at w (path @ ''.bak'')} else s = ls_settings_defaults"
    "w_io w = [] \<Longrightarrow> length path + 4 < LS_SETTINGS_PATH_CAPACITY \<Longrightarrow> ok \<and> stored_settings path w = Some s"
proof -
  let ?b = "path @ ''.bak''"
  have goal: "stored_settings path w' \<in> {settings_at w path, settings_at w ?b} - {None} \<and>
    (if ok then Some s \<in> {settings_at w path, settings_at w ?b} else s = ls_settings_defaults) \<and>
    (w_io w = [] \<longrightarrow> length path + 4 < LS_SETTINGS_PATH_CAPACITY \<longrightarrow> ok \<and> stored_settings path w = Some s)"
  proof (cases "sidecar_path path ''.bak''")
    case None
    with assms(1,2) have "w_fs w' = w_fs w" "\<not> ok" "s = ls_settings_defaults" by (auto simp: ls_settings_load_def)
    moreover have "\<not> length path + 4 < LS_SETTINGS_PATH_CAPACITY" using None by (simp add: sidecar_path_def split: if_splits)
    moreover have "stored_settings path w' = stored_settings path w" using calculation(1) stored_same(3) [of path w w'] by (simp add: only_changes_def)
    ultimately show ?thesis using assms(3) by (auto simp: stored_settings_def split: option.splits)
  next
    case (Some b)
    then have sp: "sidecar_path path ''.bak'' = Some ?b" by (simp add: sidecar_path_def split: if_splits)
    obtain r v where r: "load_settings_file path w = (r, v)" by (metis surj_pair)
    obtain q u where q: "load_settings_file ?b v = (q, u)" by (metis surj_pair)
    note rr = load_settings_says [OF r] and qq = load_settings_says [OF q]
    have sv: "settings_at v p = settings_at w p" "settings_at u p = settings_at w p" for p
      using rr(1) qq(1) settings_same [of v p w] settings_same [of u p w] by simp_all
    have kept: "stored_settings path x \<in> {settings_at w path, settings_at w ?b} - {None}" if "w_fs x = w_fs w" for x
      using assms(3) settings_same [of x path w] settings_same [of x ?b w] that by (auto simp: stored_settings_def split: option.splits)
    show ?thesis
    proof (cases "\<exists>l. r = SETTINGS_LOAD_VALID l")
      case True
      then obtain l where l: "r = SETTINGS_LOAD_VALID l" by blast
      with assms(1,2) sp r have "ok" "s = l" "w' = v" by (simp_all add: ls_settings_load_def)
      with l rr(1) rr(2) [of l] kept [of w'] show ?thesis by (auto simp: stored_settings_def)
    next
      case False
      then have nv: "w_io w = [] \<Longrightarrow> w_io v = [] \<and> settings_at w path = None"
        using rr(4) by (metis not_None_eq)
      show ?thesis
      proof (cases "\<exists>l. q = SETTINGS_LOAD_VALID l")
        case True
        then obtain l where l: "q = SETTINGS_LOAD_VALID l" by blast
        with assms(1,2) sp r q False have "ok \<and> s = l \<and> w' = recover_backup_file path ?b r u"
          by (cases r) (simp_all add: ls_settings_load_def)
        then have e: "ok" "s = l" "w' = recover_backup_file path ?b r u" by simp_all
        have wb: "settings_at w ?b = Some l" using qq(2) [OF l] sv(1) by simp
        have ub: "settings_at u ?b = Some l" using wb sv(2) by simp
        have m: "r = SETTINGS_LOAD_MISSING \<Longrightarrow> w_fs u path = None" using rr(1,3) qq(1) by simp
        from recover_keeps [OF ub m e(3)] have k: "stored_settings path w' \<in> {settings_at w path, Some l} - {None}" using sv(2) by simp
        have "w_io w = [] \<Longrightarrow> stored_settings path w = Some l" using nv wb by (simp add: stored_settings_def)
        then show ?thesis using k wb e(1,2) by simp
      next
        case False': False
        with assms(1,2) sp r q False have "\<not> ok \<and> s = ls_settings_defaults \<and> w' = u"
          by (cases r; cases q) (simp_all add: ls_settings_load_def)
        then have e: "\<not> ok" "s = ls_settings_defaults" "w' = u" by simp_all
        have "w_io w = [] \<Longrightarrow> settings_at v ?b = None" using nv qq(4) False' by (metis not_None_eq)
        then have "w_io w \<noteq> []" using nv sv assms(3) by (auto simp: stored_settings_def)
        with e kept [of u] rr(1) qq(1) show ?thesis by simp
      qed
    qed
  qed
  from goal show "stored_settings path w' \<in> {settings_at w path, settings_at w ?b} - {None}"
    "if ok then Some s \<in> {settings_at w path, settings_at w ?b} else s = ls_settings_defaults"
    "w_io w = [] \<Longrightarrow> length path + 4 < LS_SETTINGS_PATH_CAPACITY \<Longrightarrow> ok \<and> stored_settings path w = Some s"
    by blast+
qed

end
