(* ===== verification/Identity.thy ===== *)
theory Identity
  imports Settings Protocol_Write Secure_Random
begin

text \<open>
  \<open>network.c\<close> and \<open>identity.c\<close>. What the console's services answer (whether the shared buffer could be
  allocated, the result of the socket service and the address it reports; the model of the console) is an
  argument. The lemmas show that the identity, with any name the settings accept, can be announced: other
  devices read the announcement as this device.
\<close>

section \<open>The socket service\<close>

definition SOC_BUFFER_SIZE :: u32 where "SOC_BUFFER_SIZE = 0x100000"

record LsNetwork =
  soc_buffer :: bool
  soc_buffer_size :: u32
  net_initialized :: bool
  local_ip :: string
  net_last_errno :: nat
  net_last_result :: int

text \<open>\<open>soc_address\<close> is the text of the address when \<open>SOCU_GetIPInfo\<close> succeeds with one that is not
  \<open>INADDR_ANY\<close>, else the \<open>errno\<close> it leaves. A negative result is a failure (\<open>R_FAILED\<close>).\<close>

record soc_answer =
  soc_memory :: bool
  soc_result :: int
  soc_address :: "nat + string"

definition ls_network_shutdown :: "LsNetwork \<Rightarrow> LsNetwork" where
  "ls_network_shutdown network = network\<lparr>net_initialized := False, soc_buffer := False, local_ip := []\<rparr>"

definition zero_network :: LsNetwork where
  "zero_network = \<lparr>soc_buffer = False, soc_buffer_size = 0, net_initialized = False, local_ip = [], net_last_errno = 0,
     net_last_result = 0\<rparr>"

definition ls_network_init :: "soc_answer \<Rightarrow> bool \<times> LsNetwork" where
  "ls_network_init answer =
     (let network = zero_network\<lparr>soc_buffer_size := SOC_BUFFER_SIZE, soc_buffer := soc_memory answer\<rparr> in
      if \<not> soc_memory answer then (False, network\<lparr>net_last_errno := 12\<rparr>)
      else
        (let network = network\<lparr>net_last_result := soc_result answer\<rparr> in
         if soc_result answer < 0 then (False, network\<lparr>soc_buffer := False\<rparr>)
         else
           (let network = network\<lparr>net_initialized := True\<rparr> in
            case soc_address answer of
              Inl e \<Rightarrow> (False, ls_network_shutdown (network\<lparr>net_last_errno := e\<rparr>))
            | Inr ip \<Rightarrow> (True, network\<lparr>local_ip := ip\<rparr>))))"

lemma network_init_cases:
  "ls_network_init answer = (ok, network) \<Longrightarrow>
     (ok \<longleftrightarrow> net_initialized network) \<and> (ok \<longleftrightarrow> soc_buffer network) \<and>
     (if ok then soc_address answer = Inr (local_ip network) else local_ip network = [])"
  by (auto simp: ls_network_init_def Let_def ls_network_shutdown_def zero_network_def split: if_splits sum.splits)

section \<open>The identity\<close>

definition LS3DS_PROTOCOL_VERSION :: string where "LS3DS_PROTOCOL_VERSION = ''2.2''"
definition LS3DS_HTTP_PORT :: u16 where "LS3DS_HTTP_PORT = 53317"

datatype CFG_SystemModel =
  CFG_MODEL_3DS | CFG_MODEL_3DSXL | CFG_MODEL_2DS | CFG_MODEL_N3DS | CFG_MODEL_N3DSXL | CFG_MODEL_N2DSXL

text \<open>\<open>None\<close>: the service failed or reported another value.\<close>

definition hardware_model :: "CFG_SystemModel option \<Rightarrow> string" where
  "hardware_model model =
     (case model of
        None \<Rightarrow> ''Nintendo 3DS''
      | Some CFG_MODEL_3DS \<Rightarrow> ''Nintendo 3DS''
      | Some CFG_MODEL_3DSXL \<Rightarrow> ''Nintendo 3DS XL''
      | Some CFG_MODEL_2DS \<Rightarrow> ''Nintendo 2DS''
      | Some CFG_MODEL_N3DS \<Rightarrow> ''New Nintendo 3DS''
      | Some CFG_MODEL_N3DSXL \<Rightarrow> ''New Nintendo 3DS XL''
      | Some CFG_MODEL_N2DSXL \<Rightarrow> ''New Nintendo 2DS XL'')"

definition ls_identity_create :: "CFG_SystemModel option \<Rightarrow> world \<Rightarrow> bool \<times> LsDevice \<times> world" where
  "ls_identity_create model w =
     (let identity = zero_device\<lparr>device_alias := LS3DS_DEFAULT_ALIAS, version := LS3DS_PROTOCOL_VERSION,
                       device_model := hardware_model model, device_type := LS_DEVICE_DESKTOP,
                       port := LS3DS_HTTP_PORT, protocol := LS_PROTOCOL_HTTP, download := False, announce := True\<rparr>
      in case ls_secure_random_hex 129 32 w of
           (None, w) \<Rightarrow> (False, identity, w)
         | (Some hex, w) \<Rightarrow> (True, identity\<lparr>fingerprint := hex\<rparr>, w))"

section \<open>Every name the settings accept can be announced\<close>

lemma display_continuation:
  "\<forall>c \<in> set xs. 0x80 \<le> byte c \<and> byte c < 0xc0 \<Longrightarrow> display_text_loop (xs @ r) \<longleftrightarrow> display_text_loop r"
  by (induction xs) auto

lemma display_sequence:
  assumes "utf8_sequence (c # cs) = Some (k, cp)" and "0x80 \<le> byte c" and "\<not> (0x80 \<le> cp \<and> cp \<le> 0x9f)"
  shows "display_text_loop (c # cs) \<longleftrightarrow> display_text_loop (drop k (c # cs))"
proof -
  obtain cp0 where l: "utf8_lead (byte c) = Some (k, cp0)" and n: "k \<le> length (c # cs)"
    and t: "utf8_tail cp0 (take (k - 1) cs) = Some cp"
    using assms(1,2) by (auto simp: utf8_sequence_def split: option.splits if_splits)
  note b = utf8_lead_bounds [OF l]
  have cs: "cs = take (k - 1) cs @ drop k (c # cs)" using b by (cases k) simp_all
  have tail: "\<forall>d \<in> set (take (k - 1) cs). 0x80 \<le> byte d \<and> byte d < 0xc0" using utf8_tail_bytes [OF t] by blast
  have "display_text_loop cs \<longleftrightarrow> display_text_loop (drop k (c # cs))"
    using display_continuation [OF tail, of "drop k (c # cs)"] cs by simp
  moreover have "\<not> (byte c = 0xc2 \<and> (case cs of [] \<Rightarrow> False | d # _ \<Rightarrow> 0x80 \<le> byte d \<and> byte d \<le> 0x9f))"
  proof
    assume c2: "byte c = 0xc2 \<and> (case cs of [] \<Rightarrow> False | d # _ \<Rightarrow> 0x80 \<le> byte d \<and> byte d \<le> 0x9f)"
    then obtain d ds where d: "cs = d # ds" "0x80 \<le> byte d" "byte d \<le> 0x9f" by (cases cs) auto
    have "k = 2" "cp0 = 2" using l c2 by (simp_all add: utf8_lead_def)
    then have "cp = push_bit 6 2 OR (byte d AND 0x3f)" using t d(1) by (simp split: if_splits)
    also have "\<dots> = 64 * 2 + byte d mod 64" by (simp add: utf8_arith)
    also have "\<dots> = byte d"
    proof -
      obtain r where "byte d = 64 * 2 + r" "r < 64" using d(2,3) le_Suc_ex [of 128 "byte d"] by auto
      then show ?thesis by (simp only: mod_mult_self4 mod_less)
    qed
    finally show False using assms(3) d by simp
  qed
  ultimately show ?thesis using assms(2) by auto
qed

lemma alias_loop_display: "alias_loop s b \<Longrightarrow> valid_utf8 s \<and> display_text_loop s"
proof (induction s b rule: alias_loop.induct)
  case (2 c s b)
  show ?case
  proof (cases "byte c < 0x80")
    case True
    with 2(3) have "alias_loop s (b \<or> c \<noteq> CHR '' '' \<and> c \<noteq> TAB)" "\<not> byte c < 0x20" "byte c \<noteq> 0x7f" by (auto split: if_splits)
    with 2(1) [OF True] True show ?thesis by simp
  next
    case False
    with 2(3) obtain k cp where u: "utf8_sequence (c # s) = Some (k, cp)" "\<not> (0x80 \<le> cp \<and> cp \<le> 0x9f)"
      "alias_loop (drop k (c # s)) True" by (auto split: option.splits if_splits)
    from 2(2) [OF False u(1) refl u(2,3)] have "valid_utf8 (drop k (c # s)) \<and> display_text_loop (drop k (c # s))" .
    with display_sequence [OF u(1) _ u(2)] False valid_utf8_sequence [OF u(1)] show ?thesis by simp
  qed
qed simp

lemma alias_text_field:
  assumes "valid_alias s"
  shows "text_field LS3DS_ALIAS_CAPACITY s \<and> display_text_loop s \<and> s \<noteq> []"
proof -
  have "c \<noteq> NUL" if "c \<in> set s" for c
    using alias_loop_bytes [OF _ that] assms by (auto simp: valid_alias_def)
  then have "nul_free s" by (auto simp: nul_free_def)
  then show ?thesis using assms alias_loop_display by (auto simp: valid_alias_def text_field_def)
qed

lemma hex_upper_text:
  "set (concat (map (two_digits ''0123456789ABCDEF'') bs)) \<subseteq> set ''0123456789ABCDEF'' \<and>
     length (concat (map (two_digits ''0123456789ABCDEF'') bs)) = 2 * length bs"
proof (induction bs)
  case (Cons b bs)
  have "unat b < 256" using unsigned_less [where ?'a = nat and w = b] by simp
  then have "unat (drop_bit 4 b) < 16" by (simp only: unsigned_drop_bit_eq) (simp add: drop_bit_eq_div take_bit_nat_eq_self)
  moreover have "unat (b AND 0x0f) < 16" by (simp add: unsigned_and_eq and_low4)
  ultimately have "''0123456789ABCDEF'' ! unat (drop_bit 4 b) \<in> set ''0123456789ABCDEF''"
    "''0123456789ABCDEF'' ! unat (b AND 0x0f) \<in> set ''0123456789ABCDEF''" using hex_digit_mem_upper by blast+
  then show ?case using Cons by (simp add: two_digits_def del: insert_iff)
qed simp

text \<open>What an identity is made of, whatever the name.\<close>

definition own_identity :: "LsDevice \<Rightarrow> bool" where
  "own_identity d \<longleftrightarrow> valid_alias (device_alias d) \<and> version d = LS3DS_PROTOCOL_VERSION \<and>
     (\<exists>model. device_model d = hardware_model model) \<and> device_type d = LS_DEVICE_DESKTOP \<and> port d = LS3DS_HTTP_PORT \<and>
     protocol d = LS_PROTOCOL_HTTP \<and> \<not> download d \<and> ip_address d = [] \<and>
     length (fingerprint d) = 64 \<and> set (fingerprint d) \<subseteq> set ''0123456789ABCDEF''"

lemma identity_own:
  assumes "ls_identity_create model w = (True, identity, w')"
  shows "own_identity identity"
proof -
  obtain bs where r: "random_bytes 32 w = (Some bs, w')"
    and f: "fingerprint identity = concat (map (two_digits ''0123456789ABCDEF'') bs)"
    using assms by (auto simp: ls_identity_create_def Let_def ls_secure_random_hex_def ls_secure_random_bytes_def
        split: option.splits prod.splits)
  have "valid_alias LS3DS_DEFAULT_ALIAS" by code_simp
  moreover have "length (fingerprint identity) = 64" "set (fingerprint identity) \<subseteq> set ''0123456789ABCDEF''"
    using hex_upper_text [of bs] random_length [OF r] unfolding f by auto
  ultimately show ?thesis
    using assms by (auto simp: ls_identity_create_def Let_def own_identity_def zero_device_def split: option.splits prod.splits)
qed

lemma own_identity_wf: "own_identity d \<Longrightarrow> device_message_wf d"
proof -
  assume own: "own_identity d"
  then obtain model where m: "device_model d = hardware_model model" by (auto simp: own_identity_def)
  have models: "\<forall>x \<in> {None, Some CFG_MODEL_3DS, Some CFG_MODEL_3DSXL, Some CFG_MODEL_2DS, Some CFG_MODEL_N3DS,
      Some CFG_MODEL_N3DSXL, Some CFG_MODEL_N2DSXL}.
      text_field LS3DS_MODEL_CAPACITY (hardware_model x) \<and> display_text_loop (hardware_model x)"
    by code_simp
  have "model \<in> {None, Some CFG_MODEL_3DS, Some CFG_MODEL_3DSXL, Some CFG_MODEL_2DS, Some CFG_MODEL_N3DS,
      Some CFG_MODEL_N3DSXL, Some CFG_MODEL_N2DSXL}"
  proof (cases model)
    case (Some c)
    then show ?thesis by (cases c) simp_all
  qed simp
  with models m have "text_field LS3DS_MODEL_CAPACITY (device_model d)" "display_text_loop (device_model d)" by auto
  moreover have "text_field LS3DS_VERSION_CAPACITY ''2.2'' \<and> compatible_protocol_version ''2.2''" by code_simp
  moreover have "text_field LS3DS_FINGERPRINT_CAPACITY (fingerprint d)"
  proof -
    have f: "length (fingerprint d) = 64" "set (fingerprint d) \<subseteq> set ''0123456789ABCDEF''"
      using own by (simp_all add: own_identity_def)
    have "\<forall>c \<in> set ''0123456789ABCDEF''. byte c < 0x80 \<and> c \<noteq> NUL" by code_simp
    with f(2) have "\<forall>c \<in> set (fingerprint d). byte c < 0x80 \<and> c \<noteq> NUL" by blast
    with f(1) show ?thesis using valid_utf8_ascii_all [of "fingerprint d"] by (simp add: text_field_def nul_free_def) blast
  qed
  moreover have "fingerprint d \<noteq> []" using own by (auto simp: own_identity_def)
  ultimately show ?thesis
    using own alias_text_field [of "device_alias d"]
    by (simp add: device_message_wf_def device_wf_def own_identity_def LS3DS_PROTOCOL_VERSION_def LS3DS_HTTP_PORT_def)
qed

text \<open>The announcement of the device fits its buffer.\<close>

lemma json_text_short: "\<forall>c \<in> set s. 0x20 \<le> byte c \<Longrightarrow> length (json_text s) \<le> 2 + 2 * length s"
  by (induction s) (auto simp: json_text_def json_char_def)

lemma own_announcement_short:
  assumes "own_identity d"
  shows "length (announcement_text d) < 512"
proof -
  from assms obtain model where m: "device_model d = hardware_model model" by (auto simp: own_identity_def)
  have model: "length (json_text (hardware_model model)) \<le> 23 \<and> hardware_model model \<noteq> []"
    by (simp add: hardware_model_def json_text_def json_char_def split: option.split CFG_SystemModel.split)
  have "\<forall>c \<in> set ''0123456789ABCDEF''. 0x20 \<le> byte c" by code_simp
  then have "\<forall>c \<in> set (fingerprint d). 0x20 \<le> byte c" using assms by (auto simp: own_identity_def)
  then have fp: "length (json_text (fingerprint d)) \<le> 130"
    using json_text_short [of "fingerprint d"] assms by (simp add: own_identity_def)
  have "\<forall>c \<in> set (device_alias d). 0x20 \<le> byte c"
    using assms alias_loop_bytes by (auto simp: own_identity_def valid_alias_def)
  then have al: "length (json_text (device_alias d)) \<le> 130"
    using json_text_short [of "device_alias d"] assms by (simp add: own_identity_def valid_alias_def)
  have "length (announcement_text d) \<le> 160 + length (json_text (device_alias d)) + length (json_text (fingerprint d)) +
      length (json_text (hardware_model model))"
    using assms m model
    by (simp add: announcement_text_def json_object_def device_members_def address_members_def json_member_def
        own_identity_def LS3DS_PROTOCOL_VERSION_def LS3DS_HTTP_PORT_def device_type_text_def protocol_text_def json_bool_def
        dec_big dec_small)
       (simp add: json_text_def json_char_def)
  with fp al model show ?thesis by simp
qed

end
