(* ===== verification/Discovery.thy ===== *)
theory Discovery
  imports Registry Protocol_Write Http_Server Outgoing_Transport
begin

text \<open>
  \<open>discovery.c\<close>: the multicast announcements. \<open>sendto\<close> and \<open>recvfrom\<close> answer through \<open>w_send\<close> and \<open>w_udp\<close>
  of the world, what was sent is in \<open>w_wire\<close> of the socket. The lemmas show that a running discovery announces the
  device in time, whatever the pauses between its updates up to a bound, and that the registry stays well
  formed, learns the device of an announcement and never lists the device itself.
\<close>

definition LS3DS_MULTICAST_ADDRESS :: string where "LS3DS_MULTICAST_ADDRESS = ''224.0.0.167''"
definition LS3DS_MULTICAST_PORT :: u16 where "LS3DS_MULTICAST_PORT = 53317"
definition LS3DS_MAX_DATAGRAM_SIZE :: nat where [simp, cap_defs]: "LS3DS_MAX_DATAGRAM_SIZE = 2048"
definition LS3DS_PERIODIC_ANNOUNCE_MS :: u64 where "LS3DS_PERIODIC_ANNOUNCE_MS = 15000"

definition burst_delays_ms :: "u64 list" where "burst_delays_ms = [100, 500, 2000]"

text \<open>The target is the address text and the port that \<open>sendto\<close> is given.\<close>

record LsDiscovery =
  disc_socket_fd :: int
  disc_multicast_target :: "string \<times> u16"
  disc_running :: bool
  burst_index :: nat
  next_burst_ms :: u64
  next_periodic_ms :: u64
  sent_packets :: u32
  received_packets :: u32
  rejected_packets :: u32
  disc_last_errno :: nat

definition zero_discovery :: LsDiscovery where
  "zero_discovery =
     \<lparr>disc_socket_fd = -1, disc_multicast_target = ([], 0), disc_running = False, burst_index = 0, next_burst_ms = 0,
      next_periodic_ms = 0, sent_packets = 0, received_packets = 0, rejected_packets = 0, disc_last_errno = 0\<rparr>"

section \<open>Start and stop\<close>

definition ls_discovery_stop :: "LsDiscovery \<times> world \<Rightarrow> LsDiscovery \<times> world" where
  "ls_discovery_stop = (\<lambda>(d, w).
     (d\<lparr>disc_socket_fd := -1, disc_running := False\<rparr>,
      if disc_socket_fd d \<ge> 0 then do_close (disc_socket_fd d) w else w))"

definition ls_discovery_announce :: "u64 \<Rightarrow> LsDiscovery \<Rightarrow> LsDiscovery" where
  "ls_discovery_announce now_ms d =
     (if \<not> disc_running d then d
      else d\<lparr>burst_index := 0, next_burst_ms := now_ms + burst_delays_ms ! 0,
             next_periodic_ms := now_ms + LS3DS_PERIODIC_ANNOUNCE_MS\<rparr>)"

definition discovery_failed :: "nat \<Rightarrow> LsDiscovery \<times> world \<Rightarrow> bool \<times> LsDiscovery \<times> world" where
  "discovery_failed error = (\<lambda>(d, w). (False, ls_discovery_stop (d\<lparr>disc_last_errno := error\<rparr>, w)))"

text \<open>\<open>inet_pton(AF_INET, ...) == 1\<close> for the address of the interface.\<close>

definition interface_address :: "string \<Rightarrow> bool" where
  "interface_address s \<longleftrightarrow> length (split_dots s) = 4 \<and> list_all octet_text (split_dots s)"

definition ls_discovery_start :: "string \<Rightarrow> u64 \<Rightarrow> LsDiscovery \<times> world \<Rightarrow> bool \<times> LsDiscovery \<times> world" where
  "ls_discovery_start local_ip now_ms = (\<lambda>(_, w).
     (let d = zero_discovery in
      case do_socket w of
        (None, w) \<Rightarrow> (False, d\<lparr>disc_last_errno := w_errno w\<rparr>, w)
      | (Some fd, w) \<Rightarrow>
          (let d = d\<lparr>disc_socket_fd := fd\<rparr> in
           if fd < 0 then (False, d\<lparr>disc_last_errno := w_errno w\<rparr>, w)
           else case do_net w of
             (False, w) \<Rightarrow> discovery_failed (w_errno w) (d, w)
           | (True, w) \<Rightarrow>
               (case set_nonblocking w of
                  (False, w) \<Rightarrow> discovery_failed (w_errno w) (d, w)
                | (True, w) \<Rightarrow>
                    (case do_net w of
                       (False, w) \<Rightarrow> discovery_failed (w_errno w) (d, w)
                     | (True, w) \<Rightarrow>
                         (if \<not> interface_address LS3DS_MULTICAST_ADDRESS \<or> \<not> interface_address local_ip
                          then discovery_failed EINVAL (d, w)
                          else case do_net w of
                            (False, w) \<Rightarrow> discovery_failed (w_errno w) (d, w)
                          | (True, w) \<Rightarrow>
                              (case do_net w of
                                 (False, w) \<Rightarrow> discovery_failed (w_errno w) (d, w)
                               | (True, w) \<Rightarrow>
                                   (True,
                                    ls_discovery_announce now_ms
                                      (d\<lparr>disc_multicast_target := (LS3DS_MULTICAST_ADDRESS, LS3DS_MULTICAST_PORT),
                                         disc_running := True,
                                         next_periodic_ms := now_ms + LS3DS_PERIODIC_ANNOUNCE_MS\<rparr>),
                                    w))))))))"

section \<open>Announcing\<close>

text \<open>\<open>EAGAIN\<close> is the error number of a socket that takes nothing now.\<close>

definition sendto_errno :: "send_answer \<Rightarrow> world \<Rightarrow> nat" where
  "sendto_errno answer w = (case answer of SendAgain \<Rightarrow> EAGAIN | SendError n \<Rightarrow> n | SendSome _ \<Rightarrow> w_errno w)"

definition send_due_announcement :: "LsDevice \<Rightarrow> u64 \<Rightarrow> LsDiscovery \<times> world \<Rightarrow> LsDiscovery \<times> world" where
  "send_due_announcement identity now_ms = (\<lambda>(d, w).
     (if burst_index d \<ge> length burst_delays_ms \<or> now_ms < next_burst_ms d then (d, w)
      else case ls_protocol_write_announcement identity 512 of
        None \<Rightarrow> (d\<lparr>rejected_packets := rejected_packets d + 1, burst_index := length burst_delays_ms\<rparr>, w)
      | Some payload \<Rightarrow>
          (case do_send (disc_socket_fd d) payload w of
             (answer, w) \<Rightarrow>
               (let d = (if answer = SendSome (length payload) then d\<lparr>sent_packets := sent_packets d + 1\<rparr>
                         else d\<lparr>disc_last_errno := sendto_errno answer w\<rparr>);
                    d = d\<lparr>burst_index := burst_index d + 1\<rparr>
                in (if burst_index d < length burst_delays_ms
                    then d\<lparr>next_burst_ms := now_ms + burst_delays_ms ! burst_index d\<rparr> else d,
                    w)))))"

section \<open>Listening\<close>

definition take_announcement ::
    "LsDevice \<Rightarrow> u64 \<Rightarrow> string \<Rightarrow> string option \<Rightarrow> LsDiscovery \<times> LsDeviceRegistry \<Rightarrow> LsDiscovery \<times> LsDeviceRegistry" where
  "take_announcement identity now_ms payload source_ip = (\<lambda>(d, registry).
     (if payload = [] \<or> length payload > LS3DS_MAX_DATAGRAM_SIZE \<or> source_ip = None
      then (d\<lparr>rejected_packets := rejected_packets d + 1\<rparr>, registry)
      else
        (let d = d\<lparr>received_packets := received_packets d + 1\<rparr> in
         case ls_protocol_parse_device payload source_ip of
           Inl _ \<Rightarrow> (d\<lparr>rejected_packets := rejected_packets d + 1\<rparr>, registry)
         | Inr peer \<Rightarrow>
             (if fingerprint peer = fingerprint identity then (d, registry)
              else (d, snd (ls_registry_upsert peer now_ms registry))))))"

fun receive_announcements ::
    "nat \<Rightarrow> LsDevice \<Rightarrow> u64 \<Rightarrow> LsDiscovery \<times> LsDeviceRegistry \<times> world \<Rightarrow> LsDiscovery \<times> LsDeviceRegistry \<times> world" where
  "receive_announcements 0 identity now_ms st = st"
| "receive_announcements (Suc packets) identity now_ms (d, registry, w) =
     (case do_recvfrom (LS3DS_MAX_DATAGRAM_SIZE + 1) w of
        (UdpAgain, w) \<Rightarrow> (d, registry, w)
      | (UdpError n, w) \<Rightarrow> (if n \<noteq> EAGAIN then d\<lparr>disc_last_errno := n\<rparr> else d, registry, w)
      | (UdpPacket payload source_ip, w) \<Rightarrow>
          (case take_announcement identity now_ms payload source_ip (d, registry) of
             (d, registry) \<Rightarrow> receive_announcements packets identity now_ms (d, registry, w)))"

definition ls_discovery_update ::
    "LsDevice \<Rightarrow> u64 \<Rightarrow> LsDiscovery \<times> LsDeviceRegistry \<times> world \<Rightarrow> LsDiscovery \<times> LsDeviceRegistry \<times> world" where
  "ls_discovery_update identity now_ms = (\<lambda>(d, registry, w).
     (if \<not> disc_running d then (d, registry, w)
      else
        (let d = (if now_ms \<ge> next_periodic_ms d then ls_discovery_announce now_ms d else d) in
         case send_due_announcement identity now_ms (d, w) of
           (d, w) \<Rightarrow> receive_announcements 8 identity now_ms (d, registry, w))))"

section \<open>Announcing in time\<close>

fun discovery_run ::
    "LsDevice \<Rightarrow> u64 list \<Rightarrow> LsDiscovery \<times> LsDeviceRegistry \<times> world \<Rightarrow> LsDiscovery \<times> LsDeviceRegistry \<times> world" where
  "discovery_run identity [] st = st"
| "discovery_run identity (now # clock) st = discovery_run identity clock (ls_discovery_update identity now st)"

definition schedule :: "LsDiscovery \<Rightarrow> bool \<times> int \<times> nat \<times> u64 \<times> u64" where
  "schedule d = (disc_running d, disc_socket_fd d, burst_index d, next_burst_ms d, next_periodic_ms d)"

lemma take_announcement_schedule: "schedule (fst (take_announcement i now p s (d, r))) = schedule d"
  by (auto simp: take_announcement_def schedule_def Let_def split: sum.split)

lemma recvfrom_frame:
  "do_recvfrom n w = (a, w') \<Longrightarrow> w_wire w' = w_wire w \<and> w_send w' = w_send w \<and> w_fs w' = w_fs w \<and> w_io w' = w_io w"
  by (auto simp: do_recvfrom_def split: list.splits udp_answer.splits)

lemma receive_schedule:
  "receive_announcements n i now (d, r, w) = (d', r', w') \<Longrightarrow>
     schedule d' = schedule d \<and> w_wire w' = w_wire w \<and> w_send w' = w_send w \<and> w_fs w' = w_fs w \<and> w_io w' = w_io w"
proof (induction n i now "(d, r, w)" arbitrary: d r w rule: receive_announcements.induct)
  case (2 n i now d r w)
  obtain a v where u: "do_recvfrom (LS3DS_MAX_DATAGRAM_SIZE + 1) w = (a, v)" by (metis surj_pair)
  note f = recvfrom_frame [OF u]
  show ?case
  proof (cases a)
    case (UdpPacket p s)
    obtain e q where t: "take_announcement i now p s (d, r) = (e, q)" by (metis surj_pair)
    have "receive_announcements n i now (e, q, v) = (d', r', w')" using 2(2) u UdpPacket t by simp
    from 2(1) [OF u [symmetric] UdpPacket t [symmetric] this] f take_announcement_schedule [of i now p s d r] t
    show ?thesis by simp
  qed (use 2(2) u f in \<open>auto simp: schedule_def split: if_splits\<close>)
qed simp

text \<open>A running discovery whose socket takes the next \<open>n\<close> announcements.\<close>

definition announcing :: "int \<Rightarrow> nat \<Rightarrow> LsDiscovery \<times> LsDeviceRegistry \<times> world \<Rightarrow> bool" where
  "announcing fd n = (\<lambda>(d, r, w). disc_running d \<and> disc_socket_fd d = fd \<and> burst_index d \<le> 3 \<and>
     (\<exists>k \<ge> n. w_send w fd = replicate k (SendSome 512)))"

definition scheduled :: "u64 \<Rightarrow> LsDiscovery \<Rightarrow> LsDiscovery" where
  "scheduled now d = (if now \<ge> next_periodic_ms d then ls_discovery_announce now d else d)"

lemma update_announces:
  assumes "announcing fd (Suc n) (d, r, w)" and "length (announcement_text i) < 512"
    and "ls_discovery_update i now (d, r, w) = (d', r', w')"
  shows "announcing fd n (d', r', w') \<and> next_periodic_ms d' = next_periodic_ms (scheduled now d) \<and>
    (if burst_index (scheduled now d) < 3 \<and> next_burst_ms (scheduled now d) \<le> now
     then w_wire w' fd = w_wire w fd @ announcement_text i
     else w_wire w' fd = w_wire w fd \<and> burst_index d' = burst_index (scheduled now d) \<and>
       next_burst_ms d' = next_burst_ms (scheduled now d))"
proof -
  define e where "e = scheduled now d"
  from assms(1) obtain k where d: "disc_running d" "disc_socket_fd d = fd" "burst_index d \<le> 3" "Suc n \<le> k"
    "w_send w fd = replicate k (SendSome 512)" by (auto simp: announcing_def)
  have e: "disc_running e" "disc_socket_fd e = fd" "burst_index e \<le> 3"
    using d by (auto simp: e_def scheduled_def ls_discovery_announce_def)
  obtain f v where s: "send_due_announcement i now (e, w) = (f, v)" by (metis surj_pair)
  have u: "receive_announcements 8 i now (f, r, v) = (d', r', w')"
    using assms(3) d(1) s by (simp add: ls_discovery_update_def e_def scheduled_def)
  note r = receive_schedule [OF u]
  show ?thesis
  proof (cases "burst_index e < 3 \<and> next_burst_ms e \<le> now")
    case True
    let ?w = "w\<lparr>w_send := (w_send w)(fd := replicate (k - 1) (SendSome 512)),
      w_wire := (w_wire w)(fd := w_wire w fd @ announcement_text i)\<rparr>"
    have send: "do_send (disc_socket_fd e) (announcement_text i) w = (SendSome (length (announcement_text i)), ?w)"
      using assms(2) d(4,5) e(2) by (cases k) (simp_all add: do_send_def)
    have "ls_protocol_write_announcement i 512 = Some (announcement_text i)"
      using assms(2) by (simp add: write_announcement)
    moreover have "(burst_index e \<ge> length burst_delays_ms \<or> now < next_burst_ms e) = False"
      using True by (auto simp: burst_delays_ms_def)
    ultimately have "(f, v) = (let d = e\<lparr>sent_packets := sent_packets e + 1, burst_index := burst_index e + 1\<rparr>
        in (if burst_index d < length burst_delays_ms
            then d\<lparr>next_burst_ms := now + burst_delays_ms ! burst_index d\<rparr> else d, ?w))"
      by (simp only: s [symmetric] send_due_announcement_def prod.case if_False option.case send Let_def refl if_True)
        (simp add: Let_def)
    then have "v = ?w \<and> disc_running f \<and> disc_socket_fd f = fd \<and> burst_index f = burst_index e + 1 \<and>
        next_periodic_ms f = next_periodic_ms e"
      using e by (simp add: Let_def split: if_splits)
    then show ?thesis using r True d(4) by (auto simp: announcing_def schedule_def e_def [symmetric])
  next
    case False
    then have "(burst_index e \<ge> length burst_delays_ms \<or> now < next_burst_ms e) = True"
      by (auto simp: burst_delays_ms_def not_le)
    then have "(f, v) = (e, w)"
      by (simp only: s [symmetric] send_due_announcement_def prod.case if_True)
    then have "f = e" "v = w" by simp_all
    then show ?thesis using r False d e by (auto simp: announcing_def schedule_def e_def [symmetric])
  qed
qed

lemma run_announces:
  assumes "announcing fd (n + length clock) (d, r, w)" and "length (announcement_text i) < 512"
    and "discovery_run i clock (d, r, w) = (d', r', w')"
  shows "announcing fd n (d', r', w') \<and> (\<exists>k. w_wire w' fd = w_wire w fd @ concat (replicate k (announcement_text i)))"
  using assms(1,3)
proof (induction clock arbitrary: d r w)
  case Nil
  then show ?case by (auto intro: exI [of _ 0])
next
  case (Cons now clock)
  obtain e q v where u: "ls_discovery_update i now (d, r, w) = (e, q, v)" by (metis surj_pair)
  have a: "announcing fd (Suc (n + length clock)) (d, r, w)" using Cons.prems(1) by simp
  note s = update_announces [OF a assms(2) u]
  have c: "announcing fd (n + length clock) (e, q, v)" using s by simp
  have "discovery_run i clock (e, q, v) = (d', r', w')" using Cons.prems(2) u by simp
  from Cons.IH [OF c this] obtain k where k: "announcing fd n (d', r', w')"
    "w_wire w' fd = w_wire v fd @ concat (replicate k (announcement_text i))" by blast
  have "w_wire v fd = w_wire w fd @ announcement_text i \<or> w_wire v fd = w_wire w fd" using s by (auto split: if_splits)
  then show ?case
  proof
    assume "w_wire v fd = w_wire w fd @ announcement_text i"
    with k show ?thesis by (intro conjI exI [of _ "Suc k"]) simp_all
  qed (use k in auto)
qed

definition announced :: "int \<Rightarrow> string \<Rightarrow> world \<Rightarrow> world \<Rightarrow> bool" where
  "announced fd message w w' \<longleftrightarrow> (\<exists>k. w_wire w' fd = w_wire w fd @ concat (replicate (Suc k) message))"

lemma sent_then_announced:
  assumes "announcing fd (length clock) (d, r, v)" and "length (announcement_text i) < 512"
    and "discovery_run i clock (d, r, v) = (d', r', w')" and "w_wire v fd = w_wire w fd @ announcement_text i"
  shows "announced fd (announcement_text i) w w'"
  using run_announces [of fd 0 clock d r v i d' r' w'] assms by (auto simp: announced_def)

text \<open>After a burst has been scheduled at \<open>s\<close> the next update from \<open>s + 100\<close> on sends.\<close>

lemma burst_sends:
  assumes "announcing fd (length clock) (d, r, w)" and "length (announcement_text i) < 512"
    and "discovery_run i clock (d, r, w) = (d', r', w')"
    and "burst_index d < 3" "unat (next_burst_ms d) = s + 100" "unat (next_periodic_ms d) = s + 15000"
    and "paced gap (t # clock)" "unat t < s + 100" "gap \<le> 14900" "s + 100 \<le> unat (last (t # clock))"
  shows "announced fd (announcement_text i) w w'"
  using assms(1,3-8,10)
proof (induction clock arbitrary: t d r w)
  case Nil
  then show ?case by simp
next
  case (Cons now clock)
  obtain e q v where u: "ls_discovery_update i now (d, r, w) = (e, q, v)" by (metis surj_pair)
  have a: "announcing fd (Suc (length clock)) (d, r, w)" using Cons.prems(1) by simp
  have run: "discovery_run i clock (e, q, v) = (d', r', w')" using Cons.prems(2) u by simp
  have p: "unat t \<le> unat now" "unat now \<le> unat t + gap" "paced gap (now # clock)"
    using Cons.prems(6) by (simp_all add: paced_def)
  then have "\<not> next_periodic_ms d \<le> now" using Cons.prems(5,7) assms(9) by (simp add: word_le_nat_alt)
  then have sch: "scheduled now d = d" by (simp add: scheduled_def)
  note s = update_announces [OF a assms(2) u, unfolded sch]
  show ?case
  proof (cases "next_burst_ms d \<le> now")
    case True
    with s Cons.prems(3) sent_then_announced [OF _ assms(2) run, of fd w] show ?thesis by simp
  next
    case False
    then have lt: "unat now < s + 100" using Cons.prems(4) by (simp add: word_le_nat_alt)
    with s False Cons.prems have ih: "announcing fd (length clock) (e, q, v)" "burst_index e < 3"
      "unat (next_burst_ms e) = s + 100" "unat (next_periodic_ms e) = s + 15000" "w_wire v fd = w_wire w fd"
      "s + 100 \<le> unat (last (now # clock))" by auto
    from Cons.IH [OF ih(1) run ih(2-4) p(3) lt ih(6)] ih(5) show ?thesis by (simp add: announced_def)
  qed
qed

lemma period_sends:
  assumes "announcing fd (length clock) (d, r, w)" and "length (announcement_text i) < 512"
    and "discovery_run i clock (d, r, w) = (d', r', w')"
    and "paced gap (t # clock)" "gap \<le> 14900" "unat (last (t # clock)) + 15000 < 2 ^ 64"
    and "max (unat t) (unat (next_periodic_ms d)) + gap + 100 \<le> unat (last (t # clock))"
  shows "announced fd (announcement_text i) w w'"
  using assms(1,3,4,6,7)
proof (induction clock arbitrary: t d r w)
  case Nil
  then show ?case by simp
next
  case (Cons now clock)
  obtain e q v where u: "ls_discovery_update i now (d, r, w) = (e, q, v)" by (metis surj_pair)
  have a: "announcing fd (Suc (length clock)) (d, r, w)" using Cons.prems(1) by simp
  have run: "discovery_run i clock (e, q, v) = (d', r', w')" using Cons.prems(2) u by simp
  have p: "unat t \<le> unat now" "unat now \<le> unat t + gap" "paced gap (now # clock)"
    using Cons.prems(3) by (simp_all add: paced_def)
  have l: "last (t # now # clock) = last (now # clock)" by simp
  note s = update_announces [OF a assms(2) u]
  show ?case
  proof (cases "burst_index (scheduled now d) < 3 \<and> next_burst_ms (scheduled now d) \<le> now")
    case True
    with s sent_then_announced [OF _ assms(2) run, of fd w] show ?thesis by simp
  next
    case wait: False
    then have w: "w_wire v fd = w_wire w fd" and c: "announcing fd (length clock) (e, q, v)"
      and e: "burst_index e = burst_index (scheduled now d)" "next_burst_ms e = next_burst_ms (scheduled now d)"
        "next_periodic_ms e = next_periodic_ms (scheduled now d)" using s by auto
    show ?thesis
    proof (cases "next_periodic_ms d \<le> now")
      case True
      have run': "disc_running d" using Cons.prems(1) by (simp add: announcing_def)
      have "unat now \<le> unat (last (now # clock))"
        using Cons.prems(5) p(2) l by simp
      then have "unat now + 15000 < 2 ^ 64" using Cons.prems(4) l by simp
      then have "unat (now + 100) = unat now + 100" "unat (now + 15000) = unat now + 15000"
        by (simp_all add: unat_word_ariths)
      moreover have "burst_index e = 0" "next_burst_ms e = now + 100" "next_periodic_ms e = now + 15000"
        using e True run' by (simp_all add: scheduled_def ls_discovery_announce_def burst_delays_ms_def LS3DS_PERIODIC_ANNOUNCE_MS_def)
      ultimately have f: "burst_index e < 3" "unat (next_burst_ms e) = unat now + 100"
        "unat (next_periodic_ms e) = unat now + 15000" by simp_all
      have "unat now + 100 \<le> unat (last (now # clock))" using Cons.prems(5) p(2) l by simp
      from burst_sends [OF c assms(2) run f p(3) _ assms(5) this] w show ?thesis by (simp add: announced_def)
    next
      case False
      then have n: "next_periodic_ms e = next_periodic_ms d" "unat now < unat (next_periodic_ms d)"
        using e by (simp_all add: scheduled_def word_le_nat_alt)
      then have "max (unat now) (unat (next_periodic_ms e)) + gap + 100 \<le> unat (last (now # clock))"
        using Cons.prems(5) l by simp
      from Cons.IH [OF c run p(3) _ this] Cons.prems(4) l w show ?thesis by (simp add: announced_def)
    qed
  qed
qed

lemma discovery_run_append: "discovery_run i (xs @ ys) st = discovery_run i ys (discovery_run i xs st)"
  by (induction xs arbitrary: st) simp_all

lemma run_periodic:
  assumes "announcing fd (n + length clock) (d, r, w)" and "length (announcement_text i) < 512"
    and "discovery_run i clock (d, r, w) = (d', r', w')"
    and "unat (next_periodic_ms d) \<le> unat t + 15000" "paced gap (t # clock)" "unat (last (t # clock)) + 15000 < 2 ^ 64"
  shows "unat (next_periodic_ms d') \<le> unat (last (t # clock)) + 15000"
  using assms(1,3-6)
proof (induction clock arbitrary: t d r w)
  case (Cons now clock)
  obtain e q v where u: "ls_discovery_update i now (d, r, w) = (e, q, v)" by (metis surj_pair)
  have a: "announcing fd (Suc (n + length clock)) (d, r, w)" using Cons.prems(1) by simp
  note s = update_announces [OF a assms(2) u]
  have p: "unat t \<le> unat now" "paced gap (now # clock)" using Cons.prems(4) by (simp_all add: paced_def)
  have l: "last (t # now # clock) = last (now # clock)" by simp
  have "unat now + 15000 < 2 ^ 64" using paced_last [OF p(2)] Cons.prems(5) l by simp
  then have "unat (next_periodic_ms (scheduled now d)) \<le> unat now + 15000"
    using p(1) Cons.prems(1,3)
    by (simp add: scheduled_def ls_discovery_announce_def announcing_def LS3DS_PERIODIC_ANNOUNCE_MS_def unat_word_ariths)
  then have n: "unat (next_periodic_ms e) \<le> unat now + 15000" using s by simp
  have run: "discovery_run i clock (e, q, v) = (d', r', w')" using Cons.prems(2) u by simp
  from Cons.IH [OF _ run n p(2)] s Cons.prems(5) l show ?case by simp
qed simp

lemma announces_in_time:
  assumes "announcing fd (length xs + length ys) (d, r, w)" and "length (announcement_text i) < 512"
    and "unat (next_periodic_ms d) \<le> unat t + 15000" and "paced gap (t # xs @ ys)" "gap \<le> 14900"
    and "unat (last (t # xs @ ys)) + 15000 < 2 ^ 64"
    and "unat (last (t # xs)) + 15100 + gap \<le> unat (last (t # xs @ ys))"
    and "discovery_run i xs (d, r, w) = (e, q, v)" and "discovery_run i ys (e, q, v) = (d', r', w')"
  shows "announced fd (announcement_text i) v w'"
proof -
  note p = paced_append [OF assms(4)]
  have l: "last (t # xs @ ys) = last (last (t # xs) # ys)" by (cases ys) simp_all
  have x: "unat (last (t # xs)) \<le> unat (last (last (t # xs) # ys))" using p by (blast intro: paced_last)
  have c: "announcing fd (length ys) (e, q, v)"
    using run_announces [of fd "length ys" xs d r w i e q v] assms(1,2,8) by (simp add: add.commute)
  have "unat (next_periodic_ms e) \<le> unat (last (t # xs)) + 15000"
    using run_periodic [of fd "length ys" xs d r w i e q v t gap] assms(1-3,6,8) p x l by (simp add: add.commute)
  then have "max (unat (last (t # xs))) (unat (next_periodic_ms e)) + gap + 100 \<le> unat (last (last (t # xs) # ys))"
    using assms(7) l by simp
  from period_sends [OF c assms(2,9) conjunct2 [OF p] assms(5) _ this] assms(6) l show ?thesis by simp
qed

lemma discovery_started:
  assumes "ls_discovery_start ip t (x, w) = (True, d, w')"
  shows "disc_running d \<and> burst_index d = 0 \<and> next_periodic_ms d = t + 15000 \<and> 0 \<le> disc_socket_fd d \<and>
    w_send w' = w_send w \<and> w_wire w' = w_wire w \<and> w_fs w' = w_fs w"
  using assms
  by (auto simp: ls_discovery_start_def Let_def discovery_failed_def ls_discovery_announce_def burst_delays_ms_def
      LS3DS_PERIODIC_ANNOUNCE_MS_def set_nonblocking_def do_net_def do_socket_def next_io_def
      split: prod.splits bool.splits option.splits if_splits io_answer.splits list.splits)

section \<open>The registry\<close>

text \<open>What a datagram, and an update, does to the registry: sightings of other devices.\<close>

definition foreign :: "LsDevice \<Rightarrow> LsDeviceRegistry \<Rightarrow> bool" where
  "foreign identity r \<longleftrightarrow> registry_wf r \<and> (\<forall>d \<in> set r. fingerprint d \<noteq> fingerprint identity)"

lemma foreign_upsert:
  assumes "foreign i r" and "fingerprint p \<noteq> fingerprint i"
  shows "foreign i (snd (ls_registry_upsert p now r))"
proof -
  have "set (snd (ls_registry_upsert p now r)) \<subseteq> insert (p\<lparr>last_seen_ms := now\<rparr>) (set r)"
    by (auto simp: ls_registry_upsert_def Let_def split: option.split dest!: subsetD [OF set_update_subset_insert])
  then show ?thesis using assms wf_upsert by (auto simp: foreign_def)
qed

lemma take_announcement_foreign:
  "foreign i r \<Longrightarrow> foreign i (snd (take_announcement i now p s (d, r)))"
  by (auto simp: take_announcement_def Let_def intro: foreign_upsert split: sum.split)

lemma receive_foreign:
  "foreign i r \<Longrightarrow> receive_announcements n i now (d, r, w) = (d', r', w') \<Longrightarrow> foreign i r'"
proof (induction n i now "(d, r, w)" arbitrary: d r w rule: receive_announcements.induct)
  case (2 n i now d r w)
  obtain a v where u: "do_recvfrom (LS3DS_MAX_DATAGRAM_SIZE + 1) w = (a, v)" by (metis surj_pair)
  show ?case
  proof (cases a)
    case (UdpPacket p s)
    obtain e q where t: "take_announcement i now p s (d, r) = (e, q)" by (metis surj_pair)
    have run: "receive_announcements n i now (e, q, v) = (d', r', w')" using 2(3) u UdpPacket t by simp
    have "foreign i q" using take_announcement_foreign [OF 2(2), of now p s d] t by simp
    from 2(1) [OF u [symmetric] UdpPacket t [symmetric] this run] show ?thesis .
  qed (use 2(2,3) u in auto)
qed simp

lemma update_foreign:
  assumes "foreign i r" and "ls_discovery_update i now (d, r, w) = (d', r', w')"
  shows "foreign i r'"
  using assms receive_foreign by (auto simp: ls_discovery_update_def Let_def split: if_splits prod.splits)

text \<open>The announcement this program sends is what makes another one list it.\<close>

lemma neighbour_listed:
  assumes "disc_running d" and "foreign i r" and "device_message_wf p" "length (announcement_text p) < 512"
    and "fingerprint p \<noteq> fingerprint i" and "length a < LS3DS_IPV4_CAPACITY"
    and "w_udp w = [UdpPacket (announcement_text p) (Some a)]"
    and "ls_discovery_update i now (d, r, w) = (d', r', w')"
  shows "registry_lookup r' (fingerprint p) = Some ((received_device p True (Some a))\<lparr>last_seen_ms := now\<rparr>)"
proof -
  let ?peer = "received_device p True (Some a)"
  obtain e v where s: "send_due_announcement i now
      (if now \<ge> next_periodic_ms d then ls_discovery_announce now d else d, w) = (e, v)" by (metis surj_pair)
  have "w_udp v = w_udp w"
    using s by (auto simp: send_due_announcement_def do_send_def Let_def
        split: if_splits option.splits list.splits send_answer.splits prod.splits)
  then have u: "do_recvfrom 2049 v = (UdpPacket (announcement_text p) (Some a), v\<lparr>w_udp := []\<rparr>)"
    using assms(4,7) by (simp add: do_recvfrom_def)
  have parse: "ls_protocol_parse_device (announcement_text p) (Some a) = Inr ?peer"
    using announcement_roundtrip [OF assms(3)] assms(6) by simp
  then have "announcement_text p \<noteq> []" by (auto simp: ls_protocol_parse_device_def)
  moreover have f: "fingerprint ?peer = fingerprint p" by (simp add: received_device_def)
  ultimately have t: "take_announcement i now (announcement_text p) (Some a) (e, r) =
      (e\<lparr>received_packets := received_packets e + 1\<rparr>, snd (ls_registry_upsert ?peer now r))"
    using assms(4,5) parse by (simp add: take_announcement_def)
  have "receive_announcements 7 i now (x, y, v\<lparr>w_udp := []\<rparr>) = (x, y, v\<lparr>w_udp := []\<rparr>)" for x y
    by (simp add: numeral_eq_Suc do_recvfrom_def)
  then have "receive_announcements 8 i now (e, r, v) =
      (e\<lparr>received_packets := received_packets e + 1\<rparr>, snd (ls_registry_upsert ?peer now r), v\<lparr>w_udp := []\<rparr>)"
    using u t by (simp add: receive_announcements.simps(2) [of 7, simplified])
  then have "r' = snd (ls_registry_upsert ?peer now r)"
    using assms(1,8) s by (simp add: ls_discovery_update_def Let_def)
  then show ?thesis using lookup_upsert [of r ?peer now] assms(2,3) f by (simp add: foreign_def device_message_wf_def)
qed

end
