(* ===== verification/File_Browser.thy ===== *)
theory File_Browser
  imports Device World "HOL-Library.Multiset"
begin

text \<open>
  \<open>file_browser.c\<close>. The names \<open>readdir\<close> delivers for a directory, and their order, are the C library's: they
  are the field \<open>dir_names\<close> of the parameter \<open>lib\<close>, a function of what is on the card. \<open>qsort\<close> is its field
  \<open>dir_sort\<close>; \<open>sorts_entries\<close> states what the standard promises of it, which leaves the order of entries that
  compare equal open. The array of entries and its count are the list of the entries.
\<close>

definition LS3DS_FILE_BROWSER_MAX_ENTRIES :: nat where [simp, cap_defs]: "LS3DS_FILE_BROWSER_MAX_ENTRIES = 64"

record LsFileBrowserEntry =
  fe_name :: string
  fe_is_directory :: bool
  fe_size :: u64

record LsFileBrowser =
  fb_root :: string
  fb_current_path :: string
  fb_entries :: "LsFileBrowserEntry list"
  fb_selected :: nat
  fb_truncated :: bool
  fb_error :: string

record dir_library =
  dir_names :: "(string \<rightharpoonup> fs_node) \<Rightarrow> string \<Rightarrow> string list"
  dir_sort :: "LsFileBrowserEntry list \<Rightarrow> LsFileBrowserEntry list"

definition zero_browser :: LsFileBrowser where
  "zero_browser = \<lparr>fb_root = [], fb_current_path = [], fb_entries = [], fb_selected = 0, fb_truncated = False, fb_error = []\<rparr>"

definition copy_text :: "nat \<Rightarrow> string \<Rightarrow> string option" where
  "copy_text capacity input = (if capacity = 0 \<or> length input \<ge> capacity then None else Some input)"

definition join_path :: "string \<Rightarrow> string \<Rightarrow> nat \<Rightarrow> string option" where
  "join_path directory name capacity =
     (if directory = [] \<or> name = [] then None
      else
        (let joined = (if last directory = CHR ''/'' then directory @ name else directory @ ''/'' @ name)
         in if length joined < capacity then Some joined else None))"

section \<open>The order of the entries\<close>

fun strcasecmp :: "string \<Rightarrow> string \<Rightarrow> int" where
  "strcasecmp [] [] = 0"
| "strcasecmp [] (d # t) = - int (byte (tolower d))"
| "strcasecmp (c # s) [] = int (byte (tolower c))"
| "strcasecmp (c # s) (d # t) =
     (if tolower c = tolower d then strcasecmp s t else int (byte (tolower c)) - int (byte (tolower d)))"

definition compare_entries :: "LsFileBrowserEntry \<Rightarrow> LsFileBrowserEntry \<Rightarrow> int" where
  "compare_entries left right =
     (if fe_is_directory left \<noteq> fe_is_directory right then (if fe_is_directory left then - 1 else 1)
      else strcasecmp (fe_name left) (fe_name right))"

definition sorts_entries :: "(LsFileBrowserEntry list \<Rightarrow> LsFileBrowserEntry list) \<Rightarrow> bool" where
  "sorts_entries qsort \<longleftrightarrow>
     (\<forall>es. (\<forall>e \<in> set es. nul_free (fe_name e)) \<longrightarrow> mset (qsort es) = mset es \<and> sorted_wrt (\<lambda>a b. compare_entries a b \<le> 0) (qsort es))"

section \<open>Listing a directory\<close>

definition do_opendir :: "string \<Rightarrow> world \<Rightarrow> nat option \<times> world" where
  "do_opendir p w =
     (case next_io w of
        (IoFail _, w) \<Rightarrow> (Some (errno_number EIO), snd (failing Some EIO w))
      | (IoOk, w) \<Rightarrow>
          (case w_fs w p of
             Some DirNode \<Rightarrow> (None, w)
           | Some (FileNode _) \<Rightarrow> (Some 20, w\<lparr>w_errno := 20\<rparr>)
           | None \<Rightarrow> (Some (errno_number ENOENT), snd (failing Some ENOENT w))))"

definition entry_of :: "string \<Rightarrow> fs_node \<Rightarrow> LsFileBrowserEntry" where
  "entry_of name node =
     (case node of
        DirNode \<Rightarrow> \<lparr>fe_name = name, fe_is_directory = True, fe_size = 0\<rparr>
      | FileNode d \<Rightarrow> \<lparr>fe_name = name, fe_is_directory = False, fe_size = of_nat (length d)\<rparr>)"

text \<open>One name of the directory; \<open>None\<close> where the loop skips it.\<close>

definition look_at_entry :: "string \<Rightarrow> string \<Rightarrow> world \<Rightarrow> LsFileBrowserEntry option \<times> world" where
  "look_at_entry directory name w =
     (if name = ''.'' \<or> name = ''..'' \<or> name = [] \<or> length name \<ge> LS3DS_FILENAME_CAPACITY then (None, w)
      else case join_path directory name LS3DS_PATH_CAPACITY of
        None \<Rightarrow> (None, w)
      | Some path \<Rightarrow>
          (case do_stat path w of
             (Inl _, w) \<Rightarrow> (None, w)
           | (Inr node, w) \<Rightarrow> (Some (entry_of name node), w)))"

fun list_entries :: "string \<Rightarrow> string list \<Rightarrow> LsFileBrowserEntry list \<times> bool \<Rightarrow> world \<Rightarrow>
    (LsFileBrowserEntry list \<times> bool) \<times> world" where
  "list_entries directory [] st w = (st, w)"
| "list_entries directory (name # names) (entries, truncated) w =
     (case look_at_entry directory name w of
        (None, w) \<Rightarrow> list_entries directory names (entries, truncated) w
      | (Some item, w) \<Rightarrow>
          (if length entries = LS3DS_FILE_BROWSER_MAX_ENTRIES then list_entries directory names (entries, True) w
           else list_entries directory names (entries @ [item], truncated) w))"

definition ls_file_browser_refresh :: "dir_library \<Rightarrow> LsFileBrowser \<Rightarrow> world \<Rightarrow> bool \<times> LsFileBrowser \<times> world" where
  "ls_file_browser_refresh lib browser w =
     (if fb_current_path browser = [] then (False, browser, w)
      else
        (let browser = browser\<lparr>fb_entries := [], fb_selected := 0, fb_truncated := False, fb_error := []\<rparr> in
         case do_opendir (fb_current_path browser) w of
           (Some n, w) \<Rightarrow>
             (False, browser\<lparr>fb_error := ''Cannot open directory (errno '' @ dec n @ '')''\<rparr>, w)
         | (None, w) \<Rightarrow>
             (case list_entries (fb_current_path browser) (dir_names lib (w_fs w) (fb_current_path browser)) ([], False) w of
                ((entries, truncated), w) \<Rightarrow>
                  (let browser = browser\<lparr>fb_entries := entries, fb_truncated := truncated\<rparr> in
                   case do_simple w of
                     (False, w) \<Rightarrow>
                       (False, browser\<lparr>fb_error := ''Cannot close directory (errno '' @ dec (w_errno w) @ '')''\<rparr>, w)
                   | (True, w) \<Rightarrow> (True, browser\<lparr>fb_entries := dir_sort lib entries\<rparr>, w)))))"

section \<open>Moving about\<close>

fun strip_root :: "string \<Rightarrow> string" where
  "strip_root r =
     (if length r > 1 \<and> last r = CHR ''/'' \<and> last (butlast r) \<noteq> CHR '':'' then strip_root (butlast r) else r)"

definition ls_file_browser_init :: "dir_library \<Rightarrow> string \<Rightarrow> LsFileBrowser \<Rightarrow> world \<Rightarrow> bool \<times> LsFileBrowser \<times> world" where
  "ls_file_browser_init lib root browser w =
     (if root = [] then (False, browser, w)
      else
        (let root = strip_root root in
         if length root \<ge> LS3DS_PATH_CAPACITY then (False, zero_browser, w)
         else ls_file_browser_refresh lib (zero_browser\<lparr>fb_root := root, fb_current_path := root\<rparr>) w))"

definition ls_file_browser_get :: "LsFileBrowser \<Rightarrow> nat \<Rightarrow> LsFileBrowserEntry option" where
  "ls_file_browser_get browser index = (if index \<ge> length (fb_entries browser) then None else Some (fb_entries browser ! index))"

definition ls_file_browser_enter :: "dir_library \<Rightarrow> nat \<Rightarrow> LsFileBrowser \<Rightarrow> world \<Rightarrow> bool \<times> LsFileBrowser \<times> world" where
  "ls_file_browser_enter lib index browser w =
     (case ls_file_browser_get browser index of
        None \<Rightarrow> (False, browser, w)
      | Some entry \<Rightarrow>
          (if \<not> fe_is_directory entry then (False, browser, w)
           else case join_path (fb_current_path browser) (fe_name entry) LS3DS_PATH_CAPACITY of
             None \<Rightarrow> (False, browser, w)
           | Some path \<Rightarrow>
               (let previous = fb_current_path browser in
                case ls_file_browser_refresh lib (browser\<lparr>fb_current_path := path\<rparr>) w of
                  (True, browser, w) \<Rightarrow> (True, browser, w)
                | (False, browser, w) \<Rightarrow>
                    (case ls_file_browser_refresh lib (browser\<lparr>fb_current_path := previous\<rparr>) w of
                       (_, browser, w) \<Rightarrow> (False, browser, w)))))"

text \<open>The text up to the last slash, if there is one: \<open>strrchr\<close>.\<close>

definition before_last_slash :: "string \<Rightarrow> string option" where
  "before_last_slash s =
     (if CHR ''/'' \<notin> set s then None else Some (rev (tl (dropWhile (\<lambda>c. c \<noteq> CHR ''/'') (rev s)))))"

definition ls_file_browser_parent :: "dir_library \<Rightarrow> LsFileBrowser \<Rightarrow> world \<Rightarrow> bool \<times> LsFileBrowser \<times> world" where
  "ls_file_browser_parent lib browser w =
     (if fb_current_path browser = fb_root browser then (False, browser, w)
      else
        (let path = (case before_last_slash (fb_current_path browser) of
                       None \<Rightarrow> fb_root browser
                     | Some p \<Rightarrow> if length p < length (fb_root browser) then fb_root browser else p)
         in ls_file_browser_refresh lib (browser\<lparr>fb_current_path := path\<rparr>) w))"

text \<open>The path, the name and the size of the selected file.\<close>

definition ls_file_browser_selected_file :: "LsFileBrowser \<Rightarrow> nat \<Rightarrow> nat \<Rightarrow> (string \<times> string \<times> u64) option" where
  "ls_file_browser_selected_file browser path_capacity name_capacity =
     (case ls_file_browser_get browser (fb_selected browser) of
        None \<Rightarrow> None
      | Some entry \<Rightarrow>
          (if fe_is_directory entry then None
           else case join_path (fb_current_path browser) (fe_name entry) path_capacity of
             None \<Rightarrow> None
           | Some path \<Rightarrow>
               (case copy_text name_capacity (fe_name entry) of
                  None \<Rightarrow> None
                | Some name \<Rightarrow> Some (path, name, fe_size entry))))"

section \<open>What a listing shows\<close>

definition joined :: "string \<Rightarrow> string \<Rightarrow> string" where
  "joined directory name = (if last directory = CHR ''/'' then directory @ name else directory @ ''/'' @ name)"

definition entry_name :: "string \<Rightarrow> bool" where
  "entry_name n \<longleftrightarrow> n \<noteq> [] \<and> n \<noteq> ''.'' \<and> n \<noteq> ''..'' \<and> length n < LS3DS_FILENAME_CAPACITY"

lemma join_path_joined:
  "join_path d n c = (if d = [] \<or> n = [] \<or> length (joined d n) \<ge> c then None else Some (joined d n))"
  by (auto simp: join_path_def joined_def Let_def)

definition library_ok :: "dir_library \<Rightarrow> bool" where
  "library_ok lib \<longleftrightarrow> sorts_entries (dir_sort lib) \<and> (\<forall>fs p. \<forall>n \<in> set (dir_names lib fs p). CHR ''/'' \<notin> set n \<and> nul_free n)"

text \<open>An entry shows what is on the card under its name.\<close>

definition entry_at :: "(string \<rightharpoonup> fs_node) \<Rightarrow> string \<Rightarrow> string \<Rightarrow> LsFileBrowserEntry option" where
  "entry_at fs directory n =
     (if entry_name n \<and> length (joined directory n) < LS3DS_PATH_CAPACITY then map_option (entry_of n) (fs (joined directory n))
      else None)"

lemma entry_of_name [simp]: "fe_name (entry_of n node) = n"
  by (cases node) (simp_all add: entry_of_def)

lemma entry_at_name: "entry_at fs d n = Some e \<Longrightarrow> fe_name e = n"
  by (auto simp: entry_at_def split: if_splits)

lemma look_at_entry_true:
  assumes "look_at_entry d n w = (r, w')" and "d \<noteq> []"
  shows "w_fs w' = w_fs w \<and> (r \<noteq> None \<longrightarrow> r = entry_at (w_fs w) d n) \<and>
    (w_io w = [] \<longrightarrow> w_io w' = [] \<and> r = entry_at (w_fs w) d n)"
proof (cases "entry_name n \<and> length (joined d n) < LS3DS_PATH_CAPACITY")
  case False
  with assms have "r = None" "w' = w"
    by (auto simp: look_at_entry_def entry_name_def join_path_joined split: if_splits)
  with False show ?thesis by (auto simp: entry_at_def)
next
  case True
  obtain a v where s: "do_stat (joined d n) w = (a, v)" by (metis surj_pair)
  from True assms s have r: "w' = v" "r = (case a of Inl _ \<Rightarrow> None | Inr node \<Rightarrow> Some (entry_of n node))"
    by (auto simp: look_at_entry_def entry_name_def join_path_joined split: sum.splits)
  have "w_io w = [] \<Longrightarrow> w_io v = [] \<and> (w_fs w (joined d n) = None \<and> (\<exists>e. a = Inl e) \<or> (\<exists>node. w_fs w (joined d n) = Some node \<and> a = Inr node))"
    using s by (auto simp: do_stat_def next_io_def failing_def split: option.splits)
  with r stat_fs [OF s] True show ?thesis by (cases a) (auto simp: entry_at_def)
qed

text \<open>What the loop over the names has found so far.\<close>

definition listed :: "world \<Rightarrow> string \<Rightarrow> LsFileBrowserEntry list \<times> bool \<Rightarrow> bool" where
  "listed w d = (\<lambda>(es, tr). length es \<le> LS3DS_FILE_BROWSER_MAX_ENTRIES \<and>
     (tr \<longrightarrow> length es = LS3DS_FILE_BROWSER_MAX_ENTRIES) \<and> (\<forall>e \<in> set es. entry_at (w_fs w) d (fe_name e) = Some e))"

lemma list_entries_listed:
  "list_entries d names st w = (st', w') \<Longrightarrow> d \<noteq> [] \<Longrightarrow> listed w d st \<Longrightarrow>
     w_fs w' = w_fs w \<and> listed w d st' \<and> set (fst st) \<subseteq> set (fst st') \<and>
     fe_name ` set (fst st') \<subseteq> fe_name ` set (fst st) \<union> set names"
proof (induction d names st w rule: list_entries.induct)
  case (2 d n names es tr w)
  obtain r v where l: "look_at_entry d n w = (r, v)" by (metis surj_pair)
  note ll = look_at_entry_true [OF l 2(5)]
  have keep: "listed v d x \<longleftrightarrow> listed w d x" for x using ll by (simp add: listed_def)
  show ?case
  proof (cases r)
    case None
    with 2(4) l have "list_entries d names (es, tr) v = (st', w')" by simp
    from 2(1) [OF l [symmetric] None this 2(5)] 2(6) ll keep show ?thesis by auto
  next
    case (Some e)
    then have e: "entry_at (w_fs w) d n = Some e" using ll by auto
    note n = entry_at_name [OF e]
    show ?thesis
    proof (cases "length es = LS3DS_FILE_BROWSER_MAX_ENTRIES")
      case True
      with 2(4) l Some have r: "list_entries d names (es, True) v = (st', w')" by simp
      have "listed w d (es, True)" using 2(6) True by (simp add: listed_def)
      with 2(2) [OF l [symmetric] Some True r 2(5)] ll keep show ?thesis by auto
    next
      case False
      with 2(4) l Some have r: "list_entries d names (es @ [e], tr) v = (st', w')" by simp
      have "listed w d (es @ [e], tr)" using 2(6) False e n by (auto simp: listed_def)
      with 2(3) [OF l [symmetric] Some False r 2(5)] ll keep n show ?thesis by auto
    qed
  qed
qed auto

lemma list_entries_complete:
  "list_entries d names st w = (st', w') \<Longrightarrow> d \<noteq> [] \<Longrightarrow> w_io w = [] \<Longrightarrow>
     w_io w' = [] \<and> (snd st \<longrightarrow> snd st') \<and> set (fst st) \<subseteq> set (fst st') \<and>
     (\<not> snd st' \<longrightarrow> n \<in> set names \<longrightarrow> entry_at (w_fs w) d n = Some e \<longrightarrow> e \<in> set (fst st'))"
proof (induction d names st w rule: list_entries.induct)
  case (2 d m names es tr w)
  obtain r v where l: "look_at_entry d m w = (r, v)" by (metis surj_pair)
  note ll = look_at_entry_true [OF l 2(5)]
  then have v: "w_io v = []" "w_fs v = w_fs w" "r = entry_at (w_fs w) d m" using 2(6) by auto
  show ?case
  proof (cases r)
    case None
    with 2(4) l have "list_entries d names (es, tr) v = (st', w')" by simp
    from 2(1) [OF l [symmetric] None this 2(5) v(1)] v None show ?thesis by auto
  next
    case (Some x)
    show ?thesis
    proof (cases "length es = LS3DS_FILE_BROWSER_MAX_ENTRIES")
      case True
      with 2(4) l Some have r: "list_entries d names (es, True) v = (st', w')" by simp
      from 2(2) [OF l [symmetric] Some True r 2(5) v(1)] v Some show ?thesis by auto
    next
      case False
      with 2(4) l Some have r: "list_entries d names (es @ [x], tr) v = (st', w')" by simp
      from 2(3) [OF l [symmetric] Some False r 2(5) v(1)] v Some show ?thesis by auto
    qed
  qed
qed auto

section \<open>Refreshing\<close>

definition shows_directory :: "dir_library \<Rightarrow> world \<Rightarrow> LsFileBrowser \<Rightarrow> bool" where
  "shows_directory lib w b \<longleftrightarrow>
     sorted_wrt (\<lambda>a c. compare_entries a c \<le> 0) (fb_entries b) \<and>
     (\<forall>e \<in> set (fb_entries b). entry_at (w_fs w) (fb_current_path b) (fe_name e) = Some e \<and>
        fe_name e \<in> set (dir_names lib (w_fs w) (fb_current_path b))) \<and>
     (w_io w = [] \<and> \<not> fb_truncated b \<longrightarrow> (\<forall>n \<in> set (dir_names lib (w_fs w) (fb_current_path b)). \<forall>e.
        entry_at (w_fs w) (fb_current_path b) n = Some e \<longrightarrow> e \<in> set (fb_entries b)))"

lemma opendir_fs: "do_opendir p w = (r, w') \<Longrightarrow> w_fs w' = w_fs w \<and> (w_io w = [] \<longrightarrow> w_io w' = [])"
  by (auto simp: do_opendir_def next_io_def failing_def split: list.splits io_answer.splits option.splits fs_node.splits)

text \<open>What every refresh leaves: a selection at the start and at most 64 entries, all of the directory.\<close>

definition entries_ok :: "dir_library \<Rightarrow> LsFileBrowser \<Rightarrow> bool" where
  "entries_ok lib b \<longleftrightarrow> length (fb_entries b) \<le> LS3DS_FILE_BROWSER_MAX_ENTRIES \<and>
     (\<forall>e \<in> set (fb_entries b). entry_name (fe_name e) \<and> CHR ''/'' \<notin> set (fe_name e))"

lemma refresh_props:
  assumes "ls_file_browser_refresh lib b w = (ok, b', w')" and "library_ok lib" and "fb_current_path b \<noteq> []"
  shows "fb_root b' = fb_root b \<and> fb_current_path b' = fb_current_path b \<and> fb_selected b' = 0 \<and> entries_ok lib b' \<and>
    w_fs w' = w_fs w \<and> (ok \<longrightarrow> shows_directory lib w b')"
proof -
  let ?p = "fb_current_path b"
  have sort: "set (dir_sort lib es) = set es \<and> length (dir_sort lib es) = length es \<and>
      sorted_wrt (\<lambda>a c. compare_entries a c \<le> 0) (dir_sort lib es)" if "\<forall>e \<in> set es. nul_free (fe_name e)" for es
    using assms(2) that by (simp add: library_ok_def sorts_entries_def) (metis mset_eq_setD mset_eq_length)
  obtain a v where o: "do_opendir ?p w = (a, v)" by (metis surj_pair)
  note oo = opendir_fs [OF o]
  show ?thesis
  proof (cases a)
    case (Some n)
    with assms(1,3) o oo show ?thesis
      by (auto simp: ls_file_browser_refresh_def Let_def entries_ok_def)
  next
    case None
    obtain es tr u where l: "list_entries ?p (dir_names lib (w_fs v) ?p) ([], False) v = ((es, tr), u)" by (metis surj_pair)
    obtain c x where c: "do_simple u = (c, x)" by (metis surj_pair)
    have "listed v ?p ([], False)" by (simp add: listed_def)
    from list_entries_listed [OF l assms(3) this] have li: "w_fs u = w_fs v" "listed v ?p (es, tr)"
      "fe_name ` set es \<subseteq> set (dir_names lib (w_fs v) ?p)" by simp_all
    have co: "\<not> tr \<Longrightarrow> w_io v = [] \<Longrightarrow> n \<in> set (dir_names lib (w_fs v) ?p) \<Longrightarrow> entry_at (w_fs v) ?p n = Some e \<Longrightarrow> e \<in> set es" for n e
      using list_entries_complete [OF l assms(3), of n e] by simp
    have names: "entry_name (fe_name e) \<and> CHR ''/'' \<notin> set (fe_name e)" if "e \<in> set es" for e
    proof -
      have "entry_at (w_fs v) ?p (fe_name e) = Some e" using li(2) that by (simp add: listed_def)
      then have "entry_name (fe_name e)" by (simp add: entry_at_def split: if_splits)
      moreover have "fe_name e \<in> set (dir_names lib (w_fs v) ?p)" using li(3) that by blast
      ultimately show ?thesis using assms(2) by (simp add: library_ok_def)
    qed
    have "\<forall>e \<in> set es. nul_free (fe_name e)" using li(3) assms(2) by (auto simp: library_ok_def)
    note sorted = sort [OF this]
    have "fb_root b' = fb_root b \<and> fb_current_path b' = ?p \<and> fb_entries b' = (if c then dir_sort lib es else es) \<and>
        fb_selected b' = 0 \<and> fb_truncated b' = tr \<and> ok = c \<and> w' = x"
      using assms(1,3) o None l c by (cases c) (auto simp: ls_file_browser_refresh_def Let_def)
    then have b': "fb_root b' = fb_root b" "fb_current_path b' = ?p" "fb_entries b' = (if c then dir_sort lib es else es)"
      "fb_selected b' = 0" "fb_truncated b' = tr" "ok = c" "w' = x" by simp_all
    have e: "entries_ok lib b'" using li(2) names sorted by (simp add: b' entries_ok_def listed_def)
    have "ok \<Longrightarrow> shows_directory lib w b'"
      using li(2,3) co oo sorted by (auto simp: b' shows_directory_def listed_def)
    with e show ?thesis using simple_fs [OF c] li(1) oo by (simp add: b')
  qed
qed

text \<open>Without faults an existing directory can be shown.\<close>

lemma refresh_succeeds:
  assumes "w_io w = []" and "w_fs w (fb_current_path b) = Some DirNode" and "fb_current_path b \<noteq> []"
  shows "fst (ls_file_browser_refresh lib b w)"
proof -
  let ?p = "fb_current_path b"
  obtain es tr u where l: "list_entries ?p (dir_names lib (w_fs w) ?p) ([], False) w = ((es, tr), u)" by (metis surj_pair)
  have o: "do_opendir ?p w = (None, w)" using assms by (simp add: do_opendir_def next_io_def)
  have "w_io u = []" using list_entries_complete [OF l assms(3,1)] by blast
  then have "do_simple u = (True, u)" by (simp add: do_simple_def next_io_def)
  with o l assms(3) show ?thesis by (simp add: ls_file_browser_refresh_def Let_def)
qed

section \<open>Staying below the root\<close>

definition below :: "string \<Rightarrow> string \<Rightarrow> bool" where
  "below root p \<longleftrightarrow> (\<exists>ns. (\<forall>n \<in> set ns. entry_name n \<and> CHR ''/'' \<notin> set n) \<and> p = foldl joined root ns)"

lemma joined_Nil [simp]: "d \<noteq> [] \<Longrightarrow> joined d n \<noteq> []"
  by (simp add: joined_def)

lemma below_length: "root \<noteq> [] \<Longrightarrow> foldl joined root ns \<noteq> [] \<and> length root \<le> length (foldl joined root ns)"
  by (induction ns rule: rev_induct) (auto simp: joined_def)

lemma below_root [simp]: "below root root"
  unfolding below_def by (intro exI [of _ "[]"]) simp

lemma below_join: "below root p \<Longrightarrow> entry_name n \<Longrightarrow> CHR ''/'' \<notin> set n \<Longrightarrow> below root (joined p n)"
  unfolding below_def by (elim exE) (rule_tac x = "ns @ [n]" in exI, auto)

lemma before_slash: "CHR ''/'' \<notin> set n \<Longrightarrow> before_last_slash (d @ CHR ''/'' # n) = Some d"
proof -
  assume n: "CHR ''/'' \<notin> set n"
  have "dropWhile (\<lambda>c. c \<noteq> CHR ''/'') (rev (d @ CHR ''/'' # n)) = CHR ''/'' # rev d"
    using n by (auto simp: dropWhile_append)
  then show ?thesis by (simp add: before_last_slash_def)
qed

lemma below_parent:
  assumes "below root p" and "p \<noteq> root" and "root \<noteq> []"
  shows "below root (case before_last_slash p of None \<Rightarrow> root | Some q \<Rightarrow> if length q < length root then root else q)"
proof -
  from assms(1) obtain ns where ns: "\<forall>n \<in> set ns. entry_name n \<and> CHR ''/'' \<notin> set n" "p = foldl joined root ns"
    by (auto simp: below_def)
  with assms(2) obtain ms n where "ns = ms @ [n]" by (cases ns rule: rev_cases) auto
  with ns have n: "\<forall>m \<in> set (ms @ [n]). entry_name m \<and> CHR ''/'' \<notin> set m" "p = joined (foldl joined root ms) n" by simp_all
  let ?d = "foldl joined root ms"
  have d: "below root ?d" using n(1) unfolding below_def by (intro exI [of _ ms]) auto
  show ?thesis
  proof (cases "last ?d = CHR ''/''")
    case True
    have "?d = root"
    proof (cases ms rule: rev_cases)
      case (snoc ks k)
      with n(1) have "k \<noteq> []" "CHR ''/'' \<notin> set k" by (simp_all add: entry_name_def)
      then have "last k \<noteq> CHR ''/''" by (metis last_in_set)
      with \<open>k \<noteq> []\<close> have "last (joined x k) \<noteq> CHR ''/''" for x by (simp add: joined_def)
      with True snoc show ?thesis by simp
    qed simp
    moreover obtain e where "?d = e @ [CHR ''/'']" using True below_length [OF assms(3), of ms] by (metis append_butlast_last_id)
    ultimately have "before_last_slash p = Some e" "length e < length root"
      using before_slash [of n e] n True by (auto simp: joined_def)
    then show ?thesis by simp
  next
    case False
    then have "before_last_slash p = Some ?d" using before_slash [of n ?d] n by (simp add: joined_def)
    then show ?thesis using d below_length [OF assms(3), of ms] by simp
  qed
qed

section \<open>The browser in use\<close>

definition browser_ok :: "dir_library \<Rightarrow> LsFileBrowser \<Rightarrow> bool" where
  "browser_ok lib b \<longleftrightarrow> fb_root b \<noteq> [] \<and> below (fb_root b) (fb_current_path b) \<and>
     length (fb_current_path b) < LS3DS_PATH_CAPACITY \<and> entries_ok lib b \<and>
     (fb_selected b < length (fb_entries b) \<or> fb_selected b = 0)"

lemma below_nonempty: "root \<noteq> [] \<Longrightarrow> below root p \<Longrightarrow> p \<noteq> []"
  using below_length by (auto simp: below_def)

lemma refresh_ok:
  assumes "ls_file_browser_refresh lib b w = (ok, b', w')" and "library_ok lib"
    and "fb_root b \<noteq> []" "below (fb_root b) (fb_current_path b)" "length (fb_current_path b) < LS3DS_PATH_CAPACITY"
  shows "browser_ok lib b' \<and> w_fs w' = w_fs w"
  using refresh_props [OF assms(1,2) below_nonempty [OF assms(3,4)]] assms(3-5) by (simp add: browser_ok_def)

declare strip_root.simps [simp del]

lemma strip_root_props: "r \<noteq> [] \<Longrightarrow> strip_root r \<noteq> [] \<and> length (strip_root r) \<le> length r"
proof (induction r rule: strip_root.induct)
  case (1 r)
  show ?case
  proof (cases "length r > 1 \<and> last r = CHR ''/'' \<and> last (butlast r) \<noteq> CHR '':''")
    case True
    then have "butlast r \<noteq> []" by (cases r) auto
    moreover have "strip_root r = strip_root (butlast r)" using True by (simp add: strip_root.simps [of r])
    ultimately show ?thesis using 1(1) [OF True] by (auto intro: le_trans)
  next
    case False
    then have "strip_root r = r" by (auto simp: strip_root.simps [of r])
    with 1 show ?thesis by simp
  qed
qed

lemma init_ok:
  assumes "ls_file_browser_init lib root b w = (True, b', w')" and "library_ok lib"
  shows "browser_ok lib b' \<and> w_fs w' = w_fs w"
proof -
  let ?r = "strip_root root"
  from assms(1) have "root \<noteq> []" "length ?r < LS3DS_PATH_CAPACITY"
    "ls_file_browser_refresh lib (zero_browser\<lparr>fb_root := ?r, fb_current_path := ?r\<rparr>) w = (True, b', w')"
    by (auto simp: ls_file_browser_init_def Let_def split: if_splits)
  with refresh_ok [OF this(3) assms(2)] strip_root_props show ?thesis by simp
qed

lemma enter_ok:
  assumes "ls_file_browser_enter lib i b w = (ok, b', w')" and "library_ok lib" and "browser_ok lib b"
  shows "browser_ok lib b' \<and> w_fs w' = w_fs w"
proof (cases "\<exists>e path. ls_file_browser_get b i = Some e \<and> fe_is_directory e \<and>
    join_path (fb_current_path b) (fe_name e) LS3DS_PATH_CAPACITY = Some path")
  case True
  then obtain e path where e: "ls_file_browser_get b i = Some e" "fe_is_directory e"
    "join_path (fb_current_path b) (fe_name e) LS3DS_PATH_CAPACITY = Some path" by blast
  have bk: "fb_root b \<noteq> []" "below (fb_root b) (fb_current_path b)" "length (fb_current_path b) < LS3DS_PATH_CAPACITY"
    using assms(3) by (simp_all add: browser_ok_def)
  have "e \<in> set (fb_entries b)" using e(1) by (auto simp: ls_file_browser_get_def split: if_splits)
  then have n: "entry_name (fe_name e)" "CHR ''/'' \<notin> set (fe_name e)"
    using assms(3) by (simp_all add: browser_ok_def entries_ok_def)
  have p: "path = joined (fb_current_path b) (fe_name e)" "length path < LS3DS_PATH_CAPACITY"
    using e(3) by (auto simp: join_path_joined split: if_splits)
  obtain c x v where r: "ls_file_browser_refresh lib (b\<lparr>fb_current_path := path\<rparr>) w = (c, x, v)" by (metis prod_cases3)
  have "below (fb_root b) path" unfolding p(1) by (rule below_join [OF bk(2) n])
  from refresh_ok [OF r assms(2)] this bk p(2) have x: "browser_ok lib x" "w_fs v = w_fs w" by simp_all
  from refresh_props [OF r assms(2)] below_nonempty [OF bk(1) \<open>below (fb_root b) path\<close>] have root: "fb_root x = fb_root b" by simp
  show ?thesis
  proof (cases c)
    case True
    with assms(1) e r x show ?thesis by (simp add: ls_file_browser_enter_def)
  next
    case False
    obtain d y u where q: "ls_file_browser_refresh lib (x\<lparr>fb_current_path := fb_current_path b\<rparr>) v = (d, y, u)" by (metis prod_cases3)
    with assms(1) e r False have "b' = y" "w' = u" by (simp_all add: ls_file_browser_enter_def)
    with refresh_ok [OF q assms(2)] bk root x show ?thesis by simp
  qed
next
  case False
  with assms(1) have "b' = b" "w' = w" by (auto simp: ls_file_browser_enter_def split: option.splits if_splits)
  with assms(3) show ?thesis by simp
qed

lemma parent_ok:
  assumes "ls_file_browser_parent lib b w = (ok, b', w')" and "library_ok lib" and "browser_ok lib b"
  shows "browser_ok lib b' \<and> w_fs w' = w_fs w"
proof (cases "fb_current_path b = fb_root b")
  case True
  with assms show ?thesis by (simp add: ls_file_browser_parent_def)
next
  case False
  let ?q = "case before_last_slash (fb_current_path b) of None \<Rightarrow> fb_root b
      | Some p \<Rightarrow> if length p < length (fb_root b) then fb_root b else p"
  have bk: "fb_root b \<noteq> []" "below (fb_root b) (fb_current_path b)" "length (fb_current_path b) < LS3DS_PATH_CAPACITY"
    using assms(3) by (simp_all add: browser_ok_def)
  have q: "below (fb_root b) ?q" by (rule below_parent [OF bk(2) False bk(1)])
  have "length (fb_root b) \<le> length (fb_current_path b)" using bk(1,2) below_length by (auto simp: below_def)
  moreover have "length p \<le> length (fb_current_path b)" if "before_last_slash (fb_current_path b) = Some p" for p
  proof -
    have "p = rev (tl (dropWhile (\<lambda>c. c \<noteq> CHR ''/'') (rev (fb_current_path b))))"
      using that by (simp add: before_last_slash_def split: if_splits)
    then show ?thesis using length_dropWhile_le [of "\<lambda>c. c \<noteq> CHR ''/''" "rev (fb_current_path b)"] by simp
  qed
  ultimately have l: "length ?q \<le> length (fb_current_path b)" by (auto split: option.split)
  from assms(1) False have r: "ls_file_browser_refresh lib (b\<lparr>fb_current_path := ?q\<rparr>) w = (ok, b', w')"
    by (simp add: ls_file_browser_parent_def)
  from refresh_ok [OF r assms(2)] bk q l show ?thesis by simp
qed

text \<open>A selected file is a file of the directory on display, below the root.\<close>

lemma selected_file_below:
  assumes "ls_file_browser_selected_file b pc nc = Some (path, name, n)" and "browser_ok lib b"
  shows "below (fb_root b) path \<and> path \<noteq> [] \<and> length path < pc \<and> length name < nc \<and>
    path = joined (fb_current_path b) name \<and> entry_name name \<and>
    (\<exists>e \<in> set (fb_entries b). fe_name e = name \<and> \<not> fe_is_directory e \<and> fe_size e = n)"
proof -
  from assms(1) obtain e where e: "ls_file_browser_get b (fb_selected b) = Some e" "\<not> fe_is_directory e"
    "join_path (fb_current_path b) (fe_name e) pc = Some path" "copy_text nc (fe_name e) = Some name" "fe_size e = n"
    by (auto simp: ls_file_browser_selected_file_def split: option.splits if_splits)
  have m: "e \<in> set (fb_entries b)" using e(1) by (auto simp: ls_file_browser_get_def split: if_splits)
  then have n: "entry_name (fe_name e)" "CHR ''/'' \<notin> set (fe_name e)"
    using assms(2) by (simp_all add: browser_ok_def entries_ok_def)
  have p: "path = joined (fb_current_path b) (fe_name e)" "length path < pc" "name = fe_name e" "length name < nc"
    using e(3,4) by (auto simp: join_path_joined copy_text_def split: if_splits)
  have "below (fb_root b) path" unfolding p(1) using assms(2) n by (intro below_join) (simp_all add: browser_ok_def)
  with below_nonempty [OF _ this] assms(2) m e n p show ?thesis by (auto simp: browser_ok_def)
qed

section \<open>A library that keeps the contract\<close>

fun insert_entry :: "LsFileBrowserEntry \<Rightarrow> LsFileBrowserEntry list \<Rightarrow> LsFileBrowserEntry list" where
  "insert_entry e [] = [e]"
| "insert_entry e (x # xs) = (if compare_entries e x \<le> 0 then e # x # xs else x # insert_entry e xs)"

lemma strcasecmp_turned: "strcasecmp s t = - strcasecmp t s"
  by (induction s t rule: strcasecmp.induct) auto

lemma char_of_byte: "byte c = byte d \<Longrightarrow> c = d"
  by (simp add: of_char_eq_iff)

lemma folded_byte: "c \<noteq> NUL \<Longrightarrow> 0 < byte (tolower c)"
proof -
  assume "c \<noteq> NUL"
  then have "byte c \<noteq> 0" using char_of_byte [of c NUL] by auto
  then show ?thesis by (cases "isupper c") (auto simp: tolower_def isupper_def)
qed

lemma strcasecmp_trans:
  "nul_free s \<Longrightarrow> nul_free t \<Longrightarrow> nul_free u \<Longrightarrow> strcasecmp s t \<le> 0 \<Longrightarrow> strcasecmp t u \<le> 0 \<Longrightarrow> strcasecmp s u \<le> 0"
proof (induction s t arbitrary: u rule: strcasecmp.induct)
  case (4 c s d t)
  show ?case
  proof (cases u)
    case Nil
    then show ?thesis using 4(6) folded_byte [of d] 4(3) by simp
  next
    case (Cons e v)
    have "tolower c = tolower e \<Longrightarrow> byte (tolower c) \<le> byte (tolower d) \<Longrightarrow> byte (tolower d) \<le> byte (tolower e) \<Longrightarrow>
        tolower c = tolower d" by (rule char_of_byte) simp
    then show ?thesis using Cons 4 by (auto split: if_splits)
  qed
next
  case (3 c s)
  then show ?case using folded_byte [of c] by simp
next
  case (2 d t)
  then show ?case by (cases u) simp_all
qed

lemma compare_turned: "compare_entries a b = - compare_entries b a"
  using strcasecmp_turned [of "fe_name a" "fe_name b"] by (simp add: compare_entries_def)

lemma compare_trans:
  assumes "nul_free (fe_name a)" "nul_free (fe_name b)" "nul_free (fe_name c)"
    and "compare_entries a b \<le> 0" "compare_entries b c \<le> 0"
  shows "compare_entries a c \<le> 0"
proof -
  have directories: "compare_entries x y \<le> 0 \<longleftrightarrow>
      fe_is_directory x \<and> \<not> fe_is_directory y \<or>
      fe_is_directory x = fe_is_directory y \<and> strcasecmp (fe_name x) (fe_name y) \<le> 0" for x y
    by (cases "fe_is_directory x"; cases "fe_is_directory y") (simp_all add: compare_entries_def)
  let ?s = "\<lambda>x y. strcasecmp (fe_name x) (fe_name y) \<le> 0"
  have "?s a b \<Longrightarrow> ?s b c \<Longrightarrow> ?s a c" by (rule strcasecmp_trans [OF assms(1-3)])
  with assms(4,5) show ?thesis unfolding directories by (elim disjE conjE) simp_all
qed

lemma insert_entry_sorted:
  assumes "sorted_wrt (\<lambda>a b. compare_entries a b \<le> 0) es" and "\<forall>x \<in> set (e # es). nul_free (fe_name x)"
  shows "sorted_wrt (\<lambda>a b. compare_entries a b \<le> 0) (insert_entry e es) \<and> mset (insert_entry e es) = add_mset e (mset es)"
  using assms
proof (induction es)
  case (Cons x xs)
  then have IH: "sorted_wrt (\<lambda>a b. compare_entries a b \<le> 0) (insert_entry e xs)"
    "mset (insert_entry e xs) = add_mset e (mset xs)" by simp_all
  then have s: "set (insert_entry e xs) = insert e (set xs)" by (metis set_mset_add_mset_insert set_mset_mset)
  have turn: "compare_entries x e \<le> 0" if "\<not> compare_entries e x \<le> 0"
    using that compare_turned [of e x] by linarith
  have "compare_entries e y \<le> 0" if "compare_entries e x \<le> 0" "y \<in> set xs" for y
    using compare_trans [OF _ _ _ that(1)] that(2) Cons.prems by auto
  with turn Cons.prems(1) IH s show ?case by simp
qed simp

lemma insertion_sort_sorts: "sorts_entries (\<lambda>es. foldr insert_entry es [])"
proof -
  have "sorted_wrt (\<lambda>a b. compare_entries a b \<le> 0) (foldr insert_entry es []) \<and> mset (foldr insert_entry es []) = mset es"
    if "\<forall>e \<in> set es. nul_free (fe_name e)" for es
    using that
  proof (induction es)
    case (Cons e es)
    then have IH: "sorted_wrt (\<lambda>a b. compare_entries a b \<le> 0) (foldr insert_entry es [])"
      "mset (foldr insert_entry es []) = mset es" by simp_all
    have "set (foldr insert_entry es []) = set es" by (metis IH(2) set_mset_mset)
    with insert_entry_sorted [OF IH(1), of e] IH(2) Cons.prems show ?case by simp
  qed simp
  then show ?thesis by (simp add: sorts_entries_def)
qed

definition example_library :: dir_library where
  "example_library = \<lparr>dir_names = (\<lambda>fs p. [''a.txt'', ''DCIM'']), dir_sort = (\<lambda>es. foldr insert_entry es [])\<rparr>"

lemma example_library_ok: "library_ok example_library"
  using insertion_sort_sorts by (simp add: library_ok_def example_library_def nul_free_def)

end
