(* ===== verification/Ui_Model.thy ===== *)
theory Ui_Model
  imports Utf8
begin

text \<open>
  \<open>ui_model.c\<close>: the pure part of the user interface. Lengths of text on the screen are measured by a function the
  caller passes (\<open>measure\<close>); what is used of its result is the comparison with the width, so it may have any
  linearly ordered type (a font that measures a NaN is left out). Coordinates are integers of a small screen.
\<close>

record LsUiRect =
  rect_x :: int
  rect_y :: int
  rect_width :: int
  rect_height :: int

definition ls_ui_rect_contains :: "LsUiRect \<Rightarrow> int \<Rightarrow> int \<Rightarrow> bool" where
  "ls_ui_rect_contains rect x y \<longleftrightarrow>
     rect_width rect > 0 \<and> rect_height rect > 0 \<and> x \<ge> rect_x rect \<and> y \<ge> rect_y rect \<and>
     x < rect_x rect + rect_width rect \<and> y < rect_y rect + rect_height rect"

section \<open>Lists\<close>

definition ls_ui_list_start :: "nat \<Rightarrow> nat \<Rightarrow> nat \<Rightarrow> nat" where
  "ls_ui_list_start selected count visible_rows =
     (if count = 0 \<or> visible_rows = 0 \<or> count \<le> visible_rows then 0
      else
        (let selected = (if selected \<ge> count then count - 1 else selected);
             start = (if selected \<ge> visible_rows then selected - visible_rows + 1 else 0)
         in if start + visible_rows > count then count - visible_rows else start))"

text \<open>The selected row is on the screen, and no row of the screen is wasted.\<close>

lemma list_start_shows:
  assumes "selected < count" and "0 < visible_rows"
  defines "start \<equiv> ls_ui_list_start selected count visible_rows"
  shows "start \<le> selected \<and> selected < start + visible_rows \<and> (start = 0 \<or> start + visible_rows \<le> count)"
  using assms by (auto simp: ls_ui_list_start_def Let_def)

section \<open>Percentages\<close>

fun percentage_loop :: "nat \<Rightarrow> u64 \<Rightarrow> u64 \<Rightarrow> u64 \<Rightarrow> nat" where
  "percentage_loop 0 current whole rest = 0"
| "percentage_loop (Suc p) current whole rest =
     (if current \<ge> whole * of_nat (Suc p) + (rest * of_nat (Suc p) + 99) div 100 then Suc p
      else percentage_loop p current whole rest)"

definition ls_ui_percentage :: "u64 \<Rightarrow> u64 \<Rightarrow> bool \<Rightarrow> nat" where
  "ls_ui_percentage current overall completed =
     (if completed then 100
      else if overall = 0 then 0
      else if current \<ge> overall then 100
      else percentage_loop 99 current (overall div 100) (overall mod 100))"

lemma percentage_threshold:
  fixes overall :: u64
  assumes "p \<le> 99"
  shows "unat (overall div 100 * of_nat p + (overall mod 100 * of_nat p + 99) div 100) =
    (unat overall * p + 99) div 100"
proof -
  define q r where "q = unat overall div 100" and "r = unat overall mod 100"
  have t: "unat overall < 2 ^ 64" using unsigned_less [of overall] by simp
  have q: "unat (overall div 100) = q" "unat (overall mod 100) = r"
    by (simp_all add: unat_div_distrib unat_mod_distrib q_def r_def)
  have e: "unat overall = 100 * q + r" by (simp add: q_def r_def)
  have r: "r < 100" by (simp add: r_def)
  have rp: "r * p \<le> r * 99" and qp: "q * p \<le> q * 99" using assms by (simp_all only: mult_le_mono2)
  have "r * p + 99 \<le> 10000" using rp r by linarith
  then have small: "r * p + 99 < 2 ^ 64" "r * p < 2 ^ 64" by (rule le_less_trans, simp, simp)
  then have "unat (overall mod 100 * of_nat p) = r * p" using assms q(2) by (simp add: unat_word_ariths unat_of_nat)
  then have "unat (overall mod 100 * of_nat p + 99) = r * p + 99" using small by (simp add: unat_word_ariths)
  then have b: "unat ((overall mod 100 * of_nat p + 99) div 100) = (r * p + 99) div 100" by (simp add: unat_div_distrib)
  have "q * p < 2 ^ 64" using qp t e by linarith
  then have c: "unat (overall div 100 * of_nat p) = q * p" using assms q(1) by (simp add: unat_word_ariths unat_of_nat)
  have "r * p + 99 \<le> r * 99 + 99" using rp by (rule add_right_mono)
  also have "\<dots> < (r + 1) * 100" by simp
  finally have "r * p + 99 < (r + 1) * 100" .
  then have "(r * p + 99) div 100 < r + 1" by (rule less_mult_imp_div_less)
  then have "q * p + (r * p + 99) div 100 \<le> unat overall" using qp e by linarith
  then have "unat (overall div 100 * of_nat p + (overall mod 100 * of_nat p + 99) div 100) = q * p + (r * p + 99) div 100"
    using t b c by (simp add: unat_word_ariths)
  also have "\<dots> = (100 * (q * p) + (r * p + 99)) div 100" by simp
  also have "100 * (q * p) + (r * p + 99) = unat overall * p + 99" by (simp add: e algebra_simps)
  finally show ?thesis .
qed

lemma percentage_loop_floor:
  fixes current overall :: u64
  assumes "p \<le> 99" and "unat current * 100 div unat overall \<le> p" and "0 < unat overall"
  shows "percentage_loop p current (overall div 100) (overall mod 100) = unat current * 100 div unat overall"
  using assms
proof (induction p)
  case (Suc p)
  have "overall div 100 * of_nat (Suc p) + (overall mod 100 * of_nat (Suc p) + 99) div 100 \<le> current \<longleftrightarrow>
      (unat overall * Suc p + 99) div 100 \<le> unat current"
    using percentage_threshold [OF Suc.prems(1), of overall] by (simp only: word_le_nat_alt)
  also have "\<dots> \<longleftrightarrow> unat overall * Suc p \<le> unat current * 100" by linarith
  also have "\<dots> \<longleftrightarrow> Suc p \<le> unat current * 100 div unat overall"
    using Suc.prems(3) by (metis less_eq_div_iff_mult_less_eq mult.commute)
  finally have "overall div 100 * of_nat (Suc p) + (overall mod 100 * of_nat (Suc p) + 99) div 100 \<le> current \<longleftrightarrow>
      Suc p \<le> unat current * 100 div unat overall" .
  then show ?case using Suc by (auto simp del: of_nat_Suc)
qed simp

lemma percentage_floor:
  assumes "0 < unat overall"
  shows "ls_ui_percentage current overall False = min 100 (unat current * 100 div unat overall)"
proof (cases "overall \<le> current")
  case True
  then have "unat overall * 100 \<le> unat current * 100" by (simp add: word_le_nat_alt)
  then have "100 \<le> unat current * 100 div unat overall" using assms by (metis less_eq_div_iff_mult_less_eq mult.commute)
  moreover have "overall \<noteq> 0" using assms by auto
  ultimately show ?thesis using True by (simp add: ls_ui_percentage_def)
next
  case False
  then have "unat current * 100 < 100 * unat overall" by (simp add: word_le_nat_alt)
  then have "unat current * 100 div unat overall < 100" using assms by (simp add: less_mult_imp_div_less)
  moreover have "overall \<noteq> 0" using assms by auto
  ultimately show ?thesis using False percentage_loop_floor [of 99 current overall] assms by (simp add: ls_ui_percentage_def)
qed

section \<open>Sizes\<close>

fun size_loop :: "nat \<Rightarrow> u64 \<Rightarrow> u64 \<Rightarrow> nat \<Rightarrow> u64 \<times> u64 \<times> nat" where
  "size_loop 0 whole remainder unit = (whole, remainder, unit)"
| "size_loop (Suc divisions) whole remainder unit =
     (if whole \<ge> 1024 then size_loop divisions (whole div 1024) (whole mod 1024) (unit + 1) else (whole, remainder, unit))"

text \<open>There are five units, so at most four divisions.\<close>

definition ls_ui_format_size :: "u64 \<Rightarrow> nat \<Rightarrow> string option" where
  "ls_ui_format_size bytes capacity =
     (if capacity = 0 then None
      else case size_loop 4 bytes 0 0 of
        (whole, remainder, unit) \<Rightarrow>
          (let t = (if unit = 0 \<or> whole \<ge> 100 then dec (unat whole)
                    else dec (unat whole) @ ''.'' @ dec (unat (remainder * 10 div 1024))) @ '' '' @
                   [''B'', ''KB'', ''MB'', ''GB'', ''TB''] ! unit
           in if length t < capacity then Some t else None))"

section \<open>Shortened file names\<close>

text \<open>A position of the text or its end; the byte at the end is the terminating zero.\<close>

fun utf8_boundary_at_or_before :: "string \<Rightarrow> nat \<Rightarrow> nat" where
  "utf8_boundary_at_or_before t 0 = 0"
| "utf8_boundary_at_or_before t (Suc position) =
     (if Suc position < length t \<and> of_char (t ! Suc position) AND 0xc0 = (0x80::nat)
      then utf8_boundary_at_or_before t position else Suc position)"

definition build_ellipsized :: "string \<Rightarrow> nat \<Rightarrow> string \<Rightarrow> nat \<Rightarrow> string option" where
  "build_ellipsized input prefix_bytes extension capacity =
     (if prefix_bytes + 3 + length extension \<ge> capacity then None
      else Some (take prefix_bytes input @ ''...'' @ extension))"

definition ellipsized_fits ::
    "(string \<Rightarrow> 'w::{linorder,zero}) \<Rightarrow> 'w \<Rightarrow> string \<Rightarrow> nat \<Rightarrow> string \<Rightarrow> nat \<Rightarrow> bool" where
  "ellipsized_fits width_of maximum_width input prefix_bytes extension capacity =
     (case build_ellipsized input prefix_bytes extension capacity of
        None \<Rightarrow> False | Some t \<Rightarrow> width_of t \<le> maximum_width)"

text \<open>The loop's variables are \<open>low\<close>, \<open>high\<close> and \<open>best\<close>, which is \<open>None\<close> until \<open>found\<close>.\<close>

function ellipsize_search ::
    "(string \<Rightarrow> 'w::{linorder,zero}) \<Rightarrow> 'w \<Rightarrow> string \<Rightarrow> string \<Rightarrow> nat \<Rightarrow> nat \<Rightarrow> nat \<Rightarrow> nat option \<Rightarrow> nat option" where
  "ellipsize_search width_of maximum_width input extension capacity low high best =
     (if low \<le> high then
        (let middle = low + (high - low) div 2;
             prefix_bytes = utf8_boundary_at_or_before input middle
         in if ellipsized_fits width_of maximum_width input prefix_bytes extension capacity
            then ellipsize_search width_of maximum_width input extension capacity (middle + 1) high
                   (case best of None \<Rightarrow> Some prefix_bytes
                    | Some b \<Rightarrow> Some (if prefix_bytes > b then prefix_bytes else b))
            else if middle = 0 then best
            else ellipsize_search width_of maximum_width input extension capacity low (middle - 1) best)
      else best)"
  by pat_completeness auto
termination
  by (relation "measure (\<lambda>(m, maximum_width, input, extension, capacity, low, high, best). Suc high - low)") auto

declare ellipsize_search.simps [simp del]

text \<open>The name before the last dot and the extension after it, when there are both.\<close>

definition name_extension :: "string \<Rightarrow> (nat \<times> string) option" where
  "name_extension input =
     (if CHR ''.'' \<notin> set input then None
      else (let dot = length input - 1 - length (takeWhile (\<lambda>c. c \<noteq> CHR ''.'') (rev input))
            in if dot = 0 \<or> dot + 1 = length input then None else Some (dot, drop (dot + 1) input)))"

definition ls_ui_ellipsize_filename ::
    "string \<Rightarrow> 'w::{linorder,zero} \<Rightarrow> nat \<Rightarrow> (string \<Rightarrow> 'w) \<Rightarrow> string option" where
  "ls_ui_ellipsize_filename input maximum_width capacity width_of =
     (if capacity = 0 \<or> maximum_width \<le> 0 then None
      else if length input < capacity \<and> width_of input \<le> maximum_width then Some input
      else
        (let (extension, prefix_limit) =
               (case name_extension input of Some (dot, ext) \<Rightarrow> (ext, dot) | None \<Rightarrow> ([], length input));
             shortest_fits = ellipsized_fits width_of maximum_width input 0 extension capacity;
             (extension, prefix_limit) = (if shortest_fits then (extension, prefix_limit) else ([], length input))
         in if \<not> shortest_fits \<and> \<not> ellipsized_fits width_of maximum_width input 0 [] capacity then Some []
            else case ellipsize_search width_of maximum_width input extension capacity 0 prefix_limit None of
                None \<Rightarrow> Some []
              | Some best \<Rightarrow> build_ellipsized input best extension capacity))"

text \<open>A cut that splits no character.\<close>

definition at_boundary :: "string \<Rightarrow> nat \<Rightarrow> bool" where
  "at_boundary t p \<longleftrightarrow> p = 0 \<or> p \<ge> length t \<or> of_char (t ! p) AND 0xc0 \<noteq> (0x80::nat)"

lemma boundary_found: "at_boundary t (utf8_boundary_at_or_before t p) \<and> utf8_boundary_at_or_before t p \<le> p"
  by (induction p) (auto simp: at_boundary_def)

lemma search_steps:
  fixes input :: string and low high :: nat
  defines "middle \<equiv> low + (high - low) div 2"
  defines "chop \<equiv> utf8_boundary_at_or_before input middle"
  shows search_right: "low \<le> high \<Longrightarrow> ellipsized_fits m width input chop ext capacity \<Longrightarrow>
      ellipsize_search m width input ext capacity low high best =
      ellipsize_search m width input ext capacity (middle + 1) high
        (case best of None \<Rightarrow> Some chop | Some b \<Rightarrow> Some (if chop > b then chop else b))"
    and search_left: "low \<le> high \<Longrightarrow> \<not> ellipsized_fits m width input chop ext capacity \<Longrightarrow> middle \<noteq> 0 \<Longrightarrow>
      ellipsize_search m width input ext capacity low high best =
      ellipsize_search m width input ext capacity low (middle - 1) best"
    and search_zero: "low \<le> high \<Longrightarrow> \<not> ellipsized_fits m width input chop ext capacity \<Longrightarrow> middle = 0 \<Longrightarrow>
      ellipsize_search m width input ext capacity low high best = best"
    and search_empty: "\<not> low \<le> high \<Longrightarrow> ellipsize_search m width input ext capacity low high best = best"
proof -
  have e: "ellipsize_search m width input ext capacity low high best =
    (if low \<le> high then
       (if ellipsized_fits m width input chop ext capacity
        then ellipsize_search m width input ext capacity (middle + 1) high
               (case best of None \<Rightarrow> Some chop | Some b \<Rightarrow> Some (if chop > b then chop else b))
        else if middle = 0 then best else ellipsize_search m width input ext capacity low (middle - 1) best)
     else best)"
    by (simp only: ellipsize_search.simps [of m width input ext capacity low high best] Let_def middle_def chop_def)
  show "low \<le> high \<Longrightarrow> ellipsized_fits m width input chop ext capacity \<Longrightarrow>
      ellipsize_search m width input ext capacity low high best =
      ellipsize_search m width input ext capacity (middle + 1) high
        (case best of None \<Rightarrow> Some chop | Some b \<Rightarrow> Some (if chop > b then chop else b))"
    "low \<le> high \<Longrightarrow> \<not> ellipsized_fits m width input chop ext capacity \<Longrightarrow> middle \<noteq> 0 \<Longrightarrow>
      ellipsize_search m width input ext capacity low high best =
      ellipsize_search m width input ext capacity low (middle - 1) best"
    "low \<le> high \<Longrightarrow> \<not> ellipsized_fits m width input chop ext capacity \<Longrightarrow> middle = 0 \<Longrightarrow>
      ellipsize_search m width input ext capacity low high best = best"
    "\<not> low \<le> high \<Longrightarrow> ellipsize_search m width input ext capacity low high best = best"
    unfolding e by simp_all
qed

text \<open>What the search returns is a cut at a boundary below the limit that fits.\<close>

lemma search_fits:
  assumes "pred_option (\<lambda>b. at_boundary input b \<and> b \<le> limit \<and> ellipsized_fits m width input b ext capacity) best"
    and "high \<le> limit"
  shows "pred_option (\<lambda>b. at_boundary input b \<and> b \<le> limit \<and> ellipsized_fits m width input b ext capacity)
    (ellipsize_search m width input ext capacity low high best)"
  using assms
proof (induction m width input ext capacity low high best rule: ellipsize_search.induct)
  case (1 m width input ext capacity low high best)
  let ?middle = "low + (high - low) div 2"
  let ?cut = "utf8_boundary_at_or_before input ?middle"
  let ?best = "case best of None \<Rightarrow> Some ?cut | Some b \<Rightarrow> Some (if ?cut > b then ?cut else b)"
  let ?ok = "\<lambda>b. at_boundary input b \<and> b \<le> limit \<and> ellipsized_fits m width input b ext capacity"
  have cut: "?ok ?cut" if "low \<le> high" "ellipsized_fits m width input ?cut ext capacity"
  proof -
    have "?middle \<le> high" using that(1) by simp
    then show ?thesis using 1(4) boundary_found [of input ?middle] that(2) by (meson order_trans)
  qed
  have right: "pred_option ?ok (ellipsize_search m width input ext capacity (?middle + 1) high ?best)"
    if "low \<le> high" "ellipsized_fits m width input ?cut ext capacity"
    by (rule 1(1) [OF that(1) refl refl that(2) _ 1(4)]) (use cut [OF that] 1(3) in \<open>cases best; simp\<close>)
  have left: "pred_option ?ok (ellipsize_search m width input ext capacity low (?middle - 1) best)"
    if "low \<le> high" "\<not> ellipsized_fits m width input ?cut ext capacity" "?middle \<noteq> 0"
  proof (rule 1(2) [OF that(1) refl refl that(2,3) 1(3)])
    have "?middle \<le> high" using that(1) by simp
    then show "?middle - 1 \<le> limit" using 1(4) by linarith
  qed
  show ?case
  proof (cases "low \<le> high")
    case True
    show ?thesis
    proof (cases "ellipsized_fits m width input ?cut ext capacity")
      case fit: True
      show ?thesis by (subst search_right [OF True fit]) (rule right [OF True fit])
    next
      case unfit: False
      show ?thesis
      proof (cases "?middle = 0")
        case zero: True
        show ?thesis using 1(3) by (simp only: search_zero [OF True unfit zero])
      next
        case middle: False
        show ?thesis by (subst search_left [OF True unfit middle]) (rule left [OF True unfit middle])
      qed
    qed
  next
    case False
    then show ?thesis using 1(3) by (simp only: search_empty [OF False])
  qed
qed

text \<open>The search finds a cut when the shortest text fits: a probe at 0 is reached.\<close>

lemma search_finds:
  assumes "ellipsized_fits m width input 0 ext capacity" and "best = None \<Longrightarrow> low = 0"
  shows "ellipsize_search m width input ext capacity low high best \<noteq> None"
  using assms
proof (induction m width input ext capacity low high best rule: ellipsize_search.induct)
  case (1 m width input ext capacity low high best)
  let ?middle = "low + (high - low) div 2"
  let ?cut = "utf8_boundary_at_or_before input ?middle"
  let ?best = "case best of None \<Rightarrow> Some ?cut | Some b \<Rightarrow> Some (if ?cut > b then ?cut else b)"
  have right: "ellipsize_search m width input ext capacity (?middle + 1) high ?best \<noteq> None"
    if "low \<le> high" "ellipsized_fits m width input ?cut ext capacity"
    by (rule 1(1) [OF that(1) refl refl that(2) 1(3)]) (cases best; simp)
  have left: "ellipsize_search m width input ext capacity low (?middle - 1) best \<noteq> None"
    if "low \<le> high" "\<not> ellipsized_fits m width input ?cut ext capacity" "?middle \<noteq> 0"
    by (rule 1(2) [OF that(1) refl refl that(2,3) 1(3,4)])
  have fits: "ellipsized_fits m width input ?cut ext capacity" if "?middle = 0"
    using that 1(3) by (simp only: utf8_boundary_at_or_before.simps)
  show ?case
  proof (cases "low \<le> high")
    case True
    show ?thesis
    proof (cases "ellipsized_fits m width input ?cut ext capacity")
      case fit: True
      show ?thesis by (subst search_right [OF True fit]) (rule right [OF True fit])
    next
      case unfit: False
      show ?thesis
      proof (cases "?middle = 0")
        case zero: True
        show ?thesis using fits [OF zero] unfit by simp
      next
        case middle: False
        show ?thesis by (subst search_left [OF True unfit middle]) (rule left [OF True unfit middle])
      qed
    qed
  next
    case False
    then show ?thesis using 1(4) search_empty [OF False, of m width input ext capacity best] by (cases best) simp_all
  qed
qed

lemma ellipsized_fits_text:
  assumes "ellipsized_fits m width input p ext capacity"
  shows "build_ellipsized input p ext capacity = Some (take p input @ ''...'' @ ext) \<and>
    m (take p input @ ''...'' @ ext) \<le> width \<and> length (take p input @ ''...'' @ ext) < capacity"
  using assms by (auto simp: ellipsized_fits_def build_ellipsized_def split: option.splits if_splits)

lemma name_extension_text:
  assumes "name_extension input = Some (dot, ext)"
  shows "input = take dot input @ ''.'' @ ext \<and> 0 < dot \<and> CHR ''.'' \<notin> set ext \<and> ext \<noteq> []"
proof -
  let ?e = "takeWhile (\<lambda>c. c \<noteq> CHR ''.'') (rev input)"
  have in_dot: "CHR ''.'' \<in> set input" "dot = length input - 1 - length ?e" "dot \<noteq> 0" "dot + 1 \<noteq> length input"
      "ext = drop (dot + 1) input"
    using assms by (auto simp: name_extension_def Let_def split: if_splits)
  obtain d where d: "dropWhile (\<lambda>c. c \<noteq> CHR ''.'') (rev input) = CHR ''.'' # d"
  proof (cases "dropWhile (\<lambda>c. c \<noteq> CHR ''.'') (rev input)")
    case Nil then show ?thesis using in_dot(1) by (auto simp: dropWhile_eq_Nil_conv)
  next
    case (Cons a d) then show ?thesis using hd_dropWhile [of "\<lambda>c. c \<noteq> CHR ''.''" "rev input"] that by auto
  qed
  have "rev input = ?e @ CHR ''.'' # d" using takeWhile_dropWhile_id [of "\<lambda>c. c \<noteq> CHR ''.''" "rev input"] d by simp
  then have i: "input = rev d @ CHR ''.'' # rev ?e" by (metis rev_append rev_rev_ident rev.simps(2) append.assoc append_Cons append_Nil)
  moreover have "dot = length d" using in_dot(2) arg_cong [OF i, of length] by simp
  moreover have "CHR ''.'' \<notin> set ?e" by (auto dest: set_takeWhileD)
  moreover have "ext = rev ?e" using in_dot(5) \<open>dot = length d\<close> arg_cong [OF i, of "drop (Suc (length d))"] by simp
  moreover have "take dot input = rev d"
    using arg_cong [OF i, of "take (length d)"] \<open>dot = length d\<close> by simp
  moreover have "?e \<noteq> []" using in_dot(4) \<open>dot = length d\<close> arg_cong [OF i, of length] by auto
  ultimately show ?thesis using in_dot(3) i by simp
qed

text \<open>The text shown for a file: its name, or nothing, or its beginning cut between two characters, three dots and
  its extension or nothing; it always fits the screen and the buffer.\<close>

lemma ellipsized_shape:
  assumes "0 < capacity" and "0 < (width::'w::{linorder,zero})"
  obtains t where "ls_ui_ellipsize_filename input width capacity m = Some t"
    and "length t < capacity" and "t = [] \<or> m t \<le> width"
    and "t = input \<or> t = [] \<or> (\<exists>p ext. at_boundary input p \<and> p \<le> length input \<and> t = take p input @ ''...'' @ ext \<and>
      (ext = [] \<or> (\<exists>n. input = n @ ''.'' @ ext \<and> p \<le> length n)))"
    and "length input < capacity \<Longrightarrow> m input \<le> width \<Longrightarrow> t = input"
    and "m ''...'' \<le> width \<Longrightarrow> 3 < capacity \<Longrightarrow> t = [] \<Longrightarrow> input = []"
proof (cases "length input < capacity \<and> m input \<le> width")
  case True
  then show ?thesis using that [of input] assms by (simp add: ls_ui_ellipsize_filename_def not_le)
next
  case False
  define ext0 limit0 where "ext0 = (case name_extension input of Some (dot, ext) \<Rightarrow> ext | None \<Rightarrow> [])"
    and "limit0 = (case name_extension input of Some (dot, ext) \<Rightarrow> dot | None \<Rightarrow> length input)"
  define fits where "fits = ellipsized_fits m width input 0 ext0 capacity"
  define ext limit where "ext = (if fits then ext0 else [])" and "limit = (if fits then limit0 else length input)"
  have f: "ls_ui_ellipsize_filename input width capacity m =
      (if \<not> fits \<and> \<not> ellipsized_fits m width input 0 [] capacity then Some []
       else case ellipsize_search m width input ext capacity 0 limit None of
           None \<Rightarrow> Some [] | Some best \<Rightarrow> build_ellipsized input best ext capacity)"
  proof -
    have "(capacity = 0 \<or> width \<le> 0) = False" "(length input < capacity \<and> m input \<le> width) = False"
      using False assms by auto
    moreover have "(case name_extension input of Some (dot, e) \<Rightarrow> (e, dot) | None \<Rightarrow> ([], length input)) = (ext0, limit0)"
      by (simp add: ext0_def limit0_def split: option.split prod.split)
    moreover have "(if fits then (ext0, limit0) else ([], length input)) = (ext, limit)"
      by (simp add: ext_def limit_def)
    ultimately show ?thesis
      by (simp only: ls_ui_ellipsize_filename_def if_False Let_def prod.case fits_def [symmetric])
  qed
  have named: "ext = [] \<or> (\<exists>n. input = n @ ''.'' @ ext \<and> limit = length n)" and l: "limit \<le> length input"
  proof -
    have "(ext0 = [] \<and> limit0 = length input) \<or> (\<exists>n. input = n @ ''.'' @ ext0 \<and> limit0 = length n)"
    proof (cases "name_extension input")
      case (Some de)
      obtain dot e where "de = (dot, e)" by (cases de)
      then have i: "input = take dot input @ ''.'' @ e" and s: "name_extension input = Some (dot, e)"
        using name_extension_text [of input dot e] Some by auto
      have "length (take dot input) = dot"
        using arg_cong [OF i, of length] by (simp add: min_def split: if_splits)
      then show ?thesis using i s by (auto simp: ext0_def limit0_def)
    qed (simp add: ext0_def limit0_def)
    then show "ext = [] \<or> (\<exists>n. input = n @ ''.'' @ ext \<and> limit = length n)" "limit \<le> length input"
      by (auto simp: ext_def limit_def)
  qed
  show ?thesis
  proof (cases "\<not> fits \<and> \<not> ellipsized_fits m width input 0 [] capacity")
    case True
    then have "m ''...'' \<le> width \<Longrightarrow> 3 < capacity \<Longrightarrow> False" by (auto simp: ellipsized_fits_def build_ellipsized_def)
    then show ?thesis using that [of "[]"] f True False assms by auto
  next
    case fit: False
    then have start: "ellipsized_fits m width input 0 ext capacity" by (auto simp: fits_def ext_def)
    then obtain b where b: "ellipsize_search m width input ext capacity 0 limit None = Some b"
      using search_finds [of m width input ext capacity None 0 limit] by auto
    have "at_boundary input b \<and> b \<le> limit \<and> ellipsized_fits m width input b ext capacity"
      using search_fits [of input limit m width ext capacity None limit 0] b by simp
    then have ok: "at_boundary input b" "b \<le> limit" "ellipsized_fits m width input b ext capacity" by simp_all
    let ?t = "take b input @ ''...'' @ ext"
    have t: "build_ellipsized input b ext capacity = Some ?t" "m ?t \<le> width" "length ?t < capacity"
      using ellipsized_fits_text [OF ok(3)] by simp_all
    show ?thesis
    proof (rule that [of ?t])
      show "ls_ui_ellipsize_filename input width capacity m = Some ?t" using f fit b t(1) by auto
      have "b \<le> length input" "ext = [] \<or> (\<exists>n. input = n @ ''.'' @ ext \<and> b \<le> length n)" using named l ok(2) by auto
      then show "?t = input \<or> ?t = [] \<or> (\<exists>p ext'. at_boundary input p \<and> p \<le> length input \<and> ?t = take p input @ ''...'' @ ext' \<and>
        (ext' = [] \<or> (\<exists>n. input = n @ ''.'' @ ext' \<and> p \<le> length n)))" using ok(1) by blast
    qed (use t(2,3) False in simp_all)
  qed
qed

end
