(* ===== verification/App_State.thy ===== *)
theory App_State
  imports Identity Discovery Outgoing_Transfer File_Browser Ui_Model
begin

text \<open>
  The state of the application (\<open>include/app.h\<close>, \<open>include/ui.h\<close>): every component's state and what the
  screens show. Of the user interface's own state the render targets and text buffers of the graphics library
  are left out. \<open>incoming_terminal\<close> and \<open>incoming_visible\<close> are shared by \<open>app.c\<close> and \<open>ui.c\<close>.
\<close>

datatype LsAppState =
  LS_APP_BOOTING | LS_APP_NETWORK_ERROR | LS_APP_DISCOVERY | LS_APP_RECEIVE | LS_APP_FILE_BROWSER
| LS_APP_RECIPIENT_PICKER | LS_APP_SETTINGS

record LsUi =
  ui_initialized :: bool
  debug_view :: bool
  refresh_pressed :: bool

record LsApp =
  app_running :: bool
  app_state :: LsAppState
  app_identity :: LsDevice
  app_network :: LsNetwork
  app_discovery :: LsDiscovery
  app_http_server :: LsHttpServer
  app_outgoing :: LsOutgoingTransfer
  app_registry :: LsDeviceRegistry
  app_file_browser :: LsFileBrowser
  app_settings :: LsSettings
  app_tls_identity :: LsTlsIdentity
  app_ui :: LsUi
  selected_device :: nat
  selected_setting :: nat
  selected_file_path :: string
  selected_file_name :: string
  selected_file_size :: u64
  last_render_ms :: u64
  incoming_result_dismissed :: bool
  status_message :: string

definition LS3DS_APP_VERSION :: string where "LS3DS_APP_VERSION = ''v1.0.0''"

definition LS_SETTING_COUNT :: nat where [simp]: "LS_SETTING_COUNT = 11"

text \<open>The enumeration value of an index below \<open>LS_SETTING_COUNT\<close>.\<close>

definition settings_item :: "nat \<Rightarrow> LsSettingsItem option" where
  "settings_item i =
     (if i < LS_SETTING_COUNT
      then Some ([LS_SETTING_DEVICE_NAME, LS_SETTING_QUICK_SAVE, LS_SETTING_AUTO_FINISH, LS_SETTING_SAVE_FOLDER,
                  LS_SETTING_CONNECTION, LS_SETTING_PORT, LS_SETTING_ADVANCED, LS_SETTING_ABOUT_APP, LS_SETTING_VERSION,
                  LS_SETTING_AUTHOR, LS_SETTING_LICENSE] ! i)
      else None)"

definition incoming_terminal :: "LsTransferState \<Rightarrow> bool" where
  "incoming_terminal state \<longleftrightarrow>
     state = LS_TRANSFER_COMPLETED \<or> state = LS_TRANSFER_REJECTED \<or> state = LS_TRANSFER_CANCELLED \<or>
     state = LS_TRANSFER_FAILED"

text \<open>\<open>ls_http_server_transfer\<close>: the server's transfer.\<close>

definition app_transfer :: "LsApp \<Rightarrow> LsIncomingTransfer" where
  "app_transfer app = sv_transfer (app_http_server app)"

definition incoming_visible :: "LsApp \<Rightarrow> bool" where
  "incoming_visible app \<longleftrightarrow>
     tr_state (app_transfer app) \<noteq> LS_TRANSFER_IDLE \<and>
     (\<not> incoming_terminal (tr_state (app_transfer app)) \<or> \<not> incoming_result_dismissed app)"

end
