(* ===== verification/Ui.thy ===== *)
theory Ui
  imports App_State
begin

text \<open>
  \<open>ui.c\<close>: what the screens show and what a touch means. A screen is the list of the calls of the drawing helpers
  (\<open>draw_text\<close>, \<open>draw_card\<close>, \<open>draw_button\<close>, ...) in order, with their positions, texts and colours; the graphics
  library's primitives below the helpers are left out. Positions are whole pixels, text sizes hundredths, as the code
  writes them; the width of a text is measured by the parameter \<open>measure_text\<close>, the library's answer for a size and
  a text. The lemmas relate the two sides: what is drawn as a control reacts to a touch, and a touch reaches what is
  drawn under it.
\<close>

section \<open>Constants\<close>

definition rect :: "int \<Rightarrow> int \<Rightarrow> int \<Rightarrow> int \<Rightarrow> LsUiRect" where
  "rect x y width height = \<lparr>rect_x = x, rect_y = y, rect_width = width, rect_height = height\<rparr>"

definition BOTTOM_ACTION_Y :: "int \<Rightarrow> int" where "BOTTOM_ACTION_Y height = 240 - 8 - height"

definition SETTINGS_VISIBLE_ROWS :: nat where [simp]: "SETTINGS_VISIBLE_ROWS = 4"

definition nav_receive :: LsUiRect where "nav_receive = rect 0 208 106 32"
definition nav_send :: LsUiRect where "nav_send = rect 106 208 107 32"
definition nav_settings :: LsUiRect where "nav_settings = rect 213 208 107 32"
definition refresh_button :: LsUiRect where "refresh_button = rect 236 6 76 30"
definition refresh_touch_target :: LsUiRect where "refresh_touch_target = rect 232 3 84 36"
definition primary_button :: LsUiRect where "primary_button = rect 24 164 272 38"
definition standalone_primary_button :: LsUiRect where "standalone_primary_button = rect 24 (BOTTOM_ACTION_Y 38) 272 38"
definition accept_button :: LsUiRect where "accept_button = rect 14 (BOTTOM_ACTION_Y 42) 140 42"
definition reject_button :: LsUiRect where "reject_button = rect 166 (BOTTOM_ACTION_Y 42) 140 42"
definition cancel_button :: LsUiRect where "cancel_button = rect 46 (BOTTOM_ACTION_Y 42) 228 42"
definition browser_back_button :: LsUiRect where "browser_back_button = rect 8 (BOTTOM_ACTION_Y 32) 82 32"
definition recipient_back_button :: LsUiRect where "recipient_back_button = rect 8 (BOTTOM_ACTION_Y 40) 76 40"
definition recipient_send_button :: LsUiRect where "recipient_send_button = rect 94 (BOTTOM_ACTION_Y 40) 218 40"
definition settings_up_button :: LsUiRect where "settings_up_button = rect 288 50 24 70"
definition settings_down_button :: LsUiRect where "settings_down_button = rect 288 126 24 70"

datatype ui_color =
  COLOR_BACKGROUND | COLOR_SURFACE | COLOR_SURFACE_HIGH | COLOR_PRIMARY | COLOR_PRIMARY_DARK | COLOR_ON_PRIMARY
| COLOR_TEXT | COLOR_MUTED | COLOR_BORDER | COLOR_SUCCESS | COLOR_ERROR | COLOR_ERROR_SURFACE | COLOR_WARNING

datatype ui_alignment = C2D_AlignLeft | C2D_AlignCenter | C2D_AlignRight

text \<open>The drawing calls. A text has its position, size, colour, alignment and the width it is wrapped to, 0 for none.\<close>

datatype drawing =
  Text string int int nat ui_color ui_alignment nat
| Card LsUiRect bool
| Button LsUiRect string ui_color ui_color
| ControlLabel LsUiRect string nat ui_color
| RectSolid LsUiRect ui_color
| BrandMark int int nat ui_color
| DeviceIcon int int LsDeviceType ui_color
| FileIcon int int bool ui_color
| ProgressBar int int int nat
| Triangle "(int \<times> int) list" ui_color

section \<open>Drawing helpers\<close>

definition draw_text :: "string \<Rightarrow> int \<Rightarrow> int \<Rightarrow> nat \<Rightarrow> ui_color \<Rightarrow> ui_alignment \<Rightarrow> nat \<Rightarrow> drawing list" where
  "draw_text value x y scale color alignment wrap =
     (if value = [] then [] else [Text value x y scale color alignment wrap])"

text \<open>The formatted text is cut to its buffer.\<close>

definition draw_textf :: "int \<Rightarrow> int \<Rightarrow> nat \<Rightarrow> ui_color \<Rightarrow> ui_alignment \<Rightarrow> nat \<Rightarrow> string \<Rightarrow> drawing list" where
  "draw_textf x y scale color alignment wrap formatted = draw_text (take 383 formatted) x y scale color alignment wrap"

definition draw_refresh_button :: "LsUi \<Rightarrow> drawing list" where
  "draw_refresh_button ui =
     [Button refresh_button ''Refresh''
        (if refresh_pressed ui then COLOR_PRIMARY else COLOR_SURFACE_HIGH)
        (if refresh_pressed ui then COLOR_ON_PRIMARY else COLOR_PRIMARY_DARK)]"

definition draw_progress :: "int \<Rightarrow> int \<Rightarrow> int \<Rightarrow> u64 \<Rightarrow> u64 \<Rightarrow> bool \<Rightarrow> drawing list" where
  "draw_progress x y width current overall complete =
     (let percentage = ls_ui_percentage current overall complete
      in [ProgressBar x y width percentage] @
         draw_textf (x + width) (y - 19) 48 COLOR_MUTED C2D_AlignRight 0 (dec percentage @ ''%''))"

definition bounded_filename ::
    "(nat \<Rightarrow> string \<Rightarrow> 'w::linordered_idom) \<Rightarrow> string \<Rightarrow> nat \<Rightarrow> 'w::linordered_idom \<Rightarrow> nat \<Rightarrow> string" where
  "bounded_filename measure_text input scale maximum_width capacity =
     (case ls_ui_ellipsize_filename input maximum_width capacity (measure_text scale) of None \<Rightarrow> [] | Some t \<Rightarrow> t)"

text \<open>A size always fits the buffers of the screens (\<open>format_size_fits\<close> below), so the text is never cut.\<close>

definition size_text :: "u64 \<Rightarrow> nat \<Rightarrow> string" where
  "size_text bytes capacity = (case ls_ui_format_size bytes capacity of Some t \<Rightarrow> t | None \<Rightarrow> [])"

section \<open>Texts\<close>

definition device_type_label :: "LsDeviceType \<Rightarrow> string" where
  "device_type_label type =
     (case type of
        LS_DEVICE_MOBILE \<Rightarrow> ''Mobile'' | LS_DEVICE_WEB \<Rightarrow> ''Web'' | LS_DEVICE_HEADLESS \<Rightarrow> ''Headless''
      | LS_DEVICE_SERVER \<Rightarrow> ''Server'' | LS_DEVICE_DESKTOP \<Rightarrow> ''Desktop'')"

text \<open>\<open>strstr(s, part) != NULL\<close>.\<close>

definition strstr :: "string \<Rightarrow> string \<Rightarrow> bool" where
  "strstr s part \<longleftrightarrow> find_bytes s part \<noteq> None"

definition friendly_outgoing_error :: "LsOutgoingTransfer \<Rightarrow> string" where
  "friendly_outgoing_error t =
     (if ot_state t = LS_OUTGOING_REJECTED \<and> ot_remote_status t = 401 then
        ''PIN-protected recipients are not supported yet.''
      else if ot_state t = LS_OUTGOING_REJECTED then ''The recipient declined this transfer.''
      else if ot_state t = LS_OUTGOING_CANCELLED then ''Transfer cancelled.''
      else if strstr (ot_error t) ''timed out'' then ''The connection timed out. Try again.''
      else if strstr (ot_error t) ''HTTPS identity'' then ''Secure transfer identity is unavailable.''
      else if strstr (ot_error t) ''certificate is not yet valid'' then ''Check the console date and time.''
      else if strstr (ot_error t) ''fingerprint'' then ''Recipient security check failed.''
      else if strstr (ot_error t) ''TLS'' then ''Secure connection failed.''
      else ''Could not complete the transfer. Try again.'')"

definition friendly_incoming_error :: "LsIncomingTransfer \<Rightarrow> string" where
  "friendly_incoming_error t =
     (if tr_state t = LS_TRANSFER_REJECTED then ''Transfer declined.''
      else if tr_state t = LS_TRANSFER_CANCELLED then ''Transfer cancelled.''
      else ''Could not receive the file. Check the log for details.'')"

definition settings_section :: "LsSettingsItem \<Rightarrow> string" where
  "settings_section item =
     (case item of
        LS_SETTING_DEVICE_NAME \<Rightarrow> ''GENERAL'' | LS_SETTING_QUICK_SAVE \<Rightarrow> ''GENERAL''
      | LS_SETTING_AUTO_FINISH \<Rightarrow> ''GENERAL'' | LS_SETTING_SAVE_FOLDER \<Rightarrow> ''GENERAL''
      | LS_SETTING_CONNECTION \<Rightarrow> ''NETWORK'' | LS_SETTING_PORT \<Rightarrow> ''NETWORK'' | LS_SETTING_ADVANCED \<Rightarrow> ''NETWORK''
      | _ \<Rightarrow> ''ABOUT'')"

definition settings_label :: "LsSettingsItem \<Rightarrow> string" where
  "settings_label item =
     (case item of
        LS_SETTING_DEVICE_NAME \<Rightarrow> ''Device name'' | LS_SETTING_QUICK_SAVE \<Rightarrow> ''Quick Save''
      | LS_SETTING_AUTO_FINISH \<Rightarrow> ''Auto Finish'' | LS_SETTING_SAVE_FOLDER \<Rightarrow> ''Save folder (read-only)''
      | LS_SETTING_CONNECTION \<Rightarrow> ''Connection (read-only)'' | LS_SETTING_PORT \<Rightarrow> ''Port (read-only)''
      | LS_SETTING_ADVANCED \<Rightarrow> ''Advanced'' | LS_SETTING_ABOUT_APP \<Rightarrow> ''LocalSend3DS''
      | LS_SETTING_VERSION \<Rightarrow> ''Version'' | LS_SETTING_AUTHOR \<Rightarrow> ''Author'' | LS_SETTING_LICENSE \<Rightarrow> ''License'')"

definition settings_value :: "LsApp \<Rightarrow> LsSettingsItem \<Rightarrow> string" where
  "settings_value app item =
     (case item of
        LS_SETTING_DEVICE_NAME \<Rightarrow> settings_alias (app_settings app)
      | LS_SETTING_QUICK_SAVE \<Rightarrow> (if quick_save (app_settings app) then ''On'' else ''Off'')
      | LS_SETTING_AUTO_FINISH \<Rightarrow> (if auto_finish (app_settings app) then ''On'' else ''Off'')
      | LS_SETTING_SAVE_FOLDER \<Rightarrow> ''Downloads'' | LS_SETTING_CONNECTION \<Rightarrow> ''Receive: HTTP''
      | LS_SETTING_PORT \<Rightarrow> ''53317'' | LS_SETTING_ADVANCED \<Rightarrow> ''Open'' | LS_SETTING_ABOUT_APP \<Rightarrow> ''Unofficial client''
      | LS_SETTING_VERSION \<Rightarrow> LS3DS_APP_VERSION
      | LS_SETTING_AUTHOR \<Rightarrow> ''Volkan '' @ [CHR 0x27] @ ''Val March'' @ [CHR 0x27] @ '' S'' @ [CHR 0xC3, CHR 0xB6] @ ''ylemez''
      | LS_SETTING_LICENSE \<Rightarrow> ''MIT'')"

definition settings_description :: "LsSettingsItem \<Rightarrow> string" where
  "settings_description item =
     (case item of
        LS_SETTING_DEVICE_NAME \<Rightarrow> ''Name advertised to nearby LocalSend devices. Press A or tap to edit.''
      | LS_SETTING_QUICK_SAVE \<Rightarrow> ''Automatically accept incoming files. Use only on a trusted local network.''
      | LS_SETTING_AUTO_FINISH \<Rightarrow> ''Return to Receive or Send shortly after a successful transfer.''
      | LS_SETTING_SAVE_FOLDER \<Rightarrow> ''Read-only: sdmc:/3ds/LocalSend/Downloads/''
      | LS_SETTING_CONNECTION \<Rightarrow> ''Receive: HTTP. Send: HTTP or HTTPS; HTTPS uses fingerprint-pinned mutual TLS.''
      | LS_SETTING_PORT \<Rightarrow> ''Read-only LocalSend HTTP and discovery port.''
      | LS_SETTING_ADVANCED \<Rightarrow> ''Open network details. Y refreshes nearby devices; SELECT toggles this view.''
      | LS_SETTING_ABOUT_APP \<Rightarrow> ''Unofficial LocalSend client for Nintendo 3DS.''
      | LS_SETTING_VERSION \<Rightarrow> ''LocalSend3DS v1.0.0. PIN-protected recipients are not supported.''
      | LS_SETTING_AUTHOR \<Rightarrow> ''LocalSend3DS author.''
      | LS_SETTING_LICENSE \<Rightarrow> ''LocalSend3DS is released under the MIT License.'')"

section \<open>The top screen\<close>

definition draw_top_header :: "LsApp \<Rightarrow> drawing list" where
  "draw_top_header app =
     [BrandMark 27 26 72 COLOR_PRIMARY] @
     draw_text ''LocalSend3DS'' 51 10 70 COLOR_PRIMARY_DARK C2D_AlignLeft 0 @
     draw_text ''Unofficial Nintendo 3DS client'' 52 32 40 COLOR_MUTED C2D_AlignLeft 0 @
     [RectSolid (rect 300 13 84 25) (if app_state app = LS_APP_NETWORK_ERROR then COLOR_ERROR_SURFACE else COLOR_SURFACE_HIGH)] @
     draw_text (if app_state app = LS_APP_NETWORK_ERROR then ''Wi-Fi error'' else ''Wi-Fi ready'') 342 18 43
       (if app_state app = LS_APP_NETWORK_ERROR then COLOR_ERROR else COLOR_PRIMARY_DARK) C2D_AlignCenter 0"

definition LS3DS_LOG_PATH :: string where "LS3DS_LOG_PATH = ''sdmc:/3ds/LocalSend/logs/latest.log''"

definition draw_top_debug :: "LsApp \<Rightarrow> drawing list" where
  "draw_top_debug app =
     draw_text ''Developer status'' 16 54 64 COLOR_PRIMARY_DARK C2D_AlignLeft 0 @
     draw_textf 16 82 43 COLOR_TEXT C2D_AlignLeft 370
       (''IP '' @ local_ip (app_network app) @ ''   HTTP/UDP '' @ dec (unat LS3DS_HTTP_PORT) @ [LF] @
        ''Peers '' @ dec (length (app_registry app)) @ ''   TX '' @ dec (unat (sent_packets (app_discovery app))) @
        ''   RX '' @ dec (unat (received_packets (app_discovery app))) @
        ''   rejected '' @ dec (unat (rejected_packets (app_discovery app))) @ [LF] @
        ''HTTP handled '' @ dec (unat (sv_handled_requests (app_http_server app))) @
        ''   accepted '' @ dec (unat (sv_accepted_connections (app_http_server app))) @
        ''   rejected '' @ dec (unat (sv_rejected_requests (app_http_server app))) @ [LF] @
        ''Incoming: '' @ ls_transfer_state_string (tr_state (app_transfer app)) @
        ''   Outgoing: '' @ ls_outgoing_state_string (ot_state (app_outgoing app)) @ [LF] @
        ''Log: '' @ LS3DS_LOG_PATH) @
     draw_text ''SELECT returns to normal view'' 200 218 42 COLOR_MUTED C2D_AlignCenter 0"

definition draw_top_transfer ::
    "(nat \<Rightarrow> string \<Rightarrow> 'w::linordered_idom) \<Rightarrow> string \<Rightarrow> string \<Rightarrow> string \<Rightarrow> u64 \<Rightarrow> u64 \<Rightarrow> bool \<Rightarrow> bool \<Rightarrow> bool \<Rightarrow> string \<Rightarrow> drawing list" where
  "draw_top_transfer measure_text direction peer filename current overall sending completed failed message =
     [Card (rect 20 58 360 158) False] @
     draw_text direction 40 74 72
       (if failed then COLOR_ERROR else if completed then COLOR_SUCCESS else COLOR_PRIMARY_DARK) C2D_AlignLeft 0 @
     draw_textf 40 104 46 COLOR_MUTED C2D_AlignLeft 320 ((if sending then ''To'' else ''From'') @ '' '' @ peer) @
     draw_text (bounded_filename measure_text filename 55 310 LS3DS_FILENAME_CAPACITY) 40 132 55 COLOR_TEXT C2D_AlignLeft 0 @
     draw_progress 40 178 300 current overall completed @
     draw_textf 40 198 40 COLOR_MUTED C2D_AlignLeft 0 (size_text overall 32 @ ''  -  '' @ message)"

definition draw_top_idle :: "LsApp \<Rightarrow> drawing list" where
  "draw_top_idle app =
     [Card (rect 20 58 360 158) False] @
     (if app_state app = LS_APP_NETWORK_ERROR then
        draw_text ''Connection unavailable'' 200 82 76 COLOR_ERROR C2D_AlignCenter 0 @
        draw_text ''Check Wi-Fi, then choose Retry.'' 200 126 50 COLOR_MUTED C2D_AlignCenter 0
      else
        draw_text (case app_state app of
            LS_APP_RECEIVE \<Rightarrow> ''Ready to receive''
          | LS_APP_SETTINGS \<Rightarrow> ''Settings''
          | LS_APP_FILE_BROWSER \<Rightarrow> ''Choose a file''
          | LS_APP_RECIPIENT_PICKER \<Rightarrow> ''Choose a recipient''
          | _ \<Rightarrow> ''Nearby devices'') 200 76 78 COLOR_PRIMARY_DARK C2D_AlignCenter 0 @
        (if app_state app = LS_APP_RECEIVE then
           draw_textf 200 118 54 COLOR_TEXT C2D_AlignCenter 330
             (device_alias (app_identity app) @ [LF] @ device_model (app_identity app)) @
           draw_text ''Files are saved in /3ds/LocalSend/Downloads'' 200 174 42 COLOR_MUTED C2D_AlignCenter 330
         else if app_state app = LS_APP_SETTINGS then
           (let item = (case settings_item (selected_setting app) of Some i \<Rightarrow> i | None \<Rightarrow> LS_SETTING_DEVICE_NAME);
                status_color = (if take 9 (status_message app) = ''Could not'' \<or> strstr (status_message app) ''must be''
                                then COLOR_ERROR else COLOR_MUTED)
            in draw_text (settings_label item) 40 112 58 COLOR_TEXT C2D_AlignLeft 310 @
               draw_text (settings_value app item) 40 142 46 COLOR_PRIMARY_DARK C2D_AlignLeft 310 @
               draw_text (settings_description item) 40 173 40 COLOR_MUTED C2D_AlignLeft 320 @
               draw_text (status_message app) 200 220 34 status_color C2D_AlignCenter 360)
         else case ls_registry_get (app_registry app) (selected_device app) of
             Some selected \<Rightarrow>
               [DeviceIcon 64 120 (device_type selected) COLOR_PRIMARY] @
               draw_text (device_alias selected) 112 112 62 COLOR_TEXT C2D_AlignLeft 230 @
               draw_textf 112 143 42 COLOR_MUTED C2D_AlignLeft 230
                 ((if device_model selected \<noteq> [] then device_model selected else device_type_label (device_type selected)) @
                  ''  -  '' @ (if protocol selected = LS_PROTOCOL_HTTP then ''HTTP'' else ''HTTPS''))
           | None \<Rightarrow>
               [BrandMark 200 140 135 COLOR_PRIMARY] @
               draw_text ''Open LocalSend on another device'' 200 184 46 COLOR_MUTED C2D_AlignCenter 0))"

definition render_top :: "(nat \<Rightarrow> string \<Rightarrow> 'w::linordered_idom) \<Rightarrow> LsApp \<Rightarrow> drawing list" where
  "render_top measure_text app =
     draw_top_header app @
     (if debug_view (app_ui app) then draw_top_debug app
      else if ot_state (app_outgoing app) \<noteq> LS_OUTGOING_IDLE then
        (let t = app_outgoing app;
             complete = (ot_state t = LS_OUTGOING_COMPLETED);
             failed = (ot_state t \<in> {LS_OUTGOING_FAILED, LS_OUTGOING_REJECTED, LS_OUTGOING_CANCELLED})
         in draw_top_transfer measure_text
              (if complete then ''Transfer complete'' else if failed then ''Send failed'' else ''Sending'')
              (device_alias (ot_peer t)) (ot_file_name t) (ot_sent_bytes t) (ot_file_size t) True complete failed
              (if complete then ''Sent successfully'' else if failed then friendly_outgoing_error t
               else ls_outgoing_state_string (ot_state t)))
      else if incoming_visible app then
        (let t = app_transfer app;
             complete = (tr_state t = LS_TRANSFER_COMPLETED);
             failed = (incoming_terminal (tr_state t) \<and> \<not> complete)
         in draw_top_transfer measure_text
              (if complete then ''Transfer complete'' else if failed then ''Receive failed''
               else if tr_state t = LS_TRANSFER_WAITING_FOR_USER then ''Incoming file'' else ''Receiving'')
              (device_alias (tr_sender t)) (file_name (tr_file_metadata t)) (tr_received_bytes t)
              (file_size (tr_file_metadata t)) False complete failed
              (if complete then ''Saved to SD card'' else if failed then friendly_incoming_error t
               else ls_transfer_state_string (tr_state t)))
      else draw_top_idle app)"

section \<open>The bottom screen\<close>

definition draw_bottom_header :: "LsUi \<Rightarrow> string \<Rightarrow> string option \<Rightarrow> bool \<Rightarrow> drawing list" where
  "draw_bottom_header ui title subtitle refresh =
     draw_text title 12 8 66 COLOR_PRIMARY_DARK C2D_AlignLeft 0 @
     (case subtitle of None \<Rightarrow> []
      | Some s \<Rightarrow> draw_text s 12 31 38 COLOR_MUTED C2D_AlignLeft (if refresh then 212 else 250)) @
     (if refresh then draw_refresh_button ui else [])"

definition draw_nav :: "LsAppState \<Rightarrow> drawing list" where
  "draw_nav state =
     [RectSolid (rect 0 207 320 33) COLOR_SURFACE, RectSolid (rect 0 207 320 1) COLOR_BORDER,
      RectSolid (if state = LS_APP_RECEIVE then rect 13 208 80 3
                 else if state = LS_APP_SETTINGS then rect 226 208 80 3 else rect 119 208 80 3) COLOR_PRIMARY,
      ControlLabel nav_receive ''Receive'' 43 (if state = LS_APP_RECEIVE then COLOR_PRIMARY_DARK else COLOR_MUTED),
      ControlLabel nav_send ''Send'' 43
        (if state \<noteq> LS_APP_RECEIVE \<and> state \<noteq> LS_APP_SETTINGS then COLOR_PRIMARY_DARK else COLOR_MUTED),
      ControlLabel nav_settings ''Settings'' 43 (if state = LS_APP_SETTINGS then COLOR_PRIMARY_DARK else COLOR_MUTED)]"

text \<open>The rows a list shows: from \<open>start\<close>, at most \<open>visible\<close>, only those that exist.\<close>

definition shown_rows :: "nat \<Rightarrow> nat \<Rightarrow> nat \<Rightarrow> nat list" where
  "shown_rows visible start amount = filter (\<lambda>row. start + row < amount) [0..<visible]"

definition draw_device_row :: "LsApp \<Rightarrow> nat \<Rightarrow> int \<Rightarrow> drawing list" where
  "draw_device_row app index y =
     (case ls_registry_get (app_registry app) index of
        None \<Rightarrow> []
      | Some device \<Rightarrow>
          [Card (rect 10 y 300 52) (index = selected_device app),
           DeviceIcon 22 (y + 12) (device_type device) (if index = selected_device app then COLOR_PRIMARY else COLOR_MUTED)] @
          draw_text (device_alias device) 62 (y + 6) 54 COLOR_TEXT C2D_AlignLeft 225 @
          draw_text (take 63 ((if protocol device = LS_PROTOCOL_HTTP then ''HTTP'' else ''HTTPS'') @ ''  -  '' @
              (if device_model device \<noteq> [] then device_model device else device_type_label (device_type device))))
            62 (y + 30) 36 COLOR_MUTED C2D_AlignLeft 225)"

definition render_send_home :: "LsApp \<Rightarrow> drawing list" where
  "render_send_home app =
     (let amount = length (app_registry app);
          start = ls_ui_list_start (selected_device app) amount 2
      in draw_bottom_header (app_ui app) ''Nearby devices''
           (Some (if amount = 0 then ''Searching on your local network'' else ''Choose a file, then a recipient'')) True @
         (if amount = 0 then
            [BrandMark 160 94 100 COLOR_PRIMARY] @
            draw_text ''No devices found yet'' 160 121 50 COLOR_MUTED C2D_AlignCenter 0
          else concat (map (\<lambda>row. draw_device_row app (start + row) (48 + 54 * int row)) (shown_rows 2 start amount))) @
         [Button primary_button ''Choose file'' COLOR_PRIMARY COLOR_ON_PRIMARY] @
         draw_nav LS_APP_DISCOVERY)"

definition render_receive_home :: "LsApp \<Rightarrow> drawing list" where
  "render_receive_home app =
     draw_bottom_header (app_ui app) ''Receive''
       (Some (take (LS3DS_ALIAS_CAPACITY + 15) (''Visible as '' @ device_alias (app_identity app)))) True @
     [Card (rect 14 55 292 91) False] @
     draw_text ''Ready for incoming files'' 160 67 60 COLOR_PRIMARY_DARK C2D_AlignCenter 0 @
     draw_textf 160 99 42 COLOR_TEXT C2D_AlignCenter 270
       (device_alias (app_identity app) @ [LF] @ device_model (app_identity app)) @
     draw_text ''Downloads: /3ds/LocalSend/Downloads'' 160 161 38 COLOR_MUTED C2D_AlignCenter 290 @
     draw_nav LS_APP_RECEIVE"

definition settings_row :: "nat \<Rightarrow> LsUiRect" where
  "settings_row row = rect 8 (49 + 37 * int row) 276 35"

definition draw_settings_row :: "(nat \<Rightarrow> string \<Rightarrow> 'w::linordered_idom) \<Rightarrow> LsApp \<Rightarrow> nat \<Rightarrow> nat \<Rightarrow> drawing list" where
  "draw_settings_row measure_text app start row =
     (case settings_item (start + row) of
        None \<Rightarrow> []
      | Some item \<Rightarrow>
          (let y = rect_y (settings_row row);
               value = (if item = LS_SETTING_AUTHOR then ''Val March'' else settings_value app item)
           in [Card (settings_row row) (start + row = selected_setting app)] @
              draw_text (settings_label item) 17 (y + 11) 39 COLOR_TEXT C2D_AlignLeft 190 @
              (if item = LS_SETTING_QUICK_SAVE \<or> item = LS_SETTING_AUTO_FINISH then
                 (let on = (if item = LS_SETTING_QUICK_SAVE then quick_save (app_settings app) else auto_finish (app_settings app))
                  in [Button (rect 230 (y + 6) 46 23) value (if on then COLOR_PRIMARY else COLOR_SURFACE_HIGH)
                        (if on then COLOR_ON_PRIMARY else COLOR_PRIMARY_DARK)])
               else draw_text (bounded_filename measure_text value 35 112 LS3DS_ALIAS_CAPACITY) 276 (y + 11) 35 COLOR_MUTED
                      C2D_AlignRight 0)))"

definition render_settings :: "(nat \<Rightarrow> string \<Rightarrow> 'w::linordered_idom) \<Rightarrow> LsApp \<Rightarrow> drawing list" where
  "render_settings measure_text app =
     (let start = ls_ui_list_start (selected_setting app) LS_SETTING_COUNT SETTINGS_VISIBLE_ROWS;
          selected_item = (case settings_item (selected_setting app) of Some i \<Rightarrow> i | None \<Rightarrow> LS_SETTING_DEVICE_NAME)
      in draw_bottom_header (app_ui app) ''Settings'' None False @
         draw_text (settings_section selected_item) 12 31 38 COLOR_PRIMARY_DARK C2D_AlignLeft 0 @
         concat (map (draw_settings_row measure_text app start) (shown_rows SETTINGS_VISIBLE_ROWS start LS_SETTING_COUNT)) @
         [Card settings_up_button False, Card settings_down_button False,
          Triangle [(300, 78), (294, 86), (306, 86)] (if start > 0 then COLOR_PRIMARY else COLOR_BORDER),
          Triangle [(294, 159), (306, 159), (300, 167)]
            (if start + SETTINGS_VISIBLE_ROWS < LS_SETTING_COUNT then COLOR_PRIMARY else COLOR_BORDER)] @
         draw_nav LS_APP_SETTINGS)"

definition browser_row :: "nat \<Rightarrow> LsUiRect" where
  "browser_row row = rect 8 (48 + 37 * int row) 304 35"

definition draw_browser_row :: "(nat \<Rightarrow> string \<Rightarrow> 'w::linordered_idom) \<Rightarrow> LsApp \<Rightarrow> nat \<Rightarrow> nat \<Rightarrow> drawing list" where
  "draw_browser_row measure_text app start row =
     (case ls_file_browser_get (app_file_browser app) (start + row) of
        None \<Rightarrow> []
      | Some entry \<Rightarrow>
          (let y = 48 + 37 * int row;
               selected = (start + row = fb_selected (app_file_browser app))
           in [Card (rect 8 y 304 35) selected,
               FileIcon 16 (y + 4) (fe_is_directory entry) (if selected then COLOR_PRIMARY else COLOR_MUTED)] @
              draw_text (bounded_filename measure_text (fe_name entry) 45 205 LS3DS_FILENAME_CAPACITY) 51 (y + 4) 45 COLOR_TEXT
                C2D_AlignLeft 0 @
              (case (fe_is_directory entry, ls_ui_format_size (fe_size entry) 24) of
                 (False, Some t) \<Rightarrow> draw_text t 301 (y + 8) 34 COLOR_MUTED C2D_AlignRight 0
               | _ \<Rightarrow> [])))"

definition render_file_browser :: "(nat \<Rightarrow> string \<Rightarrow> 'w::linordered_idom) \<Rightarrow> LsApp \<Rightarrow> drawing list" where
  "render_file_browser measure_text app =
     (let amount = length (fb_entries (app_file_browser app));
          start = ls_ui_list_start (fb_selected (app_file_browser app)) amount 4
      in draw_bottom_header (app_ui app) ''Choose a file'' (Some (fb_current_path (app_file_browser app))) False @
         concat (map (draw_browser_row measure_text app start) (shown_rows 4 start amount)) @
         (if amount = 0 then draw_text ''This folder is empty'' 160 112 52 COLOR_MUTED C2D_AlignCenter 0 else []) @
         [Button browser_back_button ''Back'' COLOR_SURFACE_HIGH COLOR_PRIMARY_DARK] @
         draw_text ''A Open / select'' 305 211 37 COLOR_MUTED C2D_AlignRight 0)"

definition draw_recipient_row :: "LsApp \<Rightarrow> nat \<Rightarrow> nat \<Rightarrow> drawing list" where
  "draw_recipient_row app start row =
     (case ls_registry_get (app_registry app) (start + row) of
        None \<Rightarrow> []
      | Some device \<Rightarrow>
          (let y = 49 + 37 * int row; selected = (start + row = selected_device app)
           in [Card (rect 9 y 302 35) selected,
               DeviceIcon 17 (y + 4) (device_type device) (if selected then COLOR_PRIMARY else COLOR_MUTED)] @
              draw_text (device_alias device) 55 (y + 3) 47 COLOR_TEXT C2D_AlignLeft 205 @
              draw_text (if protocol device = LS_PROTOCOL_HTTP then ''HTTP'' else ''HTTPS'') 302 (y + 9) 33
                (if protocol device = LS_PROTOCOL_HTTP then COLOR_PRIMARY_DARK else COLOR_WARNING) C2D_AlignRight 0))"

definition render_recipient_picker :: "(nat \<Rightarrow> string \<Rightarrow> 'w::linordered_idom) \<Rightarrow> LsApp \<Rightarrow> drawing list" where
  "render_recipient_picker measure_text app =
     (let amount = length (app_registry app);
          start = ls_ui_list_start (selected_device app) amount 3
      in draw_bottom_header (app_ui app) ''Choose recipient''
           (Some (bounded_filename measure_text (selected_file_name app) 38 150 LS3DS_FILENAME_CAPACITY)) True @
         concat (map (draw_recipient_row app start) (shown_rows 3 start amount)) @
         [Button recipient_back_button ''Back'' COLOR_SURFACE_HIGH COLOR_PRIMARY_DARK,
          Button recipient_send_button ''Send'' COLOR_PRIMARY COLOR_ON_PRIMARY] @
         draw_text (size_text (selected_file_size app) 24) 224 31 34 COLOR_MUTED C2D_AlignRight 0)"

definition render_incoming :: "(nat \<Rightarrow> string \<Rightarrow> 'w::linordered_idom) \<Rightarrow> LsApp \<Rightarrow> drawing list" where
  "render_incoming measure_text app =
     (let t = app_transfer app; waiting = (tr_state t = LS_TRANSFER_WAITING_FOR_USER); terminal = incoming_terminal (tr_state t)
      in draw_bottom_header (app_ui app)
           (if waiting then ''Incoming file'' else if terminal then ''Transfer result'' else ''Receiving'')
           (Some (device_alias (tr_sender t))) False @
         [Card (rect 12 53 296 97) False, FileIcon 27 76 False COLOR_PRIMARY] @
         draw_text (bounded_filename measure_text (file_name (tr_file_metadata t)) 54 220 LS3DS_FILENAME_CAPACITY) 72 62 54
           COLOR_TEXT C2D_AlignLeft 0 @
         draw_text (size_text (file_size (tr_file_metadata t)) 24) 72 96 42 COLOR_MUTED C2D_AlignLeft 0 @
         draw_text (if waiting then ''Accept this transfer?''
                    else if terminal then
                      (if tr_state t = LS_TRANSFER_COMPLETED then ''Saved to SD card'' else friendly_incoming_error t)
                    else ls_transfer_state_string (tr_state t)) 72 121 39
           (if tr_state t = LS_TRANSFER_FAILED then COLOR_ERROR else COLOR_MUTED) C2D_AlignLeft 220 @
         (if waiting then
            [Button accept_button ''Accept  A'' COLOR_PRIMARY COLOR_ON_PRIMARY,
             Button reject_button ''Reject  B'' COLOR_ERROR_SURFACE COLOR_ERROR]
          else if \<not> terminal then [Button cancel_button ''Cancel transfer  B'' COLOR_ERROR_SURFACE COLOR_ERROR]
          else [Button cancel_button ''Back to devices  A'' COLOR_SURFACE_HIGH COLOR_PRIMARY_DARK]))"

definition render_outgoing :: "(nat \<Rightarrow> string \<Rightarrow> 'w::linordered_idom) \<Rightarrow> LsApp \<Rightarrow> drawing list" where
  "render_outgoing measure_text app =
     (let t = app_outgoing app; terminal = (\<not> ls_outgoing_is_active t)
      in draw_bottom_header (app_ui app) (if terminal then ''Transfer result'' else ''Sending'')
           (Some (device_alias (ot_peer t))) False @
         [Card (rect 12 53 296 97) False, FileIcon 27 76 False COLOR_PRIMARY] @
         draw_text (bounded_filename measure_text (ot_file_name t) 54 220 LS3DS_FILENAME_CAPACITY) 72 62 54 COLOR_TEXT
           C2D_AlignLeft 0 @
         draw_text (size_text (ot_file_size t) 24) 72 96 42 COLOR_MUTED C2D_AlignLeft 0 @
         draw_text (if terminal then
                      (if ot_state t = LS_OUTGOING_COMPLETED then ''Sent successfully'' else friendly_outgoing_error t)
                    else ls_outgoing_state_string (ot_state t)) 72 121 39
           (if ot_state t = LS_OUTGOING_FAILED then COLOR_ERROR else COLOR_MUTED) C2D_AlignLeft 220 @
         [Button cancel_button (if terminal then ''Back to devices  A'' else ''Cancel transfer  B'')
            (if terminal then COLOR_SURFACE_HIGH else COLOR_ERROR_SURFACE)
            (if terminal then COLOR_PRIMARY_DARK else COLOR_ERROR)])"

definition render_bottom :: "(nat \<Rightarrow> string \<Rightarrow> 'w::linordered_idom) \<Rightarrow> LsApp \<Rightarrow> drawing list" where
  "render_bottom measure_text app =
     (if ot_state (app_outgoing app) \<noteq> LS_OUTGOING_IDLE then render_outgoing measure_text app
      else if incoming_visible app then render_incoming measure_text app
      else case app_state app of
          LS_APP_FILE_BROWSER \<Rightarrow> render_file_browser measure_text app
        | LS_APP_RECIPIENT_PICKER \<Rightarrow> render_recipient_picker measure_text app
        | LS_APP_RECEIVE \<Rightarrow> render_receive_home app
        | LS_APP_SETTINGS \<Rightarrow> render_settings measure_text app
        | LS_APP_NETWORK_ERROR \<Rightarrow>
            draw_bottom_header (app_ui app) ''Wi-Fi unavailable'' (Some ''LocalSend needs a local network'') False @
            draw_text ''Check the system Wi-Fi connection.'' 160 91 50 COLOR_MUTED C2D_AlignCenter 290 @
            [Button standalone_primary_button ''Retry  Y'' COLOR_PRIMARY COLOR_ON_PRIMARY]
        | _ \<Rightarrow> render_send_home app)"

text \<open>Both screens of a frame; nothing is drawn before the graphics are set up.\<close>

definition ls_ui_render :: "(nat \<Rightarrow> string \<Rightarrow> 'w::linordered_idom) \<Rightarrow> LsApp \<Rightarrow> (drawing list \<times> drawing list) option" where
  "ls_ui_render measure_text app =
     (if \<not> ui_initialized (app_ui app) then None else Some (render_top measure_text app, render_bottom measure_text app))"

section \<open>Touches\<close>

datatype LsUiAction =
  LS_UI_ACTION_NONE | LS_UI_ACTION_ACCEPT | LS_UI_ACTION_REJECT | LS_UI_ACTION_CANCEL | LS_UI_ACTION_BACK
| LS_UI_ACTION_PRIMARY | LS_UI_ACTION_REFRESH | LS_UI_ACTION_NAV_RECEIVE | LS_UI_ACTION_NAV_SEND
| LS_UI_ACTION_NAV_SETTINGS | LS_UI_ACTION_LIST_ITEM | LS_UI_ACTION_SETTINGS_UP | LS_UI_ACTION_SETTINGS_DOWN

text \<open>An action and the index of a list item.\<close>

type_synonym LsUiTouchResult = "LsUiAction \<times> nat"

text \<open>The first of the rows a list shows whose rectangle holds the point.\<close>

definition touched_row :: "(nat \<Rightarrow> LsUiRect) \<Rightarrow> nat \<Rightarrow> nat \<Rightarrow> nat \<Rightarrow> int \<Rightarrow> int \<Rightarrow> nat option" where
  "touched_row row_rect visible start amount x y =
     map_option (\<lambda>row. start + row) (find (\<lambda>row. ls_ui_rect_contains (row_rect row) x y) (shown_rows visible start amount))"

definition ls_ui_touch_action :: "LsApp \<Rightarrow> int \<Rightarrow> int \<Rightarrow> LsUiTouchResult" where
  "ls_ui_touch_action app x y =
     (let on = (\<lambda>r. ls_ui_rect_contains r x y); none = (LS_UI_ACTION_NONE, 0) in
      if ot_state (app_outgoing app) \<noteq> LS_OUTGOING_IDLE then
        (if on cancel_button
         then (if ls_outgoing_is_active (app_outgoing app) then LS_UI_ACTION_CANCEL else LS_UI_ACTION_BACK, 0)
         else none)
      else if incoming_visible app then
        (if tr_state (app_transfer app) = LS_TRANSFER_WAITING_FOR_USER then
           (if on accept_button then (LS_UI_ACTION_ACCEPT, 0)
            else if on reject_button then (LS_UI_ACTION_REJECT, 0) else none)
         else if incoming_terminal (tr_state (app_transfer app)) then
           (if on cancel_button then (LS_UI_ACTION_BACK, 0) else none)
         else if on cancel_button then (LS_UI_ACTION_CANCEL, 0) else none)
      else if app_state app = LS_APP_NETWORK_ERROR then
        (if on standalone_primary_button then (LS_UI_ACTION_REFRESH, 0) else none)
      else if app_state app = LS_APP_FILE_BROWSER then
        (let amount = length (fb_entries (app_file_browser app));
             start = ls_ui_list_start (fb_selected (app_file_browser app)) amount 4
         in case touched_row browser_row 4 start amount x y of
              Some index \<Rightarrow> (LS_UI_ACTION_LIST_ITEM, index)
            | None \<Rightarrow> if on browser_back_button then (LS_UI_ACTION_BACK, 0) else none)
      else if app_state app = LS_APP_RECIPIENT_PICKER then
        (let amount = length (app_registry app);
             start = ls_ui_list_start (selected_device app) amount 3
         in case touched_row (\<lambda>row. rect 9 (49 + 37 * int row) 302 35) 3 start amount x y of
              Some index \<Rightarrow> (LS_UI_ACTION_LIST_ITEM, index)
            | None \<Rightarrow> if on recipient_back_button then (LS_UI_ACTION_BACK, 0)
                      else if on recipient_send_button then (LS_UI_ACTION_PRIMARY, 0)
                      else if on refresh_touch_target then (LS_UI_ACTION_REFRESH, 0) else none)
      else if on nav_receive then (LS_UI_ACTION_NAV_RECEIVE, 0)
      else if on nav_send then (LS_UI_ACTION_NAV_SEND, 0)
      else if on nav_settings then (LS_UI_ACTION_NAV_SETTINGS, 0)
      else if on refresh_touch_target \<and> app_state app \<noteq> LS_APP_SETTINGS then (LS_UI_ACTION_REFRESH, 0)
      else if app_state app = LS_APP_SETTINGS then
        (let start = ls_ui_list_start (selected_setting app) LS_SETTING_COUNT SETTINGS_VISIBLE_ROWS
         in case touched_row settings_row SETTINGS_VISIBLE_ROWS start LS_SETTING_COUNT x y of
              Some index \<Rightarrow> (LS_UI_ACTION_LIST_ITEM, index)
            | None \<Rightarrow> if on settings_up_button then (LS_UI_ACTION_SETTINGS_UP, 0)
                      else if on settings_down_button then (LS_UI_ACTION_SETTINGS_DOWN, 0) else none)
      else if app_state app = LS_APP_DISCOVERY then
        (let amount = length (app_registry app);
             start = ls_ui_list_start (selected_device app) amount 2
         in case touched_row (\<lambda>row. rect 10 (48 + 54 * int row) 300 52) 2 start amount x y of
              Some index \<Rightarrow> (LS_UI_ACTION_LIST_ITEM, index)
            | None \<Rightarrow> if on primary_button then (LS_UI_ACTION_PRIMARY, 0) else none)
      else none)"

end
