(* ===== verification/Application.thy ===== *)
theory Application
  imports Ui Tls_Bundle
begin

text \<open>
  \<open>app.c\<close>: the application as a function of what one frame of the console brings: the keys, the touch, the time,
  what the socket service and the software keyboard answer. \<open>ls_app_run\<close> is the loop over the frames until the
  system ends it. Messages on the screen are C strings cut to their buffer; log lines are left out.
\<close>

section \<open>What a frame brings\<close>

datatype key =
  KEY_A | KEY_B | KEY_SELECT | KEY_START | KEY_L | KEY_R | KEY_Y | KEY_DUP | KEY_DDOWN | KEY_CPAD_UP | KEY_CPAD_DOWN
| KEY_TOUCH

text \<open>\<open>fi_keyboard\<close> is the text in the buffer of the software keyboard when it is left with Save.\<close>

record frame_input =
  keys_down :: "key set"
  keys_repeat :: "key set"
  keys_held :: "key set"
  touch_position :: "int \<times> int"
  frame_now :: u64
  fi_soc :: soc_answer
  fi_keyboard :: "string option"

type_synonym app_world = "LsApp \<times> world"

definition LS3DS_SETTINGS_DIRECTORY :: string where "LS3DS_SETTINGS_DIRECTORY = ''sdmc:/3ds/LocalSend''"
definition LS3DS_SETTINGS_PATH :: string where "LS3DS_SETTINGS_PATH = LS3DS_SETTINGS_DIRECTORY @ ''/settings.conf''"
definition LS3DS_TLS_IDENTITY_PATH :: string where
  "LS3DS_TLS_IDENTITY_PATH = LS3DS_SETTINGS_DIRECTORY @ ''/tls-identity.bin''"
definition LS3DS_AUTO_FINISH_DELAY_MS :: u64 where "LS3DS_AUTO_FINISH_DELAY_MS = 2500"
definition LS3DS_DEVICE_TIMEOUT_MS :: u64 where "LS3DS_DEVICE_TIMEOUT_MS = 60000"

definition show_message :: "string \<Rightarrow> LsApp \<Rightarrow> LsApp" where
  "show_message message app = app\<lparr>status_message := take 95 message\<rparr>"

definition enter :: "LsAppState \<Rightarrow> LsApp \<Rightarrow> LsApp" where
  "enter state app = app\<lparr>app_state := state\<rparr>"

text \<open>\<open>%08lX\<close> of a result.\<close>

definition hex8 :: "int \<Rightarrow> string" where
  "hex8 result =
     map (\<lambda>i. ''0123456789ABCDEF'' ! unat (drop_bit (4 * i) (word_of_int result :: u32) AND 0xf)) (rev [0..<8])"

section \<open>The network services\<close>

definition stop_network_services :: "app_world \<Rightarrow> app_world" where
  "stop_network_services = (\<lambda>(app, w).
     (case ls_outgoing_abort (app_outgoing app, w) of
        (outgoing, w) \<Rightarrow>
          (case ls_discovery_stop (app_discovery app, w) of
             (discovery, w) \<Rightarrow>
               (case ls_http_server_stop (app_http_server app, w) of
                  (server, w) \<Rightarrow>
                    (app\<lparr>app_outgoing := outgoing, app_discovery := discovery, app_http_server := server,
                         app_network := ls_network_shutdown (app_network app)\<rparr>, w)))))"

text \<open>A step that fails: everything is stopped and the error screen shown.\<close>

definition network_failed :: "string \<Rightarrow> app_world \<Rightarrow> bool \<times> app_world" where
  "network_failed message = (\<lambda>(app, w). (False, show_message message (enter LS_APP_NETWORK_ERROR app), w))"

definition start_network_services :: "soc_answer \<Rightarrow> u64 \<Rightarrow> app_world \<Rightarrow> bool \<times> app_world" where
  "start_network_services answer now st =
     (case stop_network_services st of
        (app, w) \<Rightarrow>
          (case ls_network_init answer of
             (False, network) \<Rightarrow>
               network_failed (''Wi-Fi init failed (Result '' @ hex8 (net_last_result network) @ '', errno '' @
                 dec (net_last_errno network) @ '')'') (app\<lparr>app_network := network\<rparr>, w)
           | (True, network) \<Rightarrow>
               (case ls_http_server_start (app_http_server app, w) of
                  (False, server, w) \<Rightarrow>
                    network_failed (''HTTP server failed (errno '' @ dec (sv_last_errno server) @ '')'')
                      (stop_network_services (app\<lparr>app_network := network, app_http_server := server\<rparr>, w))
                | (True, server, w) \<Rightarrow>
                    (let app = app\<lparr>app_network := network,
                           app_http_server := ls_http_server_set_quick_save (quick_save (app_settings app)) server\<rparr>
                     in case ls_discovery_start (local_ip network) now (app_discovery app, w) of
                          (False, discovery, w) \<Rightarrow>
                            network_failed (''Multicast failed (errno '' @ dec (disc_last_errno discovery) @ '')'')
                              (stop_network_services (app\<lparr>app_discovery := discovery\<rparr>, w))
                        | (True, discovery, w) \<Rightarrow>
                            (True,
                             show_message (''Listening on '' @ local_ip network @ '':'' @ dec (unat LS3DS_HTTP_PORT))
                               (enter LS_APP_DISCOVERY (app\<lparr>app_discovery := discovery\<rparr>)), w)))))"

section \<open>Start and end of the program\<close>

definition ls_ui_init :: "bool \<Rightarrow> bool \<times> LsUi" where
  "ls_ui_init graphics = (graphics, \<lparr>ui_initialized = graphics, debug_view = False, refresh_pressed = False\<rparr>)"

definition ls_ui_shutdown :: "LsUi \<Rightarrow> LsUi" where
  "ls_ui_shutdown ui = (if \<not> ui_initialized ui then ui else snd (ls_ui_init False))"

definition zero_app :: LsApp where
  "zero_app =
     \<lparr>app_running = False, app_state = LS_APP_BOOTING, app_identity = zero_device, app_network = zero_network,
      app_discovery = zero_discovery, app_http_server = zero_server [], app_outgoing = ls_outgoing_init,
      app_registry = ls_registry_init, app_file_browser = zero_browser,
      app_settings = \<lparr>settings_alias = [], quick_save = False, auto_finish = False\<rparr>,
      app_tls_identity = ls_tls_identity_init, app_ui = snd (ls_ui_init False), selected_device = 0,
      selected_setting = 0, selected_file_path = [], selected_file_name = [], selected_file_size = 0,
      last_render_ms = 0, incoming_result_dismissed = False, status_message = []\<rparr>"

definition load_settings :: "app_world \<Rightarrow> app_world" where
  "load_settings = (\<lambda>(app, w).
     (case ls_filesystem_ensure_directory LS3DS_SETTINGS_DIRECTORY w of
        (False, w) \<Rightarrow> (app\<lparr>app_settings := ls_settings_defaults\<rparr>, w)
      | (True, w) \<Rightarrow>
          (case ls_settings_load ls_settings_defaults LS3DS_SETTINGS_PATH w of
             (_, settings, w) \<Rightarrow> (app\<lparr>app_settings := settings\<rparr>, w))))"

definition load_tls_identity :: "tls_library \<Rightarrow> app_world \<Rightarrow> app_world" where
  "load_tls_identity tls = (\<lambda>(app, w).
     (case ls_filesystem_ensure_directory LS3DS_SETTINGS_DIRECTORY w of
        (False, w) \<Rightarrow> (app, w)
      | (True, w) \<Rightarrow>
          (case ls_tls_identity_load_or_create tls (app_tls_identity app) LS3DS_TLS_IDENTITY_PATH w of
             (_, identity, w) \<Rightarrow> (app\<lparr>app_tls_identity := identity\<rparr>, w))))"

text \<open>The graphics library, the TLS library, the model of the console and the socket service are arguments.\<close>

definition ls_app_init ::
    "bool \<Rightarrow> tls_library \<Rightarrow> CFG_SystemModel option \<Rightarrow> soc_answer \<Rightarrow> u64 \<Rightarrow> world \<Rightarrow> bool \<times> app_world" where
  "ls_app_init graphics tls model answer now w =
     (case ls_ui_init graphics of
        (False, ui) \<Rightarrow> (False, zero_app\<lparr>app_ui := ui\<rparr>, w)
      | (True, ui) \<Rightarrow>
          (case load_tls_identity tls (load_settings (zero_app\<lparr>app_ui := ui, app_running := True\<rparr>, w)) of
             (app, w) \<Rightarrow>
               (case ls_identity_create model w of
                  (False, identity, w) \<Rightarrow>
                    (True, show_message ''Secure identity generation failed''
                       (enter LS_APP_NETWORK_ERROR (app\<lparr>app_identity := identity\<rparr>)), w)
                | (True, identity, w) \<Rightarrow>
                    (True, snd (start_network_services answer now
                       (app\<lparr>app_identity := identity\<lparr>device_alias := settings_alias (app_settings app)\<rparr>\<rparr>, w))))))"

definition ls_app_shutdown :: "app_world \<Rightarrow> app_world" where
  "ls_app_shutdown st =
     (case stop_network_services st of
        (app, w) \<Rightarrow>
          (app\<lparr>app_tls_identity := ls_tls_identity_free (app_tls_identity app), app_ui := ls_ui_shutdown (app_ui app),
               app_running := False\<rparr>, w))"

section \<open>What the user does\<close>

definition open_file_browser :: "dir_library \<Rightarrow> app_world \<Rightarrow> app_world" where
  "open_file_browser lib = (\<lambda>(app, w).
     (case ls_file_browser_init lib ''sdmc:/'' (app_file_browser app) w of
        (True, browser, w) \<Rightarrow>
          (show_message ''Browse SD card'' (enter LS_APP_FILE_BROWSER (app\<lparr>app_file_browser := browser\<rparr>)), w)
      | (False, browser, w) \<Rightarrow> (show_message (fb_error browser) (app\<lparr>app_file_browser := browser\<rparr>), w)))"

definition activate_file_entry :: "dir_library \<Rightarrow> app_world \<Rightarrow> app_world" where
  "activate_file_entry lib = (\<lambda>(app, w).
     (let browser = app_file_browser app in
      if (case ls_file_browser_get browser (fb_selected browser) of None \<Rightarrow> False | Some e \<Rightarrow> fe_is_directory e) then
        (case ls_file_browser_enter lib (fb_selected browser) browser w of
           (ok, browser, w) \<Rightarrow>
             (let app = app\<lparr>app_file_browser := browser\<rparr>
              in (if ok then app else show_message (fb_error browser) app, w)))
      else
        (case ls_file_browser_selected_file browser LS3DS_PATH_CAPACITY LS3DS_FILENAME_CAPACITY of
           None \<Rightarrow> (app, w)
         | Some (path, name, bytes) \<Rightarrow>
             (show_message ''Select a recipient''
                (enter LS_APP_RECIPIENT_PICKER
                   (app\<lparr>selected_file_path := path, selected_file_name := name, selected_file_size := bytes\<rparr>)), w))))"

definition start_selected_outgoing :: "u64 \<Rightarrow> app_world \<Rightarrow> app_world" where
  "start_selected_outgoing now = (\<lambda>(app, w).
     (case ls_registry_get (app_registry app) (selected_device app) of
        None \<Rightarrow> (app, w)
      | Some peer \<Rightarrow>
          (case ls_outgoing_start (app_identity app) (Some (app_tls_identity app)) peer (selected_file_path app)
                  (selected_file_name app) now (app_outgoing app, w) of
             (ok, outgoing, w) \<Rightarrow>
               (show_message (if ok then ''Sending metadata to '' @ take 60 (device_alias peer) else ot_error outgoing)
                  (app\<lparr>app_outgoing := outgoing\<rparr>), w))))"

definition persist_settings :: "LsSettings \<Rightarrow> app_world \<Rightarrow> bool \<times> app_world" where
  "persist_settings updated = (\<lambda>(app, w).
     (case ls_filesystem_ensure_directory LS3DS_SETTINGS_DIRECTORY w of
        (False, w) \<Rightarrow> (False, show_message ''Could not save settings'' app, w)
      | (True, w) \<Rightarrow>
          (case ls_settings_save updated LS3DS_SETTINGS_PATH w of
             (False, w) \<Rightarrow> (False, show_message ''Could not save settings'' app, w)
           | (True, w) \<Rightarrow> (True, app\<lparr>app_settings := updated\<rparr>, w))))"

definition edit_device_name :: "string option \<Rightarrow> u64 \<Rightarrow> app_world \<Rightarrow> app_world" where
  "edit_device_name keyboard now = (\<lambda>(app, w).
     (case keyboard of
        None \<Rightarrow> (app, w)
      | Some edited \<Rightarrow>
          (case ls_settings_set_alias (cstr edited) (app_settings app) of
             None \<Rightarrow> (show_message ''Device name must be 1-64 printable UTF-8 bytes'' app, w)
           | Some updated \<Rightarrow>
               (case persist_settings updated (app, w) of
                  (False, app, w) \<Rightarrow> (app, w)
                | (True, app, w) \<Rightarrow>
                    (show_message ''Device name updated''
                       (app\<lparr>app_identity := (app_identity app)\<lparr>device_alias := settings_alias (app_settings app)\<rparr>,
                            app_discovery := ls_discovery_announce now (app_discovery app)\<rparr>), w)))))"

definition on_off :: "bool \<Rightarrow> string" where
  "on_off b = (if b then ''enabled'' else ''disabled'')"

definition activate_setting :: "string option \<Rightarrow> u64 \<Rightarrow> app_world \<Rightarrow> app_world" where
  "activate_setting keyboard now = (\<lambda>(app, w).
     (let settings = app_settings app in
      case settings_item (selected_setting app) of
        Some LS_SETTING_DEVICE_NAME \<Rightarrow> edit_device_name keyboard now (app, w)
      | Some LS_SETTING_QUICK_SAVE \<Rightarrow>
          (case persist_settings (settings\<lparr>quick_save := \<not> quick_save settings\<rparr>) (app, w) of
             (False, app, w) \<Rightarrow> (app, w)
           | (True, app, w) \<Rightarrow>
               (show_message (''Quick Save '' @ on_off (quick_save (app_settings app)))
                  (app\<lparr>app_http_server := ls_http_server_set_quick_save (quick_save (app_settings app)) (app_http_server app)\<rparr>), w))
      | Some LS_SETTING_AUTO_FINISH \<Rightarrow>
          (case persist_settings (settings\<lparr>auto_finish := \<not> auto_finish settings\<rparr>) (app, w) of
             (False, app, w) \<Rightarrow> (app, w)
           | (True, app, w) \<Rightarrow> (show_message (''Auto Finish '' @ on_off (auto_finish (app_settings app))) app, w))
      | Some LS_SETTING_ADVANCED \<Rightarrow>
          (show_message ''SELECT closes developer view'' (app\<lparr>app_ui := (app_ui app)\<lparr>debug_view := True\<rparr>\<rparr>), w)
      | _ \<Rightarrow> (app, w)))"

definition auto_finish_completed_transfers :: "u64 \<Rightarrow> LsApp \<Rightarrow> LsApp" where
  "auto_finish_completed_transfers now app =
     (if \<not> auto_finish (app_settings app) then app
      else if tr_state (app_transfer app) = LS_TRANSFER_COMPLETED \<and> \<not> incoming_result_dismissed app \<and>
              now - tr_state_changed_ms (app_transfer app) \<ge> LS3DS_AUTO_FINISH_DELAY_MS then
        show_message ''Ready to receive'' (enter LS_APP_RECEIVE (app\<lparr>incoming_result_dismissed := True\<rparr>))
      else if ot_state (app_outgoing app) = LS_OUTGOING_COMPLETED \<and>
              now - ot_state_changed_ms (app_outgoing app) \<ge> LS3DS_AUTO_FINISH_DELAY_MS then
        show_message ''Ready'' (enter LS_APP_DISCOVERY (app\<lparr>app_outgoing := ls_outgoing_reset (app_outgoing app)\<rparr>))
      else app)"

section \<open>Input\<close>

definition touched_item :: "nat \<Rightarrow> LsApp \<Rightarrow> key set \<Rightarrow> LsApp \<times> key set" where
  "touched_item index app keys =
     (if app_state app = LS_APP_FILE_BROWSER \<and> index < length (fb_entries (app_file_browser app)) then
        (app\<lparr>app_file_browser := (app_file_browser app)\<lparr>fb_selected := index\<rparr>\<rparr>, insert KEY_A keys)
      else if (app_state app = LS_APP_DISCOVERY \<or> app_state app = LS_APP_RECIPIENT_PICKER) \<and>
              index < length (app_registry app) then (app\<lparr>selected_device := index\<rparr>, keys)
      else if app_state app = LS_APP_SETTINGS \<and> index < LS_SETTING_COUNT then (app\<lparr>selected_setting := index\<rparr>, keys)
      else (app, keys))"

definition apply_touch_action :: "LsUiTouchResult \<Rightarrow> LsApp \<Rightarrow> key set \<Rightarrow> LsApp \<times> key set" where
  "apply_touch_action touch app keys =
     (case fst touch of
        LS_UI_ACTION_ACCEPT \<Rightarrow> (app, insert KEY_A keys)
      | LS_UI_ACTION_PRIMARY \<Rightarrow> (app, insert KEY_A keys)
      | LS_UI_ACTION_REJECT \<Rightarrow> (app, insert KEY_B keys)
      | LS_UI_ACTION_CANCEL \<Rightarrow> (app, insert KEY_B keys)
      | LS_UI_ACTION_BACK \<Rightarrow> (app, insert KEY_B keys)
      | LS_UI_ACTION_REFRESH \<Rightarrow> (app, insert KEY_Y keys)
      | LS_UI_ACTION_NAV_RECEIVE \<Rightarrow> (enter LS_APP_RECEIVE app, keys)
      | LS_UI_ACTION_NAV_SEND \<Rightarrow> (enter LS_APP_DISCOVERY app, keys)
      | LS_UI_ACTION_NAV_SETTINGS \<Rightarrow> (enter LS_APP_SETTINGS app, keys)
      | LS_UI_ACTION_SETTINGS_UP \<Rightarrow> (app, insert KEY_DUP keys)
      | LS_UI_ACTION_SETTINGS_DOWN \<Rightarrow> (app, insert KEY_DDOWN keys)
      | LS_UI_ACTION_LIST_ITEM \<Rightarrow> touched_item (snd touch) app keys
      | LS_UI_ACTION_NONE \<Rightarrow> (app, keys))"

text \<open>The selection of a list of \<open>amount\<close> rows after the arrows.\<close>

definition moved :: "key set \<Rightarrow> nat \<Rightarrow> nat \<Rightarrow> nat" where
  "moved keys amount selected =
     (if amount = 0 then selected
      else
        (let selected = (if (KEY_DUP \<in> keys \<or> KEY_CPAD_UP \<in> keys) \<and> selected > 0 then selected - 1 else selected)
         in if (KEY_DDOWN \<in> keys \<or> KEY_CPAD_DOWN \<in> keys) \<and> selected + 1 < amount then selected + 1 else selected))"

definition user_accepts :: "u64 \<Rightarrow> app_world \<Rightarrow> app_world" where
  "user_accepts now = (\<lambda>(app, w).
     (case ls_http_server_accept_transfer now (app_http_server app, w) of
        (ok, server, w) \<Rightarrow>
          (show_message (if ok then ''Transfer accepted; waiting for upload'' else ''Could not accept transfer'')
             (app\<lparr>app_http_server := server\<rparr>), w)))"

definition user_rejects :: "u64 \<Rightarrow> app_world \<Rightarrow> app_world" where
  "user_rejects now = (\<lambda>(app, w).
     (case ls_http_server_reject_transfer now (app_http_server app, w) of
        (_, server, w) \<Rightarrow> (show_message ''Transfer rejected'' (app\<lparr>app_http_server := server\<rparr>), w)))"

definition user_cancels :: "u64 \<Rightarrow> app_world \<Rightarrow> app_world" where
  "user_cancels now = (\<lambda>(app, w).
     (case ls_http_server_cancel_transfer now (app_http_server app, w) of
        (_, server, w) \<Rightarrow> (show_message ''Transfer cancelled'' (app\<lparr>app_http_server := server\<rparr>), w)))"

definition user_cancels_outgoing :: "u64 \<Rightarrow> app_world \<Rightarrow> app_world" where
  "user_cancels_outgoing now = (\<lambda>(app, w).
     (case ls_outgoing_cancel now (app_outgoing app, w) of
        (_, outgoing, w) \<Rightarrow> (show_message ''Cancelling outgoing transfer'' (app\<lparr>app_outgoing := outgoing\<rparr>), w)))"

definition refresh_key :: "soc_answer \<Rightarrow> u64 \<Rightarrow> app_world \<Rightarrow> app_world" where
  "refresh_key answer now = (\<lambda>(app, w).
     (if app_state app \<noteq> LS_APP_NETWORK_ERROR \<and> \<not> ls_transfer_is_busy (app_transfer app) then
        (show_message ''Discovery announcement queued''
           (app\<lparr>app_discovery := ls_discovery_announce now (app_discovery app)\<rparr>), w)
      else if fingerprint (app_identity app) \<noteq> [] then snd (start_network_services answer now (app, w))
      else (app, w)))"

definition browser_input :: "dir_library \<Rightarrow> key set \<Rightarrow> app_world \<Rightarrow> app_world" where
  "browser_input lib keys = (\<lambda>(app, w).
     (let browser = app_file_browser app;
          browser = browser\<lparr>fb_selected := moved keys (length (fb_entries browser)) (fb_selected browser)\<rparr>;
          app = app\<lparr>app_file_browser := browser\<rparr>
      in if KEY_A \<in> keys then activate_file_entry lib (app, w)
         else if KEY_B \<in> keys then
           (case ls_file_browser_parent lib browser w of
              (ok, browser, w) \<Rightarrow>
                (let app = app\<lparr>app_file_browser := browser\<rparr> in (if ok then app else enter LS_APP_DISCOVERY app, w)))
         else (app, w)))"

definition recipient_input :: "u64 \<Rightarrow> key set \<Rightarrow> app_world \<Rightarrow> app_world" where
  "recipient_input now keys = (\<lambda>(app, w).
     (let app = app\<lparr>selected_device := moved keys (length (app_registry app)) (selected_device app)\<rparr>
      in if KEY_B \<in> keys then (enter LS_APP_FILE_BROWSER app, w)
         else if KEY_A \<in> keys then start_selected_outgoing now (app, w)
         else (app, w)))"

definition settings_input :: "frame_input \<Rightarrow> bool \<Rightarrow> key set \<Rightarrow> app_world \<Rightarrow> app_world" where
  "settings_input inp activated keys = (\<lambda>(app, w).
     (let app = app\<lparr>selected_setting := moved keys LS_SETTING_COUNT (selected_setting app)\<rparr>;
          (app, w) = (if KEY_A \<in> keys_down inp \<or> activated then activate_setting (fi_keyboard inp) (frame_now inp) (app, w)
                      else (app, w));
          app = (if KEY_B \<in> keys then enter LS_APP_DISCOVERY app else app);
          app = (if KEY_L \<in> keys then enter LS_APP_DISCOVERY app else app);
          app = (if KEY_R \<in> keys then enter LS_APP_RECEIVE app else app)
      in (app, w)))"

definition receive_input :: "key set \<Rightarrow> LsApp \<Rightarrow> LsApp" where
  "receive_input keys app =
     (let app = (if KEY_B \<in> keys then enter LS_APP_DISCOVERY app else app);
          app = (if KEY_L \<in> keys then enter LS_APP_SETTINGS app else app)
      in if KEY_R \<in> keys then enter LS_APP_DISCOVERY app else app)"

definition home_input :: "dir_library \<Rightarrow> key set \<Rightarrow> app_world \<Rightarrow> app_world" where
  "home_input lib keys = (\<lambda>(app, w).
     (let app = app\<lparr>selected_device := moved keys (length (app_registry app)) (selected_device app)\<rparr>;
          (app, w) = (if KEY_A \<in> keys then open_file_browser lib (app, w) else (app, w));
          app = (if KEY_L \<in> keys then enter LS_APP_RECEIVE app else app);
          app = (if KEY_R \<in> keys then enter LS_APP_SETTINGS app else app)
      in (app, w)))"

text \<open>The screens, when no transfer takes the input.\<close>

definition screen_input :: "dir_library \<Rightarrow> frame_input \<Rightarrow> bool \<Rightarrow> key set \<Rightarrow> app_world \<Rightarrow> app_world" where
  "screen_input lib inp activated keys st =
     (let st = (if KEY_Y \<in> keys then refresh_key (fi_soc inp) (frame_now inp) st else st)
      in case app_state (fst st) of
           LS_APP_FILE_BROWSER \<Rightarrow> browser_input lib keys st
         | LS_APP_RECIPIENT_PICKER \<Rightarrow> recipient_input (frame_now inp) keys st
         | LS_APP_SETTINGS \<Rightarrow> settings_input inp activated keys st
         | LS_APP_RECEIVE \<Rightarrow> (receive_input keys (fst st), snd st)
         | _ \<Rightarrow> home_input lib keys st)"

definition settings_touch_activation :: "LsUiTouchResult \<Rightarrow> LsApp \<Rightarrow> bool" where
  "settings_touch_activation touch app \<longleftrightarrow>
     app_state app = LS_APP_SETTINGS \<and> fst touch = LS_UI_ACTION_LIST_ITEM \<and> snd touch < LS_SETTING_COUNT"

text \<open>The input after the touch has been applied.\<close>

definition keys_input :: "dir_library \<Rightarrow> frame_input \<Rightarrow> bool \<Rightarrow> key set \<Rightarrow> app_world \<Rightarrow> app_world" where
  "keys_input lib inp activated keys = (\<lambda>(app, w).
     (let state = tr_state (app_transfer app) in
      if KEY_START \<in> keys_down inp then (app\<lparr>app_running := False\<rparr>, w)
      else if KEY_SELECT \<in> keys_down inp then
        (app\<lparr>app_ui := (app_ui app)\<lparr>debug_view := \<not> debug_view (app_ui app)\<rparr>\<rparr>, w)
      else if incoming_terminal state \<and> \<not> incoming_result_dismissed app \<and> (KEY_A \<in> keys \<or> KEY_B \<in> keys) then
        (enter LS_APP_DISCOVERY (app\<lparr>incoming_result_dismissed := True\<rparr>), w)
      else if state = LS_TRANSFER_WAITING_FOR_USER \<and> KEY_A \<in> keys then user_accepts (frame_now inp) (app, w)
      else if state = LS_TRANSFER_WAITING_FOR_USER \<and> KEY_B \<in> keys then user_rejects (frame_now inp) (app, w)
      else if (state = LS_TRANSFER_ACCEPTED \<or> state = LS_TRANSFER_RECEIVING) \<and> KEY_B \<in> keys then
        user_cancels (frame_now inp) (app, w)
      else if ls_outgoing_is_active (app_outgoing app) then
        (if KEY_B \<in> keys then user_cancels_outgoing (frame_now inp) (app, w) else (app, w))
      else if ot_state (app_outgoing app) \<in>
                {LS_OUTGOING_COMPLETED, LS_OUTGOING_REJECTED, LS_OUTGOING_CANCELLED, LS_OUTGOING_FAILED} then
        (if KEY_A \<in> keys \<or> KEY_B \<in> keys then
           (show_message ''Ready'' (enter LS_APP_DISCOVERY (app\<lparr>app_outgoing := ls_outgoing_reset (app_outgoing app)\<rparr>)), w)
         else (app, w))
      else screen_input lib inp activated keys (app, w)))"

definition handle_input :: "dir_library \<Rightarrow> frame_input \<Rightarrow> LsUiTouchResult \<Rightarrow> app_world \<Rightarrow> app_world" where
  "handle_input lib inp touch = (\<lambda>(app, w).
     (case apply_touch_action touch app (keys_down inp \<union> keys_repeat inp) of
        (touched, keys) \<Rightarrow> keys_input lib inp (settings_touch_activation touch app) keys (touched, w)))"

section \<open>A frame\<close>

definition update_services :: "u64 \<Rightarrow> app_world \<Rightarrow> app_world" where
  "update_services now = (\<lambda>(app, w).
     (case ls_discovery_update (app_identity app) now (app_discovery app, app_registry app, w) of
        (discovery, registry, w) \<Rightarrow>
          (case ls_http_server_update (app_identity app) now
                  (ls_http_server_set_external_transfer_busy (ls_outgoing_is_active (app_outgoing app)) (app_http_server app),
                   registry, w) of
             (server, registry, w) \<Rightarrow>
               (case ls_outgoing_update now (app_outgoing app, w) of
                  (outgoing, w) \<Rightarrow>
                    (let app = auto_finish_completed_transfers now
                           (app\<lparr>app_discovery := discovery, app_http_server := server, app_outgoing := outgoing\<rparr>);
                         registry = snd (ls_registry_prune now LS3DS_DEVICE_TIMEOUT_MS registry)
                     in (app\<lparr>app_registry := registry,
                             selected_device :=
                               (if length registry = 0 then 0
                                else if selected_device app \<ge> length registry then length registry - 1
                                else selected_device app)\<rparr>, w))))))"

text \<open>The touch a frame handles, and whether the refresh button is shown pressed.\<close>

definition frame_touch :: "frame_input \<Rightarrow> LsApp \<Rightarrow> LsUiTouchResult \<times> bool" where
  "frame_touch inp app =
     (if KEY_TOUCH \<in> keys_held inp then
        (let held = ls_ui_touch_action app (fst (touch_position inp)) (snd (touch_position inp))
         in (if KEY_TOUCH \<in> keys_down inp then held else (LS_UI_ACTION_NONE, 0), fst held = LS_UI_ACTION_REFRESH))
      else ((LS_UI_ACTION_NONE, 0), False))"

definition frame_start :: "frame_input \<Rightarrow> LsApp \<Rightarrow> LsApp" where
  "frame_start inp app =
     app\<lparr>app_ui := (app_ui app)\<lparr>refresh_pressed := snd (frame_touch inp app)\<rparr>,
         incoming_result_dismissed :=
           (incoming_terminal (tr_state (app_transfer app)) \<and> incoming_result_dismissed app)\<rparr>"

definition app_frame :: "dir_library \<Rightarrow> frame_input \<Rightarrow> app_world \<Rightarrow> app_world" where
  "app_frame lib inp = (\<lambda>(app, w).
     (case handle_input lib inp (fst (frame_touch inp app)) (frame_start inp app, w) of
        (app, w) \<Rightarrow>
          (case (if app_state app \<noteq> LS_APP_BOOTING \<and> app_state app \<noteq> LS_APP_NETWORK_ERROR
                 then update_services (frame_now inp) (app, w) else (app, w)) of
             (app, w) \<Rightarrow> (app\<lparr>last_render_ms := frame_now inp\<rparr>, w))))"

text \<open>Each frame ends with \<open>ls_ui_render\<close> of its application.\<close>

fun ls_app_run :: "dir_library \<Rightarrow> frame_input list \<Rightarrow> app_world \<Rightarrow> app_world" where
  "ls_app_run lib [] st = st"
| "ls_app_run lib (inp # frames) st =
     (if app_running (fst st) then ls_app_run lib frames (app_frame lib inp st) else st)"

end
