(* ===== verification/Spec2Isabelle.thy ===== *)
theory Spec2Isabelle
  imports Example_Server Example_Upload Application Logger
begin

text \<open>
  LocalSend3DS: placeholder header.
\<close>

section \<open>The server\<close>

text \<open>C1: whatever its peers, its card and its user do, in every interleaving of its connections a running
  server has brought its transfer where it is through the operations of the transfer alone; so the
  transfer satisfies its invariant.\<close>

theorem server_refines_transfer:
  assumes "server_reachable w0 (s, registry, w)"
  shows "transfer_run (Permits True True) (ls_transfer_init, w0) (sv_transfer s, w) \<and> transfer_inv (sv_transfer s) w"
  using reachable_run [OF assms] server_transfer_inv [OF assms] by simp

theorem server_refines_transfer_witness:
  "\<exists>s r w. ls_http_server_update example_device 9 example_started = (s, r, w) \<and>
     transfer_run (Permits True True) (ls_transfer_init, example_card) (sv_transfer s, w)"
proof -
  obtain s r w where u: "ls_http_server_update example_device 9 example_started = (s, r, w)" by (metis prod_cases3)
  have "server_reachable example_card (s, r, w)"
    using server_stepped [OF example_started_reachable server_update] u by metis
  from server_refines_transfer [OF this] u show ?thesis by blast
qed

text \<open>C2: on a card without faults nothing that was on the card when the server started is ever changed
  or removed, whatever the peers send.\<close>

theorem server_keeps_existing_files:
  assumes "server_reachable w0 (s, registry, w)" and "w_io w0 = []" and "w_fs w0 p = Some node"
  shows "w_fs w p = Some node"
  using server_card_kept [OF assms(1,2)] assms(3) by (simp add: card_kept_def)

theorem server_keeps_existing_files_witness:
  "w_fs (snd (snd (ls_http_server_update example_device 9 example_started))) ''sdmc:/old.txt'' = Some (FileNode ''keep'')"
proof -
  obtain s r w where u: "ls_http_server_update example_device 9 example_started = (s, r, w)" by (metis prod_cases3)
  have "server_reachable example_card (s, r, w)"
    using server_stepped [OF example_started_reachable server_update] u by metis
  from server_keeps_existing_files [OF this] u show ?thesis by (simp add: example_card_def example_world_def)
qed

text \<open>C3: polling a connection can start an upload only when what it has sent is a POST of the upload route
  that names the session, the file and the token of the accepted transfer, from the address of its
  sender.\<close>

theorem upload_starts_authorised:
  assumes "update_connection identity now i (s, r, w) = (s', r', w')" and "i < length (sv_clients s)"
    and "tr_state (sv_transfer s) \<noteq> LS_TRANSFER_RECEIVING" and "tr_state (sv_transfer s') = LS_TRANSFER_RECEIVING"
  shows "\<exists>data. upload_request (cn_rx (client s i) @ data) (cn_peer_ip (client s i)) (sv_transfer s)"
  by (rule stream_begins_authorised [OF assms(1,3,4,2)])

theorem upload_starts_authorised_witness:
  "\<exists>data. upload_request data ''10.0.0.2'' (fst example_accepted)"
proof -
  obtain s r w where u: "update_connection example_device 3000 0 (example_server, [], example_net [RecvData example_upload_text]) = (s, r, w)"
    "tr_state (sv_transfer s) = LS_TRANSFER_RECEIVING" using example_stream_begins by blast
  from upload_starts_authorised [OF u(1) _ _ u(2)] example_accepted_props(1) show ?thesis
    by (auto simp: example_server_def zero_server_def example_connection_def)
qed

text \<open>C4: when the reads of a connection complete an upload, the bytes it has taken from the socket are
  exactly one body as the request framed it, and the payload of that body is the file, of the announced
  size and hash; nothing else on the card has changed.\<close>

theorem upload_stores_one_body:
  assumes "transfer_inv (sv_transfer s) w" and "fresh_stream c" and "tr_state (sv_transfer s) \<noteq> LS_TRANSFER_COMPLETED"
    and "st = stream_reads ts (handle_upload_start request initial now (c, s, w))"
    and "tr_state (fst (transfer_of st)) = LS_TRANSFER_COMPLETED"
  shows "\<exists>session_id fileid token body payload.
    upload_parameters request = Some (session_id, fileid, token) \<and>
    ls_transfer_validate_upload (sv_transfer s) (cn_peer_ip c) session_id fileid token \<and>
    initial @ incoming (cn_fd c) w = body @ incoming (cn_fd c) (snd (snd st)) \<and>
    request_body request body payload \<and> received_intact (sv_transfer s, w) payload (transfer_of st)"
  by (rule upload_delivers [OF assms])

theorem upload_stores_one_body_witness:
  "\<exists>body payload. ''hi'' = body @ incoming 5 (snd (snd (stream_reads [3001]
     (handle_upload_start example_upload_request ''h'' 3000 (example_connection, example_server, example_net [RecvData ''i'']))))) \<and>
     request_body example_upload_request body payload"
proof -
  have f: "fresh_stream example_connection"
    by (simp add: example_connection_def fresh_stream_def zero_connection_def)
  have n: "tr_state (sv_transfer example_server) \<noteq> LS_TRANSFER_COMPLETED"
    using example_accepted_props(1) by (simp add: example_server_def)
  have "''h'' @ incoming (cn_fd example_connection) (example_net [RecvData ''i'']) = ''hi''"
    by (simp add: incoming_def example_net_def example_connection_def)
  moreover have "cn_fd example_connection = 5" by (simp add: example_connection_def)
  ultimately show ?thesis
    using upload_stores_one_body [OF example_net_inv f n refl example_upload_completes] by auto
qed



text \<open>C6: a reachable server always has its four slots, and in each of them every length stays inside its
  buffer and what is still to be sent is really there.\<close>

theorem buffers_in_bounds:
  assumes "server_reachable w0 (s, registry, w)" and "c \<in> set (sv_clients s)"
  shows "length (sv_clients s) = LS3DS_MAX_HTTP_CONNECTIONS \<and>
    length (cn_rx c) \<le> LS3DS_HTTP_RX_CAPACITY \<and> length (cn_tx c) \<le> LS3DS_HTTP_TX_CAPACITY \<and>
    length (cn_chunk_line c) \<le> CHUNK_LINE_CAPACITY \<and> cn_tx_sent c \<le> length (cn_tx c) \<and>
    (cn_mode c = LS_HTTP_WRITING_RESPONSE \<longrightarrow> cn_tx_sent c < length (cn_tx c))"
  using reachable_server_ok [OF assms(1)] assms(2) by (simp add: server_ok_def connection_ok_def)

theorem buffers_in_bounds_witness:
  "length (cn_tx (client (fst example_started) 0)) \<le> 3072"
proof -
  obtain s r w where st: "example_started = (s, r, w)" by (metis prod_cases3)
  have "client s 0 \<in> set (sv_clients s)"
    using reachable_server_ok [OF example_started_reachable] by (simp add: st server_ok_def)
  from buffers_in_bounds [OF _ this] example_started_reachable show ?thesis by (simp add: st)
qed

text \<open>C7: after every poll no open connection has been idle for as long as its timeout: reading and
  answering five seconds, streaming thirty, waiting for the user two minutes.\<close>

theorem idle_connections_closed:
  assumes "server_reachable w0 st" and "sv_running (fst st)" and "i < LS3DS_MAX_HTTP_CONNECTIONS"
    and "cn_fd (client (fst (ls_http_server_update identity now st)) i) \<ge> 0"
  shows "\<not> connection_expired now (client (fst (ls_http_server_update identity now st)) i)"
  using update_slots_ok(2) [OF reachable_server_ok [OF assms(1)] assms(2,3), of now identity] assms(4)
  by (simp add: active_at_def)

theorem idle_connections_closed_witness:
  "\<not> connection_expired 9 (client (fst (ls_http_server_update example_device 9 example_started)) 0)"
  using idle_connections_closed [OF example_started_reachable example_started_running, of 0 example_device 9]
    example_accepts by simp

section \<open>The sender\<close>

text \<open>C8: a file offered to a peer that agrees, over a plain connection without faults, is sent completely: the
  transfer starts, and a number of updates later it is completed; the peer has been sent the prepare request on one
  connection and, on the other, the head of the upload followed by exactly the file, of whatever length.\<close>

theorem agreeing_peer_gets_file:
  assumes "agreed w f1 f2 session fileid token identity peer path filename name content"
  shows "\<exists>started n t' w'. ls_outgoing_start identity tls peer path filename now (ls_outgoing_init, w) = (True, started) \<and>
    (ls_outgoing_update now ^^ n) started = (t', w') \<and> ot_state t' = LS_OUTGOING_COMPLETED \<and>
    ot_sent_bytes t' = of_nat (length content) \<and> w_fs w' = w_fs w \<and>
    w_wire w' f1 = w_wire w f1 @ prepare_text identity peer fileid name (of_nat (length content)) \<and>
    w_wire w' f2 = w_wire w f2 @ upload_head peer session fileid token (of_nat (length content)) @ content"
  by (rule agreed_upload_completes [OF assms])

theorem agreeing_peer_gets_file_witness:
  "\<exists>n. ot_state (fst ((ls_outgoing_update 5 ^^ n)
     (snd (ls_outgoing_start example_device None example_peer ''/f'' ''f'' 5 (ls_outgoing_init, example_sending))))) =
     LS_OUTGOING_COMPLETED"
  using agreeing_peer_gets_file [OF example_agreed, of None 5] by (metis fst_conv snd_conv)



text \<open>C10: an operation on a transfer changes no file, and it puts nothing into a TLS connection unless it is the
  connection of the transfer and the peer has shown, on that connection, a certificate that is valid, signed by itself
  and has the fingerprint the peer announced.\<close>

theorem tls_bytes_only_to_pinned_peer:
  assumes "outgoing_reachable (t, w)" and "outgoing_do op (t, w) = (t', w')"
  shows "w_fs w' = w_fs w \<and> (w_tls_wire w' fd = w_tls_wire w fd \<or> fd = tp_fd (ot_transport t) \<and>
    (\<exists>expected crt. ls_tls_fingerprint_parse (fingerprint (ot_peer t)) = Some expected \<and>
       crt \<in> presented fd w \<and> accepted_certificate expected crt))"
  using outgoing_do_ok [OF outgoing_reachable_inv [OF assms(1)] assms(2)]
  by (auto simp: sends_pinned_def pinned_def)

theorem tls_bytes_only_to_pinned_peer_witness:
  "\<exists>t w. outgoing_reachable (t, w) \<and> ot_state t = LS_OUTGOING_WAITING_FOR_UPLOAD_RESPONSE \<and>
     w_fs (snd (ls_outgoing_update 5 (t, w))) = w_fs w"
proof -
  obtain t w where r: "outgoing_reachable (t, w)" "ot_state t = LS_OUTGOING_WAITING_FOR_UPLOAD_RESPONSE"
    by (rule example_sent)
  obtain t' w' where "outgoing_do (OutUpdate 5) (t, w) = (t', w')" by (metis surj_pair)
  with tls_bytes_only_to_pinned_peer [OF r(1) this] r show ?thesis by (intro exI [of _ t] exI [of _ w]) auto
qed

text \<open>C11: whatever has happened, a transfer that is not in progress holds no credentials and no open file, a completed
  one has sent the whole file, one that cancels has a session to cancel, and its request, its block of the file, the
  bytes it keeps of the answer and its error text are within their buffers.\<close>

theorem outgoing_state_sound:
  assumes "outgoing_reachable (t, w)"
  shows "(\<not> ls_outgoing_is_active t \<longrightarrow> ot_session_id t = [] \<and> ot_file_token t = [] \<and> ot_file t = None) \<and>
    (ot_state t = LS_OUTGOING_COMPLETED \<longrightarrow> ot_sent_bytes t = ot_file_size t) \<and>
    (cancelling (ot_state t) \<longrightarrow> ot_session_id t \<noteq> []) \<and>
    ot_request_sent t \<le> length (ot_request t) \<and> length (ot_request t) \<le> LS3DS_OUTGOING_REQUEST_CAPACITY \<and>
    ot_io_sent t \<le> length (ot_io t) \<and> length (ot_io t) \<le> LS3DS_OUTGOING_IO_BUFFER_SIZE \<and>
    length (rs_raw (ot_response t)) < LS3DS_HTTP_RESPONSE_RAW_CAPACITY \<and>
    length (rs_body (ot_response t)) \<le> LS3DS_HTTP_RESPONSE_BODY_CAPACITY \<and>
    length (ot_error t) < LS3DS_TRANSFER_ERROR_CAPACITY"
  using outgoing_reachable_inv [OF assms]
  by (simp add: outgoing_inv_def sender_ok_def phase_ok_def no_credentials_def response_ok_def)

theorem outgoing_state_sound_witness:
  "\<exists>t w. outgoing_reachable (t, w) \<and> ls_outgoing_is_active t \<and> length (ot_io t) \<le> LS3DS_OUTGOING_IO_BUFFER_SIZE"
proof -
  obtain t w where r: "outgoing_reachable (t, w)" "ot_state t = LS_OUTGOING_WAITING_FOR_UPLOAD_RESPONSE"
    by (rule example_sent)
  from outgoing_state_sound [OF r(1)] r show ?thesis by (intro exI [of _ t] exI [of _ w]) (auto simp: ls_outgoing_is_active_def)
qed

text \<open>C12: a transfer ends, whatever its peer does: once the clock of its updates, which may pause for at most
  \<open>gap\<close> milliseconds, has passed a bound that depends only on the file, it is no longer in progress.\<close>

theorem outgoing_transfer_ends:
  assumes "outgoing_reachable (t, w)" and "outgoing_ticks (t, w) clock (t', w')"
    and "paced gap (ot_last_activity_ms t # clock)"
    and "unat (ot_last_activity_ms t) + (180000 + gap) * (11 * (6400 + unat (ot_file_size t) + 1) + 1)
      < unat (last (ot_last_activity_ms t # clock))"
  shows "\<not> ls_outgoing_is_active t'"
  using outgoing_over [OF assms(2) outgoing_reachable_inv [OF assms(1)] assms(3)] assms(4)
  by (simp add: longest_timeout_def most_work_def)

theorem outgoing_transfer_ends_witness:
  "\<exists>t w t' w' clock. outgoing_reachable (t, w) \<and> ls_outgoing_is_active t \<and> outgoing_ticks (t, w) clock (t', w') \<and>
     \<not> ls_outgoing_is_active t'"
proof -
  obtain t w where r: "outgoing_reachable (t, w)" "ot_state t = LS_OUTGOING_WAITING_FOR_UPLOAD_RESPONSE"
      "ot_last_activity_ms t = 0" "ot_file_size t = 2"
    by (rule example_sent)
  obtain t' w' where k: "outgoing_ticks (t, w) (steady 200000 150000) (t', w')" using ticks_exist by blast
  have p: "paced 200000 (ot_last_activity_ms t # steady 200000 150000)"
    unfolding r(3) by (rule steady_paced) simp
  have "\<not> ls_outgoing_is_active t'"
    using outgoing_transfer_ends [OF r(1) k p] unfolding r(3,4) steady_last by (simp add: unat_of_nat)
  moreover have "ls_outgoing_is_active t" using r(2) by (simp add: ls_outgoing_is_active_def)
  ultimately show ?thesis using r(1) k by blast
qed

section \<open>Receiving a file\<close>

text \<open>C13: whatever the card does, an upload that finishes successfully has put at its final path
  exactly the concatenation of the received pieces, of the announced size and hash, has removed the
  partial file and changed no other path.\<close>

theorem upload_delivers_exact_bytes:
  assumes "transfer_reachable (t, w)"
    and "receive_upload declared start chunks end_ms (t, w) = (Some LS_TRANSFER_FINISH_SUCCESS, t', w')"
  shows "file_at w' (tr_final_path t) = Some (concat (map fst chunks)) \<and>
         length (concat (map fst chunks)) = unat (file_size (tr_file_metadata t)) \<and>
         (has_sha256 (tr_file_metadata t) \<longrightarrow>
            ls_sha256_hex (sha256 (bytes_of (concat (map fst chunks)))) = file_sha256 (tr_file_metadata t)) \<and>
         tr_state t' = LS_TRANSFER_COMPLETED \<and> w_fs w' (tr_part_path t) = None \<and>
         others_unchanged {tr_final_path t, tr_part_path t} w w'"
  by (rule upload_intact [OF reachable_inv [OF assms(1)] assms(2)])

text \<open>C14: on a card without faults an accepted upload of exactly the announced bytes, in any pieces,
  succeeds.\<close>

theorem upload_completes:
  assumes "transfer_reachable (t, w)" and "tr_state t = LS_TRANSFER_ACCEPTED" and "w_io w = []"
    and "w_fs w (tr_part_path t) = None" and "w_fs w (tr_final_path t) = None"
    and "declared = None \<or> declared = Some (file_size (tr_file_metadata t))"
    and "length (concat (map fst chunks)) = unat (file_size (tr_file_metadata t))"
    and "has_sha256 (tr_file_metadata t) \<Longrightarrow>
      file_sha256 (tr_file_metadata t) = ls_sha256_hex (sha256 (bytes_of (concat (map fst chunks))))"
  shows "\<exists>t' w'. receive_upload declared start chunks end_ms (t, w) = (Some LS_TRANSFER_FINISH_SUCCESS, t', w')"
  by (rule upload_succeeds [OF reachable_inv [OF assms(1)] assms(2-8)])

theorem upload_completes_witness:
  "\<exists>t' w'. receive_upload (Some 2) 3000 [(''h'', 3000), (''i'', 3001)] 3002 example_accepted =
     (Some LS_TRANSFER_FINISH_SUCCESS, t', w')"
  using upload_completes [of "fst example_accepted" "snd example_accepted" "Some 2" "[(''h'', 3000), (''i'', 3001)]" 3000 3002]
    example_accepted_reachable example_accepted_props
  by (simp add: received_file_def)

lemma example_upload:
  "\<exists>t' w'. receive_upload (Some 2) 3000 [(''h'', 3000), (''i'', 3001)] 3002 (fst example_accepted, snd example_accepted) =
     (Some LS_TRANSFER_FINISH_SUCCESS, t', w')"
  by (rule upload_succeeds [OF reachable_inv])
     (simp_all add: example_accepted_reachable example_accepted_props received_file_def)

theorem upload_delivers_exact_bytes_witness:
  "file_at (snd (snd (receive_upload (Some 2) 3000 [(''h'', 3000), (''i'', 3001)] 3002 example_accepted)))
     ''sdmc:/in/a.txt'' = Some ''hi''"
proof -
  obtain t' w' where u: "receive_upload (Some 2) 3000 [(''h'', 3000), (''i'', 3001)] 3002
      (fst example_accepted, snd example_accepted) = (Some LS_TRANSFER_FINISH_SUCCESS, t', w')"
    using example_upload by blast
  with upload_delivers_exact_bytes [OF _ u] example_accepted_reachable example_accepted_props(2)
  show ?thesis by simp
qed

text \<open>C15: an upload request is let through exactly when a session has been accepted and the sender's
  address, the session, the file and the token are the ones of that session.\<close>

theorem upload_needs_credentials:
  assumes "transfer_reachable (t, w)"
  shows "ls_transfer_validate_upload t ip session_id fileid token \<longleftrightarrow>
    tr_state t = LS_TRANSFER_ACCEPTED \<and> ip = tr_sender_ip t \<and> session_id = tr_session_id t \<and>
    fileid = file_id (tr_file_metadata t) \<and> token = tr_file_token t"
  by (rule upload_authorised [OF reachable_inv [OF assms]])

theorem upload_needs_credentials_witness:
  "ls_transfer_validate_upload (fst example_accepted) ''10.0.0.2'' ''01010101-0101-4101-8101-010101010101'' ''id1''
     ''02020202-0202-4202-8202-020202020202'' \<and>
   \<not> ls_transfer_validate_upload (fst example_accepted) ''10.0.0.3'' ''01010101-0101-4101-8101-010101010101'' ''id1''
     ''02020202-0202-4202-8202-020202020202''"
  using upload_needs_credentials [of "fst example_accepted" "snd example_accepted"] example_accepted_reachable
    example_accepted_props
  by (simp add: received_file_def)

text \<open>C16: session and token are version 4 UUIDs while a session is open and erased at every other time.\<close>

theorem credentials_live_with_session:
  assumes "transfer_reachable (t, w)"
  shows "(if tr_state t = LS_TRANSFER_ACCEPTED \<or> tr_state t = LS_TRANSFER_RECEIVING
          then uuid_text (tr_session_id t) \<and> uuid_text (tr_file_token t)
          else tr_session_id t = [] \<and> tr_file_token t = [])"
  using reachable_inv [OF assms] by (simp add: transfer_inv_def has_session_def)

theorem credentials_live_with_session_witness:
  "uuid_text (tr_session_id (fst example_accepted)) \<and> uuid_text (tr_file_token (fst example_accepted))"
  using credentials_live_with_session [of "fst example_accepted" "snd example_accepted"] example_accepted_reachable
    example_accepted_props(1) by simp

text \<open>C17: no operation of the transfer touches a file other than its partial and its final path; it can
  only create directories besides.\<close>

theorem other_files_untouched:
  assumes "transfer_reachable (t, w)" and "transfer_step (t, w) op (t', w')"
    and "p \<noteq> tr_part_path t" and "p \<noteq> tr_final_path t"
  shows "w_fs w' p = w_fs w p \<or> w_fs w p = None \<and> w_fs w' p = Some DirNode"
  using step_card [OF assms(2) reachable_inv [OF assms(1)]] assms(3,4) by (simp add: card_step_def)

theorem other_files_untouched_witness:
  "\<exists>t' w'. transfer_step example_accepted (Op_fail None 9) (t', w') \<and>
     (w_fs w' ''sdmc:/b.txt'' = w_fs (snd example_accepted) ''sdmc:/b.txt'' \<or>
      w_fs (snd example_accepted) ''sdmc:/b.txt'' = None \<and> w_fs w' ''sdmc:/b.txt'' = Some DirNode)"
proof -
  obtain t' w' where f: "ls_transfer_fail None 9 (fst example_accepted) (snd example_accepted) = (t', w')"
    by fastforce
  have s: "transfer_step (fst example_accepted, snd example_accepted) (Op_fail None 9) (t', w')" by (rule step_fail [OF f])
  from other_files_untouched [OF _ s, of "''sdmc:/b.txt''"] s show ?thesis
    by (intro exI conjI) (simp_all add: example_accepted_reachable example_accepted_props)
qed

text \<open>C18: the state of a transfer moves only along its life cycle.\<close>

theorem transfer_life_cycle:
  assumes "transfer_reachable (t, w)" and "transfer_step (t, w) op (t', w')"
  shows "tr_state t' = tr_state t \<or> tr_state t' \<in> next_states (tr_state t)"
  by (rule step_states [OF assms(2) reachable_inv [OF assms(1)]])

theorem transfer_life_cycle_witness:
  "\<exists>t' w'. transfer_step example_accepted (Op_cancel None 9) (t', w') \<and>
     (tr_state t' = LS_TRANSFER_ACCEPTED \<or> tr_state t' \<in> next_states LS_TRANSFER_ACCEPTED)"
proof -
  obtain t' w' where f: "ls_transfer_cancel None 9 (fst example_accepted) (snd example_accepted) = (t', w')"
    by fastforce
  have s: "transfer_step (fst example_accepted, snd example_accepted) (Op_cancel None 9) (t', w')"
    by (rule step_cancel [OF f])
  from transfer_life_cycle [OF _ s] s show ?thesis
    by (intro exI conjI) (simp_all add: example_accepted_reachable example_accepted_props(1))
qed

section \<open>Hashing\<close>


section \<open>Messages\<close>

text \<open>C20: a discovery announcement this program writes is read back as the same device.\<close>

theorem announcement_read_back:
  assumes "device_message_wf d" and "length a < LS3DS_IPV4_CAPACITY"
    and "ls_protocol_write_announcement d capacity = Some message"
  shows "ls_protocol_parse_device message (Some a) = Inr (received_device d True (Some a))"
  using announcement_roundtrip [OF assms(1), of "Some a"] assms(2,3)
  by (simp add: write_announcement split: if_splits)

theorem announcement_read_back_witness:
  "\<exists>message. ls_protocol_write_announcement example_device 2048 = Some message \<and>
     ls_protocol_parse_device message (Some ''10.0.0.2'') = Inr (received_device example_device True (Some ''10.0.0.2''))"
proof -
  have w: "ls_protocol_write_announcement example_device 2048 = Some (announcement_text example_device)"
    by (simp add: write_announcement example_lengths)
  from announcement_read_back [OF example_device_wf _ w, of "''10.0.0.2''"] w show ?thesis by simp
qed

text \<open>C21: the prepare-upload request this program sends is read by its own server as the same sender and
  file.\<close>

theorem prepare_request_read_back:
  assumes "device_message_wf d" and "sendable_file fileid filename filetype" and "length a < LS3DS_IPV4_CAPACITY"
    and "ls_protocol_write_prepare_upload_request d fileid filename filesize filetype capacity = Some message"
  shows "ls_protocol_parse_prepare_upload message (Some a) =
    Inr \<lparr>request_sender = received_device d False (Some a), request_file = received_file fileid filename filesize filetype\<rparr>"
  using request_roundtrip [OF assms(1,2), of "Some a" filesize] assms(2-4)
  by (simp add: write_prepare_upload_request sendable_file_def split: if_splits)

theorem prepare_request_read_back_witness:
  "\<exists>message. ls_protocol_write_prepare_upload_request example_device ''id1'' ''a.txt'' 2 ''text/plain'' 3072 = Some message \<and>
     ls_protocol_parse_prepare_upload message (Some example_ip) = Inr example_request"
proof -
  have w: "ls_protocol_write_prepare_upload_request example_device ''id1'' ''a.txt'' 2 ''text/plain'' 3072 =
      Some (request_text example_device ''id1'' ''a.txt'' 2 ''text/plain'')"
    by (simp add: write_prepare_upload_request example_lengths)
  from prepare_request_read_back [OF example_device_wf example_sendable _ w, of example_ip] w show ?thesis
    by (simp add: example_request_def example_ip_def)
qed

text \<open>C22: the answer to prepare-upload is read back by the sending side as the same session and token.\<close>

theorem prepare_response_read_back:
  assumes "text_field LS3DS_SESSION_ID_CAPACITY session_id" and "session_id \<noteq> []"
    and "text_field LS3DS_FILE_ID_CAPACITY fileid" and "fileid \<noteq> []"
    and "text_field LS3DS_FILE_TOKEN_CAPACITY token" and "token \<noteq> []"
    and "ls_protocol_write_prepare_upload_response session_id fileid token capacity = Some message"
  shows "ls_protocol_parse_prepare_upload_response message fileid =
    Inr \<lparr>response_session_id = session_id, response_file_token = token\<rparr>"
  using response_roundtrip [OF assms(1-6)] assms(7) by (simp add: write_prepare_upload_response split: if_splits)

theorem prepare_response_read_back_witness:
  "\<exists>message. ls_protocol_write_prepare_upload_response ''s'' ''id1'' ''t'' 512 = Some message \<and>
     ls_protocol_parse_prepare_upload_response message ''id1'' =
       Inr \<lparr>response_session_id = ''s'', response_file_token = ''t''\<rparr>"
proof -
  have w: "ls_protocol_write_prepare_upload_response ''s'' ''id1'' ''t'' 512 = Some (response_text ''s'' ''id1'' ''t'')"
    unfolding write_prepare_upload_response by code_simp
  have f: "text_field 65 ''s'' \<and> text_field 129 ''id1'' \<and> text_field 65 ''t''" by code_simp
  from prepare_response_read_back [OF _ _ _ _ _ _ w] f w show ?thesis by simp
qed



section \<open>File names and paths\<close>

text \<open>C24: an accepted file name is not empty, has no separator, drive, wildcard or control character and
  no trailing dot or space; applying the sanitizer again changes nothing.\<close>

theorem sanitized_name_safe:
  assumes "ls_filename_sanitize input capacity = (LS_FILENAME_OK, output)"
  shows "safe_filename output \<and> length output = length input \<and> length output < capacity \<and>
    ls_filename_sanitize output capacity = (LS_FILENAME_OK, output)"
  using sanitize_safe [OF assms] sanitize_idempotent by blast

theorem sanitized_name_safe_witness:
  "safe_filename ''a_b'' \<and> ls_filename_sanitize ''a_b'' 256 = (LS_FILENAME_OK, ''a_b'')"
proof -
  have "ls_filename_sanitize ''a?b'' 256 = (LS_FILENAME_OK, ''a_b'')" by code_simp
  from sanitized_name_safe [OF this] show ?thesis by simp
qed

text \<open>C25: the selected destination is a direct child of the download directory and, on a card without
  faults, neither it nor its partial path exists yet.\<close>

theorem selected_path_inside_and_new:
  assumes "ls_filename_sanitize input LS3DS_FILENAME_CAPACITY = (LS_FILENAME_OK, name)"
    and "ls_filesystem_select_paths directory name final_capacity part_capacity w = (Some (final_path, part_path), w')"
    and "w_io w = []"
  shows "(\<exists>child. final_path = directory @ ''/'' @ child \<and> CHR ''/'' \<notin> set child \<and> child \<noteq> []) \<and>
    part_path = final_path @ ''.part'' \<and> w_fs w final_path = None \<and> w_fs w part_path = None \<and>
    length final_path < final_capacity \<and> length part_path < part_capacity"
proof -
  have "no_slash name" "name \<noteq> []"
    using sanitize_safe [OF assms(1)] by (auto simp: safe_filename_def safe_char_def no_slash_def)
  with assms(2,3) candidate_inside show ?thesis
    by (fastforce simp: ls_filesystem_select_paths_def no_slash_def split: if_splits dest!: select_loop_props)
qed

theorem selected_path_inside_and_new_witness:
  "\<exists>final_path part_path w'. ls_filesystem_select_paths ''sdmc:/in'' ''a.txt'' 512 512 example_world =
       (Some (final_path, part_path), w') \<and> w_fs example_world final_path = None"
proof -
  have n: "ls_filename_sanitize ''a.txt'' LS3DS_FILENAME_CAPACITY = (LS_FILENAME_OK, ''a.txt'')" by code_simp
  have e: "w_io example_world = [] \<and> fst (ls_filesystem_select_paths ''sdmc:/in'' ''a.txt'' 512 512 example_world) =
      Some (''sdmc:/in/a.txt'', ''sdmc:/in/a.txt.part'')" by code_simp
  obtain r w' where s: "ls_filesystem_select_paths ''sdmc:/in'' ''a.txt'' 512 512 example_world = (r, w')" by fastforce
  with e have r: "r = Some (''sdmc:/in/a.txt'', ''sdmc:/in/a.txt.part'')" by simp
  from selected_path_inside_and_new [OF n s [unfolded r]] e s r show ?thesis by simp
qed

section \<open>Settings and the screen\<close>

text \<open>C26: whatever calls on the card fail while settings are saved, and wherever the saving stops, the settings are not
  lost: a later start reads the new settings when the saving succeeded and the old ones when it did not.\<close>

theorem settings_survive_failed_save:
  assumes "ls_settings_save new path w = (ok, w')" and "settings_at w path = Some old"
    and "path \<noteq> []" "length path + 4 < LS_SETTINGS_PATH_CAPACITY" and "w_fs v = w_fs w'" "w_io v = []"
  shows "\<exists>v'. ls_settings_load d path v = (True, if ok then new else old, v')"
proof -
  have "stored_settings path w' = Some (if ok then new else old)"
    using save_keeps [OF assms(1), of old] assms(2) by (auto simp: stored_settings_def split: if_splits)
  then have s: "stored_settings path v = Some (if ok then new else old)" using stored_same(3) [of path w' v] assms(5) by (simp add: only_changes_def)
  obtain r s v' where l: "ls_settings_load d path v = (r, s, v')" by (metis surj_pair)
  from load_keeps(3) [OF l assms(3) _ assms(6,4)] s l show ?thesis by auto
qed

theorem settings_survive_failed_save_witness:
  "\<exists>w. w_io w \<noteq> [] \<and> (\<exists>ok s v'. ls_settings_load ls_settings_defaults ''s'' ((snd (ls_settings_save ls_settings_defaults ''s'' w))\<lparr>w_io := []\<rparr>) =
     (ok, s, v') \<and> ok \<and> (s = ls_settings_defaults \<or> s = ls_settings_defaults\<lparr>quick_save := True\<rparr>))"
proof -
  let ?old = "ls_settings_defaults\<lparr>quick_save := True\<rparr>"
  let ?w = "example_world\<lparr>w_fs := [''s'' \<mapsto> FileNode (settings_text ?old)], w_io := replicate 7 IoOk @ [IoFail 0]\<rparr>"
  have "valid_alias (settings_alias ?old)" by code_simp
  then have old: "settings_at ?w ''s'' = Some ?old" by (simp add: settings_at_def file_at_def settings_read_back)
  obtain ok w' where s: "ls_settings_save ls_settings_defaults ''s'' ?w = (ok, w')" by (metis surj_pair)
  from settings_survive_failed_save [OF s old, of "w'\<lparr>w_io := []\<rparr>" ls_settings_defaults] show ?thesis
    using s by (intro exI [of _ ?w]) (cases ok; auto)
qed



text \<open>C28: the percentage shown for a transfer is its progress rounded down, for every 64-bit size, although it is
  computed without the product; a completed transfer shows 100 and an empty one 0 until then.\<close>

theorem percentage_is_floor:
  "ls_ui_percentage current overall completed =
     (if completed then 100 else if overall = 0 then 0 else min 100 (unat current * 100 div unat overall))"
proof (cases "completed \<or> overall = 0")
  case False
  then have "0 < unat overall" by (simp add: unat_gt_0)
  with percentage_floor [OF this, of current] False show ?thesis by simp
qed (auto simp: ls_ui_percentage_def)

text \<open>C29: the text shown for a file name always fits the width of its place and its buffer; it is the whole name where
  that fits, and otherwise nothing or the beginning of the name, cut between two characters, three dots and the
  extension or nothing; and it is nothing only where not even the dots fit.\<close>

theorem shown_name_fits:
  assumes "0 < capacity" and "0 < (width::'w::{linorder,zero})"
  shows "\<exists>t. ls_ui_ellipsize_filename input width capacity m = Some t \<and> length t < capacity \<and> (t = [] \<or> m t \<le> width) \<and>
    (t = input \<or> t = [] \<or> (\<exists>p ext. at_boundary input p \<and> p \<le> length input \<and> t = take p input @ ''...'' @ ext \<and>
      (ext = [] \<or> (\<exists>n. input = n @ ''.'' @ ext \<and> p \<le> length n)))) \<and>
    (length input < capacity \<and> m input \<le> width \<longrightarrow> t = input) \<and>
    (m ''...'' \<le> width \<and> 3 < capacity \<and> t = [] \<longrightarrow> input = [])"
  by (rule ellipsized_shape [OF assms, of input m]) blast

theorem shown_name_fits_witness:
  "\<exists>t. ls_ui_ellipsize_filename ''holiday-photos.jpeg'' 12 32 length = Some t \<and> length t \<le> 12 \<and> t \<noteq> []"
  using shown_name_fits [of 32 "12::nat" "''holiday-photos.jpeg''" length] by auto
section \<open>The device registry\<close>

text \<open>C30: every registry the program can reach holds at most 16 devices under distinct, non-empty
  fingerprints.\<close>

theorem registry_always_well_formed:
  "registry_wf (registry_run operations ls_registry_init)"
  by (rule registry_reachable_wf)

text \<open>C31: an unknown device in a full registry replaces an entry seen longest ago, and only that one.\<close>

theorem full_registry_evicts_oldest:
  assumes "length r = LS3DS_MAX_DEVICES" and "fingerprint d \<noteq> []" and "fingerprint d \<notin> fingerprint ` set r"
  shows "\<exists>i < length r. ls_registry_upsert d now r =
           (LS_REGISTRY_REPLACED, r[i := d\<lparr>last_seen_ms := now\<rparr>]) \<and>
         (\<forall>k < length r. last_seen_ms (r ! i) \<le> last_seen_ms (r ! k))"
  by (rule upsert_evicts_oldest [OF assms])

theorem full_registry_evicts_oldest_witness:
  "\<exists>i < 16. ls_registry_upsert example_device 9 (replicate 16 zero_device) =
     (LS_REGISTRY_REPLACED, (replicate 16 zero_device)[i := example_device\<lparr>last_seen_ms := 9\<rparr>])"
  using full_registry_evicts_oldest [of "replicate 16 zero_device" example_device 9]
  by (auto simp: zero_device_def example_device_def)



section \<open>HTTP requests\<close>




text \<open>C34: the end of the headers is found at the first blank line, neither earlier nor later.\<close>

theorem header_end_is_first_blank_line:
  "find_header_end data = n \<and> 0 < n \<longleftrightarrow>
     4 \<le> n \<and> n \<le> length data \<and> take 4 (drop (n - 4) data) = END_OF_HEADERS \<and>
     \<not> (\<exists>j < n - 4. take 4 (drop j data) = END_OF_HEADERS)"
  using find_header_end_spec [of data n] by auto


section \<open>Identifiers\<close>

text \<open>C36: every generated identifier is a version 4 UUID.\<close>

theorem uuid_is_version_4:
  assumes "ls_secure_random_uuid w = (Some s, w')"
  shows "uuid_text s"
  by (rule uuid_format [OF assms])

theorem uuid_is_version_4_witness: "uuid_text ''01010101-0101-4101-8101-010101010101''"
proof -
  have "fst (ls_secure_random_uuid example_world) = Some ''01010101-0101-4101-8101-010101010101''" by code_simp
  then have "ls_secure_random_uuid example_world =
      (Some ''01010101-0101-4101-8101-010101010101'', snd (ls_secure_random_uuid example_world))"
    by (metis prod.collapse)
  from uuid_is_version_4 [OF this] show ?thesis .
qed

text \<open>C37: a text the writer puts into a JSON document is read back unchanged.\<close>

theorem json_string_read_back:
  assumes "valid_utf8 s" and "nul_free s" and "length s < capacity"
  shows "parse_string (Some capacity) (json_text s @ rest) = Inr (s, rest)"
  by (rule parse_string_json_Some [OF assms])

theorem json_string_read_back_witness:
  "parse_string (Some 8) (json_text [QUOTE, LF, BACKSLASH, CHR ''a''] @ ''}'') = Inr ([QUOTE, LF, BACKSLASH, CHR ''a''], ''}'')"
  by (rule json_string_read_back) (code_simp, code_simp, simp)

end
